(* ===== verification/Prelude.thy ===== *)
theory Prelude
  imports Complex_Main "HOL-Library.Multiset" "HOL-Library.AList"
begin

text \<open>
  Shared vocabulary of the development: the Python values the program computes with, and the
  facts about lists, ordered dictionaries and sums that several components use.

  \<^item> Python's unbounded \<^verbatim>\<open>int\<close> is \<^typ>\<open>int\<close>, or \<^typ>\<open>nat\<close> where the code only ever holds
    counts and offsets that are not negative.
  \<^item> Python's \<^verbatim>\<open>float\<close> is \<open>pyfloat\<close>, an exact real: rounding, infinities and NaN are not modelled.
  \<^item> \<^verbatim>\<open>datetime\<close> (always UTC here) and \<^verbatim>\<open>timedelta\<close> are whole microseconds, \<open>time\<close>, the resolution
    both Python classes have.
  \<^item> An exception is a value of \<open>py_exn\<close> on the left of a sum.
  \<^item> A \<^verbatim>\<open>dict\<close> whose iteration order matters is an association list: \<^const>\<open>AList.update\<close> overwrites in
    place and otherwise appends at the end, which is the insertion order of a Python \<^verbatim>\<open>dict\<close>.
\<close>

type_synonym pyfloat = real
type_synonym time = int

datatype py_exn =
    ValueError | IndexError | KeyError | LookupError | ZeroDivisionError | AssertionError
  | RuntimeError | OverflowError

type_synonym 'a result = "py_exn + 'a"

definition microseconds_per_second :: int where
  "microseconds_per_second = 1000000"

definition seconds :: "int \<Rightarrow> time" where
  "seconds n = n * microseconds_per_second"

definition minutes :: "int \<Rightarrow> time" where
  "minutes n = seconds (60 * n)"

definition hours :: "int \<Rightarrow> time" where
  "hours n = seconds (3600 * n)"

definition days :: "int \<Rightarrow> time" where
  "days n = seconds (86400 * n)"

lemmas time_units = seconds_def minutes_def hours_def days_def microseconds_per_second_def

definition total_seconds :: "time \<Rightarrow> pyfloat" where
  "total_seconds d = of_int d / of_int microseconds_per_second"

text \<open>
  \<^verbatim>\<open>int(x)\<close> cuts towards zero; \<^verbatim>\<open>round(x)\<close> rounds half to even, as does the conversion of a number of
  seconds to the microseconds of a \<^verbatim>\<open>timedelta\<close>.
\<close>

definition int_of_float :: "pyfloat \<Rightarrow> int" where
  "int_of_float x = (if 0 \<le> x then \<lfloor>x\<rfloor> else \<lceil>x\<rceil>)"

definition round_half_even :: "pyfloat \<Rightarrow> int" where
  "round_half_even x =
     (let n = \<lfloor>x\<rfloor>; r = x - of_int n
      in if r < 1 / 2 then n else if 1 / 2 < r then n + 1 else if even n then n else n + 1)"

definition timedelta_of_seconds :: "pyfloat \<Rightarrow> time" where
  "timedelta_of_seconds s = round_half_even (s * of_int microseconds_per_second)"

lemma round_half_even_mono: "x \<le> y \<Longrightarrow> round_half_even x \<le> round_half_even y"
proof -
  assume xy: "x \<le> y"
  then have f: "\<lfloor>x\<rfloor> \<le> \<lfloor>y\<rfloor>" by (rule floor_mono)
  show ?thesis
  proof (cases "\<lfloor>x\<rfloor> = \<lfloor>y\<rfloor>")
    case True
    with xy show ?thesis by (simp add: round_half_even_def Let_def)
  next
    case False
    with f have "\<lfloor>x\<rfloor> + 1 \<le> \<lfloor>y\<rfloor>" by simp
    then show ?thesis by (simp add: round_half_even_def Let_def)
  qed
qed

lemma round_half_even_of_int [simp]: "round_half_even (of_int n) = n"
  by (simp add: round_half_even_def)

named_theorems guard_simps \<open>equations that unfold a validating constructor or a guard\<close>
named_theorems frame_simps \<open>what an operation leaves unchanged\<close>
named_theorems inv_intros \<open>operations preserve the invariant of their component\<close>

subsection \<open>Sums as results\<close>

fun is_ok :: "'e + 'a \<Rightarrow> bool" where
  "is_ok (Inl _) = False"
| "is_ok (Inr _) = True"

lemma is_ok_iff: "is_ok r \<longleftrightarrow> (\<exists>x. r = Inr x)"
  by (cases r) auto

lemma ok_pairE:
  assumes "is_ok (fst r)" obtains x where "r = (Inr x, snd r)"
  using assms by (cases r; cases "fst r") auto

lemma error_pairE:
  assumes "\<not> is_ok (fst r)" obtains e where "r = (Inl e, snd r)"
  using assms by (cases r; cases "fst r") auto

definition bind_result :: "'e + 'a \<Rightarrow> ('a \<Rightarrow> 'e + 'b) \<Rightarrow> 'e + 'b" where
  "bind_result r f = (case r of Inl e \<Rightarrow> Inl e | Inr x \<Rightarrow> f x)"

lemma bind_result_simps [simp]:
  "bind_result (Inl e) f = Inl e"
  "bind_result (Inr x) f = f x"
  by (simp_all add: bind_result_def)

lemma bind_result_Inr_iff: "bind_result r f = Inr y \<longleftrightarrow> (\<exists>x. r = Inr x \<and> f x = Inr y)"
  by (cases r) auto

fun the_default :: "'a \<Rightarrow> 'a option \<Rightarrow> 'a" where
  "the_default d None = d"
| "the_default d (Some x) = x"

lemma option_ext: "(\<And>v. a = Some v \<longleftrightarrow> b = Some v) \<Longrightarrow> a = b"
  by (cases a; cases b) auto

subsection \<open>Python sequence operations\<close>

text \<open>\<^verbatim>\<open>xs[a:b]\<close> for offsets that are not negative; out-of-range bounds are clipped, as in Python.\<close>

definition slice :: "'a list \<Rightarrow> nat \<Rightarrow> nat \<Rightarrow> 'a list" where
  "slice xs a b = take (b - a) (drop a xs)"

lemma length_slice: "b \<le> length xs \<Longrightarrow> length (slice xs a b) = b - a"
  by (simp add: slice_def)

lemma slice_0: "slice xs 0 b = take b xs"
  by (simp add: slice_def)

lemma slice_full: "slice xs 0 (length xs) = xs"
  by (simp add: slice_def)

lemma slice_empty [simp]: "b \<le> a \<Longrightarrow> slice xs a b = []"
  by (simp add: slice_def)

lemma slice_append:
  assumes "a \<le> b" and "b \<le> c"
  shows "slice xs a b @ slice xs b c = slice xs a c"
proof -
  have "take (b - a) (drop a xs) @ take (c - b) (drop (b - a) (drop a xs)) =
        take ((b - a) + (c - b)) (drop a xs)"
    by (rule take_add [symmetric])
  then show ?thesis using assms by (simp add: slice_def add.commute)
qed

lemma slice_of_slice:
  assumes "a \<le> b" and "b \<le> c"
  shows "slice (slice xs a c) (b - a) (d - a) = slice xs b (min c d)"
proof -
  have "slice (slice xs a c) (b - a) (d - a) =
        take (d - a - (b - a)) (take (c - a - (b - a)) (drop (b - a) (drop a xs)))"
    by (simp add: slice_def drop_take)
  also have "\<dots> = take (min (d - b) (c - b)) (drop b xs)"
    using assms by simp
  also have "min (d - b) (c - b) = min c d - b"
    by linarith
  also have "take (min c d - b) (drop b xs) = slice xs b (min c d)"
    by (simp add: slice_def)
  finally show ?thesis .
qed

text \<open>\<^verbatim>\<open>dict.fromkeys(xs)\<close> and the \<^verbatim>\<open>seen\<close>-set loops: the first occurrence of each element, in order.\<close>

fun keep_first :: "'a list \<Rightarrow> 'a list" where
  "keep_first [] = []"
| "keep_first (x # xs) = x # filter (\<lambda>y. y \<noteq> x) (keep_first xs)"

lemma set_keep_first [simp]: "set (keep_first xs) = set xs"
  by (induction xs) auto

lemma distinct_keep_first [simp]: "distinct (keep_first xs)"
  by (induction xs) auto

lemma keep_first_distinct: "distinct xs \<Longrightarrow> keep_first xs = xs"
proof (induction xs)
  case (Cons x xs)
  then show ?case by (auto intro!: filter_True)
qed simp

text \<open>\<^verbatim>\<open>list.remove(x)\<close> for an element that is present: the first equal element goes.\<close>

lemma mset_remove1_Cons: "x \<in> set xs \<Longrightarrow> add_mset x (mset (remove1 x xs)) = mset xs"
  by simp

lemma length_remove1_less: "x \<in> set xs \<Longrightarrow> length (remove1 x xs) < length xs"
  using length_pos_if_in_set [of x xs] by (simp add: length_remove1)

lemma find_SomeD: "find P xs = Some x \<Longrightarrow> x \<in> set xs \<and> P x"
  by (auto simp: find_Some_iff)

text \<open>\<^verbatim>\<open>max(xs, key=f)\<close>: the first element with the largest key, as Python returns.\<close>

fun first_max :: "('a \<Rightarrow> 'b::linorder) \<Rightarrow> 'a \<Rightarrow> 'a list \<Rightarrow> 'a" where
  "first_max f best [] = best"
| "first_max f best (x # xs) = first_max f (if f best < f x then x else best) xs"

lemma first_max_in: "first_max f b xs \<in> insert b (set xs)"
  by (induction xs arbitrary: b) (auto split: if_splits)

lemma first_max_ge: "x \<in> insert b (set xs) \<Longrightarrow> f x \<le> f (first_max f b xs)"
proof (induction xs arbitrary: b x)
  case Nil
  then show ?case by simp
next
  case (Cons y ys)
  have best: "f (if f b < f y then y else b) \<le> f (first_max f (if f b < f y then y else b) ys)"
    by (rule Cons.IH) simp
  show ?case
  proof (cases "x = b \<or> x = y")
    case True
    then have "f x \<le> f (if f b < f y then y else b)" by auto
    from this best have "f x \<le> f (first_max f (if f b < f y then y else b) ys)"
      by (rule order_trans)
    then show ?thesis by simp
  next
    case False
    with Cons.prems show ?thesis by (auto intro!: Cons.IH)
  qed
qed

subsection \<open>Ordered dictionaries\<close>

lemma map_of_update_same [simp]: "map_of (AList.update k v al) k = Some v"
  by (simp add: update_conv')

lemma map_of_update_other [simp]: "k' \<noteq> k \<Longrightarrow> map_of (AList.update k v al) k' = map_of al k'"
  by (simp add: update_conv')

lemma keys_update [simp]: "fst ` set (AList.update k v al) = insert k (fst ` set al)"
  by (induction al) auto

lemma distinct_keys_update:
  "distinct (map fst al) \<Longrightarrow> distinct (map fst (AList.update k v al))"
  by (rule distinct_update)

definition dict_get :: "('k \<times> 'v) list \<Rightarrow> 'k \<Rightarrow> 'v \<Rightarrow> 'v" where
  "dict_get d k dflt = (case map_of d k of None \<Rightarrow> dflt | Some v \<Rightarrow> v)"

lemma dict_get_update:
  "dict_get (AList.update k v d) k' dflt = (if k' = k then v else dict_get d k' dflt)"
  by (simp add: dict_get_def)

subsection \<open>Tables\<close>

text \<open>
  A SQL table is the list of its rows. \<open>update_where p f\<close> is \<^verbatim>\<open>UPDATE ... SET f WHERE p\<close>: every row
  that satisfies the condition is rewritten, where both sides of the assignment read the old
  row; \<open>row_count p\<close> is the \<^verbatim>\<open>rowcount\<close> the statement reports.
\<close>

definition update_where :: "('r \<Rightarrow> bool) \<Rightarrow> ('r \<Rightarrow> 'r) \<Rightarrow> 'r list \<Rightarrow> 'r list" where
  "update_where p f rows = map (\<lambda>r. if p r then f r else r) rows"

definition row_count :: "('r \<Rightarrow> bool) \<Rightarrow> 'r list \<Rightarrow> nat" where
  "row_count p rows = length (filter p rows)"

lemma update_where_Nil [simp]: "update_where p f [] = []"
  by (simp add: update_where_def)

lemma update_where_Cons [simp]:
  "update_where p f (r # rows) = (if p r then f r else r) # update_where p f rows"
  by (simp add: update_where_def)

lemma length_update_where [simp]: "length (update_where p f rows) = length rows"
  by (simp add: update_where_def)

lemma set_update_where:
  "set (update_where p f rows) = f ` {r \<in> set rows. p r} \<union> {r \<in> set rows. \<not> p r}"
  by (auto simp: update_where_def)

lemma in_update_whereE:
  assumes "r' \<in> set (update_where p f rows)"
  obtains r where "r \<in> set rows" and "r' = (if p r then f r else r)"
  using assms by (auto simp: update_where_def)

lemma update_where_none: "(\<And>r. r \<in> set rows \<Longrightarrow> \<not> p r) \<Longrightarrow> update_where p f rows = rows"
  by (induction rows) auto

lemma map_update_where [simp]:
  "(\<And>r. r \<in> set rows \<Longrightarrow> p r \<Longrightarrow> g (f r) = g r) \<Longrightarrow> map g (update_where p f rows) = map g rows"
  by (induction rows) auto

lemma row_count_0_iff: "row_count p rows = 0 \<longleftrightarrow> (\<forall>r \<in> set rows. \<not> p r)"
  by (simp add: row_count_def filter_empty_conv)

lemma length_filter_le_mono:
  "(\<And>x. x \<in> set xs \<Longrightarrow> p x \<Longrightarrow> q x) \<Longrightarrow> length (filter p xs) \<le> length (filter q xs)"
proof (induction xs)
  case (Cons x xs)
  from Cons.IH [OF Cons.prems] Cons.prems [of x] show ?case by auto
qed simp

lemma row_count_le_1:
  assumes "distinct (map g rows)" and "\<And>r. p r \<Longrightarrow> g r = k"
  shows "row_count p rows \<le> 1"
  using assms
proof (induction rows)
  case Nil
  then show ?case by (simp add: row_count_def)
next
  case (Cons r rows)
  show ?case
  proof (cases "p r")
    case True
    with Cons.prems have "g r = k" by blast
    with Cons.prems(1) have "k \<notin> g ` set rows" by auto
    with Cons.prems(2) have "\<forall>x \<in> set rows. \<not> p x" by blast
    then have "filter p rows = []" by (simp add: filter_empty_conv)
    then show ?thesis by (simp add: row_count_def True)
  next
    case False
    with Cons show ?thesis by (simp add: row_count_def)
  qed
qed

lemma distinct_map_eqD:
  "distinct (map g rows) \<Longrightarrow> r \<in> set rows \<Longrightarrow> r' \<in> set rows \<Longrightarrow> g r = g r' \<Longrightarrow> r = r'"
  by (auto simp: distinct_map inj_on_def)

text \<open>\<^verbatim>\<open>ORDER BY key LIMIT 1\<close>: the first row of the least key.\<close>

lemma sort_key_first:
  assumes "sort_key f xs = x # rest"
  shows "x \<in> set xs" and "y \<in> set xs \<Longrightarrow> f x \<le> f y"
proof -
  have "set (sort_key f xs) = set xs" by simp
  with assms show "x \<in> set xs" by (metis list.set_intros(1))
  assume "y \<in> set xs"
  then have "y \<in> set (x # rest)" by (metis assms set_sort)
  moreover have "sorted (map f (x # rest))" using assms sorted_sort_key [of f xs] by simp
  ultimately show "f x \<le> f y" by auto
qed

subsection \<open>Bounded lists of numbers\<close>

lemma sum_list_nonneg_le:
  fixes f :: "'a \<Rightarrow> real"
  assumes "\<And>x. x \<in> set xs \<Longrightarrow> 0 \<le> f x"
  shows "0 \<le> sum_list (map f xs)"
  using assms by (induction xs) auto

lemma div_le_1: "0 \<le> a \<Longrightarrow> a \<le> b \<Longrightarrow> a / (b::real) \<le> 1"
  by (cases "b = 0") (simp_all add: divide_le_eq_1)

end
