(* ===== verification/Job_Queue.thy ===== *)
theory Job_Queue
  imports Pystring
begin

text \<open>
  The Postgres job queue: \<^verbatim>\<open>domain/jobs.py\<close> (statuses, types, the validated \<^verbatim>\<open>JobSpec\<close> and \<^verbatim>\<open>Job\<close>),
  the \<^verbatim>\<open>jobs\<close> table of \<^verbatim>\<open>adapters/db/models.py\<close> with its CHECK constraints and its partial unique
  index, and every operation of \<^verbatim>\<open>adapters/db/job_queue.py\<close>.

  The table is a list of rows. Row-level security restricts each statement to the rows of the
  current user, the parameter \<open>me\<close>; \<open>now\<close> is the database's \<^verbatim>\<open>now()\<close>; \<open>locked\<close> are the ids of
  rows other transactions hold locks on, which \<^verbatim>\<open>FOR UPDATE SKIP LOCKED\<close> passes over. SQL leaves
  the order of rows with equal sort keys open; the model takes them in list order, and every
  lemma is stated for an arbitrary list.
\<close>

section \<open>Data\<close>

datatype job_status = PENDING | RUNNING | SUCCEEDED | FAILED | CANCELLED

datatype job_type =
    SYNC_SOURCE | NORMALIZE_MEMORY | EMBED_MEMORY | EXTRACT_ENTITIES | SYNC_GRAPH
  | HANDLE_EVENT | ASSEMBLE_CONTEXT | NOOP | FAIL_TRANSIENT | FAIL_PERMANENT

fun job_type_value :: "job_type \<Rightarrow> string" where
  "job_type_value SYNC_SOURCE = ''sync_source''"
| "job_type_value NORMALIZE_MEMORY = ''normalize_memory''"
| "job_type_value EMBED_MEMORY = ''embed_memory''"
| "job_type_value EXTRACT_ENTITIES = ''extract_entities''"
| "job_type_value SYNC_GRAPH = ''sync_graph''"
| "job_type_value HANDLE_EVENT = ''handle_event''"
| "job_type_value ASSEMBLE_CONTEXT = ''assemble_context''"
| "job_type_value NOOP = ''noop''"
| "job_type_value FAIL_TRANSIENT = ''fail_transient''"
| "job_type_value FAIL_PERMANENT = ''fail_permanent''"

lemma job_type_value_inj: "job_type_value a = job_type_value b \<Longrightarrow> a = b"
  by (cases a; cases b) simp_all

datatype json = JStr string | JList "string list"

type_synonym payload = "(string \<times> json) list"

record job_spec =
  spec_type :: job_type
  spec_payload :: payload
  spec_dedupe_key :: "string option"
  spec_priority :: int
  spec_max_attempts :: int
  spec_run_after :: "time option"

definition DEFAULT_MAX_ATTEMPTS :: int where
  "DEFAULT_MAX_ATTEMPTS = 5"

definition job_spec_post_init :: "job_spec \<Rightarrow> job_spec result" where
  "job_spec_post_init s =
     (if spec_max_attempts s < 1 then Inl ValueError
      else if spec_dedupe_key s = Some [] then Inl ValueError
      else Inr s)"

record job =
  job_id :: nat
  job_user :: nat
  job_type_of :: string
  job_payload :: payload
  job_status_of :: job_status
  job_attempts :: int
  job_max_attempts :: int
  job_run_after :: time
  job_priority :: int
  job_dedupe_key :: "string option"
  job_locked_by :: "string option"
  job_locked_at :: "time option"
  job_lease_expires_at :: "time option"
  job_last_error :: "string option"
  job_last_traceback :: "string option"
  job_created_at :: time
  job_updated_at :: time
  job_completed_at :: "time option"

definition attempts_exhausted :: "job \<Rightarrow> bool" where
  "attempts_exhausted j \<longleftrightarrow> job_max_attempts j \<le> job_attempts j"

definition job_post_init :: "job \<Rightarrow> job result" where
  "job_post_init j =
     (if job_attempts j < 0 then Inl ValueError
      else if job_max_attempts j < 1 then Inl ValueError
      else Inr j)"

text \<open>The CHECK constraints of the table.\<close>

definition job_row_checks :: "job \<Rightarrow> bool" where
  "job_row_checks j \<longleftrightarrow>
     0 \<le> job_attempts j \<and> 1 \<le> job_max_attempts j \<and>
     (job_status_of j = RUNNING \<longrightarrow> job_locked_by j \<noteq> None \<and> job_lease_expires_at j \<noteq> None)"

text \<open>The partial unique index \<^verbatim>\<open>uq_jobs_dedupe\<close>: its predicate and its columns.\<close>

definition in_dedupe_index :: "job \<Rightarrow> bool" where
  "in_dedupe_index j \<longleftrightarrow>
     job_dedupe_key j \<noteq> None \<and> (job_status_of j = PENDING \<or> job_status_of j = RUNNING)"

definition dedupe_columns :: "job \<Rightarrow> nat \<times> string \<times> string option" where
  "dedupe_columns j = (job_user j, job_type_of j, job_dedupe_key j)"

section \<open>The order of claims\<close>

text \<open>
  \<^verbatim>\<open>ORDER BY priority DESC, run_after\<close> as a linear order, so that the library's \<^const>\<open>sort_key\<close>
  and its lemmas serve for the claim query.
\<close>

datatype claim_rank = Claim_Rank (rank_priority: int) (rank_run_after: time)

instantiation claim_rank :: linorder
begin

definition less_eq_claim_rank :: "claim_rank \<Rightarrow> claim_rank \<Rightarrow> bool" where
  "less_eq_claim_rank a b \<longleftrightarrow>
     rank_priority b < rank_priority a \<or>
     rank_priority b = rank_priority a \<and> rank_run_after a \<le> rank_run_after b"

definition less_claim_rank :: "claim_rank \<Rightarrow> claim_rank \<Rightarrow> bool" where
  "less_claim_rank a b \<longleftrightarrow> a \<le> b \<and> \<not> b \<le> (a :: claim_rank)"

instance
proof
  fix a b c :: claim_rank
  show "a < b \<longleftrightarrow> a \<le> b \<and> \<not> b \<le> a" by (rule less_claim_rank_def)
  show "a \<le> a" by (simp add: less_eq_claim_rank_def)
  show "a \<le> b \<Longrightarrow> b \<le> c \<Longrightarrow> a \<le> c" by (auto simp: less_eq_claim_rank_def)
  show "a \<le> b \<Longrightarrow> b \<le> a \<Longrightarrow> a = b"
    by (cases a; cases b) (auto simp: less_eq_claim_rank_def)
  show "a \<le> b \<or> b \<le> a" by (auto simp: less_eq_claim_rank_def)
qed

end

definition claim_rank_of :: "job \<Rightarrow> claim_rank" where
  "claim_rank_of j = Claim_Rank (job_priority j) (job_run_after j)"

section \<open>Operations\<close>

definition lease_expiry :: "time \<Rightarrow> time \<Rightarrow> time" where
  "lease_expiry now lease = now + lease"

definition owned_by :: "nat \<Rightarrow> nat \<Rightarrow> string \<Rightarrow> job \<Rightarrow> bool" where
  "owned_by me jid worker j \<longleftrightarrow>
     job_user j = me \<and> job_id j = jid \<and> job_locked_by j = Some worker \<and> job_status_of j = RUNNING"

definition enqueue_in ::
  "nat \<Rightarrow> time \<Rightarrow> nat \<Rightarrow> job_spec \<Rightarrow> job list \<Rightarrow> nat option \<times> job list" where
  "enqueue_in me now new_id spec q =
     (let row = \<lparr> job_id = new_id, job_user = me, job_type_of = job_type_value (spec_type spec),
                  job_payload = spec_payload spec, job_status_of = PENDING, job_attempts = 0,
                  job_max_attempts = spec_max_attempts spec,
                  job_run_after = (case spec_run_after spec of None \<Rightarrow> now | Some t \<Rightarrow> t),
                  job_priority = spec_priority spec, job_dedupe_key = spec_dedupe_key spec,
                  job_locked_by = None, job_locked_at = None, job_lease_expires_at = None,
                  job_last_error = None, job_last_traceback = None,
                  job_created_at = now, job_updated_at = now, job_completed_at = None \<rparr>
      in if in_dedupe_index row \<and>
            (\<exists>j \<in> set q. in_dedupe_index j \<and> dedupe_columns j = dedupe_columns row)
         then (None, q) else (Some new_id, q @ [row]))"

definition claimable ::
  "nat \<Rightarrow> time \<Rightarrow> job_type list option \<Rightarrow> nat list \<Rightarrow> job \<Rightarrow> bool" where
  "claimable me now only locked j \<longleftrightarrow>
     job_user j = me \<and> job_status_of j = PENDING \<and> job_run_after j \<le> now \<and>
     job_id j \<notin> set locked \<and>
     (case only of None \<Rightarrow> True | Some ts \<Rightarrow> job_type_of j \<in> set (map job_type_value ts))"

definition mark_claimed :: "string \<Rightarrow> time \<Rightarrow> time \<Rightarrow> job \<Rightarrow> job" where
  "mark_claimed worker now lease j =
     j\<lparr> job_status_of := RUNNING, job_locked_by := Some worker, job_locked_at := Some now,
        job_lease_expires_at := Some (lease_expiry now lease),
        job_attempts := job_attempts j + 1, job_updated_at := now \<rparr>"

definition claim ::
  "nat \<Rightarrow> time \<Rightarrow> string \<Rightarrow> time \<Rightarrow> job_type list option \<Rightarrow> nat list \<Rightarrow> job list \<Rightarrow>
   job option \<times> job list" where
  "claim me now worker lease only locked q =
     (case sort_key claim_rank_of (filter (claimable me now only locked) q) of
        [] \<Rightarrow> (None, q)
      | c # _ \<Rightarrow>
          (Some (mark_claimed worker now lease c),
           update_where (\<lambda>j. job_id j = job_id c) (mark_claimed worker now lease) q))"

definition fenced_update ::
  "nat \<Rightarrow> nat \<Rightarrow> string \<Rightarrow> (job \<Rightarrow> job) \<Rightarrow> job list \<Rightarrow> bool \<times> job list" where
  "fenced_update me jid worker f q =
     (row_count (owned_by me jid worker) q = 1, update_where (owned_by me jid worker) f q)"

definition heartbeat ::
  "nat \<Rightarrow> time \<Rightarrow> nat \<Rightarrow> string \<Rightarrow> time \<Rightarrow> job list \<Rightarrow> bool \<times> job list" where
  "heartbeat me now jid worker lease =
     fenced_update me jid worker
       (\<lambda>j. j\<lparr> job_lease_expires_at := Some (lease_expiry now lease), job_updated_at := now \<rparr>)"

definition complete :: "nat \<Rightarrow> time \<Rightarrow> nat \<Rightarrow> string \<Rightarrow> job list \<Rightarrow> bool \<times> job list" where
  "complete me now jid worker =
     fenced_update me jid worker
       (\<lambda>j. j\<lparr> job_status_of := SUCCEEDED, job_locked_by := None, job_locked_at := None,
                job_lease_expires_at := None, job_completed_at := Some now,
                job_updated_at := now \<rparr>)"

definition reschedule ::
  "nat \<Rightarrow> time \<Rightarrow> nat \<Rightarrow> string \<Rightarrow> time \<Rightarrow> string \<Rightarrow> string \<Rightarrow> job list \<Rightarrow>
   bool \<times> job list" where
  "reschedule me now jid worker run_after error tb =
     fenced_update me jid worker
       (\<lambda>j. j\<lparr> job_status_of := PENDING, job_run_after := run_after, job_locked_by := None,
                job_locked_at := None, job_lease_expires_at := None,
                job_last_error := Some error, job_last_traceback := Some tb,
                job_updated_at := now \<rparr>)"

definition dead_letter ::
  "nat \<Rightarrow> time \<Rightarrow> nat \<Rightarrow> string \<Rightarrow> string \<Rightarrow> string \<Rightarrow> job list \<Rightarrow> bool \<times> job list" where
  "dead_letter me now jid worker error tb =
     fenced_update me jid worker
       (\<lambda>j. j\<lparr> job_status_of := FAILED, job_locked_by := None, job_locked_at := None,
                job_lease_expires_at := None, job_last_error := Some error,
                job_last_traceback := Some tb, job_completed_at := Some now,
                job_updated_at := now \<rparr>)"

definition lease_expired :: "nat \<Rightarrow> time \<Rightarrow> job \<Rightarrow> bool" where
  "lease_expired me now j \<longleftrightarrow>
     job_user j = me \<and> job_status_of j = RUNNING \<and>
     (case job_lease_expires_at j of None \<Rightarrow> False | Some t \<Rightarrow> t < now)"

definition mark_reclaimed :: "time \<Rightarrow> job \<Rightarrow> job" where
  "mark_reclaimed now j =
     j\<lparr> job_status_of := (if attempts_exhausted j then FAILED else PENDING),
        job_locked_by := None, job_locked_at := None, job_lease_expires_at := None,
        job_last_error :=
          (case job_last_error j of None \<Rightarrow> Some ''lease expired'' | Some e \<Rightarrow> Some e),
        job_updated_at := now,
        job_completed_at := (if attempts_exhausted j then Some now else None) \<rparr>"

definition reclaim_expired ::
  "nat \<Rightarrow> time \<Rightarrow> nat \<Rightarrow> nat list \<Rightarrow> job list \<Rightarrow> nat \<times> job list" where
  "reclaim_expired me now limit locked q =
     (let ids = map job_id (take limit (sort_key (\<lambda>j. the_default 0 (job_lease_expires_at j))
                  (filter (\<lambda>j. lease_expired me now j \<and> job_id j \<notin> set locked) q)))
      in if ids = [] then (0, q)
         else (row_count (\<lambda>j. job_user j = me \<and> job_id j \<in> set ids) q,
               update_where (\<lambda>j. job_user j = me \<and> job_id j \<in> set ids) (mark_reclaimed now) q))"

section \<open>The invariant of the table\<close>

definition job_row_ok :: "job \<Rightarrow> bool" where
  "job_row_ok j \<longleftrightarrow> job_row_checks j \<and>
     (job_status_of j \<noteq> RUNNING \<longrightarrow> job_locked_by j = None \<and> job_lease_expires_at j = None)"

definition dedupe_unique :: "job list \<Rightarrow> bool" where
  "dedupe_unique q \<longleftrightarrow> distinct (map dedupe_columns (filter in_dedupe_index q))"

definition queue_inv :: "job list \<Rightarrow> bool" where
  "queue_inv q \<longleftrightarrow> distinct (map job_id q) \<and> list_all job_row_ok q \<and> dedupe_unique q"

lemma queue_invD:
  assumes "queue_inv q"
  shows "distinct (map job_id q)" and "j \<in> set q \<Longrightarrow> job_row_ok j" and "dedupe_unique q"
  using assms by (auto simp: queue_inv_def list_all_iff)

lemma queue_inv_empty: "queue_inv []"
  by (simp add: queue_inv_def dedupe_unique_def)

lemma same_job:
  "queue_inv q \<Longrightarrow> j \<in> set q \<Longrightarrow> k \<in> set q \<Longrightarrow> job_id j = job_id k \<Longrightarrow> j = k"
  by (blast dest: queue_invD(1) distinct_map_eqD)

text \<open>An update that keeps the id and the index columns, and never brings a row into the index.\<close>

definition keeps_identity :: "(job \<Rightarrow> bool) \<Rightarrow> (job \<Rightarrow> job) \<Rightarrow> bool" where
  "keeps_identity p f \<longleftrightarrow> (\<forall>j. p j \<longrightarrow>
     job_id (f j) = job_id j \<and> dedupe_columns (f j) = dedupe_columns j \<and>
     (in_dedupe_index (f j) \<longrightarrow> in_dedupe_index j))"

lemma dedupe_unique_update_where:
  assumes "keeps_identity p f" and "dedupe_unique q"
  shows "dedupe_unique (update_where p f q)"
proof -
  have sub: "set (map dedupe_columns (filter in_dedupe_index (update_where p f q))) \<subseteq>
             set (map dedupe_columns (filter in_dedupe_index q))" for q
    using assms(1) by (auto simp: keeps_identity_def set_update_where image_iff)
  show ?thesis using assms(2)
  proof (induction q)
    case (Cons j q)
    then have "dedupe_unique (update_where p f q)"
      by (simp add: dedupe_unique_def split: if_splits)
    moreover have "in_dedupe_index j \<Longrightarrow>
        dedupe_columns j \<notin> set (map dedupe_columns (filter in_dedupe_index (update_where p f q)))"
      using Cons.prems sub [of q] by (auto simp: dedupe_unique_def)
    ultimately show ?case
      using assms(1) by (auto simp: dedupe_unique_def keeps_identity_def)
  qed simp
qed

lemma queue_inv_update_where:
  assumes "queue_inv q" and "keeps_identity p f"
    and "\<And>j. j \<in> set q \<Longrightarrow> p j \<Longrightarrow> job_row_ok j \<Longrightarrow> job_row_ok (f j)"
  shows "queue_inv (update_where p f q)"
proof -
  have "map job_id (update_where p f q) = map job_id q"
    by (rule map_update_where) (use assms(2) in \<open>simp add: keeps_identity_def\<close>)
  moreover have "list_all job_row_ok (update_where p f q)"
    using assms(1,3) by (auto simp: queue_inv_def list_all_iff set_update_where)
  ultimately show ?thesis
    using assms(1,2) by (simp add: queue_inv_def dedupe_unique_update_where)
qed

lemma fenced_update_inv:
  assumes "queue_inv q" and "keeps_identity (owned_by me jid w) f"
    and "\<And>j. owned_by me jid w j \<Longrightarrow> job_row_ok j \<Longrightarrow> job_row_ok (f j)"
  shows "queue_inv (snd (fenced_update me jid w f q))"
  using assms by (auto simp: fenced_update_def intro!: queue_inv_update_where)

lemmas queue_op_defs =
  keeps_identity_def owned_by_def dedupe_columns_def in_dedupe_index_def job_row_ok_def
  job_row_checks_def

lemma heartbeat_inv [inv_intros]:
  "queue_inv q \<Longrightarrow> queue_inv (snd (heartbeat me now jid w lease q))"
  unfolding heartbeat_def by (rule fenced_update_inv) (auto simp: queue_op_defs)

lemma complete_inv [inv_intros]:
  "queue_inv q \<Longrightarrow> queue_inv (snd (complete me now jid w q))"
  unfolding complete_def by (rule fenced_update_inv) (auto simp: queue_op_defs)

lemma reschedule_inv [inv_intros]:
  "queue_inv q \<Longrightarrow> queue_inv (snd (reschedule me now jid w t e tb q))"
  unfolding reschedule_def by (rule fenced_update_inv) (auto simp: queue_op_defs)

lemma dead_letter_inv [inv_intros]:
  "queue_inv q \<Longrightarrow> queue_inv (snd (dead_letter me now jid w e tb q))"
  unfolding dead_letter_def by (rule fenced_update_inv) (auto simp: queue_op_defs)

lemma claimed_row:
  assumes "claim me now w lease only locked q = (Some j', q')"
  obtains j where "j \<in> set q" and "claimable me now only locked j"
    and "j' = mark_claimed w now lease j"
    and "q' = update_where (\<lambda>k. job_id k = job_id j) (mark_claimed w now lease) q"
    and "\<And>k. k \<in> set q \<Longrightarrow> claimable me now only locked k \<Longrightarrow> claim_rank_of j \<le> claim_rank_of k"
proof -
  let ?cs = "filter (claimable me now only locked) q"
  from assms obtain c rest where cs: "sort_key claim_rank_of ?cs = c # rest"
    and j': "j' = mark_claimed w now lease c"
    and q': "q' = update_where (\<lambda>k. job_id k = job_id c) (mark_claimed w now lease) q"
    by (auto simp: claim_def split: list.splits)
  from sort_key_first(1) [OF cs] have c: "c \<in> set q" "claimable me now only locked c" by auto
  have "claim_rank_of c \<le> claim_rank_of k"
    if "k \<in> set q" "claimable me now only locked k" for k
    using sort_key_first(2) [OF cs, of k] that by simp
  with c j' q' that show ?thesis by blast
qed

lemma claim_None:
  "claim me now w lease only locked q = (None, q') \<longleftrightarrow>
   q' = q \<and> (\<forall>j \<in> set q. \<not> claimable me now only locked j)"
proof (cases "sort_key claim_rank_of (filter (claimable me now only locked) q)")
  case Nil
  then have "filter (claimable me now only locked) q = []"
    by (metis set_empty set_sort)
  with Nil show ?thesis by (auto simp: claim_def filter_empty_conv)
next
  case (Cons c rest)
  with sort_key_first(1) [OF Cons] show ?thesis by (auto simp: claim_def)
qed

lemma claim_inv [inv_intros]:
  assumes "queue_inv q"
  shows "queue_inv (snd (claim me now w lease only locked q))"
proof (cases "fst (claim me now w lease only locked q)")
  case None
  then show ?thesis using assms by (metis claim_None prod.collapse snd_conv)
next
  case (Some j')
  then obtain j where j: "j \<in> set q" "claimable me now only locked j"
    and q': "snd (claim me now w lease only locked q) =
             update_where (\<lambda>k. job_id k = job_id j) (mark_claimed w now lease) q"
    by (metis claimed_row prod.collapse snd_conv)
  have same: "k = j" if "k \<in> set q" "job_id k = job_id j" for k
    using same_job [OF assms] that j(1) by simp
  then have "update_where (\<lambda>k. job_id k = job_id j) (mark_claimed w now lease) q =
             update_where (\<lambda>k. k = j) (mark_claimed w now lease) q"
    using j(1) by (auto simp: update_where_def)
  also have "queue_inv \<dots>"
    using assms j by (intro queue_inv_update_where)
      (auto simp: queue_op_defs claimable_def mark_claimed_def)
  finally show ?thesis by (simp add: q')
qed

lemma reclaim_expired_eq:
  "\<exists>ids. set ids \<subseteq> job_id ` {j \<in> set q. lease_expired me now j \<and> job_id j \<notin> set locked} \<and>
     length ids \<le> limit \<and>
     snd (reclaim_expired me now limit locked q) =
       update_where (\<lambda>j. job_user j = me \<and> job_id j \<in> set ids) (mark_reclaimed now) q \<and>
     fst (reclaim_expired me now limit locked q) =
       row_count (\<lambda>j. job_user j = me \<and> job_id j \<in> set ids) q"
proof -
  define rows where "rows = take limit (sort_key (\<lambda>j. the_default 0 (job_lease_expires_at j))
    (filter (\<lambda>j. lease_expired me now j \<and> job_id j \<notin> set locked) q))"
  have eq: "reclaim_expired me now limit locked q =
      (if map job_id rows = [] then (0, q)
       else (row_count (\<lambda>j. job_user j = me \<and> job_id j \<in> set (map job_id rows)) q,
             update_where (\<lambda>j. job_user j = me \<and> job_id j \<in> set (map job_id rows))
               (mark_reclaimed now) q))"
    by (simp only: reclaim_expired_def Let_def rows_def)
  have "set rows \<subseteq> {j \<in> set q. lease_expired me now j \<and> job_id j \<notin> set locked}"
    unfolding rows_def by (rule subset_trans [OF set_take_subset]) auto
  then have "set (map job_id rows) \<subseteq>
      job_id ` {j \<in> set q. lease_expired me now j \<and> job_id j \<notin> set locked}"
    by auto
  moreover have "length (map job_id rows) \<le> limit" by (simp add: rows_def)
  moreover have "update_where (\<lambda>j. job_user j = me \<and> job_id j \<in> {}) (mark_reclaimed now) q = q"
    by (rule update_where_none) simp
  ultimately show ?thesis
    by (intro exI [of _ "map job_id rows"]) (simp add: eq row_count_def)
qed

lemma reclaim_expired_inv [inv_intros]:
  assumes "queue_inv q"
  shows "queue_inv (snd (reclaim_expired me now limit locked q))"
proof -
  from reclaim_expired_eq [of q me now locked limit] obtain ids where
    ids: "set ids \<subseteq> job_id ` {j \<in> set q. lease_expired me now j \<and> job_id j \<notin> set locked}"
    and eq: "snd (reclaim_expired me now limit locked q) =
       update_where (\<lambda>j. job_user j = me \<and> job_id j \<in> set ids) (mark_reclaimed now) q"
    by blast
  let ?p = "\<lambda>j. job_user j = me \<and> job_id j \<in> set ids \<and> lease_expired me now j"
  have "lease_expired me now j" if "j \<in> set q" "job_id j \<in> set ids" for j
    using that ids same_job [OF assms] by (auto simp: subset_iff image_iff)
  then have "update_where (\<lambda>j. job_user j = me \<and> job_id j \<in> set ids) (mark_reclaimed now) q =
             update_where ?p (mark_reclaimed now) q"
    by (auto simp: update_where_def)
  also have "queue_inv \<dots>"
    by (rule queue_inv_update_where [OF assms])
      (auto simp: queue_op_defs mark_reclaimed_def lease_expired_def split: option.splits)
  finally show ?thesis by (simp add: eq)
qed

lemma enqueue_in_inv [inv_intros]:
  assumes "queue_inv q" and "new_id \<notin> job_id ` set q" and "job_spec_post_init spec = Inr spec'"
  shows "queue_inv (snd (enqueue_in me now new_id spec q))"
  using assms
  by (auto simp: enqueue_in_def queue_inv_def dedupe_unique_def job_row_ok_def job_row_checks_def
      job_spec_post_init_def Let_def image_iff split: if_splits)

section \<open>The fencing contract\<close>

text \<open>
  What the worker relies on (the \<^verbatim>\<open>JobQueue\<close> port of \<^verbatim>\<open>application/ports.py\<close>): a settlement of a job
  by a worker succeeds exactly when that worker holds the job, releases it, and changes nothing
  when the worker does not hold it.
\<close>

locale settling_queue =
  fixes inv :: "'q \<Rightarrow> bool"
    and holder :: "'q \<Rightarrow> 'id \<Rightarrow> 'w option"
    and settle :: "'a \<Rightarrow> 'id \<Rightarrow> 'w \<Rightarrow> 'q \<Rightarrow> bool \<times> 'q"
  assumes settle_inv: "inv q \<Longrightarrow> inv (snd (settle a i w q))"
    and settle_ok: "inv q \<Longrightarrow> fst (settle a i w q) \<longleftrightarrow> holder q i = Some w"
    and settle_lost: "inv q \<Longrightarrow> holder q i \<noteq> Some w \<Longrightarrow> snd (settle a i w q) = q"
    and settle_releases: "inv q \<Longrightarrow> holder q i = Some w \<Longrightarrow> holder (snd (settle a i w q)) i = None"
    and settle_others: "inv q \<Longrightarrow> i' \<noteq> i \<Longrightarrow> holder (snd (settle a i w q)) i' = holder q i'"
begin

lemma released_stays_released:
  "inv q \<Longrightarrow> holder q i = None \<Longrightarrow> holder (snd (settle a i' w q)) i = None"
  using settle_lost [of q i w a] settle_others [of q i i' a w] by (cases "i' = i") auto

primrec settle_all :: "('a \<times> 'id \<times> 'w) list \<Rightarrow> 'q \<Rightarrow> bool list \<times> 'q" where
  "settle_all [] q = ([], q)"
| "settle_all (x # xs) q =
     (let r = settle (fst x) (fst (snd x)) (snd (snd x)) q; rs = settle_all xs (snd r)
      in (fst r # fst rs, snd rs))"

lemma settle_all_released:
  "inv q \<Longrightarrow> holder q i = None \<Longrightarrow>
   \<forall>(x, ok) \<in> set (zip xs (fst (settle_all xs q))). fst (snd x) = i \<longrightarrow> \<not> ok"
proof (induction xs arbitrary: q)
  case (Cons x xs)
  let ?q = "snd (settle (fst x) (fst (snd x)) (snd (snd x)) q)"
  have "inv ?q" "holder ?q i = None"
    using Cons.prems by (auto intro: settle_inv released_stays_released)
  from Cons.IH [OF this] show ?case
    using Cons.prems settle_ok [of q "fst x" "fst (snd x)" "snd (snd x)"]
    by (auto simp: Let_def)
qed simp

text \<open>However many workers try to settle a job, at most one attempt takes effect.\<close>

lemma settled_at_most_once:
  "inv q \<Longrightarrow>
   length (filter (\<lambda>(x, ok). fst (snd x) = i \<and> ok) (zip xs (fst (settle_all xs q)))) \<le> 1"
proof (induction xs arbitrary: q)
  case (Cons x xs)
  let ?r = "settle (fst x) (fst (snd x)) (snd (snd x)) q"
  have inv: "inv (snd ?r)" using Cons.prems by (rule settle_inv)
  show ?case
  proof (cases "fst (snd x) = i \<and> fst ?r")
    case True
    then have "holder (snd ?r) i = None"
      using Cons.prems settle_ok settle_releases by metis
    from settle_all_released [OF inv this, of xs]
    have "filter (\<lambda>(x, ok). fst (snd x) = i \<and> ok) (zip xs (fst (settle_all xs (snd ?r)))) = []"
      by (auto simp: filter_empty_conv)
    with True show ?thesis by (auto simp: Let_def)
  next
    case False
    then show ?thesis using Cons.IH [OF inv] by (auto simp: Let_def)
  qed
qed simp

end

datatype settlement = Complete | Reschedule time string string | Dead_Letter string string

fun settle :: "nat \<Rightarrow> time \<Rightarrow> settlement \<Rightarrow> nat \<Rightarrow> string \<Rightarrow> job list \<Rightarrow> bool \<times> job list" where
  "settle me now Complete jid w q = complete me now jid w q"
| "settle me now (Reschedule t e tb) jid w q = reschedule me now jid w t e tb q"
| "settle me now (Dead_Letter e tb) jid w q = dead_letter me now jid w e tb q"

definition holder_of :: "nat \<Rightarrow> job list \<Rightarrow> nat \<Rightarrow> string option" where
  "holder_of me q jid =
     (case find (\<lambda>j. job_id j = jid \<and> job_user j = me \<and> job_status_of j = RUNNING) q of
        None \<Rightarrow> None | Some j \<Rightarrow> job_locked_by j)"

text \<open>Every settlement is one fenced update, of a row it takes out of the running state.\<close>

primrec settle_row :: "time \<Rightarrow> settlement \<Rightarrow> job \<Rightarrow> job" where
  "settle_row now Complete =
     (\<lambda>j. j\<lparr> job_status_of := SUCCEEDED, job_locked_by := None, job_locked_at := None,
              job_lease_expires_at := None, job_completed_at := Some now,
              job_updated_at := now \<rparr>)"
| "settle_row now (Reschedule t e tb) =
     (\<lambda>j. j\<lparr> job_status_of := PENDING, job_run_after := t, job_locked_by := None,
              job_locked_at := None, job_lease_expires_at := None,
              job_last_error := Some e, job_last_traceback := Some tb, job_updated_at := now \<rparr>)"
| "settle_row now (Dead_Letter e tb) =
     (\<lambda>j. j\<lparr> job_status_of := FAILED, job_locked_by := None, job_locked_at := None,
              job_lease_expires_at := None, job_last_error := Some e,
              job_last_traceback := Some tb, job_completed_at := Some now,
              job_updated_at := now \<rparr>)"

lemma settle_eq: "settle me now a jid w q = fenced_update me jid w (settle_row now a) q"
  by (cases a) (simp_all add: complete_def reschedule_def dead_letter_def)

lemma settle_row_facts [simp]:
  "job_id (settle_row now a j) = job_id j"
  "job_user (settle_row now a j) = job_user j"
  "job_type_of (settle_row now a j) = job_type_of j"
  "job_attempts (settle_row now a j) = job_attempts j"
  "job_max_attempts (settle_row now a j) = job_max_attempts j"
  "job_locked_by (settle_row now a j) = None"
  "job_status_of (settle_row now a j) \<noteq> RUNNING"
  by (cases a; simp)+

lemma settle_row_keeps:
  "keeps_identity (owned_by me jid w) (settle_row now a)"
  "owned_by me jid w j \<Longrightarrow> job_row_ok j \<Longrightarrow> job_row_ok (settle_row now a j)"
  by (cases a; simp add: queue_op_defs)+

lemma holder_of_Some:
  assumes "queue_inv q"
  shows "holder_of me q jid = Some w \<longleftrightarrow> (\<exists>j \<in> set q. owned_by me jid w j)"
proof
  assume "holder_of me q jid = Some w"
  then obtain j where "find (\<lambda>j. job_id j = jid \<and> job_user j = me \<and> job_status_of j = RUNNING) q = Some j"
    and "job_locked_by j = Some w"
    by (auto simp: holder_of_def split: option.splits)
  then show "\<exists>j \<in> set q. owned_by me jid w j"
    by (auto simp: find_Some_iff owned_by_def)
next
  assume "\<exists>j \<in> set q. owned_by me jid w j"
  then obtain j where j: "j \<in> set q" "owned_by me jid w j" by blast
  let ?p = "\<lambda>j. job_id j = jid \<and> job_user j = me \<and> job_status_of j = RUNNING"
  from j have "find ?p q \<noteq> None" by (auto simp: find_None_iff owned_by_def)
  then obtain k where k: "find ?p q = Some k" by blast
  then have "k \<in> set q" "job_id k = jid" by (auto simp: find_Some_iff)
  with j have "k = j" using same_job [OF assms] by (simp add: owned_by_def)
  with k j show "holder_of me q jid = Some w" by (simp add: holder_of_def owned_by_def)
qed

lemma holder_of_fenced_other:
  assumes "\<And>j. job_id (f j) = job_id j" and "jid' \<noteq> jid"
  shows "holder_of me (update_where (owned_by me jid w) f q) jid' = holder_of me q jid'"
  using assms by (induction q) (auto simp: holder_of_def owned_by_def)

lemma holder_of_fenced_released:
  assumes "queue_inv q" and "holder_of me q jid = Some w"
    and "\<And>j. job_id (f j) = job_id j" and "\<And>j. job_status_of (f j) \<noteq> RUNNING"
  shows "holder_of me (update_where (owned_by me jid w) f q) jid = None"
proof -
  from assms(1,2) obtain j where j: "j \<in> set q" "owned_by me jid w j"
    by (auto simp: holder_of_Some)
  have "\<not> (job_id k = jid \<and> job_user k = me \<and> job_status_of k = RUNNING)"
    if k': "k \<in> set (update_where (owned_by me jid w) f q)" for k
  proof -
    from k' obtain r where r: "r \<in> set q" "k = (if owned_by me jid w r then f r else r)"
      by (rule in_update_whereE)
    then show ?thesis
      using same_job [OF assms(1) r(1) j(1)] j(2) assms(3,4) by (auto simp: owned_by_def)
  qed
  then have "find (\<lambda>j. job_id j = jid \<and> job_user j = me \<and> job_status_of j = RUNNING)
      (update_where (owned_by me jid w) f q) = None"
    by (auto simp: find_None_iff)
  then show ?thesis by (simp add: holder_of_def)
qed

interpretation jobs_port: settling_queue queue_inv "holder_of me" "settle me now"
proof
  fix q :: "job list" and a i i' and w :: string
  assume q: "queue_inv q"
  show "queue_inv (snd (settle me now a i w q))"
    unfolding settle_eq by (rule fenced_update_inv [OF q]) (auto intro: settle_row_keeps)
  have "row_count (owned_by me i w) q \<le> 1"
    by (rule row_count_le_1 [where g = job_id and k = i])
      (auto simp: owned_by_def queue_invD(1) [OF q])
  then have "row_count (owned_by me i w) q = 1 \<longleftrightarrow> row_count (owned_by me i w) q \<noteq> 0"
    by linarith
  then have one: "row_count (owned_by me i w) q = 1 \<longleftrightarrow> (\<exists>j \<in> set q. owned_by me i w j)"
    by (simp add: row_count_0_iff)
  then show "fst (settle me now a i w q) \<longleftrightarrow> holder_of me q i = Some w"
    by (simp add: settle_eq fenced_update_def holder_of_Some [OF q])
  show "snd (settle me now a i w q) = q" if "holder_of me q i \<noteq> Some w"
    using that holder_of_Some [OF q, of me i w]
    by (simp add: settle_eq fenced_update_def update_where_none)
  show "holder_of me (snd (settle me now a i w q)) i = None" if "holder_of me q i = Some w"
    using holder_of_fenced_released [OF q that, of "settle_row now a"] by (simp add: settle_eq fenced_update_def)
  show "holder_of me (snd (settle me now a i w q)) i' = holder_of me q i'" if "i' \<noteq> i"
    using holder_of_fenced_other [of "settle_row now a", OF _ that] by (simp add: settle_eq fenced_update_def)
qed

end
