(* ===== verification/Timing.thy ===== *)
theory Timing
  imports Prelude
begin

text \<open>
  The clock-driven rules of the domain layer: retry backoff (\<^verbatim>\<open>domain/backoff.py\<close>), the leading-edge
  debounce of the watcher (\<^verbatim>\<open>domain/debounce.py\<close>), the session boundary (\<^verbatim>\<open>domain/sessions.py\<close>) and
  the value types of inbound events (\<^verbatim>\<open>domain/events.py\<close>). The clock and the random source are
  arguments, as they are in the code. The debounce is compared with a specification that never
  forgets an emission.
\<close>

section \<open>Backoff\<close>

definition MAX_ADVISED_WAIT_SECONDS :: pyfloat where
  "MAX_ADVISED_WAIT_SECONDS = 120"

definition compute_backoff :: "nat \<Rightarrow> pyfloat \<Rightarrow> pyfloat \<Rightarrow> pyfloat \<Rightarrow> pyfloat" where
  "compute_backoff attempts base_seconds cap_seconds rand =
     (let delay = min (base_seconds * 2 ^ attempts) cap_seconds
      in delay * (0.5 + rand * 0.5))"

definition default_backoff :: "nat \<Rightarrow> pyfloat \<Rightarrow> pyfloat" where
  "default_backoff attempts rand = compute_backoff attempts 2 600 rand"

text \<open>\<open>advised\<close> is the \<^verbatim>\<open>retry_after\<close> attribute of the exception, when it has one.\<close>

definition wait_for :: "pyfloat option \<Rightarrow> nat \<Rightarrow> pyfloat \<Rightarrow> pyfloat" where
  "wait_for advised attempts rand =
     (case advised of
        None \<Rightarrow> default_backoff attempts rand
      | Some a \<Rightarrow> min a MAX_ADVISED_WAIT_SECONDS + 0.5 + rand)"

lemma compute_backoff_bounds:
  assumes "0 \<le> rand" "rand < 1" "0 \<le> base" "0 \<le> cap"
  shows "min (base * 2 ^ n) cap / 2 \<le> compute_backoff n base cap rand"
    and "compute_backoff n base cap rand \<le> min (base * 2 ^ n) cap"
proof -
  let ?d = "min (base * 2 ^ n) cap"
  have d: "0 \<le> ?d" using assms by simp
  have "?d * (1 / 2) \<le> ?d * (0.5 + rand * 0.5)"
    using assms d by (intro mult_left_mono) auto
  then show "?d / 2 \<le> compute_backoff n base cap rand"
    by (simp add: compute_backoff_def)
  have "?d * (0.5 + rand * 0.5) \<le> ?d * 1"
    using assms d by (intro mult_left_mono) auto
  then show "compute_backoff n base cap rand \<le> ?d"
    by (simp add: compute_backoff_def)
qed

lemma default_backoff_bounds:
  assumes "0 \<le> rand" "rand < 1"
  shows "1 \<le> default_backoff n rand" and "default_backoff n rand \<le> 600"
proof -
  have "2 \<le> min (2 * 2 ^ n) (600::real)" by simp
  with compute_backoff_bounds(1) [OF assms, of 2 600 n]
  have "1 \<le> compute_backoff n 2 600 rand" by linarith
  then show "1 \<le> default_backoff n rand" by (simp add: default_backoff_def)
  show "default_backoff n rand \<le> 600"
    using compute_backoff_bounds(2) [OF assms, of 2 600 n] by (simp add: default_backoff_def)
qed

lemma backoff_mono:
  assumes "0 \<le> rand" "m \<le> n" "0 \<le> base"
  shows "compute_backoff m base cap rand \<le> compute_backoff n base cap rand"
proof -
  have "base * 2 ^ m \<le> base * 2 ^ n"
    using assms by (intro mult_left_mono power_increasing) auto
  then show ?thesis
    using assms(1) unfolding compute_backoff_def Let_def by (intro mult_right_mono) auto
qed

section \<open>Debounce\<close>

record debounce =
  window :: time
  last_emitted :: "(string \<times> time) list"

definition prune :: "time \<Rightarrow> debounce \<Rightarrow> debounce" where
  "prune now d =
     (let cutoff = now - window d
      in d\<lparr> last_emitted := filter (\<lambda>(key, stamp). \<not> stamp \<le> cutoff) (last_emitted d) \<rparr>)"

definition should_emit :: "string \<Rightarrow> time \<Rightarrow> debounce \<Rightarrow> bool \<times> debounce" where
  "should_emit key now d =
     (let d = prune now d
      in case map_of (last_emitted d) key of
           Some stamp \<Rightarrow>
             if now - stamp < window d then (False, d)
             else (True, d\<lparr> last_emitted := AList.update key now (last_emitted d) \<rparr>)
         | None \<Rightarrow> (True, d\<lparr> last_emitted := AList.update key now (last_emitted d) \<rparr>))"

definition tracked :: "debounce \<Rightarrow> nat" where
  "tracked d = length (last_emitted d)"

fun debounce_run :: "(string \<times> time) list \<Rightarrow> debounce \<Rightarrow> bool list \<times> debounce" where
  "debounce_run [] d = ([], d)"
| "debounce_run ((key, now) # touches) d =
     (let (b, d') = should_emit key now d; (bs, d'') = debounce_run touches d'
      in (b # bs, d''))"

text \<open>The specification: remember the last emission of every key for ever.\<close>

definition due :: "time \<Rightarrow> (string \<rightharpoonup> time) \<Rightarrow> string \<Rightarrow> time \<Rightarrow> bool" where
  "due w hist key now \<longleftrightarrow> (case hist key of None \<Rightarrow> True | Some stamp \<Rightarrow> \<not> now - stamp < w)"

fun debounce_spec :: "time \<Rightarrow> (string \<rightharpoonup> time) \<Rightarrow> (string \<times> time) list \<Rightarrow> bool list" where
  "debounce_spec w hist [] = []"
| "debounce_spec w hist ((key, now) # touches) =
     (let emit = due w hist key now
      in emit # debounce_spec w (if emit then hist(key \<mapsto> now) else hist) touches)"

lemma map_of_filter_snd:
  assumes "distinct (map fst al)"
  shows "map_of (filter (\<lambda>(k, v). P v) al) k =
         (case map_of al k of None \<Rightarrow> None | Some v \<Rightarrow> if P v then Some v else None)"
  using assms by (induction al) (auto simp: map_of_eq_None_iff image_iff split: option.splits)

lemma debounce_keys_distinct:
  assumes "distinct (map fst (last_emitted d))"
  shows "distinct (map fst (last_emitted (snd (should_emit key now d))))"
proof -
  have "distinct (map fst (last_emitted (prune now d)))"
    using assms by (simp add: prune_def Let_def distinct_map_filter)
  then show ?thesis
    by (auto simp: should_emit_def Let_def distinct_keys_update split: option.splits)
qed

text \<open>
  The abstraction relation at time \<open>now\<close>: the stored map agrees with the full history on
  everything that can still suppress an emission.
\<close>

definition debounce_agrees :: "time \<Rightarrow> (string \<rightharpoonup> time) \<Rightarrow> debounce \<Rightarrow> bool" where
  "debounce_agrees now hist d \<longleftrightarrow>
     distinct (map fst (last_emitted d)) \<and>
     (\<forall>key stamp. now - stamp < window d \<longrightarrow>
        (map_of (last_emitted d) key = Some stamp \<longleftrightarrow> hist key = Some stamp))"

lemma should_emit_agrees:
  assumes "debounce_agrees t hist d" and "t \<le> now"
  shows "fst (should_emit key now d) = due (window d) hist key now"
    and "debounce_agrees now (if due (window d) hist key now then hist(key \<mapsto> now) else hist) (snd (should_emit key now d))"
    and "window (snd (should_emit key now d)) = window d"
proof -
  have dist: "distinct (map fst (last_emitted d))"
    using assms(1) by (simp add: debounce_agrees_def)
  have live: "map_of (last_emitted (prune now d)) k = Some stamp \<longleftrightarrow>
      hist k = Some stamp \<and> now - stamp < window d" for k stamp
  proof -
    have "map_of (last_emitted (prune now d)) k =
        (case map_of (last_emitted d) k of None \<Rightarrow> None
         | Some v \<Rightarrow> if \<not> v \<le> now - window d then Some v else None)"
      by (simp add: prune_def Let_def map_of_filter_snd [OF dist])
    moreover have "now - stamp < window d \<Longrightarrow>
        map_of (last_emitted d) k = Some stamp \<longleftrightarrow> hist k = Some stamp"
      using assms(1,2) unfolding debounce_agrees_def by force
    ultimately show ?thesis by (auto split: option.splits)
  qed
  have look: "map_of (last_emitted (prune now d)) k =
      (case hist k of None \<Rightarrow> None | Some v \<Rightarrow> if now - v < window d then Some v else None)" for k
    by (rule option_ext) (auto simp: live split: option.splits)
  have w: "window (prune now d) = window d" by (simp add: prune_def Let_def)
  have dp: "distinct (map fst (last_emitted (prune now d)))"
    using dist by (simp add: prune_def Let_def distinct_map_filter)
  show "fst (should_emit key now d) = due (window d) hist key now"
    by (auto simp: should_emit_def Let_def w due_def look split: option.splits)
  show "window (snd (should_emit key now d)) = window d"
    by (auto simp: should_emit_def Let_def w split: option.splits)
  show "debounce_agrees now (if due (window d) hist key now then hist(key \<mapsto> now) else hist) (snd (should_emit key now d))"
    using dp
    by (auto simp: debounce_agrees_def should_emit_def Let_def w due_def look update_conv'
        distinct_keys_update simp del: map_of_eq_Some_iff split: option.splits)
qed

lemma debounce_run_spec:
  assumes "debounce_agrees t hist d" and "sorted (t # map snd touches)"
  shows "fst (debounce_run touches d) = debounce_spec (window d) hist touches"
  using assms
proof (induction touches arbitrary: t hist d)
  case Nil
  then show ?case by simp
next
  case (Cons kt touches)
  obtain key now where kt: "kt = (key, now)" by (cases kt)
  let ?emit = "due (window d) hist key now"
  from Cons.prems kt have le: "t \<le> now" and sorted: "sorted (now # map snd touches)" by auto
  note step = should_emit_agrees [OF Cons.prems(1) le, of key]
  have "fst (debounce_run touches (snd (should_emit key now d))) =
        debounce_spec (window d) (if ?emit then hist(key \<mapsto> now) else hist) touches"
    using Cons.IH [OF step(2) sorted] step(3) by simp
  then show ?case
    using step(1) by (simp add: kt split_beta Let_def)
qed

text \<open>Everything tracked after a touch is inside its window.\<close>

lemma tracked_in_window:
  assumes "(k, stamp) \<in> set (last_emitted (snd (should_emit key now d)))" and "0 < window d"
  shows "now - stamp < window d"
proof -
  have p: "now - stamp < window d" if "(k, stamp) \<in> set (last_emitted (prune now d))" for k stamp
    using that by (auto simp: prune_def Let_def)
  have u: "(k, stamp) = (key, now) \<or> (k, stamp) \<in> set al"
    if "(k, stamp) \<in> set (AList.update key now al)" for al
    using that by (induction al) (auto split: if_splits)
  show ?thesis
    using assms p u by (fastforce simp: should_emit_def Let_def split: option.splits if_splits)
qed

section \<open>Sessions\<close>

definition SESSION_GAP :: time where
  "SESSION_GAP = minutes 30"

definition starts_new_session :: "time \<Rightarrow> time option \<Rightarrow> bool" where
  "starts_new_session now last_activity =
     (case last_activity of None \<Rightarrow> True | Some t \<Rightarrow> SESSION_GAP \<le> now - t)"

section \<open>Events and the rate limit\<close>

datatype event_kind = EDITOR_OPENED | FILE_FOCUSED | MEETING_UPCOMING | MANUAL_EVENT

fun event_kind_value :: "event_kind \<Rightarrow> string" where
  "event_kind_value EDITOR_OPENED = ''editor_opened''"
| "event_kind_value FILE_FOCUSED = ''file_focused''"
| "event_kind_value MEETING_UPCOMING = ''meeting_upcoming''"
| "event_kind_value MANUAL_EVENT = ''manual''"

definition event_kinds :: "event_kind list" where
  "event_kinds = [EDITOR_OPENED, FILE_FOCUSED, MEETING_UPCOMING, MANUAL_EVENT]"

datatype unknown_event_kind = UnknownEventKind string

definition parse_kind :: "string \<Rightarrow> unknown_event_kind + event_kind" where
  "parse_kind raw =
     (case find (\<lambda>k. event_kind_value k = raw) event_kinds of
        None \<Rightarrow> Inl (UnknownEventKind raw)
      | Some k \<Rightarrow> Inr k)"

record inbound_event =
  ie_kind :: event_kind
  ie_source :: string
  ie_occurred_at :: "time option"
  ie_received_at :: "time option"
  ie_processed_at :: "time option"
  ie_dedupe_key :: "string option"

definition delivery_lag :: "inbound_event \<Rightarrow> time option" where
  "delivery_lag e =
     (case ie_occurred_at e of
        None \<Rightarrow> None
      | Some occurred \<Rightarrow>
          (case ie_received_at e of None \<Rightarrow> None | Some received \<Rightarrow> Some (received - occurred)))"

record rate_limit =
  rl_limit :: int
  rl_window :: time

definition exceeded :: "rate_limit \<Rightarrow> int \<Rightarrow> bool" where
  "exceeded r received_in_window \<longleftrightarrow> rl_limit r \<le> received_in_window"

definition retry_after :: "rate_limit \<Rightarrow> int" where
  "retry_after r = max 1 (int_of_float (total_seconds (rl_window r)))"

lemma parse_kind_roundtrip: "parse_kind (event_kind_value k) = Inr k"
  by (cases k) (simp_all add: parse_kind_def event_kinds_def)

lemma parse_kind_Inr: "parse_kind raw = Inr k \<Longrightarrow> event_kind_value k = raw"
  by (auto simp: parse_kind_def event_kinds_def split: option.splits if_splits)

text \<open>
  The documented answer is the window rounded up; \<^verbatim>\<open>int()\<close> rounds it down, so a window that is not
  a whole number of seconds is answered with less than its length.
\<close>

lemma retry_after_truncates:
  "retry_after \<lparr> rl_limit = 1, rl_window = 2500000 \<rparr> = 2"
  by (simp add: retry_after_def int_of_float_def total_seconds_def microseconds_per_second_def)

end
