(* ===== verification/Worker.thy ===== *)
theory Worker
  imports Job_Queue Timing
begin

text \<open>
  The worker of \<^verbatim>\<open>application/worker.py\<close> with the handler registry of
  \<^verbatim>\<open>application/jobs/registry.py\<close>: one claimed job run to its settlement, the polling loop with
  its reclaim cadence, idle backoff and drain mode, and a fleet of workers on one queue as a step
  relation. A handler is external code: it is a function from the job to how its task ended.
  Logging and the NOTIFY a success sends are output only; the memory id announced is part of
  the outcome.
\<close>

section \<open>Exceptions and the registry\<close>

datatype exn_kind = Permanent_Error | Transient_Error | Other_Exception

record py_raise =
  raise_kind :: exn_kind
  raise_message :: string
  raise_type_name :: string
  raise_traceback :: string

definition describe :: "py_raise \<Rightarrow> string" where
  "describe e = (if raise_message e \<noteq> [] then raise_message e else raise_type_name e)"

datatype task_end = Returned | Raised py_raise | Cancelled_Task

type_synonym handler = "job \<Rightarrow> task_end"
type_synonym registry = "(string \<times> handler) list"

definition register :: "job_type \<Rightarrow> handler \<Rightarrow> registry \<Rightarrow> registry" where
  "register t h reg = AList.update (job_type_value t) h reg"

definition get_handler :: "registry \<Rightarrow> string \<Rightarrow> handler option" where
  "get_handler reg t = map_of reg t"

definition registered_types :: "registry \<Rightarrow> string set" where
  "registered_types reg = fst ` set reg"

lemma get_handler_register:
  "get_handler (register t h reg) s = (if s = job_type_value t then Some h else get_handler reg s)"
  by (simp add: get_handler_def register_def)

section \<open>Running one job\<close>

datatype run_outcome =
    Succeeded "string option" | Dead_Lettered | Retrying time | Lease_Lost | Cancelled

definition announce :: "job \<Rightarrow> string option" where
  "announce j =
     (case map_of (job_payload j) ''memory_id'' of
        Some (JStr m) \<Rightarrow> if m = [] then None else Some m
      | _ \<Rightarrow> None)"

definition settle_dead_letter ::
  "time \<Rightarrow> string \<Rightarrow> job \<Rightarrow> py_raise \<Rightarrow> job list \<Rightarrow> run_outcome \<times> job list" where
  "settle_dead_letter now worker j e q =
     (case dead_letter (job_user j) now (job_id j) worker (describe e) (raise_traceback e) q of
        (ok, q') \<Rightarrow> (if ok then Dead_Lettered else Lease_Lost, q'))"

definition retry_or_dead_letter ::
  "time \<Rightarrow> string \<Rightarrow> pyfloat \<Rightarrow> job \<Rightarrow> py_raise \<Rightarrow> job list \<Rightarrow> run_outcome \<times> job list" where
  "retry_or_dead_letter now worker rand j e q =
     (if attempts_exhausted j then settle_dead_letter now worker j e q
      else
        let delay = default_backoff (nat (job_attempts j)) rand;
            run_after = now + timedelta_of_seconds delay
        in case reschedule (job_user j) now (job_id j) worker run_after (describe e)
                  (raise_traceback e) q of
             (ok, q') \<Rightarrow> (if ok then Retrying run_after else Lease_Lost, q'))"

definition settle_task ::
  "time \<Rightarrow> string \<Rightarrow> pyfloat \<Rightarrow> job \<Rightarrow> task_end \<Rightarrow> job list \<Rightarrow> run_outcome \<times> job list" where
  "settle_task now worker rand j ended q =
     (case ended of
        Returned \<Rightarrow>
          (case complete (job_user j) now (job_id j) worker q of
             (ok, q') \<Rightarrow> (if ok then Succeeded (announce j) else Lease_Lost, q'))
      | Raised e \<Rightarrow>
          (case raise_kind e of
             Permanent_Error \<Rightarrow> settle_dead_letter now worker j e q
           | Transient_Error \<Rightarrow> retry_or_dead_letter now worker rand j e q
           | Other_Exception \<Rightarrow> retry_or_dead_letter now worker rand j e q)
      | Cancelled_Task \<Rightarrow> (Cancelled, q))"

definition no_handler_error :: "job \<Rightarrow> py_raise" where
  "no_handler_error j =
     \<lparr> raise_kind = Permanent_Error,
       raise_message = ''no handler registered for job_type '' @ [CHR 0x27] @ job_type_of j @ [CHR 0x27],
       raise_type_name = ''PermanentError'', raise_traceback = ''NoneType: None'' \<rparr>"

text \<open>
  \<open>lost\<close> says that a heartbeat found the lease gone before the handler was done: the handler is
  cancelled and nothing is written.
\<close>

definition run_job ::
  "time \<Rightarrow> string \<Rightarrow> registry \<Rightarrow> bool \<Rightarrow> pyfloat \<Rightarrow> job \<Rightarrow> job list \<Rightarrow>
   run_outcome \<times> job list" where
  "run_job now worker reg lost rand j q =
     (case get_handler reg (job_type_of j) of
        None \<Rightarrow> settle_dead_letter now worker j (no_handler_error j) q
      | Some h \<Rightarrow>
          if lost then (Lease_Lost, q) else settle_task now worker rand j (h j) q)"

text \<open>Whatever happens, a job's run writes at most one settlement to the queue.\<close>

lemma run_job_settlement:
  "snd (run_job now w reg lost rand j q) = q \<or>
   (\<exists>a. snd (run_job now w reg lost rand j q) = snd (settle (job_user j) now a (job_id j) w q) \<and>
        (a = Complete \<or> (\<exists>e tb. a = Dead_Letter e tb) \<or>
         (\<exists>t e tb. a = Reschedule t e tb \<and> \<not> attempts_exhausted j)))"
proof -
  have dead: "\<exists>a. snd (settle_dead_letter now w j e q) = snd (settle (job_user j) now a (job_id j) w q) \<and>
      (\<exists>e tb. a = Dead_Letter e tb)" for e
    by (intro exI [of _ "Dead_Letter (describe e) (raise_traceback e)"])
      (simp add: settle_dead_letter_def split: prod.split)
  have retry: "\<exists>a. snd (retry_or_dead_letter now w rand j e q) =
        snd (settle (job_user j) now a (job_id j) w q) \<and>
      ((\<exists>e tb. a = Dead_Letter e tb) \<or> (\<exists>t e tb. a = Reschedule t e tb \<and> \<not> attempts_exhausted j))" for e
  proof (cases "attempts_exhausted j")
    case True
    then show ?thesis using dead [of e] by (auto simp: retry_or_dead_letter_def)
  next
    case False
    let ?t = "now + timedelta_of_seconds (default_backoff (nat (job_attempts j)) rand)"
    show ?thesis using False
      by (intro exI [of _ "Reschedule ?t (describe e) (raise_traceback e)"])
        (simp add: retry_or_dead_letter_def Let_def split: prod.split)
  qed
  show ?thesis
  proof (cases "get_handler reg (job_type_of j)")
    case None
    then show ?thesis using dead [of "no_handler_error j"] by (auto simp: run_job_def)
  next
    case (Some h)
    have completed: "snd (case complete (job_user j) now (job_id j) w q of
          (ok, q') \<Rightarrow> (if ok then Succeeded (announce j) else Lease_Lost, q')) =
        snd (settle (job_user j) now Complete (job_id j) w q)"
      by (simp split: prod.split)
    show ?thesis
    proof (cases "lost \<or> h j = Cancelled_Task")
      case True
      then show ?thesis using Some by (auto simp: run_job_def settle_task_def)
    next
      case False
      show ?thesis
      proof (cases "h j")
        case Returned
        then show ?thesis using Some False completed
          by (intro disjI2 exI [of _ Complete]) (simp add: run_job_def settle_task_def)
      next
        case (Raised e)
        then show ?thesis using Some False dead [of e] retry [of e]
          by (cases "raise_kind e") (auto simp: run_job_def settle_task_def)
      next
        case Cancelled_Task
        with False show ?thesis by simp
      qed
    qed
  qed
qed

lemma run_job_inv [inv_intros]:
  assumes "queue_inv q"
  shows "queue_inv (snd (run_job now w reg lost rand j q))"
  using run_job_settlement [of now w reg lost rand j q]
  by (auto simp: assms jobs_port.settle_inv simp del: settle.simps)

text \<open>A worker that no longer holds the job it runs changes nothing.\<close>

lemma run_job_fenced:
  assumes "queue_inv q" and "holder_of (job_user j) q (job_id j) \<noteq> Some w"
  shows "snd (run_job now w reg lost rand j q) = q"
  using run_job_settlement [of now w reg lost rand j q]
  by (auto simp: assms jobs_port.settle_lost simp del: settle.simps)

section \<open>The polling loop\<close>

record worker_config =
  cfg_lease :: time
  poll_min_seconds :: pyfloat
  poll_max_seconds :: pyfloat
  reclaim_every_iterations :: nat
  reclaim_limit :: nat
  idle_polls_before_drain_stop :: nat
  concurrency :: int
  cfg_only :: "job_type list"

definition worker_config_post_init :: "worker_config \<Rightarrow> worker_config result" where
  "worker_config_post_init c =
     (if concurrency c \<noteq> 1 then Inl ValueError
      else if poll_min_seconds c \<le> 0 \<or> poll_max_seconds c < poll_min_seconds c then Inl ValueError
      else Inr c)"

record worker_state =
  iterations :: nat
  idle_polls :: nat
  poll_delay :: pyfloat
  w_queue :: "job list"
  run_log :: "(nat \<times> run_outcome) list"
  slept :: "pyfloat list"

text \<open>
  What one turn of the loop meets: the stop flag, the clock, the rows other sessions lock, whether
  the lease is lost while the handler runs, and the jitter.
\<close>

record turn =
  t_stopping :: bool
  t_now :: time
  t_locked :: "nat list"
  t_lost :: bool
  t_rand :: pyfloat

datatype loop_end = Stopped | Drained | Out_Of_Turns | Loop_Raised py_exn

definition start_state :: "worker_config \<Rightarrow> job list \<Rightarrow> worker_state" where
  "start_state c q =
     \<lparr> iterations = 0, idle_polls = 0, poll_delay = poll_min_seconds c, w_queue = q,
       run_log = [], slept = [] \<rparr>"

definition idle_sleep :: "worker_config \<Rightarrow> worker_state \<Rightarrow> worker_state" where
  "idle_sleep c s =
     s\<lparr> poll_delay := min (poll_delay s * 2) (poll_max_seconds c),
        slept := slept s @ [poll_delay s] \<rparr>"

definition only_filter :: "worker_config \<Rightarrow> job_type list option" where
  "only_filter c = (if cfg_only c = [] then None else Some (cfg_only c))"

definition reclaim_turn :: "nat \<Rightarrow> worker_config \<Rightarrow> turn \<Rightarrow> worker_state \<Rightarrow> worker_state" where
  "reclaim_turn me c t s =
     (if iterations s mod reclaim_every_iterations c = 0
      then s\<lparr> w_queue := snd (reclaim_expired me (t_now t) (reclaim_limit c) (t_locked t) (w_queue s)) \<rparr>
      else s)"

fun run_loop ::
  "nat \<Rightarrow> string \<Rightarrow> registry \<Rightarrow> worker_config \<Rightarrow> bool \<Rightarrow> turn list \<Rightarrow> worker_state \<Rightarrow>
   loop_end \<times> worker_state" where
  "run_loop me w reg c drain [] s = (Out_Of_Turns, s)"
| "run_loop me w reg c drain (t # ts) s =
     (if t_stopping t then (Stopped, s)
      else if reclaim_every_iterations c = 0 then (Loop_Raised ZeroDivisionError, s)
      else
        let s = (reclaim_turn me c t s)\<lparr> iterations := Suc (iterations s) \<rparr>
        in case claim me (t_now t) w (cfg_lease c) (only_filter c) (t_locked t) (w_queue s) of
             (None, q) \<Rightarrow>
               let s = s\<lparr> idle_polls := Suc (idle_polls s), w_queue := q \<rparr>
               in if drain \<and> idle_polls_before_drain_stop c \<le> idle_polls s then (Drained, s)
                  else run_loop me w reg c drain ts (idle_sleep c s)
           | (Some j, q) \<Rightarrow>
               let (out, q') = run_job (t_now t) w reg (t_lost t) (t_rand t) j q;
                   s = s\<lparr> idle_polls := 0, poll_delay := poll_min_seconds c, w_queue := q',
                          run_log := run_log s @ [(job_id j, out)] \<rparr>
               in if out = Cancelled then (Stopped, s)
                  else run_loop me w reg c drain ts s)"

definition poll_bounds :: "worker_config \<Rightarrow> worker_state \<Rightarrow> bool" where
  "poll_bounds c s \<longleftrightarrow>
     poll_min_seconds c \<le> poll_delay s \<and> poll_delay s \<le> poll_max_seconds c \<and>
     (\<forall>d \<in> set (slept s). poll_min_seconds c \<le> d \<and> d \<le> poll_max_seconds c)"

lemma idle_sleep_bounds:
  "worker_config_post_init c = Inr c \<Longrightarrow> poll_bounds c s \<Longrightarrow> poll_bounds c (idle_sleep c s)"
  by (auto simp: worker_config_post_init_def poll_bounds_def idle_sleep_def split: if_splits)

lemma reclaim_turn_inv [inv_intros]:
  "queue_inv (w_queue s) \<Longrightarrow> queue_inv (w_queue (reclaim_turn me c t s))"
  by (simp add: reclaim_turn_def inv_intros)

lemma reclaim_turn_frame [frame_simps]:
  "poll_delay (reclaim_turn me c t s) = poll_delay s"
  "slept (reclaim_turn me c t s) = slept s"
  "idle_polls (reclaim_turn me c t s) = idle_polls s"
  "run_log (reclaim_turn me c t s) = run_log s"
  by (simp_all add: reclaim_turn_def)

lemma run_loop_invariant:
  assumes "worker_config_post_init c = Inr c"
    and "queue_inv (w_queue s)" and "poll_bounds c s"
  shows "queue_inv (w_queue (snd (run_loop me w reg c drain ts s))) \<and>
         poll_bounds c (snd (run_loop me w reg c drain ts s))"
  using assms(2,3)
proof (induction ts arbitrary: s)
  case Nil
  then show ?case by simp
next
  case (Cons t ts)
  show ?case
  proof (cases "t_stopping t \<or> reclaim_every_iterations c = 0")
    case True
    with Cons.prems show ?thesis by auto
  next
    case False
    define s1 where "s1 = (reclaim_turn me c t s)\<lparr> iterations := Suc (iterations s) \<rparr>"
    have s1: "queue_inv (w_queue s1)" "poll_bounds c s1"
      using Cons.prems by (simp_all add: s1_def inv_intros poll_bounds_def frame_simps)
    obtain r q where rq: "claim me (t_now t) w (cfg_lease c) (only_filter c) (t_locked t) (w_queue s1) = (r, q)"
      by fastforce
    then have q: "queue_inv q" using claim_inv [OF s1(1)] by (metis snd_conv)
    show ?thesis
    proof (cases r)
      case None
      define s2 where "s2 = s1\<lparr> idle_polls := Suc (idle_polls s1), w_queue := q \<rparr>"
      have "queue_inv (w_queue s2)" "poll_bounds c s2"
        using q s1(2) by (simp_all add: s2_def poll_bounds_def)
      moreover from this have "queue_inv (w_queue (idle_sleep c s2))" "poll_bounds c (idle_sleep c s2)"
        using idle_sleep_bounds [OF assms(1)] by (simp_all add: idle_sleep_def)
      ultimately show ?thesis
        using False None rq Cons.IH by (simp add: Let_def flip: s1_def s2_def)
    next
      case (Some j)
      obtain out q' where run: "run_job (t_now t) w reg (t_lost t) (t_rand t) j q = (out, q')"
        by fastforce
      then have q': "queue_inv q'" using run_job_inv [OF q] by (metis snd_conv)
      define s2 where "s2 = s1\<lparr> idle_polls := 0, poll_delay := poll_min_seconds c, w_queue := q',
                          run_log := run_log s1 @ [(job_id j, out)] \<rparr>"
      have "queue_inv (w_queue s2)" "poll_bounds c s2"
        using q' s1(2) assms(1)
        by (auto simp: s2_def poll_bounds_def worker_config_post_init_def split: if_splits)
      then show ?thesis
        using False Some rq run Cons.IH [of s2]
        by (auto simp: Let_def s2_def simp flip: s1_def)
    qed
  qed
qed

section \<open>A fleet of workers\<close>

text \<open>
  Any number of workers on one queue, each busy with the job it claimed (the snapshot it was
  handed) or idle. A step is one operation of one worker or of a client that enqueues; a worker
  may die at any moment, which leaves its row running until its lease is reclaimed.
\<close>

record fleet =
  f_queue :: "job list"
  f_busy :: "string \<Rightarrow> job option"
  f_now :: time

definition init_fleet :: "time \<Rightarrow> fleet" where
  "init_fleet t = \<lparr> f_queue = [], f_busy = (\<lambda>_. None), f_now = t \<rparr>"

inductive fleet_step :: "fleet \<Rightarrow> fleet \<Rightarrow> bool" where
  Enqueue: "job_spec_post_init spec = Inr spec \<Longrightarrow> new_id \<notin> job_id ` set (f_queue s) \<Longrightarrow>
     fleet_step s (s\<lparr> f_queue := snd (enqueue_in me (f_now s) new_id spec (f_queue s)) \<rparr>)"
| Claim: "f_busy s w = None \<Longrightarrow>
     claim me (f_now s) w lease only locked (f_queue s) = (Some j, q') \<Longrightarrow>
     fleet_step s (s\<lparr> f_queue := q', f_busy := (f_busy s)(w := Some j) \<rparr>)"
| Heartbeat: "f_busy s w = Some j \<Longrightarrow>
     fleet_step s (s\<lparr> f_queue := snd (heartbeat (job_user j) (f_now s) (job_id j) w lease (f_queue s)) \<rparr>)"
| Finish: "f_busy s w = Some j \<Longrightarrow>
     fleet_step s (s\<lparr> f_queue := snd (run_job (f_now s) w reg lost rand j (f_queue s)),
                      f_busy := (f_busy s)(w := None) \<rparr>)"
| Crash: "fleet_step s (s\<lparr> f_busy := (f_busy s)(w := None) \<rparr>)"
| Reclaim: "fleet_step s
     (s\<lparr> f_queue := snd (reclaim_expired me (f_now s) limit locked (f_queue s)) \<rparr>)"
| Tick: "f_now s \<le> t \<Longrightarrow> fleet_step s (s\<lparr> f_now := t \<rparr>)"

inductive_cases fleet_stepE: "fleet_step s s'"

inductive reachable_fleet :: "fleet \<Rightarrow> bool" where
  Init: "reachable_fleet (init_fleet t)"
| Step: "reachable_fleet s \<Longrightarrow> fleet_step s s' \<Longrightarrow> reachable_fleet s'"

definition within_budget :: "job \<Rightarrow> bool" where
  "within_budget j \<longleftrightarrow>
     job_attempts j \<le> job_max_attempts j \<and>
     (job_status_of j = PENDING \<longrightarrow> job_attempts j < job_max_attempts j)"

text \<open>
  While a worker is busy, a row it still holds is the row it claimed: nobody but the worker
  itself could lock it again in the worker's name.
\<close>

definition snapshots_current :: "fleet \<Rightarrow> bool" where
  "snapshots_current s \<longleftrightarrow> (\<forall>w j r. f_busy s w = Some j \<longrightarrow> r \<in> set (f_queue s) \<longrightarrow>
     job_id r = job_id j \<longrightarrow> job_status_of r = RUNNING \<longrightarrow> job_locked_by r = Some w \<longrightarrow>
     job_attempts r = job_attempts j \<and> job_max_attempts r = job_max_attempts j)"

definition fleet_inv :: "fleet \<Rightarrow> bool" where
  "fleet_inv s \<longleftrightarrow>
     queue_inv (f_queue s) \<and> list_all within_budget (f_queue s) \<and> snapshots_current s"

lemma fleet_inv_init: "fleet_inv (init_fleet t)"
  by (simp add: fleet_inv_def init_fleet_def queue_inv_empty snapshots_current_def)

text \<open>
  An update that locks no row anew: what a busy worker holds afterwards it held before, with the
  same attempts.
\<close>

lemma snapshots_current_update:
  assumes "snapshots_current s"
    and "\<And>r. r \<in> set (f_queue s) \<Longrightarrow> p r \<Longrightarrow> job_id (f r) = job_id r"
    and "\<And>r. r \<in> set (f_queue s) \<Longrightarrow> p r \<Longrightarrow> job_status_of (f r) = RUNNING \<Longrightarrow>
          job_status_of r = RUNNING \<and> job_locked_by (f r) = job_locked_by r \<and>
          job_attempts (f r) = job_attempts r \<and> job_max_attempts (f r) = job_max_attempts r"
    and "\<And>w. b w = None \<or> b w = f_busy s w"
  shows "snapshots_current (s\<lparr> f_queue := update_where p f (f_queue s), f_busy := b \<rparr>)"
  unfolding snapshots_current_def
proof (intro allI impI, simp_all, elim in_update_whereE)
  fix w j r r0
  assume b: "b w = Some j" and r0: "r0 \<in> set (f_queue s)" "r = (if p r0 then f r0 else r0)"
    and r: "job_id r = job_id j" "job_status_of r = RUNNING" "job_locked_by r = Some w"
  from b assms(4) have busy: "f_busy s w = Some j" by (metis option.distinct(1))
  have "job_id r0 = job_id j \<and> job_status_of r0 = RUNNING \<and> job_locked_by r0 = Some w \<and>
        job_attempts r = job_attempts r0 \<and> job_max_attempts r = job_max_attempts r0"
    using r r0 assms(2,3) [of r0] by (cases "p r0") auto
  then show "job_attempts r = job_attempts j \<and> job_max_attempts r = job_max_attempts j"
    using assms(1) busy r0(1) by (auto simp: snapshots_current_def)
qed

lemma within_budget_update:
  assumes "list_all within_budget q"
    and "\<And>r. r \<in> set q \<Longrightarrow> p r \<Longrightarrow> within_budget r \<Longrightarrow> within_budget (f r)"
  shows "list_all within_budget (update_where p f q)"
  using assms by (auto simp: list_all_iff set_update_where)

lemma fleet_inv_update:
  assumes "fleet_inv s"
    and "queue_inv (update_where p f (f_queue s))"
    and "\<And>r. r \<in> set (f_queue s) \<Longrightarrow> p r \<Longrightarrow> within_budget r \<Longrightarrow> within_budget (f r)"
    and "\<And>r. r \<in> set (f_queue s) \<Longrightarrow> p r \<Longrightarrow> job_id (f r) = job_id r"
    and "\<And>r. r \<in> set (f_queue s) \<Longrightarrow> p r \<Longrightarrow> job_status_of (f r) = RUNNING \<Longrightarrow>
          job_status_of r = RUNNING \<and> job_locked_by (f r) = job_locked_by r \<and>
          job_attempts (f r) = job_attempts r \<and> job_max_attempts (f r) = job_max_attempts r"
    and "\<And>w. b w = None \<or> b w = f_busy s w"
  shows "fleet_inv (s\<lparr> f_queue := update_where p f (f_queue s), f_busy := b \<rparr>)"
proof -
  have "snapshots_current (s\<lparr> f_queue := update_where p f (f_queue s), f_busy := b \<rparr>)"
    by (rule snapshots_current_update [OF _ assms(4-6)])
      (use assms(1) in \<open>simp_all add: fleet_inv_def\<close>)
  moreover have "list_all within_budget (update_where p f (f_queue s))"
    by (rule within_budget_update [OF _ assms(3)])
      (use assms(1) in \<open>simp_all add: fleet_inv_def\<close>)
  ultimately show ?thesis using assms(2) by (simp add: fleet_inv_def)
qed

lemma fleet_inv_update_queue:
  assumes "fleet_inv s"
    and "queue_inv (update_where p f (f_queue s))"
    and "\<And>r. r \<in> set (f_queue s) \<Longrightarrow> p r \<Longrightarrow> within_budget r \<Longrightarrow> within_budget (f r)"
    and "\<And>r. r \<in> set (f_queue s) \<Longrightarrow> p r \<Longrightarrow> job_id (f r) = job_id r"
    and "\<And>r. r \<in> set (f_queue s) \<Longrightarrow> p r \<Longrightarrow> job_status_of (f r) = RUNNING \<Longrightarrow>
          job_status_of r = RUNNING \<and> job_locked_by (f r) = job_locked_by r \<and>
          job_attempts (f r) = job_attempts r \<and> job_max_attempts (f r) = job_max_attempts r"
  shows "fleet_inv (s\<lparr> f_queue := update_where p f (f_queue s) \<rparr>)"
proof -
  have "fleet_inv (s\<lparr> f_queue := update_where p f (f_queue s), f_busy := f_busy s \<rparr>)"
    by (rule fleet_inv_update [OF assms]) simp_all
  then show ?thesis by simp
qed

lemma heartbeat_step:
  assumes "fleet_inv s"
  shows "fleet_inv (s\<lparr> f_queue := snd (heartbeat me (f_now s) jid w lease (f_queue s)) \<rparr>)"
proof -
  have inv: "queue_inv (snd (heartbeat me (f_now s) jid w lease (f_queue s)))"
    using assms by (simp add: fleet_inv_def heartbeat_inv)
  show ?thesis
    using inv unfolding heartbeat_def fenced_update_def snd_conv
    by (rule fleet_inv_update_queue [OF assms])
      (auto simp: owned_by_def within_budget_def)
qed

lemma reclaim_step:
  assumes "fleet_inv s"
  shows "fleet_inv (s\<lparr> f_queue := snd (reclaim_expired me (f_now s) limit locked (f_queue s)) \<rparr>)"
proof -
  obtain ids where eq: "snd (reclaim_expired me (f_now s) limit locked (f_queue s)) =
      update_where (\<lambda>j. job_user j = me \<and> job_id j \<in> set ids) (mark_reclaimed (f_now s)) (f_queue s)"
    using reclaim_expired_eq [of "f_queue s" me "f_now s" locked limit] by blast
  have inv: "queue_inv (snd (reclaim_expired me (f_now s) limit locked (f_queue s)))"
    using assms by (simp add: fleet_inv_def reclaim_expired_inv)
  show ?thesis
    using inv unfolding eq
    by (rule fleet_inv_update_queue [OF assms])
      (auto simp: mark_reclaimed_def within_budget_def attempts_exhausted_def split: if_splits)
qed

lemma finish_step:
  assumes "fleet_inv s" and busy: "f_busy s w = Some j"
  shows "fleet_inv (s\<lparr> f_queue := snd (run_job (f_now s) w reg lost rand j (f_queue s)),
                       f_busy := (f_busy s)(w := None) \<rparr>)"
proof -
  let ?q = "f_queue s"
  have q: "queue_inv ?q" and snap: "snapshots_current s"
    using assms(1) by (simp_all add: fleet_inv_def)
  have idle: "snapshots_current (s\<lparr> f_busy := (f_busy s)(w := None) \<rparr>)"
    using snap by (auto simp: snapshots_current_def split: if_splits)
  from run_job_settlement [of "f_now s" w reg lost rand j ?q]
  consider "snd (run_job (f_now s) w reg lost rand j ?q) = ?q"
    | a where "snd (run_job (f_now s) w reg lost rand j ?q) =
          snd (settle (job_user j) (f_now s) a (job_id j) w ?q)"
        "(\<exists>t e tb. a = Reschedule t e tb) \<longrightarrow> \<not> attempts_exhausted j"
    by blast
  then show ?thesis
  proof cases
    case 1
    then show ?thesis using assms(1) idle by (simp add: fleet_inv_def)
  next
    case 2
    let ?p = "owned_by (job_user j) (job_id j) w"
    let ?f = "settle_row (f_now s) a"
    have eq: "snd (run_job (f_now s) w reg lost rand j ?q) = update_where ?p ?f ?q"
      by (simp add: 2(1) settle_eq fenced_update_def)
    have inv: "queue_inv (update_where ?p ?f ?q)"
      using run_job_inv [OF q, of "f_now s" w reg lost rand j] by (simp add: eq)
    have budget: "within_budget (?f r)" if "r \<in> set ?q" "?p r" "within_budget r" for r
    proof -
      have "job_attempts r = job_attempts j \<and> job_max_attempts r = job_max_attempts j"
        using snap busy that by (auto simp: snapshots_current_def owned_by_def)
      with that 2(2) show ?thesis
        by (cases a) (auto simp: within_budget_def attempts_exhausted_def)
    qed
    show ?thesis
      unfolding eq using fleet_inv_update [OF assms(1) inv budget] by simp
  qed
qed

lemma claim_step:
  assumes "fleet_inv s" and idle: "f_busy s w = None"
    and claimed: "claim me (f_now s) w lease only locked (f_queue s) = (Some j, q')"
  shows "fleet_inv (s\<lparr> f_queue := q', f_busy := (f_busy s)(w := Some j) \<rparr>)"
proof -
  let ?q = "f_queue s"
  obtain c where c: "c \<in> set ?q" "claimable me (f_now s) only locked c"
    and j: "j = mark_claimed w (f_now s) lease c"
    and q': "q' = update_where (\<lambda>k. job_id k = job_id c) (mark_claimed w (f_now s) lease) ?q"
    using claimed by (rule claimed_row) blast
  have q: "queue_inv ?q" and budget: "list_all within_budget ?q" and snap: "snapshots_current s"
    using assms(1) by (simp_all add: fleet_inv_def)
  have same: "k = c" if "k \<in> set ?q" "job_id k = job_id c" for k
    using same_job [OF q] that c(1) by simp
  have c_pending: "job_status_of c = PENDING" using c(2) by (simp add: claimable_def)
  have c_budget: "job_attempts c < job_max_attempts c"
    using budget c(1) c_pending by (auto simp: list_all_iff within_budget_def)
  have "queue_inv q'" using claim_inv [OF q] claimed by (metis snd_conv)
  moreover have "list_all within_budget q'"
    unfolding q' using budget
  proof (rule within_budget_update)
    fix r
    assume "r \<in> set ?q" "job_id r = job_id c"
    then have "r = c" by (rule same)
    with c_budget show "within_budget (mark_claimed w (f_now s) lease r)"
      by (simp add: within_budget_def mark_claimed_def)
  qed
  moreover have "snapshots_current (s\<lparr> f_queue := q', f_busy := (f_busy s)(w := Some j) \<rparr>)"
    unfolding snapshots_current_def
  proof (intro allI impI, simp_all)
    fix w' j' r
    assume busy: "(if w' = w then Some j else f_busy s w') = Some j'" and r: "r \<in> set q'"
      "job_id r = job_id j'" "job_status_of r = RUNNING" "job_locked_by r = Some w'"
    from r(1) obtain r0 where r0: "r0 \<in> set ?q"
      "r = (if job_id r0 = job_id c then mark_claimed w (f_now s) lease r0 else r0)"
      unfolding q' by (rule in_update_whereE)
    show "job_attempts r = job_attempts j' \<and> job_max_attempts r = job_max_attempts j'"
    proof (cases "job_id r0 = job_id c")
      case True
      with r0 same [OF r0(1) True] have "r = j" by (simp add: j)
      with r(4) have "w' = w" by (simp add: j mark_claimed_def)
      with busy \<open>r = j\<close> show ?thesis by simp
    next
      case False
      with r0 have "r = r0" by simp
      have "w' \<noteq> w"
      proof
        assume "w' = w"
        with busy have "j' = j" by simp
        with r(2) \<open>r = r0\<close> False show False by (simp add: j mark_claimed_def)
      qed
      with busy snap r0(1) r \<open>r = r0\<close> show ?thesis by (auto simp: snapshots_current_def)
    qed
  qed
  ultimately show ?thesis by (simp add: fleet_inv_def)
qed

lemma enqueue_step:
  assumes "fleet_inv s" and "job_spec_post_init spec = Inr spec"
    and fresh: "new_id \<notin> job_id ` set (f_queue s)"
  shows "fleet_inv (s\<lparr> f_queue := snd (enqueue_in me (f_now s) new_id spec (f_queue s)) \<rparr>)"
proof -
  have "1 \<le> spec_max_attempts spec"
    using assms(2) by (auto simp: job_spec_post_init_def split: if_splits)
  then show ?thesis
    using assms enqueue_in_inv [OF _ fresh assms(2)]
    by (auto simp: fleet_inv_def snapshots_current_def enqueue_in_def Let_def within_budget_def)
qed

lemma fleet_step_inv: "fleet_step s s' \<Longrightarrow> fleet_inv s \<Longrightarrow> fleet_inv s'"
proof (induction rule: fleet_step.induct)
  case (Crash s w)
  then show ?case by (auto simp: fleet_inv_def snapshots_current_def split: if_splits)
next
  case (Tick s t)
  then show ?case by (simp add: fleet_inv_def snapshots_current_def)
qed (auto intro: enqueue_step claim_step heartbeat_step finish_step reclaim_step)

lemma reachable_fleet_inv: "reachable_fleet s \<Longrightarrow> fleet_inv s"
  by (induction rule: reachable_fleet.induct) (auto intro: fleet_inv_init fleet_step_inv)

section \<open>A job that always fails\<close>

text \<open>One turn of a worker at time \<open>now\<close>: claim whatever is due, and run it.\<close>

definition attempt_round ::
  "nat \<Rightarrow> string \<Rightarrow> time \<Rightarrow> registry \<Rightarrow> pyfloat \<Rightarrow> time \<Rightarrow> job list \<Rightarrow> job list" where
  "attempt_round me w lease reg rand now q =
     (case claim me now w lease None [] q of
        (None, q') \<Rightarrow> q'
      | (Some j, q') \<Rightarrow> snd (run_job now w reg False rand j q'))"

text \<open>Turns taken whenever the only job of the queue falls due again.\<close>

primrec due_rounds ::
  "nat \<Rightarrow> nat \<Rightarrow> string \<Rightarrow> time \<Rightarrow> registry \<Rightarrow> pyfloat \<Rightarrow> job \<Rightarrow> job" where
  "due_rounds 0 me w lease reg rand j = j"
| "due_rounds (Suc n) me w lease reg rand j =
     (let j' = due_rounds n me w lease reg rand j
      in hd (attempt_round me w lease reg rand (job_run_after j') [j']))"

lemma attempt_round_failing:
  assumes "job_user j = me" and "job_status_of j = PENDING" and "job_run_after j \<le> now"
    and "get_handler reg (job_type_of j) = Some h"
    and "\<And>k. h k = Raised e" and "raise_kind e \<noteq> Permanent_Error"
  shows "\<exists>j'. attempt_round me w lease reg rand now [j] = [j'] \<and>
     job_user j' = me \<and> job_type_of j' = job_type_of j \<and>
     job_attempts j' = job_attempts j + 1 \<and> job_max_attempts j' = job_max_attempts j \<and>
     job_status_of j' = (if job_max_attempts j \<le> job_attempts j + 1 then FAILED else PENDING)"
proof -
  let ?c = "mark_claimed w now lease j"
  have claim: "claim me now w lease None [] [j] = (Some ?c, [?c])"
    using assms(1-3) by (simp add: claim_def claimable_def)
  have own: "owned_by me (job_id j) w ?c"
    by (simp add: owned_by_def mark_claimed_def assms(1))
  have run: "run_job now w reg False rand ?c [?c] = retry_or_dead_letter now w rand ?c e [?c]"
    using assms(4-6)
    by (cases "raise_kind e") (simp_all add: run_job_def settle_task_def mark_claimed_def)
  have c: "job_user ?c = me" "job_type_of ?c = job_type_of j" "job_id ?c = job_id j"
    "job_attempts ?c = job_attempts j + 1" "job_max_attempts ?c = job_max_attempts j"
    by (simp_all add: mark_claimed_def assms(1))
  have "attempt_round me w lease reg rand now [j] =
        snd (retry_or_dead_letter now w rand ?c e [?c])"
    by (simp add: attempt_round_def claim run)
  then show ?thesis
    using own by (simp add: c retry_or_dead_letter_def settle_dead_letter_def dead_letter_def
        reschedule_def fenced_update_def attempts_exhausted_def Let_def)
qed

lemma due_rounds_failing:
  assumes "job_user j = me" and "job_status_of j = PENDING" and "job_attempts j = 0"
    and "get_handler reg (job_type_of j) = Some h"
    and "\<And>k. h k = Raised e" and "raise_kind e \<noteq> Permanent_Error"
    and "int n \<le> job_max_attempts j" and "1 \<le> job_max_attempts j"
    and "j' = due_rounds n me w lease reg rand j"
  shows "job_user j' = me \<and> job_type_of j' = job_type_of j \<and> job_attempts j' = int n \<and>
     job_max_attempts j' = job_max_attempts j \<and>
     job_status_of j' = (if int n = job_max_attempts j then FAILED else PENDING)"
  using assms(7) unfolding assms(9)
proof (induction n)
  case 0
  then show ?case using assms(1-3,8) by simp
next
  case (Suc n)
  let ?k = "due_rounds n me w lease reg rand j"
  have k: "job_user ?k = me" "job_type_of ?k = job_type_of j" "job_attempts ?k = int n"
    "job_max_attempts ?k = job_max_attempts j" "job_status_of ?k = PENDING"
    using Suc by auto
  have "get_handler reg (job_type_of ?k) = Some h" using assms(4) k(2) by simp
  from attempt_round_failing [OF k(1,5) order_refl this assms(5,6), of w lease rand]
  show ?case using Suc.prems k by (auto simp: Let_def)
qed

section \<open>Expired leases\<close>

lemma reclaim_clears_expired:
  assumes "queue_inv q" and "length q \<le> limit"
  shows "\<forall>j \<in> set (snd (reclaim_expired me now limit [] q)). \<not> lease_expired me now j"
proof -
  let ?expired = "filter (lease_expired me now) q"
  show ?thesis
  proof (cases "?expired = []")
    case True
    then have "snd (reclaim_expired me now limit [] q) = q" by (simp add: reclaim_expired_def)
    with True show ?thesis by (simp add: filter_empty_conv)
  next
    case False
    define ids where
      "ids = map job_id (sort_key (\<lambda>j. the_default 0 (job_lease_expires_at j)) ?expired)"
    have ids: "set ids = job_id ` set ?expired" by (simp add: ids_def)
    with False have "ids \<noteq> []" by (metis empty_set image_is_empty set_empty)
    moreover have "length ?expired \<le> limit"
      using assms(2) length_filter_le order_trans by blast
    ultimately have eq: "snd (reclaim_expired me now limit [] q) =
        update_where (\<lambda>j. job_user j = me \<and> job_id j \<in> set ids) (mark_reclaimed now) q"
      by (simp add: reclaim_expired_def Let_def ids_def)
    have "job_id j \<in> set ids" if "j \<in> set q" "lease_expired me now j" for j
      using that by (simp add: ids)
    then show ?thesis
      unfolding eq by (auto elim!: in_update_whereE split: if_splits)
        (auto simp: lease_expired_def mark_reclaimed_def)
  qed
qed

end
