(* ===== verification/Queue_Guarantees.thy ===== *)
theory Queue_Guarantees
  imports Worker Timing
begin

text \<open>
  What the job queue and its workers promise (\<^verbatim>\<open>adapters/db/job_queue.py\<close>, \<^verbatim>\<open>application/worker.py\<close>), and
  the two clock-driven rules beside them, as properties over the definitions of \<open>Job_Queue\<close>,
  \<open>Worker\<close> and \<open>Timing\<close>, each with a concrete instance.
\<close>

section \<open>Sample rows\<close>

definition sample_spec :: job_spec where
  "sample_spec =
     \<lparr> spec_type = NOOP, spec_payload = [], spec_dedupe_key = Some ''key'', spec_priority = 0,
       spec_max_attempts = DEFAULT_MAX_ATTEMPTS, spec_run_after = None \<rparr>"

definition sample_queue :: "job list" where
  "sample_queue = snd (enqueue_in 1 100 7 sample_spec [])"

lemma sample_queue_eq:
  "sample_queue = [\<lparr> job_id = 7, job_user = 1, job_type_of = job_type_value NOOP, job_payload = [],
     job_status_of = PENDING, job_attempts = 0, job_max_attempts = DEFAULT_MAX_ATTEMPTS,
     job_run_after = 100, job_priority = 0, job_dedupe_key = Some ''key'', job_locked_by = None,
     job_locked_at = None, job_lease_expires_at = None, job_last_error = None,
     job_last_traceback = None, job_created_at = 100, job_updated_at = 100, job_completed_at = None \<rparr>]"
  by (simp add: sample_queue_def sample_spec_def enqueue_in_def)

lemma sample_spec_ok: "job_spec_post_init sample_spec = Inr sample_spec"
  by (simp add: sample_spec_def job_spec_post_init_def DEFAULT_MAX_ATTEMPTS_def)

lemma sample_queue_inv: "queue_inv sample_queue"
  unfolding sample_queue_def
  by (intro enqueue_in_inv [OF queue_inv_empty _ sample_spec_ok]) simp

section \<open>Enqueue and claim\<close>

text \<open>Enqueueing is idempotent while the work is in flight: a row that is pending or running under the
  same user, type and dedupe key makes the enqueue answer \<open>None\<close> and change nothing, and otherwise
  exactly one row is appended, pending, with no attempt made and under the id that is returned.\<close>

theorem enqueue_collapses_duplicates:
  assumes "spec_dedupe_key spec = Some k"
  shows "(case enqueue_in me now jid spec q of
            (None, q') \<Rightarrow> q' = q \<and>
              (\<exists>j \<in> set q. job_user j = me \<and> job_type_of j = job_type_value (spec_type spec) \<and>
                 job_dedupe_key j = Some k \<and> job_status_of j \<in> {PENDING, RUNNING})
          | (Some i, q') \<Rightarrow> i = jid \<and>
              (\<exists>j. q' = q @ [j] \<and> job_id j = jid \<and> job_user j = me \<and> job_status_of j = PENDING \<and>
                 job_attempts j = 0 \<and> job_dedupe_key j = Some k) \<and>
              fst (enqueue_in me now' jid' spec q') = None)"
  using assms
  by (auto simp: enqueue_in_def Let_def in_dedupe_index_def dedupe_columns_def)

theorem enqueue_collapses_duplicates_witness:
  "fst (enqueue_in 1 200 8 sample_spec sample_queue) = None \<and>
   snd (enqueue_in 1 200 8 sample_spec sample_queue) = sample_queue"
proof -
  have key: "spec_dedupe_key sample_spec = Some ''key''" by (simp add: sample_spec_def)
  have "fst (enqueue_in 1 200 8 sample_spec (snd (enqueue_in 1 100 7 sample_spec []))) = None"
    using enqueue_collapses_duplicates [OF key, where me = 1 and now = 100 and jid = 7 and q = "[]"
      and now' = 200 and jid' = 8]
    by (cases "enqueue_in 1 100 7 sample_spec []") (auto split: option.splits)
  then have none: "fst (enqueue_in 1 200 8 sample_spec sample_queue) = None"
    by (simp add: sample_queue_def)
  with enqueue_collapses_duplicates [OF key, where me = 1 and now = 200 and jid = 8 and q = sample_queue]
  show ?thesis by (cases "enqueue_in 1 200 8 sample_spec sample_queue") auto
qed

text \<open>A claim hands out the job that is due and comes first by priority and time, never one that another
  session has locked, marks that row running in the worker's name with one more attempt and the lease
  set, and touches no other row; there is nothing to claim exactly when no row qualifies.\<close>

theorem claim_takes_the_first_due_job:
  assumes "queue_inv q"
  shows "case claim me now w lease only locked q of
           (None, q') \<Rightarrow> q' = q \<and> (\<forall>j \<in> set q. \<not> claimable me now only locked j)
         | (Some j', q') \<Rightarrow>
             (\<exists>j \<in> set q. claimable me now only locked j \<and> j' = mark_claimed w now lease j \<and>
                (\<forall>k \<in> set q. claimable me now only locked k \<longrightarrow> claim_rank_of j \<le> claim_rank_of k) \<and>
                q' = map (\<lambda>k. if k = j then j' else k) q) \<and>
             job_attempts j' \<ge> 1 \<and> holder_of me q' (job_id j') = Some w"
proof (cases "claim me now w lease only locked q")
  case (Pair r q')
  show ?thesis
  proof (cases r)
    case None
    with Pair claim_None [of me now w lease only locked q q'] show ?thesis by simp
  next
    case (Some j')
    from claimed_row [OF Pair [unfolded Some]] obtain j where j: "j \<in> set q"
      "claimable me now only locked j" "j' = mark_claimed w now lease j"
      "q' = update_where (\<lambda>k. job_id k = job_id j) (mark_claimed w now lease) q"
      "\<And>k. k \<in> set q \<Longrightarrow> claimable me now only locked k \<Longrightarrow> claim_rank_of j \<le> claim_rank_of k"
      by blast
    have q': "q' = map (\<lambda>k. if k = j then j' else k) q"
      using j(1,3,4) same_job [OF assms] by (auto simp: update_where_def)
    have inv: "queue_inv q'" using claim_inv [OF assms, of me now w lease only locked] Pair by simp
    have "j' \<in> set q'" using j(1) q' by force
    moreover have "owned_by me (job_id j') w j'"
      using j(2,3) by (simp add: owned_by_def claimable_def mark_claimed_def)
    ultimately have "holder_of me q' (job_id j') = Some w" using holder_of_Some [OF inv] by blast
    moreover have "0 \<le> job_attempts j"
      using queue_invD(2) [OF assms j(1)] by (simp add: job_row_ok_def job_row_checks_def)
    ultimately show ?thesis using j(1,2,3,5) q' Some Pair by (auto simp: mark_claimed_def)
  qed
qed

theorem claim_takes_the_first_due_job_witness:
  "\<exists>j q'. claim 1 100 ''w'' 60 None [] sample_queue = (Some j, q') \<and> job_attempts j \<ge> 1 \<and>
     holder_of 1 q' (job_id j) = Some ''w''"
proof -
  have "claimable 1 100 None [] (hd sample_queue)" by (simp add: sample_queue_eq claimable_def)
  then have "fst (claim 1 100 ''w'' 60 None [] sample_queue) \<noteq> None"
    by (simp add: sample_queue_eq claim_def)
  with claim_takes_the_first_due_job [OF sample_queue_inv, where me = 1 and now = 100 and w = "''w''"
      and lease = 60 and only = None and locked = "[]"]
  show ?thesis by (cases "claim 1 100 ''w'' 60 None [] sample_queue") auto
qed

section \<open>Settlement\<close>

text \<open>Attempts to settle jobs, by any workers at any times, one after the other; their answers.\<close>

type_synonym attempt = "(time \<times> settlement) \<times> nat \<times> string"

definition attempt_settle :: "nat \<Rightarrow> time \<times> settlement \<Rightarrow> nat \<Rightarrow> string \<Rightarrow> job list \<Rightarrow> bool \<times> job list" where
  "attempt_settle me a = settle me (fst a) (snd a)"

primrec settle_attempts :: "nat \<Rightarrow> attempt list \<Rightarrow> job list \<Rightarrow> bool list \<times> job list" where
  "settle_attempts me [] q = ([], q)"
| "settle_attempts me (x # xs) q =
     (let r = attempt_settle me (fst x) (fst (snd x)) (snd (snd x)) q; rs = settle_attempts me xs (snd r)
      in (fst r # fst rs, snd rs))"

interpretation timed_port: settling_queue queue_inv "holder_of me" "attempt_settle me"
  unfolding attempt_settle_def
  by unfold_locales
    (simp_all add: jobs_port.settle_inv jobs_port.settle_ok jobs_port.settle_lost
      jobs_port.settle_releases jobs_port.settle_others del: settle.simps)

lemma settle_attempts_eq: "settle_attempts me xs q = timed_port.settle_all me xs q"
  by (induction xs arbitrary: q) (simp_all add: Let_def)

text \<open>C34 A job is settled at most once: whatever sequence of completions, reschedulings and dead-letterings of
  it any workers attempt at any times without a new claim, at most one of them is told it succeeded.\<close>

theorem a_job_settles_at_most_once:
  assumes "queue_inv q"
  shows "length (filter (\<lambda>(x, ok). fst (snd x) = jid \<and> ok) (zip xs (fst (settle_attempts me xs q)))) \<le> 1"
  unfolding settle_attempts_eq by (rule timed_port.settled_at_most_once [OF assms])

theorem a_job_settles_at_most_once_witness:
  "length (filter (\<lambda>(x :: attempt, ok). fst (snd x) = 7 \<and> ok)
     (zip [((110, Complete), 7, ''w''), ((120, Dead_Letter ''e'' ''t''), 7, ''v'')] 
        (fst (settle_attempts 1 [((110, Complete), 7, ''w''), ((120, Dead_Letter ''e'' ''t''), 7, ''v'')]
           (snd (claim 1 100 ''w'' 60 None [] sample_queue)))))) \<le> 1"
  by (rule a_job_settles_at_most_once [OF claim_inv [OF sample_queue_inv]])

text \<open>The fence: a worker whose lease was taken from it changes nothing by finishing, however its handler
  ended, and one that still holds the job leaves the table's invariant intact and every other job as it was.\<close>

theorem only_the_holder_writes:
  assumes "queue_inv q"
  shows "queue_inv (snd (run_job now w reg lost rand j q)) \<and>
         (holder_of (job_user j) q (job_id j) \<noteq> Some w \<longrightarrow> snd (run_job now w reg lost rand j q) = q) \<and>
         (\<forall>i. i \<noteq> job_id j \<longrightarrow>
            holder_of (job_user j) (snd (run_job now w reg lost rand j q)) i = holder_of (job_user j) q i)"
proof (intro conjI allI impI)
  show "queue_inv (snd (run_job now w reg lost rand j q))" by (rule run_job_inv [OF assms])
  show "snd (run_job now w reg lost rand j q) = q" if "holder_of (job_user j) q (job_id j) \<noteq> Some w"
    by (rule run_job_fenced [OF assms that])
  show "holder_of (job_user j) (snd (run_job now w reg lost rand j q)) i = holder_of (job_user j) q i"
    if "i \<noteq> job_id j" for i
    using run_job_settlement [of now w reg lost rand j q] that
    by (auto simp: jobs_port.settle_others [OF assms] simp del: settle.simps)
qed

theorem only_the_holder_writes_witness:
  "holder_of 1 sample_queue 7 = None \<and>
   snd (run_job 500 ''w'' (register NOOP (\<lambda>_. Returned) []) False 0 (hd sample_queue) sample_queue) = sample_queue"
proof -
  have none: "holder_of 1 sample_queue 7 = None" by (simp add: holder_of_def sample_queue_eq)
  then have "holder_of (job_user (hd sample_queue)) sample_queue (job_id (hd sample_queue)) \<noteq> Some ''w''"
    by (simp add: sample_queue_eq)
  with only_the_holder_writes [OF sample_queue_inv, where now = 500 and w = "''w''"
      and reg = "register NOOP (\<lambda>_. Returned) []" and lost = False and rand = 0 and j = "hd sample_queue"] none
  show ?thesis by blast
qed

section \<open>Leases and the attempt budget\<close>

text \<open>Nothing stays running past its lease: a sweep with room for the whole table and no row locked by
  another session leaves no expired lease, and each row it takes goes back to pending, or to failed when
  its attempts are used up, owned by nobody, while every other row is as before.\<close>

theorem reclaim_frees_every_expired_lease:
  assumes "queue_inv q" and "length q \<le> limit"
  shows "(\<forall>j \<in> set (snd (reclaim_expired me now limit [] q)). \<not> lease_expired me now j) \<and>
         snd (reclaim_expired me now limit [] q) =
           map (\<lambda>j. if lease_expired me now j then mark_reclaimed now j else j) q"
proof -
  obtain ids where ids: "set ids \<subseteq> job_id ` {j \<in> set q. lease_expired me now j \<and> job_id j \<notin> set []}"
    and eq: "snd (reclaim_expired me now limit [] q) =
       update_where (\<lambda>j. job_user j = me \<and> job_id j \<in> set ids) (mark_reclaimed now) q"
    using reclaim_expired_eq [of q me now "[]" limit] by blast
  have taken: "lease_expired me now j" if j: "j \<in> set q" "job_id j \<in> set ids" for j
    using j ids same_job [OF assms(1)] by (auto simp: subset_iff image_iff)
  have gone: "\<forall>j \<in> set (snd (reclaim_expired me now limit [] q)). \<not> lease_expired me now j"
    by (rule reclaim_clears_expired [OF assms])
  have all: "job_user j = me \<and> job_id j \<in> set ids" if j: "j \<in> set q" "lease_expired me now j" for j
  proof (rule ccontr)
    assume "\<not> ?thesis"
    with j have "j \<in> set (snd (reclaim_expired me now limit [] q))"
      unfolding eq update_where_def by force
    with gone j show False by blast
  qed
  have "snd (reclaim_expired me now limit [] q) =
      map (\<lambda>j. if lease_expired me now j then mark_reclaimed now j else j) q"
    unfolding eq update_where_def
  proof (rule map_cong [OF refl])
    fix j assume "j \<in> set q"
    then have "(job_user j = me \<and> job_id j \<in> set ids) = lease_expired me now j"
      using taken all by blast
    then show "(if job_user j = me \<and> job_id j \<in> set ids then mark_reclaimed now j else j) =
        (if lease_expired me now j then mark_reclaimed now j else j)" by simp
  qed
  with gone show ?thesis by blast
qed

theorem reclaim_frees_every_expired_lease_witness:
  "let q = snd (claim 1 100 ''w'' 60 None [] sample_queue)
   in filter (lease_expired 1 161) (snd (reclaim_expired 1 161 5 [] q)) = []"
proof -
  have "length (snd (claim 1 100 ''w'' 60 None [] sample_queue)) \<le> 5"
    by (simp add: sample_queue_eq claim_def claimable_def)
  from reclaim_frees_every_expired_lease [OF claim_inv [OF sample_queue_inv] this, of 1 161]
  show ?thesis unfolding Let_def filter_empty_conv by blast
qed




definition sample_failure :: py_raise where
  "sample_failure = \<lparr> raise_kind = Transient_Error, raise_message = ''boom'',
     raise_type_name = ''TransientError'', raise_traceback = [] \<rparr>"


text \<open>The polling loop keeps the table's invariant through any number of turns, and its sleeps stay between
  the configured minimum and maximum.\<close>

theorem polling_keeps_queue_and_pace:
  assumes "worker_config_post_init c = Inr c" and "queue_inv q"
  shows "queue_inv (w_queue (snd (run_loop me w reg c drain ts (start_state c q)))) \<and>
         (\<forall>d \<in> set (slept (snd (run_loop me w reg c drain ts (start_state c q)))).
            poll_min_seconds c \<le> d \<and> d \<le> poll_max_seconds c)"
proof -
  have "queue_inv (w_queue (start_state c q))" "poll_bounds c (start_state c q)"
    using assms by (auto simp: start_state_def poll_bounds_def worker_config_post_init_def split: if_splits)
  from run_loop_invariant [OF assms(1) this] show ?thesis by (auto simp: poll_bounds_def)
qed

definition sample_config :: worker_config where
  "sample_config = \<lparr> cfg_lease = 60, poll_min_seconds = 1, poll_max_seconds = 5,
     reclaim_every_iterations = 10, reclaim_limit = 100, idle_polls_before_drain_stop = 2,
     concurrency = 1, cfg_only = [] \<rparr>"

theorem polling_keeps_queue_and_pace_witness:
  "worker_config_post_init sample_config = Inr sample_config \<and>
   queue_inv (w_queue (snd (run_loop 1 ''w'' [] sample_config True
     [\<lparr> t_stopping = False, t_now = 100, t_locked = [], t_lost = False, t_rand = 0 \<rparr>]
     (start_state sample_config sample_queue))))"
proof -
  have ok: "worker_config_post_init sample_config = Inr sample_config"
    by (simp add: worker_config_post_init_def sample_config_def)
  with polling_keeps_queue_and_pace [OF ok sample_queue_inv] show ?thesis by blast
qed

section \<open>The clock-driven rules\<close>



text \<open>Retries back off within bounds: for any random draw in [0, 1) the delay is between one second and
  ten minutes, does not fall as attempts accumulate, and is half to all of the capped power of two.\<close>

theorem backoff_is_bounded_and_monotone:
  assumes "0 \<le> rand" and "rand < 1" and "m \<le> n"
  shows "1 \<le> default_backoff m rand \<and> default_backoff n rand \<le> 600 \<and>
         default_backoff m rand \<le> default_backoff n rand \<and>
         min (2 * 2 ^ n) 600 / 2 \<le> default_backoff n rand \<and> default_backoff n rand \<le> min (2 * 2 ^ n) 600"
  using default_backoff_bounds [OF assms(1,2)] backoff_mono [OF assms(1,3), of 2 600]
    compute_backoff_bounds [OF assms(1,2), of 2 600 n]
  by (simp add: default_backoff_def)

theorem backoff_is_bounded_and_monotone_witness:
  "1 \<le> default_backoff 0 (1 / 2) \<and> default_backoff 20 (1 / 2) \<le> 600"
  using backoff_is_bounded_and_monotone [of "1 / 2" 0 20] by simp

end
