(* ===== verification/Values.thy ===== *)
theory Values
  imports Pystring
begin

text \<open>
  The enumerations and value objects of \<^verbatim>\<open>domain/values.py\<close>. A \<^verbatim>\<open>StrEnum\<close> is a datatype; the string a
  member is stored as is given where the code writes it to a column or parses it back.
\<close>

section \<open>Content hashes\<close>

datatype content_hash = ContentHash (hash_value: string)

definition is_hex64 :: "string \<Rightarrow> bool" where
  "is_hex64 s \<longleftrightarrow> length s = 64 \<and> list_all is_lower_hex s"

definition mk_content_hash :: "string \<Rightarrow> content_hash result" where
  "mk_content_hash s = (if is_hex64 s then Inr (ContentHash s) else Inl ValueError)"

text \<open>\<open>blake2b\<close> is \<^verbatim>\<open>hashlib.blake2b(data, digest_size=32).hexdigest()\<close>.\<close>

definition content_hash_of :: "('b list \<Rightarrow> string) \<Rightarrow> 'b list \<Rightarrow> content_hash result" where
  "content_hash_of blake2b data = mk_content_hash (blake2b data)"

lemma mk_content_hash_Inr:
  "mk_content_hash s = Inr h \<longleftrightarrow> is_hex64 s \<and> h = ContentHash s"
  by (auto simp: mk_content_hash_def)

section \<open>Enumerations\<close>

datatype time_provenance =
    TP_DECLARED | TP_PARSED | TP_FILESYSTEM | TP_INFERRED | TP_UNKNOWN

datatype period = DAY | WEEK | MONTH

datatype source_kind = SK_FILESYSTEM | SK_CHAT | SK_UPLOAD

datatype memory_kind = NOTE | DOCUMENT | CODE | EMAIL | COMMIT | MEETING | BOOKMARK | OTHER_KIND

datatype event_type = ARTIFACT_OBSERVED | ITEM_DELETED | ITEM_PURGED

datatype search_mode = VECTOR | KEYWORD | HYBRID

definition DEFAULT_SEARCH_MODE :: search_mode where
  "DEFAULT_SEARCH_MODE = HYBRID"

datatype entity_type =
    PERSON | TECHNOLOGY | PROJECT | ORGANIZATION | CONCEPT | FILE_ENTITY | DECISION_ENTITY

datatype predicate =
    USES | DEPENDS_ON | PART_OF | AUTHORED_BY | MENTIONS | SUPERSEDES | RELATES_TO

datatype merge_strategy = EXACT | EMBEDDING | ALIAS | LLM | MANUAL

datatype merge_status = MERGE_PENDING | APPLIED | REVERTED

datatype confidence_horizon = FORESIGHT | HINDSIGHT | HORIZON_UNKNOWN

datatype dimension =
    GOALS | HABITS | STRENGTHS | WEAKNESSES | LEARNING_STYLE | DECISION_PATTERNS | WORKFLOWS

datatype outcome_verdict = WORKED | OUTCOME_FAILED | MIXED | TOO_EARLY

definition RESOLVED_VERDICTS :: "outcome_verdict set" where
  "RESOLVED_VERDICTS = {WORKED, OUTCOME_FAILED, MIXED}"

fun time_provenance_value :: "time_provenance \<Rightarrow> string" where
  "time_provenance_value TP_DECLARED = ''declared''"
| "time_provenance_value TP_PARSED = ''parsed''"
| "time_provenance_value TP_FILESYSTEM = ''filesystem''"
| "time_provenance_value TP_INFERRED = ''inferred''"
| "time_provenance_value TP_UNKNOWN = ''unknown''"

fun event_type_value :: "event_type \<Rightarrow> string" where
  "event_type_value ARTIFACT_OBSERVED = ''artifact_observed''"
| "event_type_value ITEM_DELETED = ''item_deleted''"
| "event_type_value ITEM_PURGED = ''item_purged''"

lemma time_provenance_value_inj: "time_provenance_value a = time_provenance_value b \<Longrightarrow> a = b"
  by (cases a; cases b) simp_all

lemma event_type_value_inj: "event_type_value a = event_type_value b \<Longrightarrow> a = b"
  by (cases a; cases b) simp_all

end
