(* ===== verification/Corpus.thy ===== *)
theory Corpus
  imports Values Job_Queue
begin

text \<open>
  The system of record and its first projection: the entities of \<^verbatim>\<open>domain/entities.py\<close> with their
  validation, the projection of \<^verbatim>\<open>application/projection.py\<close>, the tables of
  \<^verbatim>\<open>adapters/db/models.py\<close> that hold them and the repositories of \<^verbatim>\<open>adapters/db/repositories.py\<close>.

  A corpus is one user's view of the tables (row-level security hides the others), the blob store
  and the job queue. \<^verbatim>\<open>new_id()\<close> draws from a counter, rendered in decimal where the code writes
  \<^verbatim>\<open>str(uuid)\<close>. \<open>project_events\<close> is the abstract specification: what the table of memories has to be,
  up to the ids of its rows, given the event log alone.
\<close>

section \<open>Entities\<close>

type_synonym bytes = "nat list"
type_synonym fingerprint = "int list"

record source =
  src_id :: nat
  src_kind :: source_kind
  src_name :: string
  src_cursor_seen :: "(string \<times> fingerprint) list"
  src_last_sync_at :: "time option"
  src_last_full_sync_at :: "time option"

definition source_post_init :: "source \<Rightarrow> source result" where
  "source_post_init s = (if src_name s = [] then Inl ValueError else Inr s)"

record raw_artifact =
  art_hash :: string
  art_byte_size :: int
  art_media_type :: "string option"

definition raw_artifact_post_init :: "raw_artifact \<Rightarrow> raw_artifact result" where
  "raw_artifact_post_init a = (if art_byte_size a < 0 then Inl ValueError else Inr a)"

record ingestion_event =
  ev_id :: nat
  ev_type :: event_type
  ev_source :: nat
  ev_key :: string
  ev_occurred_at_source :: time_provenance
  ev_seq :: "nat option"
  ev_schema_version :: int
  ev_content_hash :: "string option"
  ev_occurred_at :: "time option"
  ev_media_type :: "string option"
  ev_recorded_at :: "time option"

definition ingestion_event_post_init :: "ingestion_event \<Rightarrow> ingestion_event result" where
  "ingestion_event_post_init e =
     (if ev_key e = [] then Inl ValueError
      else if ev_schema_version e < 1 then Inl ValueError
      else Inr e)"

record memory =
  m_id :: nat
  m_source :: nat
  m_key :: string
  m_content_hash :: string
  m_kind :: memory_kind
  m_occurred_at_source :: time_provenance
  m_version :: int
  m_is_current :: bool
  m_occurred_at :: "time option"
  m_ingested_at :: "time option"
  m_importance :: "pyfloat option"
  m_media_type :: "string option"
  m_deleted_at :: "time option"

definition memory_post_init :: "memory \<Rightarrow> memory result" where
  "memory_post_init m =
     (if m_key m = [] then Inl ValueError
      else if m_version m < 1 then Inl ValueError
      else if (m_occurred_at m = None) \<noteq> (m_occurred_at_source m = TP_UNKNOWN) then Inl ValueError
      else if (case m_importance m of None \<Rightarrow> False | Some i \<Rightarrow> \<not> (0 \<le> i \<and> i \<le> 1)) then Inl ValueError
      else Inr m)"

record memory_chunk =
  ch_ordinal :: int
  ch_token_count :: int
  ch_char_start :: int
  ch_char_end :: int
  ch_prefix_chars :: int

definition memory_chunk_post_init :: "memory_chunk \<Rightarrow> memory_chunk result" where
  "memory_chunk_post_init c =
     (if ch_ordinal c < 0 then Inl ValueError
      else if ch_token_count c \<le> 0 then Inl ValueError
      else if ch_char_start c < 0 then Inl ValueError
      else if ch_char_end c \<le> ch_char_start c then Inl ValueError
      else if ch_prefix_chars c < 0 then Inl ValueError
      else Inr c)"

section \<open>Projection of one event\<close>

definition KIND_BY_SUFFIX :: "(string \<times> memory_kind) list" where
  "KIND_BY_SUFFIX = [(''.md'', NOTE), (''.txt'', NOTE), (''.py'', CODE), (''.pdf'', DOCUMENT)]"

definition kind_for :: "string \<Rightarrow> memory_kind" where
  "kind_for external_key =
     (let suffix = (case rfind_char (CHR ''.'') external_key of
                      None \<Rightarrow> []
                    | Some dot \<Rightarrow> if 0 < dot then lower (drop dot external_key) else [])
      in dict_get KIND_BY_SUFFIX suffix OTHER_KIND)"

datatype projection_error = MalformedEvent | InvalidMemory

definition recorded_at_of :: "ingestion_event \<Rightarrow> projection_error + time" where
  "recorded_at_of e = (case ev_recorded_at e of None \<Rightarrow> Inl MalformedEvent | Some t \<Rightarrow> Inr t)"

definition memory_from_event :: "ingestion_event \<Rightarrow> nat \<Rightarrow> projection_error + memory" where
  "memory_from_event e memory_id =
     (case ev_content_hash e of
        None \<Rightarrow> Inl MalformedEvent
      | Some h \<Rightarrow>
          case memory_post_init
            \<lparr> m_id = memory_id, m_source = ev_source e, m_key = ev_key e, m_content_hash = h,
              m_kind = kind_for (ev_key e), m_occurred_at_source = ev_occurred_at_source e,
              m_version = 1, m_is_current = True, m_occurred_at = ev_occurred_at e,
              m_ingested_at = ev_recorded_at e, m_importance = None,
              m_media_type = ev_media_type e, m_deleted_at = None \<rparr> of
            Inl _ \<Rightarrow> Inl InvalidMemory
          | Inr m \<Rightarrow> Inr m)"

section \<open>The tables\<close>

text \<open>Only the columns that the modelled operations read are kept of the tables of derived rows.\<close>

record chunk_row =
  ck_id :: nat
  ck_memory :: nat
  ck_ordinal :: nat
  ck_embedded :: bool

record mention_row =
  mn_memory :: nat
  mn_entity :: nat

record corpus =
  c_user :: nat
  c_sources :: "source list"
  c_memories :: "memory list"
  c_events :: "ingestion_event list"
  c_artifacts :: "raw_artifact list"
  c_blobs :: "(string \<times> bytes) list"
  c_chunks :: "chunk_row list"
  c_mentions :: "mention_row list"
  c_evidence :: "nat list"
  c_tags :: "(nat \<times> string) list"
  c_turns :: "(nat \<times> string) list"
  c_attachments :: "(nat \<times> string) list"
  c_jobs :: "job list"
  c_next_id :: nat

definition empty_corpus :: "nat \<Rightarrow> corpus" where
  "empty_corpus me = \<lparr> c_user = me, c_sources = [], c_memories = [], c_events = [], c_artifacts = [],
     c_blobs = [], c_chunks = [], c_mentions = [], c_evidence = [], c_tags = [], c_turns = [],
     c_attachments = [], c_jobs = [], c_next_id = 0 \<rparr>"

definition new_id :: "corpus \<Rightarrow> nat \<times> corpus" where
  "new_id c = (c_next_id c, c\<lparr> c_next_id := Suc (c_next_id c) \<rparr>)"

text \<open>The blob store: \<^verbatim>\<open>put\<close> keeps bytes that are already there.\<close>

definition blob_exists :: "string \<Rightarrow> corpus \<Rightarrow> bool" where
  "blob_exists h c \<longleftrightarrow> h \<in> fst ` set (c_blobs c)"

definition blob_put :: "string \<Rightarrow> bytes \<Rightarrow> corpus \<Rightarrow> corpus" where
  "blob_put h data c = (if blob_exists h c then c else c\<lparr> c_blobs := c_blobs c @ [(h, data)] \<rparr>)"

definition blob_delete :: "string \<Rightarrow> corpus \<Rightarrow> corpus" where
  "blob_delete h c = c\<lparr> c_blobs := filter (\<lambda>b. fst b \<noteq> h) (c_blobs c) \<rparr>"

definition artifact_exists :: "string \<Rightarrow> corpus \<Rightarrow> bool" where
  "artifact_exists h c \<longleftrightarrow> h \<in> art_hash ` set (c_artifacts c)"

definition artifact_add :: "raw_artifact \<Rightarrow> corpus \<Rightarrow> corpus" where
  "artifact_add a c = c\<lparr> c_artifacts := c_artifacts c @ [a] \<rparr>"

definition source_get :: "nat \<Rightarrow> corpus \<Rightarrow> source option" where
  "source_get sid c = find (\<lambda>s. src_id s = sid) (c_sources c)"

section \<open>Repositories\<close>

definition same_item :: "nat \<Rightarrow> string \<Rightarrow> memory \<Rightarrow> bool" where
  "same_item source_id key m \<longleftrightarrow> m_source m = source_id \<and> m_key m = key"

definition current_row :: "nat \<Rightarrow> string \<Rightarrow> memory list \<Rightarrow> memory option" where
  "current_row source_id key ms = find (\<lambda>m. same_item source_id key m \<and> m_is_current m) ms"

definition add_version :: "memory \<Rightarrow> memory list \<Rightarrow> memory list" where
  "add_version m ms =
     (case current_row (m_source m) (m_key m) ms of
        None \<Rightarrow> ms @ [m\<lparr> m_version := 1, m_is_current := True \<rparr>]
      | Some current \<Rightarrow>
          update_where (\<lambda>r. m_id r = m_id current) (\<lambda>r. r\<lparr> m_is_current := False \<rparr>) ms @
          [m\<lparr> m_version := m_version current + 1, m_is_current := True \<rparr>])"

definition tombstone_row :: "nat \<Rightarrow> time \<Rightarrow> memory list \<Rightarrow> memory list" where
  "tombstone_row memory_id stamp ms =
     update_where (\<lambda>r. m_id r = memory_id) (\<lambda>r. r\<lparr> m_deleted_at := Some stamp \<rparr>) ms"

text \<open>
  The log assigns \<^verbatim>\<open>seq\<close>, and \<^verbatim>\<open>recorded_at\<close> where the event carries none. The table's CHECK refuses a
  time of unknown provenance and a provenance without a time.
\<close>

definition append_event ::
  "time \<Rightarrow> ingestion_event \<Rightarrow> corpus \<Rightarrow> (ingestion_event \<times> corpus) option" where
  "append_event now e c =
     (if (ev_occurred_at e = None) \<noteq> (ev_occurred_at_source e = TP_UNKNOWN) then None
      else let e' = e\<lparr> ev_seq := Some (Suc (length (c_events c))),
                       ev_recorded_at := (case ev_recorded_at e of None \<Rightarrow> Some now | Some t \<Rightarrow> Some t) \<rparr>
           in Some (e', c\<lparr> c_events := c_events c @ [e'] \<rparr>))"

definition events_after :: "nat \<Rightarrow> corpus \<Rightarrow> ingestion_event list" where
  "events_after after_seq c =
     filter (\<lambda>e. case ev_seq e of None \<Rightarrow> False | Some s \<Rightarrow> after_seq < s) (c_events c)"

definition replay_events :: "nat \<Rightarrow> nat \<Rightarrow> corpus \<Rightarrow> ingestion_event list" where
  "replay_events after_seq limit c = take limit (events_after after_seq c)"

definition enqueue_job :: "time \<Rightarrow> job_spec \<Rightarrow> corpus \<Rightarrow> corpus" where
  "enqueue_job now spec c =
     (let (jid, c') = new_id c
      in c'\<lparr> c_jobs := snd (enqueue_in (c_user c') now jid spec (c_jobs c')) \<rparr>)"

section \<open>Specification: the table as a function of the log\<close>

definition erase :: "memory \<Rightarrow> memory" where
  "erase m = m\<lparr> m_id := 0 \<rparr>"

definition next_version :: "memory option \<Rightarrow> int" where
  "next_version current = (case current of None \<Rightarrow> 1 | Some r \<Rightarrow> m_version r + 1)"

definition supersede :: "memory \<Rightarrow> memory list \<Rightarrow> memory list" where
  "supersede m ms =
     update_where (\<lambda>r. same_item (m_source m) (m_key m) r \<and> m_is_current r)
       (\<lambda>r. r\<lparr> m_is_current := False \<rparr>) ms @
     [m\<lparr> m_version := next_version (current_row (m_source m) (m_key m) ms), m_is_current := True \<rparr>]"

definition bury :: "nat \<Rightarrow> string \<Rightarrow> time \<Rightarrow> memory list \<Rightarrow> memory list" where
  "bury source_id key stamp ms =
     update_where (\<lambda>r. same_item source_id key r \<and> m_is_current r)
       (\<lambda>r. r\<lparr> m_deleted_at := Some stamp \<rparr>) ms"

definition project_event :: "ingestion_event \<Rightarrow> memory list \<Rightarrow> memory list" where
  "project_event e ms =
     (case ev_type e of
        ARTIFACT_OBSERVED \<Rightarrow>
          (case memory_from_event e 0 of Inl _ \<Rightarrow> ms | Inr m \<Rightarrow> supersede m ms)
      | ITEM_DELETED \<Rightarrow>
          (case recorded_at_of e of Inl _ \<Rightarrow> ms | Inr t \<Rightarrow> bury (ev_source e) (ev_key e) t ms)
      | ITEM_PURGED \<Rightarrow> filter (\<lambda>m. \<not> same_item (ev_source e) (ev_key e) m) ms)"

definition project_events :: "ingestion_event list \<Rightarrow> memory list \<Rightarrow> memory list" where
  "project_events es ms = fold project_event es ms"

section \<open>What every operation keeps of the table of memories\<close>

text \<open>
  \<open>memories_ok\<close> holds what the table's constraints ask, and more: row ids are unique, and the versions
  of an item are numbered 1, 2, 3, ... in the order they were added, the last one current and no other.
\<close>

definition versions_in_order :: "memory list \<Rightarrow> bool" where
  "versions_in_order rows \<longleftrightarrow>
     map m_version rows = map (\<lambda>i. int (Suc i)) [0..<length rows] \<and>
     map m_is_current rows = (if rows = [] then [] else replicate (length rows - 1) False @ [True])"

definition item_rows :: "nat \<Rightarrow> string \<Rightarrow> memory list \<Rightarrow> memory list" where
  "item_rows source_id key ms = filter (same_item source_id key) ms"

definition memories_ok :: "memory list \<Rightarrow> bool" where
  "memories_ok ms \<longleftrightarrow>
     distinct (map m_id ms) \<and>
     (\<forall>m \<in> set ms. versions_in_order (item_rows (m_source m) (m_key m) ms))"

lemma same_item_keeps [simp]:
  "same_item s k (m\<lparr> m_id := i \<rparr>) = same_item s k m"
  "same_item s k (m\<lparr> m_version := v \<rparr>) = same_item s k m"
  "same_item s k (m\<lparr> m_is_current := b \<rparr>) = same_item s k m"
  "same_item s k (m\<lparr> m_deleted_at := d \<rparr>) = same_item s k m"
  "same_item s k (erase m) = same_item s k m"
  by (simp_all add: same_item_def erase_def)

lemma same_item_self [simp]: "same_item (m_source m) (m_key m) m"
  by (simp add: same_item_def)

lemma erase_simps [simp]:
  "m_source (erase m) = m_source m" "m_key (erase m) = m_key m"
  "m_content_hash (erase m) = m_content_hash m" "m_version (erase m) = m_version m"
  "m_is_current (erase m) = m_is_current m" "m_deleted_at (erase m) = m_deleted_at m"
  "erase (m\<lparr> m_id := i \<rparr>) = erase m"
  by (simp_all add: erase_def)

lemma versions_in_order_Nil [simp]: "versions_in_order []"
  by (simp add: versions_in_order_def)

lemma versions_in_order_last:
  assumes "versions_in_order rows" and "rows \<noteq> []"
  shows "m_is_current (last rows)" and "m_version (last rows) = int (length rows)"
proof -
  obtain xs x where rows: "rows = xs @ [x]"
    using assms(2) by (cases rows rule: rev_exhaust) auto
  then show "m_is_current (last rows)" and "m_version (last rows) = int (length rows)"
    using assms(1) by (simp_all add: versions_in_order_def)
qed

lemma versions_in_order_current:
  assumes "versions_in_order rows" and "r \<in> set rows" and "m_is_current r"
  shows "r = last rows"
proof -
  obtain xs x where rows: "rows = xs @ [x]"
    using assms(2) by (cases rows rule: rev_exhaust) auto
  have "map m_is_current xs = replicate (length xs) False"
    using assms(1) rows by (simp add: versions_in_order_def)
  then have "\<forall>y \<in> set xs. \<not> m_is_current y"
    by (metis imageI in_set_replicate list.set_map)
  with assms rows show ?thesis by auto
qed

lemma memories_okD:
  assumes "memories_ok ms"
  shows "distinct (map m_id ms)" and "versions_in_order (item_rows s k ms)"
proof -
  show "distinct (map m_id ms)" using assms by (simp add: memories_ok_def)
  show "versions_in_order (item_rows s k ms)"
  proof (cases "item_rows s k ms = []")
    case False
    then obtain m where "m \<in> set ms" and "same_item s k m"
      by (auto simp: item_rows_def filter_empty_conv)
    with assms show ?thesis by (auto simp: memories_ok_def same_item_def)
  qed simp
qed

lemma memories_okI:
  "distinct (map m_id ms) \<Longrightarrow> (\<And>s k. versions_in_order (item_rows s k ms)) \<Longrightarrow> memories_ok ms"
  by (simp add: memories_ok_def)

lemma current_rowD:
  assumes "current_row s k ms = Some r"
  shows "r \<in> set ms" and "same_item s k r" and "m_is_current r"
  using assms by (auto simp: current_row_def find_Some_iff)

lemma current_row_eq:
  assumes "memories_ok ms"
  shows "current_row s k ms =
    (if item_rows s k ms = [] then None else Some (last (item_rows s k ms)))"
proof (cases "current_row s k ms")
  case None
  then have none: "\<forall>r \<in> set ms. \<not> (same_item s k r \<and> m_is_current r)"
    by (simp add: current_row_def find_None_iff)
  have "item_rows s k ms = []"
  proof (rule ccontr)
    assume ne: "item_rows s k ms \<noteq> []"
    from versions_in_order_last(1) [OF memories_okD(2) [OF assms] this] last_in_set [OF ne]
    show False using none by (auto simp: item_rows_def)
  qed
  with None show ?thesis by simp
next
  case (Some r)
  from current_rowD [OF this] have r: "r \<in> set (item_rows s k ms)" "m_is_current r"
    by (auto simp: item_rows_def)
  with versions_in_order_current [OF memories_okD(2) [OF assms] r] Some
  show ?thesis by (auto split: if_splits)
qed

lemma current_unique:
  assumes "memories_ok ms" and "current_row s k ms = Some r" and "x \<in> set ms"
  shows "same_item s k x \<and> m_is_current x \<longleftrightarrow> x = r"
proof
  assume "same_item s k x \<and> m_is_current x"
  then have "x \<in> set (item_rows s k ms)" and "m_is_current x" using assms(3) by (auto simp: item_rows_def)
  with versions_in_order_current [OF memories_okD(2) [OF assms(1)]]
  have "x = last (item_rows s k ms)" by blast
  with assms(2) show "x = r" by (auto simp: current_row_eq [OF assms(1)] split: if_splits)
next
  assume "x = r"
  with current_rowD [OF assms(2)] show "same_item s k x \<and> m_is_current x" by simp
qed

lemma update_where_cong:
  "(\<And>r. r \<in> set rows \<Longrightarrow> p r = q r) \<Longrightarrow> update_where p f rows = update_where q f rows"
  by (induction rows) auto

lemma current_by_id:
  assumes "memories_ok ms" and "current_row s k ms = Some r"
  shows "update_where (\<lambda>x. m_id x = m_id r) f ms =
         update_where (\<lambda>x. same_item s k x \<and> m_is_current x) f ms"
proof (rule update_where_cong)
  fix x
  assume x: "x \<in> set ms"
  have "m_id x = m_id r \<longleftrightarrow> x = r"
    using distinct_map_eqD [OF memories_okD(1) [OF assms(1)] x current_rowD(1) [OF assms(2)]] by blast
  with current_unique [OF assms x] show "(m_id x = m_id r) = (same_item s k x \<and> m_is_current x)"
    by simp
qed

text \<open>The repository's two writes are the two steps of the specification.\<close>

lemma add_version_supersede:
  assumes "memories_ok ms"
  shows "add_version m ms = supersede m ms"
proof (cases "current_row (m_source m) (m_key m) ms")
  case None
  then have "\<forall>r \<in> set ms. \<not> (same_item (m_source m) (m_key m) r \<and> m_is_current r)"
    by (simp add: current_row_def find_None_iff)
  then show ?thesis
    by (simp add: add_version_def supersede_def next_version_def None update_where_none)
next
  case (Some r)
  then show ?thesis
    by (simp add: add_version_def supersede_def next_version_def current_by_id [OF assms Some])
qed

lemma tombstone_bury:
  "memories_ok ms \<Longrightarrow> current_row s k ms = Some r \<Longrightarrow> tombstone_row (m_id r) t ms = bury s k t ms"
  by (simp add: tombstone_row_def bury_def current_by_id)

lemma item_rows_append: "item_rows s k (xs @ ys) = item_rows s k xs @ item_rows s k ys"
  by (simp add: item_rows_def)

lemma item_rows_update_where:
  assumes "\<And>r. same_item s k (f r) = same_item s k r"
  shows "item_rows s k (update_where p f ms) = update_where p f (item_rows s k ms)"
  using assms by (induction ms) (auto simp: item_rows_def)

lemma update_where_other:
  assumes "\<not> (s = s' \<and> k = k')"
  shows "update_where (\<lambda>r. same_item s' k' r \<and> q r) f (item_rows s k ms) = item_rows s k ms"
  using assms by (intro update_where_none) (auto simp: item_rows_def same_item_def)

lemma versions_in_order_snoc:
  assumes "versions_in_order rows" and "\<And>r. r \<in> set rows \<Longrightarrow> p r \<longleftrightarrow> m_is_current r"
    and "m_version m = int (Suc (length rows))" and "m_is_current m"
  shows "versions_in_order (update_where p (\<lambda>r. r\<lparr> m_is_current := False \<rparr>) rows @ [m])"
proof -
  have "map m_is_current (update_where p (\<lambda>r. r\<lparr> m_is_current := False \<rparr>) rows) =
        replicate (length rows) False"
    using assms(2) by (induction rows) auto
  then show ?thesis using assms by (simp add: versions_in_order_def)
qed

lemma item_rows_supersede:
  "item_rows s k (supersede m ms) =
     (if same_item s k m
      then update_where (\<lambda>r. same_item s k r \<and> m_is_current r)
             (\<lambda>r. r\<lparr> m_is_current := False \<rparr>) (item_rows s k ms) @
           [m\<lparr> m_version := next_version (current_row s k ms), m_is_current := True \<rparr>]
      else item_rows s k ms)"
proof (cases "same_item s k m")
  case True
  then show ?thesis
    by (simp add: supersede_def item_rows_append item_rows_update_where)
       (auto simp: item_rows_def same_item_def)
next
  case False
  then have "\<not> (s = m_source m \<and> k = m_key m)" by (auto simp: same_item_def)
  with False show ?thesis
    by (simp add: supersede_def item_rows_append item_rows_update_where update_where_other)
       (simp add: item_rows_def)
qed

lemma next_version_current:
  assumes "memories_ok ms"
  shows "next_version (current_row s k ms) = int (Suc (length (item_rows s k ms)))"
  using versions_in_order_last(2) [OF memories_okD(2) [OF assms, of s k]]
  by (auto simp: next_version_def current_row_eq [OF assms])

lemma memories_ok_supersede [inv_intros]:
  assumes "memories_ok ms" and "m_id m \<notin> m_id ` set ms"
  shows "memories_ok (supersede m ms)"
proof (rule memories_okI)
  show "distinct (map m_id (supersede m ms))"
    using memories_okD(1) [OF assms(1)] assms(2) by (simp add: supersede_def)
  fix s k
  show "versions_in_order (item_rows s k (supersede m ms))"
    unfolding item_rows_supersede
  proof (split if_split, intro conjI impI)
    show "versions_in_order (update_where (\<lambda>r. same_item s k r \<and> m_is_current r)
            (\<lambda>r. r\<lparr> m_is_current := False \<rparr>) (item_rows s k ms) @
          [m\<lparr> m_version := next_version (current_row s k ms), m_is_current := True \<rparr>])"
      by (rule versions_in_order_snoc [OF memories_okD(2) [OF assms(1)]])
         (auto simp: next_version_current [OF assms(1)], auto simp: item_rows_def)
  qed (rule memories_okD(2) [OF assms(1)])
qed

lemma memories_ok_bury [inv_intros]:
  assumes "memories_ok ms"
  shows "memories_ok (bury s k t ms)"
proof (rule memories_okI)
  show "distinct (map m_id (bury s k t ms))"
    using memories_okD(1) [OF assms(1)] by (simp add: bury_def)
  fix s' k'
  have "versions_in_order (update_where q (\<lambda>r. r\<lparr> m_deleted_at := Some t \<rparr>) rows)"
    if "versions_in_order rows" for q and rows :: "memory list"
    using that by (cases rows) (simp_all add: versions_in_order_def)
  then show "versions_in_order (item_rows s' k' (bury s k t ms))"
    by (simp add: bury_def item_rows_update_where memories_okD(2) [OF assms(1)])
qed

lemma memories_ok_filter_items [inv_intros]:
  assumes "memories_ok ms"
  shows "memories_ok (filter (\<lambda>m. (m_source m, m_key m) \<notin> gone) ms)"
proof (rule memories_okI)
  show "distinct (map m_id (filter (\<lambda>m. (m_source m, m_key m) \<notin> gone) ms))"
    using memories_okD(1) [OF assms] by (simp add: distinct_map_filter)
  fix s k
  have "item_rows s k (filter (\<lambda>m. (m_source m, m_key m) \<notin> gone) ms) =
        (if (s, k) \<in> gone then [] else item_rows s k ms)"
    by (auto simp: item_rows_def same_item_def filter_empty_conv intro!: filter_cong)
  then show "versions_in_order (item_rows s k (filter (\<lambda>m. (m_source m, m_key m) \<notin> gone) ms))"
    by (simp add: memories_okD(2) [OF assms])
qed

text \<open>Erasing the row ids commutes with every step of the specification.\<close>

lemma map_erase_update_where:
  assumes "\<And>r. p (erase r) = p r" and "\<And>r. erase (f r) = f (erase r)"
  shows "map erase (update_where p f ms) = update_where p f (map erase ms)"
  using assms by (induction ms) auto

lemma current_row_erase: "current_row s k (map erase ms) = map_option erase (current_row s k ms)"
  by (induction ms) (auto simp: current_row_def)

lemma next_version_erase [simp]: "next_version (map_option erase r) = next_version r"
  by (cases r) (simp_all add: next_version_def)

lemma erase_push:
  "erase (m\<lparr> m_is_current := b \<rparr>) = (erase m)\<lparr> m_is_current := b \<rparr>"
  "erase (m\<lparr> m_version := v \<rparr>) = (erase m)\<lparr> m_version := v \<rparr>"
  by (simp_all add: erase_def)

lemma erase_supersede: "map erase (supersede m ms) = supersede (erase m) (map erase ms)"
  by (simp add: supersede_def map_erase_update_where current_row_erase erase_push)

lemma erase_bury: "map erase (bury s k t ms) = bury s k t (map erase ms)"
  by (simp add: bury_def map_erase_update_where erase_def)

lemma erase_filter_item:
  "map erase (filter (\<lambda>m. \<not> same_item s k m) ms) = filter (\<lambda>m. \<not> same_item s k m) (map erase ms)"
  by (induction ms) auto

definition row_valid :: "memory \<Rightarrow> bool" where
  "row_valid m \<longleftrightarrow>
     m_key m \<noteq> [] \<and> (m_occurred_at m = None) = (m_occurred_at_source m = TP_UNKNOWN)"

lemma row_valid_supersede:
  "\<lbrakk>\<forall>r \<in> set ms. row_valid r; row_valid m\<rbrakk> \<Longrightarrow> \<forall>r \<in> set (supersede m ms). row_valid r"
  by (auto simp: supersede_def set_update_where row_valid_def)

lemma row_valid_bury: "\<forall>r \<in> set ms. row_valid r \<Longrightarrow> \<forall>r \<in> set (bury s k t ms). row_valid r"
  by (auto simp: bury_def set_update_where row_valid_def)

lemma memory_from_event_Inr:
  assumes "memory_from_event e i = Inr m"
  shows "m_id m = i" and "memory_from_event e 0 = Inr (erase m)"
    and "m_source m = ev_source e" and "m_key m = ev_key e"
    and "ev_content_hash e = Some (m_content_hash m)" and "m_deleted_at m = None"
    and "row_valid m"
  using assms
  by (auto simp: memory_from_event_def memory_post_init_def erase_def row_valid_def
      split: option.splits sum.splits if_splits)

lemma memory_from_event_id:
  "memory_from_event e 0 = Inr m \<Longrightarrow> memory_from_event e i = Inr (m\<lparr> m_id := i \<rparr>)"
  by (auto simp: memory_from_event_def memory_post_init_def
      split: option.splits sum.splits if_splits)

lemma project_events_snoc [simp]:
  "project_events (es @ [e]) ms = project_event e (project_events es ms)"
  by (simp add: project_events_def)

lemma project_events_Cons:
  "project_events (e # es) ms = project_events es (project_event e ms)"
  by (simp add: project_events_def)

end
