(* ===== verification/Lifecycle.thy ===== *)
theory Lifecycle
  imports Corpus
begin

text \<open>
  The operations that write the corpus: \<^verbatim>\<open>application/ingest.py\<close>, \<^verbatim>\<open>application/sync.py\<close> and
  \<^verbatim>\<open>application/deletion.py\<close>.

  An operation takes the corpus and returns its result, an exception on the left, with the corpus it
  leaves. \<open>in_transaction\<close> is \<^verbatim>\<open>session_factory.begin()\<close>: when the body raises, the tables are those from
  before it, while the blob store, which is outside the transaction, keeps what was put. Transactions
  run one after the other; \<open>clock\<close> gives the time of each from the counter of ids, so that two
  transactions may see any two times. The connector's listing of a source, the reader of each
  observed item and the removals the blob store refuses are parameters.
\<close>

section \<open>Jobs the writers enqueue\<close>

definition normalize_spec :: "nat \<Rightarrow> job_spec" where
  "normalize_spec memory_id =
     \<lparr> spec_type = NORMALIZE_MEMORY,
       spec_payload = [(''memory_id'', JStr (show_nat memory_id))],
       spec_dedupe_key = Some (show_nat memory_id), spec_priority = 0,
       spec_max_attempts = DEFAULT_MAX_ATTEMPTS, spec_run_after = None \<rparr>"

text \<open>\<open>blake2b_8\<close> is \<^verbatim>\<open>hashlib.blake2b(text.encode(), digest_size=8).hexdigest()\<close>.\<close>

definition payload_for :: "nat list \<Rightarrow> nat list \<Rightarrow> payload" where
  "payload_for memory_ids entity_ids =
     [(''memory_ids'', JList (sort (map show_nat memory_ids))),
      (''entity_ids'', JList (sort (map show_nat entity_ids)))]"

definition graph_fingerprint :: "(string \<Rightarrow> string) \<Rightarrow> nat list \<Rightarrow> nat list \<Rightarrow> string" where
  "graph_fingerprint blake2b_8 memory_ids entity_ids =
     (let ids = sort (map show_nat memory_ids) @ sort (map show_nat entity_ids)
      in if length ids = 1 then hd ids else blake2b_8 (join ''|'' ids))"

definition graph_sync_spec :: "(string \<Rightarrow> string) \<Rightarrow> nat list \<Rightarrow> nat list \<Rightarrow> job_spec" where
  "graph_sync_spec blake2b_8 memory_ids entity_ids =
     \<lparr> spec_type = SYNC_GRAPH, spec_payload = payload_for memory_ids entity_ids,
       spec_dedupe_key = Some (''sync-graph:'' @ graph_fingerprint blake2b_8 memory_ids entity_ids),
       spec_priority = -1, spec_max_attempts = DEFAULT_MAX_ATTEMPTS, spec_run_after = None \<rparr>"

section \<open>Transactions\<close>

type_synonym ('e, 'a) step = "corpus \<Rightarrow> ('e + 'a) \<times> corpus"
type_synonym clock = "nat \<Rightarrow> time"

definition rollback :: "corpus \<Rightarrow> corpus \<Rightarrow> corpus" where
  "rollback before failed = before\<lparr> c_blobs := c_blobs failed, c_next_id := c_next_id failed \<rparr>"

definition in_transaction :: "('e, 'a) step \<Rightarrow> ('e, 'a) step" where
  "in_transaction body c =
     (case body c of (Inl e, c') \<Rightarrow> (Inl e, rollback c c') | (Inr x, c') \<Rightarrow> (Inr x, c'))"

definition then_do :: "('e, 'a) step \<Rightarrow> ('a \<Rightarrow> ('e, 'b) step) \<Rightarrow> ('e, 'b) step" where
  "then_do f g c = (case f c of (Inl e, c') \<Rightarrow> (Inl e, c') | (Inr x, c') \<Rightarrow> g x c')"

lemma then_do_Inr:
  "then_do f g c = (Inr y, c') \<longleftrightarrow> (\<exists>x c1. f c = (Inr x, c1) \<and> g x c1 = (Inr y, c'))"
  by (auto simp: then_do_def split: prod.splits sum.splits)

lemma then_do_next:
  assumes "c_next_id c \<le> c_next_id (snd (f c))"
    and "\<And>x c1. f c = (Inr x, c1) \<Longrightarrow> c_next_id c1 \<le> c_next_id (snd (g x c1))"
  shows "c_next_id c \<le> c_next_id (snd (then_do f g c))"
  using assms by (fastforce simp: then_do_def split: prod.splits sum.splits)

lemma in_transaction_Inr: "in_transaction f c = (Inr x, c') \<longleftrightarrow> f c = (Inr x, c')"
  by (auto simp: in_transaction_def split: prod.splits sum.splits)

lemma in_transaction_Inl:
  "in_transaction f c = (Inl e, c') \<longleftrightarrow> (\<exists>c1. f c = (Inl e, c1) \<and> c' = rollback c c1)"
  by (auto simp: in_transaction_def split: prod.splits sum.splits)

section \<open>Ingesting one observed item\<close>

record observed_item =
  oi_key :: string
  oi_hash :: string
  oi_byte_size :: int
  oi_media_type :: "string option"
  oi_occurred_at :: "time option"
  oi_occurred_at_source :: time_provenance
  oi_read_bytes :: "(py_exn + bytes) option"
  oi_fingerprint :: "fingerprint option"

datatype ingest_error =
    UnreadableItem | ReadFailed py_exn | BadArtifact | BadEvent | IntegrityError
  | BadProjection projection_error

record ingested =
  ing_memory_id :: nat
  ing_superseded :: bool

definition unchanged :: "source \<Rightarrow> observed_item \<Rightarrow> corpus \<Rightarrow> bool" where
  "unchanged src item c \<longleftrightarrow>
     artifact_exists (oi_hash item) c \<and>
     (case current_row (src_id src) (oi_key item) (c_memories c) of
        None \<Rightarrow> False
      | Some current \<Rightarrow> m_content_hash current = oi_hash item \<and> m_deleted_at current = None)"

definition artifact_of :: "observed_item \<Rightarrow> raw_artifact" where
  "artifact_of item =
     \<lparr> art_hash = oi_hash item, art_byte_size = oi_byte_size item,
       art_media_type = oi_media_type item \<rparr>"

lemma art_hash_artifact_of [simp]: "art_hash (artifact_of item) = oi_hash item"
  by (simp add: artifact_of_def)

definition store_artifact :: "observed_item \<Rightarrow> (ingest_error, unit) step" where
  "store_artifact item c =
     (if artifact_exists (oi_hash item) c then (Inr (), c)
      else
        case (if blob_exists (oi_hash item) c then Inr c
              else case oi_read_bytes item of
                     None \<Rightarrow> Inl UnreadableItem
                   | Some (Inl e) \<Rightarrow> Inl (ReadFailed e)
                   | Some (Inr data) \<Rightarrow> Inr (blob_put (oi_hash item) data c)) of
          Inl e \<Rightarrow> (Inl e, c)
        | Inr c1 \<Rightarrow>
            (case raw_artifact_post_init (artifact_of item) of
               Inl _ \<Rightarrow> (Inl BadArtifact, c1)
             | Inr a \<Rightarrow> (Inr (), artifact_add a c1)))"

definition log_event :: "time \<Rightarrow> (nat \<Rightarrow> ingestion_event) \<Rightarrow> (ingest_error, ingestion_event) step" where
  "log_event now event c =
     (let (eid, c1) = new_id c
      in case ingestion_event_post_init (event eid) of
           Inl _ \<Rightarrow> (Inl BadEvent, c1)
         | Inr e \<Rightarrow> (case append_event now e c1 of
                       None \<Rightarrow> (Inl IntegrityError, c1)
                     | Some (e', c2) \<Rightarrow> (Inr e', c2)))"

definition observed_event :: "source \<Rightarrow> observed_item \<Rightarrow> nat \<Rightarrow> ingestion_event" where
  "observed_event src item eid =
     \<lparr> ev_id = eid, ev_type = ARTIFACT_OBSERVED, ev_source = src_id src, ev_key = oi_key item,
       ev_occurred_at_source = oi_occurred_at_source item, ev_seq = None, ev_schema_version = 1,
       ev_content_hash = Some (oi_hash item), ev_occurred_at = oi_occurred_at item,
       ev_media_type = oi_media_type item, ev_recorded_at = None \<rparr>"

definition absence_event :: "event_type \<Rightarrow> nat \<Rightarrow> string \<Rightarrow> nat \<Rightarrow> ingestion_event" where
  "absence_event kind source_id key eid =
     \<lparr> ev_id = eid, ev_type = kind, ev_source = source_id, ev_key = key,
       ev_occurred_at_source = TP_UNKNOWN, ev_seq = None, ev_schema_version = 1,
       ev_content_hash = None, ev_occurred_at = None, ev_media_type = None,
       ev_recorded_at = None \<rparr>"

text \<open>The memory row of a logged observation, with the two jobs that will process it.\<close>

definition add_memory ::
  "(string \<Rightarrow> string) \<Rightarrow> time \<Rightarrow> bool \<Rightarrow> ingestion_event \<Rightarrow> (ingest_error, ingested option) step" where
  "add_memory blake2b_8 now superseded event c =
     (let (mid, c1) = new_id c
      in case memory_from_event event mid of
           Inl e \<Rightarrow> (Inl (BadProjection e), c1)
         | Inr m \<Rightarrow>
             let c2 = c1\<lparr> c_memories := add_version m (c_memories c1) \<rparr>;
                 c3 = enqueue_job now (normalize_spec mid) c2;
                 c4 = enqueue_job now (graph_sync_spec blake2b_8 [mid] []) c3
             in (Inr (Some \<lparr> ing_memory_id = mid, ing_superseded = superseded \<rparr>), c4))"

definition ingest_item ::
  "(string \<Rightarrow> string) \<Rightarrow> time \<Rightarrow> source \<Rightarrow> observed_item \<Rightarrow> (ingest_error, ingested option) step" where
  "ingest_item blake2b_8 now src item c =
     (if unchanged src item c then (Inr None, c)
      else
        let superseded = current_row (src_id src) (oi_key item) (c_memories c) \<noteq> None
        in then_do (store_artifact item)
             (\<lambda>_. then_do (log_event now (observed_event src item)) (add_memory blake2b_8 now superseded))
             c)"

section \<open>Syncing a source\<close>

record sync_report =
  sr_observed :: nat
  sr_new :: nat
  sr_modified :: nat
  sr_deleted :: nat
  sr_skipped :: nat
  sr_errors :: nat

definition empty_report :: sync_report where
  "empty_report = \<lparr> sr_observed = 0, sr_new = 0, sr_modified = 0, sr_deleted = 0, sr_skipped = 0,
     sr_errors = 0 \<rparr>"

record sync_state =
  sy_report :: sync_report
  sy_keys :: "string set"
  sy_seen :: "(string \<times> fingerprint) list"

definition sync_ingest ::
  "(string \<Rightarrow> string) \<Rightarrow> clock \<Rightarrow> source \<Rightarrow> observed_item \<Rightarrow> (ingest_error, bool option) step" where
  "sync_ingest blake2b_8 clock src item c =
     (case in_transaction (ingest_item blake2b_8 (clock (c_next_id c)) src item) c of
        (Inl e, c') \<Rightarrow> (Inl e, c')
      | (Inr None, c') \<Rightarrow> (Inr None, c')
      | (Inr (Some r), c') \<Rightarrow> (Inr (Some (ing_superseded r)), c'))"

definition sync_item ::
  "(string \<Rightarrow> string) \<Rightarrow> clock \<Rightarrow> source \<Rightarrow> observed_item \<Rightarrow> sync_state \<times> corpus \<Rightarrow> sync_state \<times> corpus"
where
  "sync_item blake2b_8 clock src item st =
     (let (sy, c) = st;
          rep = (sy_report sy)\<lparr> sr_observed := Suc (sr_observed (sy_report sy)) \<rparr>;
          keys = insert (oi_key item) (sy_keys sy)
      in case sync_ingest blake2b_8 clock src item c of
           (Inl _, c') \<Rightarrow>
             (\<lparr> sy_report = rep\<lparr> sr_errors := Suc (sr_errors rep) \<rparr>, sy_keys = keys,
                sy_seen = sy_seen sy \<rparr>, c')
         | (Inr changed, c') \<Rightarrow>
             (\<lparr> sy_report = (case changed of
                  None \<Rightarrow> rep\<lparr> sr_skipped := Suc (sr_skipped rep) \<rparr>
                | Some True \<Rightarrow> rep\<lparr> sr_modified := Suc (sr_modified rep) \<rparr>
                | Some False \<Rightarrow> rep\<lparr> sr_new := Suc (sr_new rep) \<rparr>),
                sy_keys = keys,
                sy_seen = (case oi_fingerprint item of
                             None \<Rightarrow> sy_seen sy
                           | Some f \<Rightarrow> AList.update (oi_key item) f (sy_seen sy)) \<rparr>, c'))"

definition live_items :: "nat \<Rightarrow> memory list \<Rightarrow> (string \<times> nat) list" where
  "live_items source_id ms =
     map (\<lambda>m. (m_key m, m_id m))
       (filter (\<lambda>m. m_source m = source_id \<and> m_is_current m \<and> m_deleted_at m = None) ms)"

text \<open>One transaction of the deletion pass, and of \<^verbatim>\<open>tombstone\<close>.\<close>

definition bury_item ::
  "(string \<Rightarrow> string) \<Rightarrow> time \<Rightarrow> nat \<Rightarrow> string \<Rightarrow> nat \<Rightarrow> (ingest_error, unit) step" where
  "bury_item blake2b_8 now source_id key memory_id c =
     (case log_event now (absence_event ITEM_DELETED source_id key) c of
        (Inl e, c1) \<Rightarrow> (Inl e, c1)
      | (Inr event, c1) \<Rightarrow>
          (case recorded_at_of event of
             Inl e \<Rightarrow> (Inl (BadProjection e), c1)
           | Inr t \<Rightarrow>
               let c2 = c1\<lparr> c_memories := tombstone_row memory_id t (c_memories c1) \<rparr>
               in (Inr (), enqueue_job now (graph_sync_spec blake2b_8 [memory_id] []) c2)))"

fun bury_items ::
  "(string \<Rightarrow> string) \<Rightarrow> clock \<Rightarrow> nat \<Rightarrow> (string \<times> nat) list \<Rightarrow> nat \<Rightarrow> (ingest_error, nat) step" where
  "bury_items blake2b_8 clock source_id [] n c = (Inr n, c)"
| "bury_items blake2b_8 clock source_id ((key, mid) # rest) n c =
     (case in_transaction (bury_item blake2b_8 (clock (c_next_id c)) source_id key mid) c of
        (Inl e, c') \<Rightarrow> (Inl e, c')
      | (Inr _, c') \<Rightarrow> bury_items blake2b_8 clock source_id rest (Suc n) c')"

definition detect_deletions ::
  "(string \<Rightarrow> string) \<Rightarrow> clock \<Rightarrow> source \<Rightarrow> string set \<Rightarrow> (ingest_error, nat) step" where
  "detect_deletions blake2b_8 clock src observed_keys c =
     (let known = live_items (src_id src) (c_memories c);
          missing = sort (keep_first (filter (\<lambda>k. k \<notin> observed_keys) (map fst known)))
      in bury_items blake2b_8 clock (src_id src)
           (map (\<lambda>k. (k, the (map_of (rev known) k))) missing) 0 c)"

definition finish_sync :: "time \<Rightarrow> source \<Rightarrow> (string \<times> fingerprint) list \<Rightarrow> bool \<Rightarrow> corpus \<Rightarrow> corpus" where
  "finish_sync now src cursor_seen full c =
     c\<lparr> c_sources := update_where (\<lambda>s. src_id s = src_id src)
          (\<lambda>s. s\<lparr> src_cursor_seen := cursor_seen, src_last_sync_at := Some now,
                  src_last_full_sync_at := (if full then Some now else src_last_full_sync_at s) \<rparr>)
          (c_sources c) \<rparr>"

datatype sync_error = NoSuchSource | SyncFailed ingest_error

definition sync_source ::
  "(string \<Rightarrow> string) \<Rightarrow> clock \<Rightarrow> (source \<Rightarrow> bool \<Rightarrow> observed_item list) \<Rightarrow> nat \<Rightarrow> bool \<Rightarrow>
   (sync_error, sync_report) step" where
  "sync_source blake2b_8 clock observe source_id full c =
     (case source_get source_id c of
        None \<Rightarrow> (Inl NoSuchSource, c)
      | Some src \<Rightarrow>
          let (sy, c1) = fold (sync_item blake2b_8 clock src) (observe src full)
                (\<lparr> sy_report = empty_report, sy_keys = {}, sy_seen = src_cursor_seen src \<rparr>, c)
          in if full then
               (case detect_deletions blake2b_8 clock src (sy_keys sy) c1 of
                  (Inl e, c2) \<Rightarrow> (Inl (SyncFailed e), c2)
                | (Inr n, c2) \<Rightarrow>
                    (Inr ((sy_report sy)\<lparr> sr_deleted := n \<rparr>),
                     finish_sync (clock (c_next_id c2)) src
                       (filter (\<lambda>(k, _). k \<in> sy_keys sy) (sy_seen sy)) full c2))
             else
               (Inr (sy_report sy), finish_sync (clock (c_next_id c1)) src (sy_seen sy) full c1))"

section \<open>The invariant of the corpus\<close>

text \<open>An event of the log can be projected: it is stamped, and an observation makes a valid row.\<close>

definition event_ok :: "ingestion_event \<Rightarrow> bool" where
  "event_ok e \<longleftrightarrow> ev_recorded_at e \<noteq> None \<and>
     (ev_type e = ARTIFACT_OBSERVED \<longrightarrow> is_ok (memory_from_event e 0))"

definition log_ok :: "ingestion_event list \<Rightarrow> bool" where
  "log_ok es \<longleftrightarrow>
     map ev_seq es = map (\<lambda>i. Some (Suc i)) [0..<length es] \<and> (\<forall>e \<in> set es. event_ok e)"

definition corpus_inv :: "corpus \<Rightarrow> bool" where
  "corpus_inv c \<longleftrightarrow>
     memories_ok (c_memories c) \<and>
     (\<forall>m \<in> set (c_memories c). m_id m < c_next_id c \<and> artifact_exists (m_content_hash m) c) \<and>
     (\<forall>m \<in> set (c_memories c). row_valid m) \<and>
     map erase (c_memories c) = project_events (c_events c) [] \<and>
     log_ok (c_events c) \<and> distinct (map art_hash (c_artifacts c)) \<and>
     queue_inv (c_jobs c) \<and> (\<forall>j \<in> set (c_jobs c). job_id j < c_next_id c)"

lemma corpus_invD:
  assumes "corpus_inv c"
  shows "memories_ok (c_memories c)" and "map erase (c_memories c) = project_events (c_events c) []"
    and "log_ok (c_events c)" and "queue_inv (c_jobs c)"
    and "m \<in> set (c_memories c) \<Longrightarrow> m_id m < c_next_id c"
    and "m \<in> set (c_memories c) \<Longrightarrow> artifact_exists (m_content_hash m) c"
    and "j \<in> set (c_jobs c) \<Longrightarrow> job_id j < c_next_id c"
    and "\<forall>m \<in> set (c_memories c). row_valid m"
  using assms by (auto simp: corpus_inv_def)

lemma corpus_inv_empty: "corpus_inv (empty_corpus me)"
  by (simp add: corpus_inv_def empty_corpus_def memories_ok_def project_events_def log_ok_def
      queue_inv_empty)

lemma artifact_exists_frame [simp]:
  "artifact_exists h (c\<lparr> c_next_id := n \<rparr>) = artifact_exists h c"
  "artifact_exists h (c\<lparr> c_events := es \<rparr>) = artifact_exists h c"
  "artifact_exists h (c\<lparr> c_memories := ms \<rparr>) = artifact_exists h c"
  "artifact_exists h (c\<lparr> c_jobs := js \<rparr>) = artifact_exists h c"
  "artifact_exists h (c\<lparr> c_blobs := bs \<rparr>) = artifact_exists h c"
  "artifact_exists h (artifact_add a c) = (h = art_hash a \<or> artifact_exists h c)"
  by (auto simp: artifact_exists_def artifact_add_def)

lemma corpus_inv_rollback:
  "corpus_inv c \<Longrightarrow> c_next_id c \<le> c_next_id c' \<Longrightarrow> corpus_inv (rollback c c')"
  by (auto simp: corpus_inv_def rollback_def artifact_exists_def dest: less_le_trans)

lemma corpus_inv_next:
  "corpus_inv c \<Longrightarrow> c_next_id c \<le> n \<Longrightarrow> corpus_inv (c\<lparr> c_next_id := n \<rparr>)"
  by (auto simp: corpus_inv_def dest: less_le_trans)

lemma corpus_inv_blobs: "corpus_inv c \<Longrightarrow> corpus_inv (c\<lparr> c_blobs := bs \<rparr>)"
  by (simp add: corpus_inv_def)

lemma corpus_inv_artifact:
  "corpus_inv c \<Longrightarrow> \<not> artifact_exists (art_hash a) c \<Longrightarrow> corpus_inv (artifact_add a c)"
  by (auto simp: corpus_inv_def artifact_add_def artifact_exists_def)

lemma enqueue_in_rows: "set (snd (enqueue_in me now i spec q)) \<subseteq> set q \<union> {j. job_id j = i}"
  by (auto simp: enqueue_in_def Let_def)

lemma enqueue_job_frame [simp]:
  "c_memories (enqueue_job now spec c) = c_memories c"
  "c_events (enqueue_job now spec c) = c_events c"
  "c_artifacts (enqueue_job now spec c) = c_artifacts c"
  "c_blobs (enqueue_job now spec c) = c_blobs c"
  "c_sources (enqueue_job now spec c) = c_sources c"
  "c_turns (enqueue_job now spec c) = c_turns c"
  "c_tags (enqueue_job now spec c) = c_tags c"
  "c_chunks (enqueue_job now spec c) = c_chunks c"
  "c_mentions (enqueue_job now spec c) = c_mentions c"
  "c_evidence (enqueue_job now spec c) = c_evidence c"
  "c_attachments (enqueue_job now spec c) = c_attachments c"
  "c_next_id (enqueue_job now spec c) = Suc (c_next_id c)"
  by (simp_all add: enqueue_job_def new_id_def)

lemma corpus_inv_enqueue:
  assumes "corpus_inv c" and "job_spec_post_init spec = Inr spec"
  shows "corpus_inv (enqueue_job now spec c)"
proof -
  have fresh: "c_next_id c \<notin> job_id ` set (c_jobs c)"
    by (auto dest: corpus_invD(7) [OF assms(1)])
  have "queue_inv (c_jobs (enqueue_job now spec c))"
    using enqueue_in_inv [OF corpus_invD(4) [OF assms(1)] fresh assms(2)]
    by (simp add: enqueue_job_def new_id_def)
  moreover have "job_id j < Suc (c_next_id c)" if "j \<in> set (c_jobs (enqueue_job now spec c))" for j
    using that enqueue_in_rows [of "c_user c" now "c_next_id c" spec "c_jobs c"]
      corpus_invD(7) [OF assms(1), of j]
    by (auto simp: enqueue_job_def new_id_def)
  ultimately show ?thesis
    using assms(1) by (auto simp: corpus_inv_def artifact_exists_def less_SucI)
qed

lemma specs_valid [simp]:
  "job_spec_post_init (normalize_spec i) = Inr (normalize_spec i)"
  "job_spec_post_init (graph_sync_spec b ms es) = Inr (graph_sync_spec b ms es)"
  by (simp_all add: job_spec_post_init_def normalize_spec_def graph_sync_spec_def
      DEFAULT_MAX_ATTEMPTS_def)

lemma log_event_Inl: "log_event now f c = (Inl e, c') \<Longrightarrow> c' = c\<lparr> c_next_id := Suc (c_next_id c) \<rparr>"
  by (auto simp: log_event_def new_id_def Let_def split: sum.splits option.splits)

lemma log_event_Inr:
  assumes "log_event now f c = (Inr e', c')"
  shows "c' = c\<lparr> c_next_id := Suc (c_next_id c), c_events := c_events c @ [e'] \<rparr>"
    and "ev_seq e' = Some (Suc (length (c_events c)))"
    and "ev_recorded_at e' \<noteq> None"
    and "ev_type e' = ev_type (f (c_next_id c))" and "ev_source e' = ev_source (f (c_next_id c))"
    and "ev_key e' = ev_key (f (c_next_id c))" and "ev_key e' \<noteq> []"
    and "ev_content_hash e' = ev_content_hash (f (c_next_id c))"
  using assms
  by (auto simp: log_event_def new_id_def Let_def append_event_def ingestion_event_post_init_def
      split: sum.splits option.splits if_splits)

lemma log_ok_snoc:
  "log_ok es \<Longrightarrow> ev_seq e = Some (Suc (length es)) \<Longrightarrow> event_ok e \<Longrightarrow> log_ok (es @ [e])"
  by (simp add: log_ok_def)

text \<open>One event and the rows it stands for are written together.\<close>

lemma corpus_inv_step:
  assumes inv: "corpus_inv c" and log: "log_event now f c = (Inr e, c')"
    and ok: "memories_ok ms" and ids: "\<And>m. m \<in> set ms \<Longrightarrow> m_id m < n"
    and n: "Suc (c_next_id c) \<le> n"
    and arts: "\<And>m. m \<in> set ms \<Longrightarrow> artifact_exists (m_content_hash m) c"
    and valid: "\<forall>m \<in> set ms. row_valid m"
    and proj: "ev_type e = ARTIFACT_OBSERVED \<Longrightarrow> is_ok (memory_from_event e 0)"
    and view: "map erase ms = project_event e (map erase (c_memories c))"
  shows "corpus_inv (c'\<lparr> c_next_id := n, c_memories := ms \<rparr>)"
proof -
  note e = log_event_Inr [OF log]
  have "log_ok (c_events c @ [e])"
    by (rule log_ok_snoc [OF corpus_invD(3) [OF inv] e(2)]) (use e(3) proj in \<open>simp add: event_ok_def\<close>)
  moreover have "\<forall>j \<in> set (c_jobs c). job_id j < n"
    using corpus_invD(7) [OF inv] n by (meson Suc_leD less_le_trans)
  ultimately show ?thesis
    using inv ok ids arts view valid
    by (simp add: corpus_inv_def e(1) artifact_exists_def)
qed

section \<open>Ingestion keeps the invariant\<close>

lemma new_id_simps [simp]:
  "new_id c = (c_next_id c, c\<lparr> c_next_id := Suc (c_next_id c) \<rparr>)"
  by (simp add: new_id_def)

text \<open>Three things can happen to an unknown artifact's bytes; each leaves them in the blob store.\<close>

lemma store_artifact_cases:
  assumes "store_artifact item c = (Inr u, c')"
  shows "artifact_exists (oi_hash item) c \<and> c' = c \<or>
    \<not> artifact_exists (oi_hash item) c \<and>
    (c' = artifact_add (artifact_of item) c \<and> blob_exists (oi_hash item) c \<or>
     (\<exists>data. c' = artifact_add (artifact_of item) (blob_put (oi_hash item) data c) \<and>
             \<not> blob_exists (oi_hash item) c))"
  using assms
  by (auto simp: store_artifact_def raw_artifact_post_init_def
      split: if_splits option.splits sum.splits)

lemma blob_put_frame [simp]:
  "c_memories (blob_put h d c) = c_memories c" "c_events (blob_put h d c) = c_events c"
  "c_artifacts (blob_put h d c) = c_artifacts c" "c_jobs (blob_put h d c) = c_jobs c"
  "c_next_id (blob_put h d c) = c_next_id c"
  "artifact_exists h' (blob_put h d c) = artifact_exists h' c"
  "corpus_inv c \<Longrightarrow> corpus_inv (blob_put h d c)"
  "blob_exists h (blob_put h d c)"
  by (auto simp: blob_put_def blob_exists_def artifact_exists_def corpus_inv_blobs)

lemma artifact_add_frame [simp]:
  "c_memories (artifact_add a c) = c_memories c" "c_events (artifact_add a c) = c_events c"
  "c_next_id (artifact_add a c) = c_next_id c" "blob_exists h (artifact_add a c) = blob_exists h c"
  by (simp_all add: artifact_add_def blob_exists_def)

lemma store_artifact_Inr:
  assumes "store_artifact item c = (Inr u, c')"
  shows "artifact_exists (oi_hash item) c'" and "c_memories c' = c_memories c"
    and "c_events c' = c_events c" and "c_next_id c' = c_next_id c"
    and "corpus_inv c \<Longrightarrow> corpus_inv c'"
    and "artifact_exists h c \<Longrightarrow> artifact_exists h c'"
    and "\<not> artifact_exists (oi_hash item) c \<Longrightarrow> blob_exists (oi_hash item) c'"
  using store_artifact_cases [OF assms] by (auto intro!: corpus_inv_artifact)

lemma store_artifact_next: "c_next_id (snd (store_artifact item c)) = c_next_id c"
  by (simp add: store_artifact_def split: option.split sum.split)

lemma log_event_next: "c_next_id (snd (log_event now f c)) = Suc (c_next_id c)"
proof (cases "log_event now f c")
  case (Pair r c')
  then show ?thesis by (cases r) (auto dest: log_event_Inl log_event_Inr(1))
qed

lemma add_memory_next: "c_next_id c \<le> c_next_id (snd (add_memory b now was e c))"
  by (simp add: add_memory_def Let_def split: sum.split)

lemma ingest_item_next: "c_next_id c \<le> c_next_id (snd (ingest_item b now src item c))"
proof -
  have "c_next_id c \<le> c_next_id (snd (then_do (store_artifact item)
      (\<lambda>_. then_do (log_event now (observed_event src item)) (add_memory b now was)) c))" for was
    by (intro then_do_next) (simp_all add: store_artifact_next log_event_next add_memory_next)
  then show ?thesis by (simp add: ingest_item_def Let_def)
qed

lemma add_memory_Inr:
  "add_memory b now was event c2 = (Inr x, c') \<longleftrightarrow>
   (\<exists>m. memory_from_event event (c_next_id c2) = Inr m \<and>
        x = Some \<lparr> ing_memory_id = c_next_id c2, ing_superseded = was \<rparr> \<and>
        c' = enqueue_job now (graph_sync_spec b [c_next_id c2] [])
               (enqueue_job now (normalize_spec (c_next_id c2))
                 (c2\<lparr> c_next_id := Suc (c_next_id c2),
                      c_memories := add_version m (c_memories c2) \<rparr>)))"
  by (auto simp: add_memory_def Let_def split: sum.splits)

lemma ingest_item_Some:
  assumes "ingest_item b now src item c = (Inr (Some r), c')"
  obtains c1 c2 event m where
    "\<not> unchanged src item c" and "store_artifact item c = (Inr (), c1)"
    and "log_event now (observed_event src item) c1 = (Inr event, c2)"
    and "memory_from_event event (c_next_id c2) = Inr m"
    and "r = \<lparr> ing_memory_id = c_next_id c2, ing_superseded =
                 (current_row (src_id src) (oi_key item) (c_memories c) \<noteq> None) \<rparr>"
    and "c' = enqueue_job now (graph_sync_spec b [c_next_id c2] [])
                (enqueue_job now (normalize_spec (c_next_id c2))
                  (c2\<lparr> c_next_id := Suc (c_next_id c2),
                       c_memories := add_version m (c_memories c2) \<rparr>))"
  using assms unfolding ingest_item_def Let_def
  by (auto simp: then_do_Inr add_memory_Inr split: if_splits)

lemma ids_supersede:
  "x \<in> set (supersede m ms) \<Longrightarrow> m_id x \<in> insert (m_id m) (m_id ` set ms)"
  by (auto simp: supersede_def set_update_where)

lemma hashes_supersede:
  "x \<in> set (supersede m ms) \<Longrightarrow>
   m_content_hash x \<in> insert (m_content_hash m) (m_content_hash ` set ms)"
  by (auto simp: supersede_def set_update_where)

lemma project_observed:
  assumes "ev_type e = ARTIFACT_OBSERVED" and "memory_from_event e i = Inr m"
  shows "project_event e (map erase ms) = map erase (supersede m ms)"
  using assms memory_from_event_Inr(2) [OF assms(2)]
  by (simp add: project_event_def erase_supersede)

text \<open>What a recorded observation leaves, in terms of the specification.\<close>

lemma ingest_item_effect:
  assumes inv: "corpus_inv c" and run: "ingest_item b now src item c = (Inr (Some r), c')"
  obtains event m where
    "c_events c' = c_events c @ [event]" and "ev_type event = ARTIFACT_OBSERVED"
    and "memory_from_event event (ing_memory_id r) = Inr m"
    and "m_source m = src_id src" and "m_key m = oi_key item" and "m_content_hash m = oi_hash item"
    and "c_memories c' = supersede m (c_memories c)" and "corpus_inv c'"
proof -
  obtain c1 c2 event m where
    store: "store_artifact item c = (Inr (), c1)"
    and log: "log_event now (observed_event src item) c1 = (Inr event, c2)"
    and proj: "memory_from_event event (c_next_id c2) = Inr m"
    and r: "r = \<lparr> ing_memory_id = c_next_id c2, ing_superseded =
                 (current_row (src_id src) (oi_key item) (c_memories c) \<noteq> None) \<rparr>"
    and c': "c' = enqueue_job now (graph_sync_spec b [c_next_id c2] [])
                (enqueue_job now (normalize_spec (c_next_id c2))
                  (c2\<lparr> c_next_id := Suc (c_next_id c2),
                       c_memories := add_version m (c_memories c2) \<rparr>))"
    by (rule ingest_item_Some [OF run])
  note s = store_artifact_Inr [OF store] and e = log_event_Inr [OF log]
    and m = memory_from_event_Inr [OF proj]
  have inv1: "corpus_inv c1" using s(5) inv by blast
  have ms2: "c_memories c2 = c_memories c" by (simp add: e(1) s(2))
  have ok: "memories_ok (c_memories c)" by (rule corpus_invD(1) [OF inv])
  have add: "add_version m (c_memories c2) = supersede m (c_memories c)"
    by (simp add: ms2 add_version_supersede [OF ok])
  have next2: "c_next_id c2 = Suc (c_next_id c)" by (simp add: e(1) s(4))
  have type: "ev_type event = ARTIFACT_OBSERVED" using e(4) by (simp add: observed_event_def)
  have hash: "m_content_hash m = oi_hash item"
    using m(5) e(8) by (simp add: observed_event_def)
  have fresh: "m_id m \<notin> m_id ` set (c_memories c)"
    using corpus_invD(5) [OF inv] by (fastforce simp: m(1) next2)
  have inv2: "corpus_inv (c2\<lparr> c_next_id := Suc (c_next_id c2), c_memories := supersede m (c_memories c) \<rparr>)"
  proof (rule corpus_inv_step [OF inv1 log memories_ok_supersede [OF ok fresh]])
    show "Suc (c_next_id c1) \<le> Suc (c_next_id c2)" by (simp add: e(1))
    show "m_id x < Suc (c_next_id c2)" if "x \<in> set (supersede m (c_memories c))" for x
      using ids_supersede [OF that] corpus_invD(5) [OF inv] by (auto simp: m(1) next2 less_SucI)
    show "artifact_exists (m_content_hash x) c1" if "x \<in> set (supersede m (c_memories c))" for x
      using hashes_supersede [OF that] s(1) s(6) corpus_invD(6) [OF inv] by (auto simp: hash)
    show "\<forall>x \<in> set (supersede m (c_memories c)). row_valid x"
      by (rule row_valid_supersede [OF corpus_invD(8) [OF inv] m(7)])
    show "is_ok (memory_from_event event 0)" by (simp add: m(2))
    show "map erase (supersede m (c_memories c)) = project_event event (map erase (c_memories c1))"
      by (simp add: s(2) project_observed [OF type proj])
  qed
  have "corpus_inv c'"
    unfolding c' add by (intro corpus_inv_enqueue inv2 specs_valid)
  moreover have "c_memories c' = supersede m (c_memories c)" by (simp add: c' add)
  moreover have "c_events c' = c_events c @ [event]" by (simp add: c' e(1) s(3))
  moreover have "m_source m = src_id src" and "m_key m = oi_key item"
    using m(3,4) e(5,6) by (simp_all add: observed_event_def)
  moreover have "memory_from_event event (ing_memory_id r) = Inr m" using proj r by simp
  ultimately show thesis using that type hash by metis
qed

lemma in_transaction_inv:
  assumes "corpus_inv c" and "c_next_id c \<le> c_next_id (snd (body c))"
    and "\<And>x c'. body c = (Inr x, c') \<Longrightarrow> corpus_inv c'"
  shows "corpus_inv (snd (in_transaction body c))"
proof (cases "body c")
  case (Pair r c')
  then show ?thesis
    using assms by (cases r) (auto simp: in_transaction_def intro: corpus_inv_rollback)
qed

lemma ingest_item_None:
  "ingest_item b now src item c = (Inr None, c') \<longleftrightarrow> unchanged src item c \<and> c' = c"
  unfolding ingest_item_def Let_def
  by (auto simp: then_do_Inr add_memory_Inr split: if_splits)

lemma ingest_item_inv:
  assumes "corpus_inv c" and "ingest_item b now src item c = (Inr x, c')"
  shows "corpus_inv c'"
proof (cases x)
  case None
  with assms show ?thesis by (simp add: ingest_item_None)
next
  case (Some r)
  with ingest_item_effect [OF assms(1), of b now src item r c'] assms(2) show ?thesis by blast
qed

lemma ingest_transaction_inv [inv_intros]:
  "corpus_inv c \<Longrightarrow> corpus_inv (snd (in_transaction (ingest_item b now src item) c))"
  by (intro in_transaction_inv ingest_item_next) (auto dest: ingest_item_inv)

section \<open>The live content of a source\<close>

text \<open>
  What a reader of a source sees: for each key, the hash of the current version unless it was removed
  from view. Recording an observation updates this map at one key, and burying an item deletes one.
\<close>

definition live_map :: "nat \<Rightarrow> memory list \<Rightarrow> string \<rightharpoonup> string" where
  "live_map s ms k =
     (case current_row s k ms of
        None \<Rightarrow> None
      | Some r \<Rightarrow> if m_deleted_at r = None then Some (m_content_hash r) else None)"

lemma current_row_supersede:
  assumes "memories_ok ms" and "m_id m \<notin> m_id ` set ms"
  shows "current_row s k (supersede m ms) =
    (if same_item s k m
     then Some (m\<lparr> m_version := next_version (current_row s k ms), m_is_current := True \<rparr>)
     else current_row s k ms)"
  using memories_ok_supersede [OF assms]
  by (simp add: current_row_eq [OF memories_ok_supersede [OF assms]] item_rows_supersede
      current_row_eq [OF assms(1)])

lemma current_row_bury:
  "current_row s' k' (bury s k t ms) =
   map_option (\<lambda>r. if same_item s k r then r\<lparr> m_deleted_at := Some t \<rparr> else r) (current_row s' k' ms)"
  by (induction ms) (auto simp: current_row_def bury_def)

lemma live_map_supersede:
  assumes "memories_ok ms" and "m_id m \<notin> m_id ` set ms" and "m_deleted_at m = None"
  shows "live_map (m_source m) (supersede m ms) =
         (live_map (m_source m) ms)(m_key m \<mapsto> m_content_hash m)"
  by (rule ext)
     (auto simp: live_map_def current_row_supersede [OF assms(1,2)] assms(3) same_item_def)

lemma live_map_supersede_other:
  assumes "memories_ok ms" and "m_id m \<notin> m_id ` set ms" and "s \<noteq> m_source m"
  shows "live_map s (supersede m ms) = live_map s ms"
  using assms(3)
  by (intro ext) (simp add: live_map_def current_row_supersede [OF assms(1,2)] same_item_def)

lemma live_map_bury: "live_map s (bury s k t ms) = (live_map s ms)(k := None)"
proof (rule ext)
  fix k'
  show "live_map s (bury s k t ms) k' = ((live_map s ms)(k := None)) k'"
    by (cases "current_row s k' ms")
       (auto simp: live_map_def current_row_bury same_item_def dest: current_rowD)
qed

lemma live_map_bury_other: "s' \<noteq> s \<Longrightarrow> live_map s' (bury s k t ms) = live_map s' ms"
  by (rule ext, rename_tac k', case_tac "current_row s' k' ms")
     (auto simp: live_map_def current_row_bury same_item_def dest: current_rowD)

lemma live_items_iff:
  assumes "memories_ok ms"
  shows "(k, i) \<in> set (live_items s ms) \<longleftrightarrow>
    (\<exists>r. current_row s k ms = Some r \<and> m_deleted_at r = None \<and> m_id r = i)"
proof
  assume "(k, i) \<in> set (live_items s ms)"
  then obtain m where m: "m \<in> set ms" "same_item s k m" "m_is_current m" "m_deleted_at m = None"
    "m_id m = i"
    by (auto simp: live_items_def same_item_def)
  then have "current_row s k ms \<noteq> None" by (auto simp: current_row_def find_None_iff)
  then obtain r where r: "current_row s k ms = Some r" by blast
  with current_unique [OF assms r m(1)] m show
    "\<exists>r. current_row s k ms = Some r \<and> m_deleted_at r = None \<and> m_id r = i" by auto
next
  assume "\<exists>r. current_row s k ms = Some r \<and> m_deleted_at r = None \<and> m_id r = i"
  then show "(k, i) \<in> set (live_items s ms)"
    by (force simp: live_items_def same_item_def dest: current_rowD)
qed

lemma live_items_keys:
  assumes "memories_ok ms"
  shows "fst ` set (live_items s ms) = dom (live_map s ms)"
proof (rule set_eqI)
  fix k
  have "k \<in> fst ` set (live_items s ms) \<longleftrightarrow> (\<exists>i. (k, i) \<in> set (live_items s ms))" by force
  also have "\<dots> \<longleftrightarrow> k \<in> dom (live_map s ms)"
    by (auto simp: live_items_iff [OF assms] live_map_def split: option.splits if_splits)
  finally show "k \<in> fst ` set (live_items s ms) \<longleftrightarrow> k \<in> dom (live_map s ms)" .
qed

lemma memory_fresh:
  "corpus_inv c \<Longrightarrow> c_next_id c \<le> i \<Longrightarrow> i \<notin> m_id ` set (c_memories c)"
  by (auto dest: corpus_invD(5))

lemma unchanged_live:
  "unchanged src item c \<Longrightarrow> live_map (src_id src) (c_memories c) (oi_key item) = Some (oi_hash item)"
  by (auto simp: unchanged_def live_map_def split: option.splits)

lemma ingested_fresh:
  assumes "ingest_item b now src item c = (Inr (Some r), c')"
  shows "c_next_id c \<le> ing_memory_id r"
  using ingest_item_Some [OF assms] log_event_Inr(1) store_artifact_Inr(4)
  by (metis (no_types, lifting) ingested.select_convs(1) le_SucI le_refl log_event_next snd_conv)

lemma ingest_item_live:
  assumes inv: "corpus_inv c" and run: "ingest_item b now src item c = (Inr x, c')"
  shows "live_map (src_id src) (c_memories c') =
         (live_map (src_id src) (c_memories c))(oi_key item \<mapsto> oi_hash item)"
    and "s \<noteq> src_id src \<Longrightarrow> live_map s (c_memories c') = live_map s (c_memories c)"
proof -
  have "live_map (src_id src) (c_memories c') =
          (live_map (src_id src) (c_memories c))(oi_key item \<mapsto> oi_hash item) \<and>
        (s \<noteq> src_id src \<longrightarrow> live_map s (c_memories c') = live_map s (c_memories c))"
  proof (cases x)
    case None
    with run have "unchanged src item c" and "c' = c" by (simp_all add: ingest_item_None)
    then show ?thesis by (simp add: fun_upd_idem unchanged_live)
  next
    case (Some r)
    with run have run': "ingest_item b now src item c = (Inr (Some r), c')" by simp
    obtain event m where m: "memory_from_event event (ing_memory_id r) = Inr m"
      "m_source m = src_id src" "m_key m = oi_key item" "m_content_hash m = oi_hash item"
      "c_memories c' = supersede m (c_memories c)"
      by (rule ingest_item_effect [OF inv run'])
    have fresh: "m_id m \<notin> m_id ` set (c_memories c)"
      by (rule memory_fresh [OF inv]) (simp add: memory_from_event_Inr(1) [OF m(1)] ingested_fresh [OF run'])
    note ok = corpus_invD(1) [OF inv]
    from live_map_supersede [OF ok fresh memory_from_event_Inr(6) [OF m(1)]]
      live_map_supersede_other [OF ok fresh, of s]
    show ?thesis by (simp add: m)
  qed
  then show "live_map (src_id src) (c_memories c') =
         (live_map (src_id src) (c_memories c))(oi_key item \<mapsto> oi_hash item)"
    and "s \<noteq> src_id src \<Longrightarrow> live_map s (c_memories c') = live_map s (c_memories c)"
    by blast+
qed

section \<open>Burying an item\<close>

lemma bury_item_Inr:
  "bury_item b now s k i c = (Inr u, c') \<longleftrightarrow>
   (\<exists>event c1 t. log_event now (absence_event ITEM_DELETED s k) c = (Inr event, c1) \<and>
      recorded_at_of event = Inr t \<and>
      c' = enqueue_job now (graph_sync_spec b [i] [])
             (c1\<lparr> c_memories := tombstone_row i t (c_memories c1) \<rparr>))"
  by (auto simp: bury_item_def Let_def split: prod.splits sum.splits)

lemma bury_item_next: "c_next_id c \<le> c_next_id (snd (bury_item b now s k i c))"
  using log_event_next [of now "absence_event ITEM_DELETED s k" c]
  by (auto simp: bury_item_def Let_def split: prod.splits sum.splits)

lemma bury_item_effect:
  assumes inv: "corpus_inv c" and row: "current_row s k (c_memories c) = Some r"
    and run: "bury_item b now s k (m_id r) c = (Inr u, c')"
  obtains event t where
    "c_events c' = c_events c @ [event]" and "ev_type event = ITEM_DELETED"
    and "ev_source event = s" and "ev_key event = k" and "recorded_at_of event = Inr t"
    and "c_memories c' = bury s k t (c_memories c)" and "corpus_inv c'"
proof -
  obtain event c1 t where log: "log_event now (absence_event ITEM_DELETED s k) c = (Inr event, c1)"
    and t: "recorded_at_of event = Inr t"
    and c': "c' = enqueue_job now (graph_sync_spec b [m_id r] [])
             (c1\<lparr> c_memories := tombstone_row (m_id r) t (c_memories c1) \<rparr>)"
    using run unfolding bury_item_Inr by blast
  note e = log_event_Inr [OF log]
  have ok: "memories_ok (c_memories c)" by (rule corpus_invD(1) [OF inv])
  have ms: "tombstone_row (m_id r) t (c_memories c1) = bury s k t (c_memories c)"
    by (simp add: e(1) tombstone_bury [OF ok row])
  have rows: "m_id x \<in> m_id ` set (c_memories c)"
    "m_content_hash x \<in> m_content_hash ` set (c_memories c)"
    if "x \<in> set (bury s k t (c_memories c))" for x
    using that by (auto simp: bury_def set_update_where)
  have "corpus_inv (c1\<lparr> c_next_id := c_next_id c1, c_memories := bury s k t (c_memories c) \<rparr>)"
  proof (rule corpus_inv_step [OF inv log memories_ok_bury [OF ok]])
    show "Suc (c_next_id c) \<le> c_next_id c1" by (simp add: e(1))
    show "m_id x < c_next_id c1" if "x \<in> set (bury s k t (c_memories c))" for x
      using rows(1) [OF that] corpus_invD(5) [OF inv] by (auto simp: e(1) less_SucI)
    show "artifact_exists (m_content_hash x) c" if "x \<in> set (bury s k t (c_memories c))" for x
      using rows(2) [OF that] corpus_invD(6) [OF inv] by auto
    show "\<forall>x \<in> set (bury s k t (c_memories c)). row_valid x"
      by (rule row_valid_bury [OF corpus_invD(8) [OF inv]])
    show "is_ok (memory_from_event event 0)" if "ev_type event = ARTIFACT_OBSERVED"
      using that e(4) by (simp add: absence_event_def)
    show "map erase (bury s k t (c_memories c)) = project_event event (map erase (c_memories c))"
      using e(4-6) by (simp add: project_event_def absence_event_def t erase_bury)
  qed
  then have "corpus_inv c'" by (auto simp: c' ms intro!: corpus_inv_enqueue)
  moreover have "c_memories c' = bury s k t (c_memories c)" by (simp add: c' ms)
  moreover have "c_events c' = c_events c @ [event]" by (simp add: c' e(1))
  ultimately show thesis using that e(4-6) t by (simp add: absence_event_def)
qed

lemma bury_transaction_inv:
  assumes "corpus_inv c" and "current_row s k (c_memories c) = Some r"
  shows "corpus_inv (snd (in_transaction (bury_item b now s k (m_id r)) c))"
proof (rule in_transaction_inv [where body = "bury_item b now s k (m_id r)", OF assms(1)])
  show "corpus_inv c'" if "bury_item b now s k (m_id r) c = (Inr u, c')" for u c'
    by (rule bury_item_effect [OF assms that])
qed (rule bury_item_next)

text \<open>The items a deletion pass is about to bury, with the row each had when the pass began.\<close>

definition buriable :: "nat \<Rightarrow> (string \<times> nat) list \<Rightarrow> memory list \<Rightarrow> bool" where
  "buriable s ks ms \<longleftrightarrow> distinct (map fst ks) \<and>
     (\<forall>(k, i) \<in> set ks. \<exists>r. current_row s k ms = Some r \<and> m_id r = i)"

lemma buriable_bury:
  assumes "buriable s ((k, i) # ks) ms"
  shows "buriable s ks (bury s k t ms)"
proof -
  have "\<exists>r. current_row s k' (bury s k t ms) = Some r \<and> m_id r = i'" if mem: "(k', i') \<in> set ks" for k' i'
  proof -
    obtain r where "current_row s k' ms = Some r" and "m_id r = i'"
      using assms mem by (auto simp: buriable_def)
    then show ?thesis by (simp add: current_row_bury)
  qed
  then show ?thesis using assms by (auto simp: buriable_def)
qed

lemma bury_items_effect:
  assumes "corpus_inv c" and "buriable s ks (c_memories c)"
    and "bury_items b clock s ks n c = (res, c')"
  shows "corpus_inv c'" and
    "res = Inr n' \<Longrightarrow> n' = n + length ks \<and>
       (\<forall>k. live_map s (c_memories c') k =
            (if k \<in> fst ` set ks then None else live_map s (c_memories c) k)) \<and>
       (\<forall>s'. s' \<noteq> s \<longrightarrow> live_map s' (c_memories c') = live_map s' (c_memories c))"
proof -
  have "corpus_inv c' \<and> (res = Inr n' \<longrightarrow> n' = n + length ks \<and>
       (\<forall>k. live_map s (c_memories c') k =
            (if k \<in> fst ` set ks then None else live_map s (c_memories c) k)) \<and>
       (\<forall>s'. s' \<noteq> s \<longrightarrow> live_map s' (c_memories c') = live_map s' (c_memories c)))"
    using assms
  proof (induction ks arbitrary: n c)
    case Nil
    then show ?case by auto
  next
    case (Cons x ks)
    obtain k i where x: "x = (k, i)" by (cases x)
    from Cons.prems(2) obtain r where r: "current_row s k (c_memories c) = Some r" "m_id r = i"
      by (auto simp: buriable_def x)
    show ?case
    proof (cases "in_transaction (bury_item b (clock (c_next_id c)) s k i) c")
      case (Pair res1 c1)
      have inv1: "corpus_inv c1"
        using bury_transaction_inv [OF Cons.prems(1) r(1), of b "clock (c_next_id c)"] Pair r(2)
        by simp
      show ?thesis
      proof (cases res1)
        case (Inl e)
        with Cons.prems(3) Pair inv1 show ?thesis by (auto simp: x)
      next
        case (Inr u)
        with Pair have run: "bury_item b (clock (c_next_id c)) s k (m_id r) c = (Inr u, c1)"
          by (simp add: in_transaction_Inr r(2))
        obtain t where c1: "c_memories c1 = bury s k t (c_memories c)"
          by (rule bury_item_effect [OF Cons.prems(1) r(1) run])
        have still: "buriable s ks (c_memories c1)"
          using buriable_bury Cons.prems(2) by (simp add: x c1)
        have rest: "bury_items b clock s ks (Suc n) c1 = (res, c')"
          using Cons.prems(3) Pair Inr by (simp add: x)
        from Cons.IH [OF inv1 still rest] show ?thesis
          by (auto simp: x c1 live_map_bury live_map_bury_other)
      qed
    qed
  qed
  then show "corpus_inv c'" and
    "res = Inr n' \<Longrightarrow> n' = n + length ks \<and>
       (\<forall>k. live_map s (c_memories c') k =
            (if k \<in> fst ` set ks then None else live_map s (c_memories c) k)) \<and>
       (\<forall>s'. s' \<noteq> s \<longrightarrow> live_map s' (c_memories c') = live_map s' (c_memories c))"
    by blast+
qed

section \<open>A sync\<close>

definition classified :: "sync_report \<Rightarrow> nat" where
  "classified rep = sr_new rep + sr_modified rep + sr_skipped rep + sr_errors rep"

lemma sync_ingest_cases:
  assumes "corpus_inv c" and "sync_ingest b clock src item c = (res, c')"
  shows "corpus_inv c'"
    and "res = Inr x \<Longrightarrow> live_map (src_id src) (c_memories c') =
           (live_map (src_id src) (c_memories c))(oi_key item \<mapsto> oi_hash item)"
proof -
  obtain r1 c1 where tx: "in_transaction (ingest_item b (clock (c_next_id c)) src item) c = (r1, c1)"
    by (cases "in_transaction (ingest_item b (clock (c_next_id c)) src item) c")
  then have c1: "c1 = c'" and r1: "res = Inr x \<Longrightarrow> \<exists>y. r1 = Inr y"
    using assms(2) by (auto simp: sync_ingest_def split: sum.splits option.splits)
  show "corpus_inv c'"
    using ingest_transaction_inv [OF assms(1), of b "clock (c_next_id c)" src item] tx c1 by simp
  assume "res = Inr x"
  then obtain y where "ingest_item b (clock (c_next_id c)) src item c = (Inr y, c')"
    using r1 tx c1 by (auto simp: in_transaction_Inr)
  from ingest_item_live(1) [OF assms(1) this]
  show "live_map (src_id src) (c_memories c') =
          (live_map (src_id src) (c_memories c))(oi_key item \<mapsto> oi_hash item)" .
qed

lemma sync_item_effect:
  assumes inv: "corpus_inv c" and run: "sync_item b clock src item (sy, c) = (sy', c')"
  shows "corpus_inv c'" and "sy_keys sy' = insert (oi_key item) (sy_keys sy)"
    and "sr_observed (sy_report sy') = Suc (sr_observed (sy_report sy))"
    and "classified (sy_report sy') = Suc (classified (sy_report sy))"
    and "sr_errors (sy_report sy) \<le> sr_errors (sy_report sy')"
    and "sr_deleted (sy_report sy') = sr_deleted (sy_report sy)"
    and "sr_errors (sy_report sy') = sr_errors (sy_report sy) \<Longrightarrow>
         live_map (src_id src) (c_memories c') =
           (live_map (src_id src) (c_memories c))(oi_key item \<mapsto> oi_hash item)"
proof -
  obtain res c1 where tx: "sync_ingest b clock src item c = (res, c1)"
    by (cases "sync_ingest b clock src item c")
  then have c1: "c1 = c'" using run by (cases res) (auto simp: sync_item_def Let_def)
  show "corpus_inv c'" using sync_ingest_cases(1) [OF inv tx] c1 by simp
  show "sy_keys sy' = insert (oi_key item) (sy_keys sy)"
    and "sr_observed (sy_report sy') = Suc (sr_observed (sy_report sy))"
    and "classified (sy_report sy') = Suc (classified (sy_report sy))"
    and "sr_errors (sy_report sy) \<le> sr_errors (sy_report sy')"
    and "sr_deleted (sy_report sy') = sr_deleted (sy_report sy)"
    using run tx
    by (auto simp: sync_item_def Let_def classified_def split: sum.splits option.splits bool.splits)
  assume "sr_errors (sy_report sy') = sr_errors (sy_report sy)"
  then obtain x where "res = Inr x"
    using run tx by (cases res) (auto simp: sync_item_def Let_def)
  with sync_ingest_cases(2) [OF inv tx] c1
  show "live_map (src_id src) (c_memories c') =
          (live_map (src_id src) (c_memories c))(oi_key item \<mapsto> oi_hash item)" by simp
qed

definition listing :: "observed_item list \<Rightarrow> (string \<rightharpoonup> string) \<Rightarrow> string \<rightharpoonup> string" where
  "listing items l = fold (\<lambda>i l. l(oi_key i \<mapsto> oi_hash i)) items l"

lemma listing_outside: "k \<notin> oi_key ` set items \<Longrightarrow> listing items l k = l k"
  unfolding listing_def by (induction items arbitrary: l) auto

lemma listing_inside: "k \<in> oi_key ` set items \<Longrightarrow> listing items l k = listing items l' k"
proof (induction items arbitrary: l l')
  case (Cons i items)
  show ?case
  proof (cases "k \<in> oi_key ` set items")
    case True
    with Cons.IH [OF this] show ?thesis by (simp add: listing_def)
  next
    case False
    with Cons.prems show ?thesis by (auto simp: listing_def listing_outside [unfolded listing_def])
  qed
qed simp

lemma sync_items_effect:
  assumes "corpus_inv c" and "fold (sync_item b clock src) items (sy, c) = (sy', c')"
  shows "corpus_inv c' \<and> sy_keys sy' = sy_keys sy \<union> oi_key ` set items \<and>
    sr_observed (sy_report sy') = sr_observed (sy_report sy) + length items \<and>
    classified (sy_report sy') = classified (sy_report sy) + length items \<and>
    sr_errors (sy_report sy) \<le> sr_errors (sy_report sy') \<and>
    sr_deleted (sy_report sy') = sr_deleted (sy_report sy) \<and>
    (sr_errors (sy_report sy') = sr_errors (sy_report sy) \<longrightarrow>
     live_map (src_id src) (c_memories c') = listing items (live_map (src_id src) (c_memories c)))"
  using assms
proof (induction items arbitrary: sy c)
  case Nil
  then show ?case by (simp add: listing_def)
next
  case (Cons i items)
  obtain sy1 c1 where step: "sync_item b clock src i (sy, c) = (sy1, c1)"
    by (cases "sync_item b clock src i (sy, c)")
  note e = sync_item_effect [OF Cons.prems(1) step]
  have rest: "fold (sync_item b clock src) items (sy1, c1) = (sy', c')"
    using Cons.prems(2) step by simp
  from Cons.IH [OF e(1) rest] e(2-7) show ?case by (auto simp: listing_def)
qed

lemma sort_keep_first_set [simp]: "set (sort (keep_first xs)) = set (xs :: string list)"
  by simp

lemma detect_deletions_effect:
  assumes inv: "corpus_inv c" and run: "detect_deletions b clock src keys c = (res, c')"
  shows "corpus_inv c'"
    and "res = Inr n \<Longrightarrow> live_map (src_id src) (c_memories c') =
          (\<lambda>k. if k \<in> keys then live_map (src_id src) (c_memories c) k else None)"
    and "res = Inr n \<Longrightarrow> n = card (dom (live_map (src_id src) (c_memories c)) - keys)"
proof -
  let ?s = "src_id src" and ?ms = "c_memories c"
  let ?known = "live_items ?s ?ms"
  define missing where "missing = sort (keep_first (filter (\<lambda>k. k \<notin> keys) (map fst ?known)))"
  let ?ks = "map (\<lambda>k. (k, the (map_of (rev ?known) k))) missing"
  have ok: "memories_ok ?ms" by (rule corpus_invD(1) [OF inv])
  have set_missing: "set missing = dom (live_map ?s ?ms) - keys"
    using live_items_keys [OF ok, of ?s] by (auto simp: missing_def)
  have dist: "distinct missing" by (simp add: missing_def)
  have found: "\<exists>r. current_row ?s k ?ms = Some r \<and> m_id r = the (map_of (rev ?known) k)"
    if k: "k \<in> set missing" for k
  proof -
    from k set_missing live_items_keys [OF ok, of ?s] have "k \<in> fst ` set (rev ?known)" by auto
    then obtain i where i: "map_of (rev ?known) k = Some i"
      by (metis map_of_eq_None_iff option.exhaust)
    then have "(k, i) \<in> set ?known" by (metis map_of_SomeD set_rev)
    with i show ?thesis by (auto simp: live_items_iff [OF ok])
  qed
  have "buriable ?s ?ks ?ms"
    using dist found by (auto simp: buriable_def comp_def)
  then have "corpus_inv c' \<and> (res = Inr n \<longrightarrow> n = length missing \<and>
      (\<forall>k. live_map ?s (c_memories c') k = (if k \<in> set missing then None else live_map ?s ?ms k)))"
    if "bury_items b clock ?s ?ks 0 c = (res, c')"
    using bury_items_effect(1) [OF inv _ that] bury_items_effect(2) [OF inv _ that, of n]
    by (auto simp: image_image)
  then have eff: "corpus_inv c'"
    "res = Inr n \<Longrightarrow> n = length missing \<and>
      (\<forall>k. live_map ?s (c_memories c') k = (if k \<in> set missing then None else live_map ?s ?ms k))"
    using run by (simp_all add: detect_deletions_def missing_def Let_def)
  show "corpus_inv c'" by (rule eff(1))
  assume res: "res = Inr n"
  show "live_map ?s (c_memories c') = (\<lambda>k. if k \<in> keys then live_map ?s ?ms k else None)"
    by (rule ext) (use eff(2) [OF res] set_missing in auto)
  show "n = card (dom (live_map ?s ?ms) - keys)"
    using eff(2) [OF res] distinct_card [OF dist] set_missing by simp
qed

lemma corpus_inv_finish: "corpus_inv c \<Longrightarrow> corpus_inv (finish_sync now src seen full c)"
  by (simp add: finish_sync_def corpus_inv_def artifact_exists_def)

lemma finish_sync_memories [simp]:
  "c_memories (finish_sync now src seen full c) = c_memories c"
  by (simp add: finish_sync_def)

lemma sync_source_run:
  assumes inv: "corpus_inv c" and src: "source_get sid c = Some src"
    and run: "sync_source b clock observe sid full c = (res, c')"
  obtains sy :: sync_state and c1 :: corpus where "corpus_inv c'"
      and "sy_keys sy = oi_key ` set (observe src full)"
      and "sr_observed (sy_report sy) = length (observe src full)"
      and "classified (sy_report sy) = length (observe src full)"
      and "sr_errors (sy_report sy) = 0 \<longrightarrow> live_map (src_id src) (c_memories c1) =
             listing (observe src full) (live_map (src_id src) (c_memories c))"
      and "\<forall>rep. full \<and> res = Inr rep \<longrightarrow> (\<exists>n. rep = (sy_report sy)\<lparr> sr_deleted := n \<rparr>) \<and>
             live_map (src_id src) (c_memories c') =
               (\<lambda>k. if k \<in> sy_keys sy then live_map (src_id src) (c_memories c1) k else None)"
      and "\<not> full \<longrightarrow> res = Inr (sy_report sy) \<and> c_memories c' = c_memories c1"
proof -
  let ?sy0 = "\<lparr> sy_report = empty_report, sy_keys = {}, sy_seen = src_cursor_seen src \<rparr>"
  obtain sy c1 where items: "fold (sync_item b clock src) (observe src full) (?sy0, c) = (sy, c1)"
    by (cases "fold (sync_item b clock src) (observe src full) (?sy0, c)")
  have e: "corpus_inv c1" "sy_keys sy = oi_key ` set (observe src full)"
    "sr_observed (sy_report sy) = length (observe src full)"
    "classified (sy_report sy) = length (observe src full)"
    "sr_errors (sy_report sy) = 0 \<longrightarrow> live_map (src_id src) (c_memories c1) =
        listing (observe src full) (live_map (src_id src) (c_memories c))"
    using sync_items_effect [OF inv items] by (simp_all add: empty_report_def classified_def)
  show thesis
  proof (cases full)
    case True
    obtain del c2 where d: "detect_deletions b clock src (sy_keys sy) c1 = (del, c2)"
      by (cases "detect_deletions b clock src (sy_keys sy) c1")
    have inv2: "corpus_inv c2" by (rule detect_deletions_effect(1) [OF e(1) d])
    have out: "(case del of Inl x \<Rightarrow> (Inl (SyncFailed x), c2)
        | Inr n \<Rightarrow> (Inr ((sy_report sy)\<lparr> sr_deleted := n \<rparr>),
            finish_sync (clock (c_next_id c2)) src (filter (\<lambda>(k, _). k \<in> sy_keys sy) (sy_seen sy)) True c2))
        = (res, c')"
      using run items d True by (simp add: sync_source_def src)
    show thesis
    proof (rule that [of sy c1])
      show "corpus_inv c'" using out inv2 by (cases del) (auto intro: corpus_inv_finish)
      show "\<forall>rep. full \<and> res = Inr rep \<longrightarrow> (\<exists>n. rep = (sy_report sy)\<lparr> sr_deleted := n \<rparr>) \<and>
             live_map (src_id src) (c_memories c') =
               (\<lambda>k. if k \<in> sy_keys sy then live_map (src_id src) (c_memories c1) k else None)"
        using out detect_deletions_effect(2) [OF e(1) d] by (cases del) auto
      show "\<not> full \<longrightarrow> res = Inr (sy_report sy) \<and> c_memories c' = c_memories c1"
        using True by simp
    qed (rule e)+
  next
    case False
    then have out: "res = Inr (sy_report sy)" "c' = finish_sync (clock (c_next_id c1)) src (sy_seen sy) full c1"
      using run items by (simp_all add: sync_source_def src)
    show thesis
      by (rule that [of sy c1]) (simp_all add: e False out corpus_inv_finish)
  qed
qed

lemma source_get_id: "source_get sid c = Some src \<Longrightarrow> src_id src = sid"
  by (auto simp: source_get_def find_Some_iff)

lemma sync_source_inv [inv_intros]:
  assumes "corpus_inv c"
  shows "corpus_inv (snd (sync_source b clock observe sid full c))"
proof (cases "source_get sid c")
  case None
  with assms show ?thesis by (simp add: sync_source_def)
next
  case (Some src)
  obtain res c' where run: "sync_source b clock observe sid full c = (res, c')"
    by (cases "sync_source b clock observe sid full c")
  then show ?thesis using sync_source_run [OF assms Some run] by auto
qed

section \<open>Properties\<close>

definition sample_item :: "string \<Rightarrow> string \<Rightarrow> observed_item" where
  "sample_item key h =
     \<lparr> oi_key = key, oi_hash = h, oi_byte_size = 1, oi_media_type = None, oi_occurred_at = None,
       oi_occurred_at_source = TP_UNKNOWN, oi_read_bytes = Some (Inr [7]), oi_fingerprint = None \<rparr>"

definition sample_source :: source where
  "sample_source = \<lparr> src_id = 0, src_kind = SK_FILESYSTEM, src_name = ''notes'', src_cursor_seen = [],
     src_last_sync_at = None, src_last_full_sync_at = None \<rparr>"

definition sample_corpus :: corpus where
  "sample_corpus = (empty_corpus 1)\<lparr> c_sources := [sample_source] \<rparr>"

lemma sample_corpus_inv: "corpus_inv sample_corpus"
  by (simp add: corpus_inv_def sample_corpus_def empty_corpus_def memories_ok_def project_events_def
      log_ok_def queue_inv_empty)

text \<open>C2 A full sync in which no item failed makes the corpus a mirror of the source: what a reader
  sees of it is the listing, the last hash observed under each key and nothing else.\<close>

theorem full_sync_mirrors_the_listing:
  assumes "corpus_inv c" and "source_get sid c = Some src"
    and "sync_source b clock observe sid True c = (Inr rep, c')" and "sr_errors rep = 0"
  shows "live_map sid (c_memories c') = listing (observe src True) Map.empty"
proof -
  note id = source_get_id [OF assms(2)]
  show ?thesis
  proof (rule sync_source_run [OF assms(1-3)])
    fix sy :: sync_state and c1 :: corpus
    assume keys: "sy_keys sy = oi_key ` set (observe src True)"
      and live: "sr_errors (sy_report sy) = 0 \<longrightarrow> live_map (src_id src) (c_memories c1) =
            listing (observe src True) (live_map (src_id src) (c_memories c))"
      and "\<forall>r. True \<and> Inr rep = Inr r \<longrightarrow> (\<exists>n. r = (sy_report sy)\<lparr> sr_deleted := n \<rparr>) \<and>
            live_map (src_id src) (c_memories c') =
              (\<lambda>k. if k \<in> sy_keys sy then live_map (src_id src) (c_memories c1) k else None)"
    then have rep: "\<exists>n. rep = (sy_report sy)\<lparr> sr_deleted := n \<rparr>"
      and left: "live_map (src_id src) (c_memories c') =
              (\<lambda>k. if k \<in> sy_keys sy then live_map (src_id src) (c_memories c1) k else None)"
      by blast+
    from rep assms(4) live have live: "live_map (src_id src) (c_memories c1) =
        listing (observe src True) (live_map (src_id src) (c_memories c))"
      by auto
    have "live_map sid (c_memories c') k = listing (observe src True) Map.empty k" for k
    proof (cases "k \<in> oi_key ` set (observe src True)")
      case True
      with left live show ?thesis
        by (simp add: keys id listing_inside [OF True, of "live_map sid (c_memories c)" Map.empty])
    next
      case False
      with left show ?thesis by (simp add: keys id listing_outside [OF False])
    qed
    then show ?thesis by blast
  qed
qed

text \<open>Every item of the listing is counted once: as new, modified, skipped or failed.\<close>

theorem sync_counts_every_item:
  assumes "corpus_inv c" and "source_get sid c = Some src"
    and "sync_source b clock observe sid full c = (Inr rep, c')"
  shows "sr_observed rep = length (observe src full) \<and>
         sr_new rep + sr_modified rep + sr_skipped rep + sr_errors rep = sr_observed rep"
  by (rule sync_source_run [OF assms], cases full) (auto simp: classified_def)

definition sample_observe :: "source \<Rightarrow> bool \<Rightarrow> observed_item list" where
  "sample_observe _ _ = [sample_item ''a'' ''h1'']"

definition sample_sync where
  "sample_sync = sync_source (\<lambda>s. s) int sample_observe 0 True sample_corpus"

lemma sample_source_get: "source_get 0 sample_corpus = Some sample_source"
  by (simp add: source_get_def sample_corpus_def sample_source_def)

lemma sample_sync_runs:
  obtains rep where "sample_sync = (Inr rep, snd sample_sync)" and "sr_errors rep = 0"
proof -
  have ok: "case fst sample_sync of Inl _ \<Rightarrow> False | Inr rep \<Rightarrow> sr_errors rep = 0" by code_simp
  then have "is_ok (fst sample_sync)" by (cases "fst sample_sync") simp_all
  then obtain rep where rep: "sample_sync = (Inr rep, snd sample_sync)" by (rule ok_pairE)
  then have "fst sample_sync = Inr rep" by (metis fst_conv)
  with ok have "sr_errors rep = 0" by simp
  with rep show thesis by (rule that)
qed

lemma full_sync_witness:
  "live_map 0 (c_memories (snd sample_sync)) = listing [sample_item ''a'' ''h1''] Map.empty"
proof -
  obtain rep where run: "sample_sync = (Inr rep, snd sample_sync)" and ok: "sr_errors rep = 0"
    by (rule sample_sync_runs)
  from full_sync_mirrors_the_listing [OF sample_corpus_inv sample_source_get
      run [unfolded sample_sync_def] ok, folded sample_sync_def]
  show ?thesis by (simp add: sample_observe_def)
qed

lemma sync_counts_witness:
  "\<exists>rep. fst sample_sync = Inr rep \<and> sr_observed rep = 1 \<and>
     sr_new rep + sr_modified rep + sr_skipped rep + sr_errors rep = sr_observed rep"
proof -
  obtain rep where run: "sample_sync = (Inr rep, snd sample_sync)" by (rule sample_sync_runs)
  from sync_counts_every_item [OF sample_corpus_inv sample_source_get run [unfolded sample_sync_def]]
  have "sr_observed rep = 1 \<and>
     sr_new rep + sr_modified rep + sr_skipped rep + sr_errors rep = sr_observed rep"
    by (simp add: sample_observe_def)
  then show ?thesis using run by (metis fst_conv)
qed

text \<open>Observing the same item twice in a row records it once: the second observation is skipped and
  changes nothing, whatever the first one did.\<close>

theorem ingest_is_idempotent:
  assumes "corpus_inv c" and "ingest_item b now src item c = (Inr r, c')"
  shows "ingest_item b now' src item c' = (Inr None, c')"
proof -
  have live: "live_map (src_id src) (c_memories c') (oi_key item) = Some (oi_hash item)"
    using ingest_item_live(1) [OF assms] by simp
  have "corpus_inv c'" by (rule ingest_item_inv [OF assms])
  with live have "unchanged src item c'"
    by (auto simp: unchanged_def live_map_def split: option.splits if_splits
        dest: current_rowD corpus_invD(6))
  then show ?thesis by (simp add: ingest_item_None)
qed

lemma ingest_is_idempotent_witness:
  "let c' = snd (ingest_item (\<lambda>s. s) 5 sample_source (sample_item ''a'' ''h1'') sample_corpus)
   in ingest_item (\<lambda>s. s) 9 sample_source (sample_item ''a'' ''h1'') c' = (Inr None, c')"
proof -
  have "is_ok (fst (ingest_item (\<lambda>s. s) 5 sample_source (sample_item ''a'' ''h1'') sample_corpus))"
    by code_simp
  then obtain r where run: "ingest_item (\<lambda>s. s) 5 sample_source (sample_item ''a'' ''h1'') sample_corpus =
      (Inr r, snd (ingest_item (\<lambda>s. s) 5 sample_source (sample_item ''a'' ''h1'') sample_corpus))"
    by (rule ok_pairE)
  show ?thesis unfolding Let_def by (rule ingest_is_idempotent [OF sample_corpus_inv run])
qed

text \<open>A transaction that raises changes no table: the rows, the log, the queue, the sources and the
  artifacts are those from before it, and only bytes already put in the blob store remain.\<close>

theorem failed_ingest_changes_no_table:
  "in_transaction (ingest_item b now src item) c = (Inl e, c') \<longrightarrow>
   c'\<lparr> c_blobs := c_blobs c, c_next_id := c_next_id c \<rparr> = c"
  by (auto simp: in_transaction_Inl rollback_def)

lemma failed_ingest_witness:
  "let c' = snd (in_transaction (ingest_item (\<lambda>s. s) 5 sample_source
              ((sample_item ''a'' ''h1'')\<lparr> oi_key := [] \<rparr>)) sample_corpus)
   in c'\<lparr> c_blobs := [], c_next_id := 0 \<rparr> = sample_corpus \<and> blob_exists ''h1'' c'"
proof -
  let ?r = "in_transaction (ingest_item (\<lambda>s. s) 5 sample_source
              ((sample_item ''a'' ''h1'')\<lparr> oi_key := [] \<rparr>)) sample_corpus"
  have "\<not> is_ok (fst ?r)" by code_simp
  then obtain e where run: "?r = (Inl e, snd ?r)" by (rule error_pairE)
  have blob: "blob_exists ''h1'' (snd ?r)" by code_simp
  have "c_blobs sample_corpus = []" "c_next_id sample_corpus = 0"
    by (simp_all add: sample_corpus_def empty_corpus_def)
  with failed_ingest_changes_no_table [rule_format, OF run] blob
  show ?thesis unfolding Let_def by metis
qed

end
