(* ===== verification/Deletion.thy ===== *)
theory Deletion
  imports Lifecycle
begin

text \<open>
  \<^verbatim>\<open>application/deletion.py\<close>: removing an item from view and putting it back, and removing its content
  for good. \<open>shred_fails\<close> says which blobs the store refuses to remove. Rows that hang on a deleted
  row by a foreign key with \<^verbatim>\<open>ON DELETE CASCADE\<close> go with it: chunks, mentions and evidence with their
  memory, attachments with their turn. The previews of a scope are text for a screen and are left out.
\<close>

section \<open>Names\<close>

datatype deletion_error =
    NoSuchMemory | NotDeletable | BlobsSurvived "string list" | DeletionFailed ingest_error

record item =
  it_source :: nat
  it_source_name :: string
  it_key :: string

definition item_of_memory :: "nat \<Rightarrow> corpus \<Rightarrow> deletion_error + item" where
  "item_of_memory memory_id c =
     (case find (\<lambda>m. m_id m = memory_id) (c_memories c) of
        None \<Rightarrow> Inl NoSuchMemory
      | Some m \<Rightarrow>
          (case source_get (m_source m) c of
             None \<Rightarrow> Inl NoSuchMemory
           | Some s \<Rightarrow>
               Inr \<lparr> it_source = m_source m, it_source_name = src_name s, it_key = m_key m \<rparr>))"

definition items_of_source :: "nat \<Rightarrow> corpus \<Rightarrow> deletion_error + item list" where
  "items_of_source source_id c =
     (case source_get source_id c of
        None \<Rightarrow> Inl NoSuchMemory
      | Some s \<Rightarrow>
          Inr (map (\<lambda>k. \<lparr> it_source = source_id, it_source_name = src_name s, it_key = k \<rparr>)
                 (sort (keep_first (map m_key (filter (\<lambda>m. m_source m = source_id) (c_memories c)))))))"

section \<open>Out of view and back\<close>

definition tombstone_body ::
  "(string \<Rightarrow> string) \<Rightarrow> time \<Rightarrow> nat \<Rightarrow> (deletion_error, item) step" where
  "tombstone_body blake2b_8 now memory_id c =
     (case item_of_memory memory_id c of
        Inl e \<Rightarrow> (Inl e, c)
      | Inr item \<Rightarrow>
          (case current_row (it_source item) (it_key item) (c_memories c) of
             None \<Rightarrow> (Inl NoSuchMemory, c)
           | Some current \<Rightarrow>
               if m_deleted_at current \<noteq> None then (Inr item, c)
               else (case bury_item blake2b_8 now (it_source item) (it_key item) (m_id current) c of
                       (Inl e, c') \<Rightarrow> (Inl (DeletionFailed e), c')
                     | (Inr _, c') \<Rightarrow> (Inr item, c'))))"

definition tombstone ::
  "(string \<Rightarrow> string) \<Rightarrow> clock \<Rightarrow> nat \<Rightarrow> (deletion_error, item) step" where
  "tombstone blake2b_8 clock memory_id c =
     in_transaction (tombstone_body blake2b_8 (clock (c_next_id c)) memory_id) c"

definition source_entity :: "nat \<Rightarrow> corpus \<Rightarrow> deletion_error + source" where
  "source_entity source_id c =
     (case source_get source_id c of None \<Rightarrow> Inl NoSuchMemory | Some s \<Rightarrow> Inr s)"

definition restored_item :: "item \<Rightarrow> memory \<Rightarrow> corpus \<Rightarrow> observed_item" where
  "restored_item item current c =
     (let artifact = find (\<lambda>a. art_hash a = m_content_hash current) (c_artifacts c)
      in \<lparr> oi_key = it_key item, oi_hash = m_content_hash current,
           oi_byte_size = (case artifact of None \<Rightarrow> 0 | Some a \<Rightarrow> art_byte_size a),
           oi_media_type = (case artifact of None \<Rightarrow> None | Some a \<Rightarrow> art_media_type a),
           oi_occurred_at = m_occurred_at current,
           oi_occurred_at_source = m_occurred_at_source current,
           oi_read_bytes = None, oi_fingerprint = None \<rparr>)"

definition restore_body ::
  "(string \<Rightarrow> string) \<Rightarrow> time \<Rightarrow> nat \<Rightarrow> (deletion_error, item) step" where
  "restore_body blake2b_8 now memory_id c =
     (case item_of_memory memory_id c of
        Inl e \<Rightarrow> (Inl e, c)
      | Inr item \<Rightarrow>
          (case current_row (it_source item) (it_key item) (c_memories c) of
             None \<Rightarrow> (Inl NoSuchMemory, c)
           | Some current \<Rightarrow>
               if m_deleted_at current = None then (Inl NotDeletable, c)
               else if \<not> blob_exists (m_content_hash current) c then (Inl NotDeletable, c)
               else
                 (case source_entity (it_source item) c of
                    Inl e \<Rightarrow> (Inl e, c)
                  | Inr src \<Rightarrow>
                      (case ingest_item blake2b_8 now src (restored_item item current c) c of
                         (Inl e, c') \<Rightarrow> (Inl (DeletionFailed e), c')
                       | (Inr None, c') \<Rightarrow> (Inl NotDeletable, c')
                       | (Inr (Some _), c') \<Rightarrow> (Inr item, c')))))"

definition restore ::
  "(string \<Rightarrow> string) \<Rightarrow> clock \<Rightarrow> nat \<Rightarrow> (deletion_error, item) step" where
  "restore blake2b_8 clock memory_id c =
     in_transaction (restore_body blake2b_8 (clock (c_next_id c)) memory_id) c"

section \<open>Shared reads\<close>

definition matches_any :: "item list \<Rightarrow> memory \<Rightarrow> bool" where
  "matches_any items m \<longleftrightarrow> (m_source m, m_key m) \<in> set (map (\<lambda>i. (it_source i, it_key i)) items)"

definition versions_of :: "item list \<Rightarrow> corpus \<Rightarrow> nat list \<times> string list" where
  "versions_of items c =
     (let rows = filter (matches_any items) (c_memories c)
      in (map m_id rows, map m_content_hash rows))"

definition still_referenced :: "string \<Rightarrow> corpus \<Rightarrow> bool" where
  "still_referenced h c \<longleftrightarrow>
     0 < row_count (\<lambda>m. m_content_hash m = h) (c_memories c) \<or>
     0 < row_count (\<lambda>a. snd a = h) (c_attachments c)"

section \<open>What a purge would remove\<close>

record purge_scope =
  sc_items :: "item list"
  sc_memories :: nat
  sc_chunks :: nat
  sc_embedded_chunks :: nat
  sc_mentions :: nat
  sc_orphaned_entities :: nat
  sc_tags :: nat
  sc_turns :: nat
  sc_attachments :: nat
  sc_evidence :: nat
  sc_blobs :: nat
  sc_shared_blobs :: nat

definition scope_is_empty :: "purge_scope \<Rightarrow> bool" where
  "scope_is_empty s \<longleftrightarrow> sc_items s = []"

definition entities_left_unmentioned :: "nat list \<Rightarrow> corpus \<Rightarrow> nat" where
  "entities_left_unmentioned memory_ids c =
     (let doomed = keep_first (map mn_entity
            (filter (\<lambda>r. mn_memory r \<in> set memory_ids) (c_mentions c)));
          surviving = map mn_entity (filter (\<lambda>r. mn_memory r \<notin> set memory_ids) (c_mentions c))
      in if memory_ids = [] then 0 else length (filter (\<lambda>e. e \<notin> set surviving) doomed))"

definition evidence_citing :: "nat list \<Rightarrow> corpus \<Rightarrow> nat" where
  "evidence_citing memory_ids c =
     (if memory_ids = [] then 0 else row_count (\<lambda>m. m \<in> set memory_ids) (c_evidence c))"

definition blob_split :: "string list \<Rightarrow> nat list \<Rightarrow> corpus \<Rightarrow> string list \<times> string list" where
  "blob_split hashes doomed c =
     (let shared = (\<lambda>h. 0 < row_count (\<lambda>m. m_content_hash m = h \<and> m_id m \<notin> set doomed) (c_memories c)
                      \<or> 0 < row_count (\<lambda>a. snd a = h) (c_attachments c))
      in (filter (\<lambda>h. \<not> shared h) (keep_first hashes), filter shared (keep_first hashes)))"

definition scope_of :: "item list \<Rightarrow> corpus \<Rightarrow> purge_scope" where
  "scope_of items c =
     (if items = [] then
        \<lparr> sc_items = [], sc_memories = 0, sc_chunks = 0, sc_embedded_chunks = 0, sc_mentions = 0,
          sc_orphaned_entities = 0, sc_tags = 0, sc_turns = 0, sc_attachments = 0, sc_evidence = 0,
          sc_blobs = 0, sc_shared_blobs = 0 \<rparr>
      else
        let (memory_ids, hashes) = versions_of items c;
            keys = map it_key items;
            turn_ids = map fst (filter (\<lambda>t. snd t \<in> set keys) (c_turns c));
            (shreddable, shared) = blob_split hashes memory_ids c
        in \<lparr> sc_items = items, sc_memories = length memory_ids,
             sc_chunks = row_count (\<lambda>r. ck_memory r \<in> set memory_ids) (c_chunks c),
             sc_embedded_chunks =
               row_count (\<lambda>r. ck_memory r \<in> set memory_ids \<and> ck_embedded r) (c_chunks c),
             sc_mentions = row_count (\<lambda>r. mn_memory r \<in> set memory_ids) (c_mentions c),
             sc_orphaned_entities = entities_left_unmentioned memory_ids c,
             sc_tags = row_count (\<lambda>t. snd t \<in> set keys \<and> fst t \<in> it_source ` set items) (c_tags c),
             sc_turns = length turn_ids,
             sc_attachments = row_count (\<lambda>a. fst a \<in> set turn_ids) (c_attachments c),
             sc_evidence = evidence_citing memory_ids c,
             sc_blobs = length shreddable, sc_shared_blobs = length shared \<rparr>)"

section \<open>Permanent deletion\<close>

record purge_report =
  pr_items :: nat
  pr_memories :: nat
  pr_chunks :: nat
  pr_mentions :: nat
  pr_tags :: nat
  pr_turns :: nat
  pr_blobs_shredded :: nat
  pr_blobs_surviving :: "string list"
  pr_events_appended :: nat

definition no_purge :: purge_report where
  "no_purge = \<lparr> pr_items = 0, pr_memories = 0, pr_chunks = 0, pr_mentions = 0, pr_tags = 0,
     pr_turns = 0, pr_blobs_shredded = 0, pr_blobs_surviving = [], pr_events_appended = 0 \<rparr>"

definition delete_turns :: "string \<Rightarrow> corpus \<Rightarrow> corpus" where
  "delete_turns key c =
     (let doomed = map fst (filter (\<lambda>t. snd t = key) (c_turns c))
      in c\<lparr> c_turns := filter (\<lambda>t. snd t \<noteq> key) (c_turns c),
            c_attachments := filter (\<lambda>a. fst a \<notin> set doomed) (c_attachments c) \<rparr>)"

definition delete_memories :: "nat list \<Rightarrow> corpus \<Rightarrow> corpus" where
  "delete_memories memory_ids c =
     c\<lparr> c_memories := filter (\<lambda>m. m_id m \<notin> set memory_ids) (c_memories c),
        c_chunks := filter (\<lambda>r. ck_memory r \<notin> set memory_ids) (c_chunks c),
        c_mentions := filter (\<lambda>r. mn_memory r \<notin> set memory_ids) (c_mentions c),
        c_evidence := filter (\<lambda>m. m \<notin> set memory_ids) (c_evidence c) \<rparr>"

definition purge_one ::
  "(string \<Rightarrow> string) \<Rightarrow> time \<Rightarrow> item \<Rightarrow> (deletion_error, purge_report \<times> string list) step" where
  "purge_one blake2b_8 now item c =
     (let (memory_ids, hashes) = versions_of [item] c
      in if memory_ids = [] then (Inl NoSuchMemory, c)
         else
           case log_event now (absence_event ITEM_PURGED (it_source item) (it_key item)) c of
             (Inl e, c1) \<Rightarrow> (Inl (DeletionFailed e), c1)
           | (Inr _, c1) \<Rightarrow>
               let mentions = row_count (\<lambda>r. mn_memory r \<in> set memory_ids) (c_mentions c1);
                   chunks = row_count (\<lambda>r. ck_memory r \<in> set memory_ids) (c_chunks c1);
                   turns = row_count (\<lambda>t. snd t = it_key item) (c_turns c1);
                   c2 = delete_turns (it_key item) c1;
                   tags = row_count (\<lambda>t. t = (it_source item, it_key item)) (c_tags c2);
                   c3 = c2\<lparr> c_tags := filter (\<lambda>t. t \<noteq> (it_source item, it_key item)) (c_tags c2) \<rparr>;
                   c4 = delete_memories memory_ids c3;
                   c5 = enqueue_job now (graph_sync_spec blake2b_8 memory_ids []) c4
               in (Inr (no_purge\<lparr> pr_items := 1, pr_memories := length memory_ids,
                                   pr_chunks := chunks, pr_mentions := mentions, pr_tags := tags,
                                   pr_turns := turns, pr_events_appended := 1 \<rparr>, hashes), c5))"

definition add_counts :: "purge_report \<Rightarrow> purge_report \<Rightarrow> purge_report" where
  "add_counts report counted =
     \<lparr> pr_items = pr_items report + 1, pr_memories = pr_memories report + pr_memories counted,
       pr_chunks = pr_chunks report + pr_chunks counted,
       pr_mentions = pr_mentions report + pr_mentions counted,
       pr_tags = pr_tags report + pr_tags counted, pr_turns = pr_turns report + pr_turns counted,
       pr_blobs_shredded = 0, pr_blobs_surviving = [],
       pr_events_appended = pr_events_appended report + 1 \<rparr>"

fun purge_items ::
  "(string \<Rightarrow> string) \<Rightarrow> clock \<Rightarrow> item list \<Rightarrow> purge_report \<Rightarrow> string list \<Rightarrow>
   (deletion_error, purge_report \<times> string list) step" where
  "purge_items blake2b_8 clock [] report shred c = (Inr (report, shred), c)"
| "purge_items blake2b_8 clock (item # items) report shred c =
     (case in_transaction (purge_one blake2b_8 (clock (c_next_id c)) item) c of
        (Inl e, c') \<Rightarrow> (Inl e, c')
      | (Inr (counted, hashes), c') \<Rightarrow>
          purge_items blake2b_8 clock items (add_counts report counted) (shred @ hashes) c')"

fun shred_blobs ::
  "(string \<Rightarrow> bool) \<Rightarrow> string list \<Rightarrow> corpus \<Rightarrow> nat \<times> string list \<times> corpus" where
  "shred_blobs shred_fails [] c = (0, [], c)"
| "shred_blobs shred_fails (h # hs) c =
     (if still_referenced h c then shred_blobs shred_fails hs c
      else if shred_fails h then
        (let (n, surviving, c') = shred_blobs shred_fails hs c in (n, h # surviving, c'))
      else
        (let (n, surviving, c') = shred_blobs shred_fails hs (blob_delete h c) in (Suc n, surviving, c')))"

definition purge ::
  "(string \<Rightarrow> string) \<Rightarrow> (string \<Rightarrow> bool) \<Rightarrow> clock \<Rightarrow> item list \<Rightarrow> (deletion_error, purge_report) step"
where
  "purge blake2b_8 shred_fails clock items c =
     (case purge_items blake2b_8 clock items no_purge [] c of
        (Inl e, c1) \<Rightarrow> (Inl e, c1)
      | (Inr (report, shred), c1) \<Rightarrow>
          let (shredded, surviving, c2) = shred_blobs shred_fails (keep_first shred) c1
          in (if surviving \<noteq> [] then Inl (BlobsSurvived surviving)
              else Inr (report\<lparr> pr_blobs_shredded := shredded, pr_blobs_surviving := surviving \<rparr>), c2))"

definition purge_memory ::
  "(string \<Rightarrow> string) \<Rightarrow> (string \<Rightarrow> bool) \<Rightarrow> clock \<Rightarrow> nat \<Rightarrow> (deletion_error, purge_report) step" where
  "purge_memory blake2b_8 shred_fails clock memory_id c =
     (case item_of_memory memory_id c of
        Inl e \<Rightarrow> (Inl e, c)
      | Inr item \<Rightarrow> purge blake2b_8 shred_fails clock [item] c)"

definition purge_source ::
  "(string \<Rightarrow> string) \<Rightarrow> (string \<Rightarrow> bool) \<Rightarrow> clock \<Rightarrow> nat \<Rightarrow> bool \<Rightarrow> (deletion_error, purge_report) step"
where
  "purge_source blake2b_8 shred_fails clock source_id drop_source c =
     (case items_of_source source_id c of
        Inl e \<Rightarrow> (Inl e, c)
      | Inr items \<Rightarrow>
          (case purge blake2b_8 shred_fails clock items c of
             (Inl e, c1) \<Rightarrow> (Inl e, c1)
           | (Inr report, c1) \<Rightarrow>
               (Inr report,
                if drop_source \<and> row_count (\<lambda>e. ev_source e = source_id) (c_events c1) = 0
                then c1\<lparr> c_sources := filter (\<lambda>s. src_id s \<noteq> source_id) (c_sources c1) \<rparr>
                else c1)))"

section \<open>The invariant is kept\<close>

lemma corpus_inv_cong:
  assumes "c_memories c' = c_memories c" and "c_events c' = c_events c"
    and "c_artifacts c' = c_artifacts c" and "c_jobs c' = c_jobs c" and "c_next_id c' = c_next_id c"
  shows "corpus_inv c' \<longleftrightarrow> corpus_inv c"
  using assms by (simp add: corpus_inv_def artifact_exists_def)

lemma item_of_memory_Inr:
  assumes "item_of_memory i c = Inr item"
  obtains m where "m \<in> set (c_memories c)" and "m_id m = i"
    and "same_item (it_source item) (it_key item) m"
  using assms
  by (auto simp: item_of_memory_def same_item_def dest: find_SomeD split: option.splits)

lemma tombstone_body_Inr:
  assumes "tombstone_body b now i c = (Inr item, c')"
  obtains (already) r where "c' = c" and "item_of_memory i c = Inr item"
      and "current_row (it_source item) (it_key item) (c_memories c) = Some r"
      and "m_deleted_at r \<noteq> None"
  | (buried) r u where "item_of_memory i c = Inr item"
      and "current_row (it_source item) (it_key item) (c_memories c) = Some r"
      and "bury_item b now (it_source item) (it_key item) (m_id r) c = (Inr u, c')"
  using assms
  by (auto simp: tombstone_body_def split: sum.splits option.splits if_splits prod.splits)

lemma tombstone_body_next: "c_next_id c \<le> c_next_id (snd (tombstone_body b now i c))"
proof -
  have "c_next_id c \<le> c_next_id c1" if "bury_item b now s k j c = (x, c1)" for s k j x c1
    using bury_item_next [of c b now s k j] that by simp
  then show ?thesis
    by (auto simp: tombstone_body_def split: sum.split option.split prod.split)
qed

lemma tombstone_inv [inv_intros]:
  assumes "corpus_inv c"
  shows "corpus_inv (snd (tombstone b clock i c))"
  unfolding tombstone_def
proof (rule in_transaction_inv [where body = "tombstone_body b (clock (c_next_id c)) i", OF assms
    tombstone_body_next])
  fix x c'
  assume "tombstone_body b (clock (c_next_id c)) i c = (Inr x, c')"
  then show "corpus_inv c'"
    by (cases rule: tombstone_body_Inr) (use assms in \<open>auto elim: bury_item_effect [OF assms]\<close>)
qed

lemma restore_body_Inr:
  assumes "restore_body b now i c = (Inr item, c')"
  obtains current src r where "item_of_memory i c = Inr item"
    and "current_row (it_source item) (it_key item) (c_memories c) = Some current"
    and "m_deleted_at current \<noteq> None" and "blob_exists (m_content_hash current) c"
    and "source_get (it_source item) c = Some src"
    and "ingest_item b now src (restored_item item current c) c = (Inr (Some r), c')"
  using assms
  by (auto simp: restore_body_def source_entity_def split: sum.splits option.splits if_splits prod.splits)

lemma restore_body_next: "c_next_id c \<le> c_next_id (snd (restore_body b now i c))"
proof -
  have "c_next_id c \<le> c_next_id c1" if "ingest_item b now src it c = (x, c1)" for src it x c1
    using ingest_item_next [of c b now src it] that by simp
  then show ?thesis
    by (auto simp: restore_body_def split: sum.split option.split prod.split)
qed

lemma restore_inv [inv_intros]:
  assumes "corpus_inv c"
  shows "corpus_inv (snd (restore b clock i c))"
  unfolding restore_def
proof (rule in_transaction_inv [where body = "restore_body b (clock (c_next_id c)) i", OF assms
    restore_body_next])
  fix x c'
  assume "restore_body b (clock (c_next_id c)) i c = (Inr x, c')"
  then show "corpus_inv c'" by (rule restore_body_Inr) (rule ingest_item_inv [OF assms])
qed

section \<open>What a purge leaves\<close>

lemma matches_one [simp]: "matches_any [item] = same_item (it_source item) (it_key item)"
  by (auto simp: matches_any_def same_item_def fun_eq_iff)

lemma delete_item_rows:
  assumes "memories_ok ms"
  shows "filter (\<lambda>m. m_id m \<notin> set (map m_id (filter (same_item s k) ms))) ms =
         filter (\<lambda>m. \<not> same_item s k m) ms"
  by (rule filter_cong [OF refl])
     (auto dest: distinct_map_eqD [OF memories_okD(1) [OF assms]])

lemma filter_not_same_item:
  "filter (\<lambda>m. \<not> same_item s k m) ms = filter (\<lambda>m. (m_source m, m_key m) \<notin> {(s, k)}) ms"
  by (simp add: same_item_def)

text \<open>One item's transaction, in terms of the specification.\<close>

lemma purge_one_effect:
  assumes inv: "corpus_inv c" and run: "purge_one b now item c = (Inr (counted, hashes), c')"
  obtains event where "corpus_inv c'" and "c_events c' = c_events c @ [event]"
    and "ev_type event = ITEM_PURGED" and "ev_source event = it_source item" and "ev_key event = it_key item"
    and "c_memories c' = filter (\<lambda>m. \<not> same_item (it_source item) (it_key item) m) (c_memories c)"
    and "c_tags c' = filter (\<lambda>t. t \<noteq> (it_source item, it_key item)) (c_tags c)"
    and "c_turns c' = filter (\<lambda>t. snd t \<noteq> it_key item) (c_turns c)"
    and "set (c_attachments c') \<subseteq> set (c_attachments c)" and "c_blobs c' = c_blobs c"
    and "c_artifacts c' = c_artifacts c" and "c_sources c' = c_sources c"
    and "c_chunks c' = filter (\<lambda>r. ck_memory r \<notin> m_id ` set (item_rows (it_source item) (it_key item) (c_memories c))) (c_chunks c)"
    and "hashes = map m_content_hash (item_rows (it_source item) (it_key item) (c_memories c))"
    and "item_rows (it_source item) (it_key item) (c_memories c) \<noteq> []"
    and "pr_blobs_surviving counted = []"
proof -
  let ?s = "it_source item" and ?k = "it_key item"
  let ?rows = "filter (same_item ?s ?k) (c_memories c)"
  obtain event c1 where log: "log_event now (absence_event ITEM_PURGED ?s ?k) c = (Inr event, c1)"
    and ne: "?rows \<noteq> []" and hashes: "hashes = map m_content_hash ?rows"
    and counted: "pr_blobs_surviving counted = []"
    and c': "c' = enqueue_job now (graph_sync_spec b (map m_id ?rows) [])
      (delete_memories (map m_id ?rows)
        ((delete_turns ?k c1)\<lparr> c_tags := filter (\<lambda>t. t \<noteq> (?s, ?k)) (c_tags (delete_turns ?k c1)) \<rparr>))"
    using run
    by (auto simp: purge_one_def versions_of_def Let_def no_purge_def split: if_splits prod.splits sum.splits)
  note e = log_event_Inr [OF log]
  have ok: "memories_ok (c_memories c)" by (rule corpus_invD(1) [OF inv])
  let ?left = "filter (\<lambda>m. \<not> same_item ?s ?k m) (c_memories c)"
  have ms: "c_memories c' = ?left"
    by (simp add: c' delete_memories_def delete_turns_def Let_def e(1) del: set_map)
       (rule delete_item_rows [OF ok])
  have inv1: "corpus_inv (c1\<lparr> c_next_id := c_next_id c1, c_memories := ?left \<rparr>)"
  proof (rule corpus_inv_step [OF inv log])
    show "memories_ok ?left"
      unfolding filter_not_same_item by (rule memories_ok_filter_items [OF ok])
    show "map erase ?left = project_event event (map erase (c_memories c))"
      using e(4-6) by (simp add: project_event_def absence_event_def erase_filter_item)
    show "is_ok (memory_from_event event 0)" if "ev_type event = ARTIFACT_OBSERVED"
      using that e(4) by (simp add: absence_event_def)
  qed (use corpus_invD(5,6,8) [OF inv] in \<open>auto simp: e(1) less_SucI\<close>)
  have "corpus_inv (delete_memories (map m_id ?rows)
        ((delete_turns ?k c1)\<lparr> c_tags := filter (\<lambda>t. t \<noteq> (?s, ?k)) (c_tags (delete_turns ?k c1)) \<rparr>))"
    using inv1
    by (subst corpus_inv_cong [where c = "c1\<lparr> c_next_id := c_next_id c1, c_memories := ?left \<rparr>"])
       (use ms in \<open>simp_all add: c' delete_memories_def delete_turns_def Let_def e(1)\<close>)
  then have "corpus_inv c'" unfolding c' by (rule corpus_inv_enqueue) simp
  then show thesis
    by (rule that [OF _ _ _ _ _ ms])
       (use e(4-6) ne counted in
        \<open>auto simp: c' delete_memories_def delete_turns_def Let_def e(1) hashes item_rows_def absence_event_def\<close>)
qed

lemma purge_one_next: "c_next_id c \<le> c_next_id (snd (purge_one b now item c))"
  using log_event_next [of now "absence_event ITEM_PURGED (it_source item) (it_key item)" c]
  by (auto simp: purge_one_def Let_def delete_memories_def delete_turns_def versions_of_def
      split: prod.splits sum.splits)

lemma purge_transaction_inv:
  assumes "corpus_inv c"
  shows "corpus_inv (snd (in_transaction (purge_one b now item) c))"
proof (rule in_transaction_inv [where body = "purge_one b now item", OF assms purge_one_next])
  fix x c'
  assume "purge_one b now item c = (Inr x, c')"
  then show "corpus_inv c'" by (cases x) (auto elim: purge_one_effect [OF assms])
qed

definition purge_mark :: "ingestion_event \<Rightarrow> event_type \<times> nat \<times> string" where
  "purge_mark e = (ev_type e, ev_source e, ev_key e)"

lemma matches_Cons:
  "matches_any (item # items) m \<longleftrightarrow> same_item (it_source item) (it_key item) m \<or> matches_any items m"
  by (auto simp: matches_any_def same_item_def)

lemma in_item_rows: "m \<in> set (item_rows s k ms) \<longleftrightarrow> m \<in> set ms \<and> same_item s k m"
  by (auto simp: item_rows_def)

lemma matched_rows_Cons:
  "f ` {m \<in> set ms. matches_any (item # items) m} =
   f ` set (item_rows (it_source item) (it_key item) ms) \<union>
   f ` {m \<in> set ms. \<not> same_item (it_source item) (it_key item) m \<and> matches_any items m}"
  by (auto simp: matches_Cons in_item_rows)

lemma purge_items_effect:
  assumes "corpus_inv c" and "purge_items b clock items rep shred c = (res, c')"
  shows "corpus_inv c'"
    and "res = Inr (rep', shred') \<Longrightarrow>
      c_memories c' = filter (\<lambda>m. \<not> matches_any items m) (c_memories c) \<and>
      c_tags c' = filter (\<lambda>t. t \<notin> (\<lambda>i. (it_source i, it_key i)) ` set items) (c_tags c) \<and>
      c_turns c' = filter (\<lambda>t. snd t \<notin> it_key ` set items) (c_turns c) \<and>
      c_blobs c' = c_blobs c \<and>
      set shred' = set shred \<union> m_content_hash ` {m \<in> set (c_memories c). matches_any items m} \<and>
      (\<exists>es. c_events c' = c_events c @ es \<and>
            map purge_mark es = map (\<lambda>i. (ITEM_PURGED, it_source i, it_key i)) items) \<and>
      (\<forall>r \<in> set (c_chunks c'). r \<in> set (c_chunks c) \<and>
         ck_memory r \<notin> m_id ` {m \<in> set (c_memories c). matches_any items m})"
proof -
  have "corpus_inv c' \<and> (res = Inr (rep', shred') \<longrightarrow>
      c_memories c' = filter (\<lambda>m. \<not> matches_any items m) (c_memories c) \<and>
      c_tags c' = filter (\<lambda>t. t \<notin> (\<lambda>i. (it_source i, it_key i)) ` set items) (c_tags c) \<and>
      c_turns c' = filter (\<lambda>t. snd t \<notin> it_key ` set items) (c_turns c) \<and>
      c_blobs c' = c_blobs c \<and>
      set shred' = set shred \<union> m_content_hash ` {m \<in> set (c_memories c). matches_any items m} \<and>
      (\<exists>es. c_events c' = c_events c @ es \<and>
            map purge_mark es = map (\<lambda>i. (ITEM_PURGED, it_source i, it_key i)) items) \<and>
      (\<forall>r \<in> set (c_chunks c'). r \<in> set (c_chunks c) \<and>
         ck_memory r \<notin> m_id ` {m \<in> set (c_memories c). matches_any items m}))"
    using assms
  proof (induction items arbitrary: rep shred c)
    case Nil
    then show ?case by (auto simp: matches_any_def)
  next
    case (Cons item items)
    obtain res1 c1 where tx: "in_transaction (purge_one b (clock (c_next_id c)) item) c = (res1, c1)"
      by (cases "in_transaction (purge_one b (clock (c_next_id c)) item) c")
    have inv1: "corpus_inv c1"
      using purge_transaction_inv [OF Cons.prems(1), of b "clock (c_next_id c)" item] tx by simp
    show ?case
    proof (cases res1)
      case (Inl e)
      with Cons.prems(2) tx inv1 show ?thesis by auto
    next
      case (Inr x)
      obtain counted hashes where x: "x = (counted, hashes)" by (cases x)
      have rest: "purge_items b clock items (add_counts rep counted) (shred @ hashes) c1 = (res, c')"
        using Cons.prems(2) tx Inr x by simp
      have "purge_one b (clock (c_next_id c)) item c = (Inr (counted, hashes), c1)"
        using tx Inr x by (simp add: in_transaction_Inr)
      then obtain event where one: "c_events c1 = c_events c @ [event]" "ev_type event = ITEM_PURGED"
        "ev_source event = it_source item" "ev_key event = it_key item"
        "c_memories c1 = filter (\<lambda>m. \<not> same_item (it_source item) (it_key item) m) (c_memories c)"
        "c_tags c1 = filter (\<lambda>t. t \<noteq> (it_source item, it_key item)) (c_tags c)"
        "c_turns c1 = filter (\<lambda>t. snd t \<noteq> it_key item) (c_turns c)" "c_blobs c1 = c_blobs c"
        "c_chunks c1 = filter (\<lambda>r. ck_memory r \<notin> m_id ` set (item_rows (it_source item) (it_key item) (c_memories c))) (c_chunks c)"
        "hashes = map m_content_hash (item_rows (it_source item) (it_key item) (c_memories c))"
        by (rule purge_one_effect [OF Cons.prems(1)])
      note IH = Cons.IH [OF inv1 rest]
      show ?thesis
      proof (intro conjI impI)
        show "corpus_inv c'" using IH by blast
        assume res: "res = Inr (rep', shred')"
        with IH obtain es where es: "c_events c' = c_events c1 @ es"
          "map purge_mark es = map (\<lambda>i. (ITEM_PURGED, it_source i, it_key i)) items" by blast
        show "\<exists>es. c_events c' = c_events c @ es \<and>
            map purge_mark es = map (\<lambda>i. (ITEM_PURGED, it_source i, it_key i)) (item # items)"
          using es one(1-4) by (intro exI [of _ "event # es"]) (simp add: purge_mark_def)
        show "c_memories c' = filter (\<lambda>m. \<not> matches_any (item # items) m) (c_memories c)"
          using IH res by (simp add: one matches_Cons conj_commute)
        show "c_tags c' = filter (\<lambda>t. t \<notin> (\<lambda>i. (it_source i, it_key i)) ` set (item # items)) (c_tags c)"
          using IH res by (simp add: one conj_commute)
        show "c_turns c' = filter (\<lambda>t. snd t \<notin> it_key ` set (item # items)) (c_turns c)"
          using IH res by (simp add: one conj_commute)
        show "c_blobs c' = c_blobs c" using IH res by (simp add: one)
        show "set shred' = set shred \<union>
            m_content_hash ` {m \<in> set (c_memories c). matches_any (item # items) m}"
          unfolding matched_rows_Cons using IH res by (simp add: one Un_assoc)
        show "\<forall>r \<in> set (c_chunks c'). r \<in> set (c_chunks c) \<and>
            ck_memory r \<notin> m_id ` {m \<in> set (c_memories c). matches_any (item # items) m}"
          unfolding matched_rows_Cons using IH res by (simp add: one)
      qed
    qed
  qed
  then show "corpus_inv c'"
    and "res = Inr (rep', shred') \<Longrightarrow>
      c_memories c' = filter (\<lambda>m. \<not> matches_any items m) (c_memories c) \<and>
      c_tags c' = filter (\<lambda>t. t \<notin> (\<lambda>i. (it_source i, it_key i)) ` set items) (c_tags c) \<and>
      c_turns c' = filter (\<lambda>t. snd t \<notin> it_key ` set items) (c_turns c) \<and>
      c_blobs c' = c_blobs c \<and>
      set shred' = set shred \<union> m_content_hash ` {m \<in> set (c_memories c). matches_any items m} \<and>
      (\<exists>es. c_events c' = c_events c @ es \<and>
            map purge_mark es = map (\<lambda>i. (ITEM_PURGED, it_source i, it_key i)) items) \<and>
      (\<forall>r \<in> set (c_chunks c'). r \<in> set (c_chunks c) \<and>
         ck_memory r \<notin> m_id ` {m \<in> set (c_memories c). matches_any items m})"
    by blast+
qed

lemma still_referenced_iff:
  "still_referenced h c \<longleftrightarrow>
     (\<exists>m \<in> set (c_memories c). m_content_hash m = h) \<or> (\<exists>a \<in> set (c_attachments c). snd a = h)"
  using row_count_0_iff [of "\<lambda>m. m_content_hash m = h" "c_memories c"]
    row_count_0_iff [of "\<lambda>a. snd a = h" "c_attachments c"]
  by (auto simp: still_referenced_def)

lemma blob_delete_frame [simp]:
  "c_memories (blob_delete h c) = c_memories c"
  "still_referenced h' (blob_delete h c) = still_referenced h' c"
  "blob_exists h' (blob_delete h c) \<longleftrightarrow> h' \<noteq> h \<and> blob_exists h' c"
  "(blob_delete h c)\<lparr> c_blobs := bs \<rparr> = c\<lparr> c_blobs := bs \<rparr>"
  by (auto simp: blob_delete_def still_referenced_def blob_exists_def)

lemma shred_blobs_only_blobs:
  "shred_blobs fails hs c = (n, surviving, c') \<Longrightarrow> \<exists>bs. c' = c\<lparr> c_blobs := bs \<rparr>"
proof (induction hs arbitrary: c n surviving)
  case Nil
  then show ?case by (auto intro: exI [of _ "c_blobs c"])
next
  case (Cons a hs)
  then show ?case by (fastforce split: if_splits prod.splits)
qed

lemma shred_blobs_effect:
  assumes "shred_blobs fails hs c = (n, surviving, c')"
  shows "surviving = filter (\<lambda>h. \<not> still_referenced h c \<and> fails h) hs"
    and "n = length (filter (\<lambda>h. \<not> still_referenced h c \<and> \<not> fails h) hs)"
    and "blob_exists h c' \<longleftrightarrow>
         blob_exists h c \<and> (h \<in> set hs \<longrightarrow> still_referenced h c \<or> fails h)"
proof -
  have "surviving = filter (\<lambda>h. \<not> still_referenced h c \<and> fails h) hs \<and>
    n = length (filter (\<lambda>h. \<not> still_referenced h c \<and> \<not> fails h) hs) \<and>
    (blob_exists h c' \<longleftrightarrow> blob_exists h c \<and> (h \<in> set hs \<longrightarrow> still_referenced h c \<or> fails h))"
    using assms
  proof (induction hs arbitrary: c n surviving)
    case (Cons a hs)
    show ?case
    proof (cases "still_referenced a c \<or> fails a")
      case True
      then obtain n1 surv1 where "shred_blobs fails hs c = (n1, surv1, c')"
        using Cons.prems by (auto split: if_splits prod.splits)
      from Cons.IH [OF this] this True Cons.prems show ?thesis by auto
    next
      case False
      then obtain n1 surv1 where "shred_blobs fails hs (blob_delete a c) = (n1, surv1, c')"
        using Cons.prems by (auto split: if_splits prod.splits)
      from Cons.IH [OF this] this False Cons.prems show ?thesis by auto
    qed
  qed simp
  then show "surviving = filter (\<lambda>h. \<not> still_referenced h c \<and> fails h) hs"
    and "n = length (filter (\<lambda>h. \<not> still_referenced h c \<and> \<not> fails h) hs)"
    and "blob_exists h c' \<longleftrightarrow>
         blob_exists h c \<and> (h \<in> set hs \<longrightarrow> still_referenced h c \<or> fails h)"
    by blast+
qed

lemma purge_one_blobs: "c_blobs (snd (purge_one b now item c)) = c_blobs c"
proof -
  have "c_blobs c1 = c_blobs c" if "log_event now f c = (r, c1)" for f r c1
    using that by (cases r) (auto dest: log_event_Inl log_event_Inr(1))
  then show ?thesis
    by (auto simp: purge_one_def Let_def delete_memories_def delete_turns_def versions_of_def
        split: prod.split sum.split)
qed

lemma purge_one_artifacts: "c_artifacts (snd (purge_one b now item c)) = c_artifacts c"
proof -
  have "c_artifacts c1 = c_artifacts c" if "log_event now f c = (r, c1)" for f r c1
    using that by (cases r) (auto dest: log_event_Inl log_event_Inr(1))
  then show ?thesis
    by (auto simp: purge_one_def Let_def delete_memories_def delete_turns_def versions_of_def
        split: prod.split sum.split)
qed

lemma purge_items_keep:
  "c_blobs (snd (purge_items b clock items rep shred c)) = c_blobs c"
  "c_artifacts (snd (purge_items b clock items rep shred c)) = c_artifacts c"
proof -
  have "c_blobs (snd (purge_items b clock items rep shred c)) = c_blobs c \<and>
        c_artifacts (snd (purge_items b clock items rep shred c)) = c_artifacts c"
  proof (induction items arbitrary: rep shred c)
    case (Cons item items)
    let ?tx = "in_transaction (purge_one b (clock (c_next_id c)) item) c"
    have "c_blobs (snd ?tx) = c_blobs c" and "c_artifacts (snd ?tx) = c_artifacts c"
      using purge_one_blobs [of b "clock (c_next_id c)" item c]
        purge_one_artifacts [of b "clock (c_next_id c)" item c]
      by (auto simp: in_transaction_def rollback_def split: prod.splits sum.splits)
    then have "c_blobs c1 = c_blobs c" and "c_artifacts c1 = c_artifacts c" if "?tx = (r, c1)" for r c1
      using that by simp_all
    then show ?case by (auto simp: Cons.IH split: prod.split sum.split)
  qed simp
  then show "c_blobs (snd (purge_items b clock items rep shred c)) = c_blobs c"
    and "c_artifacts (snd (purge_items b clock items rep shred c)) = c_artifacts c" by blast+
qed

lemma purge_inv [inv_intros]:
  assumes "corpus_inv c"
  shows "corpus_inv (snd (purge b fails clock items c))"
proof -
  obtain res c1 where run: "purge_items b clock items no_purge [] c = (res, c1)"
    by (cases "purge_items b clock items no_purge [] c")
  have inv1: "corpus_inv c1" by (rule purge_items_effect(1) [OF assms run])
  obtain n surv c2 where shred: "\<And>rep shred. res = Inr (rep, shred) \<Longrightarrow>
      shred_blobs fails (keep_first shred) c1 = (n, surv, c2)"
    by (cases res; cases "shred_blobs fails (keep_first (snd (projr res))) c1") auto
  then show ?thesis
    using run inv1
    by (cases res) (auto simp: purge_def dest!: shred_blobs_only_blobs intro: corpus_inv_blobs)
qed

lemma purge_items_no_blob_error:
  "purge_items b clock items rep shred c \<noteq> (Inl (BlobsSurvived hs), c')"
proof (induction items arbitrary: rep shred c)
  case (Cons item items)
  have "purge_one b now item c \<noteq> (Inl (BlobsSurvived hs), c1)" for now c1
    by (auto simp: purge_one_def Let_def split: prod.splits sum.splits)
  then show ?case using Cons.IH
    by (auto simp: in_transaction_def split: prod.splits sum.splits)
qed simp

lemma corpus_inv_sources: "corpus_inv c \<Longrightarrow> corpus_inv (c\<lparr> c_sources := ss \<rparr>)"
  by (simp add: corpus_inv_def artifact_exists_def)

lemma purge_memory_inv [inv_intros]:
  "corpus_inv c \<Longrightarrow> corpus_inv (snd (purge_memory b fails clock i c))"
  by (auto simp: purge_memory_def purge_inv split: sum.split)

lemma purge_source_inv [inv_intros]:
  assumes "corpus_inv c"
  shows "corpus_inv (snd (purge_source b fails clock sid drop_source c))"
proof -
  have "corpus_inv c1" if "purge b fails clock items c = (res, c1)" for items res c1
    using purge_inv [OF assms, of b fails clock items] that by simp
  then show ?thesis
    using assms by (auto simp: purge_source_def corpus_inv_sources split: sum.split prod.split)
qed

section \<open>Reachable corpora\<close>

text \<open>
  Everything that writes the corpus: ingestion (a sync's, or a chat message's), sync, removal from view
  and back, permanent deletion, the workers on the queue, and the writers of the tables that are not
  part of the projection (chunks, mentions, evidence, tags, chat turns, source registrations).
\<close>

inductive lifecycle :: "(string \<Rightarrow> string) \<Rightarrow> corpus \<Rightarrow> corpus \<Rightarrow> bool" for b where
  ingest: "lifecycle b c (snd (in_transaction (ingest_item b now src item) c))"
| sync: "lifecycle b c (snd (sync_source b clock observe sid full c))"
| tombstone: "lifecycle b c (snd (tombstone b clock i c))"
| restore: "lifecycle b c (snd (restore b clock i c))"
| purge_memory: "lifecycle b c (snd (purge_memory b fails clock i c))"
| purge_source: "lifecycle b c (snd (purge_source b fails clock sid drop_source c))"
| work: "queue_inv q \<Longrightarrow> set (map job_id q) \<subseteq> set (map job_id (c_jobs c)) \<Longrightarrow>
    lifecycle b c (c\<lparr> c_jobs := q \<rparr>)"
| enqueue: "job_spec_post_init spec = Inr spec \<Longrightarrow> lifecycle b c (enqueue_job now spec c)"
| draw_ids: "c_next_id c \<le> n \<Longrightarrow> lifecycle b c (c\<lparr> c_next_id := n \<rparr>)"
| other_tables: "lifecycle b c (c\<lparr> c_sources := ss, c_chunks := cs, c_mentions := mns,
    c_evidence := evs, c_tags := ts, c_turns := tns, c_attachments := as \<rparr>)"

definition reachable_corpus :: "(string \<Rightarrow> string) \<Rightarrow> nat \<Rightarrow> corpus \<Rightarrow> bool" where
  "reachable_corpus b me c \<longleftrightarrow> (lifecycle b)\<^sup>*\<^sup>* (empty_corpus me) c"

lemma lifecycle_inv:
  assumes "lifecycle b c c'" and "corpus_inv c"
  shows "corpus_inv c'"
  using assms
proof (induction rule: lifecycle.induct)
  case (work q c)
  have "job_id j < c_next_id c" if "j \<in> set q" for j
  proof -
    from work(2) that have "job_id j \<in> job_id ` set (c_jobs c)" by auto
    then show ?thesis using corpus_invD(7) [OF work(3)] by auto
  qed
  with work show ?case by (simp add: corpus_inv_def)
next
  case (enqueue spec c now)
  then show ?case by (intro corpus_inv_enqueue)
next
  case (draw_ids c n)
  then show ?case by (auto simp: corpus_inv_def artifact_exists_def intro: less_le_trans)
next
  case (other_tables c)
  then show ?case by (simp add: corpus_inv_def artifact_exists_def)
qed (intro inv_intros; assumption)+

lemma reachable_corpus_inv: "reachable_corpus b me c \<Longrightarrow> corpus_inv c"
  unfolding reachable_corpus_def
  by (induction rule: rtranclp_induct) (auto intro: corpus_inv_empty lifecycle_inv)

lemma ingest_known_bytes:
  assumes "artifact_exists (oi_hash item) c" and "\<not> unchanged src item c" and "oi_key item \<noteq> []"
    and "(oi_occurred_at item = None) = (oi_occurred_at_source item = TP_UNKNOWN)"
  obtains r c' where "ingest_item b now src item c = (Inr (Some r), c')"
proof -
  have "\<exists>r c'. ingest_item b now src item c = (Inr (Some r), c')"
    using assms
    by (simp add: ingest_item_def then_do_def store_artifact_def log_event_def
        ingestion_event_post_init_def observed_event_def append_event_def add_memory_def
        memory_from_event_def memory_post_init_def Let_def)
  with that show thesis by blast
qed

lemma find_update_where:
  assumes "\<And>r. p (f r) = p r"
  shows "find p (update_where q f rs) = map_option (\<lambda>r. if q r then f r else r) (find p rs)"
  using assms by (induction rs) auto

lemma item_of_memory_bury:
  assumes "c_memories c' = bury s k t (c_memories c)" and "c_sources c' = c_sources c"
  shows "item_of_memory i c' = item_of_memory i c"
  by (simp add: item_of_memory_def assms bury_def find_update_where source_get_def
      option.case_eq_if map_option_case)

section \<open>Properties\<close>


text \<open>In every reachable corpus the versions of an item are numbered from 1 without a gap in the order
  they were observed, the last one is current and no other is.\<close>

theorem versions_are_gapless:
  assumes "reachable_corpus b me c"
  shows "versions_in_order (item_rows sid key (c_memories c))"
  by (rule memories_okD(2) [OF corpus_invD(1) [OF reachable_corpus_inv [OF assms]]])


text \<open>Removing an item from view touches nothing else: a reader of its source no longer sees its key,
  every other key and source reads as before, and the bytes stay in the blob store.\<close>

theorem tombstone_hides_one_item:
  assumes inv: "corpus_inv c" and run: "tombstone b clock i c = (Inr item, c')"
  shows "live_map (it_source item) (c_memories c') =
           (live_map (it_source item) (c_memories c))(it_key item := None) \<and>
         (s \<noteq> it_source item \<longrightarrow> live_map s (c_memories c') = live_map s (c_memories c)) \<and>
         c_blobs c' = c_blobs c"
proof -
  from run have "tombstone_body b (clock (c_next_id c)) i c = (Inr item, c')"
    by (simp add: tombstone_def in_transaction_Inr)
  then show ?thesis
  proof (cases rule: tombstone_body_Inr)
    case (already r)
    then show ?thesis by (auto simp: live_map_def intro!: ext)
  next
    case (buried r u)
    obtain t where "c_memories c' = bury (it_source item) (it_key item) t (c_memories c)"
      by (rule bury_item_effect [OF inv buried(2,3)])
    moreover have "c_blobs c' = c_blobs c"
      using buried(3) by (auto simp: bury_item_Inr dest: log_event_Inr(1))
    ultimately show ?thesis by (simp add: live_map_bury live_map_bury_other)
  qed
qed

text \<open>Restoring what was removed from view brings it back: while its bytes are in the blob store the
  restore succeeds, and afterwards every source reads exactly as it did before the removal.\<close>

theorem restore_undoes_tombstone:
  assumes inv: "corpus_inv c" and run: "tombstone b clock i c = (Inr item, c')"
    and live: "live_map (it_source item) (c_memories c) (it_key item) = Some h"
    and bytes: "blob_exists h c"
  shows "\<exists>c''. restore b clock' i c' = (Inr item, c'') \<and>
           (\<forall>s. live_map s (c_memories c'') = live_map s (c_memories c))"
proof -
  let ?s = "it_source item" and ?k = "it_key item"
  from run have body: "tombstone_body b (clock (c_next_id c)) i c = (Inr item, c')"
    by (simp add: tombstone_def in_transaction_Inr)
  have inv': "corpus_inv c'" using tombstone_inv [OF inv, of b clock i] run by simp
  obtain r u where item: "item_of_memory i c = Inr item"
    and row: "current_row ?s ?k (c_memories c) = Some r"
    and bury: "bury_item b (clock (c_next_id c)) ?s ?k (m_id r) c = (Inr u, c')"
    using body live by (cases rule: tombstone_body_Inr) (auto simp: live_map_def)
  obtain t where ms: "c_memories c' = bury ?s ?k t (c_memories c)"
    by (rule bury_item_effect [OF inv row bury])
  have same: "c_blobs c' = c_blobs c" "c_sources c' = c_sources c"
    using bury by (auto simp: bury_item_Inr dest: log_event_Inr(1))
  have rh: "m_content_hash r = h" using live row by (auto simp: live_map_def split: if_splits)
  let ?r' = "r\<lparr> m_deleted_at := Some t \<rparr>"
  have row': "current_row ?s ?k (c_memories c') = Some ?r'"
    using row current_rowD(2) [OF row] by (simp add: ms current_row_bury)
  obtain src where src: "source_get ?s c' = Some src"
    using item by (auto simp: item_of_memory_def source_get_def same split: option.splits)
  have id: "src_id src = ?s" by (rule source_get_id [OF src])
  let ?it = "restored_item item ?r' c'"
  have it: "oi_key ?it = ?k" "oi_hash ?it = h" by (simp_all add: restored_item_def Let_def rh)
  have valid: "row_valid r" using corpus_invD(8) [OF inv] current_rowD(1) [OF row] by blast
  obtain x c'' where again: "ingest_item b (clock' (c_next_id c')) src ?it c' = (Inr (Some x), c'')"
  proof (rule ingest_known_bytes)
    show "artifact_exists (oi_hash ?it) c'"
      using corpus_invD(6) [OF inv' current_rowD(1) [OF row']] by (simp add: it rh)
    show "\<not> unchanged src ?it c'" by (simp add: unchanged_def id it row')
    show "oi_key ?it \<noteq> []"
      using valid current_rowD(2) [OF row] by (auto simp: it row_valid_def same_item_def)
    show "(oi_occurred_at ?it = None) = (oi_occurred_at_source ?it = TP_UNKNOWN)"
      using valid by (simp add: restored_item_def Let_def row_valid_def)
  qed
  have "restore b clock' i c' = (Inr item, c'')"
    using item_of_memory_bury [OF ms same(2), of i] item row' src again bytes
    by (simp add: restore_def in_transaction_Inr restore_body_def source_entity_def rh
        blob_exists_def same)
  moreover have "live_map s (c_memories c'') = live_map s (c_memories c)" for s
    using ingest_item_live [OF inv' again] live
    by (cases "s = ?s") (simp_all add: id it ms live_map_bury live_map_bury_other fun_upd_idem)
  ultimately show ?thesis by blast
qed

text \<open>C5 A purge that returns has removed its items: no version, tag or chat turn of them is left, and the
  bytes of every removed version are gone unless a remaining memory or attachment refers to them.\<close>

theorem purge_removes_content:
  assumes "corpus_inv c" and "purge b fails clock items c = (Inr rep, c')"
  shows "(\<forall>m \<in> set (c_memories c'). \<not> matches_any items m) \<and>
         (\<forall>i \<in> set items. (it_source i, it_key i) \<notin> set (c_tags c') \<and> it_key i \<notin> snd ` set (c_turns c')) \<and>
         (\<forall>m \<in> set (c_memories c). matches_any items m \<longrightarrow>
            still_referenced (m_content_hash m) c' \<or> \<not> blob_exists (m_content_hash m) c')"
proof -
  obtain r shred c1 n surv where items: "purge_items b clock items no_purge [] c = (Inr (r, shred), c1)"
    and blobs: "shred_blobs fails (keep_first shred) c1 = (n, surv, c')" and none: "surv = []"
    using assms(2) by (auto simp: purge_def split: prod.splits sum.splits if_splits)
  note e = purge_items_effect(2) [OF assms(1) items refl] and s = shred_blobs_effect [OF blobs]
  obtain bs where c': "c' = c1\<lparr> c_blobs := bs \<rparr>" using shred_blobs_only_blobs [OF blobs] by blast
  have ref: "still_referenced h c' = still_referenced h c1" for h
    by (simp add: c' still_referenced_def)
  have "still_referenced h c1 \<or> \<not> fails h" if "h \<in> set shred" for h
    using s(1) none that by (metis filter_empty_conv set_keep_first)
  then have "still_referenced h c1 \<or> \<not> blob_exists h c'" if "h \<in> set shred" for h
    using s(3) [of h] that by auto
  with e show ?thesis by (auto simp: ref) (auto simp: c')
qed

text \<open>C6 No purge, whatever it returns, removes bytes that something left in the corpus refers to.\<close>

theorem purge_keeps_shared_bytes:
  "blob_exists h c \<and> still_referenced h (snd (purge b fails clock items c)) \<longrightarrow>
   blob_exists h (snd (purge b fails clock items c))"
proof (cases "purge_items b clock items no_purge [] c")
  case (Pair res c1)
  have same: "c_blobs c1 = c_blobs c"
    using purge_items_keep(1) [of b clock items no_purge "[]" c] Pair by simp
  show ?thesis
  proof (cases res)
    case (Inl e)
    with Pair same show ?thesis by (simp add: purge_def blob_exists_def)
  next
    case (Inr x)
    obtain r shred where x: "x = (r, shred)" by (cases x)
    obtain n surv c2 where blobs: "shred_blobs fails (keep_first shred) c1 = (n, surv, c2)"
      by (cases "shred_blobs fails (keep_first shred) c1")
    then have "snd (purge b fails clock items c) = c2" using Pair Inr x by (simp add: purge_def)
    moreover have "still_referenced h c2 = still_referenced h c1"
      using shred_blobs_only_blobs [OF blobs] by (auto simp: still_referenced_def)
    ultimately show ?thesis
      using shred_blobs_effect(3) [OF blobs, of h] same by (auto simp: blob_exists_def)
  qed
qed

lemma shred_blobs_all:
  assumes "shred_blobs fails hs c = (n, [], c')"
  shows "h \<in> set hs \<Longrightarrow> \<not> still_referenced h c \<Longrightarrow> \<not> fails h"
    and "n = length (filter (\<lambda>h. \<not> still_referenced h c) hs)"
proof -
  note e = shred_blobs_effect [OF assms]
  show *: "h \<in> set hs \<Longrightarrow> \<not> still_referenced h c \<Longrightarrow> \<not> fails h" for h
    using e(1) by (metis filter_empty_conv)
  show "n = length (filter (\<lambda>h. \<not> still_referenced h c) hs)"
    unfolding e(2) using * by (intro arg_cong [where f = length] filter_cong) auto
qed

lemma purge_Inr:
  assumes "purge b fails clock items c = (Inr rep, c')"
  obtains r shred c1 n where "purge_items b clock items no_purge [] c = (Inr (r, shred), c1)"
    and "shred_blobs fails (keep_first shred) c1 = (n, [], c')"
    and "rep = r\<lparr> pr_blobs_shredded := n, pr_blobs_surviving := [] \<rparr>"
  using assms by (auto simp: purge_def split: prod.splits sum.splits if_splits)

text \<open>Finding: a purge shreds the bytes and keeps the artifact's row, and ingestion stores bytes only
  for an artifact it has no row for. Observing the same bytes again after a purge therefore records a
  live memory whose bytes are not in the blob store, although the observation carried them.\<close>

theorem reingest_after_purge_has_no_bytes:
  assumes inv: "corpus_inv c" and purge: "purge b fails clock items c = (Inr rep, c1)"
    and gone: "m \<in> set (c_memories c)" "matches_any items m"
    and unref: "\<not> still_referenced (m_content_hash m) c1"
    and again: "ingest_item b now src item c1 = (Inr (Some r), c2)"
    and same: "oi_hash item = m_content_hash m"
  shows "live_map (src_id src) (c_memories c2) (oi_key item) = Some (m_content_hash m) \<and>
         \<not> blob_exists (m_content_hash m) c2"
proof -
  have inv1: "corpus_inv c1" using purge_inv [OF inv, of b fails clock items] purge by simp
  obtain q shred c0 n where items: "purge_items b clock items no_purge [] c = (Inr (q, shred), c0)"
    and blobs: "shred_blobs fails (keep_first shred) c0 = (n, [], c1)"
    by (rule purge_Inr [OF purge])
  obtain bs where c1: "c1 = c0\<lparr> c_blobs := bs \<rparr>" using shred_blobs_only_blobs [OF blobs] by blast
  have known: "artifact_exists (oi_hash item) c1"
    using corpus_invD(6) [OF inv gone(1)] purge_items_keep(2) [of b clock items no_purge "[]" c] items
    by (simp add: same artifact_exists_def c1)
  have shredded: "\<not> blob_exists (m_content_hash m) c1"
  proof -
    have "m_content_hash m \<in> set shred" using purge_items_effect(2) [OF inv items refl] gone by auto
    moreover have "\<not> still_referenced (m_content_hash m) c0"
      using unref by (simp add: c1 still_referenced_def)
    ultimately show ?thesis
      using shred_blobs_effect(1,3) [OF blobs] by (metis filter_empty_conv set_keep_first)
  qed
  obtain e d1 d2 where "store_artifact item c1 = (Inr (), d1)"
    and log: "log_event now (observed_event src item) d1 = (Inr e, d2)"
    and c2: "c_blobs c2 = c_blobs d2"
    by (rule ingest_item_Some [OF again]) auto
  then have "d1 = c1" using known by (simp add: store_artifact_def)
  with log_event_Inr(1) [OF log] c2 have "c_blobs c2 = c_blobs c1" by simp
  with shredded ingest_item_live(1) [OF inv1 again] show ?thesis by (simp add: same blob_exists_def)
qed

text \<open>Finding: when a blob could not be removed the error asks for the purge to be run again. The rows
  are gone by then, so running it again is refused and the blob stays.\<close>

theorem purge_again_is_refused:
  assumes inv: "corpus_inv c"
    and run: "purge b fails clock [item] c = (Inl (BlobsSurvived surviving), c')"
  shows "purge b fails' clock' [item] c' = (Inl NoSuchMemory, c')"
proof -
  obtain r shred c1 n surv where items: "purge_items b clock [item] no_purge [] c = (Inr (r, shred), c1)"
    and blobs: "shred_blobs fails (keep_first shred) c1 = (n, surv, c')"
  proof (cases "purge_items b clock [item] no_purge [] c")
    case (Pair res c1)
    then show thesis
      using run that purge_items_no_blob_error [of b clock "[item]" no_purge "[]" c]
      by (cases res) (auto simp: purge_def simp del: purge_items.simps split: prod.splits if_splits)
  qed
  have "\<forall>m \<in> set (c_memories c'). \<not> same_item (it_source item) (it_key item) m"
    using purge_items_effect(2) [OF inv items refl] shred_blobs_only_blobs [OF blobs] by auto
  then have none: "filter (same_item (it_source item) (it_key item)) (c_memories c') = []"
    by (simp add: filter_empty_conv)
  show ?thesis
    by (simp add: purge_def in_transaction_def purge_one_def versions_of_def none rollback_def)
qed

text \<open>What the confirmation screen counts for an item is what its purge removes: versions, chunks,
  mentions, tags and turns agree, and no more blobs are announced than are shredded.\<close>

theorem scope_is_what_purge_removes:
  assumes "purge b fails clock [item] c = (Inr rep, c')"
  shows "sc_memories (scope_of [item] c) = pr_memories rep \<and>
         sc_chunks (scope_of [item] c) = pr_chunks rep \<and>
         sc_mentions (scope_of [item] c) = pr_mentions rep \<and>
         sc_tags (scope_of [item] c) = pr_tags rep \<and> sc_turns (scope_of [item] c) = pr_turns rep \<and>
         sc_blobs (scope_of [item] c) \<le> pr_blobs_shredded rep"
proof -
  let ?rows = "filter (same_item (it_source item) (it_key item)) (c_memories c)"
  obtain r shred c1 n where items: "purge_items b clock [item] no_purge [] c = (Inr (r, shred), c1)"
    and blobs: "shred_blobs fails (keep_first shred) c1 = (n, [], c')"
    and rep: "rep = r\<lparr> pr_blobs_shredded := n, pr_blobs_surviving := [] \<rparr>"
    by (rule purge_Inr [OF assms])
  from items obtain counted hashes where one: "purge_one b (clock (c_next_id c)) item c = (Inr (counted, hashes), c1)"
    and r: "r = add_counts no_purge counted" and shred: "shred = hashes"
    by (auto simp: in_transaction_Inr split: prod.splits sum.splits)
  obtain event c0 where log: "log_event (clock (c_next_id c)) (absence_event ITEM_PURGED (it_source item) (it_key item)) c = (Inr event, c0)"
    and ids: "?rows \<noteq> []" and hashes: "hashes = map m_content_hash ?rows"
    and ms: "c_memories c1 = filter (\<lambda>m. m_id m \<notin> set (map m_id ?rows)) (c_memories c0)"
    and atts: "set (c_attachments c1) \<subseteq> set (c_attachments c0)"
    and counts: "pr_memories counted = length ?rows"
      "pr_chunks counted = row_count (\<lambda>r. ck_memory r \<in> set (map m_id ?rows)) (c_chunks c0)"
      "pr_mentions counted = row_count (\<lambda>r. mn_memory r \<in> set (map m_id ?rows)) (c_mentions c0)"
      "pr_tags counted = row_count (\<lambda>t. t = (it_source item, it_key item)) (c_tags c0)"
      "pr_turns counted = row_count (\<lambda>t. snd t = it_key item) (c_turns c0)"
    using one
    by (auto simp: purge_one_def versions_of_def Let_def no_purge_def delete_memories_def
        delete_turns_def split: if_splits prod.splits sum.splits)
  note same = log_event_Inr(1) [OF log]
  have split: "\<not> still_referenced h c1" if "h \<in> set (fst (blob_split hashes (map m_id ?rows) c))" for h
    using that atts ms
    by (fastforce simp: blob_split_def still_referenced_iff same row_count_0_iff)
  have "length (fst (blob_split hashes (map m_id ?rows) c)) \<le> n"
  proof -
    have "fst (blob_split hashes (map m_id ?rows) c) =
          filter (\<lambda>h. h \<in> set (fst (blob_split hashes (map m_id ?rows) c))) (keep_first hashes)"
      by (auto simp: blob_split_def intro!: filter_cong)
    also have "length \<dots> \<le> length (filter (\<lambda>h. \<not> still_referenced h c1) (keep_first hashes))"
      using split by (intro length_filter_le_mono) auto
    also have "\<dots> = n"
      using shred_blobs_all(2) [OF blobs] by (simp add: shred)
    finally show ?thesis .
  qed
  moreover have "row_count (\<lambda>t. snd t = it_key item \<and> fst t = it_source item) ts =
        row_count (\<lambda>t. t = (it_source item, it_key item)) ts" for ts
    by (auto simp: row_count_def intro!: arg_cong [where f = length] filter_cong)
  ultimately show ?thesis
    by (simp add: scope_of_def versions_of_def rep r add_counts_def no_purge_def counts same
        hashes case_prod_beta Let_def row_count_def)
qed

section \<open>Witnesses\<close>

text \<open>The corpus of the sample sync once its jobs are gone from the queue.\<close>

definition sample_synced :: corpus where
  "sample_synced =
     \<lparr> c_user = 1,
       c_sources = [sample_source\<lparr> src_last_sync_at := Some 4, src_last_full_sync_at := Some 4 \<rparr>],
       c_memories =
         [\<lparr> m_id = 1, m_source = 0, m_key = ''a'', m_content_hash = ''h1'', m_kind = OTHER_KIND,
            m_occurred_at_source = TP_UNKNOWN, m_version = 1, m_is_current = True,
            m_occurred_at = None, m_ingested_at = Some 0, m_importance = None,
            m_media_type = None, m_deleted_at = None \<rparr>],
       c_events =
         [\<lparr> ev_id = 0, ev_type = ARTIFACT_OBSERVED, ev_source = 0, ev_key = ''a'',
            ev_occurred_at_source = TP_UNKNOWN, ev_seq = Some 1, ev_schema_version = 1,
            ev_content_hash = Some ''h1'', ev_occurred_at = None, ev_media_type = None,
            ev_recorded_at = Some 0 \<rparr>],
       c_artifacts = [\<lparr> art_hash = ''h1'', art_byte_size = 1, art_media_type = None \<rparr>],
       c_blobs = [(''h1'', [7])], c_chunks = [], c_mentions = [], c_evidence = [], c_tags = [],
       c_turns = [], c_attachments = [], c_jobs = [], c_next_id = 4 \<rparr>"

lemma sample_synced_eq: "sample_synced = (snd sample_sync)\<lparr> c_jobs := [] \<rparr>"
  by code_simp

definition sample_target :: item where
  "sample_target = \<lparr> it_source = 0, it_source_name = ''notes'', it_key = ''a'' \<rparr>"

lemma sample_corpus_reachable: "reachable_corpus b 1 sample_corpus"
proof -
  have "lifecycle b (empty_corpus 1) ((empty_corpus 1)\<lparr> c_sources := [sample_source], c_chunks := [],
      c_mentions := [], c_evidence := [], c_tags := [], c_turns := [], c_attachments := [] \<rparr>)"
    by (rule lifecycle.other_tables)
  then show ?thesis
    by (auto simp: reachable_corpus_def sample_corpus_def empty_corpus_def)
qed

lemma sample_synced_reachable: "reachable_corpus (\<lambda>s. s) 1 sample_synced"
proof -
  have "lifecycle (\<lambda>s. s) sample_corpus (snd sample_sync)"
    unfolding sample_sync_def by (rule lifecycle.sync)
  moreover have "lifecycle (\<lambda>s. s) (snd sample_sync) sample_synced"
    unfolding sample_synced_eq by (rule lifecycle.work) (simp_all add: queue_inv_empty)
  ultimately show ?thesis
    using sample_corpus_reachable [of "\<lambda>s. s"]
    unfolding reachable_corpus_def by (meson rtranclp.rtrancl_into_rtrancl)
qed

lemma sample_synced_inv: "corpus_inv sample_synced"
  by (rule reachable_corpus_inv [OF sample_synced_reachable])



lemma versions_are_gapless_witness:
  "versions_in_order (item_rows 0 ''a'' (c_memories sample_synced)) \<and>
   item_rows 0 ''a'' (c_memories sample_synced) \<noteq> []"
proof -
  have "item_rows 0 ''a'' (c_memories sample_synced) \<noteq> []" by code_simp
  with versions_are_gapless [OF sample_synced_reachable] show ?thesis by blast
qed

definition sample_hidden where
  "sample_hidden = tombstone (\<lambda>s. s) int 1 sample_synced"

lemma sample_hidden_runs: "sample_hidden = (Inr sample_target, snd sample_hidden)"
proof -
  have "is_ok (fst sample_hidden) \<and> projr (fst sample_hidden) = sample_target" by code_simp
  then show ?thesis by (metis is_ok_iff prod.collapse sum.sel(2))
qed

lemma tombstone_witness:
  "live_map 0 (c_memories (snd sample_hidden)) = (live_map 0 (c_memories sample_synced))(''a'' := None) \<and>
   live_map 5 (c_memories (snd sample_hidden)) = live_map 5 (c_memories sample_synced)"
  using tombstone_hides_one_item [OF sample_synced_inv sample_hidden_runs [unfolded sample_hidden_def], of 5]
  by (simp add: sample_target_def sample_hidden_def)

lemma restore_witness:
  "\<exists>c''. restore (\<lambda>s. s) int 1 (snd sample_hidden) = (Inr sample_target, c'') \<and>
     (\<forall>s. live_map s (c_memories c'') = live_map s (c_memories sample_synced))"
proof -
  have live: "live_map (it_source sample_target) (c_memories sample_synced) (it_key sample_target) = Some ''h1''"
    and bytes: "blob_exists ''h1'' sample_synced" by code_simp+
  show ?thesis
    by (rule restore_undoes_tombstone [OF sample_synced_inv
          sample_hidden_runs [unfolded sample_hidden_def] live bytes, folded sample_hidden_def])
qed

definition sample_purge where
  "sample_purge = purge (\<lambda>s. s) (\<lambda>_. False) int [sample_target] sample_synced"

lemma sample_purge_runs:
  obtains rep where "sample_purge = (Inr rep, snd sample_purge)"
proof -
  have "is_ok (fst sample_purge)" by code_simp
  then show thesis using that by (rule ok_pairE)
qed

lemma purge_removes_content_witness:
  "filter (matches_any [sample_target]) (c_memories (snd sample_purge)) = [] \<and>
   filter (\<lambda>m. blob_exists (m_content_hash m) (snd sample_purge)) (c_memories sample_synced) = []"
proof -
  obtain rep where run: "sample_purge = (Inr rep, snd sample_purge)" by (rule sample_purge_runs)
  have all: "list_all (\<lambda>m. matches_any [sample_target] m \<and>
      \<not> still_referenced (m_content_hash m) (snd sample_purge)) (c_memories sample_synced)"
    by code_simp
  from purge_removes_content [OF sample_synced_inv run [unfolded sample_purge_def]] all
  show ?thesis by (auto simp: list_all_iff sample_purge_def filter_empty_conv)
qed

lemma purge_keeps_shared_bytes_witness:
  "let c = sample_synced\<lparr> c_attachments := [(9, ''h1'')] \<rparr>;
       c' = snd (purge (\<lambda>s. s) (\<lambda>_. False) int [sample_target] c)
   in blob_exists ''h1'' c \<and> blob_exists ''h1'' c' \<and> c_memories c' = []"
proof -
  let ?c = "sample_synced\<lparr> c_attachments := [(9, ''h1'')] \<rparr>"
  have b: "blob_exists ''h1'' ?c" by code_simp
  have r: "still_referenced ''h1'' (snd (purge (\<lambda>s. s) (\<lambda>_. False) int [sample_target] ?c))" by code_simp
  have "c_memories (snd (purge (\<lambda>s. s) (\<lambda>_. False) int [sample_target] ?c)) = []" by code_simp
  with purge_keeps_shared_bytes [rule_format, OF conjI [OF b r]] b show ?thesis
    unfolding Let_def by blast
qed

lemma scope_witness:
  "\<exists>rep. fst sample_purge = Inr rep \<and> sc_memories (scope_of [sample_target] sample_synced) = pr_memories rep \<and>
     pr_memories rep = 1"
proof -
  obtain rep where run: "sample_purge = (Inr rep, snd sample_purge)" by (rule sample_purge_runs)
  have "sc_memories (scope_of [sample_target] sample_synced) = 1" by code_simp
  with scope_is_what_purge_removes [OF run [unfolded sample_purge_def]] run show ?thesis
    by (metis fst_conv)
qed

lemma purge_again_witness:
  "purge (\<lambda>s. s) (\<lambda>_. False) int [sample_target]
     (snd (purge (\<lambda>s. s) (\<lambda>_. True) int [sample_target] sample_synced)) =
   (Inl NoSuchMemory, snd (purge (\<lambda>s. s) (\<lambda>_. True) int [sample_target] sample_synced))"
proof -
  let ?p = "purge (\<lambda>s. s) (\<lambda>_. True) int [sample_target] sample_synced"
  have "\<not> is_ok (fst ?p) \<and> projl (fst ?p) = BlobsSurvived [''h1'']" by code_simp
  then have "?p = (Inl (BlobsSurvived [''h1'']), snd ?p)"
    by (metis error_pairE fst_conv sum.sel(1))
  from purge_again_is_refused [OF sample_synced_inv this] show ?thesis .
qed

lemma reingest_after_purge_witness:
  "let c2 = snd (ingest_item (\<lambda>s. s) 9 sample_source (sample_item ''a'' ''h1'') (snd sample_purge))
   in live_map 0 (c_memories c2) ''a'' = Some ''h1'' \<and> \<not> blob_exists ''h1'' c2"
proof -
  let ?i = "ingest_item (\<lambda>s. s) 9 sample_source (sample_item ''a'' ''h1'') (snd sample_purge)"
  obtain rep where run: "sample_purge = (Inr rep, snd sample_purge)" by (rule sample_purge_runs)
  have "artifact_exists ''h1'' (snd sample_purge) \<and>
      \<not> unchanged sample_source (sample_item ''a'' ''h1'') (snd sample_purge)" by code_simp
  then obtain r c2 where "?i = (Inr (Some r), c2)"
    by (elim conjE ingest_known_bytes [rotated]) (simp_all add: sample_item_def)
  then have again: "?i = (Inr (Some r), snd ?i)" by simp
  have "case c_memories sample_synced of [] \<Rightarrow> False
        | m # _ \<Rightarrow> m_content_hash m = ''h1'' \<and> matches_any [sample_target] m" by code_simp
  then obtain m where m: "m \<in> set (c_memories sample_synced)" "matches_any [sample_target] m"
    "m_content_hash m = ''h1''"
    by (auto split: list.splits)
  have unref: "\<not> still_referenced (m_content_hash m) (snd sample_purge)" unfolding m(3) by code_simp
  have same: "oi_hash (sample_item ''a'' ''h1'') = m_content_hash m" by (simp add: m(3) sample_item_def)
  from reingest_after_purge_has_no_bytes [OF sample_synced_inv run [unfolded sample_purge_def] m(1,2)
      unref [unfolded sample_purge_def] again [unfolded sample_purge_def] same] m(3)
  show ?thesis by (simp add: Let_def sample_purge_def sample_item_def sample_source_def)
qed

end
