(* ===== verification/Replay.thy ===== *)
theory Replay
  imports Deletion
begin

text \<open>
  Rebuilding the table of memories from the log: \<^verbatim>\<open>application/replay.py\<close>. Normalization reads a memory's
  blob, and a missing blob is its only failure here; what it and the embedder write to the chunks is not
  modelled, nor is the graph projection. \<open>replay_state\<close> is the part of the database the rebuild writes,
  with the report; a replay that raises leaves the rows it had committed.
\<close>

section \<open>Scope\<close>

datatype replay_stage = STAGE_ALL | STAGE_NORMALIZE | STAGE_EMBED

record replay_scope =
  rs_source_name :: "string option"
  rs_after_seq :: nat
  rs_stage :: replay_stage

definition rebuilds_memories :: "replay_scope \<Rightarrow> bool" where
  "rebuilds_memories s \<longleftrightarrow> rs_stage s = STAGE_ALL"

definition rechunks :: "replay_scope \<Rightarrow> bool" where
  "rechunks s \<longleftrightarrow> rs_stage s \<in> {STAGE_ALL, STAGE_NORMALIZE}"

definition is_complete :: "replay_scope \<Rightarrow> bool" where
  "is_complete s \<longleftrightarrow> rs_stage s = STAGE_ALL \<and> rs_source_name s = None \<and> rs_after_seq s = 0"

definition full_scope :: replay_scope where
  "full_scope = \<lparr> rs_source_name = None, rs_after_seq = 0, rs_stage = STAGE_ALL \<rparr>"

datatype replay_error =
    MissingBlob | NoSuchSourceName | MultipleResultsFound | ReplayProjection projection_error
  | NoWorkspace | PartialShadowReplay

definition resolve_source :: "string option \<Rightarrow> corpus \<Rightarrow> replay_error + nat option" where
  "resolve_source name c =
     (case name of
        None \<Rightarrow> Inr None
      | Some n \<Rightarrow>
          (case filter (\<lambda>s. src_name s = n) (c_sources c) of
             [] \<Rightarrow> Inl NoSuchSourceName
           | [s] \<Rightarrow> Inr (Some (src_id s))
           | _ # _ # _ \<Rightarrow> Inl MultipleResultsFound))"

text \<open>\<open>has_factory\<close> says whether a workspace factory was configured.\<close>

definition require_shadow :: "bool \<Rightarrow> replay_scope \<Rightarrow> replay_error + unit" where
  "require_shadow has_factory s =
     (if \<not> has_factory then Inl NoWorkspace
      else if \<not> is_complete s then Inl PartialShadowReplay else Inr ())"

section \<open>Reading the log\<close>

definition in_source :: "nat option \<Rightarrow> ingestion_event \<Rightarrow> bool" where
  "in_source source_id e \<longleftrightarrow> (case source_id of None \<Rightarrow> True | Some s \<Rightarrow> ev_source e = s)"

definition event_key :: "ingestion_event \<Rightarrow> nat \<times> string" where
  "event_key e = (ev_source e, ev_key e)"

definition stream_events :: "replay_scope \<Rightarrow> nat option \<Rightarrow> corpus \<Rightarrow> ingestion_event list" where
  "stream_events scope source_id c =
     filter (in_source source_id) (events_after (rs_after_seq scope) c)"

definition purged_keys :: "replay_scope \<Rightarrow> nat option \<Rightarrow> corpus \<Rightarrow> (nat \<times> string) set" where
  "purged_keys scope source_id c =
     set (map event_key (filter (\<lambda>e. ev_type e = ITEM_PURGED) (stream_events scope source_id c)))"

text \<open>The blobs the rebuild will need and the store does not have.\<close>

fun missing_blobs ::
  "(string \<Rightarrow> bool) \<Rightarrow> (nat \<times> string) set \<Rightarrow> string list \<Rightarrow> ingestion_event list \<Rightarrow> (string \<times> string) list"
where
  "missing_blobs present purged seen [] = []"
| "missing_blobs present purged seen (e # es) =
     (if event_key e \<in> purged then missing_blobs present purged seen es
      else case ev_content_hash e of
             None \<Rightarrow> missing_blobs present purged seen es
           | Some h \<Rightarrow>
               if h \<in> set seen then missing_blobs present purged seen es
               else (if present h then [] else [(h, ev_key e)]) @
                    missing_blobs present purged (h # seen) es)"

definition preflight_blobs :: "replay_scope \<Rightarrow> nat option \<Rightarrow> corpus \<Rightarrow> replay_error + unit" where
  "preflight_blobs scope source_id c =
     (if missing_blobs (\<lambda>h. blob_exists h c) (purged_keys scope source_id c) []
           (stream_events scope source_id c) \<noteq> [] then Inl MissingBlob else Inr ())"

section \<open>The rebuild\<close>

record replay_report =
  rp_events :: nat
  rp_observed :: nat
  rp_deleted :: nat
  rp_purged :: nat
  rp_skipped_purged :: nat
  rp_memories :: nat
  rp_normalized :: nat

record replay_state =
  rb_memories :: "memory list"
  rb_next_id :: nat
  rb_report :: replay_report

definition empty_replay_report :: replay_report where
  "empty_replay_report = \<lparr> rp_events = 0, rp_observed = 0, rp_deleted = 0, rp_purged = 0,
     rp_skipped_purged = 0, rp_memories = 0, rp_normalized = 0 \<rparr>"

definition replay_observed ::
  "(string \<Rightarrow> bool) \<Rightarrow> ingestion_event \<Rightarrow> replay_state \<Rightarrow> replay_error option \<times> replay_state" where
  "replay_observed present e st =
     (let mid = rb_next_id st; st1 = st\<lparr> rb_next_id := Suc mid \<rparr>; rep = rb_report st
      in case memory_from_event e mid of
           Inl x \<Rightarrow> (Some (ReplayProjection x), st1)
         | Inr m \<Rightarrow>
             let rep2 = rep\<lparr> rp_observed := Suc (rp_observed rep), rp_memories := Suc (rp_memories rep) \<rparr>;
                 st2 = st1\<lparr> rb_memories := add_version m (rb_memories st1), rb_report := rep2 \<rparr>
             in if present (m_content_hash m)
                then (None, st2\<lparr> rb_report := rep2\<lparr> rp_normalized := Suc (rp_normalized rep2) \<rparr> \<rparr>)
                else (Some MissingBlob, st2))"

definition replay_tombstone ::
  "ingestion_event \<Rightarrow> replay_state \<Rightarrow> replay_error option \<times> replay_state" where
  "replay_tombstone e st =
     (case current_row (ev_source e) (ev_key e) (rb_memories st) of
        None \<Rightarrow> (None, st)
      | Some current \<Rightarrow>
          (case recorded_at_of e of
             Inl x \<Rightarrow> (Some (ReplayProjection x), st)
           | Inr t \<Rightarrow>
               (None, st\<lparr> rb_memories := tombstone_row (m_id current) t (rb_memories st),
                          rb_report := (rb_report st)\<lparr> rp_deleted := Suc (rp_deleted (rb_report st)) \<rparr> \<rparr>)))"

definition replay_event ::
  "(string \<Rightarrow> bool) \<Rightarrow> (nat \<times> string) set \<Rightarrow> ingestion_event \<Rightarrow> replay_state \<Rightarrow>
   replay_error option \<times> replay_state" where
  "replay_event present purged e st0 =
     (let st = st0\<lparr> rb_report := (rb_report st0)\<lparr> rp_events := Suc (rp_events (rb_report st0)) \<rparr> \<rparr>;
          rep = rb_report st
      in if event_key e \<in> purged then
           (None, st\<lparr> rb_report :=
              (if ev_type e = ITEM_PURGED then rep\<lparr> rp_purged := Suc (rp_purged rep) \<rparr>
               else rep\<lparr> rp_skipped_purged := Suc (rp_skipped_purged rep) \<rparr>) \<rparr>)
         else case ev_type e of
                ARTIFACT_OBSERVED \<Rightarrow> replay_observed present e st
              | ITEM_DELETED \<Rightarrow> replay_tombstone e st
              | ITEM_PURGED \<Rightarrow> (None, st\<lparr> rb_report := rep\<lparr> rp_purged := Suc (rp_purged rep) \<rparr> \<rparr>))"

fun rebuild ::
  "(string \<Rightarrow> bool) \<Rightarrow> (nat \<times> string) set \<Rightarrow> ingestion_event list \<Rightarrow> replay_state \<Rightarrow>
   replay_error option \<times> replay_state" where
  "rebuild present purged [] st = (None, st)"
| "rebuild present purged (e # es) st =
     (case replay_event present purged e st of
        (Some x, st') \<Rightarrow> (Some x, st')
      | (None, st') \<Rightarrow> rebuild present purged es st')"

text \<open>The rows a replay clears before it rebuilds them.\<close>

definition clear_memories :: "replay_scope \<Rightarrow> nat option \<Rightarrow> corpus \<Rightarrow> memory list" where
  "clear_memories scope source_id c =
     (if rs_stage scope \<noteq> STAGE_ALL then c_memories c
      else case source_id of
             None \<Rightarrow> []
           | Some s \<Rightarrow> filter (\<lambda>m. m_source m \<noteq> s) (c_memories c))"

definition in_place :: "replay_scope \<Rightarrow> corpus \<Rightarrow> replay_error option \<times> replay_state" where
  "in_place scope c =
     (let st0 = \<lparr> rb_memories = c_memories c, rb_next_id = c_next_id c, rb_report = empty_replay_report \<rparr>
      in case resolve_source (rs_source_name scope) c of
           Inl x \<Rightarrow> (Some x, st0)
         | Inr source_id \<Rightarrow>
             if rebuilds_memories scope then
               (case preflight_blobs scope source_id c of
                  Inl x \<Rightarrow> (Some x, st0)
                | Inr _ \<Rightarrow>
                    rebuild (\<lambda>h. blob_exists h c) (purged_keys scope source_id c)
                      (stream_events scope source_id c)
                      (st0\<lparr> rb_memories := clear_memories scope source_id c \<rparr>))
             else (None, st0))"

section \<open>Skipping keys and the specification\<close>

definition outside :: "(nat \<times> string) set \<Rightarrow> memory list \<Rightarrow> memory list" where
  "outside p ms = filter (\<lambda>m. (m_source m, m_key m) \<notin> p) ms"

lemma outside_update_where:
  assumes "\<And>r. (m_source (f r), m_key (f r)) = (m_source r, m_key r)"
  shows "outside p (update_where q f ms) = update_where q f (outside p ms)"
  using assms by (induction ms) (auto simp: outside_def)

lemma outside_append [simp]: "outside p (xs @ ys) = outside p xs @ outside p ys"
  by (simp add: outside_def)

lemma current_row_outside: "(s, k) \<notin> p \<Longrightarrow> current_row s k (outside p ms) = current_row s k ms"
  by (induction ms) (auto simp: current_row_def outside_def same_item_def)

lemma update_where_inside:
  assumes "(s, k) \<in> p"
  shows "update_where (\<lambda>r. same_item s k r \<and> q r) f (outside p ms) = outside p ms"
  using assms by (intro update_where_none) (auto simp: outside_def same_item_def)

lemma outside_supersede:
  "outside p (supersede m ms) =
   (if (m_source m, m_key m) \<in> p then outside p ms else supersede m (outside p ms))"
  by (simp add: supersede_def outside_update_where update_where_inside current_row_outside)
     (simp add: outside_def)

lemma outside_bury:
  "outside p (bury s k t ms) = (if (s, k) \<in> p then outside p ms else bury s k t (outside p ms))"
  by (simp add: bury_def outside_update_where update_where_inside)

lemma outside_project_event:
  "outside p (project_event e ms) =
   (if event_key e \<in> p then outside p ms else project_event e (outside p ms))"
proof (cases "ev_type e")
  case ARTIFACT_OBSERVED
  then show ?thesis
    using memory_from_event_Inr(3,4) [of e 0]
    by (auto simp: project_event_def outside_supersede event_key_def split: sum.split)
next
  case ITEM_DELETED
  then show ?thesis
    by (auto simp: project_event_def outside_bury event_key_def split: sum.split)
next
  case ITEM_PURGED
  then show ?thesis
    by (auto simp: project_event_def outside_def event_key_def same_item_def intro!: filter_cong)
qed

text \<open>Leaving out every event of some keys leaves out exactly the rows of those keys.\<close>

lemma outside_project_events:
  "outside p (project_events es ms) = project_events (filter (\<lambda>e. event_key e \<notin> p) es) (outside p ms)"
  by (induction es arbitrary: ms)
     (simp_all add: project_events_Cons outside_project_event, simp add: project_events_def)

section \<open>The rebuild follows the specification\<close>

lemma bury_absent: "current_row s k ms = None \<Longrightarrow> bury s k t ms = ms"
  unfolding bury_def by (rule update_where_none) (auto simp: current_row_def find_None_iff)

definition rows_fresh :: "replay_state \<Rightarrow> bool" where
  "rows_fresh st \<longleftrightarrow> memories_ok (rb_memories st) \<and> (\<forall>m \<in> set (rb_memories st). m_id m < rb_next_id st)"

definition replayable :: "(string \<Rightarrow> bool) \<Rightarrow> (nat \<times> string) set \<Rightarrow> ingestion_event \<Rightarrow> bool" where
  "replayable present purged e \<longleftrightarrow>
     event_ok e \<and> (event_key e \<notin> purged \<longrightarrow>
       ev_type e \<noteq> ITEM_PURGED \<and> (\<forall>h. ev_content_hash e = Some h \<longrightarrow> present h))"

lemma replay_event_step:
  assumes "rows_fresh st" and "replayable present purged e"
  obtains st' where "replay_event present purged e st = (None, st')" and "rows_fresh st'"
    and "map erase (rb_memories st') =
      (if event_key e \<in> purged then map erase (rb_memories st)
       else project_event e (map erase (rb_memories st)))"
    and "rp_events (rb_report st') = Suc (rp_events (rb_report st))"
proof (cases "event_key e \<in> purged")
  case True
  then show thesis
    using assms(1) by (intro that [of "snd (replay_event present purged e st)"])
      (auto simp: replay_event_def Let_def rows_fresh_def)
next
  case False
  have ok: "memories_ok (rb_memories st)" and ids: "\<forall>m \<in> set (rb_memories st). m_id m < rb_next_id st"
    using assms(1) by (auto simp: rows_fresh_def)
  from False assms(2) have e: "event_ok e" "ev_type e \<noteq> ITEM_PURGED"
    "\<And>h. ev_content_hash e = Some h \<Longrightarrow> present h" by (auto simp: replayable_def)
  show thesis
  proof (cases "ev_type e")
    case ARTIFACT_OBSERVED
    then obtain m0 where m0: "memory_from_event e 0 = Inr m0" using e(1) by (auto simp: event_ok_def is_ok_iff)
    define m where "m = m0\<lparr> m_id := rb_next_id st \<rparr>"
    have m: "memory_from_event e (rb_next_id st) = Inr m"
      unfolding m_def by (rule memory_from_event_id [OF m0])
    have here: "present (m_content_hash m)" by (rule e(3) [OF memory_from_event_Inr(5) [OF m]])
    have fresh: "m_id m \<notin> m_id ` set (rb_memories st)"
      using ids by (auto simp: memory_from_event_Inr(1) [OF m])
    have ids': "m_id x < Suc (rb_next_id st)" if "x \<in> set (supersede m (rb_memories st))" for x
      using ids_supersede [OF that] ids by (auto simp: memory_from_event_Inr(1) [OF m] less_SucI)
    show thesis
      by (rule that [of "snd (replay_event present purged e st)"])
         (use ARTIFACT_OBSERVED False m here ids' memories_ok_supersede [OF ok fresh] in
          \<open>simp_all add: replay_event_def replay_observed_def Let_def rows_fresh_def
             add_version_supersede [OF ok] project_observed [OF ARTIFACT_OBSERVED m]\<close>)
  next
    case ITEM_DELETED
    from e(1) obtain t where t: "recorded_at_of e = Inr t"
      by (auto simp: event_ok_def recorded_at_of_def)
    show thesis
    proof (cases "current_row (ev_source e) (ev_key e) (rb_memories st)")
      case None
      show thesis
        by (rule that [of "snd (replay_event present purged e st)"])
           (use ITEM_DELETED False None assms(1) t in
            \<open>simp_all add: replay_event_def replay_tombstone_def Let_def rows_fresh_def
               project_event_def erase_bury [symmetric] bury_absent [OF None]\<close>)
    next
      case (Some r)
      have ids': "m_id x < rb_next_id st" if "x \<in> set (bury (ev_source e) (ev_key e) t (rb_memories st))" for x
        using that ids by (auto simp: bury_def set_update_where)
      show thesis
        by (rule that [of "snd (replay_event present purged e st)"])
           (use ITEM_DELETED False Some ids' t memories_ok_bury [OF ok] in
            \<open>simp_all add: replay_event_def replay_tombstone_def Let_def rows_fresh_def
               project_event_def erase_bury tombstone_bury [OF ok Some]\<close>)
    qed
  qed (use e(2) in simp)
qed

lemma rebuild_spec:
  assumes "rows_fresh st" and "\<forall>e \<in> set es. replayable present purged e"
  obtains st' where "rebuild present purged es st = (None, st')"
    and "map erase (rb_memories st') =
      project_events (filter (\<lambda>e. event_key e \<notin> purged) es) (map erase (rb_memories st))"
    and "rp_events (rb_report st') = rp_events (rb_report st) + length es"
  using assms
proof (induction es arbitrary: st thesis)
  case Nil
  then show thesis by (simp add: project_events_def)
next
  case (Cons e es)
  obtain st1 where one: "replay_event present purged e st = (None, st1)" "rows_fresh st1"
    "map erase (rb_memories st1) =
      (if event_key e \<in> purged then map erase (rb_memories st)
       else project_event e (map erase (rb_memories st)))"
    "rp_events (rb_report st1) = Suc (rp_events (rb_report st))"
    using replay_event_step [OF Cons.prems(2), of present purged e] Cons.prems(3) by auto
  obtain st' where "rebuild present purged es st1 = (None, st')"
    "map erase (rb_memories st') =
      project_events (filter (\<lambda>e. event_key e \<notin> purged) es) (map erase (rb_memories st1))"
    "rp_events (rb_report st') = rp_events (rb_report st1) + length es"
    by (rule Cons.IH [OF _ one(2)]) (use Cons.prems(3) in auto)
  with one show thesis
    by (intro Cons.prems(1)) (auto simp: project_events_Cons)
qed

lemma missing_blobs_Nil:
  assumes "missing_blobs present purged seen es = []" and "e \<in> set es" and "event_key e \<notin> purged"
    and "ev_content_hash e = Some h"
  shows "h \<in> set seen \<or> present h"
  using assms by (induction present purged seen es rule: missing_blobs.induct)
     (auto split: option.splits if_splits)

lemma stream_full:
  assumes "log_ok (c_events c)"
  shows "stream_events full_scope None c = c_events c"
proof -
  have "ev_seq e \<noteq> None \<and> ev_seq e \<noteq> Some 0" if "e \<in> set (c_events c)" for e
  proof -
    from that have "ev_seq e \<in> set (map ev_seq (c_events c))" by simp
    also have "map ev_seq (c_events c) = map (\<lambda>i. Some (Suc i)) [0..<length (c_events c)]"
      using assms by (simp add: log_ok_def)
    finally show ?thesis by auto
  qed
  then have "filter (\<lambda>e. case ev_seq e of None \<Rightarrow> False | Some s \<Rightarrow> 0 < s) (c_events c) = c_events c"
    by (intro filter_True) (fastforce split: option.split intro!: gr0I)
  then show ?thesis
    by (simp add: stream_events_def events_after_def full_scope_def in_source_def filter_id_conv)
qed

lemma preflight_replayable:
  assumes "corpus_inv c" and "preflight_blobs full_scope None c = Inr ()"
  shows "\<forall>e \<in> set (c_events c).
    replayable (\<lambda>h. blob_exists h c) (purged_keys full_scope None c) e"
proof
  fix e
  assume e: "e \<in> set (c_events c)"
  note stream = stream_full [OF corpus_invD(3) [OF assms(1)]]
  have "event_ok e" using corpus_invD(3) [OF assms(1)] e by (simp add: log_ok_def)
  moreover have "ev_type e = ITEM_PURGED \<Longrightarrow> event_key e \<in> purged_keys full_scope None c"
    using e by (auto simp: purged_keys_def stream)
  moreover have "missing_blobs (\<lambda>h. blob_exists h c) (purged_keys full_scope None c) [] (c_events c) = []"
    using assms(2) by (simp add: preflight_blobs_def stream split: if_splits)
  ultimately show "replayable (\<lambda>h. blob_exists h c) (purged_keys full_scope None c) e"
    using missing_blobs_Nil e by (fastforce simp: replayable_def)
qed

lemma full_replay:
  assumes inv: "corpus_inv c" and pre: "preflight_blobs full_scope None c = Inr ()"
  obtains st where "in_place full_scope c = (None, st)"
    and "map erase (rb_memories st) =
      outside (purged_keys full_scope None c) (map erase (c_memories c))"
    and "rp_events (rb_report st) = length (c_events c)"
proof -
  let ?p = "purged_keys full_scope None c"
  let ?st = "\<lparr> rb_memories = [], rb_next_id = c_next_id c, rb_report = empty_replay_report \<rparr>"
  have fresh: "rows_fresh ?st" by (simp add: rows_fresh_def memories_ok_def)
  obtain st where run: "rebuild (\<lambda>h. blob_exists h c) ?p (c_events c) ?st = (None, st)"
    and rows: "map erase (rb_memories st) = project_events (filter (\<lambda>e. event_key e \<notin> ?p) (c_events c)) []"
    and n: "rp_events (rb_report st) = length (c_events c)"
    by (rule rebuild_spec [OF fresh preflight_replayable [OF inv pre]])
       (auto simp: empty_replay_report_def)
  have "in_place full_scope c = (None, st)"
    using pre run stream_full [OF corpus_invD(3) [OF inv]]
    by (simp add: in_place_def full_scope_def resolve_source_def rebuilds_memories_def
        clear_memories_def Let_def)
  moreover have "map erase (rb_memories st) = outside ?p (map erase (c_memories c))"
    using outside_project_events [of ?p "c_events c" "[]"]
    by (simp add: rows corpus_invD(2) [OF inv]) (simp add: outside_def)
  ultimately show thesis using n by (rule that)
qed

text \<open>No event for an item follows its purge.\<close>

fun purges_final :: "ingestion_event list \<Rightarrow> bool" where
  "purges_final [] = True"
| "purges_final (e # es) =
     ((ev_type e = ITEM_PURGED \<longrightarrow> list_all (\<lambda>e'. event_key e' \<noteq> event_key e) es) \<and> purges_final es)"

definition no_rows :: "nat \<times> string \<Rightarrow> memory list \<Rightarrow> bool" where
  "no_rows k ms \<longleftrightarrow> (\<forall>m \<in> set ms. (m_source m, m_key m) \<noteq> k)"

lemma no_rows_outside: "no_rows k ms \<longleftrightarrow> outside {k} ms = ms"
  by (auto simp: no_rows_def outside_def filter_id_conv)

lemma no_rows_project_events:
  "no_rows k ms \<Longrightarrow> \<forall>e \<in> set es. event_key e \<noteq> k \<Longrightarrow> no_rows k (project_events es ms)"
  using outside_project_events [of "{k}" es ms]
  by (simp add: no_rows_outside filter_id_conv)

lemma purged_no_rows:
  assumes "purges_final es" and "e \<in> set es" and "ev_type e = ITEM_PURGED"
  shows "no_rows (event_key e) (project_events es ms)"
  using assms
proof (induction es arbitrary: ms)
  case (Cons x es)
  show ?case
  proof (cases "e \<in> set es")
    case True
    with Cons show ?thesis by (simp add: project_events_Cons)
  next
    case False
    with Cons.prems have x: "x = e" by simp
    have "no_rows (event_key e) (project_event e ms)"
      using Cons.prems(3) by (auto simp: project_event_def no_rows_def event_key_def same_item_def)
    moreover have "\<forall>e' \<in> set es. event_key e' \<noteq> event_key e"
      using Cons.prems by (auto simp: x list_all_iff)
    ultimately show ?thesis by (simp add: project_events_Cons x no_rows_project_events)
  qed
qed simp

section \<open>Properties\<close>



text \<open>A replay that finds a needed blob missing stops before anything is cleared.\<close>

theorem preflight_stops_before_clearing:
  assumes "preflight_blobs full_scope None c \<noteq> Inr ()"
  shows "fst (in_place full_scope c) = Some MissingBlob \<and>
         rb_memories (snd (in_place full_scope c)) = c_memories c"
  using assms
  by (auto simp: in_place_def resolve_source_def rebuilds_memories_def full_scope_def
      preflight_blobs_def Let_def)

section \<open>Evidence across a replay\<close>

text \<open>
  Evidence rows hang on memories by a cascading foreign key, so a replay takes them out beforehand, as
  their natural keys, and puts them back afterwards. \<open>linked_memory\<close> carries the name of a memory's
  source beside its row, as the join does.
\<close>

record evidence_link =
  ln_table :: string
  ln_owner :: nat
  ln_source_name :: string
  ln_key :: string
  ln_ordinal :: "nat option"
  ln_columns :: "(string \<times> string) list"

record evidence_row =
  er_link :: evidence_link
  er_memory :: nat
  er_chunk :: "nat option"

definition EVIDENCE_TABLES :: "string list" where
  "EVIDENCE_TABLES = [''decision_evidence'', ''outcome_evidence'', ''assumption_evidence'']"

definition preserve_evidence :: "evidence_row list \<Rightarrow> evidence_link list \<times> evidence_row list" where
  "preserve_evidence rows =
     (concat (map (\<lambda>name. map er_link (filter (\<lambda>r. ln_table (er_link r) = name) rows)) EVIDENCE_TABLES),
      filter (\<lambda>r. ln_table (er_link r) \<notin> set EVIDENCE_TABLES) rows)"

definition live_by_name :: "corpus \<Rightarrow> ((string \<times> string) \<times> nat) list" where
  "live_by_name c =
     concat (map (\<lambda>m. case source_get (m_source m) c of
                        None \<Rightarrow> []
                      | Some s \<Rightarrow> [((src_name s, m_key m), m_id m)])
       (filter (\<lambda>m. m_is_current m \<and> m_deleted_at m = None) (c_memories c)))"

definition chunks_by_ordinal :: "corpus \<Rightarrow> ((nat \<times> nat) \<times> nat) list" where
  "chunks_by_ordinal c = map (\<lambda>r. ((ck_memory r, ck_ordinal r), ck_id r)) (c_chunks c)"

text \<open>A dict built from rows keeps the last value of a key.\<close>

definition relink :: "corpus \<Rightarrow> evidence_link \<Rightarrow> evidence_row option" where
  "relink c l =
     (case map_of (rev (live_by_name c)) (ln_source_name l, ln_key l) of
        None \<Rightarrow> None
      | Some mid \<Rightarrow>
          (case ln_ordinal l of
             None \<Rightarrow> Some \<lparr> er_link = l, er_memory = mid, er_chunk = None \<rparr>
           | Some ord \<Rightarrow>
               (case map_of (rev (chunks_by_ordinal c)) (mid, ord) of
                  None \<Rightarrow> None
                | Some ck \<Rightarrow> Some \<lparr> er_link = l, er_memory = mid, er_chunk = Some ck \<rparr>)))"

fun restore_evidence :: "corpus \<Rightarrow> evidence_link list \<Rightarrow> evidence_row list \<Rightarrow> nat \<times> evidence_row list" where
  "restore_evidence c [] rows = (0, rows)"
| "restore_evidence c (l # ls) rows =
     (case relink c l of
        None \<Rightarrow> restore_evidence c ls rows
      | Some r \<Rightarrow> (let (n, rows') = restore_evidence c ls (rows @ [r]) in (Suc n, rows')))"

lemma restore_evidence_eq:
  "restore_evidence c ls rows =
   (length (List.map_filter (relink c) ls), rows @ List.map_filter (relink c) ls)"
  by (induction ls arbitrary: rows) (auto simp: List.map_filter_simps split: option.split)

lemma preserve_all:
  assumes "\<And>r. r \<in> set rows \<Longrightarrow> ln_table (er_link r) \<in> set EVIDENCE_TABLES"
  shows "mset (fst (preserve_evidence rows)) = mset (map er_link rows)"
    and "snd (preserve_evidence rows) = []"
proof -
  show "snd (preserve_evidence rows) = []"
    using assms by (simp add: preserve_evidence_def filter_empty_conv)
  show "mset (fst (preserve_evidence rows)) = mset (map er_link rows)"
    using assms
    by (induction rows) (fastforce simp: preserve_evidence_def EVIDENCE_TABLES_def)+
qed

text \<open>A replay that finds a link's memory and chunk again restores the link with its owner, natural key
  and carried columns unchanged: the rows afterwards are, as links, exactly the preserved ones whose
  target is live, and their number is the one reported.\<close>

theorem evidence_survives_by_natural_key:
  assumes "\<forall>r \<in> set rows. ln_table (er_link r) \<in> set EVIDENCE_TABLES"
  shows "mset (map er_link (snd (restore_evidence c (fst (preserve_evidence rows)) (snd (preserve_evidence rows))))) =
         filter_mset (\<lambda>l. relink c l \<noteq> None) (mset (map er_link rows)) \<and>
         fst (restore_evidence c (fst (preserve_evidence rows)) (snd (preserve_evidence rows))) =
         size (filter_mset (\<lambda>l. relink c l \<noteq> None) (mset (map er_link rows)))"
proof -
  have link: "er_link r = l" if "relink c l = Some r" for l r
    using that by (auto simp: relink_def split: option.splits)
  have map: "map er_link (List.map_filter (relink c) ls) = filter (\<lambda>l. relink c l \<noteq> None) ls" for ls
    by (induction ls) (auto simp: List.map_filter_simps link split: option.split)
  have "mset (map er_link (List.map_filter (relink c) ls)) = filter_mset (\<lambda>l. relink c l \<noteq> None) (mset ls)" for ls
    by (simp only: map mset_filter)
  moreover have "length (List.map_filter (relink c) ls) = size (filter_mset (\<lambda>l. relink c l \<noteq> None) (mset ls))" for ls
    by (metis calculation length_map size_mset)
  ultimately show ?thesis
    using preserve_all [of rows] assms by (simp add: restore_evidence_eq)
qed

text \<open>The whole of \<^verbatim>\<open>ReplayCorpus.__call__\<close> around its rebuild \<open>body\<close>: on failure the links that still
  resolve are put back, and the failure is raised.\<close>

definition with_evidence ::
  "(corpus \<Rightarrow> replay_error option \<times> corpus) \<Rightarrow> corpus \<Rightarrow> evidence_row list \<Rightarrow>
   (replay_error + nat \<times> nat) \<times> corpus \<times> evidence_row list" where
  "with_evidence body c rows =
     (let (preserved, rest) = preserve_evidence rows
      in case body c of
           (Some x, c') \<Rightarrow> (Inl x, c', snd (restore_evidence c' preserved rest))
         | (None, c') \<Rightarrow>
             let (n, rows') = restore_evidence c' preserved rest
             in (Inr (length preserved, n), c', rows'))"

text \<open>Finding: a replay refused before it changes anything is said to put every link back, and does not.
  A link to an item that is out of view resolves to nothing, so a refused replay deletes it for good.\<close>

theorem refused_replay_can_lose_evidence:
  assumes "ln_table (er_link r) \<in> set EVIDENCE_TABLES"
    and "\<forall>m \<in> set (c_memories c). m_deleted_at m \<noteq> None" and "body c = (Some PartialShadowReplay, c)"
  shows "with_evidence body c [r] = (Inl PartialShadowReplay, c, [])"
proof -
  have "live_by_name c = []" using assms(2) by (auto simp: live_by_name_def filter_empty_conv)
  then have none: "relink c l = None" for l by (simp add: relink_def)
  have "fst (preserve_evidence [r]) = [er_link r]" "snd (preserve_evidence [r]) = []"
    using assms(1) by (auto simp: preserve_evidence_def EVIDENCE_TABLES_def)
  then show ?thesis
    using assms(3) by (simp add: with_evidence_def case_prod_beta none)
qed

text \<open>Finding: an item observed again after its purge lives in the corpus, and a complete replay drops it:
  every event of a purged key is skipped, those after the purge included.\<close>

theorem replay_drops_reobserved_items:
  assumes "reachable_corpus b me c" and "preflight_blobs full_scope None c = Inr ()"
    and "m \<in> set (c_memories c)" and "e \<in> set (c_events c)" and "ev_type e = ITEM_PURGED"
    and "event_key e = (m_source m, m_key m)"
  shows "\<exists>st. in_place full_scope c = (None, st) \<and>
    item_rows (m_source m) (m_key m) (rb_memories st) = [] \<and>
    item_rows (m_source m) (m_key m) (c_memories c) \<noteq> []"
proof -
  have inv: "corpus_inv c" by (rule reachable_corpus_inv [OF assms(1)])
  have purged: "(m_source m, m_key m) \<in> purged_keys full_scope None c"
    using assms(4-6) by (auto simp: purged_keys_def stream_full [OF corpus_invD(3) [OF inv]] image_iff)
  obtain st where st: "in_place full_scope c = (None, st)"
    "map erase (rb_memories st) = outside (purged_keys full_scope None c) (map erase (c_memories c))"
    by (rule full_replay [OF inv assms(2)])
  have "\<not> same_item (m_source m) (m_key m) x" if "x \<in> set (rb_memories st)" for x
  proof -
    from that have "erase x \<in> set (map erase (rb_memories st))" by simp
    with st(2) have "erase x \<in> set (outside (purged_keys full_scope None c) (map erase (c_memories c)))"
      by simp
    then show ?thesis using purged by (auto simp: outside_def same_item_def)
  qed
  then have "item_rows (m_source m) (m_key m) (rb_memories st) = []"
    by (simp add: item_rows_def filter_empty_conv)
  moreover have "item_rows (m_source m) (m_key m) (c_memories c) \<noteq> []"
    using assms(3) by (auto simp: item_rows_def filter_empty_conv intro!: bexI [of _ m])
  ultimately show ?thesis using st(1) by blast
qed

section \<open>Witnesses\<close>

definition sample_purged :: corpus where
  "sample_purged = sample_synced\<lparr> c_memories := [],
     c_events := c_events sample_synced @
       [\<lparr> ev_id = 4, ev_type = ITEM_PURGED, ev_source = 0, ev_key = ''a'',
          ev_occurred_at_source = TP_UNKNOWN, ev_seq = Some 2, ev_schema_version = 1,
          ev_content_hash = None, ev_occurred_at = None, ev_media_type = None,
          ev_recorded_at = Some 4 \<rparr>],
     c_blobs := [], c_next_id := 6 \<rparr>"

lemma sample_purged_eq:
  "sample_purged = (snd (purge_memory (\<lambda>s. s) (\<lambda>_. False) int 1 sample_synced))\<lparr> c_jobs := [] \<rparr>"
  by code_simp

lemma sample_purged_reachable: "reachable_corpus (\<lambda>s. s) 1 sample_purged"
proof -
  have "lifecycle (\<lambda>s. s) sample_synced (snd (purge_memory (\<lambda>s. s) (\<lambda>_. False) int 1 sample_synced))"
    by (rule lifecycle.purge_memory)
  moreover have "lifecycle (\<lambda>s. s) (snd (purge_memory (\<lambda>s. s) (\<lambda>_. False) int 1 sample_synced)) sample_purged"
    unfolding sample_purged_eq by (rule lifecycle.work) (simp_all add: queue_inv_empty)
  ultimately show ?thesis
    using sample_synced_reachable unfolding reachable_corpus_def by (meson rtranclp.rtrancl_into_rtrancl)
qed

definition sample_reobserved :: corpus where
  "sample_reobserved =
     snd (in_transaction (ingest_item (\<lambda>s. s) 9 sample_source (sample_item ''a'' ''h2'')) sample_purged)"

lemma sample_reobserved_reachable: "reachable_corpus (\<lambda>s. s) 1 sample_reobserved"
  using sample_purged_reachable unfolding reachable_corpus_def sample_reobserved_def
  by (rule rtranclp.rtrancl_into_rtrancl) (rule lifecycle.ingest)



lemma preflight_stops_witness:
  "rb_memories (snd (in_place full_scope (sample_synced\<lparr> c_blobs := [] \<rparr>))) = c_memories sample_synced"
proof -
  have "preflight_blobs full_scope None (sample_synced\<lparr> c_blobs := [] \<rparr>) \<noteq> Inr ()" by code_simp
  from preflight_stops_before_clearing [OF this] show ?thesis by simp
qed

lemma replay_drops_witness:
  "\<exists>st. in_place full_scope sample_reobserved = (None, st) \<and>
    item_rows 0 ''a'' (rb_memories st) = [] \<and> item_rows 0 ''a'' (c_memories sample_reobserved) \<noteq> []"
proof -
  have pre: "preflight_blobs full_scope None sample_reobserved = Inr ()" by code_simp
  have "case c_memories sample_reobserved of [] \<Rightarrow> False | m # _ \<Rightarrow> m_source m = 0 \<and> m_key m = ''a''"
    by code_simp
  then obtain m where m: "m \<in> set (c_memories sample_reobserved)" "m_source m = 0" "m_key m = ''a''"
    by (auto split: list.splits)
  have "list_ex (\<lambda>e. ev_type e = ITEM_PURGED \<and> event_key e = (0, ''a'')) (c_events sample_reobserved)"
    by code_simp
  then obtain e where "e \<in> set (c_events sample_reobserved)" "ev_type e = ITEM_PURGED"
    "event_key e = (m_source m, m_key m)" by (auto simp: list_ex_iff m)
  from replay_drops_reobserved_items [OF sample_reobserved_reachable pre m(1) this] show ?thesis
    by (simp add: m)
qed

definition sample_link :: evidence_row where
  "sample_link = \<lparr> er_link = \<lparr> ln_table = ''decision_evidence'', ln_owner = 3, ln_source_name = ''notes'',
     ln_key = ''a'', ln_ordinal = None, ln_columns = [(''relation'', ''supports'')] \<rparr>, er_memory = 1, er_chunk = None \<rparr>"

lemma evidence_survives_witness:
  "snd (restore_evidence sample_synced [er_link sample_link] []) \<noteq> [] \<and>
   fst (restore_evidence sample_synced [er_link sample_link] []) = 1"
proof -
  have "\<forall>r \<in> set [sample_link]. ln_table (er_link r) \<in> set EVIDENCE_TABLES"
    by (simp add: sample_link_def EVIDENCE_TABLES_def)
  from evidence_survives_by_natural_key [OF this, of sample_synced]
  have "fst (restore_evidence sample_synced (fst (preserve_evidence [sample_link])) (snd (preserve_evidence [sample_link]))) =
      size (filter_mset (\<lambda>l. relink sample_synced l \<noteq> None) (mset (map er_link [sample_link])))"
    by blast
  moreover have "relink sample_synced (er_link sample_link) \<noteq> None" by code_simp
  moreover have "preserve_evidence [sample_link] = ([er_link sample_link], [])"
    by (simp add: preserve_evidence_def EVIDENCE_TABLES_def sample_link_def)
  moreover have "snd (restore_evidence sample_synced [er_link sample_link] []) \<noteq> []" by code_simp
  ultimately show ?thesis by simp
qed

lemma refused_replay_witness:
  "with_evidence (\<lambda>c. (Some PartialShadowReplay, c)) sample_purged [sample_link] =
   (Inl PartialShadowReplay, sample_purged, [])"
  by (rule refused_replay_can_lose_evidence)
     (simp_all add: sample_link_def EVIDENCE_TABLES_def sample_purged_def)

end
