(* ===== verification/Citation.thy ===== *)
theory Citation
  imports Pystring
begin

text \<open>
  \<^verbatim>\<open>domain/citation.py\<close>: the window of text shown around a cited span, and the locator that names the span.
  The regular expression for a boundary is written out as a scan that returns its matches as pairs of
  offsets. The number of context characters is a natural number, as every caller passes.
\<close>

section \<open>Excerpts\<close>

record excerpt =
  ex_text :: string
  ex_span_start :: nat
  ex_span_end :: nat
  ex_truncated_start :: bool
  ex_truncated_end :: bool

definition excerpt_span :: "excerpt \<Rightarrow> string" where
  "excerpt_span e = slice (ex_text e) (ex_span_start e) (ex_span_end e)"

definition newline :: char where
  "newline = CHR 0x0A"

definition ends_sentence :: "char option \<Rightarrow> bool" where
  "ends_sentence previous \<longleftrightarrow> previous \<in> {Some (CHR ''.''), Some (CHR ''!''), Some (CHR ''?'')}"

text \<open>The matches of \<^verbatim>\<open>_BOUNDARY\<close> in \<open>s\<close>, which starts at offset \<open>i\<close> and is preceded by \<open>previous\<close>.\<close>

fun boundary_matches :: "nat \<Rightarrow> char option \<Rightarrow> string \<Rightarrow> (nat \<times> nat) list" where
  "boundary_matches i previous [] = []"
| "boundary_matches i previous (c # d # s) =
     (if c = newline \<and> d = newline then (i, i + 2) # boundary_matches (i + 2) (Some d) s
      else if c = newline \<or> ends_sentence previous \<and> is_space c
           then (i, i + 1) # boundary_matches (i + 1) (Some c) (d # s)
           else boundary_matches (i + 1) (Some c) (d # s))"
| "boundary_matches i previous [c] =
     (if c = newline \<or> ends_sentence previous \<and> is_space c then [(i, i + 1)] else [])"

definition finditer :: "string \<Rightarrow> nat \<Rightarrow> (nat \<times> nat) list" where
  "finditer region pos =
     boundary_matches pos (case rev (take pos region) of [] \<Rightarrow> None | c # _ \<Rightarrow> Some c) (drop pos region)"

definition search_boundary :: "string \<Rightarrow> (nat \<times> nat) option" where
  "search_boundary s = (case finditer s 0 of [] \<Rightarrow> None | match # _ \<Rightarrow> Some match)"

definition BOUNDARY_SEARCH :: nat where
  "BOUNDARY_SEARCH = 120"

definition snap_start :: "string \<Rightarrow> nat \<Rightarrow> nat \<Rightarrow> nat" where
  "snap_start doc window_start span_start =
     (if window_start \<le> 0 then 0
      else
        let region = slice doc window_start span_start;
            reach = max 1 (length region div 2)
        in case search_boundary (take reach region) of
             Some (_, match_end) \<Rightarrow> window_start + match_end
           | None \<Rightarrow>
               (case find_char (CHR '' '') region of
                  Some space \<Rightarrow> if space \<le> BOUNDARY_SEARCH then window_start + space + 1 else window_start
                | None \<Rightarrow> window_start))"

definition snap_end :: "string \<Rightarrow> nat \<Rightarrow> nat \<Rightarrow> nat" where
  "snap_end doc span_end window_end =
     (if length doc \<le> window_end then length doc
      else
        let region = slice doc span_end window_end;
            reach = max 1 (length region div 2)
        in case rev (finditer region reach) of
             (match_start, _) # _ \<Rightarrow> span_end + match_start
           | [] \<Rightarrow>
               (case rfind_char (CHR '' '') region of
                  Some space \<Rightarrow> span_end + space
                | None \<Rightarrow> window_end))"

definition build_excerpt :: "string \<Rightarrow> int \<Rightarrow> int \<Rightarrow> nat \<Rightarrow> excerpt result" where
  "build_excerpt memory_text char_start char_end context_chars =
     (if char_start < 0 \<or> char_end < char_start then Inl ValueError
      else
        let len = length memory_text;
            span_start = nat (max 0 (min char_start (int len)));
            span_end = nat (max (int span_start) (min char_end (int len)));
            window_start = snap_start memory_text (span_start - context_chars) span_start;
            window_end = snap_end memory_text span_end (min len (span_end + context_chars))
        in Inr \<lparr> ex_text = slice memory_text window_start window_end,
                 ex_span_start = span_start - window_start, ex_span_end = span_end - window_start,
                 ex_truncated_start = (0 < window_start), ex_truncated_end = (window_end < len) \<rparr>)"

section \<open>Locators\<close>

definition show_int :: "int \<Rightarrow> string" where
  "show_int n = (if n < 0 then ''-'' @ show_nat (nat (- n)) else show_nat (nat n))"

record citation =
  ci_memory_id :: nat
  ci_source_name :: string
  ci_external_key :: string
  ci_chunk_ordinal :: nat
  ci_char_start :: nat
  ci_char_end :: nat
  ci_prefix_chars :: nat
  ci_excerpt :: string
  ci_definition :: "string option"
  ci_occurred_at :: "time option"
  ci_version :: int
  ci_context :: "excerpt option"

definition locator :: "citation \<Rightarrow> string" where
  "locator c =
     ci_source_name c @ ''::'' @ ci_external_key c @ ''#'' @ show_nat (ci_chunk_ordinal c) @ '' @'' @
     show_nat (ci_char_start c) @ ''-'' @ show_nat (ci_char_end c) @ '' (v'' @ show_int (ci_version c) @ '')''"


section \<open>Where a window ends\<close>

lemma is_space_newline [simp]: "is_space newline"
  by (simp add: is_space_def newline_def)

lemma boundary_matches_bounds:
  assumes "(a, e) \<in> set (boundary_matches i previous s)"
  shows "i \<le> a \<and> a < e \<and> e \<le> i + length s \<and> is_space (s ! (a - i)) \<and> is_space (s ! (e - 1 - i))"
  using assms
proof (induction i previous s arbitrary: a e rule: boundary_matches.induct)
  case (2 i previous c d s)
  have shift: "(x # xs) ! (n - i) = xs ! (n - Suc i)" if "Suc i \<le> n" for x :: char and xs n
    using that by (simp add: Suc_diff_Suc [symmetric])
  consider "c = newline" "d = newline" "(a, e) = (i, i + 2)"
    | "c = newline" "d = newline" "(a, e) \<in> set (boundary_matches (i + 2) (Some d) s)"
    | "\<not> (c = newline \<and> d = newline)" "is_space c" "(a, e) = (i, i + 1)"
    | "\<not> (c = newline \<and> d = newline)" "(a, e) \<in> set (boundary_matches (i + 1) (Some c) (d # s))"
    using "2.prems" by (auto split: if_splits)
  then show ?case
  proof cases
    case 2
    from "2.IH"(1) [OF conjI this(3)] 2(1,2)
    have ih: "i + 2 \<le> a" "a < e" "e \<le> i + 2 + length s" "is_space (s ! (a - (i + 2)))" "is_space (s ! (e - 1 - (i + 2)))"
      by auto
    moreover have "(c # d # s) ! (a - i) = s ! (a - (i + 2))" "(c # d # s) ! (e - 1 - i) = s ! (e - 1 - (i + 2))"
      using ih(1,2) by (simp_all add: shift numeral_2_eq_2 nth_Cons' Suc_diff_Suc)
    ultimately show ?thesis by auto
  next
    case 4
    then have ih: "i + 1 \<le> a" "a < e" "e \<le> i + 1 + length (d # s)" "is_space ((d # s) ! (a - (i + 1)))"
      "is_space ((d # s) ! (e - 1 - (i + 1)))"
      using "2.IH"(2) [of a e] "2.IH"(3) [of a e] by (cases "c = newline \<or> ends_sentence previous \<and> is_space c"; auto)+
    then show ?thesis using shift [of a c "d # s"] shift [of "e - 1" c "d # s"] by auto
  qed auto
qed (auto split: if_splits)


lemma finditer_bounds:
  assumes "(a, e) \<in> set (finditer region pos)"
  shows "pos \<le> a" and "a < e" and "e \<le> length region" and "is_space (region ! a)" and "is_space (region ! (e - 1))"
proof -
  have b: "pos \<le> a \<and> a < e \<and> e \<le> pos + length (drop pos region) \<and> is_space (drop pos region ! (a - pos)) \<and>
           is_space (drop pos region ! (e - 1 - pos))"
    by (rule boundary_matches_bounds) (use assms in \<open>simp add: finditer_def\<close>)
  then show "pos \<le> a" "a < e" "e \<le> length region" by auto
  with b show "is_space (region ! a)" "is_space (region ! (e - 1))" by auto
qed

lemma search_boundary_bounds:
  assumes "search_boundary s = Some (a, e)"
  shows "a < e" and "e \<le> length s" and "is_space (s ! (e - 1))"
proof -
  have "(a, e) \<in> set (finditer s 0)"
    using assms by (auto simp: search_boundary_def split: list.splits)
  from finditer_bounds [OF this] show "a < e" "e \<le> length s" "is_space (s ! (e - 1))" by auto
qed

lemma nth_slice: "i < b - a \<Longrightarrow> b \<le> length xs \<Longrightarrow> slice xs a b ! i = xs ! (a + i)"
  by (simp add: slice_def)

lemma is_space_blank [simp]: "is_space (CHR '' '')"
  by (simp add: is_space_def)

lemma find_char_least: "find_char c s = Some i \<Longrightarrow> j < i \<Longrightarrow> s ! j \<noteq> c"
proof (induction s arbitrary: i j)
  case (Cons x s)
  then show ?case by (cases j) (auto split: if_splits)
qed simp

text \<open>The left edge moves right to just after white space, by at most half the region or one word, or
  stays where it is if there is no blank near.\<close>

lemma snap_start_cases:
  assumes "w \<le> s" and "s \<le> length doc"
  obtains (unmoved) "snap_start doc w s = w"
      and "\<And>i. 0 < w \<Longrightarrow> i \<le> BOUNDARY_SEARCH \<Longrightarrow> w + i < s \<Longrightarrow> doc ! (w + i) \<noteq> CHR '' ''"
    | (moved) k where "snap_start doc w s = w + k" and "0 < k" and "w + k \<le> s"
      and "k \<le> max ((s - w) div 2) (BOUNDARY_SEARCH + 1)" and "is_space (doc ! (w + k - 1))"
proof (cases "w = 0")
  case True
  with unmoved show ?thesis by (simp add: snap_start_def)
next
  case False
  let ?r = "slice doc w s"
  let ?t = "take (max 1 (length ?r div 2)) ?r"
  have len: "length ?r = s - w" using assms(2) by (simp add: length_slice)
  have nth: "?r ! i = doc ! (w + i)" if "i < s - w" for i using that assms(2) by (rule nth_slice)
  show ?thesis
  proof (cases "search_boundary ?t")
    case (Some match)
    obtain a e where match: "match = (a, e)" by force
    from search_boundary_bounds [OF Some [unfolded match]] have e: "a < e" "e \<le> length ?t" "is_space (?t ! (e - 1))" by auto
    then have "e \<le> max 1 ((s - w) div 2)" "e \<le> s - w" "?t ! (e - 1) = doc ! (w + (e - 1))"
      using len by (auto simp: nth)
    moreover have "snap_start doc w s = w + e" using False Some by (simp add: snap_start_def match Let_def)
    ultimately show ?thesis
      using moved [of e] e assms(1) by auto
  next
    case None
    show ?thesis
    proof (cases "find_char (CHR '' '') ?r")
      case None': None
      have "doc ! (w + i) \<noteq> CHR '' ''" if "w + i < s" for i
      proof -
        have i: "i < s - w" using that by simp
        with nth_mem [of i ?r] None' len have "?r ! i \<noteq> CHR '' ''" by (metis find_char_None)
        with nth [OF i] show ?thesis by simp
      qed
      moreover have "snap_start doc w s = w" using None None' by (simp add: snap_start_def Let_def)
      ultimately show ?thesis using unmoved by blast
    next
      case (Some space)
      from find_char_Some [OF Some] have space: "space < s - w" "doc ! (w + space) = CHR '' ''" using len nth [of space] by auto
      show ?thesis
      proof (cases "space \<le> BOUNDARY_SEARCH")
        case True
        then have "snap_start doc w s = w + (space + 1)" using \<open>w \<noteq> 0\<close> None Some by (simp add: snap_start_def Let_def)
        with True space moved [of "space + 1"] show ?thesis by auto
      next
        case far: False
        then have "snap_start doc w s = w" using None Some by (simp add: snap_start_def Let_def)
        moreover have "doc ! (w + i) \<noteq> CHR '' ''" if "i \<le> BOUNDARY_SEARCH" "w + i < s" for i
          using find_char_least [OF Some, of i] far that nth [of i] by auto
        ultimately show ?thesis using unmoved by blast
      qed
    qed
  qed
qed

text \<open>The right edge moves left to before white space, or stays where it is if the region has no blank.\<close>

lemma snap_end_cases:
  assumes "t \<le> v" and "v \<le> length doc"
  obtains (unmoved) "snap_end doc t v = v"
      and "\<And>i. v < length doc \<Longrightarrow> t \<le> i \<Longrightarrow> i < v \<Longrightarrow> doc ! i \<noteq> CHR '' ''"
    | (moved) k where "snap_end doc t v = t + k" and "t + k < v" and "is_space (doc ! (t + k))"
proof (cases "v = length doc")
  case True
  with unmoved show ?thesis by (simp add: snap_end_def)
next
  case False
  with assms have v: "\<not> length doc \<le> v" by simp
  let ?r = "slice doc t v"
  let ?ms = "finditer ?r (max 1 (length ?r div 2))"
  have len: "length ?r = v - t" using assms(2) by (simp add: length_slice)
  have nth: "?r ! i = doc ! (t + i)" if "i < v - t" for i using that assms(2) by (rule nth_slice)
  show ?thesis
  proof (cases "rev ?ms")
    case (Cons match ms)
    obtain a e where match: "match = (a, e)" by force
    have "match \<in> set (rev ?ms)" by (simp only: Cons) simp
    then have "(a, e) \<in> set ?ms" by (simp only: match set_rev)
    from finditer_bounds [OF this] len have "a < v - t" "is_space (?r ! a)" by auto
    moreover have "snap_end doc t v = t + a" using v Cons by (simp add: snap_end_def match Let_def)
    ultimately show ?thesis using moved [of a] nth [of a] by auto
  next
    case Nil
    show ?thesis
    proof (cases "rfind_char (CHR '' '') ?r")
      case None
      then have "CHR '' '' \<notin> set ?r" by (simp add: rfind_char_def find_char_None)
      moreover have "doc ! i \<in> set ?r" if "t \<le> i" "i < v" for i
        using that nth [of "i - t"] nth_mem [of "i - t" ?r] len by (simp add: diff_less_mono)
      ultimately have "doc ! i \<noteq> CHR '' ''" if "t \<le> i" "i < v" for i using that by metis
      moreover have "snap_end doc t v = v" using v Nil None by (simp add: snap_end_def Let_def)
      ultimately show ?thesis using unmoved by blast
    next
      case (Some space)
      from rfind_char_Some [OF Some] have "space < v - t" "doc ! (t + space) = CHR '' ''" using len nth [of space] by auto
      moreover have "snap_end doc t v = t + space" using v Nil Some by (simp add: snap_end_def Let_def)
      ultimately show ?thesis using moved [of space] by auto
    qed
  qed
qed


text \<open>An excerpt is a window of the text in which the cited span lies where the excerpt says. It is as
  wide as asked for at most, and each edge is an end of the text, follows or precedes white space, or has no
  blank near.\<close>

definition window_of :: "string \<Rightarrow> nat \<Rightarrow> nat \<Rightarrow> nat \<Rightarrow> excerpt \<Rightarrow> nat \<Rightarrow> nat \<Rightarrow> bool" where
  "window_of doc s t ctx e u v \<longleftrightarrow>
     ex_text e = slice doc u v \<and> u + ex_span_start e = s \<and> u + ex_span_end e = t \<and>
     s - ctx \<le> u \<and> u \<le> s \<and> t \<le> v \<and> v \<le> min (length doc) (t + ctx) \<and>
     (ex_truncated_start e \<longleftrightarrow> 0 < u) \<and> (ex_truncated_end e \<longleftrightarrow> v < length doc)"

lemma build_excerpt_window:
  fixes doc :: string
  assumes "0 \<le> a" and "a \<le> b"
  defines "s \<equiv> min (nat a) (length doc)" and "t \<equiv> min (nat b) (length doc)"
  shows "\<exists>e. build_excerpt doc a b ctx = Inr e \<and>
           window_of doc s t ctx e (snap_start doc (s - ctx) s) (snap_end doc t (min (length doc) (t + ctx)))"
proof -
  have st: "s \<le> t" "t \<le> length doc" using assms by (auto simp: nat_mono)
  have "nat (max 0 (min a (int (length doc)))) = s" "nat (max (int s) (min b (int (length doc)))) = t"
    using assms by (auto simp: min_def max_def nat_mono)
  then have e: "build_excerpt doc a b ctx = Inr
    \<lparr> ex_text = slice doc (snap_start doc (s - ctx) s) (snap_end doc t (min (length doc) (t + ctx))),
      ex_span_start = s - snap_start doc (s - ctx) s, ex_span_end = t - snap_start doc (s - ctx) s,
      ex_truncated_start = (0 < snap_start doc (s - ctx) s),
      ex_truncated_end = (snap_end doc t (min (length doc) (t + ctx)) < length doc) \<rparr>"
    using assms(1,2) by (simp only: build_excerpt_def Let_def) simp
  have "s - ctx \<le> snap_start doc (s - ctx) s \<and> snap_start doc (s - ctx) s \<le> s"
    by (rule snap_start_cases [of "s - ctx" s doc]) (use st in auto)
  moreover have "t \<le> snap_end doc t (min (length doc) (t + ctx)) \<and>
      snap_end doc t (min (length doc) (t + ctx)) \<le> min (length doc) (t + ctx)"
    by (rule snap_end_cases [of t "min (length doc) (t + ctx)" doc]) (use st in auto)
  ultimately show ?thesis
    using e st by (simp add: window_of_def)
qed

lemma window_span: "window_of doc s t ctx e u v \<Longrightarrow> s \<le> t \<Longrightarrow> excerpt_span e = slice doc s t"
  using slice_of_slice [of u s v doc t]
  by (auto simp: window_of_def excerpt_span_def min_absorb2 diff_add_inverse)

lemma slice_clip: "slice doc (min a (length doc)) (min b (length doc)) = slice doc a b"
  by (auto simp: slice_def min_def)

text \<open>An excerpt quotes the span it was asked for: it is a window of the text, as wide as asked for at most,
  in which the cited characters lie where it says they do, and it says truly whether text was left out on
  either side. It starts after white space unless nothing was left out or no blank is near, and it ends
  before white space unless nothing was left out or the whole trailing context has no blank.\<close>

theorem excerpt_quotes_its_span:
  assumes "0 \<le> a" and "a \<le> b" and "build_excerpt doc a b ctx = Inr e"
  shows "\<exists>u v. window_of doc (min (nat a) (length doc)) (min (nat b) (length doc)) ctx e u v \<and>
           excerpt_span e = slice doc (nat a) (nat b) \<and>
           (u = 0 \<or> is_space (doc ! (u - 1)) \<or> CHR '' '' \<notin> set (take (BOUNDARY_SEARCH + 1) (slice doc u (nat a)))) \<and>
           (v = length doc \<or> is_space (doc ! v) \<or> CHR '' '' \<notin> set (slice doc (nat b) v))"
proof -
  define s where "s = min (nat a) (length doc)"
  define t where "t = min (nat b) (length doc)"
  define w where "w = s - ctx"
  define x where "x = min (length doc) (t + ctx)"
  have le: "w \<le> s" "s \<le> length doc" "s \<le> t" "t \<le> x" "x \<le> length doc"
    using assms(1,2) by (auto simp: s_def t_def w_def x_def nat_mono)
  have win: "window_of doc s t ctx e (snap_start doc w s) (snap_end doc t x)"
    using build_excerpt_window [OF assms(1,2), of doc ctx] assms(3) by (simp add: s_def t_def w_def x_def)
  have "excerpt_span e = slice doc (nat a) (nat b)"
    using window_span [OF win le(3)] slice_clip [of doc "nat a" "nat b"] by (simp add: s_def t_def)
  moreover have "snap_start doc w s = 0 \<or> is_space (doc ! (snap_start doc w s - 1)) \<or>
      CHR '' '' \<notin> set (take (BOUNDARY_SEARCH + 1) (slice doc (snap_start doc w s) (nat a)))"
    using le(1,2)
  proof (cases rule: snap_start_cases)
    case unmoved
    have "slice doc w (nat a) = slice doc w s"
      using slice_clip [of doc w "nat a"] le(1,2) by (simp add: s_def min_absorb1)
    moreover have "slice doc w s ! i \<noteq> CHR '' ''" if "0 < w" "i \<le> BOUNDARY_SEARCH" "i < s - w" for i
      using unmoved(2) [OF that(1,2)] that(3) nth_slice [OF that(3) le(2)] by simp
    ultimately show ?thesis unfolding unmoved(1) using le(2)
      by (cases "w = 0") (auto simp: in_set_conv_nth length_slice)
  qed simp
  moreover have "snap_end doc t x = length doc \<or> is_space (doc ! snap_end doc t x) \<or>
      CHR '' '' \<notin> set (slice doc (nat b) (snap_end doc t x))"
    using le(4,5)
  proof (cases rule: snap_end_cases)
    case unmoved
    have eq: "slice doc (nat b) x = slice doc t x"
      using slice_clip [of doc "nat b" x] le(5) by (simp add: t_def min_absorb1)
    have "slice doc t x ! i \<noteq> CHR '' ''" if "x < length doc" "i < x - t" for i
      using unmoved(2) [OF that(1), of "t + i"] that(2) nth_slice [OF that(2) le(5)] by simp
    then show ?thesis unfolding unmoved(1) using le(5)
      by (cases "x = length doc") (auto simp: eq in_set_conv_nth length_slice)
  qed simp
  ultimately show ?thesis using win unfolding s_def t_def by blast
qed

text \<open>A text without a blank but right after its first character.\<close>

definition run_on :: "nat \<Rightarrow> string" where
  "run_on n = CHR ''x'' # CHR '' '' # replicate n (CHR ''x'')"

lemma no_boundary_in_run: "boundary_matches i p (replicate k (CHR ''x'')) = []"
proof (induction k arbitrary: i p)
  case (Suc k)
  then show ?case by (cases k) (simp_all add: newline_def is_space_def)
qed simp

lemma run_on_end:
  assumes "0 < n"
  shows "snap_end (run_on n) 1 (1 + n) = 1"
proof -
  let ?r = "CHR '' '' # replicate (n - 1) (CHR ''x'')"
  have region: "slice (run_on n) 1 (1 + n) = ?r"
    using assms by (cases n) (simp_all add: slice_def run_on_def replicate_append_same [symmetric])
  have "drop (max 1 k) ?r = replicate (n - max 1 k) (CHR ''x'')" for k
    by (cases "max 1 k") auto
  then have "finditer ?r (max 1 k) = []" for k
    by (simp only: finditer_def no_boundary_in_run)
  moreover have "find_char (CHR '' '') (replicate k (CHR ''x'') @ [CHR '' '']) = Some k" for k
    by (induction k) auto
  then have "rfind_char (CHR '' '') ?r = Some 0" by (simp add: rfind_char_def)
  moreover have "\<not> length (run_on n) \<le> 1 + n" by (simp add: run_on_def)
  ultimately show ?thesis
    unfolding snap_end_def region Let_def by (simp only: if_False list.case option.case rev.simps)
qed

text \<open>The two sides are not treated alike. Of the context before the span, at most half or one word's reach
  is given up to a clean start; but after it, whatever the context asked for, the window can end right
  where the span ends although as much text as asked for follows.\<close>

theorem leading_context_is_kept_trailing_is_not:
  assumes "0 \<le> a" and "a \<le> b" and "build_excerpt doc a b ctx = Inr e" and "0 < n"
  shows "min (min (nat a) (length doc)) ctx \<le> ex_span_start e + max (ctx div 2) (BOUNDARY_SEARCH + 1) \<and>
         (\<exists>doc' e'. build_excerpt doc' 0 1 n = Inr e' \<and> length doc' = 1 + n + 1 \<and>
                    ex_span_end e' = length (ex_text e'))"
proof -
  define s where "s = min (nat a) (length doc)"
  have win: "window_of doc s (min (nat b) (length doc)) ctx e (snap_start doc (s - ctx) s)
      (snap_end doc (min (nat b) (length doc)) (min (length doc) (min (nat b) (length doc) + ctx)))"
    using build_excerpt_window [OF assms(1,2), of doc ctx] assms(3) by (simp add: s_def)
  have "s - ctx \<le> s" and "s \<le> length doc" by (simp, simp add: s_def)
  then have "min s ctx \<le> s - snap_start doc (s - ctx) s + max (ctx div 2) (BOUNDARY_SEARCH + 1)"
  proof (cases rule: snap_start_cases)
    case (moved k)
    have width: "s - (s - ctx) = min s ctx" by simp
    have "s - (w + k) + k = s - w" if "w + k \<le> s" for w using that by simp
    from this [OF moved(3)] have "min s ctx = s - snap_start doc (s - ctx) s + k"
      unfolding moved(1) width by (rule sym)
    also have "k \<le> max (min s ctx div 2) (BOUNDARY_SEARCH + 1)" using moved(4) unfolding width .
    then have "k \<le> max (ctx div 2) (BOUNDARY_SEARCH + 1)"
      by (rule order_trans) (rule max.mono [OF div_le_mono [OF min.cobounded2] order_refl])
    then have "s - snap_start doc (s - ctx) s + k \<le> s - snap_start doc (s - ctx) s + max (ctx div 2) (BOUNDARY_SEARCH + 1)"
      by (rule add_left_mono)
    finally show ?thesis .
  qed simp
  moreover have "s - snap_start doc (s - ctx) s = ex_span_start e"
    using win unfolding window_of_def by (metis diff_add_inverse)
  ultimately have "min s ctx \<le> ex_span_start e + max (ctx div 2) (BOUNDARY_SEARCH + 1)"
    by simp
  moreover have "snap_end (run_on n) 1 (Suc n) = 1" using run_on_end [OF assms(4)] by simp
  then have "build_excerpt (run_on n) 0 1 n = Inr
      \<lparr> ex_text = slice (run_on n) 0 1, ex_span_start = 0, ex_span_end = 1, ex_truncated_start = False,
        ex_truncated_end = True \<rparr>"
    by (simp add: build_excerpt_def Let_def snap_start_def) (simp add: run_on_def)
  moreover have "length (run_on n) = 1 + n + 1" "length (slice (run_on n) 0 1) = 1" by (simp_all add: run_on_def slice_def)
  ultimately show ?thesis unfolding s_def
    by (intro conjI exI [of _ "run_on n"] exI) (assumption | simp)+
qed

section \<open>What a locator names\<close>

lemma is_digit_show_nat: "set (show_nat n) \<subseteq> Collect is_digit"
proof (induction n rule: show_nat.induct)
  case (1 n)
  have "is_digit (digit_char d)" if "d < 10" for d
    using that by (simp add: is_digit_def digit_char_def Let_def)
  with 1 show ?case by (subst show_nat.simps) auto
qed

lemma last_mark:
  assumes "xs @ c # ds = ys @ c' # es" and "P c" and "P c'" and "\<forall>d \<in> set ds. \<not> P d" and "\<forall>d \<in> set es. \<not> P d"
  shows "xs = ys \<and> c = c' \<and> ds = es"
proof -
  have drop: "dropWhile (\<lambda>x. \<not> P x) (rev (zs @ d # fs)) = d # rev zs"
    and take: "takeWhile (\<lambda>x. \<not> P x) (rev (zs @ d # fs)) = rev fs"
    if "P d" "\<forall>d \<in> set fs. \<not> P d" for zs d fs
    using that by (simp_all add: dropWhile_append takeWhile_append dropWhile_eq_Nil_conv takeWhile_eq_all_conv)
  have "c # rev xs = c' # rev ys" and "rev ds = rev es"
    by (metis drop assms) (metis take assms)
  then show ?thesis by simp
qed

lemma number_after_mark:
  assumes "xs @ c # show_nat m = ys @ c # show_nat n" and "\<not> is_digit c"
  shows "xs = ys \<and> m = n"
proof -
  have "xs = ys \<and> c = c \<and> show_nat m = show_nat n"
    by (rule last_mark [OF assms(1), of "\<lambda>d. \<not> is_digit d"]) (use assms(2) is_digit_show_nat in auto)
  then show ?thesis by (auto dest: show_nat_inj)
qed

lemma show_int_after_mark:
  assumes "xs @ c # show_int m = ys @ c # show_int n" and "\<not> is_digit c" and "c \<noteq> CHR ''-''"
  shows "xs = ys \<and> m = n"
proof -
  have sub: "set (show_int k) \<subseteq> Collect is_digit \<union> {CHR ''-''}" for k
    using is_digit_show_nat by (auto simp: show_int_def)
  have eq: "xs = ys \<and> c = c \<and> show_int m = show_int n"
    by (rule last_mark [OF assms(1), of "\<lambda>d. \<not> (is_digit d \<or> d = CHR ''-'')"]) (use assms(2,3) sub in auto)
  have "CHR ''-'' \<notin> set (show_nat k)" for k
    using is_digit_show_nat by (force simp: is_digit_def)
  then have "show_nat k \<noteq> CHR ''-'' # cs" for k cs by (metis list.set_intros(1))
  with eq show ?thesis
    by (auto simp: show_int_def split: if_splits dest!: show_nat_inj) (metis)+
qed


lemma first_mark: "c \<notin> set xs \<Longrightarrow> c \<notin> set ys \<Longrightarrow> xs @ c # as = ys @ c # bs \<Longrightarrow> xs = ys \<and> as = bs"
proof (induction xs arbitrary: ys)
  case Nil
  then show ?case by (cases ys) auto
next
  case (Cons x xs)
  then show ?case by (cases ys) auto
qed

text \<open>A locator names one span of one version: two citations with the same locator agree on the source, the
  item, the ordinal, the offsets and the version, provided the names of the sources hold no colon.\<close>

theorem locator_names_one_span:
  assumes "locator c = locator d" and "CHR '':'' \<notin> set (ci_source_name c)" and "CHR '':'' \<notin> set (ci_source_name d)"
  shows "ci_source_name c = ci_source_name d \<and> ci_external_key c = ci_external_key d \<and>
         ci_chunk_ordinal c = ci_chunk_ordinal d \<and> ci_char_start c = ci_char_start d \<and>
         ci_char_end c = ci_char_end d \<and> ci_version c = ci_version d"
proof -
  let ?at = "\<lambda>x. ci_source_name x @ ''::'' @ ci_external_key x"
  let ?ord = "\<lambda>x. ?at x @ ''#'' @ show_nat (ci_chunk_ordinal x)"
  let ?from = "\<lambda>x. ?ord x @ '' @'' @ show_nat (ci_char_start x)"
  let ?upto = "\<lambda>x. ?from x @ ''-'' @ show_nat (ci_char_end x)"
  have "(?upto c @ '' ('') @ CHR ''v'' # show_int (ci_version c) = (?upto d @ '' ('') @ CHR ''v'' # show_int (ci_version d)"
    using assms(1) by (simp add: locator_def)
  then have "?upto c @ '' ('' = ?upto d @ '' ('' \<and> ci_version c = ci_version d"
    by (rule show_int_after_mark) (simp_all add: is_digit_def)
  then have version: "ci_version c = ci_version d"
    and "?from c @ CHR ''-'' # show_nat (ci_char_end c) = ?from d @ CHR ''-'' # show_nat (ci_char_end d)"
    by simp_all
  from this(2) have "?from c = ?from d \<and> ci_char_end c = ci_char_end d"
    by (rule number_after_mark) (simp add: is_digit_def)
  then have char_end: "ci_char_end c = ci_char_end d"
    and "(?ord c @ '' '') @ CHR ''@'' # show_nat (ci_char_start c) = (?ord d @ '' '') @ CHR ''@'' # show_nat (ci_char_start d)"
    by simp_all
  from this(2) have "?ord c @ '' '' = ?ord d @ '' '' \<and> ci_char_start c = ci_char_start d"
    by (rule number_after_mark) (simp add: is_digit_def)
  then have char_start: "ci_char_start c = ci_char_start d"
    and "?at c @ CHR ''#'' # show_nat (ci_chunk_ordinal c) = ?at d @ CHR ''#'' # show_nat (ci_chunk_ordinal d)"
    by simp_all
  from this(2) have "?at c = ?at d \<and> ci_chunk_ordinal c = ci_chunk_ordinal d"
    by (rule number_after_mark) (simp add: is_digit_def)
  then have at_eq: "?at c = ?at d" and ordinal: "ci_chunk_ordinal c = ci_chunk_ordinal d" by simp_all
  from at_eq have "ci_source_name c @ CHR '':'' # CHR '':'' # ci_external_key c = ci_source_name d @ CHR '':'' # CHR '':'' # ci_external_key d"
    by simp
  from first_mark [OF assms(2,3) this] version char_end char_start ordinal show ?thesis by simp
qed


section \<open>The hypotheses hold\<close>

definition sample_text :: string where
  "sample_text = ''One. Two words here. And then three words more.''"

definition sample_excerpt :: excerpt where
  "sample_excerpt = \<lparr> ex_text = ''Two words here. And then'', ex_span_start = 10, ex_span_end = 14,
                      ex_truncated_start = True, ex_truncated_end = True \<rparr>"

definition sample_citation :: citation where
  "sample_citation = \<lparr> ci_memory_id = 1, ci_source_name = ''notes'', ci_external_key = ''a.md'', ci_chunk_ordinal = 0,
     ci_char_start = 15, ci_char_end = 19, ci_prefix_chars = 0, ci_excerpt = ''here'', ci_definition = None,
     ci_occurred_at = None, ci_version = 2, ci_context = Some sample_excerpt \<rparr>"

lemma sample_excerpt_built: "build_excerpt sample_text 15 19 12 = Inr sample_excerpt"
  by code_simp

theorem excerpt_quotes_its_span_witness:
  "excerpt_span sample_excerpt = ''here'' \<and>
   (\<exists>u v. window_of sample_text 15 19 12 sample_excerpt u v)"
proof -
  have "excerpt_span sample_excerpt = ''here''" by code_simp
  moreover have "length sample_text = 47" by code_simp
  ultimately show ?thesis using excerpt_quotes_its_span [OF _ _ sample_excerpt_built] by auto
qed

theorem locator_names_one_span_witness:
  "ci_source_name sample_citation = ci_source_name (sample_citation\<lparr> ci_context := None \<rparr>)"
proof -
  have "locator sample_citation = locator (sample_citation\<lparr> ci_context := None \<rparr>)" by (simp add: locator_def)
  moreover have "CHR '':'' \<notin> set (ci_source_name sample_citation)" by code_simp
  moreover have "CHR '':'' \<notin> set (ci_source_name (sample_citation\<lparr> ci_context := None \<rparr>))" by code_simp
  ultimately show ?thesis using locator_names_one_span by blast
qed

end
