(* ===== verification/Sentences.thy ===== *)
theory Sentences
  imports Pystring
begin

text \<open>
  Offsets into a doc: spans and their tilings, the sentence splitter of
  \<^verbatim>\<open>adapters/chunking/sentences.py\<close> and the token heuristic of \<^verbatim>\<open>adapters/chunking/tokens.py\<close>. The
  regular expressions are written out as the scans they perform; the boundary expression has one way to
  match at a position, because a quote is not white space and white space does not start a sentence.
\<close>

type_synonym span = "nat \<times> nat"

text \<open>\<open>tiles a b spans\<close>: the spans are not empty and follow each other from \<open>a\<close> to \<open>b\<close> without a gap.\<close>

fun tiles :: "nat \<Rightarrow> nat \<Rightarrow> span list \<Rightarrow> bool" where
  "tiles a b [] \<longleftrightarrow> a = b"
| "tiles a b ((s, e) # rest) \<longleftrightarrow> s = a \<and> a < e \<and> tiles e b rest"

section \<open>Characters\<close>

text \<open>\<^verbatim>\<open>str.isalnum\<close> over Latin-1: ASCII letters and digits, superscripts, fractions and letters.\<close>

definition is_alnum :: "char \<Rightarrow> bool" where
  "is_alnum c \<longleftrightarrow> is_ascii_letter c \<or> is_digit c \<or>
     (let n = of_char c :: nat
      in n \<in> {170, 178, 179, 181, 185, 186, 188, 189, 190} \<or> 192 \<le> n \<and> n \<noteq> 215 \<and> n \<noteq> 247)"

definition is_word :: "char \<Rightarrow> bool" where
  "is_word c \<longleftrightarrow> is_alnum c \<or> c = CHR ''_''"

section \<open>Token counting\<close>

fun count_from :: "bool \<Rightarrow> string \<Rightarrow> nat" where
  "count_from in_word [] = 0"
| "count_from in_word (c # cs) =
     (if is_word c then (if in_word then 0 else 1) + count_from True cs
      else if is_space c then count_from False cs
      else 1 + count_from False cs)"

definition count_tokens :: "string \<Rightarrow> nat" where
  "count_tokens doc = count_from False doc"

section \<open>Sentence boundaries\<close>

definition ABBREVIATIONS :: "string list" where
  "ABBREVIATIONS =
     [''mr'', ''mrs'', ''ms'', ''dr'', ''prof'', ''sr'', ''jr'', ''st'', ''rev'', ''hon'',
      ''inc'', ''ltd'', ''co'', ''corp'', ''dept'', ''univ'',
      ''e.g'', ''i.e'', ''etc'', ''vs'', ''cf'', ''al'', ''viz'', ''approx'',
      ''fig'', ''eq'', ''ref'', ''sec'', ''ch'', ''vol'', ''no'', ''p'', ''pp'',
      ''jan'', ''feb'', ''mar'', ''apr'', ''jun'', ''jul'', ''aug'', ''sept'', ''sep'',
      ''oct'', ''nov'', ''dec'',
      ''mon'', ''tue'', ''wed'', ''thu'', ''fri'', ''sat'', ''sun'',
      ''a.m'', ''p.m'', ''u.s'', ''u.k'', ''e.u'']"

definition is_terminator :: "char \<Rightarrow> bool" where
  "is_terminator c \<longleftrightarrow> c \<in> set ''.!?''"

definition is_closer :: "char \<Rightarrow> bool" where
  "is_closer c \<longleftrightarrow> c = CHR 0x22 \<or> c = CHR 0x27 \<or> c = CHR '')'' \<or> c = CHR '']''"

definition starts_sentence :: "char \<Rightarrow> bool" where
  "starts_sentence c \<longleftrightarrow>
     (let n = of_char c :: nat in 65 \<le> n \<and> n \<le> 90) \<or> is_digit c \<or>
     c = CHR 0x22 \<or> c = CHR 0x27 \<or> c = CHR ''('' \<or> c = CHR ''[''"

definition run_of :: "(char \<Rightarrow> bool) \<Rightarrow> string \<Rightarrow> nat \<Rightarrow> nat" where
  "run_of p doc i = i + length (takeWhile p (drop i doc))"

text \<open>The match at a position: the end of its first group and its end.\<close>

definition boundary_at :: "string \<Rightarrow> nat \<Rightarrow> (nat \<times> nat) option" where
  "boundary_at doc i =
     (let j = run_of is_closer doc i; k = run_of is_space doc j
      in if 0 < i \<and> i \<le> length doc \<and> is_terminator (doc ! (i - 1)) \<and> j < k \<and> k < length doc \<and>
            starts_sentence (doc ! k)
         then Some (j, k) else None)"

lemma run_of_ge: "i \<le> run_of p doc i"
  by (simp add: run_of_def)

lemma boundary_at_bounds:
  "boundary_at doc i = Some (j, k) \<Longrightarrow> 0 < i \<and> i \<le> j \<and> j < k \<and> k < length doc"
  using run_of_ge [of i is_closer doc]
  by (auto simp: boundary_at_def Let_def split: if_splits)

text \<open>\<^verbatim>\<open>finditer\<close>: matches from left to right, each search starting where the last match ended.\<close>

function boundaries :: "string \<Rightarrow> nat \<Rightarrow> (nat \<times> nat) list" where
  "boundaries doc i =
     (if length doc < i then []
      else case boundary_at doc i of
             None \<Rightarrow> boundaries doc (Suc i)
           | Some (j, k) \<Rightarrow> (j, k) # boundaries doc k)"
  by pat_completeness auto

termination
  by (relation "measure (\<lambda>(doc, i). Suc (length doc) - i)") (auto dest: boundary_at_bounds)

declare boundaries.simps [simp del]

definition dot_strip :: "string \<Rightarrow> string" where
  "dot_strip s = rev (dropWhile (\<lambda>c. c = CHR ''.'') (rev (dropWhile (\<lambda>c. c = CHR ''.'') s)))"

definition ends_with_abbreviation :: "string \<Rightarrow> nat \<Rightarrow> bool" where
  "ends_with_abbreviation doc e \<longleftrightarrow>
     e \<noteq> 0 \<and> doc ! (e - 1) = CHR ''.'' \<and>
     (let prior = take (e - 1) doc;
          word = dot_strip (lower (rev (takeWhile (\<lambda>c. is_alnum c \<or> c = CHR ''.'') (rev prior))))
      in word \<noteq> [] \<and> (word \<in> set ABBREVIATIONS \<or> length word = 1))"

fun sentence_loop :: "string \<Rightarrow> nat \<Rightarrow> (nat \<times> nat) list \<Rightarrow> span list" where
  "sentence_loop doc start [] = (if start < length doc then [(start, length doc)] else [])"
| "sentence_loop doc start ((j, k) # ms) =
     (if ends_with_abbreviation doc j then sentence_loop doc start ms
      else (start, j) # sentence_loop doc k ms)"

definition split_sentences :: "string \<Rightarrow> span list" where
  "split_sentences doc = (if doc = [] then [] else sentence_loop doc 0 (boundaries doc 0))"

section \<open>What the splitter returns\<close>

text \<open>\<open>ascending a n spans\<close>: the spans are in order from \<open>a\<close> on, not empty and within \<open>n\<close>.\<close>

fun ascending :: "nat \<Rightarrow> nat \<Rightarrow> span list \<Rightarrow> bool" where
  "ascending a n [] \<longleftrightarrow> True"
| "ascending a n ((s, e) # rest) \<longleftrightarrow> a \<le> s \<and> s < e \<and> e \<le> n \<and> ascending e n rest"

text \<open>Matches in order, each after the white space that the one before it ended in.\<close>

fun chained :: "nat \<Rightarrow> nat \<Rightarrow> (nat \<times> nat) list \<Rightarrow> bool" where
  "chained a n [] \<longleftrightarrow> True"
| "chained a n ((j, k) # rest) \<longleftrightarrow> a < j \<and> j < k \<and> k < n \<and> chained k n rest"

lemma chained_weaken: "chained a n ms \<Longrightarrow> b \<le> a \<Longrightarrow> chained b n ms"
  by (cases ms) auto

lemma terminator_not_space: "is_terminator c \<Longrightarrow> \<not> is_space c"
proof -
  assume "is_terminator c"
  then have "c = CHR ''.'' \<or> c = CHR ''!'' \<or> c = CHR ''?''" by (simp add: is_terminator_def)
  moreover have "\<not> is_space (CHR ''.'')" and "\<not> is_space (CHR ''!'')" and "\<not> is_space (CHR ''?'')"
    by code_simp+
  ultimately show "\<not> is_space c" by blast
qed

lemma run_of_inside:
  assumes "i \<le> x" and "x < run_of p doc i"
  shows "p (doc ! x)"
proof -
  have "x - i < length (takeWhile p (drop i doc))" using assms by (simp add: run_of_def)
  then have "takeWhile p (drop i doc) ! (x - i) \<in> set (takeWhile p (drop i doc))"
    and nth: "takeWhile p (drop i doc) ! (x - i) = drop i doc ! (x - i)"
    by (rule nth_mem, rule takeWhile_nth)
  then have "p (drop i doc ! (x - i))" by (auto dest: set_takeWhileD)
  moreover have "i \<le> length doc"
    using assms by (cases "i \<le> length doc") (simp_all add: run_of_def)
  ultimately show ?thesis using assms(1) by simp
qed

lemma boundary_at_after:
  assumes "boundary_at doc i = Some (j, k)"
  shows "boundary_at doc k = None"
proof -
  have "j < k" using boundary_at_bounds [OF assms] by simp
  moreover have "k = run_of is_space doc j"
    using assms by (auto simp: boundary_at_def Let_def split: if_splits)
  ultimately have "is_space (doc ! (k - 1))" using run_of_inside [of j "k - 1" is_space doc] by simp
  then show ?thesis using terminator_not_space by (auto simp: boundary_at_def Let_def)
qed

lemma boundaries_chained:
  "(boundary_at doc i = None \<longrightarrow> chained i (length doc) (boundaries doc i)) \<and>
   chained (i - 1) (length doc) (boundaries doc i)"
proof (induction doc i rule: boundaries.induct)
  case (1 doc i)
  show ?case
  proof (cases "length doc < i")
    case True
    then show ?thesis by (simp add: boundaries.simps)
  next
    case False
    show ?thesis
    proof (cases "boundary_at doc i")
      case None
      from 1(1) [OF False None] have "chained i (length doc) (boundaries doc (Suc i))" by simp
      with None False show ?thesis by (auto simp: boundaries.simps [of doc i] intro: chained_weaken)
    next
      case (Some jk)
      obtain j k where jk: "jk = (j, k)" by (cases jk)
      with Some have b: "0 < i \<and> i \<le> j \<and> j < k \<and> k < length doc" by (simp add: boundary_at_bounds)
      have "chained k (length doc) (boundaries doc k)"
        using 1(2) [OF False Some jk [symmetric]] boundary_at_after [of doc i j k] Some jk by simp
      with Some jk b False show ?thesis by (auto simp: boundaries.simps [of doc i])
    qed
  qed
qed

lemma sentence_loop_ascending:
  "chained start (length doc) ms \<Longrightarrow> ascending start (length doc) (sentence_loop doc start ms)"
proof (induction ms arbitrary: start)
  case (Cons m ms)
  obtain j k where m: "m = (j, k)" by (cases m)
  with Cons.prems have b: "start < j" "j < k" "k < length doc" "chained k (length doc) ms" by auto
  have skip: "chained start (length doc) ms" using b(4) by (rule chained_weaken) (use b in simp)
  have "ascending k (length doc) (sentence_loop doc k ms)" by (rule Cons.IH [OF b(4)])
  then have "ascending j (length doc) (sentence_loop doc k ms)"
    by (cases "sentence_loop doc k ms") (use b in auto)
  with Cons.IH [OF skip] b m show ?case by auto
qed simp

lemma split_sentences_ascending: "ascending 0 (length doc) (split_sentences doc)"
proof -
  have "chained 0 (length doc) (boundaries doc 0)" using boundaries_chained [of doc 0] by simp
  then show ?thesis by (simp add: split_sentences_def sentence_loop_ascending)
qed

section \<open>Tilings\<close>

lemma tiles_append: "tiles a b xs \<Longrightarrow> tiles b c ys \<Longrightarrow> tiles a c (xs @ ys)"
  by (induction a b xs rule: tiles.induct) auto

lemma tiles_le: "tiles a b xs \<Longrightarrow> a \<le> b"
  by (induction a b xs rule: tiles.induct) auto

lemma tiles_single [simp]: "tiles a b [(s, e)] \<longleftrightarrow> s = a \<and> e = b \<and> a < b"
  by auto

text \<open>Splitting every span of a tiling into tilings of its own.\<close>

lemma tiles_refine:
  assumes "tiles a b xs" and "\<And>s e. (s, e) \<in> set xs \<Longrightarrow> s < e \<Longrightarrow> tiles s e (f (s, e))"
  shows "tiles a b (concat (map f xs))"
  using assms
proof (induction a b xs rule: tiles.induct)
  case (2 a b s e rest)
  then have "tiles a e (f (s, e))" and "tiles e b (concat (map f rest))" by auto
  then show ?case by (simp add: tiles_append)
qed simp

lemma tiles_member: "tiles a b xs \<Longrightarrow> (s, e) \<in> set xs \<Longrightarrow> a \<le> s \<and> s < e \<and> e \<le> b"
proof (induction a b xs rule: tiles.induct)
  case (2 a b s' e' rest)
  then show ?case using tiles_le [of e' b rest] by fastforce
qed simp

section \<open>The laws of the token heuristic\<close>

lemma count_from_le_Suc: "count_from False xs \<le> Suc (count_from True xs)"
  by (cases xs) auto

lemma count_from_True_le: "count_from True xs \<le> count_from False xs"
  by (cases xs) auto

lemma count_from_le: "count_from w xs \<le> count_from False xs"
  by (cases w) (simp_all add: count_from_True_le)

lemma count_from_append: "count_from w (xs @ ys) \<le> count_from w xs + count_from False ys"
  by (induction w xs rule: count_from.induct) (simp_all add: count_from_le)

lemma count_from_drop: "count_from False ys \<le> count_from False (xs @ ys)"
proof (induction xs)
  case (Cons x xs)
  have "count_from False (xs @ ys) \<le> count_from False ((x # xs) @ ys)"
    using count_from_le_Suc [of "xs @ ys"] by simp
  with Cons show ?case by (rule order_trans)
qed simp

lemma count_from_blank: "blank xs \<Longrightarrow> count_from w xs = 0"
proof (induction w xs rule: count_from.induct)
  case (2 w c cs)
  then have c: "is_space c" "blank cs" by (auto simp: blank_iff)
  have "\<not> is_word c"
    using c(1) by (auto simp: is_space_def is_word_def is_alnum_def is_ascii_letter_def is_digit_def Let_def)
  then show ?case using 2 c by simp
qed simp

end
