(* ===== verification/Chunker.thy ===== *)
theory Chunker
  imports Sentences Corpus
begin

text \<open>
  The structural chunker, \<^verbatim>\<open>adapters/chunking/structural.py\<close>, over the sentence splitter. A text is a list of
  characters and a span is a pair of offsets into it. The token counter is an argument, as it is in the
  code; the loops over an index are functions with a measure. Offsets beyond the text cannot occur,
  because every span lies in the document, and the loops stop there.
\<close>

section \<open>Documents, chunks and configuration\<close>

datatype marker_kind = HEADING | CODE_BLOCK | DEFINITION

record structure_marker =
  mk_kind :: marker_kind
  mk_level :: nat
  mk_offset :: nat
  mk_label :: "string option"

record parsed_document =
  pd_text :: string
  pd_structure :: "structure_marker list"
  pd_kind :: memory_kind
  pd_title :: "string option"
  pd_metadata :: payload

record text_chunk =
  tc_ordinal :: nat
  tc_text :: string
  tc_char_start :: nat
  tc_char_end :: nat
  tc_token_count :: nat
  tc_prefix_chars :: nat
  tc_definition :: "string option"

record chunker_config =
  cf_window :: nat
  cf_maximum :: nat
  cf_target :: nat
  cf_overlap :: nat
  cf_minimum :: nat

definition SPECIAL_TOKEN_HEADROOM :: int where
  "SPECIAL_TOKEN_HEADROOM = 16"

definition config_for_window :: "nat \<Rightarrow> chunker_config" where
  "config_for_window model_window =
     (let maximum = max 1 (int model_window - SPECIAL_TOKEN_HEADROOM);
          goal = max 1 (int_of_float (of_int maximum * (8 / 10)))
      in \<lparr> cf_window = model_window, cf_maximum = nat maximum, cf_target = nat goal,
           cf_overlap = nat (int_of_float (of_int goal * (12 / 100))),
           cf_minimum = nat (int_of_float (of_int goal * (2 / 10))) \<rparr>)"

section \<open>Sections\<close>

definition sections :: "parsed_document \<Rightarrow> span list" where
  "sections pd =
     (let len = length (pd_text pd);
          offsets = sort (keep_first (filter (\<lambda>i. 0 < i \<and> i < len) (map mk_offset (pd_structure pd))));
          bounds = 0 # offsets @ [len]
      in filter (\<lambda>(a, b). a < b) (zip bounds (tl bounds)))"

section \<open>Splitting by words and by characters\<close>

definition run_until :: "(char \<Rightarrow> bool) \<Rightarrow> string \<Rightarrow> nat \<Rightarrow> nat \<Rightarrow> nat" where
  "run_until p doc stop i = i + length (takeWhile p (slice doc i stop))"

definition next_break :: "string \<Rightarrow> nat \<Rightarrow> nat \<Rightarrow> nat" where
  "next_break doc stop i = run_until is_space doc stop (run_until (\<lambda>c. \<not> is_space c) doc stop i)"

lemma run_until_ge: "i \<le> run_until p doc stop i"
  by (simp add: run_until_def)

lemma run_until_le: "i \<le> stop \<Longrightarrow> run_until p doc stop i \<le> stop"
proof -
  have "length (takeWhile p (slice doc i stop)) \<le> stop - i"
    by (rule order_trans [OF length_takeWhile_le]) (simp add: slice_def)
  then show "i \<le> stop \<Longrightarrow> run_until p doc stop i \<le> stop" by (simp add: run_until_def)
qed

lemma slice_Cons:
  assumes "i < stop" and "stop \<le> length doc"
  shows "slice doc i stop = doc ! i # slice doc (Suc i) stop"
proof -
  have "drop i doc = doc ! i # drop (Suc i) doc" using assms by (intro Cons_nth_drop_Suc [symmetric]) simp
  moreover have "stop - i = Suc (stop - Suc i)" using assms(1) by simp
  ultimately show ?thesis by (simp add: slice_def)
qed

lemma run_until_step:
  assumes "i < stop" and "stop \<le> length doc" and "p (doc ! i)"
  shows "i < run_until p doc stop i"
  using assms by (simp add: run_until_def slice_Cons)

lemma next_break_gt:
  assumes "i < stop" and "stop \<le> length doc"
  shows "i < next_break doc stop i"
proof (cases "is_space (doc ! i)")
  case True
  then have "run_until (\<lambda>c. \<not> is_space c) doc stop i = i" using assms by (simp add: run_until_def slice_Cons)
  then show ?thesis using run_until_step [OF assms, of is_space] True by (simp add: next_break_def)
next
  case False
  then show ?thesis
    using run_until_step [OF assms, of "\<lambda>c. \<not> is_space c"] run_until_ge [of _ is_space doc stop]
    unfolding next_break_def by (meson less_le_trans)
qed

lemma next_break_le: "i \<le> stop \<Longrightarrow> next_break doc stop i \<le> stop"
  by (simp add: next_break_def run_until_le)

function hard_loop ::
  "(string \<Rightarrow> nat) \<Rightarrow> string \<Rightarrow> nat \<Rightarrow> nat \<Rightarrow> nat \<Rightarrow> nat \<Rightarrow> span list" where
  "hard_loop cnt doc goal stop cursor index =
     (if index < stop \<and> stop \<le> length doc then
        let i = next_break doc stop index
        in if goal \<le> cnt (slice doc cursor i) \<and> i < stop
           then (cursor, i) # hard_loop cnt doc goal stop i i
           else hard_loop cnt doc goal stop cursor i
      else if cursor < stop then [(cursor, stop)] else [])"
  by pat_completeness auto

termination
  by (relation "measure (\<lambda>(_, _, _, stop, _, index). stop - index)")
    (auto simp: diff_less_mono2 next_break_gt less_le_trans)

declare hard_loop.simps [simp del]

function halve :: "(string \<Rightarrow> nat) \<Rightarrow> string \<Rightarrow> nat \<Rightarrow> nat \<Rightarrow> nat \<Rightarrow> nat" where
  "halve cnt doc maximum cursor stop =
     (if 1 < stop - cursor \<and> maximum < cnt (slice doc cursor stop)
      then halve cnt doc maximum cursor (cursor + max 1 ((stop - cursor) div 2))
      else stop)"
  by pat_completeness auto

termination
  by (relation "measure (\<lambda>(_, _, _, cursor, stop). stop - cursor)") auto

declare halve.simps [simp del]

lemma halve_bounds: "cursor < stop \<Longrightarrow> cursor < halve cnt doc maximum cursor stop \<and>
    halve cnt doc maximum cursor stop \<le> stop"
proof (induction cnt doc maximum cursor stop rule: halve.induct)
  case (1 cnt doc maximum cursor stop)
  show ?case
  proof (cases "1 < stop - cursor \<and> maximum < cnt (slice doc cursor stop)")
    case True
    let ?m = "cursor + max 1 ((stop - cursor) div 2)"
    have "cursor < ?m" "?m \<le> stop" using True by auto
    with 1(1) [OF True] True show ?thesis by (subst (1 2) halve.simps) simp
  next
    case False
    then have "halve cnt doc maximum cursor stop = stop" by (subst halve.simps) auto
    then show ?thesis using 1(2) by simp
  qed
qed

lemma cut_gt: "cursor < stop \<Longrightarrow> cursor < halve cnt doc m cursor (min stop (cursor + max (Suc 0) n))"
  by (rule conjunct1 [OF halve_bounds]) simp

function char_split ::
  "(string \<Rightarrow> nat) \<Rightarrow> chunker_config \<Rightarrow> string \<Rightarrow> nat \<Rightarrow> nat \<Rightarrow> span list" where
  "char_split cnt cfg doc cursor stop =
     (if cursor < stop then
        let tokens = cnt (slice doc cursor stop)
        in if tokens \<le> cf_maximum cfg then [(cursor, stop)]
           else let cut = halve cnt doc (cf_maximum cfg) cursor
                            (min stop (cursor + max 1 ((stop - cursor) * cf_target cfg div tokens)))
                in (cursor, cut) # char_split cnt cfg doc cut stop
      else [])"
  by pat_completeness auto

termination
  by (relation "measure (\<lambda>(_, _, _, cursor, stop). stop - cursor)")
    (auto intro!: diff_less_mono2 cut_gt)

declare char_split.simps [simp del]

definition fits :: "(string \<Rightarrow> nat) \<Rightarrow> chunker_config \<Rightarrow> string \<Rightarrow> span \<Rightarrow> bool" where
  "fits cnt cfg doc sp \<longleftrightarrow> cnt (slice doc (fst sp) (snd sp)) \<le> cf_maximum cfg"

definition hard_split :: "(string \<Rightarrow> nat) \<Rightarrow> chunker_config \<Rightarrow> string \<Rightarrow> span \<Rightarrow> span list" where
  "hard_split cnt cfg doc sp =
     (let spans = hard_loop cnt doc (cf_target cfg) (snd sp) (fst sp) (fst sp)
      in if list_ex (\<lambda>s. \<not> fits cnt cfg doc s) spans
         then concat (map (\<lambda>s. if fits cnt cfg doc s then [s]
                               else char_split cnt cfg doc (fst s) (snd s)) spans)
         else spans)"

section \<open>Filling prose by sentences\<close>

fun fill_loop ::
  "(string \<Rightarrow> nat) \<Rightarrow> chunker_config \<Rightarrow> string \<Rightarrow> nat \<Rightarrow> nat \<Rightarrow> nat \<Rightarrow> nat \<Rightarrow> span list \<Rightarrow> span list" where
  "fill_loop cnt cfg doc start stop cursor accumulated [] = [(cursor, stop)]"
| "fill_loop cnt cfg doc start stop cursor accumulated ((rs, re) # sentences) =
     (let a = start + rs; tokens = cnt (slice doc a (start + re))
      in if accumulated \<noteq> 0 \<and> cf_target cfg < accumulated + tokens
         then (cursor, a) # fill_loop cnt cfg doc start stop a tokens sentences
         else fill_loop cnt cfg doc start stop cursor (accumulated + tokens) sentences)"

definition fill :: "(string \<Rightarrow> nat) \<Rightarrow> chunker_config \<Rightarrow> string \<Rightarrow> span \<Rightarrow> span list" where
  "fill cnt cfg doc sp =
     (let (start, stop) = sp
      in if cnt (slice doc start stop) \<le> cf_target cfg then [sp]
         else
           let sentences = split_sentences (slice doc start stop)
           in if sentences = [] then hard_split cnt cfg doc sp
              else concat (map (\<lambda>s. if fits cnt cfg doc s then [s] else hard_split cnt cfg doc s)
                     (fill_loop cnt cfg doc start stop start 0 sentences)))"

section \<open>Splitting a definition at its own boundaries\<close>

text \<open>The characters that \<^verbatim>\<open>str.splitlines\<close> ends a line at.\<close>

definition is_line_end :: "char \<Rightarrow> bool" where
  "is_line_end c \<longleftrightarrow> (let n = of_char c :: nat in 10 \<le> n \<and> n \<le> 13 \<or> 28 \<le> n \<and> n \<le> 30 \<or> n = 133)"

fun starts_newline :: "string \<Rightarrow> bool" where
  "starts_newline [] = False"
| "starts_newline (c # cs) = (c = CHR 0x0A)"

lemma dropWhile_less: "dropWhile p s = c # cs \<Longrightarrow> length cs < length s"
  using length_dropWhile_le [of p s] by simp

function split_lines :: "string \<Rightarrow> string list" where
  "split_lines s =
     (if s = [] then []
      else case dropWhile (\<lambda>c. \<not> is_line_end c) s of
             [] \<Rightarrow> [s]
           | c # cs \<Rightarrow>
               let line = takeWhile (\<lambda>c. \<not> is_line_end c) s @ [c]
               in if c = CHR 0x0D \<and> starts_newline cs
                  then (line @ [hd cs]) # split_lines (tl cs) else line # split_lines cs)"
  by pat_completeness auto

termination
  by (relation "measure length") (auto dest: dropWhile_less intro: le_less_trans [OF _ dropWhile_less])

declare split_lines.simps [simp del]

fun found_lines :: "nat \<Rightarrow> string list \<Rightarrow> (nat \<times> nat) list" where
  "found_lines offset [] = []"
| "found_lines offset (line # rest) =
     (if strip line \<noteq> [] then [(offset, length line - length (lstrip line))] else []) @
     found_lines (offset + length line) rest"

definition body_lines :: "string \<Rightarrow> span \<Rightarrow> (nat \<times> nat) list" where
  "body_lines doc sp =
     (let found = found_lines 0 (split_lines (slice doc (fst sp) (snd sp)))
      in if length found < 2 then []
         else map (\<lambda>(o', indent). (fst sp + o', indent)) (filter (\<lambda>(o', _). 0 < o') (tl found)))"

definition line_start_offsets :: "string \<Rightarrow> span \<Rightarrow> nat list" where
  "line_start_offsets doc sp = map fst (body_lines doc sp)"

definition outermost_statement_offsets :: "string \<Rightarrow> span \<Rightarrow> nat list" where
  "outermost_statement_offsets doc sp =
     (case body_lines doc sp of
        [] \<Rightarrow> []
      | l # ls \<Rightarrow> let shallowest = foldr min (map snd ls) (snd l)
                  in map fst (filter (\<lambda>(_, indent). indent = shallowest) (l # ls)))"

text \<open>The ends of the matches of a newline, blanks or tabs, and a newline.\<close>

function blank_line_ends :: "nat \<Rightarrow> string \<Rightarrow> nat list" where
  "blank_line_ends i s =
     (case s of
        [] \<Rightarrow> []
      | c # cs \<Rightarrow>
          let gap = length (takeWhile (\<lambda>x. x = CHR '' '' \<or> x = CHR 0x09) cs)
          in if c = CHR 0x0A \<and> starts_newline (drop gap cs)
             then (i + gap + 2) # blank_line_ends (i + gap + 2) (drop (Suc gap) cs)
             else blank_line_ends (Suc i) cs)"
  by pat_completeness auto

termination
  by (relation "measure (\<lambda>(_, s). length s)") auto

declare blank_line_ends.simps [simp del]

definition blank_line_offsets :: "string \<Rightarrow> span \<Rightarrow> nat list" where
  "blank_line_offsets doc sp =
     filter (\<lambda>i. fst sp < i \<and> i < snd sp)
       (map (\<lambda>i. fst sp + i) (blank_line_ends 0 (slice doc (fst sp) (snd sp))))"

section \<open>Bracket depths\<close>

text \<open>\<open>mark a b depth depths\<close> writes the depth at the positions from \<open>a\<close> to before \<open>b\<close>.\<close>

definition mark :: "nat \<Rightarrow> nat \<Rightarrow> nat \<Rightarrow> nat list \<Rightarrow> nat list" where
  "mark a b depth depths = take a depths @ replicate (b - a) depth @ drop (max a b) depths"

text \<open>\<^verbatim>\<open>text.startswith(s, i)\<close> and \<^verbatim>\<open>text.find("*/", i, stop)\<close>.\<close>

definition at_offset :: "string \<Rightarrow> string \<Rightarrow> nat \<Rightarrow> bool" where
  "at_offset s doc i \<longleftrightarrow> starts_with s (drop i doc)"

definition find_comment_close :: "string \<Rightarrow> nat \<Rightarrow> nat \<Rightarrow> nat option" where
  "find_comment_close doc i stop = find (at_offset ''*/'' doc) [i..<stop - 1]"

function string_cursor :: "string \<Rightarrow> string \<Rightarrow> nat \<Rightarrow> nat \<Rightarrow> nat" where
  "string_cursor doc closer stop cursor =
     (if stop \<le> cursor then cursor
      else if doc ! cursor = CHR 0x5C then string_cursor doc closer stop (cursor + 2)
      else if at_offset closer doc cursor then cursor + length closer
      else if length closer = 1 \<and> doc ! cursor = CHR 0x0A then cursor
      else string_cursor doc closer stop (Suc cursor))"
  by pat_completeness auto

termination
  by (relation "measure (\<lambda>(_, _, stop, cursor). stop - cursor)") auto

declare string_cursor.simps [simp del]

definition string_closer :: "string \<Rightarrow> nat \<Rightarrow> string" where
  "string_closer doc index =
     (let triple = slice doc index (index + 3)
      in if triple = [CHR 0x22, CHR 0x22, CHR 0x22] \<or> triple = [CHR 0x27, CHR 0x27, CHR 0x27]
         then triple else [doc ! index])"

definition skip_string :: "string \<Rightarrow> nat \<Rightarrow> nat \<Rightarrow> nat" where
  "skip_string doc index stop =
     (let closer = string_closer doc index
      in min (string_cursor doc closer stop (index + length closer)) stop)"

definition line_rest :: "string \<Rightarrow> nat \<Rightarrow> nat \<Rightarrow> nat" where
  "line_rest doc stop index = run_until (\<lambda>c. c \<noteq> CHR 0x0A) doc stop index"

text \<open>One turn of the scan: where it goes on, the depth there, and the depths with what it passed.\<close>

definition bracket_step ::
  "string \<Rightarrow> nat \<Rightarrow> nat \<Rightarrow> nat \<Rightarrow> nat \<Rightarrow> nat list \<Rightarrow> nat \<times> nat \<times> nat list" where
  "bracket_step doc start stop index depth depths =
     (let c = doc ! index;
          depths = mark (index - start) (Suc index - start) depth depths;
          passed = (\<lambda>to. (to, depth, mark (index - start) (to - start) depth depths))
      in if c = CHR ''#'' \<or> at_offset ''//'' doc index then passed (line_rest doc stop index)
         else if at_offset ''/*'' doc index then
           passed (case find_comment_close doc (index + 2) stop of None \<Rightarrow> stop | Some close \<Rightarrow> close + 2)
         else if c \<in> {CHR 0x22, CHR 0x27, CHR 0x60} then passed (skip_string doc index stop)
         else (Suc index,
               if c \<in> set ''([{'' then Suc depth else if c \<in> set '')]}'' then depth - 1 else depth, depths))"

text \<open>The guard on the step is always met: every turn moves on.\<close>

function bracket_loop ::
  "string \<Rightarrow> nat \<Rightarrow> nat \<Rightarrow> nat \<Rightarrow> nat \<Rightarrow> nat list \<Rightarrow> nat list" where
  "bracket_loop doc start stop index depth depths =
     (if index < stop then
        let next_step = bracket_step doc start stop index depth depths
        in if index < fst next_step
           then bracket_loop doc start stop (fst next_step) (fst (snd next_step)) (snd (snd next_step))
           else snd (snd next_step)
      else depths[stop - start := depth])"
  by pat_completeness auto

termination
  by (relation "measure (\<lambda>(_, _, stop, index, _, _). stop - index)") (simp_all add: case_prod_beta)

declare bracket_loop.simps [simp del]

definition bracket_depths :: "string \<Rightarrow> span \<Rightarrow> nat list" where
  "bracket_depths doc sp =
     bracket_loop doc (fst sp) (snd sp) (fst sp) 0 (replicate (Suc (snd sp - fst sp)) 0)"

definition balanced :: "nat list \<Rightarrow> nat list \<Rightarrow> nat \<Rightarrow> nat list" where
  "balanced offsets depths start = filter (\<lambda>i. depths ! (i - start) = 0) offsets"

section \<open>Filling between boundaries\<close>

function fill_candidates ::
  "(string \<Rightarrow> nat) \<Rightarrow> chunker_config \<Rightarrow> string \<Rightarrow> nat \<Rightarrow> nat \<Rightarrow> nat option \<Rightarrow> nat list \<Rightarrow> span list" where
  "fill_candidates cnt cfg doc stop cursor furthest candidates =
     (case candidates of
        [] \<Rightarrow> (if cursor < stop then [(cursor, stop)] else [])
      | boundary # rest \<Rightarrow>
          if boundary \<le> cursor then fill_candidates cnt cfg doc stop cursor furthest rest
          else if cnt (slice doc cursor boundary) \<le> cf_target cfg
          then fill_candidates cnt cfg doc stop cursor (Some boundary) rest
          else case furthest of
                 None \<Rightarrow> (cursor, boundary) # fill_candidates cnt cfg doc stop boundary None rest
               | Some chosen \<Rightarrow>
                   (cursor, chosen) # fill_candidates cnt cfg doc stop chosen None
                     (if chosen = boundary then rest else candidates))"
  by pat_completeness auto

termination
  by (relation "measure (\<lambda>(_, _, _, _, _, furthest, candidates).
        2 * length candidates + (if furthest = None then 0 else 1))") auto

declare fill_candidates.simps [simp del]

definition fill_between ::
  "(string \<Rightarrow> nat) \<Rightarrow> chunker_config \<Rightarrow> string \<Rightarrow> span \<Rightarrow> nat list \<Rightarrow> span list" where
  "fill_between cnt cfg doc sp offsets =
     (let spans = fill_candidates cnt cfg doc (snd sp) (fst sp) None (offsets @ [snd sp])
      in if spans = [] then [sp] else spans)"

definition split_definition :: "(string \<Rightarrow> nat) \<Rightarrow> chunker_config \<Rightarrow> string \<Rightarrow> span \<Rightarrow> span list" where
  "split_definition cnt cfg doc sp =
     (let depths = bracket_depths doc sp;
          blanks = blank_line_offsets doc sp;
          outermost = outermost_statement_offsets doc sp;
          lines = line_start_offsets doc sp;
          options = filter (\<lambda>b. b \<noteq> [])
            [balanced blanks depths (fst sp), balanced outermost depths (fst sp),
             balanced lines depths (fst sp), lines]
      in case find (list_all (fits cnt cfg doc)) (map (fill_between cnt cfg doc sp) options) of
           None \<Rightarrow> hard_split cnt cfg doc sp
         | Some spans \<Rightarrow> spans)"

section \<open>Merging small spans\<close>

fun absorb ::
  "(string \<Rightarrow> nat) \<Rightarrow> chunker_config \<Rightarrow> string \<Rightarrow> nat \<Rightarrow> nat \<Rightarrow> span list \<Rightarrow> nat \<times> span list" where
  "absorb cnt cfg doc start stop [] = (stop, [])"
| "absorb cnt cfg doc start stop ((s, e) # rest) =
     (if cnt (slice doc start stop) < cf_minimum cfg \<and> cnt (slice doc start e) \<le> cf_target cfg
      then absorb cnt cfg doc start e rest else (stop, (s, e) # rest))"

lemma absorb_length: "length (snd (absorb cnt cfg doc start stop spans)) \<le> length spans"
  by (induction cnt cfg doc start stop spans rule: absorb.induct) auto

function merge_loop :: "(string \<Rightarrow> nat) \<Rightarrow> chunker_config \<Rightarrow> string \<Rightarrow> span list \<Rightarrow> span list" where
  "merge_loop cnt cfg doc spans =
     (case spans of
        [] \<Rightarrow> []
      | (start, stop) # rest \<Rightarrow>
          let r = absorb cnt cfg doc start stop rest
          in (start, fst r) # merge_loop cnt cfg doc (snd r))"
  by pat_completeness auto

termination
  by (relation "measure (\<lambda>(_, _, _, spans). length spans)") (auto simp: absorb_length le_imp_less_Suc)

declare merge_loop.simps [simp del]

definition merge_last :: "(string \<Rightarrow> nat) \<Rightarrow> chunker_config \<Rightarrow> string \<Rightarrow> span list \<Rightarrow> span list" where
  "merge_last cnt cfg doc merged =
     (if 1 < length merged then
        let (start, stop) = last merged; previous_start = fst (last (butlast merged))
        in if cnt (slice doc start stop) < cf_minimum cfg \<and>
              cnt (slice doc previous_start stop) \<le> cf_target cfg
           then butlast (butlast merged) @ [(previous_start, stop)] else merged
      else merged)"

definition merge_undersized :: "(string \<Rightarrow> nat) \<Rightarrow> chunker_config \<Rightarrow> string \<Rightarrow> span list \<Rightarrow> span list" where
  "merge_undersized cnt cfg doc spans = merge_last cnt cfg doc (merge_loop cnt cfg doc spans)"

section \<open>Chunks\<close>

fun overlap_choice ::
  "(string \<Rightarrow> nat) \<Rightarrow> chunker_config \<Rightarrow> string \<Rightarrow> nat \<Rightarrow> nat list \<Rightarrow> nat \<Rightarrow> nat" where
  "overlap_choice cnt cfg doc previous_end [] chosen = chosen"
| "overlap_choice cnt cfg doc previous_end (c # cs) chosen =
     (if cf_overlap cfg \<le> cnt (slice doc c previous_end) then c
      else overlap_choice cnt cfg doc previous_end cs c)"

definition overlap_start ::
  "(string \<Rightarrow> nat) \<Rightarrow> chunker_config \<Rightarrow> string \<Rightarrow> span \<Rightarrow> nat \<Rightarrow> nat" where
  "overlap_start cnt cfg doc previous stop =
     (if cf_overlap cfg = 0 then snd previous
      else
        let sentences = split_sentences (slice doc (fst previous) (snd previous))
        in if sentences = [] then snd previous
           else
             let chosen = overlap_choice cnt cfg doc (snd previous)
                   (map (\<lambda>s. fst previous + fst s) (rev sentences)) (snd previous)
             in if cf_maximum cfg < cnt (slice doc chosen stop) then snd previous else chosen)"

definition definition_metadata :: "structure_marker list \<Rightarrow> nat \<Rightarrow> string option" where
  "definition_metadata definitions start =
     (case filter (\<lambda>m. mk_offset m \<le> start) definitions of
        [] \<Rightarrow> None
      | m # ms \<Rightarrow>
          (case mk_label (first_max mk_offset m ms) of
             None \<Rightarrow> None | Some l \<Rightarrow> if l = [] then None else Some l))"

fun to_chunks ::
  "(string \<Rightarrow> nat) \<Rightarrow> chunker_config \<Rightarrow> string \<Rightarrow> structure_marker list \<Rightarrow> span option \<Rightarrow> nat \<Rightarrow> span list \<Rightarrow>
   text_chunk list" where
  "to_chunks cnt cfg doc definitions previous n [] = []"
| "to_chunks cnt cfg doc definitions previous n ((start, stop) # rest) =
     (let body_start = (case previous of None \<Rightarrow> start | Some p \<Rightarrow> overlap_start cnt cfg doc p stop);
          content = slice doc body_start stop;
          tokens = cnt content
      in if tokens = 0 \<or> blank content then to_chunks cnt cfg doc definitions previous n rest
         else \<lparr> tc_ordinal = n, tc_text = content, tc_char_start = start, tc_char_end = stop,
                tc_token_count = tokens, tc_prefix_chars = start - body_start,
                tc_definition = definition_metadata definitions start \<rparr> #
              to_chunks cnt cfg doc definitions (Some (start, stop)) (Suc n) rest)"

definition chunk_code :: "(string \<Rightarrow> nat) \<Rightarrow> chunker_config \<Rightarrow> string \<Rightarrow> span list \<Rightarrow> span list" where
  "chunk_code cnt cfg doc secs =
     merge_undersized cnt cfg doc
       (concat (map (\<lambda>s. if fits cnt cfg doc s then [s] else split_definition cnt cfg doc s) secs))"

definition chunk_spans :: "(string \<Rightarrow> nat) \<Rightarrow> chunker_config \<Rightarrow> parsed_document \<Rightarrow> span list" where
  "chunk_spans cnt cfg pd =
     (if pd_kind pd = CODE then chunk_code cnt cfg (pd_text pd) (sections pd)
      else merge_undersized cnt cfg (pd_text pd)
             (concat (map (fill cnt cfg (pd_text pd)) (sections pd))))"

definition chunk :: "(string \<Rightarrow> nat) \<Rightarrow> chunker_config \<Rightarrow> parsed_document \<Rightarrow> text_chunk list" where
  "chunk cnt cfg pd =
     (if blank (pd_text pd) then []
      else to_chunks cnt cfg (pd_text pd) (filter (\<lambda>m. mk_kind m = DEFINITION) (pd_structure pd)) None 0
             (chunk_spans cnt cfg pd))"

end
