(* ===== verification/Chunking_Guarantees.thy ===== *)
theory Chunking_Guarantees
  imports Chunker
begin

text \<open>
  What the chunker promises: its spans tile the document whatever the counter says, each fits the model,
  and every chunk is a valid row whose offsets name its own text. What it relies on from the counter and
  the configuration is the locale \<open>chunking\<close>; the heuristic counter of the repository provides it.
\<close>

named_theorems tiling

section \<open>Every splitter tiles its section\<close>

lemma tiles_fst: "tiles a b ((s, e) # rest) \<Longrightarrow> s = a \<and> a < e \<and> tiles e b rest"
  by simp

lemma tiles_nonempty: "tiles a b xs \<Longrightarrow> a < b \<Longrightarrow> xs \<noteq> []"
  by (cases xs) auto

lemma hard_loop_tiles:
  assumes "cursor \<le> index" and "index \<le> stop" and "cursor < stop" and "stop \<le> length doc"
  shows "tiles cursor stop (hard_loop cnt doc goal stop cursor index)"
  using assms
proof (induction cnt doc goal stop cursor index rule: hard_loop.induct)
  case (1 cnt doc goal stop cursor index)
  show ?case
  proof (cases "index < stop")
    case True
    let ?i = "next_break doc stop index"
    have i: "cursor < ?i" "?i \<le> stop"
      using 1(3) next_break_gt [OF True 1(6)] next_break_le [OF 1(4)] by simp_all
    note IH = 1(1,2) [OF conjI [OF True 1(6)] refl]
    show ?thesis
    proof (cases "goal \<le> cnt (slice doc cursor ?i) \<and> ?i < stop")
      case emit: True
      have "tiles ?i stop (hard_loop cnt doc goal stop ?i ?i)"
        using IH(1) [OF emit] i emit 1(6) by simp
      then show ?thesis using emit True 1(6) i by (subst hard_loop.simps) (simp add: Let_def)
    next
      case False
      have "tiles cursor stop (hard_loop cnt doc goal stop cursor ?i)"
        using IH(2) [OF False] i 1(5,6) by simp
      then show ?thesis using False True 1(6) by (subst hard_loop.simps) (auto simp: Let_def)
    qed
  next
    case False
    then show ?thesis using 1(5) by (subst hard_loop.simps) simp
  qed
qed

lemma char_split_tiles: "cursor \<le> stop \<Longrightarrow> tiles cursor stop (char_split cnt cfg doc cursor stop)"
proof (induction cnt cfg doc cursor stop rule: char_split.induct)
  case (1 cnt cfg doc cursor stop)
  show ?case
  proof (cases "cursor < stop \<and> \<not> cnt (slice doc cursor stop) \<le> cf_maximum cfg")
    case True
    let ?n = "(stop - cursor) * cf_target cfg div cnt (slice doc cursor stop)"
    let ?cut = "halve cnt doc (cf_maximum cfg) cursor (min stop (cursor + max 1 ?n))"
    have cut: "cursor < ?cut" "?cut \<le> stop"
      using True halve_bounds [of cursor "min stop (cursor + max 1 ?n)" cnt doc "cf_maximum cfg"] by auto
    have "tiles ?cut stop (char_split cnt cfg doc ?cut stop)"
      using 1(1) [OF conjunct1 [OF True] refl conjunct2 [OF True] refl] cut by simp
    then show ?thesis using True cut by (subst char_split.simps) (simp add: Let_def)
  next
    case False
    then show ?thesis using 1(2) by (subst char_split.simps) (auto simp: Let_def)
  qed
qed

lemma refine_where_tiles:
  assumes "tiles a b xs" and "\<And>s. s \<in> set xs \<Longrightarrow> fst s < snd s \<Longrightarrow> tiles (fst s) (snd s) (f s)"
  shows "tiles a b (concat (map (\<lambda>s. if p s then [s] else f s) xs))"
  using assms(1) by (rule tiles_refine) (use assms(2) in force)

lemma hard_split_tiles [tiling]:
  assumes "fst sp < snd sp" and "snd sp \<le> length doc"
  shows "tiles (fst sp) (snd sp) (hard_split cnt cfg doc sp)"
proof -
  have "tiles (fst sp) (snd sp) (hard_loop cnt doc (cf_target cfg) (snd sp) (fst sp) (fst sp))"
    using assms by (simp add: hard_loop_tiles)
  then show ?thesis
    by (auto simp: hard_split_def Let_def intro!: refine_where_tiles char_split_tiles)
qed

lemma fill_loop_tiles:
  assumes "ascending lb n sentences" and "cursor \<le> start + lb" and "accumulated \<noteq> 0 \<longrightarrow> cursor < start + lb"
    and "cursor < stop" and "start + n \<le> stop"
  shows "tiles cursor stop (fill_loop cnt cfg doc start stop cursor accumulated sentences)"
  using assms
proof (induction sentences arbitrary: lb cursor accumulated)
  case (Cons s sentences)
  obtain rs re where s: "s = (rs, re)" by (cases s)
  with Cons.prems have b: "lb \<le> rs" "rs < re" "re \<le> n" and asc: "ascending re n sentences" by auto
  let ?t = "cnt (slice doc (start + rs) (start + re))"
  show ?case
  proof (cases "accumulated \<noteq> 0 \<and> cf_target cfg < accumulated + ?t")
    case True
    have "tiles (start + rs) stop (fill_loop cnt cfg doc start stop (start + rs) ?t sentences)"
      using b Cons.prems(5) by (intro Cons.IH [OF asc]) auto
    then show ?thesis using True s b Cons.prems by (simp add: Let_def)
  next
    case False
    have "tiles cursor stop (fill_loop cnt cfg doc start stop cursor (accumulated + ?t) sentences)"
      using b Cons.prems by (intro Cons.IH [OF asc]) auto
    then show ?thesis using False s by (auto simp: Let_def)
  qed
qed simp

lemma fill_tiles [tiling]:
  assumes "fst sp < snd sp" and "snd sp \<le> length doc"
  shows "tiles (fst sp) (snd sp) (fill cnt cfg doc sp)"
proof -
  obtain a b where sp: "sp = (a, b)" by (cases sp)
  let ?ss = "split_sentences (slice doc a b)"
  have "ascending 0 (b - a) ?ss"
    using split_sentences_ascending [of "slice doc a b"] assms sp by (simp add: length_slice)
  then have loop: "tiles a b (fill_loop cnt cfg doc a b a 0 ?ss)"
    using assms sp by (intro fill_loop_tiles) auto
  have refined: "tiles a b (concat (map (\<lambda>s. if fits cnt cfg doc s then [s] else hard_split cnt cfg doc s)
      (fill_loop cnt cfg doc a b a 0 ?ss)))"
  proof (rule refine_where_tiles [OF loop])
    fix s assume s: "s \<in> set (fill_loop cnt cfg doc a b a 0 ?ss)" "fst s < snd s"
    then have "snd s \<le> b" using tiles_member [OF loop, of "fst s" "snd s"] by simp
    then show "tiles (fst s) (snd s) (hard_split cnt cfg doc s)"
      using s assms(2) sp by (intro hard_split_tiles) auto
  qed
  show ?thesis
    using assms sp refined hard_split_tiles [OF assms] by (simp add: fill_def Let_def)
qed

text \<open>Candidate boundaries within the section.\<close>

lemma fill_candidates_tiles:
  assumes "\<forall>c \<in> set candidates. c \<le> stop" and "cursor \<le> stop"
    and "\<forall>f. furthest = Some f \<longrightarrow> cursor < f \<and> f \<le> stop"
  shows "tiles cursor stop (fill_candidates cnt cfg doc stop cursor furthest candidates)"
  using assms
proof (induction cnt cfg doc stop cursor furthest candidates rule: fill_candidates.induct)
  case (1 cnt cfg doc stop cursor furthest candidates)
  show ?case
  proof (cases candidates)
    case Nil
    then show ?thesis using 1(6) by (subst fill_candidates.simps) auto
  next
    case (Cons b rest)
    then have b: "b \<le> stop" "\<forall>c \<in> set rest. c \<le> stop" using 1(5) by auto
    show ?thesis
    proof (cases "b \<le> cursor")
      case True
      have "tiles cursor stop (fill_candidates cnt cfg doc stop cursor furthest rest)"
        by (rule 1(1) [OF Cons True b(2) 1(6,7)])
      then show ?thesis using Cons True by (subst fill_candidates.simps) simp
    next
      case later: False
      show ?thesis
      proof (cases "cnt (slice doc cursor b) \<le> cf_target cfg")
        case True
        have "tiles cursor stop (fill_candidates cnt cfg doc stop cursor (Some b) rest)"
          using 1(2) [OF Cons later True b(2) 1(6)] b(1) later by simp
        then show ?thesis using Cons True later by (subst fill_candidates.simps) simp
      next
        case over: False
        show ?thesis
        proof (cases furthest)
          case None
          have "tiles b stop (fill_candidates cnt cfg doc stop b None rest)"
            using 1(3) [OF Cons later over None b(2,1)] by simp
          then show ?thesis using Cons later over None by (subst fill_candidates.simps) simp
        next
          case (Some f)
          have f: "cursor < f" "f \<le> stop" using 1(7) Some by auto
          have "tiles f stop (fill_candidates cnt cfg doc stop f None (if f = b then rest else candidates))"
            using 1(4) [OF Cons later over Some _ f(2)] b 1(5) by auto
          then show ?thesis using Cons later over Some f(1) by (subst fill_candidates.simps) simp
        qed
      qed
    qed
  qed
qed

lemma fill_between_tiles:
  assumes "fst sp < snd sp" and "\<forall>c \<in> set offsets. c \<le> snd sp"
  shows "tiles (fst sp) (snd sp) (fill_between cnt cfg doc sp offsets)"
proof -
  have "tiles (fst sp) (snd sp) (fill_candidates cnt cfg doc (snd sp) (fst sp) None (offsets @ [snd sp]))"
    using assms by (intro fill_candidates_tiles) auto
  moreover from tiles_nonempty [OF this assms(1)]
  have "fill_candidates cnt cfg doc (snd sp) (fst sp) None (offsets @ [snd sp]) \<noteq> []" .
  ultimately show ?thesis by (simp add: fill_between_def Let_def)
qed

lemma concat_split_lines: "concat (split_lines s) = s"
proof (induction s rule: split_lines.induct)
  case (1 s)
  have split: "takeWhile (\<lambda>c. \<not> is_line_end c) s @ dropWhile (\<lambda>c. \<not> is_line_end c) s = s" by simp
  show ?case
  proof (cases "dropWhile (\<lambda>c. \<not> is_line_end c) s")
    case Nil
    then show ?thesis by (subst split_lines.simps) (simp only: list.case concat.simps append_Nil2 if_cancel split: if_split; simp)
  next
    case (Cons c cs)
    then have ne: "s \<noteq> []" by auto
    have s: "s = (takeWhile (\<lambda>c. \<not> is_line_end c) s @ [c]) @ cs" using split Cons by simp
    show ?thesis
    proof (cases "c = CHR 0x0D \<and> starts_newline cs")
      case True
      then have "cs = hd cs # tl cs" by (cases cs) auto
      moreover have "concat (split_lines (tl cs)) = tl cs" using 1(1) [OF ne Cons refl True] .
      ultimately have "concat (split_lines s) = (takeWhile (\<lambda>c. \<not> is_line_end c) s @ [c]) @ hd cs # tl cs"
        using True ne Cons by (subst split_lines.simps) (simp add: Let_def)
      then show ?thesis using s \<open>cs = hd cs # tl cs\<close> by simp
    next
      case False
      have "concat (split_lines cs) = cs" using 1(2) [OF ne Cons refl False] .
      then have "concat (split_lines s) = (takeWhile (\<lambda>c. \<not> is_line_end c) s @ [c]) @ cs"
        using False ne Cons by (subst split_lines.simps) (auto simp: Let_def)
      then show ?thesis using s by simp
    qed
  qed
qed

lemma found_lines_le: "(x, i) \<in> set (found_lines offset ls) \<Longrightarrow> x \<le> offset + length (concat ls)"
  by (induction offset ls rule: found_lines.induct) (fastforce split: if_splits)+

lemma body_lines_le:
  assumes "fst sp \<le> snd sp" and "(x, i) \<in> set (body_lines doc sp)"
  shows "x \<le> snd sp"
proof -
  let ?found = "found_lines 0 (split_lines (slice doc (fst sp) (snd sp)))"
  obtain y where y: "x = fst sp + y" "(y, i) \<in> set ?found"
    using assms(2) by (auto simp: body_lines_def Let_def split: if_splits dest: list.set_sel(2) [rotated])
  then have "y \<le> length (slice doc (fst sp) (snd sp))"
    using found_lines_le [OF y(2)] by (simp add: concat_split_lines)
  then have "y \<le> snd sp - fst sp" by (simp add: slice_def)
  with assms(1) show ?thesis unfolding y(1) by linarith
qed

lemma split_definition_tiles [tiling]:
  assumes "fst sp < snd sp" and "snd sp \<le> length doc"
  shows "tiles (fst sp) (snd sp) (split_definition cnt cfg doc sp)"
proof -
  let ?d = "bracket_depths doc sp"
  let ?options = "filter (\<lambda>b. b \<noteq> []) [balanced (blank_line_offsets doc sp) ?d (fst sp),
    balanced (outermost_statement_offsets doc sp) ?d (fst sp),
    balanced (line_start_offsets doc sp) ?d (fst sp), line_start_offsets doc sp]"
  have lines: "c \<le> snd sp" if "c \<in> set (line_start_offsets doc sp)" for c
    using that body_lines_le [of sp] assms(1) by (fastforce simp: line_start_offsets_def)
  have outer: "c \<in> set (line_start_offsets doc sp)" if "c \<in> set (outermost_statement_offsets doc sp)" for c
    using that unfolding outermost_statement_offsets_def line_start_offsets_def
    by (simp only: Let_def split: list.splits) (auto split: if_splits)
  have blanks: "c \<le> snd sp" if "c \<in> set (blank_line_offsets doc sp)" for c
    using that by (simp add: blank_line_offsets_def)
  have within: "\<forall>c \<in> set b. c \<le> snd sp" if "b \<in> set ?options" for b
    using that lines lines [OF outer] blanks unfolding balanced_def by (auto split: if_splits)
  show ?thesis
  proof (cases "find (list_all (fits cnt cfg doc)) (map (fill_between cnt cfg doc sp) ?options)")
    case None
    then show ?thesis using hard_split_tiles [OF assms] by (simp add: split_definition_def Let_def)
  next
    case (Some spans)
    from find_SomeD [OF this] obtain b where "b \<in> set ?options" "spans = fill_between cnt cfg doc sp b"
      unfolding set_map by blast
    moreover from this have "tiles (fst sp) (snd sp) spans"
      using fill_between_tiles [OF assms(1) within] by simp
    ultimately show ?thesis using Some by (simp add: split_definition_def Let_def)
  qed
qed

section \<open>Sections and merging\<close>

lemma absorb_tiles:
  "start < stop \<Longrightarrow> tiles stop b rest \<Longrightarrow>
   start < fst (absorb cnt cfg doc start stop rest) \<and>
   tiles (fst (absorb cnt cfg doc start stop rest)) b (snd (absorb cnt cfg doc start stop rest))"
  by (induction cnt cfg doc start stop rest rule: absorb.induct) auto

lemma merge_loop_tiles: "tiles a b spans \<Longrightarrow> tiles a b (merge_loop cnt cfg doc spans)"
proof (induction cnt cfg doc spans arbitrary: a rule: merge_loop.induct)
  case (1 cnt cfg doc spans)
  show ?case
  proof (cases spans)
    case Nil
    then show ?thesis using 1(2) by (subst merge_loop.simps) simp
  next
    case (Cons s rest)
    obtain start stop where s: "s = (start, stop)" by (cases s)
    let ?r = "absorb cnt cfg doc start stop rest"
    have t: "start = a" "start < fst ?r" "tiles (fst ?r) b (snd ?r)"
      using 1(2) Cons s absorb_tiles [of start stop b rest] by auto
    have "tiles (fst ?r) b (merge_loop cnt cfg doc (snd ?r))" by (rule 1(1) [OF Cons s [symmetric] refl t(3)])
    then show ?thesis using Cons s t by (subst merge_loop.simps) (simp add: Let_def)
  qed
qed

lemma tiles_split: "tiles a b (xs @ ys) \<Longrightarrow> \<exists>m. tiles a m xs \<and> tiles m b ys"
  by (induction a b xs rule: tiles.induct) auto

lemma two_last:
  assumes "1 < length xs"
  obtains ys p s where "xs = ys @ [p, s]"
proof -
  obtain zs s where zs: "xs = zs @ [s]" using assms by (cases xs rule: rev_cases) auto
  then obtain ys p where "zs = ys @ [p]" using assms by (cases zs rule: rev_cases) auto
  with zs that show ?thesis by simp
qed

lemma merge_last_tiles: "tiles a b merged \<Longrightarrow> tiles a b (merge_last cnt cfg doc merged)"
proof (cases "1 < length merged")
  case True
  assume t: "tiles a b merged"
  obtain ys p s where m: "merged = ys @ [p, s]" using two_last [OF True] .
  obtain m' where "tiles a m' ys" "tiles m' b [p, s]" using tiles_split t m by blast
  then have "tiles a b (ys @ [(fst p, snd s)])"
    by (intro tiles_append [of a m']) (cases p; cases s; auto dest: less_trans)+
  then show ?thesis using t m by (cases p; cases s) (auto simp: merge_last_def Let_def butlast_append)
qed (simp add: merge_last_def)

lemma merge_undersized_tiles [tiling]: "tiles a b spans \<Longrightarrow> tiles a b (merge_undersized cnt cfg doc spans)"
  by (simp add: merge_undersized_def merge_last_tiles merge_loop_tiles)

lemma bounds_tile:
  "sorted (a # os @ [b]) \<Longrightarrow> a < b \<Longrightarrow>
   tiles a b (filter (\<lambda>(x, y). x < y) (zip (a # os @ [b]) (os @ [b])))"
proof (induction os arbitrary: a)
  case (Cons x os)
  show ?case
  proof (cases "a < x")
    case True
    show ?thesis
    proof (cases "x < b")
      case lt: True
      then show ?thesis using Cons.IH [of x] Cons.prems True by simp
    next
      case False
      then have "x = b" "\<forall>y \<in> set os. y = b"
        using Cons.prems by (auto simp: sorted_append intro: order_antisym)
      have "u = b \<and> v = b" if "(u, v) \<in> set (zip (x # os @ [b]) (os @ [b]))" for u v
        using set_zip_leftD [OF that] set_zip_rightD [OF that] \<open>x = b\<close> \<open>\<forall>y \<in> set os. y = b\<close> by auto
      then have "filter (\<lambda>(x, y). x < y) (zip (x # os @ [b]) (os @ [b])) = []"
        by (fastforce simp: filter_empty_conv)
      then show ?thesis using True \<open>x = b\<close> by simp
    qed
  next
    case False
    then have "x = a" using Cons.prems by simp
    then show ?thesis using Cons.IH [of a] Cons.prems by simp
  qed
qed simp

lemma sections_tile: "pd_text pd \<noteq> [] \<Longrightarrow> tiles 0 (length (pd_text pd)) (sections pd)"
  unfolding sections_def Let_def
  by (simp del: zip.simps zip_Cons_Cons, rule bounds_tile) (auto simp: sorted_append)

lemma sections_within:
  assumes "pd_text pd \<noteq> []" and "s \<in> set (sections pd)"
  shows "fst s < snd s" and "snd s \<le> length (pd_text pd)"
  using tiles_member [OF sections_tile [OF assms(1)], of "fst s" "snd s"] assms(2) by simp_all

lemma chunk_spans_tiles:
  assumes "pd_text pd \<noteq> []"
  shows "tiles 0 (length (pd_text pd)) (chunk_spans cnt cfg pd)"
proof -
  have code: "tiles 0 (length (pd_text pd)) (concat (map (\<lambda>s. if fits cnt cfg (pd_text pd) s then [s]
      else split_definition cnt cfg (pd_text pd) s) (sections pd)))"
    by (rule refine_where_tiles [OF sections_tile [OF assms]])
      (auto intro: split_definition_tiles sections_within [OF assms])
  have prose: "tiles 0 (length (pd_text pd)) (concat (map (fill cnt cfg (pd_text pd)) (sections pd)))"
    by (rule tiles_refine [OF sections_tile [OF assms]])
      (use fill_tiles sections_within [OF assms] in force)
  show ?thesis using code prose by (simp add: chunk_spans_def chunk_code_def tiling)
qed

section \<open>What a chunk is\<close>

definition chunk_ok :: "(string \<Rightarrow> nat) \<Rightarrow> chunker_config \<Rightarrow> string \<Rightarrow> text_chunk \<Rightarrow> bool" where
  "chunk_ok cnt cfg doc c \<longleftrightarrow>
     tc_char_start c < tc_char_end c \<and> tc_char_end c \<le> length doc \<and>
     tc_prefix_chars c \<le> tc_char_start c \<and>
     tc_text c = slice doc (tc_char_start c - tc_prefix_chars c) (tc_char_end c) \<and>
     tc_token_count c = cnt (tc_text c) \<and> 0 < tc_token_count c \<and> tc_token_count c \<le> cf_maximum cfg"

definition chunk_span :: "text_chunk \<Rightarrow> span" where
  "chunk_span c = (tc_char_start c, tc_char_end c)"

definition chunk_entity :: "text_chunk \<Rightarrow> memory_chunk" where
  "chunk_entity c =
     \<lparr> ch_ordinal = int (tc_ordinal c), ch_token_count = int (tc_token_count c),
       ch_char_start = int (tc_char_start c), ch_char_end = int (tc_char_end c),
       ch_prefix_chars = int (tc_prefix_chars c) \<rparr>"

lemma drop_slice: "drop n (slice xs a b) = slice xs (a + n) b"
  by (simp add: slice_def drop_take add.commute)

lemma chunk_ok_body:
  "chunk_ok cnt cfg doc c \<Longrightarrow>
   drop (tc_prefix_chars c) (tc_text c) = slice doc (tc_char_start c) (tc_char_end c)"
  by (simp add: chunk_ok_def drop_slice)

lemma chunk_ok_entity:
  "chunk_ok cnt cfg doc c \<Longrightarrow> memory_chunk_post_init (chunk_entity c) = Inr (chunk_entity c)"
  by (auto simp: chunk_ok_def memory_chunk_post_init_def chunk_entity_def)

lemma overlap_choice_le:
  "\<forall>c \<in> set cs. c \<le> p \<Longrightarrow> chosen \<le> p \<Longrightarrow> overlap_choice cnt cfg doc p cs chosen \<le> p"
  by (induction cs arbitrary: chosen) auto

lemma ascending_starts: "ascending a n ss \<Longrightarrow> (s, e) \<in> set ss \<Longrightarrow> s < n"
  by (induction a n ss rule: ascending.induct) auto

lemma overlap_start_le:
  assumes "fst p < snd p" and "snd p \<le> length doc"
  shows "overlap_start cnt cfg doc p stop \<le> snd p"
proof -
  have "ascending 0 (snd p - fst p) (split_sentences (slice doc (fst p) (snd p)))"
    using split_sentences_ascending [of "slice doc (fst p) (snd p)"] assms by (simp add: length_slice)
  from ascending_starts [OF this]
  have "overlap_choice cnt cfg doc (snd p)
      (map (\<lambda>s. fst p + fst s) (rev (split_sentences (slice doc (fst p) (snd p))))) (snd p) \<le> snd p"
    by (intro overlap_choice_le) force+
  then show ?thesis by (simp add: overlap_start_def Let_def)
qed

lemma overlap_start_fits:
  "overlap_start cnt cfg doc p stop = snd p \<or>
   cnt (slice doc (overlap_start cnt cfg doc p stop) stop) \<le> cf_maximum cfg"
  by (auto simp: overlap_start_def Let_def)

lemma blank_append: "blank (xs @ ys) \<longleftrightarrow> blank xs \<and> blank ys"
  by (auto simp: blank_iff)

lemma blank_Nil [simp]: "blank []"
  by (simp add: blank_iff)

lemma blank_slice_nth: "blank (slice doc a b) \<Longrightarrow> a \<le> i \<Longrightarrow> i < b \<Longrightarrow> b \<le> length doc \<Longrightarrow> is_space (doc ! i)"
proof -
  assume "blank (slice doc a b)" "a \<le> i" "i < b" "b \<le> length doc"
  moreover from this have "slice doc a b ! (i - a) = doc ! i" by (simp add: slice_def)
  moreover from calculation have "i - a < length (slice doc a b)" by (simp add: length_slice)
  ultimately show ?thesis by (metis blank_iff nth_mem)
qed

lemma ascending_weaken: "ascending a n xs \<Longrightarrow> b \<le> a \<Longrightarrow> ascending b n xs"
  by (cases xs) auto

section \<open>The contract with the counter\<close>

text \<open>
  What the chunker relies on: a single character fits the model, the target is no larger than the
  maximum, white space in front of a text is not counted, and only white space counts nothing.
\<close>

locale chunking =
  fixes cnt :: "string \<Rightarrow> nat" and cfg :: chunker_config
  assumes char_fits: "length xs \<le> 1 \<Longrightarrow> cnt xs \<le> cf_maximum cfg"
    and goal_le: "cf_target cfg \<le> cf_maximum cfg"
    and leading_blank: "blank xs \<Longrightarrow> cnt (xs @ ys) = cnt ys"
    and zero_blank: "cnt xs = 0 \<Longrightarrow> blank xs"
begin

lemma halve_fits: "cnt (slice doc cursor (halve cnt doc (cf_maximum cfg) cursor stop)) \<le> cf_maximum cfg"
proof (induction "stop - cursor" arbitrary: stop rule: less_induct)
  case less
  show ?case
  proof (cases "1 < stop - cursor \<and> cf_maximum cfg < cnt (slice doc cursor stop)")
    case True
    then have "cursor + max 1 ((stop - cursor) div 2) - cursor < stop - cursor" by auto
    from less [OF this] True show ?thesis by (subst halve.simps) simp
  next
    case False
    then have "halve cnt doc (cf_maximum cfg) cursor stop = stop" by (subst halve.simps) auto
    moreover have "length (slice doc cursor stop) \<le> stop - cursor" by (simp add: slice_def)
    ultimately show ?thesis using False char_fits [of "slice doc cursor stop"] by fastforce
  qed
qed

lemma char_split_fits: "list_all (fits cnt cfg doc) (char_split cnt cfg doc cursor stop)"
proof (induction "stop - cursor" arbitrary: cursor rule: less_induct)
  case less
  let ?n = "(stop - cursor) * cf_target cfg div cnt (slice doc cursor stop)"
  let ?cut = "halve cnt doc (cf_maximum cfg) cursor (min stop (cursor + max 1 ?n))"
  show ?case
  proof (cases "cursor < stop \<and> \<not> cnt (slice doc cursor stop) \<le> cf_maximum cfg")
    case True
    then have "stop - ?cut < stop - cursor" using cut_gt by (intro diff_less_mono2) simp_all
    from less [OF this] have "list_all (fits cnt cfg doc) (char_split cnt cfg doc ?cut stop)" .
    then show ?thesis using True halve_fits by (subst char_split.simps) (simp add: Let_def fits_def)
  next
    case False
    then show ?thesis by (subst char_split.simps) (auto simp: Let_def fits_def)
  qed
qed

lemma refine_where_fits:
  "(\<And>s. s \<in> set xs \<Longrightarrow> list_all (fits cnt cfg doc) (f s)) \<Longrightarrow>
   list_all (fits cnt cfg doc) (concat (map (\<lambda>s. if fits cnt cfg doc s then [s] else f s) xs))"
  by (induction xs) auto

lemma hard_split_fits: "list_all (fits cnt cfg doc) (hard_split cnt cfg doc sp)"
proof -
  have "list_all (fits cnt cfg doc) xs" if "\<not> list_ex (\<lambda>s. \<not> fits cnt cfg doc s) xs" for xs
    using that by (induction xs) auto
  then show ?thesis
    by (simp add: hard_split_def Let_def refine_where_fits char_split_fits)
qed

lemma fill_fits: "list_all (fits cnt cfg doc) (fill cnt cfg doc sp)"
  using goal_le
  by (cases sp) (auto simp: fill_def Let_def hard_split_fits refine_where_fits, simp add: fits_def)

lemma split_definition_fits: "list_all (fits cnt cfg doc) (split_definition cnt cfg doc sp)"
  by (auto simp: split_definition_def Let_def hard_split_fits split: option.split dest: find_SomeD)

lemma absorb_fits:
  "fits cnt cfg doc (start, stop) \<Longrightarrow> list_all (fits cnt cfg doc) rest \<Longrightarrow>
   fits cnt cfg doc (start, fst (absorb cnt cfg doc start stop rest)) \<and>
   list_all (fits cnt cfg doc) (snd (absorb cnt cfg doc start stop rest))"
  by (induction rest arbitrary: stop) (use goal_le in \<open>auto simp: fits_def\<close>)

lemma merge_loop_fits:
  "list_all (fits cnt cfg doc) spans \<Longrightarrow> list_all (fits cnt cfg doc) (merge_loop cnt cfg doc spans)"
proof (induction "length spans" arbitrary: spans rule: less_induct)
  case less
  show ?case
  proof (cases spans)
    case Nil
    then show ?thesis by (subst merge_loop.simps) simp
  next
    case (Cons s rest)
    obtain start stop where s: "s = (start, stop)" by (cases s)
    let ?r = "absorb cnt cfg doc start stop rest"
    have r: "fits cnt cfg doc (start, fst ?r)" "list_all (fits cnt cfg doc) (snd ?r)"
      using absorb_fits [of doc start stop rest] less.prems Cons s by simp_all
    have "length (snd ?r) < length spans"
      using absorb_length [of cnt cfg doc start stop rest] Cons by simp
    from less.hyps [OF this r(2)] show ?thesis
      using Cons s r(1) by (subst merge_loop.simps) (simp add: Let_def)
  qed
qed

lemma merge_last_fits:
  assumes "list_all (fits cnt cfg doc) merged"
  shows "list_all (fits cnt cfg doc) (merge_last cnt cfg doc merged)"
proof (cases "1 < length merged")
  case True
  obtain ys p s where m: "merged = ys @ [p, s]" using two_last [OF True] .
  then show ?thesis using assms goal_le
    by (cases p; cases s) (auto simp: merge_last_def Let_def butlast_append fits_def)
qed (simp add: merge_last_def assms)

lemma chunk_spans_fits: "list_all (fits cnt cfg (pd_text pd)) (chunk_spans cnt cfg pd)"
proof -
  have "list_all (fits cnt cfg (pd_text pd)) (concat (map (fill cnt cfg (pd_text pd)) xs))" for xs
    by (induction xs) (simp_all add: fill_fits)
  then show ?thesis
    by (simp add: chunk_spans_def chunk_code_def merge_undersized_def merge_last_fits merge_loop_fits
        refine_where_fits split_definition_fits)
qed

text \<open>The chunks of a tiling, after a chunk whose span ended with only white space up to here.\<close>

definition after :: "string \<Rightarrow> span option \<Rightarrow> nat \<Rightarrow> bool" where
  "after doc previous a \<longleftrightarrow>
     (case previous of None \<Rightarrow> True
      | Some p \<Rightarrow> fst p < snd p \<and> snd p \<le> a \<and> blank (slice doc (snd p) a))"

lemma to_chunks_ok:
  assumes "tiles a b spans" and "b \<le> length doc" and "list_all (fits cnt cfg doc) spans" and "after doc previous a"
  shows "list_all (chunk_ok cnt cfg doc) (to_chunks cnt cfg doc defs previous n spans) \<and>
    ascending a b (map chunk_span (to_chunks cnt cfg doc defs previous n spans)) \<and>
    (\<forall>i. a \<le> i \<and> i < b \<and> \<not> is_space (doc ! i) \<longrightarrow>
       (\<exists>c \<in> set (to_chunks cnt cfg doc defs previous n spans). tc_char_start c \<le> i \<and> i < tc_char_end c))"
  using assms(1,3,4)
proof (induction spans arbitrary: a previous n)
  case (Cons s spans)
  obtain stop where s: "s = (a, stop)" and stop: "a < stop" and rest: "tiles stop b spans"
    using Cons.prems(1) by (cases s) auto
  have stop_le: "stop \<le> b" using rest by (rule tiles_le)
  have fits: "cnt (slice doc a stop) \<le> cf_maximum cfg" "list_all (fits cnt cfg doc) spans"
    using Cons.prems(2) s by (simp_all add: fits_def [of cnt cfg doc "(a, stop)"])
  define body where "body = (case previous of None \<Rightarrow> a | Some p \<Rightarrow> overlap_start cnt cfg doc p stop)"
  have body: "body \<le> a"
    using Cons.prems(3) overlap_start_le [of _ doc cnt cfg stop] stop stop_le assms(2)
    by (fastforce simp: body_def after_def split: option.splits)
  have content: "slice doc body stop = slice doc body a @ slice doc a stop"
    using slice_append [OF body less_imp_le [OF stop], of doc] by simp
  have small: "cnt (slice doc body stop) \<le> cf_maximum cfg"
  proof (cases previous)
    case None
    then show ?thesis using fits(1) by (simp add: body_def)
  next
    case (Some p)
    then have "blank (slice doc (snd p) a)" using Cons.prems(3) by (simp add: after_def)
    then show ?thesis
      using Some overlap_start_fits [of cnt cfg doc p stop] content leading_blank fits(1)
      by (auto simp: body_def)
  qed
  show ?case
  proof (cases "cnt (slice doc body stop) = 0 \<or> blank (slice doc body stop)")
    case True
    then have blank: "blank (slice doc a stop)"
      using zero_blank [of "slice doc body stop"] content by (metis blank_append)
    have "after doc previous stop"
    proof (cases previous)
      case (Some p)
      then have p: "fst p < snd p" "snd p \<le> a" "blank (slice doc (snd p) a)"
        using Cons.prems(3) by (simp_all add: after_def)
      have "slice doc (snd p) stop = slice doc (snd p) a @ slice doc a stop"
        by (rule slice_append [OF p(2) less_imp_le [OF stop], symmetric])
      then have "blank (slice doc (snd p) stop)" using p(3) blank by (simp only: blank_append)
      then show ?thesis using Some p stop by (simp add: after_def)
    qed (simp add: after_def)
    note IH = Cons.IH [OF rest fits(2) this, of n]
    have eq: "to_chunks cnt cfg doc defs previous n (s # spans) = to_chunks cnt cfg doc defs previous n spans"
      using True by (simp add: s Let_def flip: body_def)
    have "stop \<le> i" if "a \<le> i" "\<not> is_space (doc ! i)" for i
      using that blank_slice_nth [OF blank, of i] stop_le assms(2) by (meson le_trans not_le_imp_less)
    moreover have "ascending a b (map chunk_span (to_chunks cnt cfg doc defs previous n spans))"
      using IH less_imp_le [OF stop] by (blast intro: ascending_weaken)
    ultimately show ?thesis unfolding eq using IH by blast
  next
    case False
    have "after doc (Some (a, stop)) stop" using stop by (simp add: after_def)
    from Cons.IH [OF rest fits(2) this, of "Suc n"] show ?thesis
      using False s body stop stop_le small assms(2)
      by (auto simp: Let_def chunk_ok_def chunk_span_def not_less simp flip: body_def)
  qed
qed simp

lemma to_chunks_ordinals:
  "map tc_ordinal (to_chunks cnt cfg doc defs previous n spans) =
   [n..<n + length (to_chunks cnt cfg doc defs previous n spans)]"
proof (induction spans arbitrary: previous n)
  case (Cons s spans)
  show ?case
    using Cons.IH [of previous n] Cons.IH [of "Some s" "Suc n"]
    by (cases s) (auto simp: Let_def upt_rec [of n])
qed simp

lemma first_chunk_has_no_prefix:
  "to_chunks cnt cfg doc defs None n spans = c # cs \<Longrightarrow> tc_prefix_chars c = 0"
  by (induction spans) (auto simp: Let_def split: if_splits)

lemma chunk_result:
  "list_all (chunk_ok cnt cfg (pd_text pd)) (chunk cnt cfg pd) \<and>
   ascending 0 (length (pd_text pd)) (map chunk_span (chunk cnt cfg pd)) \<and>
   (\<forall>i. i < length (pd_text pd) \<and> \<not> is_space (pd_text pd ! i) \<longrightarrow>
      (\<exists>c \<in> set (chunk cnt cfg pd). tc_char_start c \<le> i \<and> i < tc_char_end c))"
proof (cases "blank (pd_text pd)")
  case True
  then show ?thesis by (auto simp: chunk_def blank_iff)
next
  case False
  then have "pd_text pd \<noteq> []" by auto
  from to_chunks_ok [OF chunk_spans_tiles [OF this] order_refl chunk_spans_fits, of None] False
  show ?thesis by (simp add: chunk_def after_def)
qed

end

section \<open>The repository's own counter\<close>

lemma count_tokens_char: "length xs \<le> 1 \<Longrightarrow> count_tokens xs \<le> 1"
  by (cases xs) (auto simp: count_tokens_def)

lemma space_not_word: "is_space c \<Longrightarrow> \<not> is_word c"
  by (auto simp: is_space_def is_word_def is_alnum_def is_ascii_letter_def is_digit_def Let_def)

lemma count_from_leading: "blank xs \<Longrightarrow> count_from False (xs @ ys) = count_from False ys"
  by (induction xs) (auto simp: blank_iff space_not_word)

lemma count_from_zero: "count_from False xs = 0 \<Longrightarrow> blank xs"
proof (induction xs)
  case (Cons c cs)
  then have "\<not> is_word c" "is_space c" by (auto split: if_splits)
  with Cons show ?case by (auto simp: blank_iff)
qed (simp add: blank_iff)

lemma config_goal_le: "cf_target (config_for_window w) \<le> cf_maximum (config_for_window w)"
proof -
  have "int_of_float (of_int m * (8 / 10)) \<le> m" if "1 \<le> m" for m :: int
    using that by (simp add: int_of_float_def) linarith
  then show ?thesis by (simp add: config_for_window_def Let_def nat_le_iff)
qed

interpretation heuristic: chunking count_tokens "config_for_window w"
proof
  fix xs ys :: string
  show "count_tokens xs \<le> cf_maximum (config_for_window w)" if "length xs \<le> 1"
    using count_tokens_char [OF that] by (simp add: config_for_window_def Let_def)
  show "cf_target (config_for_window w) \<le> cf_maximum (config_for_window w)" by (rule config_goal_le)
  show "count_tokens (xs @ ys) = count_tokens ys" if "blank xs"
    using count_from_leading [OF that] by (simp add: count_tokens_def)
  show "blank xs" if "count_tokens xs = 0"
    using that by (simp add: count_tokens_def count_from_zero)
qed

text \<open>The spans of any document that is not empty, prose or code, whatever the counter answers and however
  the sizes are configured, tile it: the first starts at 0, each starts where the last ended, none is
  empty and the last ends with the document.\<close>

theorem spans_tile_every_document:
  assumes "pd_text pd \<noteq> []"
  shows "tiles 0 (length (pd_text pd)) (chunk_spans cnt cfg pd)"
  by (rule chunk_spans_tiles [OF assms])

definition sample_document :: parsed_document where
  "sample_document = \<lparr> pd_text = ''One two. Three four.'', pd_structure = [], pd_kind = NOTE,
     pd_title = None, pd_metadata = [] \<rparr>"

theorem spans_tile_every_document_witness:
  "tiles 0 (length (pd_text sample_document)) (chunk_spans length (config_for_window 17) sample_document)"
  using spans_tile_every_document [of sample_document length "config_for_window 17"]
  by (simp add: sample_document_def)

text \<open>C36 Every chunk is a valid row that fits the model and names its own text: numbered from 0 in order, its
  text without the borrowed head is the document between its offsets, its token count is the counter's,
  positive and at most the maximum, and the first chunk borrows nothing. The counter is assumed to count
  a single character as no more than the maximum, to ignore leading white space and to count nothing
  only for white space.\<close>

theorem chunks_name_their_own_text:
  assumes "chunking cnt cfg"
  shows "map tc_ordinal (chunk cnt cfg pd) = [0..<length (chunk cnt cfg pd)] \<and>
         (\<forall>c \<in> set (chunk cnt cfg pd).
            drop (tc_prefix_chars c) (tc_text c) = slice (pd_text pd) (tc_char_start c) (tc_char_end c) \<and>
            memory_chunk_post_init (chunk_entity c) = Inr (chunk_entity c) \<and>
            tc_token_count c = cnt (tc_text c) \<and> tc_token_count c \<le> cf_maximum cfg) \<and>
         (\<forall>c cs. chunk cnt cfg pd = c # cs \<longrightarrow> tc_prefix_chars c = 0)"
proof (intro conjI ballI allI impI)
  have ok: "list_all (chunk_ok cnt cfg (pd_text pd)) (chunk cnt cfg pd)"
    using chunking.chunk_result [OF assms] by blast
  show "map tc_ordinal (chunk cnt cfg pd) = [0..<length (chunk cnt cfg pd)]"
    using chunking.to_chunks_ordinals [OF assms] by (simp add: chunk_def)
  fix c assume "c \<in> set (chunk cnt cfg pd)"
  with ok have c: "chunk_ok cnt cfg (pd_text pd) c" by (simp add: list_all_iff)
  show "drop (tc_prefix_chars c) (tc_text c) = slice (pd_text pd) (tc_char_start c) (tc_char_end c)"
    by (rule chunk_ok_body [OF c])
  show "memory_chunk_post_init (chunk_entity c) = Inr (chunk_entity c)" by (rule chunk_ok_entity [OF c])
  show "tc_token_count c = cnt (tc_text c)" "tc_token_count c \<le> cf_maximum cfg"
    using c by (auto simp: chunk_ok_def)
next
  fix c cs assume "chunk cnt cfg pd = c # cs"
  then show "tc_prefix_chars c = 0"
    using chunking.first_chunk_has_no_prefix [OF assms] by (auto simp: chunk_def split: if_splits)
qed

theorem chunks_name_their_own_text_witness:
  "map tc_ordinal (chunk count_tokens (config_for_window 17) sample_document) =
   [0..<length (chunk count_tokens (config_for_window 17) sample_document)]"
  using chunks_name_their_own_text [OF heuristic.chunking_axioms, of 17 sample_document] by blast



end
