(* ===== verification/Row_Identity.thy ===== *)
theory Row_Identity
  imports Deletion
begin

text \<open>
  A row keeps its item for life: no step of the corpus gives a row another source or key, and a row that
  was not there before has an id that was not drawn before. What refers to a memory by its id, as chunks
  and mentions do, therefore refers to the same item in every later corpus.
\<close>

definition keeps_rows :: "corpus \<Rightarrow> corpus \<Rightarrow> bool" where
  "keeps_rows c c' \<longleftrightarrow>
     c_next_id c \<le> c_next_id c' \<and>
     (\<forall>r \<in> set (c_memories c'). c_next_id c \<le> m_id r \<or>
        (\<exists>q \<in> set (c_memories c). m_id q = m_id r \<and> same_item (m_source q) (m_key q) r))"

named_theorems keeps \<open>what keeps the identity of rows\<close>

lemma keeps_rows_refl [keeps]: "keeps_rows c c"
  by (auto simp: keeps_rows_def)

lemma keeps_rows_trans:
  assumes "keeps_rows c c1" and "keeps_rows c1 c2"
  shows "keeps_rows c c2"
  unfolding keeps_rows_def
proof (intro conjI ballI)
  show "c_next_id c \<le> c_next_id c2" using assms by (auto simp: keeps_rows_def)
  fix r assume "r \<in> set (c_memories c2)"
  with assms(2) consider "c_next_id c1 \<le> m_id r"
    | q where "q \<in> set (c_memories c1)" "m_id q = m_id r" "same_item (m_source q) (m_key q) r"
    by (auto simp: keeps_rows_def)
  then show "c_next_id c \<le> m_id r \<or>
      (\<exists>q \<in> set (c_memories c). m_id q = m_id r \<and> same_item (m_source q) (m_key q) r)"
  proof cases
    case 1
    then show ?thesis using assms(1) by (auto simp: keeps_rows_def)
  next
    case 2
    then show ?thesis using assms(1) by (fastforce simp: keeps_rows_def same_item_def)
  qed
qed

lemma keeps_rows_sub:
  assumes "c_next_id c \<le> c_next_id c'"
    and "\<And>r. r \<in> set (c_memories c') \<Longrightarrow>
           \<exists>q \<in> set (c_memories c). m_id q = m_id r \<and> same_item (m_source q) (m_key q) r"
  shows "keeps_rows c c'"
  using assms by (auto simp: keeps_rows_def)

lemma keeps_rows_same:
  "c_memories c' = c_memories c \<Longrightarrow> c_next_id c \<le> c_next_id c' \<Longrightarrow> keeps_rows c c'"
  by (auto simp: keeps_rows_def)

lemma keeps_rows_update:
  assumes "c_memories c' = update_where p f (c_memories c)" and "c_next_id c \<le> c_next_id c'"
    and "\<And>r. m_id (f r) = m_id r \<and> m_source (f r) = m_source r \<and> m_key (f r) = m_key r"
  shows "keeps_rows c c'"
  by (rule keeps_rows_sub [OF assms(2)])
    (auto simp: assms(1,3) set_update_where same_item_def)

lemma keeps_rows_add:
  assumes "c_memories c' = add_version m (c_memories c)" and "c_next_id c \<le> m_id m"
    and "c_next_id c \<le> c_next_id c'"
  shows "keeps_rows c c'"
  using assms(2,3)
  by (auto simp: keeps_rows_def assms(1) add_version_def set_update_where same_item_def
      split: option.splits)

lemma keeps_rollback [keeps]: "keeps_rows c c' \<Longrightarrow> keeps_rows c (rollback c c')"
  by (rule keeps_rows_same) (auto simp: keeps_rows_def rollback_def)

lemma keeps_transaction [keeps]:
  "keeps_rows c (snd (body c)) \<Longrightarrow> keeps_rows c (snd (in_transaction body c))"
  by (auto simp: in_transaction_def keeps_rollback split: prod.splits sum.splits)

lemma keeps_then_do:
  assumes "keeps_rows c (snd (f c))" and "\<And>x c'. keeps_rows c' (snd (g x c'))"
  shows "keeps_rows c (snd (then_do f g c))"
  using assms by (auto simp: then_do_def intro: keeps_rows_trans split: prod.splits sum.splits)

lemma keeps_store_artifact [keeps]: "keeps_rows c (snd (store_artifact item c))"
  by (rule keeps_rows_same)
    (auto simp: store_artifact_next store_artifact_def split: option.split sum.split)

lemma log_event_memories: "c_memories (snd (log_event now f c)) = c_memories c"
proof (cases "log_event now f c")
  case (Pair r c')
  then show ?thesis by (cases r) (auto dest: log_event_Inl log_event_Inr(1))
qed

lemma keeps_log_event [keeps]: "keeps_rows c (snd (log_event now f c))"
  by (rule keeps_rows_same) (simp_all add: log_event_memories log_event_next)

lemma keeps_add_memory [keeps]: "keeps_rows c (snd (add_memory b now was e c))"
proof (cases "memory_from_event e (c_next_id c)")
  case (Inl err)
  then show ?thesis by (auto simp: add_memory_def intro: keeps_rows_same)
next
  case (Inr m)
  then have "m_id m = c_next_id c" by (rule memory_from_event_Inr)
  with Inr show ?thesis by (auto simp: add_memory_def Let_def intro!: keeps_rows_add [where m = m])
qed

lemma keeps_ingest_item [keeps]: "keeps_rows c (snd (ingest_item b now src item c))"
  unfolding ingest_item_def Let_def
  by (auto intro!: keeps_then_do keeps)

lemma keeps_bury_item [keeps]: "keeps_rows c (snd (bury_item b now s k i c))"
proof (cases "log_event now (absence_event ITEM_DELETED s k) c")
  case (Pair r c1)
  have c1: "c_memories c1 = c_memories c" "c_next_id c1 = Suc (c_next_id c)"
    using log_event_memories [of now "absence_event ITEM_DELETED s k" c]
      log_event_next [of now "absence_event ITEM_DELETED s k" c] Pair by simp_all
  then have "keeps_rows c c1"
    and "keeps_rows c (enqueue_job now (graph_sync_spec b [i] [])
           (c1\<lparr> c_memories := tombstone_row i t (c_memories c1) \<rparr>))" for t
    by (auto intro: keeps_rows_same keeps_rows_update simp: tombstone_row_def)
  with Pair show ?thesis by (auto simp: bury_item_def Let_def split: sum.splits)
qed

lemma keeps_bury_items [keeps]: "keeps_rows c (snd (bury_items b clock s ks n c))"
proof (induction ks arbitrary: n c)
  case (Cons km ks)
  obtain k m where km: "km = (k, m)" by force
  have "keeps_rows c (snd (in_transaction (bury_item b (clock (c_next_id c)) s k m) c))"
    by (intro keeps)
  with Cons.IH show ?case
    by (auto simp: km split: prod.splits sum.splits intro: keeps_rows_trans)
qed (simp add: keeps)

lemma keeps_sync_item: "keeps_rows c (snd st) \<Longrightarrow> keeps_rows c (snd (sync_item b clock src item st))"
proof (cases st)
  case (Pair sy c0)
  moreover have "keeps_rows c0 (snd (in_transaction (ingest_item b (clock (c_next_id c0)) src item) c0))"
    by (intro keeps)
  ultimately show "keeps_rows c (snd st) \<Longrightarrow> keeps_rows c (snd (sync_item b clock src item st))"
    by (auto simp: sync_item_def sync_ingest_def Let_def split: prod.splits sum.splits option.splits
        intro: keeps_rows_trans)
qed

lemma keeps_sync_items: "keeps_rows c (snd st) \<Longrightarrow> keeps_rows c (snd (fold (sync_item b clock src) items st))"
  by (induction items arbitrary: st) (simp_all add: keeps_sync_item)

lemma finish_sync_next [simp]: "c_next_id (finish_sync now src seen full c) = c_next_id c"
  by (simp add: finish_sync_def)

lemma keeps_finish [keeps]: "keeps_rows c (finish_sync now src seen full c)"
  by (rule keeps_rows_same) simp_all

lemma keeps_sync_source [keeps]: "keeps_rows c (snd (sync_source b clock observe sid full c))"
proof (cases "source_get sid c")
  case (Some src)
  obtain sy c1 where run: "fold (sync_item b clock src) (observe src full)
      (\<lparr> sy_report = empty_report, sy_keys = {}, sy_seen = src_cursor_seen src \<rparr>, c) = (sy, c1)"
    by force
  have c1: "keeps_rows c c1"
    using keeps_sync_items [of c "(_, c)" b clock src "observe src full", OF _] run
    by (metis keeps_rows_refl snd_conv)
  obtain res c2 where del: "detect_deletions b clock src (sy_keys sy) c1 = (res, c2)" by force
  have "keeps_rows c1 (snd (detect_deletions b clock src (sy_keys sy) c1))"
    unfolding detect_deletions_def Let_def by (intro keeps)
  then have c2: "keeps_rows c c2" using c1 del by (auto intro: keeps_rows_trans)
  show ?thesis
    using keeps_rows_trans [OF c1 keeps_finish] keeps_rows_trans [OF c2 keeps_finish] c2
    by (auto simp: sync_source_def Some run del split: sum.split)
qed (simp add: sync_source_def keeps)

lemma keeps_tombstone [keeps]: "keeps_rows c (snd (tombstone b clock i c))"
proof -
  have "keeps_rows c c'" if "bury_item b now s k j c = (r, c')" for now s k j r c'
    using keeps_bury_item [of c b now s k j] that by simp
  then have "keeps_rows c (snd (tombstone_body b now i c))" for now
    by (auto simp: tombstone_body_def keeps split: sum.split option.split prod.split)
  then show ?thesis unfolding tombstone_def by (rule keeps_transaction)
qed

lemma keeps_restore [keeps]: "keeps_rows c (snd (restore b clock i c))"
proof -
  have "keeps_rows c c'" if "ingest_item b now src item c = (r, c')" for now src item r c'
    using keeps_ingest_item [of c b now src item] that by simp
  then have "keeps_rows c (snd (restore_body b now i c))" for now
    by (auto simp: restore_body_def keeps split: sum.split option.split prod.split)
  then show ?thesis unfolding restore_def by (rule keeps_transaction)
qed

lemma keeps_purge_one [keeps]: "keeps_rows c (snd (purge_one b now item c))"
proof (cases "log_event now (absence_event ITEM_PURGED (it_source item) (it_key item)) c")
  case (Pair r c1)
  let ?e = "absence_event ITEM_PURGED (it_source item) (it_key item)"
  have c1: "c_memories c1 = c_memories c" "c_next_id c1 = Suc (c_next_id c)"
    using log_event_memories [of now ?e c] log_event_next [of now ?e c] Pair by simp_all
  have "\<exists>q \<in> set (c_memories c). m_id q = m_id r \<and> same_item (m_source q) (m_key q) r"
    if "r \<in> set (c_memories (snd (purge_one b now item c)))" for r
    using that
    by (intro bexI [of _ r])
      (auto simp: purge_one_def Let_def delete_memories_def delete_turns_def versions_of_def Pair c1
        split: sum.splits if_splits)
  then show ?thesis by (intro keeps_rows_sub purge_one_next)
qed

lemma keeps_purge_items [keeps]: "keeps_rows c (snd (purge_items b clock items rep shred c))"
proof (induction items arbitrary: rep shred c)
  case (Cons item items)
  have "keeps_rows c (snd (in_transaction (purge_one b (clock (c_next_id c)) item) c))"
    by (intro keeps)
  with Cons.IH show ?case
    by (auto split: prod.splits sum.splits intro: keeps_rows_trans)
qed (simp add: keeps)

lemma keeps_shred: "shred_blobs fails hs c = (n, surviving, c') \<Longrightarrow> keeps_rows c c'"
  by (drule shred_blobs_only_blobs) (auto intro: keeps_rows_same)

lemma keeps_purge [keeps]: "keeps_rows c (snd (purge b fails clock items c))"
proof -
  obtain res c1 where run: "purge_items b clock items no_purge [] c = (res, c1)" by force
  have c1: "keeps_rows c c1" using keeps_purge_items [of c b clock items no_purge "[]"] run by simp
  then show ?thesis
    by (auto simp: purge_def run Let_def split: sum.split prod.split
        intro: keeps_rows_trans keeps_shred)
qed

lemma keeps_purge_source [keeps]: "keeps_rows c (snd (purge_source b fails clock sid drop_source c))"
proof -
  have "keeps_rows c c1" if "purge b fails clock items c = (r, c1)" for items r c1
    using keeps_purge [of c b fails clock items] that by simp
  moreover have "keeps_rows c (c1\<lparr> c_sources := ss \<rparr>) = keeps_rows c c1" for c1 ss
    by (simp add: keeps_rows_def)
  ultimately show ?thesis
    by (auto simp: purge_source_def keeps split: sum.split prod.split)
qed

lemma lifecycle_keeps_rows: "lifecycle b c c' \<Longrightarrow> keeps_rows c c'"
proof (induction rule: lifecycle.induct)
  case (purge_memory c fails clock i)
  show ?case by (auto simp: purge_memory_def keeps split: sum.split)
next
  case (work q c)
  show ?case by (rule keeps_rows_same) simp_all
next
  case (enqueue spec c now)
  show ?case by (rule keeps_rows_same) simp_all
next
  case (draw_ids c n)
  then show ?case by (intro keeps_rows_same) simp_all
next
  case (other_tables c ss cs mns evs ts tns as)
  show ?case by (rule keeps_rows_same) simp_all
qed (intro keeps)+

end
