(* ===== verification/Normalize.thy ===== *)
theory Normalize
  imports Chunking_Guarantees Row_Identity
begin

text \<open>
  Turning bytes into chunks: \<^verbatim>\<open>domain/normalization.py\<close> (the hash), \<^verbatim>\<open>adapters/parsers/registry.py\<close>,
  \<^verbatim>\<open>application/normalize.py\<close> and the table of chunks of \<^verbatim>\<open>adapters/db/models.py\<close>.

  A \<open>library\<close> is a corpus with the data this pipeline writes: the text columns of the memories, the
  rows of \<^verbatim>\<open>memory_chunks\<close> and the cache of embeddings. The text columns, among them the kind the parser
  reports, are kept beside the row the event log determines. \<open>c_chunks\<close> of the corpus is a view of the
  chunk rows. Parsers, the chunker and the digest are parameters, as the constructor of the class
  takes them; \<open>others k\<close> is what other sessions commit before the k-th session of a call.
\<close>

section \<open>Tables\<close>

type_synonym vector = "pyfloat list"

record passage =
  ps_id :: nat
  ps_memory :: nat
  ps_ordinal :: nat
  ps_content :: string
  ps_token_count :: nat
  ps_char_start :: nat
  ps_char_end :: nat
  ps_prefix_chars :: nat
  ps_chunker_version :: string
  ps_content_hash :: string
  ps_definition :: "string option"
  ps_embedding :: "vector option"
  ps_embedding_model :: "string option"
  ps_embedded_at :: "time option"

record text_columns =
  tx_content :: "string option"
  tx_normalized_hash :: "string option"
  tx_kind :: memory_kind
  tx_title :: "string option"
  tx_parsed :: "payload option"

record library =
  lb_corpus :: corpus
  lb_texts :: "(nat \<times> text_columns) list"
  lb_passages :: "passage list"
  lb_cache :: "(string \<times> vector) list"

datatype pipeline_error =
    PermanentError | TransientError | BlobNotFound | IntegrityViolation | Raised py_exn

type_synonym 'a pipeline_step = "library \<Rightarrow> (pipeline_error + 'a) \<times> library"

definition chunk_row_of :: "passage \<Rightarrow> chunk_row" where
  "chunk_row_of p = \<lparr> ck_id = ps_id p, ck_memory = ps_memory p, ck_ordinal = ps_ordinal p,
                      ck_embedded = (ps_embedding p \<noteq> None) \<rparr>"

definition set_passages :: "passage list \<Rightarrow> library \<Rightarrow> library" where
  "set_passages ps l =
     l\<lparr> lb_passages := ps, lb_corpus := (lb_corpus l)\<lparr> c_chunks := map chunk_row_of ps \<rparr> \<rparr>"

definition memory_rows :: "library \<Rightarrow> memory list" where
  "memory_rows l = c_memories (lb_corpus l)"

definition memory_get :: "nat \<Rightarrow> library \<Rightarrow> memory option" where
  "memory_get i l = find (\<lambda>m. m_id m = i) (memory_rows l)"

definition text_of :: "memory \<Rightarrow> library \<Rightarrow> text_columns" where
  "text_of m l =
     (case map_of (lb_texts l) (m_id m) of
        None \<Rightarrow> \<lparr> tx_content = None, tx_normalized_hash = None, tx_kind = m_kind m, tx_title = None,
                  tx_parsed = None \<rparr>
      | Some t \<Rightarrow> t)"

definition passages_of :: "nat \<Rightarrow> library \<Rightarrow> passage list" where
  "passages_of i l = filter (\<lambda>p. ps_memory p = i) (lb_passages l)"

text \<open>\<^verbatim>\<open>session_factory.begin()\<close>: what raises leaves the tables as they were.\<close>

definition atomically :: "'a pipeline_step \<Rightarrow> 'a pipeline_step" where
  "atomically body l = (case body l of (Inl e, _) \<Rightarrow> (Inl e, l) | (Inr x, l') \<Rightarrow> (Inr x, l'))"

section \<open>The parser registry\<close>

type_synonym parser =
  "(string option \<Rightarrow> string \<Rightarrow> bool) \<times> (bytes \<Rightarrow> string option \<Rightarrow> string \<Rightarrow> parsed_document result)"

definition for_item :: "parser list \<Rightarrow> string option \<Rightarrow> string \<Rightarrow> parser result" where
  "for_item parsers media_type external_key =
     (case find (\<lambda>p. fst p media_type external_key) parsers of
        None \<Rightarrow> Inl LookupError
      | Some p \<Rightarrow> Inr p)"

definition parse_with ::
  "parser list \<Rightarrow> bytes \<Rightarrow> string option \<Rightarrow> string \<Rightarrow> parsed_document result" where
  "parse_with parsers data media_type external_key =
     bind_result (for_item parsers media_type external_key)
       (\<lambda>p. snd p data media_type external_key)"

section \<open>The use case\<close>

datatype normalize_outcome = NORMALIZE_SKIPPED | REUSED | CHUNKED | NORMALIZE_DELETED

record normalize_report =
  nr_outcome :: normalize_outcome
  nr_chunks :: nat
  nr_tokens :: nat

record normalizer =
  nz_parsers :: "parser list"
  nz_chunk :: "parsed_document \<Rightarrow> text_chunk list"
  nz_version :: string
  nz_enqueue_followup :: bool

text \<open>\<open>b\<close> is \<^verbatim>\<open>hashlib.blake2b(text.encode("utf-8"), digest_size=32).hexdigest()\<close>, which is always a
  valid content hash.\<close>

definition normalized_hash :: "(string \<Rightarrow> string) \<Rightarrow> string \<Rightarrow> string" where
  "normalized_hash b document_text = b document_text"

definition parse_memory :: "normalizer \<Rightarrow> memory \<Rightarrow> library \<Rightarrow> pipeline_error + parsed_document" where
  "parse_memory nz m l =
     (case map_of (c_blobs (lb_corpus l)) (m_content_hash m) of
        None \<Rightarrow> Inl BlobNotFound
      | Some data \<Rightarrow>
          (case parse_with (nz_parsers nz) data
                  (case m_media_type m of Some [] \<Rightarrow> None | mt \<Rightarrow> mt) (m_key m) of
             Inl e \<Rightarrow> Inl (Raised e)
           | Inr pd \<Rightarrow> Inr pd))"

definition chunker_versions :: "nat \<Rightarrow> library \<Rightarrow> string set" where
  "chunker_versions i l = ps_chunker_version ` set (passages_of i l)"

definition up_to_date ::
  "normalizer \<Rightarrow> memory \<Rightarrow> text_columns \<Rightarrow> parsed_document \<Rightarrow> string \<Rightarrow> library \<Rightarrow> bool" where
  "up_to_date nz m loaded pd fresh_hash l =
     (if tx_normalized_hash loaded \<noteq> Some fresh_hash then False
      else if chunker_versions (m_id m) l \<noteq> {} then chunker_versions (m_id m) l = {nz_version nz}
      else blank (pd_text pd))"

definition with_document :: "parsed_document \<Rightarrow> string \<Rightarrow> text_columns \<Rightarrow> text_columns" where
  "with_document pd fresh_hash t =
     \<lparr> tx_content = Some (pd_text pd), tx_normalized_hash = Some fresh_hash, tx_kind = pd_kind pd,
       tx_title = (case pd_title pd of None \<Rightarrow> tx_title t | Some [] \<Rightarrow> tx_title t | Some s \<Rightarrow> Some s),
       tx_parsed = (if pd_metadata pd = [] then tx_parsed t else Some (pd_metadata pd)) \<rparr>"

definition apply_document :: "memory \<Rightarrow> parsed_document \<Rightarrow> string \<Rightarrow> library \<Rightarrow> library" where
  "apply_document m pd fresh_hash l =
     l\<lparr> lb_texts := AList.update (m_id m) (with_document pd fresh_hash (text_of m l)) (lb_texts l) \<rparr>"

definition previous_version :: "memory \<Rightarrow> string \<Rightarrow> library \<Rightarrow> memory option" where
  "previous_version m fresh_hash l =
     (case filter (\<lambda>r. same_item (m_source m) (m_key m) r \<and> m_id r \<noteq> m_id m \<and>
                       tx_normalized_hash (text_of r l) = Some fresh_hash) (memory_rows l) of
        [] \<Rightarrow> None
      | r # rs \<Rightarrow> Some (first_max m_version r rs))"

text \<open>Moving the rows is refused by \<^verbatim>\<open>uq_memory_chunks_memory_ordinal\<close> where two rows would collide.\<close>

definition adopt_from_previous_version ::
  "normalizer \<Rightarrow> memory \<Rightarrow> parsed_document \<Rightarrow> string \<Rightarrow> nat option pipeline_step" where
  "adopt_from_previous_version nz m pd fresh_hash l =
     (case previous_version m fresh_hash l of
        None \<Rightarrow> (Inr None, l)
      | Some previous \<Rightarrow>
          if chunker_versions (m_id previous) l \<noteq> {nz_version nz} then (Inr None, l)
          else
            let moved = row_count (\<lambda>p. ps_memory p = m_id previous) (lb_passages l);
                rows = update_where (\<lambda>p. ps_memory p = m_id previous)
                         (\<lambda>p. p\<lparr> ps_memory := m_id m \<rparr>) (lb_passages l)
            in if \<not> distinct (map (\<lambda>p. (ps_memory p, ps_ordinal p)) rows) then (Inl IntegrityViolation, l)
               else case memory_get (m_id m) l of
                      None \<Rightarrow> (Inl PermanentError, l)
                    | Some row \<Rightarrow> (Inr (Some moved), apply_document row pd fresh_hash (set_passages rows l)))"

definition embed_spec :: "nat \<Rightarrow> job_spec" where
  "embed_spec memory_id =
     \<lparr> spec_type = EMBED_MEMORY, spec_payload = [(''memory_id'', JStr (show_nat memory_id))],
       spec_dedupe_key = Some (''embed:'' @ show_nat memory_id), spec_priority = 0,
       spec_max_attempts = DEFAULT_MAX_ATTEMPTS, spec_run_after = None \<rparr>"

definition passage_of :: "(string \<Rightarrow> string) \<Rightarrow> string \<Rightarrow> nat \<Rightarrow> nat \<Rightarrow> text_chunk \<Rightarrow> passage" where
  "passage_of b version memory_id passage_id ch =
     \<lparr> ps_id = passage_id, ps_memory = memory_id, ps_ordinal = tc_ordinal ch, ps_content = tc_text ch,
       ps_token_count = tc_token_count ch, ps_char_start = tc_char_start ch,
       ps_char_end = tc_char_end ch, ps_prefix_chars = tc_prefix_chars ch,
       ps_chunker_version = version, ps_content_hash = b (tc_text ch),
       ps_definition = tc_definition ch, ps_embedding = None, ps_embedding_model = None,
       ps_embedded_at = None \<rparr>"

text \<open>The table's CHECK constraints are those of the entity.\<close>

definition insertable :: "text_chunk list \<Rightarrow> bool" where
  "insertable chunks \<longleftrightarrow>
     distinct (map tc_ordinal chunks) \<and>
     list_all (\<lambda>ch. is_ok (memory_chunk_post_init (chunk_entity ch))) chunks"

definition new_passages ::
  "(string \<Rightarrow> string) \<Rightarrow> string \<Rightarrow> nat \<Rightarrow> nat \<Rightarrow> text_chunk list \<Rightarrow> passage list" where
  "new_passages b version memory_id next_id chunks =
     map (\<lambda>(i, ch). passage_of b version memory_id (next_id + i) ch) (enumerate 0 chunks)"

definition store ::
  "(string \<Rightarrow> string) \<Rightarrow> normalizer \<Rightarrow> time \<Rightarrow> memory \<Rightarrow> parsed_document \<Rightarrow> string \<Rightarrow> text_chunk list
   \<Rightarrow> unit pipeline_step" where
  "store b nz now m pd fresh_hash chunks l =
     (case memory_get (m_id m) l of
        None \<Rightarrow> (Inl PermanentError, l)
      | Some row \<Rightarrow>
          let l1 = apply_document row pd fresh_hash l;
              superseded = map m_id (filter (same_item (m_source m) (m_key m)) (memory_rows l1));
              kept = filter (\<lambda>p. ps_memory p \<notin> set superseded) (lb_passages l1);
              next_id = c_next_id (lb_corpus l1);
              l2 = set_passages (kept @ new_passages b (nz_version nz) (m_id m) next_id chunks) l1;
              l3 = l2\<lparr> lb_corpus := (lb_corpus l2)\<lparr> c_next_id := next_id + length chunks \<rparr> \<rparr>
          in if \<not> insertable chunks then (Inl IntegrityViolation, l)
             else (Inr (), if nz_enqueue_followup nz
                           then l3\<lparr> lb_corpus := enqueue_job now (embed_spec (m_id m)) (lb_corpus l3) \<rparr>
                           else l3))"

definition normalize ::
  "(string \<Rightarrow> string) \<Rightarrow> normalizer \<Rightarrow> (nat \<Rightarrow> library \<Rightarrow> library) \<Rightarrow> time \<Rightarrow> nat
   \<Rightarrow> normalize_report pipeline_step" where
  "normalize b nz others now i l =
     (case memory_get i l of
        None \<Rightarrow> (Inl PermanentError, l)
      | Some m \<Rightarrow>
          if m_deleted_at m \<noteq> None
          then (Inr \<lparr> nr_outcome = NORMALIZE_DELETED, nr_chunks = 0, nr_tokens = 0 \<rparr>, l)
          else
            let l1 = others 1 l
            in case parse_memory nz m l1 of
                 Inl e \<Rightarrow> (Inl e, l1)
               | Inr pd \<Rightarrow>
                   let fresh_hash = normalized_hash b (pd_text pd); l2 = others 2 l1
                   in if up_to_date nz m (text_of m l) pd fresh_hash l2
                      then (Inr \<lparr> nr_outcome = NORMALIZE_SKIPPED, nr_chunks = 0, nr_tokens = 0 \<rparr>, l2)
                      else
                        case atomically (adopt_from_previous_version nz m pd fresh_hash) (others 3 l2) of
                          (Inl e, l3) \<Rightarrow> (Inl e, l3)
                        | (Inr (Some adopted), l3) \<Rightarrow>
                            (Inr \<lparr> nr_outcome = REUSED, nr_chunks = adopted, nr_tokens = 0 \<rparr>, l3)
                        | (Inr None, l3) \<Rightarrow>
                            let chunks = nz_chunk nz pd
                            in case atomically (store b nz now m pd fresh_hash chunks) (others 4 l3) of
                                 (Inl e, l4) \<Rightarrow> (Inl e, l4)
                               | (Inr _, l4) \<Rightarrow>
                                   (Inr \<lparr> nr_outcome = CHUNKED, nr_chunks = length chunks,
                                          nr_tokens = sum_list (map tc_token_count chunks) \<rparr>, l4))"

end
