(* ===== verification/Embed.thy ===== *)
theory Embed
  imports Normalize
begin

text \<open>
  Filling in the vectors of chunks: \<^verbatim>\<open>adapters/db/embedding_cache.py\<close> and \<^verbatim>\<open>application/embed.py\<close>. The
  embedding model is a parameter, a function on a batch of texts that may raise.
\<close>

section \<open>The cache\<close>

datatype embedding_role = QUERY | PASSAGE

fun embedding_role_value :: "embedding_role \<Rightarrow> string" where
  "embedding_role_value QUERY = ''query''"
| "embedding_role_value PASSAGE = ''passage''"

definition NUL :: char where
  "NUL = CHR 0x00"

definition cache_key_for :: "(string \<Rightarrow> string) \<Rightarrow> string \<Rightarrow> string \<Rightarrow> embedding_role \<Rightarrow> string" where
  "cache_key_for b model_id passage_text role =
     b (model_id @ [NUL] @ embedding_role_value role @ [NUL] @ passage_text)"

definition cache_get_many :: "string list \<Rightarrow> library \<Rightarrow> (string \<times> vector) list" where
  "cache_get_many keys l = filter (\<lambda>(key, _). key \<in> set keys) (lb_cache l)"

text \<open>\<^verbatim>\<open>ON CONFLICT DO NOTHING\<close>.\<close>

definition cache_insert :: "string \<times> vector \<Rightarrow> (string \<times> vector) list \<Rightarrow> (string \<times> vector) list" where
  "cache_insert entry cache = (if fst entry \<in> fst ` set cache then cache else cache @ [entry])"

definition cache_put_many :: "(string \<times> vector) list \<Rightarrow> library \<Rightarrow> library" where
  "cache_put_many entries l = l\<lparr> lb_cache := fold cache_insert entries (lb_cache l) \<rparr>"

section \<open>The use case\<close>

record embedder =
  eb_model_id :: string
  eb_dimension :: nat
  eb_embed_passage :: "string list \<Rightarrow> pipeline_error + vector list"

record embed_memory =
  em_embedder :: embedder
  em_batch_size :: int
  em_enqueue_followup :: bool

datatype embed_outcome = EMBED_SKIPPED | EMBEDDED | EMBED_DELETED

record embed_report =
  er_outcome :: embed_outcome
  er_chunks :: nat
  er_cache_hits :: nat
  er_cache_misses :: nat

definition hit_rate :: "embed_report \<Rightarrow> pyfloat" where
  "hit_rate r =
     (let looked_up = er_cache_hits r + er_cache_misses r
      in if looked_up \<noteq> 0 then of_nat (er_cache_hits r) / of_nat looked_up else 0)"

definition batch_size :: "embed_memory \<Rightarrow> nat" where
  "batch_size em = nat (max 1 (em_batch_size em))"

definition batched :: "'a list \<Rightarrow> nat \<Rightarrow> 'a list list" where
  "batched items n =
     map (\<lambda>k. slice items (k * n) (k * n + n)) [0..<(length items + n - 1) div n]"

definition is_pending :: "string \<Rightarrow> passage \<Rightarrow> bool" where
  "is_pending model_id p \<longleftrightarrow>
     ps_embedding p = None \<or>
     (case ps_embedding_model p of None \<Rightarrow> False | Some used \<Rightarrow> used \<noteq> model_id)"

definition pending_chunks :: "string \<Rightarrow> nat \<Rightarrow> library \<Rightarrow> (nat \<times> string) list" where
  "pending_chunks model_id memory_id l =
     map (\<lambda>p. (ps_id p, ps_content p))
       (sort_key ps_ordinal (filter (\<lambda>p. ps_memory p = memory_id \<and> is_pending model_id p) (lb_passages l)))"

fun missing_texts :: "string set \<Rightarrow> string set \<Rightarrow> (string \<times> string) list \<Rightarrow> string list" where
  "missing_texts cached seen [] = []"
| "missing_texts cached seen ((key, passage_text) # rest) =
     (if key \<notin> cached \<and> key \<notin> seen
      then passage_text # missing_texts cached (insert key seen) rest
      else missing_texts cached seen rest)"

definition add_fresh ::
  "(string \<Rightarrow> string) \<Rightarrow> (string \<times> vector) \<Rightarrow> (string \<times> vector) list \<Rightarrow> (string \<times> vector) list" where
  "add_fresh key_of entry fresh = AList.update (key_of (fst entry)) (snd entry) fresh"

fun embed_batches ::
  "embedder \<Rightarrow> (string \<Rightarrow> string) \<Rightarrow> (string \<times> vector) list \<Rightarrow> string list list
   \<Rightarrow> pipeline_error + (string \<times> vector) list" where
  "embed_batches eb key_of fresh [] = Inr fresh"
| "embed_batches eb key_of fresh (batch # rest) =
     (case eb_embed_passage eb batch of
        Inl e \<Rightarrow> Inl e
      | Inr vectors \<Rightarrow>
          if \<not> list_all (\<lambda>v. length v = eb_dimension eb) vectors then Inl PermanentError
          else if length vectors \<noteq> length batch then Inl (Raised ValueError)
          else embed_batches eb key_of (fold (add_fresh key_of) (zip batch vectors) fresh) rest)"

definition set_embedding :: "string \<Rightarrow> time \<Rightarrow> vector \<Rightarrow> passage \<Rightarrow> passage" where
  "set_embedding model_id now v p =
     p\<lparr> ps_embedding := Some v, ps_embedding_model := Some model_id, ps_embedded_at := Some now \<rparr>"

fun write_rows ::
  "string \<Rightarrow> time \<Rightarrow> (string \<rightharpoonup> vector) \<Rightarrow> (nat \<times> string) list \<Rightarrow> passage list
   \<Rightarrow> pipeline_error + passage list" where
  "write_rows model_id now vectors_by_key [] rows = Inr rows"
| "write_rows model_id now vectors_by_key ((chunk_id, key) # rest) rows =
     (case vectors_by_key key of
        None \<Rightarrow> Inl PermanentError
      | Some v \<Rightarrow>
          write_rows model_id now vectors_by_key rest
            (update_where (\<lambda>p. ps_id p = chunk_id) (set_embedding model_id now v) rows))"

definition write_vectors ::
  "string \<Rightarrow> time \<Rightarrow> (string \<rightharpoonup> vector) \<Rightarrow> (nat \<times> string) list \<Rightarrow> unit pipeline_step" where
  "write_vectors model_id now vectors_by_key targets l =
     (case write_rows model_id now vectors_by_key targets (lb_passages l) of
        Inl e \<Rightarrow> (Inl e, l)
      | Inr rows \<Rightarrow> (Inr (), set_passages rows l))"

definition embed_chunks ::
  "(string \<Rightarrow> string) \<Rightarrow> embed_memory \<Rightarrow> (nat \<Rightarrow> library \<Rightarrow> library) \<Rightarrow> time \<Rightarrow> (nat \<times> string) list
   \<Rightarrow> embed_report pipeline_step" where
  "embed_chunks b em others now pending l =
     (let model_id = eb_model_id (em_embedder em);
          key_of = (\<lambda>t. cache_key_for b model_id t PASSAGE);
          keys = map (\<lambda>(_, t). key_of t) pending;
          l1 = others 2 l;
          cached = cache_get_many (keep_first keys) l1;
          missing = missing_texts (fst ` set cached) {} (zip keys (map snd pending))
      in case embed_batches (em_embedder em) key_of [] (batched missing (batch_size em)) of
           Inl e \<Rightarrow> (Inl e, l1)
         | Inr fresh \<Rightarrow>
             let l2 = (if fresh \<noteq> [] then cache_put_many fresh (others 3 l1) else l1);
                 vectors_by_key = map_of cached ++ map_of fresh
             in case atomically (write_vectors model_id now vectors_by_key (zip (map fst pending) keys))
                       (others 4 l2) of
                  (Inl e, l3) \<Rightarrow> (Inl e, l3)
                | (Inr _, l3) \<Rightarrow>
                    (Inr \<lparr> er_outcome = EMBEDDED, er_chunks = length pending,
                           er_cache_hits = length (filter (\<lambda>key. key \<in> fst ` set cached) keys),
                           er_cache_misses = length missing \<rparr>, l3))"

definition extract_spec :: "nat \<Rightarrow> job_spec" where
  "extract_spec memory_id =
     \<lparr> spec_type = EXTRACT_ENTITIES, spec_payload = [(''memory_id'', JStr (show_nat memory_id))],
       spec_dedupe_key = Some (''extract:'' @ show_nat memory_id), spec_priority = 0,
       spec_max_attempts = DEFAULT_MAX_ATTEMPTS, spec_run_after = None \<rparr>"

definition enqueue_extraction :: "embed_memory \<Rightarrow> time \<Rightarrow> nat \<Rightarrow> library \<Rightarrow> library" where
  "enqueue_extraction em now memory_id l =
     (if \<not> em_enqueue_followup em then l
      else l\<lparr> lb_corpus := enqueue_job now (extract_spec memory_id) (lb_corpus l) \<rparr>)"

definition embed ::
  "(string \<Rightarrow> string) \<Rightarrow> embed_memory \<Rightarrow> (nat \<Rightarrow> library \<Rightarrow> library) \<Rightarrow> time \<Rightarrow> nat
   \<Rightarrow> embed_report pipeline_step" where
  "embed b em others now memory_id l =
     (case memory_get memory_id l of
        None \<Rightarrow> (Inl PermanentError, l)
      | Some m \<Rightarrow>
          if m_deleted_at m \<noteq> None
          then (Inr \<lparr> er_outcome = EMBED_DELETED, er_chunks = 0, er_cache_hits = 0, er_cache_misses = 0 \<rparr>, l)
          else
            let l1 = others 1 l;
                pending = pending_chunks (eb_model_id (em_embedder em)) memory_id l1
            in if pending = []
               then (Inr \<lparr> er_outcome = EMBED_SKIPPED, er_chunks = 0, er_cache_hits = 0,
                           er_cache_misses = 0 \<rparr>, l1)
               else case embed_chunks b em others now pending l1 of
                      (Inl e, l2) \<Rightarrow> (Inl e, l2)
                    | (Inr report, l2) \<Rightarrow>
                        (Inr report, enqueue_extraction em now memory_id (others 5 l2)))"

end
