(* ===== verification/Pipeline.thy ===== *)
theory Pipeline
  imports Embed
begin

text \<open>
  What the tables of chunks and vectors keep, whatever the pipeline, the syncs and the deletions do and in
  whatever order their sessions commit. What is relied on from the chunker is the locale
  \<open>chunker_port\<close>; the structural chunker provides it.
\<close>

section \<open>The contract of the chunker\<close>

definition names_span :: "string \<Rightarrow> text_chunk \<Rightarrow> bool" where
  "names_span doc ch \<longleftrightarrow>
     drop (tc_prefix_chars ch) (tc_text ch) = slice doc (tc_char_start ch) (tc_char_end ch) \<and>
     tc_char_start ch < tc_char_end ch \<and> tc_char_end ch \<le> length doc"

locale chunker_port =
  fixes segment :: "parsed_document \<Rightarrow> text_chunk list"
  assumes ordinals: "map tc_ordinal (segment pd) = [0..<length (segment pd)]"
    and names: "ch \<in> set (segment pd) \<Longrightarrow> names_span (pd_text pd) ch"
    and valid: "ch \<in> set (segment pd) \<Longrightarrow> is_ok (memory_chunk_post_init (chunk_entity ch))"
    and empty_iff: "segment pd = [] \<longleftrightarrow> blank (pd_text pd)"
begin

lemma insertable: "insertable (segment pd)"
  by (simp add: insertable_def ordinals list_all_iff valid)

end

sublocale chunking \<subseteq> chunker_port "chunk cnt cfg"
proof
  fix pd ch
  show "map tc_ordinal (chunk cnt cfg pd) = [0..<length (chunk cnt cfg pd)]"
    by (simp add: chunk_def to_chunks_ordinals)
  show "chunk cnt cfg pd = [] \<longleftrightarrow> blank (pd_text pd)"
  proof
    assume "chunk cnt cfg pd = []"
    with chunk_result [of pd] show "blank (pd_text pd)" by (auto simp: blank_iff in_set_conv_nth)
  qed (simp add: chunk_def)
  assume "ch \<in> set (chunk cnt cfg pd)"
  with chunk_result [of pd] have ok: "chunk_ok cnt cfg (pd_text pd) ch" by (simp add: list_all_iff)
  then show "names_span (pd_text pd) ch"
    by (simp add: names_span_def chunk_ok_body) (simp add: chunk_ok_def)
  show "is_ok (memory_chunk_post_init (chunk_entity ch))" by (simp add: chunk_ok_entity [OF ok])
qed

section \<open>Steps\<close>

text \<open>
  A step is one committed session: of the corpus, where a row that goes takes its chunks and its text
  with it, of a normalization or of an embedding, or a job for the workers. What a session read earlier is tied to the present
  state by \<open>loaded\<close> and \<open>read_before\<close>: the row is of the same item, the chunk has the same text, if they
  still exist. \<open>model name\<close> is the function the embedding model of that name computes on one text.
\<close>

definition cascade :: "corpus \<Rightarrow> library \<Rightarrow> library" where
  "cascade c l =
     (let ids = m_id ` set (c_memories c)
      in set_passages (filter (\<lambda>p. ps_memory p \<in> ids) (lb_passages l))
           (l\<lparr> lb_corpus := c, lb_texts := filter (\<lambda>(i, _). i \<in> ids) (lb_texts l) \<rparr>))"

definition loaded :: "memory \<Rightarrow> library \<Rightarrow> bool" where
  "loaded m l \<longleftrightarrow>
     m_id m < c_next_id (lb_corpus l) \<and>
     (\<forall>r \<in> set (memory_rows l). m_id r = m_id m \<longrightarrow> same_item (m_source m) (m_key m) r)"

definition read_before :: "(string \<Rightarrow> string) \<Rightarrow> (nat \<times> string) list \<Rightarrow> library \<Rightarrow> bool" where
  "read_before key_of targets l \<longleftrightarrow>
     (\<forall>(i, key) \<in> set targets. i < c_next_id (lb_corpus l) \<and>
        (\<forall>p \<in> set (lb_passages l). ps_id p = i \<longrightarrow> key = key_of (ps_content p)))"

definition genuine ::
  "(string \<Rightarrow> string) \<Rightarrow> (string \<Rightarrow> string \<Rightarrow> vector) \<Rightarrow> (string \<times> vector) \<Rightarrow> bool" where
  "genuine b model entry \<longleftrightarrow>
     (\<exists>name t. NUL \<notin> set name \<and> entry = (cache_key_for b name t PASSAGE, model name t))"

inductive library_step ::
  "(string \<Rightarrow> string) \<Rightarrow> (string \<Rightarrow> string) \<Rightarrow> normalizer \<Rightarrow> (string \<Rightarrow> string \<Rightarrow> vector)
   \<Rightarrow> library \<Rightarrow> library \<Rightarrow> bool"
  for b b8 nz model where
  corpus: "lifecycle b8 (lb_corpus l) c \<Longrightarrow> library_step b b8 nz model l (cascade c l)"
| adopt: "loaded m l \<Longrightarrow> library_step b b8 nz model l
    (snd (atomically (adopt_from_previous_version nz m pd (normalized_hash b (pd_text pd))) l))"
| store: "loaded m l \<Longrightarrow> library_step b b8 nz model l
    (snd (atomically (store b nz now m pd (normalized_hash b (pd_text pd)) (nz_chunk nz pd)) l))"
| enqueue: "job_spec_post_init spec = Inr spec \<Longrightarrow>
    library_step b b8 nz model l (l\<lparr> lb_corpus := enqueue_job now spec (lb_corpus l) \<rparr>)"
| fill_cache: "list_all (genuine b model) entries \<Longrightarrow>
    library_step b b8 nz model l (cache_put_many entries l)"
| write_back: "NUL \<notin> set name \<Longrightarrow>
    (\<And>t v. vectors (cache_key_for b name t PASSAGE) = Some v \<Longrightarrow> v = model name t) \<Longrightarrow>
    read_before (\<lambda>t. cache_key_for b name t PASSAGE) targets l \<Longrightarrow>
    library_step b b8 nz model l (snd (atomically (write_vectors name now vectors targets) l))"

definition empty_library :: "nat \<Rightarrow> library" where
  "empty_library me =
     \<lparr> lb_corpus = empty_corpus me, lb_texts = [], lb_passages = [], lb_cache = [] \<rparr>"

definition reachable_library ::
  "(string \<Rightarrow> string) \<Rightarrow> (string \<Rightarrow> string) \<Rightarrow> normalizer \<Rightarrow> (string \<Rightarrow> string \<Rightarrow> vector) \<Rightarrow> nat
   \<Rightarrow> library \<Rightarrow> bool" where
  "reachable_library b b8 nz model me l \<longleftrightarrow> (library_step b b8 nz model)\<^sup>*\<^sup>* (empty_library me) l"

section \<open>The invariant\<close>

definition cites :: "string \<Rightarrow> passage \<Rightarrow> bool" where
  "cites doc p \<longleftrightarrow>
     drop (ps_prefix_chars p) (ps_content p) = slice doc (ps_char_start p) (ps_char_end p) \<and>
     ps_char_start p < ps_char_end p \<and> ps_char_end p \<le> length doc"

definition stored_text :: "nat \<Rightarrow> library \<Rightarrow> string option" where
  "stored_text i l = (case map_of (lb_texts l) i of None \<Rightarrow> None | Some t \<Rightarrow> tx_content t)"

definition texts_hashed :: "(string \<Rightarrow> string) \<Rightarrow> library \<Rightarrow> bool" where
  "texts_hashed b l \<longleftrightarrow>
     (\<forall>i t. map_of (lb_texts l) i = Some t \<longrightarrow>
        (\<exists>s. tx_content t = Some s \<and> tx_normalized_hash t = Some (normalized_hash b s)))"

definition passages_valid :: "library \<Rightarrow> bool" where
  "passages_valid l \<longleftrightarrow>
     (\<forall>p \<in> set (lb_passages l).
        ps_id p < c_next_id (lb_corpus l) \<and> ps_memory p \<in> m_id ` set (memory_rows l) \<and>
        (\<exists>s. stored_text (ps_memory p) l = Some s \<and> cites s p))"

definition one_owner :: "library \<Rightarrow> bool" where
  "one_owner l \<longleftrightarrow>
     (\<forall>r \<in> set (memory_rows l). \<forall>q \<in> set (memory_rows l).
        same_item (m_source r) (m_key r) q \<longrightarrow>
        m_id r \<in> ps_memory ` set (lb_passages l) \<longrightarrow> m_id q \<in> ps_memory ` set (lb_passages l) \<longrightarrow>
        m_id r = m_id q)"

definition library_inv :: "(string \<Rightarrow> string) \<Rightarrow> library \<Rightarrow> bool" where
  "library_inv b l \<longleftrightarrow>
     corpus_inv (lb_corpus l) \<and> c_chunks (lb_corpus l) = map chunk_row_of (lb_passages l) \<and>
     passages_valid l \<and> one_owner l \<and> texts_hashed b l \<and>
     distinct (map ps_id (lb_passages l)) \<and>
     distinct (map (\<lambda>p. (ps_memory p, ps_ordinal p)) (lb_passages l))"

lemma library_invD:
  assumes "library_inv b l"
  shows "corpus_inv (lb_corpus l)" and "passages_valid l" and "one_owner l" and "texts_hashed b l"
    and "distinct (map ps_id (lb_passages l))"
    and "distinct (map (\<lambda>p. (ps_memory p, ps_ordinal p)) (lb_passages l))"
  using assms by (auto simp: library_inv_def)

lemma set_passages_simps [simp]:
  "lb_passages (set_passages ps l) = ps" "lb_texts (set_passages ps l) = lb_texts l"
  "lb_cache (set_passages ps l) = lb_cache l"
  "lb_corpus (set_passages ps l) = (lb_corpus l)\<lparr> c_chunks := map chunk_row_of ps \<rparr>"
  "memory_rows (set_passages ps l) = memory_rows l"
  "stored_text i (set_passages ps l) = stored_text i l"
  by (simp_all add: set_passages_def memory_rows_def stored_text_def)

lemma corpus_inv_frame [simp]:
  "corpus_inv (c\<lparr> c_chunks := rows \<rparr>) = corpus_inv c"
  by (rule corpus_inv_cong) simp_all

lemma map_of_filter_keys:
  "map_of (filter (\<lambda>(i, _). i \<in> ids) al) i = (if i \<in> ids then map_of al i else None)"
  by (induction al) auto

lemma passage_memory_known:
  assumes "library_inv b l" and "i \<in> ps_memory ` set (lb_passages l)"
  shows "i \<in> m_id ` set (memory_rows l)" and "i < c_next_id (lb_corpus l)"
proof -
  show "i \<in> m_id ` set (memory_rows l)"
    using assms by (auto simp: library_inv_def passages_valid_def)
  with corpus_invD(5) [OF library_invD(1) [OF assms(1)]] show "i < c_next_id (lb_corpus l)"
    by (auto simp: memory_rows_def)
qed

subsection \<open>A step of the corpus\<close>

lemma cascade_simps [simp]:
  "lb_passages (cascade c l) = filter (\<lambda>p. ps_memory p \<in> m_id ` set (c_memories c)) (lb_passages l)"
  "memory_rows (cascade c l) = c_memories c"
  "c_next_id (lb_corpus (cascade c l)) = c_next_id c"
  "lb_cache (cascade c l) = lb_cache l"
  "corpus_inv (lb_corpus (cascade c l)) = corpus_inv c"
  "c_chunks (lb_corpus (cascade c l)) = map chunk_row_of (lb_passages (cascade c l))"
  "map_of (lb_texts (cascade c l)) i = (if i \<in> m_id ` set (c_memories c) then map_of (lb_texts l) i else None)"
  by (simp_all add: cascade_def Let_def memory_rows_def map_of_filter_keys)

lemma stored_text_cascade [simp]:
  "stored_text i (cascade c l) = (if i \<in> m_id ` set (c_memories c) then stored_text i l else None)"
  by (simp add: stored_text_def)

lemma cascade_one_owner:
  assumes inv: "library_inv b l" and keeps: "keeps_rows (lb_corpus l) c"
  shows "one_owner (cascade c l)"
  unfolding one_owner_def
proof (intro ballI impI)
  fix r q
  assume rows: "r \<in> set (memory_rows (cascade c l))" "q \<in> set (memory_rows (cascade c l))"
    and item: "same_item (m_source r) (m_key r) q"
    and owns: "m_id r \<in> ps_memory ` set (lb_passages (cascade c l))"
      "m_id q \<in> ps_memory ` set (lb_passages (cascade c l))"
  from owns have old: "m_id r \<in> ps_memory ` set (lb_passages l)" "m_id q \<in> ps_memory ` set (lb_passages l)"
    by auto
  have "\<exists>x \<in> set (memory_rows l). m_id x = m_id y \<and> same_item (m_source x) (m_key x) y"
    if "y \<in> set (c_memories c)" "m_id y \<in> ps_memory ` set (lb_passages l)" for y
    using keeps that passage_memory_known(2) [OF inv that(2)]
    by (fastforce simp: keeps_rows_def memory_rows_def)
  then obtain r0 q0 where "r0 \<in> set (memory_rows l)" "m_id r0 = m_id r" "same_item (m_source r0) (m_key r0) r"
    "q0 \<in> set (memory_rows l)" "m_id q0 = m_id q" "same_item (m_source q0) (m_key q0) q"
    using rows old by (metis cascade_simps(2))
  with library_invD(3) [OF inv] old item show "m_id r = m_id q"
    unfolding one_owner_def by (metis same_item_def)
qed

lemma cascade_inv:
  assumes inv: "library_inv b l" and life: "lifecycle b8 (lb_corpus l) c"
  shows "library_inv b (cascade c l)"
proof -
  have keeps: "keeps_rows (lb_corpus l) c" by (rule lifecycle_keeps_rows [OF life])
  then have next_id: "c_next_id (lb_corpus l) \<le> c_next_id c" by (simp add: keeps_rows_def)
  have "passages_valid (cascade c l)"
    using library_invD(2) [OF inv] next_id by (fastforce simp: passages_valid_def)
  moreover have "texts_hashed b (cascade c l)"
    using library_invD(4) [OF inv] by (simp add: texts_hashed_def)
  ultimately show ?thesis
    using lifecycle_inv [OF life library_invD(1) [OF inv]] cascade_one_owner [OF inv keeps]
      library_invD(5,6) [OF inv]
    by (simp add: library_inv_def distinct_map_filter)
qed

subsection \<open>Writing vectors\<close>

definition bare :: "passage \<Rightarrow> passage" where
  "bare p = p\<lparr> ps_embedding := None, ps_embedding_model := None, ps_embedded_at := None \<rparr>"

lemma bare_fields [simp]:
  "ps_id (bare p) = ps_id p" "ps_memory (bare p) = ps_memory p" "ps_ordinal (bare p) = ps_ordinal p"
  "ps_content (bare p) = ps_content p" "ps_char_start (bare p) = ps_char_start p"
  "ps_char_end (bare p) = ps_char_end p" "ps_prefix_chars (bare p) = ps_prefix_chars p"
  "bare (set_embedding name now v p) = bare p" "cites s (bare p) = cites s p"
  by (simp_all add: bare_def set_embedding_def cites_def)

lemma bare_update [simp]:
  "map bare (update_where q (set_embedding name now v) rows) = map bare rows"
  by simp

lemma write_rows_bare: "write_rows name now vectors targets rows = Inr rows' \<Longrightarrow> map bare rows' = map bare rows"
  by (induction name now vectors targets rows rule: write_rows.induct) (auto split: option.splits)

lemma map_bare_cong:
  assumes "map bare ps' = map bare ps" and "\<And>p. f (bare p) = f p"
  shows "map f ps' = map f ps"
proof -
  have "map f (map bare ps') = map f (map bare ps)" by (simp add: assms(1))
  then show ?thesis by (simp add: comp_def assms(2))
qed

lemma in_bareE:
  assumes "map bare ps' = map bare ps" and "p' \<in> set ps'"
  obtains p where "p \<in> set ps" and "bare p' = bare p"
proof -
  have "bare p' \<in> set (map bare ps)" using assms by (metis image_eqI list.set_map)
  with that show thesis by auto
qed

lemma set_passages_bare_inv:
  assumes inv: "library_inv b l" and bare: "map bare ps = map bare (lb_passages l)"
  shows "library_inv b (set_passages ps l)"
proof -
  note same = map_bare_cong [OF bare]
  have memories: "ps_memory ` set ps = ps_memory ` set (lb_passages l)"
    using same [of ps_memory] by (metis bare_fields(2) list.set_map)
  have "passages_valid (set_passages ps l)"
    unfolding passages_valid_def
  proof
    fix p assume "p \<in> set (lb_passages (set_passages ps l))"
    then obtain q where q: "q \<in> set (lb_passages l)" "bare p = bare q"
      using in_bareE [OF bare] by auto
    then have "ps_id p = ps_id q" "ps_memory p = ps_memory q" "\<And>s. cites s p = cites s q"
      by (metis bare_fields(1), metis bare_fields(2), metis bare_fields(9))
    with q(1) library_invD(2) [OF inv]
    show "ps_id p < c_next_id (lb_corpus (set_passages ps l)) \<and>
        ps_memory p \<in> m_id ` set (memory_rows (set_passages ps l)) \<and>
        (\<exists>s. stored_text (ps_memory p) (set_passages ps l) = Some s \<and> cites s p)"
      by (simp add: passages_valid_def)
  qed
  then show ?thesis
    using inv same [of ps_id] same [of "\<lambda>p. (ps_memory p, ps_ordinal p)"]
    by (simp add: library_inv_def one_owner_def texts_hashed_def memories)
qed

lemma write_vectors_cases:
  obtains (failed) e where "atomically (write_vectors name now vectors targets) l = (Inl e, l)"
  | (written) rows where "write_rows name now vectors targets (lb_passages l) = Inr rows"
      and "atomically (write_vectors name now vectors targets) l = (Inr (), set_passages rows l)"
  by (cases "write_rows name now vectors targets (lb_passages l)")
    (auto simp: atomically_def write_vectors_def)

lemma write_vectors_inv:
  assumes "library_inv b l"
  shows "library_inv b (snd (atomically (write_vectors name now vectors targets) l))"
  by (cases rule: write_vectors_cases [of name now vectors targets l])
    (simp_all add: assms set_passages_bare_inv write_rows_bare)

lemma cache_put_many_inv: "library_inv b l \<Longrightarrow> library_inv b (cache_put_many entries l)"
  by (simp add: library_inv_def passages_valid_def one_owner_def texts_hashed_def cache_put_many_def
      memory_rows_def stored_text_def)

subsection \<open>Normalizing\<close>

lemma memory_getD:
  assumes "memory_get i l = Some r"
  shows "r \<in> set (memory_rows l)" and "m_id r = i"
  using find_SomeD [OF assms [unfolded memory_get_def]] by simp_all

lemma apply_document_simps [simp]:
  "lb_passages (apply_document r pd h l) = lb_passages l" "lb_cache (apply_document r pd h l) = lb_cache l"
  "lb_corpus (apply_document r pd h l) = lb_corpus l" "memory_rows (apply_document r pd h l) = memory_rows l"
  "map_of (lb_texts (apply_document r pd h l)) =
     (map_of (lb_texts l))(m_id r \<mapsto> with_document pd h (text_of r l))"
  by (simp_all add: apply_document_def memory_rows_def update_conv')

lemma stored_text_apply [simp]:
  "stored_text i (apply_document r pd h l) = (if i = m_id r then Some (pd_text pd) else stored_text i l)"
  by (simp add: stored_text_def with_document_def)

lemma texts_hashed_apply:
  "texts_hashed b l \<Longrightarrow> texts_hashed b (apply_document r pd (normalized_hash b (pd_text pd)) l)"
  by (auto simp: texts_hashed_def with_document_def)

lemma texts_hashed_frame [simp]:
  "texts_hashed b (set_passages ps l) = texts_hashed b l"
  "texts_hashed b (l\<lparr> lb_corpus := c \<rparr>) = texts_hashed b l"
  by (simp_all add: texts_hashed_def)

lemma previous_versionD:
  assumes "previous_version m h l = Some r"
  shows "r \<in> set (memory_rows l)" and "same_item (m_source m) (m_key m) r" and "m_id r \<noteq> m_id m"
    and "tx_normalized_hash (text_of r l) = Some h"
proof -
  let ?c = "filter (\<lambda>r. same_item (m_source m) (m_key m) r \<and> m_id r \<noteq> m_id m \<and>
              tx_normalized_hash (text_of r l) = Some h) (memory_rows l)"
  have "r \<in> set ?c"
  proof (cases ?c)
    case (Cons x xs)
    with assms have "r = first_max m_version x xs" by (simp add: previous_version_def)
    with first_max_in [of m_version x xs] Cons show ?thesis by (metis list.simps(15))
  qed (use assms in \<open>simp add: previous_version_def\<close>)
  then show "r \<in> set (memory_rows l)" and "same_item (m_source m) (m_key m) r" and "m_id r \<noteq> m_id m"
    and "tx_normalized_hash (text_of r l) = Some h" by auto
qed

lemma previous_version_text:
  assumes "inj b" and "texts_hashed b l" and "previous_version m (normalized_hash b doc) l = Some r"
  shows "stored_text (m_id r) l = Some doc"
proof -
  have h: "tx_normalized_hash (text_of r l) = Some (normalized_hash b doc)"
    by (rule previous_versionD(4) [OF assms(3)])
  then obtain t where t: "map_of (lb_texts l) (m_id r) = Some t" "text_of r l = t"
    by (auto simp: text_of_def split: option.splits)
  with assms(2) obtain s where "tx_content t = Some s" "tx_normalized_hash t = Some (normalized_hash b s)"
    unfolding texts_hashed_def by blast
  with h t assms(1) show ?thesis by (auto simp: stored_text_def normalized_hash_def dest: injD)
qed

definition moved_rows :: "nat \<Rightarrow> nat \<Rightarrow> passage list \<Rightarrow> passage list" where
  "moved_rows i j = update_where (\<lambda>p. ps_memory p = i) (\<lambda>p. p\<lparr> ps_memory := j \<rparr>)"

lemma moved_rowsE:
  assumes "p' \<in> set (moved_rows i j ps)"
  obtains p where "p \<in> set ps" and "ps_id p' = ps_id p" and "ps_content p' = ps_content p"
    and "\<And>s. cites s p' = cites s p" and "ps_memory p' = (if ps_memory p = i then j else ps_memory p)"
proof -
  from assms obtain p where "p \<in> set ps" "p' = (if ps_memory p = i then p\<lparr> ps_memory := j \<rparr> else p)"
    unfolding moved_rows_def by (rule in_update_whereE)
  with that [of p] show thesis by (auto simp: cites_def split: if_splits)
qed

lemma moved_rows_ids [simp]: "map ps_id (moved_rows i j ps) = map ps_id ps"
  by (simp add: moved_rows_def)

lemma moved_rows_distinct:
  assumes "distinct (map (\<lambda>p. (ps_memory p, ps_ordinal p)) ps)" and "j \<notin> ps_memory ` set ps"
  shows "distinct (map (\<lambda>p. (ps_memory p, ps_ordinal p)) (moved_rows i j ps))"
proof -
  define g where "g = (\<lambda>(x, n :: nat). (if x = i then j else x, n))"
  have "map (\<lambda>p. (ps_memory p, ps_ordinal p)) (moved_rows i j ps) =
        map g (map (\<lambda>p. (ps_memory p, ps_ordinal p)) ps)"
    by (simp add: moved_rows_def update_where_def g_def)
  moreover have "inj_on g (set (map (\<lambda>p. (ps_memory p, ps_ordinal p)) ps))"
    using assms(2) by (auto simp: inj_on_def g_def split: if_splits)
  ultimately show ?thesis using assms(1) by (metis distinct_map)
qed

lemma adopted_inv:
  assumes inv: "library_inv b l" and prev: "r \<in> set (memory_rows l)" "stored_text (m_id r) l = Some (pd_text pd)"
    and row: "q \<in> set (memory_rows l)" "m_id q \<noteq> m_id r" "same_item (m_source q) (m_key q) r"
    and some: "m_id r \<in> ps_memory ` set (lb_passages l)"
  shows "library_inv b (apply_document q pd (normalized_hash b (pd_text pd))
           (set_passages (moved_rows (m_id r) (m_id q) (lb_passages l)) l))" (is "library_inv b ?l")
proof -
  let ?ps = "moved_rows (m_id r) (m_id q) (lb_passages l)"
  have free: "m_id q \<notin> ps_memory ` set (lb_passages l)"
    using library_invD(3) [OF inv] prev(1) row some unfolding one_owner_def by blast
  have "passages_valid ?l"
    unfolding passages_valid_def
  proof
    fix p' assume "p' \<in> set (lb_passages ?l)"
    then obtain p where p: "p \<in> set (lb_passages l)" "ps_id p' = ps_id p" "\<And>s. cites s p' = cites s p"
      "ps_memory p' = (if ps_memory p = m_id r then m_id q else ps_memory p)"
      by (auto elim: moved_rowsE)
    from p(1) obtain s where s: "ps_id p < c_next_id (lb_corpus l)" "ps_memory p \<in> m_id ` set (memory_rows l)"
      "stored_text (ps_memory p) l = Some s" "cites s p"
      using library_invD(2) [OF inv] unfolding passages_valid_def by blast
    have "ps_memory p \<noteq> m_id q" using imageI [OF p(1), of ps_memory] free by metis
    then have "stored_text (ps_memory p') ?l = Some s"
      using p(4) s(3) prev(2) row(2) by auto
    moreover have "ps_memory p' \<in> m_id ` set (memory_rows ?l)" using p(4) s(2) row(1) by auto
    ultimately show "ps_id p' < c_next_id (lb_corpus ?l) \<and> ps_memory p' \<in> m_id ` set (memory_rows ?l) \<and>
        (\<exists>s. stored_text (ps_memory p') ?l = Some s \<and> cites s p')"
      using p(2,3) s(1,4) by simp
  qed
  moreover have "one_owner ?l"
    unfolding one_owner_def
  proof (intro ballI impI)
    fix x y
    assume x: "x \<in> set (memory_rows ?l)" and y: "y \<in> set (memory_rows ?l)"
      and item: "same_item (m_source x) (m_key x) y"
      and owns: "m_id x \<in> ps_memory ` set (lb_passages ?l)" "m_id y \<in> ps_memory ` set (lb_passages ?l)"
    have old: "z = m_id q \<or> z \<noteq> m_id r \<and> z \<in> ps_memory ` set (lb_passages l)"
      if "z \<in> ps_memory ` set (lb_passages ?l)" for z
      using that row(2) by (auto elim!: moved_rowsE split: if_splits)
    have ids: "distinct (map m_id (memory_rows l))"
      using memories_okD(1) [OF corpus_invD(1) [OF library_invD(1) [OF inv]]] by (simp add: memory_rows_def)
    have clash: False
      if "z \<in> set (memory_rows l)" "same_item (m_source z) (m_key z) q \<or> same_item (m_source q) (m_key q) z"
        "m_id z \<noteq> m_id r" "m_id z \<in> ps_memory ` set (lb_passages l)" for z
      using library_invD(3) [OF inv] that prev(1) some row(3) unfolding one_owner_def
      by (metis same_item_def)
    have unique: "z = q" if "z \<in> set (memory_rows l)" "m_id z = m_id q" for z
      using distinct_map_eqD [OF ids that(1) row(1) that(2)] .
    show "m_id x = m_id y"
      using old [OF owns(1)] old [OF owns(2)] x y item clash unique library_invD(3) [OF inv]
      unfolding one_owner_def by (simp, metis)
  qed
  ultimately show ?thesis
    using inv moved_rows_distinct [OF library_invD(6) [OF inv] free]
    by (simp add: library_inv_def texts_hashed_apply)
qed

lemma adopt_cases:
  obtains (none) "atomically (adopt_from_previous_version nz m pd h) l = (Inr None, l)"
  | (failed) e where "atomically (adopt_from_previous_version nz m pd h) l = (Inl e, l)"
  | (moved) r q where "previous_version m h l = Some r" and "chunker_versions (m_id r) l = {nz_version nz}"
      and "memory_get (m_id m) l = Some q"
      and "atomically (adopt_from_previous_version nz m pd h) l =
        (Inr (Some (length (passages_of (m_id r) l))),
         apply_document q pd h (set_passages (moved_rows (m_id r) (m_id m) (lb_passages l)) l))"
proof (cases "previous_version m h l")
  case None
  then show thesis using none by (simp add: atomically_def adopt_from_previous_version_def)
next
  case (Some r)
  let ?rows = "moved_rows (m_id r) (m_id m) (lb_passages l)"
  consider "chunker_versions (m_id r) l \<noteq> {nz_version nz}"
    | "chunker_versions (m_id r) l = {nz_version nz}"
      "\<not> distinct (map (\<lambda>p. (ps_memory p, ps_ordinal p)) ?rows) \<or> memory_get (m_id m) l = None"
    | q where "chunker_versions (m_id r) l = {nz_version nz}"
      "distinct (map (\<lambda>p. (ps_memory p, ps_ordinal p)) ?rows)" "memory_get (m_id m) l = Some q"
    by blast
  then show thesis
  proof cases
    case 1
    with Some none show thesis by (simp add: atomically_def adopt_from_previous_version_def)
  next
    case 2
    have "\<exists>e. atomically (adopt_from_previous_version nz m pd h) l = (Inl e, l)"
      using 2 by (auto simp: atomically_def adopt_from_previous_version_def Some Let_def
          moved_rows_def [symmetric])
    with failed show thesis by blast
  next
    case (3 q)
    then have "atomically (adopt_from_previous_version nz m pd h) l =
        (Inr (Some (length (passages_of (m_id r) l))), apply_document q pd h (set_passages ?rows l))"
      by (simp add: atomically_def adopt_from_previous_version_def Some Let_def
          moved_rows_def [symmetric] passages_of_def row_count_def)
    with moved [OF Some 3(1,3)] show thesis .
  qed
qed

lemma loadedD:
  "loaded m l \<Longrightarrow> memory_get (m_id m) l = Some q \<Longrightarrow> same_item (m_source m) (m_key m) q"
  by (auto simp: loaded_def dest: memory_getD)

lemma adopt_inv:
  assumes inv: "library_inv b l" and "inj b" and m: "loaded m l"
  shows "library_inv b (snd (atomically (adopt_from_previous_version nz m pd (normalized_hash b (pd_text pd))) l))"
proof (cases rule: adopt_cases [of nz m pd "normalized_hash b (pd_text pd)" l])
  case (moved r q)
  note r = previous_versionD [OF moved(1)] and q = memory_getD [OF moved(3)]
  from moved(2) obtain p where "p \<in> set (passages_of (m_id r) l)" by (force simp: chunker_versions_def)
  then have "m_id r \<in> ps_memory ` set (lb_passages l)"
    by (auto simp: passages_of_def intro: rev_image_eqI)
  then have "library_inv b (apply_document q pd (normalized_hash b (pd_text pd))
      (set_passages (moved_rows (m_id r) (m_id q) (lb_passages l)) l))"
    using r q loadedD [OF m moved(3)] previous_version_text [OF assms(2) library_invD(4) [OF inv] moved(1)]
    by (intro adopted_inv [OF inv]) (auto simp: same_item_def)
  then show ?thesis by (simp add: moved(4) q(2))
qed (simp_all add: inv)

lemma new_passages_fields:
  assumes "p \<in> set (new_passages b version i n chunks)"
  obtains ch where "ch \<in> set chunks" and "ps_memory p = i" and "ps_content p = tc_text ch"
    and "n \<le> ps_id p" and "ps_id p < n + length chunks"
    and "\<And>doc. cites doc p = names_span doc ch" and "ps_chunker_version p = version"
    and "ps_embedding p = None"
proof -
  from assms obtain a where a: "a < length chunks" "p = passage_of b version i (n + a) (chunks ! a)"
    by (auto simp: new_passages_def in_set_enumerate_eq)
  then show thesis
    by (intro that [of "chunks ! a"]) (simp_all add: passage_of_def cites_def names_span_def)
qed

lemma new_passages_maps:
  "map ps_id (new_passages b version i n chunks) = [n..<n + length chunks]"
  "map ps_ordinal (new_passages b version i n chunks) = map tc_ordinal chunks"
  "length (new_passages b version i n chunks) = length chunks"
  "ps_memory ` set (new_passages b version i n chunks) = (if chunks = [] then {} else {i})"
proof -
  show "map ps_id (new_passages b version i n chunks) = [n..<n + length chunks]"
    by (rule nth_equalityI) (simp_all add: new_passages_def passage_of_def nth_enumerate_eq)
  show "map ps_ordinal (new_passages b version i n chunks) = map tc_ordinal chunks"
    by (rule nth_equalityI) (simp_all add: new_passages_def passage_of_def nth_enumerate_eq)
  show "length (new_passages b version i n chunks) = length chunks" by (simp add: new_passages_def)
  have "ps_memory p = i" if "p \<in> set (new_passages b version i n chunks)" for p
    using that by (rule new_passages_fields)
  then show "ps_memory ` set (new_passages b version i n chunks) = (if chunks = [] then {} else {i})"
    by (cases chunks) (auto simp: new_passages_def)
qed

definition item_ids :: "memory \<Rightarrow> library \<Rightarrow> nat set" where
  "item_ids m l = m_id ` set (filter (same_item (m_source m) (m_key m)) (memory_rows l))"

definition stored_rows ::
  "(string \<Rightarrow> string) \<Rightarrow> normalizer \<Rightarrow> memory \<Rightarrow> text_chunk list \<Rightarrow> library \<Rightarrow> passage list" where
  "stored_rows b nz m chunks l =
     filter (\<lambda>p. ps_memory p \<notin> item_ids m l) (lb_passages l) @
     new_passages b (nz_version nz) (m_id m) (c_next_id (lb_corpus l)) chunks"

definition after_store :: "normalizer \<Rightarrow> time \<Rightarrow> memory \<Rightarrow> nat \<Rightarrow> corpus \<Rightarrow> corpus" where
  "after_store nz now m n c =
     (let c1 = c\<lparr> c_next_id := c_next_id c + n \<rparr>
      in if nz_enqueue_followup nz then enqueue_job now (embed_spec (m_id m)) c1 else c1)"

lemma embed_spec_valid [simp]: "job_spec_post_init (embed_spec i) = Inr (embed_spec i)"
  by (simp add: job_spec_post_init_def embed_spec_def DEFAULT_MAX_ATTEMPTS_def)

lemma after_store_frame [simp]:
  "c_memories (after_store nz now m n c) = c_memories c" "c_blobs (after_store nz now m n c) = c_blobs c"
  "c_chunks (after_store nz now m n c) = c_chunks c" "c_events (after_store nz now m n c) = c_events c"
  "c_next_id c + n \<le> c_next_id (after_store nz now m n c)"
  "corpus_inv c \<Longrightarrow> corpus_inv (after_store nz now m n c)"
  by (simp_all add: after_store_def Let_def corpus_inv_enqueue corpus_inv_next)

lemma after_store_next:
  "c_next_id c \<le> c_next_id (after_store nz now m n (c\<lparr> c_chunks := rows \<rparr>))"
  using after_store_frame(5) [of "c\<lparr> c_chunks := rows \<rparr>" n nz now m] by simp

lemma apply_document_set_passages:
  "apply_document q pd h (set_passages ps l) = set_passages ps (apply_document q pd h l)"
  by (simp add: apply_document_def set_passages_def text_of_def)

lemma store_cases:
  obtains (failed) e where "atomically (store b nz now m pd h chunks) l = (Inl e, l)"
  | (stored) q l' where "memory_get (m_id m) l = Some q" and "insertable chunks"
      and "atomically (store b nz now m pd h chunks) l = (Inr (), l')"
      and "l' = (apply_document q pd h (set_passages (stored_rows b nz m chunks l) l))
        \<lparr> lb_corpus := after_store nz now m (length chunks)
            ((lb_corpus l)\<lparr> c_chunks := map chunk_row_of (stored_rows b nz m chunks l) \<rparr>) \<rparr>"
proof (cases "memory_get (m_id m) l")
  case None
  then have "atomically (store b nz now m pd h chunks) l = (Inl PermanentError, l)"
    by (simp add: atomically_def store_def)
  with failed show thesis .
next
  case (Some q)
  show thesis
  proof (cases "insertable chunks")
    case False
    then have "atomically (store b nz now m pd h chunks) l = (Inl IntegrityViolation, l)"
      by (simp add: atomically_def store_def Some Let_def)
    with failed show thesis .
  next
    case True
    have "atomically (store b nz now m pd h chunks) l =
      (Inr (), (apply_document q pd h (set_passages (stored_rows b nz m chunks l) l))
        \<lparr> lb_corpus := after_store nz now m (length chunks)
            ((lb_corpus l)\<lparr> c_chunks := map chunk_row_of (stored_rows b nz m chunks l) \<rparr>) \<rparr>)"
      using True memory_getD(2) [OF Some]
      by (simp add: atomically_def store_def Some Let_def stored_rows_def item_ids_def after_store_def
          apply_document_set_passages)
    with stored [OF Some True] show thesis by blast
  qed
qed

lemma stored_rows_inv:
  assumes inv: "library_inv b l" and port: "chunker_port segment" and q: "memory_get (m_id m) l = Some q"
    and m: "loaded m l"
  shows "library_inv b ((apply_document q pd (normalized_hash b (pd_text pd))
      (set_passages (stored_rows b nz m (segment pd) l) l))
      \<lparr> lb_corpus := after_store nz now m (length (segment pd))
          ((lb_corpus l)\<lparr> c_chunks := map chunk_row_of (stored_rows b nz m (segment pd) l) \<rparr>) \<rparr>)"
    (is "library_inv b ?l")
proof -
  let ?new = "new_passages b (nz_version nz) (m_id m) (c_next_id (lb_corpus l)) (segment pd)"
  let ?kept = "filter (\<lambda>p. ps_memory p \<notin> item_ids m l) (lb_passages l)"
  note row = memory_getD [OF q] and item = loadedD [OF m q]
  have mine: "m_id m \<in> item_ids m l" using row item unfolding item_ids_def by (intro rev_image_eqI [of q]) auto
  have rows: "memory_rows ?l = memory_rows l" by (simp add: memory_rows_def)
  have body: "stored_text i ?l = (if i = m_id m then Some (pd_text pd) else stored_text i l)" for i
    using stored_text_apply [of i q pd _ l] by (simp add: stored_text_def row(2) with_document_def)
  have old: "p \<in> set (lb_passages l) \<and> ps_memory p \<noteq> m_id m \<and> ps_memory p \<notin> item_ids m l" if "p \<in> set ?kept" for p
    using that mine by auto
  have new_mine: "ps_memory p = m_id m" if "p \<in> set ?new" for p
    using that by (rule new_passages_fields)
  have "passages_valid ?l"
    unfolding passages_valid_def
  proof
    fix p assume "p \<in> set (lb_passages ?l)"
    then consider "p \<in> set ?kept" | "p \<in> set ?new" by (auto simp: stored_rows_def)
    then show "ps_id p < c_next_id (lb_corpus ?l) \<and> ps_memory p \<in> m_id ` set (memory_rows ?l) \<and>
        (\<exists>s. stored_text (ps_memory p) ?l = Some s \<and> cites s p)"
    proof cases
      case 1
      from old [OF this] have p: "p \<in> set (lb_passages l)" "ps_memory p \<noteq> m_id m" by simp_all
      have "c_next_id (lb_corpus l) \<le> c_next_id (lb_corpus ?l)"
        by (simp add: after_store_next)
      with p library_invD(2) [OF inv] show ?thesis
        unfolding passages_valid_def by (simp only: rows body if_False) (meson less_le_trans)
    next
      case 2
      then obtain ch where ch: "ch \<in> set (segment pd)" "ps_memory p = m_id m"
        "ps_id p < c_next_id (lb_corpus l) + length (segment pd)" "\<And>doc. cites doc p = names_span doc ch"
        by (rule new_passages_fields) blast
      have "c_next_id (lb_corpus l) + length (segment pd) \<le> c_next_id (lb_corpus ?l)"
        using after_store_frame(5) [of "(lb_corpus l)\<lparr> c_chunks := _ \<rparr>"] by simp
      moreover have "m_id m \<in> m_id ` set (memory_rows l)"
        using imageI [OF row(1), of m_id] row(2) by simp
      ultimately show ?thesis
        using ch chunker_port.names [OF port ch(1)] by (simp only: rows body if_True) auto
    qed
  qed
  moreover have "one_owner ?l"
    unfolding one_owner_def rows
  proof (intro ballI impI)
    fix x y
    assume x: "x \<in> set (memory_rows l)" and y: "y \<in> set (memory_rows l)"
      and same: "same_item (m_source x) (m_key x) y"
      and owns: "m_id x \<in> ps_memory ` set (lb_passages ?l)" "m_id y \<in> ps_memory ` set (lb_passages ?l)"
    have cases: "z = m_id m \<or> z \<in> ps_memory ` set (lb_passages l) \<and> z \<notin> item_ids m l"
      if z: "z \<in> ps_memory ` set (lb_passages ?l)" for z
    proof -
      from z obtain p where p: "z = ps_memory p" "p \<in> set ?kept \<or> p \<in> set ?new"
        by (auto simp: stored_rows_def)
      then show ?thesis using old new_mine by blast
    qed
    have mineD: "same_item (m_source m) (m_key m) z" if "z \<in> set (memory_rows l)" "m_id z = m_id m" for z
      using m that by (simp add: loaded_def)
    have ids: "m_id z \<in> item_ids m l" if "z \<in> set (memory_rows l)" "same_item (m_source m) (m_key m) z" for z
      using that by (auto simp: item_ids_def)
    have clash: False
      if "z \<in> set (memory_rows l)" "m_id z = m_id m" "z' \<in> set (memory_rows l)" "m_id z' \<notin> item_ids m l"
        "same_item (m_source z) (m_key z) z' \<or> same_item (m_source z') (m_key z') z" for z z'
      using mineD [OF that(1,2)] ids [OF that(3)] that(4,5) by (auto simp: same_item_def)
    consider "m_id x = m_id m" "m_id y = m_id m"
      | "m_id x = m_id m" "m_id y \<notin> item_ids m l" | "m_id y = m_id m" "m_id x \<notin> item_ids m l"
      | "m_id x \<in> ps_memory ` set (lb_passages l)" "m_id y \<in> ps_memory ` set (lb_passages l)"
      using cases [OF owns(1)] cases [OF owns(2)] by blast
    then show "m_id x = m_id y"
    proof cases
      case 1
      then show ?thesis by simp
    next
      case 2
      then show ?thesis using clash [OF x _ y] same by blast
    next
      case 3
      then show ?thesis using clash [OF y _ x] same by blast
    next
      case 4
      then show ?thesis using library_invD(3) [OF inv] x y same unfolding one_owner_def by blast
    qed
  qed
  moreover have "texts_hashed b ?l"
    by (simp add: texts_hashed_apply library_invD(4) [OF inv])
  moreover have "corpus_inv (lb_corpus ?l)" using library_invD(1) [OF inv] by simp
  moreover have "distinct (map ps_id (lb_passages ?l))"
    using library_invD(2,5) [OF inv]
    by (auto simp: stored_rows_def new_passages_maps distinct_map_filter passages_valid_def)
  moreover have "distinct (map (\<lambda>p. (ps_memory p, ps_ordinal p)) (lb_passages ?l))"
  proof -
    have "distinct (map ps_ordinal ?new)"
      by (simp add: new_passages_maps chunker_port.ordinals [OF port])
    then have "distinct (map (\<lambda>p. (ps_memory p, ps_ordinal p)) ?new)"
      by (auto simp: distinct_map inj_on_def)
    moreover have "distinct (map (\<lambda>p. (ps_memory p, ps_ordinal p)) ?kept)"
      by (rule distinct_map_filter [OF library_invD(6) [OF inv]])
    moreover have "(ps_memory p, ps_ordinal p) \<noteq> (ps_memory p', ps_ordinal p')"
      if "p \<in> set ?kept" "p' \<in> set ?new" for p p'
      using old [OF that(1)] new_mine [OF that(2)] by simp
    ultimately show ?thesis by (auto simp: stored_rows_def)
  qed
  ultimately show ?thesis by (simp add: library_inv_def)
qed

lemma store_inv:
  assumes inv: "library_inv b l" and port: "chunker_port (nz_chunk nz)" and m: "loaded m l"
  shows "library_inv b (snd (atomically (store b nz now m pd (normalized_hash b (pd_text pd)) (nz_chunk nz pd)) l))"
proof (cases rule: store_cases [of b nz now m pd "normalized_hash b (pd_text pd)" "nz_chunk nz pd" l])
  case (stored q l')
  then show ?thesis using stored_rows_inv [OF inv port stored(1) m] by simp
qed (simp add: inv)

lemma enqueue_library_inv:
  assumes "library_inv b l" and "job_spec_post_init spec = Inr spec"
  shows "library_inv b (l\<lparr> lb_corpus := enqueue_job now spec (lb_corpus l) \<rparr>)"
  using assms(1) corpus_inv_enqueue [OF library_invD(1) [OF assms(1)] assms(2)]
  by (auto simp: library_inv_def passages_valid_def one_owner_def memory_rows_def stored_text_def
      intro: less_SucI)

lemma library_step_inv:
  assumes "library_step b b8 nz model l l'" and "library_inv b l" and "inj b" and "chunker_port (nz_chunk nz)"
  shows "library_inv b l'"
  using assms
  by (induction rule: library_step.induct)
    (simp_all add: cascade_inv adopt_inv store_inv cache_put_many_inv write_vectors_inv
      enqueue_library_inv)

lemma empty_library_inv: "library_inv b (empty_library me)"
  by (simp add: library_inv_def empty_library_def corpus_inv_empty passages_valid_def one_owner_def
      texts_hashed_def) (simp add: empty_corpus_def)

lemma reachable_library_inv:
  assumes "reachable_library b b8 nz model me l" and "inj b" and "chunker_port (nz_chunk nz)"
  shows "library_inv b l"
  using assms(1) unfolding reachable_library_def
  by (induction rule: rtranclp_induct) (auto intro: empty_library_inv library_step_inv [OF _ _ assms(2,3)])

section \<open>The corpus of a library\<close>

lemma lifecycle_chunks: "lifecycle b8 c (c\<lparr> c_chunks := rows \<rparr>)"
proof -
  have "lifecycle b8 c (c\<lparr> c_sources := c_sources c, c_chunks := rows, c_mentions := c_mentions c,
      c_evidence := c_evidence c, c_tags := c_tags c, c_turns := c_turns c,
      c_attachments := c_attachments c \<rparr>)"
    by (rule lifecycle.other_tables)
  then show ?thesis by simp
qed

lemma after_store_lifecycle: "(lifecycle b8)\<^sup>*\<^sup>* c (after_store nz now m n c)"
proof -
  have draw: "lifecycle b8 c (c\<lparr> c_next_id := c_next_id c + n \<rparr>)" by (rule lifecycle.draw_ids) simp
  have enqueue: "lifecycle b8 c1 (enqueue_job now (embed_spec (m_id m)) c1)" for c1
    by (rule lifecycle.enqueue) simp
  show ?thesis
    using draw rtranclp.rtrancl_into_rtrancl [OF r_into_rtranclp [of "lifecycle b8", OF draw] enqueue]
    by (auto simp: after_store_def Let_def)
qed

lemma library_step_corpus:
  assumes "library_step b b8 nz model l l'"
  shows "(lifecycle b8)\<^sup>*\<^sup>* (lb_corpus l) (lb_corpus l')"
  using assms
proof (induction rule: library_step.induct)
  case (corpus l c)
  have "lb_corpus (cascade c l) = c\<lparr> c_chunks := map chunk_row_of (lb_passages (cascade c l)) \<rparr>"
    by (simp add: cascade_def Let_def)
  with corpus show ?case by (metis (no_types) lifecycle_chunks rtranclp.rtrancl_into_rtrancl r_into_rtranclp)
next
  case (adopt m l pd)
  show ?case
    by (cases rule: adopt_cases [of nz m pd "normalized_hash b (pd_text pd)" l])
      (auto intro: lifecycle_chunks)
next
  case (store m l now pd)
  show ?case
  proof (cases rule: store_cases [of b nz now m pd "normalized_hash b (pd_text pd)" "nz_chunk nz pd" l])
    case (stored q l')
    then show ?thesis
      by (simp add: converse_rtranclp_into_rtranclp [OF lifecycle_chunks after_store_lifecycle])
  qed simp
next
  case (write_back name vectors targets l now)
  show ?case
    by (cases rule: write_vectors_cases [of name now vectors targets l]) (auto intro: lifecycle_chunks)
next
  case (enqueue spec l now)
  then show ?case by (simp add: r_into_rtranclp lifecycle.enqueue)
qed (simp add: cache_put_many_def)

lemma reachable_library_corpus:
  assumes "reachable_library b b8 nz model me l"
  shows "reachable_corpus b8 me (lb_corpus l)"
  using assms unfolding reachable_library_def reachable_corpus_def
proof (induction rule: rtranclp_induct)
  case base
  show ?case by (simp add: empty_library_def)
next
  case (step y z)
  show ?case by (rule rtranclp_trans [OF step(3) library_step_corpus [OF step(2)]])
qed

section \<open>What a session read stays true\<close>

definition keeps_passages :: "library \<Rightarrow> library \<Rightarrow> bool" where
  "keeps_passages l l' \<longleftrightarrow>
     (\<forall>p' \<in> set (lb_passages l'). c_next_id (lb_corpus l) \<le> ps_id p' \<or>
        (\<exists>p \<in> set (lb_passages l). ps_id p = ps_id p' \<and> ps_content p = ps_content p'))"

lemma lifecycles_keep_rows: "(lifecycle b8)\<^sup>*\<^sup>* c c' \<Longrightarrow> keeps_rows c c'"
  by (induction rule: rtranclp_induct) (auto intro: keeps_rows_refl keeps_rows_trans lifecycle_keeps_rows)

lemma library_step_keeps:
  assumes "library_step b b8 nz model l l'"
  shows "keeps_rows (lb_corpus l) (lb_corpus l')" and "keeps_passages l l'"
proof -
  show "keeps_rows (lb_corpus l) (lb_corpus l')"
    by (rule lifecycles_keep_rows [OF library_step_corpus [OF assms]])
  from assms show "keeps_passages l l'"
  proof (induction rule: library_step.induct)
    case (corpus l c)
    show ?case by (auto simp: keeps_passages_def)
  next
    case (adopt m l pd)
    show ?case
      by (cases rule: adopt_cases [of nz m pd "normalized_hash b (pd_text pd)" l])
        (auto simp: keeps_passages_def elim!: moved_rowsE)
  next
    case (store m l now pd)
    show ?case
      by (cases rule: store_cases [of b nz now m pd "normalized_hash b (pd_text pd)" "nz_chunk nz pd" l])
        (auto simp: keeps_passages_def stored_rows_def elim!: new_passages_fields)
  next
    case (write_back name vectors targets l now)
    show ?case
    proof (cases rule: write_vectors_cases [of name now vectors targets l])
      case (written rows)
      have "\<exists>p \<in> set (lb_passages l). ps_id p = ps_id p' \<and> ps_content p = ps_content p'" if "p' \<in> set rows" for p'
        using in_bareE [OF write_rows_bare [OF written(1)] that] by (metis bare_fields(1,4))
      then show ?thesis by (simp add: keeps_passages_def written(2))
    qed (auto simp: keeps_passages_def)
  qed (auto simp: keeps_passages_def cache_put_many_def)
qed

lemma loaded_step:
  assumes "library_step b b8 nz model l l'" and "loaded m l"
  shows "loaded m l'"
proof -
  have keeps: "keeps_rows (lb_corpus l) (lb_corpus l')" by (rule library_step_keeps [OF assms(1)])
  then have "m_id m < c_next_id (lb_corpus l')" using assms(2) by (auto simp: keeps_rows_def loaded_def)
  moreover have "same_item (m_source m) (m_key m) r" if "r \<in> set (memory_rows l')" "m_id r = m_id m" for r
    using keeps assms(2) that
    by (fastforce simp: keeps_rows_def loaded_def memory_rows_def same_item_def)
  ultimately show ?thesis by (simp add: loaded_def)
qed

lemma read_before_step:
  assumes "library_step b b8 nz model l l'" and "read_before key_of targets l"
  shows "read_before key_of targets l'"
proof -
  note keeps = library_step_keeps [OF assms(1)]
  from assms(2) keeps show ?thesis
    unfolding read_before_def keeps_passages_def keeps_rows_def by fastforce
qed

lemma loaded_steps: "(library_step b b8 nz model)\<^sup>*\<^sup>* l l' \<Longrightarrow> loaded m l \<Longrightarrow> loaded m l'"
  by (induction rule: rtranclp_induct) (auto intro: loaded_step)

lemma read_before_steps:
  "(library_step b b8 nz model)\<^sup>*\<^sup>* l l' \<Longrightarrow> read_before key_of targets l \<Longrightarrow> read_before key_of targets l'"
  by (induction rule: rtranclp_induct) (auto intro: read_before_step)

lemma memory_get_loaded:
  assumes "memory_get i l = Some m" and "corpus_inv (lb_corpus l)"
  shows "loaded m l"
proof -
  note m = memory_getD [OF assms(1)]
  have "same_item (m_source m) (m_key m) r" if "r \<in> set (memory_rows l)" "m_id r = m_id m" for r
    using distinct_map_eqD [OF memories_okD(1) [OF corpus_invD(1) [OF assms(2)]]] m(1) that
    by (metis memory_rows_def same_item_self)
  with corpus_invD(5) [OF assms(2)] m(1) show ?thesis by (simp add: loaded_def memory_rows_def)
qed

end
