(* ===== verification/Pipeline_Effects.thy ===== *)
theory Pipeline_Effects
  imports Pipeline
begin

text \<open>
  The vectors of the pipeline, and what its two use cases do: both only take steps, whatever other
  sessions commit in between, and each leaves the rows it is meant to leave.
\<close>

section \<open>Keys of the cache\<close>

lemma NUL_split:
  assumes "NUL \<notin> set xs" and "NUL \<notin> set ys" and "xs @ NUL # us = ys @ NUL # vs"
  shows "xs = ys \<and> us = vs"
  using assms
proof (induction xs arbitrary: ys)
  case Nil
  then show ?case by (cases ys) auto
next
  case (Cons x xs)
  then show ?case by (cases ys) auto
qed

lemma role_no_NUL [simp]: "NUL \<notin> set (embedding_role_value role)"
  by (cases role) (simp_all add: NUL_def)

lemma role_value_inj: "embedding_role_value r = embedding_role_value r' \<Longrightarrow> r = r'"
  by (cases r; cases r') simp_all

lemma cache_key_inj:
  assumes "inj b" and "NUL \<notin> set n" and "NUL \<notin> set n'"
    and "cache_key_for b n t r = cache_key_for b n' t' r'"
  shows "n = n' \<and> r = r' \<and> t = t'"
proof -
  have "n @ NUL # embedding_role_value r @ NUL # t = n' @ NUL # embedding_role_value r' @ NUL # t'"
    using assms(1,4) by (auto simp: cache_key_for_def dest: injD)
  from NUL_split [OF assms(2,3) this]
  have "n = n'" "embedding_role_value r @ NUL # t = embedding_role_value r' @ NUL # t'" by auto
  with NUL_split [OF role_no_NUL role_no_NUL this(2)] role_value_inj show ?thesis by blast
qed

section \<open>Every vector belongs to its text\<close>

definition vector_of_text :: "(string \<Rightarrow> string \<Rightarrow> vector) \<Rightarrow> passage \<Rightarrow> bool" where
  "vector_of_text model p \<longleftrightarrow>
     (\<forall>v. ps_embedding p = Some v \<longrightarrow>
        (\<exists>name. ps_embedding_model p = Some name \<and> v = model name (ps_content p)))"

definition vectors_genuine :: "(string \<Rightarrow> string) \<Rightarrow> (string \<Rightarrow> string \<Rightarrow> vector) \<Rightarrow> library \<Rightarrow> bool" where
  "vectors_genuine b model l \<longleftrightarrow>
     list_all (genuine b model) (lb_cache l) \<and> list_all (vector_of_text model) (lb_passages l)"

lemma cache_insert_all: "P e \<Longrightarrow> list_all P cache \<Longrightarrow> list_all P (cache_insert e cache)"
  by (simp add: cache_insert_def)

lemma cache_put_all:
  "list_all P entries \<Longrightarrow> list_all P cache \<Longrightarrow> list_all P (fold cache_insert entries cache)"
  by (induction entries arbitrary: cache) (auto simp: cache_insert_all)

lemma update_where_all:
  "list_all P rows \<Longrightarrow> (\<And>p. p \<in> set rows \<Longrightarrow> q p \<Longrightarrow> P p \<Longrightarrow> P (f p)) \<Longrightarrow> list_all P (update_where q f rows)"
  by (induction rows) auto

lemma vector_of_text_moved:
  "list_all (vector_of_text model) rows \<Longrightarrow> list_all (vector_of_text model) (moved_rows i j rows)"
  unfolding moved_rows_def by (rule update_where_all) (simp_all add: vector_of_text_def)

lemma write_rows_genuine:
  assumes "write_rows name now vectors targets rows = Inr rows'"
    and "\<And>i key p. (i, key) \<in> set targets \<Longrightarrow> p \<in> set rows \<Longrightarrow> ps_id p = i \<Longrightarrow> key = key_of (ps_content p)"
    and "\<And>t v. vectors (key_of t) = Some v \<Longrightarrow> v = model name t"
    and "list_all (vector_of_text model) rows"
  shows "list_all (vector_of_text model) rows'"
  using assms
proof (induction name now vectors targets rows rule: write_rows.induct)
  case (2 name now vectors i key rest rows)
  from "2.prems"(1) obtain v where v: "vectors key = Some v"
    and run: "write_rows name now vectors rest
      (update_where (\<lambda>p. ps_id p = i) (set_embedding name now v) rows) = Inr rows'"
    by (auto split: option.splits)
  show ?case
  proof (rule "2.IH" [OF v run _ "2.prems"(3)])
    fix j k p'
    assume target: "(j, k) \<in> set rest" and p': "ps_id p' = j"
      and "p' \<in> set (update_where (\<lambda>p. ps_id p = i) (set_embedding name now v) rows)"
    then obtain p where "p \<in> set rows" "ps_id p = ps_id p'" "ps_content p' = ps_content p"
      by (auto elim!: in_update_whereE simp: set_embedding_def)
    with "2.prems"(2) [of j k p] target p' show "k = key_of (ps_content p')" by simp
  next
    show "list_all (vector_of_text model)
        (update_where (\<lambda>p. ps_id p = i) (set_embedding name now v) rows)"
    proof (rule update_where_all [OF "2.prems"(4)])
      fix p assume "p \<in> set rows" "ps_id p = i"
      with "2.prems"(2) [of i key p] have "key = key_of (ps_content p)" by simp
      with "2.prems"(3) v show "vector_of_text model (set_embedding name now v p)"
        by (simp add: vector_of_text_def set_embedding_def)
    qed
  qed
qed simp

lemma library_step_vectors:
  assumes "library_step b b8 nz model l l'" and "vectors_genuine b model l"
  shows "vectors_genuine b model l'"
  using assms
proof (induction rule: library_step.induct)
  case (corpus l c)
  then show ?case by (auto simp: vectors_genuine_def list_all_iff)
next
  case (adopt m l pd)
  then show ?case
    by (cases rule: adopt_cases [of nz m pd "normalized_hash b (pd_text pd)" l])
      (auto simp: vectors_genuine_def vector_of_text_moved)
next
  case (store m l now pd)
  show ?case
  proof (cases rule: store_cases [of b nz now m pd "normalized_hash b (pd_text pd)" "nz_chunk nz pd" l])
    case (stored q l')
    have "vector_of_text model p" if "p \<in> set (new_passages b (nz_version nz) i n chunks)" for p i n chunks
      using that by (rule new_passages_fields) (simp add: vector_of_text_def)
    with store(2) show ?thesis
      by (auto simp: vectors_genuine_def stored(3,4) stored_rows_def list_all_iff)
  qed (use store in simp)
next
  case (enqueue spec l now)
  then show ?case by (simp add: vectors_genuine_def)
next
  case (fill_cache entries l)
  then show ?case by (simp add: vectors_genuine_def cache_put_many_def cache_put_all)
next
  case (write_back name vectors targets l now)
  show ?case
  proof (cases rule: write_vectors_cases [of name now vectors targets l])
    case (written rows)
    have "list_all (vector_of_text model) rows"
    proof (rule write_rows_genuine [OF written(1)])
      show "key = cache_key_for b name (ps_content p) PASSAGE"
        if "(i, key) \<in> set targets" "p \<in> set (lb_passages l)" "ps_id p = i" for i key p
        using write_back(3) that by (auto simp: read_before_def)
    qed (use write_back(2,4) in \<open>auto simp: vectors_genuine_def\<close>)
    with write_back(4) show ?thesis by (simp add: vectors_genuine_def written(2))
  qed (use write_back in simp)
qed

lemma reachable_library_vectors:
  assumes "reachable_library b b8 nz model me l"
  shows "vectors_genuine b model l"
  using assms unfolding reachable_library_def
proof (induction rule: rtranclp_induct)
  case base
  show ?case by (simp add: vectors_genuine_def empty_library_def)
next
  case (step y z)
  show ?case by (rule library_step_vectors [OF step(2,3)])
qed

section \<open>The use cases are made of steps\<close>

lemma normalize_steps:
  assumes inv: "corpus_inv (lb_corpus l)"
    and others: "\<And>k l. (library_step b b8 nz model)\<^sup>*\<^sup>* l (others k l)"
  shows "(library_step b b8 nz model)\<^sup>*\<^sup>* l (snd (normalize b nz others now i l))"
proof (cases "memory_get i l")
  case (Some m)
  let ?S = "(library_step b b8 nz model)\<^sup>*\<^sup>*"
  let ?l1 = "others 1 l" and ?l2 = "others 2 (others 1 l)"
  have steps: "?S l ?l1" "?S l ?l2" "?S l (others 3 ?l2)"
    using others by (meson rtranclp_trans)+
  have m: "loaded m l" by (rule memory_get_loaded [OF Some inv])
  show ?thesis
  proof (cases "m_deleted_at m = None")
    case live: True
    show ?thesis
    proof (cases "parse_memory nz m ?l1")
      case (Inr pd)
      let ?h = "normalized_hash b (pd_text pd)"
      let ?adopt = "atomically (adopt_from_previous_version nz m pd ?h) (others 3 ?l2)"
      show ?thesis
      proof (cases "up_to_date nz m (text_of m l) pd ?h ?l2")
        case False
        have "library_step b b8 nz model (others 3 ?l2) (snd ?adopt)"
          by (rule library_step.adopt [OF loaded_steps [OF steps(3) m]])
        with steps(3) have adopted: "?S l (snd ?adopt)" by (rule rtranclp.rtrancl_into_rtrancl)
        obtain r l3 where l3: "?adopt = (r, l3)" by force
        then have "?S l (others 4 l3)" using adopted others by (metis rtranclp_trans snd_conv)
        moreover from this have "library_step b b8 nz model (others 4 l3)
            (snd (atomically (store b nz now m pd ?h (nz_chunk nz pd)) (others 4 l3)))"
          by (intro library_step.store loaded_steps [OF _ m])
        ultimately have "?S l (snd (atomically (store b nz now m pd ?h (nz_chunk nz pd)) (others 4 l3)))"
          by (rule rtranclp.rtrancl_into_rtrancl)
        moreover obtain s l4 where
          l4: "atomically (store b nz now m pd ?h (nz_chunk nz pd)) (others 4 l3) = (s, l4)" by force
        ultimately show ?thesis
          using adopted by (simp add: normalize_def Some live Inr False Let_def l3 l4 del: One_nat_def
              split: sum.split prod.split option.split)
      qed (simp add: normalize_def Some live Inr Let_def steps del: One_nat_def)
    qed (simp add: normalize_def Some live Let_def steps del: One_nat_def)
  qed (simp add: normalize_def Some)
qed (simp add: normalize_def)

lemma adopt_target_free:
  assumes inv: "library_inv b l" and m: "loaded m l" and r: "previous_version m h l = Some r"
    and versions: "chunker_versions (m_id r) l = {nz_version nz}"
  shows "m_id m \<notin> ps_memory ` set (lb_passages l)"
proof
  note prev = previous_versionD [OF r]
  from versions obtain p where "p \<in> set (passages_of (m_id r) l)" by (force simp: chunker_versions_def)
  then have owner: "m_id r \<in> ps_memory ` set (lb_passages l)"
    by (auto simp: passages_of_def intro: rev_image_eqI)
  assume used: "m_id m \<in> ps_memory ` set (lb_passages l)"
  with passage_memory_known(1) [OF inv] obtain q where q: "q \<in> set (memory_rows l)" "m_id q = m_id m"
    by force
  with m prev(2) have "same_item (m_source q) (m_key q) r" by (auto simp: loaded_def same_item_def)
  with library_invD(3) [OF inv] q prev(1,3) used owner show False unfolding one_owner_def by metis
qed

lemma adopt_never_collides:
  assumes inv: "library_inv b l" and m: "loaded m l"
  shows "atomically (adopt_from_previous_version nz m pd h) l \<noteq> (Inl IntegrityViolation, l)"
proof
  assume clash: "atomically (adopt_from_previous_version nz m pd h) l = (Inl IntegrityViolation, l)"
  then obtain r where r: "previous_version m h l = Some r" "chunker_versions (m_id r) l = {nz_version nz}"
    and dup: "\<not> distinct (map (\<lambda>p. (ps_memory p, ps_ordinal p)) (moved_rows (m_id r) (m_id m) (lb_passages l)))"
    by (auto simp: atomically_def adopt_from_previous_version_def moved_rows_def Let_def
        split: option.splits if_splits)
  from moved_rows_distinct [OF library_invD(6) [OF inv] adopt_target_free [OF inv m r]] dup
  show False by contradiction
qed

lemma embed_batches_genuine:
  assumes "embed_batches eb (\<lambda>t. cache_key_for b (eb_model_id eb) t PASSAGE) fresh batches = Inr fresh'"
    and "\<And>batch vs. eb_embed_passage eb batch = Inr vs \<Longrightarrow> vs = map (model (eb_model_id eb)) batch"
    and "NUL \<notin> set (eb_model_id eb)" and "list_all (genuine b model) fresh"
  shows "list_all (genuine b model) fresh'"
  using assms(1,4)
proof (induction batches arbitrary: fresh)
  case (Cons batch batches)
  let ?key = "\<lambda>t. cache_key_for b (eb_model_id eb) t PASSAGE"
  have upd: "list_all (genuine b model) (AList.update k v al)"
    if "genuine b model (k, v)" "list_all (genuine b model) al" for k v al
    using that by (induction al) auto
  have fold: "list_all (genuine b model) (fold (add_fresh ?key) (zip ts (map (model (eb_model_id eb)) ts)) al)"
    if "list_all (genuine b model) al" for ts al
    using that
  proof (induction ts arbitrary: al)
    case (Cons t ts)
    have "genuine b model (?key t, model (eb_model_id eb) t)" using assms(3) by (auto simp: genuine_def)
    with Cons show ?case by (simp add: add_fresh_def upd)
  qed simp
  from Cons.prems(1) obtain vs where "eb_embed_passage eb batch = Inr vs"
    and run: "embed_batches eb ?key (fold (add_fresh ?key) (zip batch vs) fresh) batches = Inr fresh'"
    by (auto split: sum.splits if_splits)
  with assms(2) have "vs = map (model (eb_model_id eb)) batch" by blast
  with run fold [OF Cons.prems(2)] Cons.IH show ?case by blast
qed simp

lemma pending_read_before:
  assumes "library_inv b l"
  shows "read_before key_of (map (\<lambda>(i, t). (i, key_of t)) (pending_chunks name i l)) l"
proof -
  have "p' = p" if "p \<in> set (lb_passages l)" "p' \<in> set (lb_passages l)" "ps_id p' = ps_id p" for p p'
    using distinct_map_eqD [OF library_invD(5) [OF assms] that(2,1,3)] .
  then show ?thesis
    using library_invD(2) [OF assms]
    by (fastforce simp: read_before_def pending_chunks_def passages_valid_def)
qed

lemma genuine_lookup:
  assumes "inj b" and "NUL \<notin> set name" and "list_all (genuine b model) al"
    and "map_of al (cache_key_for b name t PASSAGE) = Some v"
  shows "v = model name t"
proof -
  from map_of_SomeD [OF assms(4)] assms(3) have "genuine b model (cache_key_for b name t PASSAGE, v)"
    by (auto simp: list_all_iff)
  then obtain name' t' where "NUL \<notin> set name'" "v = model name' t'"
    "cache_key_for b name t PASSAGE = cache_key_for b name' t' PASSAGE"
    by (auto simp: genuine_def)
  with cache_key_inj [OF assms(1,2)] show ?thesis by blast
qed

lemma embed_chunks_steps:
  assumes "inj b" and name: "NUL \<notin> set (eb_model_id (em_embedder em))"
    and model: "\<And>batch vs. eb_embed_passage (em_embedder em) batch = Inr vs \<Longrightarrow>
      vs = map (model (eb_model_id (em_embedder em))) batch"
    and others: "\<And>k l. (library_step b b8 nz model)\<^sup>*\<^sup>* l (others k l)"
    and vectors: "vectors_genuine b model l"
    and read: "read_before (\<lambda>t. cache_key_for b (eb_model_id (em_embedder em)) t PASSAGE)
      (map (\<lambda>(i, t). (i, cache_key_for b (eb_model_id (em_embedder em)) t PASSAGE)) pending) l"
  shows "(library_step b b8 nz model)\<^sup>*\<^sup>* l (snd (embed_chunks b em others now pending l))"
proof -
  let ?S = "(library_step b b8 nz model)\<^sup>*\<^sup>*"
  let ?name = "eb_model_id (em_embedder em)"
  let ?key = "\<lambda>t. cache_key_for b ?name t PASSAGE"
  let ?l1 = "others 2 l"
  define keys where "keys = map (\<lambda>(_, t). ?key t) pending"
  define cached where "cached = cache_get_many (keep_first keys) ?l1"
  define missing where "missing = missing_texts (fst ` set cached) {} (zip keys (map snd pending))"
  have steps_vectors: "vectors_genuine b model l'" if "?S l l'" for l'
    using that by (induction rule: rtranclp_induct) (use vectors in \<open>auto intro: library_step_vectors\<close>)
  have l1: "?S l ?l1" by (rule others)
  have cached: "list_all (genuine b model) cached"
    using steps_vectors [OF l1]
    by (auto simp: cached_def cache_get_many_def vectors_genuine_def list_all_iff)
  show ?thesis
  proof (cases "embed_batches (em_embedder em) ?key [] (batched missing (batch_size em))")
    case (Inl e)
    then show ?thesis
      using l1 by (simp add: embed_chunks_def Let_def missing_def cached_def keys_def)
  next
    case (Inr fresh)
    have fresh: "list_all (genuine b model) fresh"
    proof (rule embed_batches_genuine [OF Inr])
      show "vs = map (model ?name) batch" if "eb_embed_passage (em_embedder em) batch = Inr vs" for batch vs
        using model [OF that] .
    qed (simp_all add: name)
    define l2 where "l2 = (if fresh \<noteq> [] then cache_put_many fresh (others 3 ?l1) else ?l1)"
    have "library_step b b8 nz model (others 3 ?l1) (cache_put_many fresh (others 3 ?l1))"
      by (rule library_step.fill_cache [OF fresh])
    with rtranclp_trans [OF l1 others] have "?S l (cache_put_many fresh (others 3 ?l1))"
      by (rule rtranclp.rtrancl_into_rtrancl)
    then have "?S l l2" using l1 by (simp add: l2_def)
    then have l3: "?S l (others 4 l2)" using others by (metis rtranclp_trans)
    have targets: "zip (map fst pending) keys = map (\<lambda>(i, t). (i, ?key t)) pending"
      unfolding keys_def by (induction pending) auto
    have "library_step b b8 nz model (others 4 l2)
        (snd (atomically (write_vectors ?name now (map_of cached ++ map_of fresh) (zip (map fst pending) keys))
          (others 4 l2)))"
    proof (rule library_step.write_back [OF name])
      show "v = model ?name t" if "(map_of cached ++ map_of fresh) (?key t) = Some v" for t v
        using that genuine_lookup [OF assms(1) name] cached fresh by (auto simp: map_add_Some_iff)
      show "read_before ?key (zip (map fst pending) keys) (others 4 l2)"
        unfolding targets by (rule read_before_steps [OF l3 read])
    qed
    with l3 have written: "?S l (snd (atomically (write_vectors ?name now (map_of cached ++ map_of fresh)
        (zip (map fst pending) keys)) (others 4 l2)))"
      by (rule rtranclp.rtrancl_into_rtrancl)
    moreover obtain r l4 where "atomically (write_vectors ?name now (map_of cached ++ map_of fresh)
        (zip (map fst pending) keys)) (others 4 l2) = (r, l4)" by force
    ultimately show ?thesis
      using Inr by (cases r) (simp_all add: embed_chunks_def Let_def missing_def cached_def keys_def l2_def)
  qed
qed

lemma embed_steps:
  assumes inv: "library_inv b l" and "inj b" and port: "chunker_port (nz_chunk nz)"
    and name: "NUL \<notin> set (eb_model_id (em_embedder em))"
    and model: "\<And>batch vs. eb_embed_passage (em_embedder em) batch = Inr vs \<Longrightarrow>
      vs = map (model (eb_model_id (em_embedder em))) batch"
    and others: "\<And>k l. (library_step b b8 nz model)\<^sup>*\<^sup>* l (others k l)"
    and vectors: "vectors_genuine b model l"
  shows "(library_step b b8 nz model)\<^sup>*\<^sup>* l (snd (embed b em others now i l))"
proof (cases "memory_get i l")
  case (Some m)
  let ?S = "(library_step b b8 nz model)\<^sup>*\<^sup>*"
  let ?name = "eb_model_id (em_embedder em)"
  define l1 where "l1 = others 1 l"
  have l1: "?S l l1" unfolding l1_def by (rule others)
  have keep: "library_inv b l' \<and> vectors_genuine b model l'" if "?S l l'" for l'
    using that
    by (induction rule: rtranclp_induct)
      (use inv vectors \<open>inj b\<close> port in \<open>auto intro: library_step_inv library_step_vectors\<close>)
  let ?p = "pending_chunks ?name i l1"
  have "?S l1 (snd (embed_chunks b em others now ?p l1))"
    using keep [OF l1] pending_read_before
    by (intro embed_chunks_steps [OF \<open>inj b\<close> name model others]) blast+
  with l1 have finished: "?S l (snd (embed_chunks b em others now ?p l1))" by (rule rtranclp_trans)
  moreover obtain r l2 where l2: "embed_chunks b em others now ?p l1 = (r, l2)" by force
  moreover have "?S l (enqueue_extraction em now i (others 5 l2))"
  proof -
    have l5: "?S l (others 5 l2)" using finished l2 others by (metis rtranclp_trans snd_conv)
    have "library_step b b8 nz model (others 5 l2)
        ((others 5 l2)\<lparr> lb_corpus := enqueue_job now (extract_spec i) (lb_corpus (others 5 l2)) \<rparr>)"
      by (rule library_step.enqueue) (simp add: job_spec_post_init_def extract_spec_def DEFAULT_MAX_ATTEMPTS_def)
    with l5 show ?thesis
      unfolding enqueue_extraction_def by (auto intro: rtranclp.rtrancl_into_rtrancl)
  qed
  ultimately show ?thesis
    using l1 by (cases r) (simp_all add: embed_def Some Let_def del: One_nat_def flip: l1_def)
qed (simp add: embed_def)

section \<open>What a normalization leaves\<close>

definition item_passages :: "memory \<Rightarrow> library \<Rightarrow> passage list" where
  "item_passages m l = filter (\<lambda>p. ps_memory p \<in> item_ids m l) (lb_passages l)"

lemma normalize_Inr:
  assumes "normalize b nz others now i l = (Inr rep, l')"
  obtains (deleted) m where "memory_get i l = Some m" and "m_deleted_at m \<noteq> None"
      and "nr_outcome rep = NORMALIZE_DELETED" and "l' = l"
  | (skipped) m pd where "memory_get i l = Some m" and "m_deleted_at m = None"
      and "parse_memory nz m (others 1 l) = Inr pd" and "nr_outcome rep = NORMALIZE_SKIPPED"
      and "l' = others 2 (others 1 l)"
  | (reused) m pd n where "memory_get i l = Some m" and "m_deleted_at m = None"
      and "parse_memory nz m (others 1 l) = Inr pd" and "nr_outcome rep = REUSED"
      and "atomically (adopt_from_previous_version nz m pd (normalized_hash b (pd_text pd)))
             (others 3 (others 2 (others 1 l))) = (Inr (Some n), l')"
  | (chunked) m pd l3 where "memory_get i l = Some m" and "m_deleted_at m = None"
      and "parse_memory nz m (others 1 l) = Inr pd" and "nr_outcome rep = CHUNKED"
      and "nr_chunks rep = length (nz_chunk nz pd)"
      and "atomically (store b nz now m pd (normalized_hash b (pd_text pd)) (nz_chunk nz pd)) l3 = (Inr (), l')"
      and "atomically (adopt_from_previous_version nz m pd (normalized_hash b (pd_text pd)))
             (others 3 (others 2 (others 1 l))) = (Inr None, others 3 (others 2 (others 1 l)))"
      and "l3 = others 4 (others 3 (others 2 (others 1 l)))"
proof -
  from assms obtain m where m: "memory_get i l = Some m" by (auto simp: normalize_def split: option.splits)
  show thesis
  proof (cases "m_deleted_at m = None")
    case False
    then show thesis using deleted [OF m] assms by (auto simp: normalize_def m)
  next
    case live: True
    with assms m obtain pd where pd: "parse_memory nz m (others 1 l) = Inr pd"
      by (auto simp: normalize_def Let_def simp del: One_nat_def split: sum.splits)
    let ?h = "normalized_hash b (pd_text pd)"
    let ?l3 = "others 3 (others 2 (others 1 l))"
    show thesis
    proof (cases "up_to_date nz m (text_of m l) pd ?h (others 2 (others 1 l))")
      case True
      then show thesis
        using skipped [OF m live pd] assms by (auto simp: normalize_def Let_def m live pd simp del: One_nat_def)
    next
      case False
      show thesis
      proof (cases rule: adopt_cases [of nz m pd ?h ?l3])
        case none
        obtain r l4 where st: "atomically (store b nz now m pd ?h (nz_chunk nz pd)) (others 4 ?l3) = (r, l4)"
          by force
        with none False assms show thesis
          using chunked [OF m live pd _ _ _ none refl]
          by (cases r) (auto simp: normalize_def Let_def m live pd simp del: One_nat_def)
      next
        case (failed e)
        with False assms show thesis by (simp add: normalize_def Let_def m live pd del: One_nat_def)
      next
        case (moved r q)
        have "normalize b nz others now i l =
          (Inr \<lparr> nr_outcome = REUSED, nr_chunks = length (passages_of (m_id r) ?l3), nr_tokens = 0 \<rparr>,
           snd (atomically (adopt_from_previous_version nz m pd ?h) ?l3))"
          using False by (simp add: normalize_def Let_def m live pd moved(4) del: One_nat_def)
        with assms have "nr_outcome rep = REUSED"
          and "l' = snd (atomically (adopt_from_previous_version nz m pd ?h) ?l3)" by auto
        with reused [OF m live pd] moved(4) show thesis by simp
      qed
    qed
  qed
qed

lemma item_ids_frame:
  "memory_rows l' = memory_rows l \<Longrightarrow> item_ids m l' = item_ids m l"
  by (simp add: item_ids_def)

lemma store_effect:
  assumes "atomically (store b nz now m pd h chunks) l = (Inr (), l')" and m: "loaded m l"
  shows "item_passages m l' = new_passages b (nz_version nz) (m_id m) (c_next_id (lb_corpus l)) chunks"
    and "stored_text (m_id m) l' = Some (pd_text pd)" and "memory_rows l' = memory_rows l"
    and "c_blobs (lb_corpus l') = c_blobs (lb_corpus l)"
    and "\<And>r. m_id r = m_id m \<Longrightarrow> tx_normalized_hash (text_of r l') = Some h"
    and "passages_of (m_id m) l' = new_passages b (nz_version nz) (m_id m) (c_next_id (lb_corpus l)) chunks"
    and "\<And>p. ps_memory p \<notin> item_ids m l \<Longrightarrow> p \<in> set (lb_passages l') \<longleftrightarrow> p \<in> set (lb_passages l)"
    and "\<And>r. m_id r \<noteq> m_id m \<Longrightarrow> text_of r l' = text_of r l"
proof -
  let ?new = "new_passages b (nz_version nz) (m_id m) (c_next_id (lb_corpus l)) chunks"
  obtain q where q: "memory_get (m_id m) l = Some q"
    and l': "l' = (apply_document q pd h (set_passages (stored_rows b nz m chunks l) l))
        \<lparr> lb_corpus := after_store nz now m (length chunks)
            ((lb_corpus l)\<lparr> c_chunks := map chunk_row_of (stored_rows b nz m chunks l) \<rparr>) \<rparr>"
    by (cases rule: store_cases [of b nz now m pd h chunks l]) (use assms(1) in auto)
  show rows: "memory_rows l' = memory_rows l" by (simp add: l' memory_rows_def)
  have mine: "m_id m \<in> item_ids m l"
    using memory_getD [OF q] loadedD [OF m q] unfolding item_ids_def by (intro rev_image_eqI [of q]) auto
  have new: "ps_memory p = m_id m" if "p \<in> set ?new" for p
    using that by (rule new_passages_fields)
  have ps: "lb_passages l' = filter (\<lambda>p. ps_memory p \<notin> item_ids m l) (lb_passages l) @ ?new"
    by (simp add: l' stored_rows_def)
  show "item_passages m l' = ?new"
    using mine new by (simp add: item_passages_def item_ids_frame [OF rows] ps filter_empty_conv)
  show "passages_of (m_id m) l' = ?new"
    using mine new by (auto simp: passages_of_def ps filter_empty_conv)
  show "p \<in> set (lb_passages l') \<longleftrightarrow> p \<in> set (lb_passages l)" if "ps_memory p \<notin> item_ids m l" for p
    using that mine new by (auto simp: ps)
  show "stored_text (m_id m) l' = Some (pd_text pd)"
    using memory_getD(2) [OF q] by (simp add: l' stored_text_def with_document_def)
  show "tx_normalized_hash (text_of r l') = Some h" if "m_id r = m_id m" for r
    using memory_getD(2) [OF q] that by (simp add: l' text_of_def with_document_def)
  show "text_of r l' = text_of r l" if "m_id r \<noteq> m_id m" for r
    using memory_getD(2) [OF q] that by (simp add: l' text_of_def)
  show "c_blobs (lb_corpus l') = c_blobs (lb_corpus l)" by (simp add: l')
qed

lemma adopt_effect:
  assumes "atomically (adopt_from_previous_version nz m pd h) l = (Inr (Some n), l')"
    and inv: "library_inv b l" and m: "loaded m l"
  obtains r where "previous_version m h l = Some r" and "memory_rows l' = memory_rows l"
    and "c_blobs (lb_corpus l') = c_blobs (lb_corpus l)" and "c_jobs (lb_corpus l') = c_jobs (lb_corpus l)"
    and "\<And>q. m_id q = m_id m \<Longrightarrow> tx_normalized_hash (text_of q l') = Some h"
    and "passages_of (m_id r) l' = []"
    and "passages_of (m_id m) l' = map (\<lambda>p. p\<lparr> ps_memory := m_id m \<rparr>) (passages_of (m_id r) l)"
    and "chunker_versions (m_id m) l' = {nz_version nz}"
proof (cases rule: adopt_cases [of nz m pd h l])
  case (moved r q)
  have free: "p \<in> set (lb_passages l) \<Longrightarrow> ps_memory p \<noteq> m_id m" for p
    using adopt_target_free [OF inv m moved(1,2)] by (metis imageI)
  have l': "l' = apply_document q pd h (set_passages (moved_rows (m_id r) (m_id m) (lb_passages l)) l)"
    using assms(1) moved(4) by simp
  have mine: "filter (\<lambda>p. ps_memory p = j) (moved_rows i j ps) =
      map (\<lambda>p. p\<lparr> ps_memory := j \<rparr>) (filter (\<lambda>p. ps_memory p = i) ps)"
    if "\<And>p. p \<in> set ps \<Longrightarrow> ps_memory p \<noteq> j" for i j ps
    using that by (induction ps) (auto simp: moved_rows_def)
  have theirs: "filter (\<lambda>p. ps_memory p = i) (moved_rows i j ps) = []" if "i \<noteq> j" for i j ps
    using that by (induction ps) (auto simp: moved_rows_def)
  have of_m: "passages_of (m_id m) l' = map (\<lambda>p. p\<lparr> ps_memory := m_id m \<rparr>) (passages_of (m_id r) l)"
    using mine [of "lb_passages l" "m_id m" "m_id r"] free by (simp add: passages_of_def l')
  show thesis
  proof (rule that [OF moved(1)])
    show "memory_rows l' = memory_rows l" by (simp add: l')
    show "c_blobs (lb_corpus l') = c_blobs (lb_corpus l)" "c_jobs (lb_corpus l') = c_jobs (lb_corpus l)"
      by (simp_all add: l')
    show "tx_normalized_hash (text_of x l') = Some h" if "m_id x = m_id m" for x
      using memory_getD(2) [OF moved(3)] that by (simp add: l' text_of_def with_document_def)
    show "passages_of (m_id r) l' = []"
      using theirs [OF previous_versionD(3) [OF moved(1)]] by (simp add: passages_of_def l')
    show "passages_of (m_id m) l' = map (\<lambda>p. p\<lparr> ps_memory := m_id m \<rparr>) (passages_of (m_id r) l)"
      by (rule of_m)
    show "chunker_versions (m_id m) l' = {nz_version nz}"
      using moved(2) by (simp add: chunker_versions_def of_m image_image)
  qed
qed (use assms(1) in auto)

lemma embed_chunks_Inr:
  assumes "embed_chunks b em others now pending l = (Inr rep, l')"
  obtains vectors l2 where
    "atomically (write_vectors (eb_model_id (em_embedder em)) now vectors
       (zip (map fst pending) (map (\<lambda>(_, t). cache_key_for b (eb_model_id (em_embedder em)) t PASSAGE) pending)))
       (others 4 l2) = (Inr (), l')"
    and "l2 = others 2 l \<or> (\<exists>fresh. l2 = cache_put_many fresh (others 3 (others 2 l)))"
    and "er_outcome rep = EMBEDDED" and "er_chunks rep = length pending"
proof -
  let ?name = "eb_model_id (em_embedder em)"
  let ?key = "\<lambda>t. cache_key_for b ?name t PASSAGE"
  let ?keys = "map (\<lambda>(_, t). ?key t) pending"
  define l1 where "l1 = others 2 l"
  define cached where "cached = cache_get_many (keep_first ?keys) l1"
  define missing where "missing = missing_texts (fst ` set cached) {} (zip ?keys (map snd pending))"
  define batches where "batches = embed_batches (em_embedder em) ?key [] (batched missing (batch_size em))"
  obtain fresh where fresh: "batches = Inr fresh"
    using assms
    by (cases batches) (simp_all add: embed_chunks_def Let_def flip: l1_def cached_def missing_def batches_def)
  define l2 where "l2 = (if fresh \<noteq> [] then cache_put_many fresh (others 3 l1) else l1)"
  obtain r l3 where wrote: "atomically (write_vectors ?name now (map_of cached ++ map_of fresh)
      (zip (map fst pending) ?keys)) (others 4 l2) = (r, l3)" by force
  have "embed_chunks b em others now pending l =
    (case (r, l3) of (Inl e, l3) \<Rightarrow> (Inl e, l3)
     | (Inr _, l3) \<Rightarrow> (Inr \<lparr> er_outcome = EMBEDDED, er_chunks = length pending,
          er_cache_hits = length (filter (\<lambda>key. key \<in> fst ` set cached) ?keys),
          er_cache_misses = length missing \<rparr>, l3))"
    unfolding wrote [symmetric] embed_chunks_def Let_def l2_def l1_def [symmetric] cached_def [symmetric]
      missing_def [symmetric] batches_def [symmetric] fresh
    by simp
  with assms have "r = Inr ()" "l3 = l'" "er_outcome rep = EMBEDDED" "er_chunks rep = length pending"
    by (auto split: sum.splits)
  moreover have "l2 = others 2 l \<or> (\<exists>fresh. l2 = cache_put_many fresh (others 3 (others 2 l)))"
    unfolding l2_def l1_def by (metis (full_types))
  ultimately show thesis using that wrote by simp
qed

lemma normalize_chunks:
  assumes get: "memory_get i l = Some m" and live: "m_deleted_at m = None"
    and pd: "parse_memory nz m l = Inr pd"
    and stale: "tx_normalized_hash (text_of m l) \<noteq> Some (normalized_hash b (pd_text pd))"
    and none: "previous_version m (normalized_hash b (pd_text pd)) l = None"
    and port: "chunker_port (nz_chunk nz)"
  obtains rep l' where "normalize b nz (\<lambda>_ l. l) now i l = (Inr rep, l')" and "nr_outcome rep = CHUNKED"
    and "atomically (store b nz now m pd (normalized_hash b (pd_text pd)) (nz_chunk nz pd)) l = (Inr (), l')"
proof (cases rule: store_cases [of b nz now m pd "normalized_hash b (pd_text pd)" "nz_chunk nz pd" l])
  case (failed e)
  moreover have "insertable (nz_chunk nz pd)" by (rule chunker_port.insertable [OF port])
  ultimately show thesis
    using get memory_getD(2) [OF get] by (simp add: atomically_def store_def Let_def)
next
  case (stored q l')
  have "atomically (adopt_from_previous_version nz m pd (normalized_hash b (pd_text pd))) l = (Inr None, l)"
    by (simp add: atomically_def adopt_from_previous_version_def none)
  with stored(3) stale show thesis
    using that by (simp add: normalize_def get live pd up_to_date_def Let_def)
qed

section \<open>An embedding that is answered succeeds\<close>

lemma concat_slices:
  "concat (map (\<lambda>k. slice xs (k * n) (k * n + n)) [0..<m]) = take (m * n) xs"
proof (induction m)
  case (Suc m)
  have "slice xs 0 (m * n) @ slice xs (m * n) (m * n + n) = slice xs 0 (m * n + n)"
    by (rule slice_append) simp_all
  with Suc show ?case by (simp add: slice_0 add.commute)
qed simp

lemma concat_batched: "0 < n \<Longrightarrow> concat (batched xs n) = xs"
proof -
  assume "0 < n"
  then have "length xs \<le> ((length xs + n - 1) div n) * n"
    using dividend_less_div_times [of n "length xs + n - 1"] by linarith
  then show ?thesis by (simp add: batched_def concat_slices)
qed

lemma batch_size_pos [simp]: "0 < batch_size em"
  by (simp add: batch_size_def)

lemma keys_add_fresh:
  "length vs = length ts \<Longrightarrow>
   fst ` set (fold (add_fresh key_of) (zip ts vs) al) = fst ` set al \<union> key_of ` set ts"
  by (induction ts vs arbitrary: al rule: list_induct2') (auto simp: add_fresh_def)

lemma embed_batches_total:
  assumes "\<And>batch. eb_embed_passage eb batch = Inr (map f batch)" and "\<And>t. length (f t) = eb_dimension eb"
  shows "\<exists>fresh'. embed_batches eb key_of fresh batches = Inr fresh' \<and>
           fst ` set fresh' = fst ` set fresh \<union> key_of ` set (concat batches)"
proof (induction batches arbitrary: fresh)
  case (Cons batch batches)
  let ?fresh = "fold (add_fresh key_of) (zip batch (map f batch)) fresh"
  have "fst ` set ?fresh = fst ` set fresh \<union> key_of ` set batch" by (rule keys_add_fresh) simp
  with Cons.IH [of ?fresh] show ?case by (simp add: assms list_all_iff image_Un Un_assoc)
qed simp

lemma missing_texts_cover:
  assumes "\<And>k t. (k, t) \<in> set kts \<Longrightarrow> k = key_of t" and "(k, t) \<in> set kts" and "k \<notin> cached" and "k \<notin> seen"
  shows "k \<in> key_of ` set (missing_texts cached seen kts)"
  using assms
proof (induction cached seen kts rule: missing_texts.induct)
  case (2 cached seen k' t' rest)
  show ?case
  proof (cases "k' \<notin> cached \<and> k' \<notin> seen")
    case True
    show ?thesis
    proof (cases "k = k'")
      case False
      with 2 True show ?thesis by auto
    qed (use 2(3) True in auto)
  next
    case False
    with "2.prems" have "(k, t) \<in> set rest" by auto
    with 2 False show ?thesis by auto
  qed
qed simp

lemma write_rows_total:
  "(\<And>i k. (i, k) \<in> set targets \<Longrightarrow> k \<in> dom vectors) \<Longrightarrow> \<exists>rows'. write_rows name now vectors targets rows = Inr rows'"
proof (induction name now vectors targets rows rule: write_rows.induct)
  case (2 name now vectors i key rest rows)
  from "2.prems" [of i key] obtain v where v: "vectors key = Some v" by auto
  have "\<exists>rows'. write_rows name now vectors rest
      (update_where (\<lambda>p. ps_id p = i) (set_embedding name now v) rows) = Inr rows'"
    using "2.IH" [OF v] "2.prems" by (meson list.set_intros(2))
  then show ?case by (simp add: v)
qed simp

lemma embed_chunks_total:
  assumes "\<And>batch. eb_embed_passage (em_embedder em) batch = Inr (map f batch)"
    and "\<And>t. length (f t) = eb_dimension (em_embedder em)"
  shows "\<exists>rep l'. embed_chunks b em (\<lambda>_ l. l) now pending l = (Inr rep, l') \<and> er_outcome rep = EMBEDDED \<and>
           er_chunks rep = length pending"
proof -
  let ?name = "eb_model_id (em_embedder em)"
  let ?key = "\<lambda>t. cache_key_for b ?name t PASSAGE"
  let ?keys = "map (\<lambda>(_, t). ?key t) pending"
  define cached where "cached = cache_get_many (keep_first ?keys) l"
  define missing where "missing = missing_texts (fst ` set cached) {} (zip ?keys (map snd pending))"
  obtain fresh where fresh: "embed_batches (em_embedder em) ?key [] (batched missing (batch_size em)) = Inr fresh"
    "fst ` set fresh = ?key ` set missing"
    using embed_batches_total [of "em_embedder em" f ?key "[]" "batched missing (batch_size em)", OF assms]
    by (auto simp: concat_batched)
  have pairs: "zip ?keys (map snd pending) = map (\<lambda>(_, t). (?key t, t)) pending"
    by (induction pending) auto
  have "k \<in> dom (map_of cached ++ map_of fresh)" if "(i, k) \<in> set (zip (map fst pending) ?keys)" for i k
  proof -
    from that have "k \<in> set ?keys" by (metis in_set_zipE)
    then obtain t where t: "(k, t) \<in> set (zip ?keys (map snd pending))" unfolding pairs by force
    have "k \<in> fst ` set cached \<union> ?key ` set missing"
    proof (cases "k \<in> fst ` set cached")
      case False
      have "k \<in> ?key ` set (missing_texts (fst ` set cached) {} (zip ?keys (map snd pending)))"
        by (rule missing_texts_cover [OF _ t False]) (auto simp: pairs)
      then show ?thesis by (simp add: missing_def)
    qed simp
    then show ?thesis by (auto simp: dom_map_of_conv_image_fst fresh(2))
  qed
  then obtain rows where rows: "write_rows ?name now (map_of cached ++ map_of fresh) (zip (map fst pending) ?keys)
      (lb_passages l) = Inr rows"
    using write_rows_total by blast
  define l2 where "l2 = (if fresh \<noteq> [] then cache_put_many fresh l else l)"
  have wrote: "atomically (write_vectors ?name now (map_of cached ++ map_of fresh)
      (zip (map fst pending) ?keys)) l2 = (Inr (), set_passages rows l2)"
  proof -
    have "lb_passages l2 = lb_passages l" by (simp add: l2_def cache_put_many_def)
    then show ?thesis by (simp add: atomically_def write_vectors_def rows)
  qed
  show ?thesis
    unfolding embed_chunks_def Let_def cached_def [symmetric] missing_def [symmetric] fresh(1)
    using wrote by (simp add: l2_def)
qed

lemma embed_total:
  assumes "memory_get i l = Some m" and "m_deleted_at m = None"
    and "\<And>batch. eb_embed_passage (em_embedder em) batch = Inr (map f batch)"
    and "\<And>t. length (f t) = eb_dimension (em_embedder em)"
  shows "\<exists>rep l'. embed b em (\<lambda>_ l. l) now i l = (Inr rep, l') \<and>
           er_chunks rep = length (pending_chunks (eb_model_id (em_embedder em)) i l) \<and>
           er_outcome rep \<noteq> EMBED_DELETED"
proof (cases "pending_chunks (eb_model_id (em_embedder em)) i l = []")
  case True
  then show ?thesis by (simp add: embed_def assms(1,2))
next
  case False
  obtain rep l' where run: "embed_chunks b em (\<lambda>_ l. l) now (pending_chunks (eb_model_id (em_embedder em)) i l) l =
      (Inr rep, l')" and "er_outcome rep = EMBEDDED"
    "er_chunks rep = length (pending_chunks (eb_model_id (em_embedder em)) i l)"
    using embed_chunks_total [OF assms(3,4), of b now "pending_chunks (eb_model_id (em_embedder em)) i l" l] by blast
  then show ?thesis using False by (simp add: embed_def assms(1,2))
qed

lemma write_rows_untouched:
  assumes "write_rows name now vectors targets rows = Inr rows'" and "p' \<in> set rows'"
    and "ps_id p' \<notin> fst ` set targets"
  shows "p' \<in> set rows"
  using assms
proof (induction name now vectors targets rows rule: write_rows.induct)
  case (2 name now vectors i key rest rows)
  from "2.prems"(1) obtain v where v: "vectors key = Some v"
    and run: "write_rows name now vectors rest
      (update_where (\<lambda>p. ps_id p = i) (set_embedding name now v) rows) = Inr rows'"
    by (auto split: option.splits)
  have "ps_id p' \<notin> fst ` set rest" "ps_id p' \<noteq> i" using "2.prems"(3) by auto
  with "2.IH" [OF v run "2.prems"(2)] show ?case
    by (auto elim!: in_update_whereE simp: set_embedding_def split: if_splits)
qed simp

lemma write_rows_fills:
  assumes "write_rows name now vectors targets rows = Inr rows'" and "p' \<in> set rows'"
    and "ps_id p' \<in> fst ` set targets \<or> (\<forall>p \<in> set rows. ps_id p = ps_id p' \<longrightarrow> \<not> is_pending name p)"
  shows "\<not> is_pending name p'"
  using assms
proof (induction name now vectors targets rows rule: write_rows.induct)
  case (2 name now vectors i key rest rows)
  from "2.prems"(1) obtain v where v: "vectors key = Some v"
    and run: "write_rows name now vectors rest
      (update_where (\<lambda>p. ps_id p = i) (set_embedding name now v) rows) = Inr rows'"
    by (auto split: option.splits)
  let ?rows = "update_where (\<lambda>p. ps_id p = i) (set_embedding name now v) rows"
  have "ps_id p' \<in> fst ` set rest \<or> (\<forall>p \<in> set ?rows. ps_id p = ps_id p' \<longrightarrow> \<not> is_pending name p)"
  proof (cases "ps_id p' = i")
    case True
    then show ?thesis
      by (auto elim!: in_update_whereE simp: set_embedding_def is_pending_def split: if_splits)
  next
    case False
    with "2.prems"(3) show ?thesis
      by (auto elim!: in_update_whereE simp: set_embedding_def split: if_splits)
  qed
  then show ?case by (rule "2.IH" [OF v run "2.prems"(2)])
qed simp

lemma embed_fills:
  assumes run: "embed b em (\<lambda>_ l. l) now i l = (Inr rep, l')" and "er_outcome rep \<noteq> EMBED_DELETED"
  shows "pending_chunks (eb_model_id (em_embedder em)) i l' = [] \<and>
         (\<exists>rep'. embed b em (\<lambda>_ l. l) now' i l' = (Inr rep', l') \<and> er_outcome rep' = EMBED_SKIPPED)"
proof -
  let ?name = "eb_model_id (em_embedder em)"
  obtain m where m: "memory_get i l = Some m" "m_deleted_at m = None"
    using assms by (auto simp: embed_def split: option.splits if_splits)
  have "pending_chunks ?name i l' = [] \<and> memory_rows l' = memory_rows l"
  proof (cases "pending_chunks ?name i l = []")
    case True
    then show ?thesis using run m by (simp add: embed_def Let_def)
  next
    case False
    let ?p = "pending_chunks ?name i l"
    obtain rep1 l2 where chunks: "embed_chunks b em (\<lambda>_ l. l) now ?p l = (Inr rep1, l2)"
      and l': "l' = enqueue_extraction em now i l2"
      using run m False by (auto simp: embed_def Let_def split: prod.splits sum.splits)
    from embed_chunks_Inr [OF chunks] obtain vectors l1 where
      wrote: "atomically (write_vectors ?name now vectors (zip (map fst ?p)
        (map (\<lambda>(_, t). cache_key_for b ?name t PASSAGE) ?p))) l1 = (Inr (), l2)"
      and l1: "l1 = l \<or> (\<exists>fresh. l1 = cache_put_many fresh l)" .
    from wrote obtain rows where
      w: "write_rows ?name now vectors (zip (map fst ?p)
        (map (\<lambda>(_, t). cache_key_for b ?name t PASSAGE) ?p)) (lb_passages l1) = Inr rows"
      and "l2 = set_passages rows l1"
      by (cases rule: write_vectors_cases [of ?name now vectors "zip (map fst ?p)
        (map (\<lambda>(_, t). cache_key_for b ?name t PASSAGE) ?p)" l1]) auto
    moreover from l1 have "lb_passages l1 = lb_passages l" "memory_rows l1 = memory_rows l"
      by (auto simp: cache_put_many_def memory_rows_def)
    moreover have "fst ` set (zip (map fst ?p) (map (\<lambda>(_, t). cache_key_for b ?name t PASSAGE) ?p)) = fst ` set ?p"
      by (metis length_map list.set_map map_fst_zip)
    moreover have "\<not> (ps_memory p = i \<and> is_pending ?name p)" if "p \<in> set rows" for p
    proof
      assume p: "ps_memory p = i \<and> is_pending ?name p"
      with write_rows_fills [OF w that] calculation(5) have out: "ps_id p \<notin> fst ` set ?p" by metis
      then have "p \<in> set (lb_passages l1)" using write_rows_untouched [OF w that] calculation(5) by metis
      with out p calculation(3) show False by (force simp: pending_chunks_def)
    qed
    ultimately show ?thesis
      by (auto simp: l' enqueue_extraction_def pending_chunks_def memory_rows_def filter_empty_conv)
  qed
  with m show ?thesis by (simp add: embed_def memory_get_def)
qed

lemma pending_empty_iff:
  "pending_chunks name i l = [] \<longleftrightarrow> (\<forall>p \<in> set (passages_of i l). \<not> is_pending name p)"
proof -
  have "sort_key k xs = [] \<longleftrightarrow> xs = []" for k :: "passage \<Rightarrow> nat" and xs
    by (metis length_0_conv length_sort)
  then show ?thesis by (auto simp: pending_chunks_def passages_of_def filter_empty_conv)
qed

lemma embed_keeps_passages:
  assumes "embed b em (\<lambda>_ l. l) now i l = (Inr rep, l')"
  shows "map bare (lb_passages l') = map bare (lb_passages l)"
proof -
  let ?p = "pending_chunks (eb_model_id (em_embedder em)) i l"
  consider "l' = l" | rep1 l2 where "embed_chunks b em (\<lambda>_ l. l) now ?p l = (Inr rep1, l2)"
      "l' = enqueue_extraction em now i l2"
    using assms by (auto simp: embed_def Let_def split: option.splits if_splits prod.splits sum.splits)
  then show ?thesis
  proof cases
    case (2 rep1 l2)
    from embed_chunks_Inr [OF 2(1)] obtain vectors l1 targets where
      wrote: "atomically (write_vectors (eb_model_id (em_embedder em)) now vectors targets) l1 = (Inr (), l2)"
      and "l1 = l \<or> (\<exists>fresh. l1 = cache_put_many fresh l)" by metis
    moreover from this(2) have "lb_passages l1 = lb_passages l" by (auto simp: cache_put_many_def)
    ultimately show ?thesis
      by (cases rule: write_vectors_cases [of "eb_model_id (em_embedder em)" now vectors targets l1])
        (auto simp: 2(2) enqueue_extraction_def dest: write_rows_bare)
  qed simp
qed

lemma normalize_reuses:
  assumes inv: "library_inv b l" and get: "memory_get i l = Some m" and live: "m_deleted_at m = None"
    and pd: "parse_memory nz m l = Inr pd"
    and stale: "tx_normalized_hash (text_of m l) \<noteq> Some (normalized_hash b (pd_text pd))"
    and prev: "previous_version m (normalized_hash b (pd_text pd)) l = Some r"
    and versions: "chunker_versions (m_id r) l = {nz_version nz}"
  obtains rep l' n where "normalize b nz (\<lambda>_ l. l) now i l = (Inr rep, l')" and "nr_outcome rep = REUSED"
    and "atomically (adopt_from_previous_version nz m pd (normalized_hash b (pd_text pd))) l = (Inr (Some n), l')"
proof -
  let ?rows = "moved_rows (m_id r) (m_id m) (lb_passages l)"
  have m: "loaded m l" by (rule memory_get_loaded [OF get library_invD(1) [OF inv]])
  have "distinct (map (\<lambda>p. (ps_memory p, ps_ordinal p)) ?rows)"
    by (rule moved_rows_distinct [OF library_invD(6) [OF inv] adopt_target_free [OF inv m prev versions]])
  then obtain n l' where adopt:
    "atomically (adopt_from_previous_version nz m pd (normalized_hash b (pd_text pd))) l = (Inr (Some n), l')"
    using get memory_getD(2) [OF get] versions
    by (simp add: atomically_def adopt_from_previous_version_def prev Let_def moved_rows_def [symmetric])
  then have "normalize b nz (\<lambda>_ l. l) now i l =
      (Inr \<lparr> nr_outcome = REUSED, nr_chunks = n, nr_tokens = 0 \<rparr>, l')"
    using stale by (simp add: normalize_def get live pd up_to_date_def Let_def)
  with adopt show thesis by (intro that) auto
qed

end
