(* ===== verification/Stores.thy ===== *)
theory Stores
  imports Normalize "HOL-Library.Product_Lexorder"
begin

text \<open>
  The two retrievers over the table of chunks: \<^verbatim>\<open>adapters/db/filters.py\<close>, \<^verbatim>\<open>adapters/db/keyword_store.py\<close> and
  \<^verbatim>\<open>adapters/db/vector_store.py\<close>, with the value types of \<^verbatim>\<open>application/ports.py\<close> they exchange. What Postgres
  computes is a parameter: \<open>matches\<close> and \<open>cover_rank\<close> are \<^verbatim>\<open>@@\<close> and \<^verbatim>\<open>ts_rank_cd\<close> of a query and a chunk, and
  \<open>index_scan vector ef rows\<close> is the set of rows the approximate index hands to the filter. Rows a query
  leaves unordered come in the order of the table.
\<close>

section \<open>What the retrievers exchange\<close>

record score_breakdown =
  sb_fused :: pyfloat
  sb_vector_rank :: "int option"
  sb_keyword_rank :: "int option"
  sb_vector_score :: "pyfloat option"
  sb_keyword_score :: "pyfloat option"
  sb_recency_rank :: "int option"
  sb_importance_rank :: "int option"
  sb_recency_score :: "pyfloat option"
  sb_importance_score :: "pyfloat option"
  sb_rerank_score :: "pyfloat option"
  sb_rerank_rank :: "int option"
  sb_graph_rank :: "int option"
  sb_graph_score :: "pyfloat option"
  sb_graph_path :: "string list option"
  sb_temporal_intent :: "string option"
  sb_temporal_filter_applied :: bool

definition new_breakdown :: "pyfloat \<Rightarrow> score_breakdown" where
  "new_breakdown fused =
     \<lparr> sb_fused = fused, sb_vector_rank = None, sb_keyword_rank = None, sb_vector_score = None,
       sb_keyword_score = None, sb_recency_rank = None, sb_importance_rank = None,
       sb_recency_score = None, sb_importance_score = None, sb_rerank_score = None,
       sb_rerank_rank = None, sb_graph_rank = None, sb_graph_score = None, sb_graph_path = None,
       sb_temporal_intent = None, sb_temporal_filter_applied = False \<rparr>"

record scored_chunk =
  sk_chunk_id :: nat
  sk_memory_id :: nat
  sk_ordinal :: nat
  sk_text :: string
  sk_score :: pyfloat
  sk_char_start :: nat
  sk_char_end :: nat
  sk_prefix_chars :: nat
  sk_definition :: "string option"
  sk_breakdown :: "score_breakdown option"

definition chunk_with_score :: "pyfloat \<Rightarrow> passage \<Rightarrow> scored_chunk" where
  "chunk_with_score score p =
     \<lparr> sk_chunk_id = ps_id p, sk_memory_id = ps_memory p, sk_ordinal = ps_ordinal p, sk_text = ps_content p,
       sk_score = score, sk_char_start = ps_char_start p, sk_char_end = ps_char_end p,
       sk_prefix_chars = ps_prefix_chars p, sk_definition = ps_definition p, sk_breakdown = None \<rparr>"

record search_filters =
  sf_source_ids :: "nat list option"
  sf_kinds :: "memory_kind list option"
  sf_occurred_after :: "time option"
  sf_occurred_before :: "time option"
  sf_include_deleted :: bool
  sf_tags :: "string list option"

definition no_filters :: search_filters where
  "no_filters = \<lparr> sf_source_ids = None, sf_kinds = None, sf_occurred_after = None,
                  sf_occurred_before = None, sf_include_deleted = False, sf_tags = None \<rparr>"

section \<open>Eligibility\<close>

record tag_row =
  tg_source :: nat
  tg_key :: string
  tg_tag :: string

text \<open>An empty list filters nothing, as \<^verbatim>\<open>None\<close> does: both are false in Python.\<close>

fun given :: "'a list option \<Rightarrow> ('a list \<Rightarrow> bool) \<Rightarrow> bool" where
  "given None p = True"
| "given (Some []) p = True"
| "given (Some (x # xs)) p = p (x # xs)"

definition carries_every_tag :: "tag_row list \<Rightarrow> memory \<Rightarrow> string list \<Rightarrow> bool" where
  "carries_every_tag tags m wanted \<longleftrightarrow>
     card (tg_tag ` set (filter (\<lambda>r. tg_source r = m_source m \<and> tg_key r = m_key m \<and> tg_tag r \<in> set wanted) tags))
     = card (set wanted)"

text \<open>A comparison with a missing \<^verbatim>\<open>occurred_at\<close> is \<^verbatim>\<open>NULL\<close>, which is not true.\<close>

definition memory_predicates :: "library \<Rightarrow> tag_row list \<Rightarrow> search_filters \<Rightarrow> memory \<Rightarrow> bool" where
  "memory_predicates l tags f m \<longleftrightarrow>
     m_is_current m \<and>
     (sf_include_deleted f \<or> m_deleted_at m = None) \<and>
     given (sf_source_ids f) (\<lambda>ids. m_source m \<in> set ids) \<and>
     given (sf_kinds f) (\<lambda>kinds. tx_kind (text_of m l) \<in> set kinds) \<and>
     (case sf_occurred_after f of None \<Rightarrow> True
      | Some a \<Rightarrow> (case m_occurred_at m of None \<Rightarrow> False | Some t \<Rightarrow> a \<le> t)) \<and>
     (case sf_occurred_before f of None \<Rightarrow> True
      | Some b \<Rightarrow> (case m_occurred_at m of None \<Rightarrow> False | Some t \<Rightarrow> t \<le> b)) \<and>
     given (sf_tags f) (carries_every_tag tags m)"

text \<open>The join of \<^verbatim>\<open>memory_chunks\<close> with \<^verbatim>\<open>memories\<close> under those clauses.\<close>

definition eligible :: "library \<Rightarrow> tag_row list \<Rightarrow> search_filters \<Rightarrow> passage \<Rightarrow> bool" where
  "eligible l tags f p =
     (case memory_get (ps_memory p) l of None \<Rightarrow> False | Some m \<Rightarrow> memory_predicates l tags f m)"

section \<open>Keywords\<close>

definition keyword_search ::
  "(string \<Rightarrow> string \<Rightarrow> bool) \<Rightarrow> (string \<Rightarrow> string \<Rightarrow> pyfloat) \<Rightarrow> tag_row list \<Rightarrow> library
   \<Rightarrow> string \<Rightarrow> nat \<Rightarrow> search_filters \<Rightarrow> scored_chunk list" where
  "keyword_search matches cover_rank tags l query k f =
     (if blank query \<or> k = 0 then []
      else map (\<lambda>p. chunk_with_score (cover_rank (ps_content p) query) p)
             (take k (sort_key (\<lambda>p. (- cover_rank (ps_content p) query, ps_id p))
               (filter (\<lambda>p. matches (ps_content p) query \<and> eligible l tags f p) (lb_passages l)))))"

section \<open>Vectors\<close>

definition OVER_FETCH :: nat where
  "OVER_FETCH = 2"

definition inner_product :: "vector \<Rightarrow> vector \<Rightarrow> pyfloat" where
  "inner_product u v = sum_list (map2 (*) u v)"

definition similarity :: "vector \<Rightarrow> passage \<Rightarrow> pyfloat" where
  "similarity v p = (case ps_embedding p of None \<Rightarrow> 0 | Some e \<Rightarrow> inner_product e v)"

text \<open>\<^verbatim>\<open><#>\<close> is the negative inner product; the statement orders by it and reports its opposite.\<close>

definition vector_query ::
  "tag_row list \<Rightarrow> library \<Rightarrow> passage list \<Rightarrow> vector \<Rightarrow> nat \<Rightarrow> search_filters \<Rightarrow> scored_chunk list" where
  "vector_query tags l rows v limit f =
     map (\<lambda>p. chunk_with_score (similarity v p) p)
       (take limit (sort_key (\<lambda>p. - similarity v p)
         (filter (\<lambda>p. ps_embedding p \<noteq> None \<and> eligible l tags f p) rows)))"

record vector_store =
  vs_index_scan :: "vector \<Rightarrow> int \<Rightarrow> passage list \<Rightarrow> passage list"
  vs_default_ef_search :: int

definition pg_vector_store ::
  "bool \<Rightarrow> (vector \<Rightarrow> int \<Rightarrow> passage list \<Rightarrow> passage list) \<Rightarrow> int \<Rightarrow> vector_store result" where
  "pg_vector_store normalizes index_scan default_ef_search =
     (if \<not> normalizes then Inl RuntimeError
      else Inr \<lparr> vs_index_scan = index_scan, vs_default_ef_search = default_ef_search \<rparr>)"

definition vector_search ::
  "vector_store \<Rightarrow> tag_row list \<Rightarrow> library \<Rightarrow> vector \<Rightarrow> nat \<Rightarrow> search_filters \<Rightarrow> int option
   \<Rightarrow> scored_chunk list" where
  "vector_search vs tags l v k f ef_search =
     (let effective = (case ef_search of
                         None \<Rightarrow> vs_default_ef_search vs
                       | Some ef \<Rightarrow> if ef = 0 then vs_default_ef_search vs else ef)
      in take k (vector_query tags l (vs_index_scan vs v effective (lb_passages l)) v (k * OVER_FETCH) f))"

definition search_exact ::
  "tag_row list \<Rightarrow> library \<Rightarrow> vector \<Rightarrow> nat \<Rightarrow> search_filters \<Rightarrow> scored_chunk list" where
  "search_exact tags l v k f = vector_query tags l (lb_passages l) v k f"

section \<open>Both retrievers return eligible chunks only\<close>

definition from_store :: "library \<Rightarrow> tag_row list \<Rightarrow> search_filters \<Rightarrow> scored_chunk \<Rightarrow> bool" where
  "from_store l tags f c \<longleftrightarrow>
     (\<exists>p \<in> set (lb_passages l). eligible l tags f p \<and> c = chunk_with_score (sk_score c) p)"

lemma from_storeI:
  "p \<in> set (lb_passages l) \<Longrightarrow> eligible l tags f p \<Longrightarrow> from_store l tags f (chunk_with_score s p)"
  unfolding from_store_def by (rule bexI [where x = p]) (simp_all add: chunk_with_score_def)

lemma keyword_search_eligible:
  assumes "c \<in> set (keyword_search matches rank tags l query k f)"
  shows "from_store l tags f c"
proof -
  from assms obtain p where "c = chunk_with_score (rank (ps_content p) query) p"
    and "p \<in> set (take k (sort_key (\<lambda>p. (- rank (ps_content p) query, ps_id p))
          (filter (\<lambda>p. matches (ps_content p) query \<and> eligible l tags f p) (lb_passages l))))"
    by (auto simp: keyword_search_def split: if_splits)
  then show ?thesis by (auto dest!: in_set_takeD intro: from_storeI)
qed

lemma vector_query_eligible:
  assumes "c \<in> set (vector_query tags l rows v n f)" and "set rows \<subseteq> set (lb_passages l)"
  shows "from_store l tags f c"
proof -
  from assms(1) obtain p where "c = chunk_with_score (similarity v p) p"
    and "p \<in> set (take n (sort_key (\<lambda>p. - similarity v p)
          (filter (\<lambda>p. ps_embedding p \<noteq> None \<and> eligible l tags f p) rows)))"
    by (auto simp: vector_query_def)
  then show ?thesis using assms(2) by (auto dest!: in_set_takeD intro!: from_storeI)
qed

lemma vector_search_eligible:
  assumes "c \<in> set (vector_search vs tags l v k f ef)"
    and "\<And>v ef rows. set (vs_index_scan vs v ef rows) \<subseteq> set rows"
  shows "from_store l tags f c"
  using assms(1) unfolding vector_search_def Let_def
  by (rule vector_query_eligible [OF in_set_takeD assms(2)])

text \<open>An index that misses nothing makes the approximate search exact.\<close>

lemma vector_search_exact:
  assumes "\<And>v ef rows. vs_index_scan vs v ef rows = rows"
  shows "vector_search vs tags l v k f ef = search_exact tags l v k f"
  by (simp add: vector_search_def search_exact_def vector_query_def assms take_map OVER_FETCH_def
      min_def)

end
