(* ===== verification/Citing.thy ===== *)
theory Citing
  imports Citation Pipeline_Effects Stores
begin

text \<open>
  Citations of stored chunks and the two checks on them: \<^verbatim>\<open>application/citations.py\<close> (the part that is
  not about search hits) and \<^verbatim>\<open>application/verify_citations.py\<close>, on the library of the pipeline. Log lines
  and rendering are left out; text is ordered by code points.
\<close>

section \<open>Citing chunks\<close>

record cited_parent =
  cp_source_name :: string
  cp_external_key :: string
  cp_version :: int
  cp_occurred_at :: "time option"
  cp_content :: "string option"

definition DEFAULT_CONTEXT_CHARS :: nat where
  "DEFAULT_CONTEXT_CHARS = 200"

definition parent_of :: "library \<Rightarrow> nat list \<Rightarrow> nat \<Rightarrow> cited_parent option" where
  "parent_of l memory_ids i =
     (if i \<notin> set memory_ids then None
      else case memory_get i l of
             None \<Rightarrow> None
           | Some m \<Rightarrow>
               (case find (\<lambda>s. src_id s = m_source m) (c_sources (lb_corpus l)) of
                  None \<Rightarrow> None
                | Some s \<Rightarrow> Some \<lparr> cp_source_name = src_name s, cp_external_key = m_key m,
                                   cp_version = m_version m, cp_occurred_at = m_occurred_at m,
                                   cp_content = tx_content (text_of m l) \<rparr>))"

definition cite :: "nat \<Rightarrow> cited_parent \<Rightarrow> scored_chunk \<Rightarrow> citation result" where
  "cite context_chars parent ch =
     bind_result
       (case cp_content parent of
          None \<Rightarrow> Inr None
        | Some content \<Rightarrow>
            bind_result (build_excerpt content (int (sk_char_start ch)) (int (sk_char_end ch)) context_chars)
              (\<lambda>e. Inr (Some e)))
       (\<lambda>context_excerpt. Inr
          \<lparr> ci_memory_id = sk_memory_id ch, ci_source_name = cp_source_name parent,
            ci_external_key = cp_external_key parent, ci_chunk_ordinal = sk_ordinal ch,
            ci_char_start = sk_char_start ch, ci_char_end = sk_char_end ch,
            ci_prefix_chars = sk_prefix_chars ch, ci_excerpt = drop (sk_prefix_chars ch) (sk_text ch),
            ci_definition = sk_definition ch, ci_occurred_at = cp_occurred_at parent,
            ci_version = cp_version parent, ci_context = context_excerpt \<rparr>)"

fun cite_all :: "nat \<Rightarrow> (nat \<Rightarrow> cited_parent option) \<Rightarrow> scored_chunk list \<Rightarrow> citation list result" where
  "cite_all context_chars parents [] = Inr []"
| "cite_all context_chars parents (ch # rest) =
     (case parents (sk_memory_id ch) of
        None \<Rightarrow> cite_all context_chars parents rest
      | Some parent \<Rightarrow>
          bind_result (cite context_chars parent ch) (\<lambda>c.
          bind_result (cite_all context_chars parents rest) (\<lambda>cs. Inr (c # cs))))"

definition citations_for_chunks :: "nat \<Rightarrow> scored_chunk list \<Rightarrow> library \<Rightarrow> citation list result" where
  "citations_for_chunks context_chars chunks l =
     cite_all context_chars (parent_of l (map sk_memory_id chunks)) chunks"

definition scored_row :: "passage \<Rightarrow> scored_chunk" where
  "scored_row p = chunk_with_score 0 p"

definition opening_chunks :: "nat list \<Rightarrow> library \<Rightarrow> scored_chunk list" where
  "opening_chunks ordered l =
     (let rows = filter (\<lambda>p. ps_memory p \<in> set ordered \<and> ps_ordinal p = 0) (lb_passages l);
          by_memory = map_of (rev (map (\<lambda>p. (ps_memory p, p)) rows))
      in concat (map (\<lambda>i. case by_memory i of None \<Rightarrow> [] | Some p \<Rightarrow> [scored_row p]) ordered))"

definition citations_for_memories :: "nat \<Rightarrow> nat list \<Rightarrow> library \<Rightarrow> citation list result" where
  "citations_for_memories context_chars memory_ids l =
     (let ordered = keep_first memory_ids
      in if ordered = [] then Inr [] else citations_for_chunks context_chars (opening_chunks ordered l) l)"

section \<open>Checking citations\<close>

definition chunk_body :: "passage \<Rightarrow> string" where
  "chunk_body p = drop (ps_prefix_chars p) (ps_content p)"

definition quoted_span :: "string \<Rightarrow> passage \<Rightarrow> string" where
  "quoted_span memory_text p = slice memory_text (ps_char_start p) (ps_char_end p)"

definition holding :: "nat list \<Rightarrow> library \<Rightarrow> (nat \<times> nat) set" where
  "holding memory_ids l =
     set (map (\<lambda>(_, p). (ps_memory p, ps_ordinal p))
       (filter (\<lambda>(m, p). case tx_content (text_of m l) of
                            None \<Rightarrow> False
                          | Some memory_text \<Rightarrow> quoted_span memory_text p = chunk_body p)
         (concat (map (\<lambda>m. map (Pair m) (passages_of (m_id m) l))
           (filter (\<lambda>m. m_id m \<in> set memory_ids \<and> m_deleted_at m = None) (memory_rows l))))))"

definition unresolved_locators :: "citation list \<Rightarrow> library \<Rightarrow> string list" where
  "unresolved_locators citations l =
     sort (remdups (map locator
       (filter (\<lambda>c. (ci_memory_id c, ci_chunk_ordinal c) \<notin> holding (map ci_memory_id citations) l) citations)))"

datatype mismatch_reason = PAST_THE_END | OTHER_LENGTH | SAME_LENGTH

record mismatch =
  mi_memory_id :: nat
  mi_external_key :: string
  mi_ordinal :: nat
  mi_reason :: mismatch_reason
  mi_expected :: string
  mi_actual :: string

record citation_report =
  cr_checked :: nat
  cr_memories :: nat
  cr_mismatches :: "mismatch list"
  cr_unverifiable :: nat

definition report_ok :: "citation_report \<Rightarrow> bool" where
  "report_ok r \<longleftrightarrow> cr_mismatches r = []"

definition check_row :: "string \<Rightarrow> memory \<Rightarrow> passage \<Rightarrow> mismatch option" where
  "check_row memory_text m p =
     (let expected = chunk_body p; actual = quoted_span memory_text p
      in if expected = actual then None
         else Some \<lparr> mi_memory_id = m_id m, mi_external_key = m_key m, mi_ordinal = ps_ordinal p,
                     mi_reason = (if length memory_text < ps_char_end p then PAST_THE_END
                                  else if length expected \<noteq> length actual then OTHER_LENGTH
                                  else SAME_LENGTH),
                     mi_expected = expected, mi_actual = actual \<rparr>)"

definition citable_rows :: "nat list option \<Rightarrow> library \<Rightarrow> (memory \<times> passage) list" where
  "citable_rows memory_ids l =
     sort_key (\<lambda>(m, p). (m_key m, ps_ordinal p))
       (concat (map (\<lambda>m. map (Pair m) (passages_of (m_id m) l))
         (filter (\<lambda>m. m_is_current m \<and> m_deleted_at m = None \<and>
                      (case memory_ids of None \<Rightarrow> True | Some ids \<Rightarrow> m_id m \<in> set ids)) (memory_rows l))))"

fun check_rows ::
  "library \<Rightarrow> (memory \<times> passage) list \<Rightarrow> mismatch list \<Rightarrow> nat \<Rightarrow> mismatch list \<times> nat" where
  "check_rows l [] mismatches unverifiable = (mismatches, unverifiable)"
| "check_rows l ((m, p) # rows) mismatches unverifiable =
     (case tx_content (text_of m l) of
        None \<Rightarrow> check_rows l rows mismatches (unverifiable + 1)
      | Some memory_text \<Rightarrow>
          (case check_row memory_text m p of
             None \<Rightarrow> check_rows l rows mismatches unverifiable
           | Some bad \<Rightarrow> check_rows l rows (mismatches @ [bad]) unverifiable))"

definition verify_citations :: "nat list option \<Rightarrow> library \<Rightarrow> citation_report" where
  "verify_citations memory_ids l =
     (let rows = citable_rows memory_ids l; (mismatches, unverifiable) = check_rows l rows [] 0
      in \<lparr> cr_checked = length rows, cr_memories = card (m_id ` fst ` set rows),
           cr_mismatches = mismatches, cr_unverifiable = unverifiable \<rparr>)"

end
