(* ===== verification/Pipeline_Guarantees.thy ===== *)
theory Pipeline_Guarantees
  imports Pipeline_Effects
begin

text \<open>
  What the pipeline promises: chunks cite the text that is stored, one version of an item owns its
  chunks, a normalization leaves exactly the chunker's chunks and a second one does nothing, and every
  vector belongs to its text. Two theorems say where it falls short of its comments.
\<close>

section \<open>The library of the examples\<close>

interpretation structural: chunker_port "chunk count_tokens (config_for_window w)"
  by (rule heuristic.chunker_port_axioms)

definition plain :: "corpus \<Rightarrow> library" where
  "plain c = \<lparr> lb_corpus = c, lb_texts = [], lb_passages = [], lb_cache = [] \<rparr>"

definition sample_normalizer :: normalizer where
  "sample_normalizer =
     \<lparr> nz_parsers = [(\<lambda>_ _. True, \<lambda>_ _ _. Inr sample_document)],
       nz_chunk = chunk count_tokens (config_for_window 17), nz_version = ''structural-1'',
       nz_enqueue_followup = True \<rparr>"

definition sample_model :: "string \<Rightarrow> string \<Rightarrow> vector" where
  "sample_model name t = [of_nat (length t)]"

abbreviation sample_step :: "library \<Rightarrow> library \<Rightarrow> bool" where
  "sample_step \<equiv> library_step (\<lambda>s. s) (\<lambda>s. s) sample_normalizer sample_model"

abbreviation undisturbed :: "nat \<Rightarrow> library \<Rightarrow> library" where
  "undisturbed \<equiv> (\<lambda>_ l. l)"

lemma plain_step: "lifecycle b8 c c' \<Longrightarrow> library_step b b8 nz model (plain c) (plain (c'\<lparr> c_chunks := [] \<rparr>))"
  using library_step.corpus [of b8 "plain c" c' b nz model]
  by (simp add: plain_def cascade_def Let_def set_passages_def)

lemma plain_synced_reachable: "reachable_library b (\<lambda>s. s) nz model 1 (plain sample_synced)"
proof -
  have "lifecycle (\<lambda>s. s) (empty_corpus 1) ((empty_corpus 1)\<lparr> c_sources := [sample_source], c_chunks := [],
      c_mentions := [], c_evidence := [], c_tags := [], c_turns := [], c_attachments := [] \<rparr>)"
    by (rule lifecycle.other_tables)
  from plain_step [OF this, of b nz model]
  have 1: "library_step b (\<lambda>s. s) nz model (plain (empty_corpus 1)) (plain sample_corpus)"
    by (simp add: sample_corpus_def empty_corpus_def)
  have "c_chunks (snd sample_sync) = []" by code_simp
  then have none: "(snd sample_sync)\<lparr> c_chunks := [] \<rparr> = snd sample_sync" by (cases "snd sample_sync") simp
  have "lifecycle (\<lambda>s. s) sample_corpus (snd sample_sync)"
    unfolding sample_sync_def by (rule lifecycle.sync)
  from plain_step [OF this, of b nz model]
  have 2: "library_step b (\<lambda>s. s) nz model (plain sample_corpus) (plain (snd sample_sync))"
    using none by simp
  have "lifecycle (\<lambda>s. s) (snd sample_sync) sample_synced"
    unfolding sample_synced_eq by (rule lifecycle.work) (simp_all add: queue_inv_empty)
  from plain_step [OF this, of b nz model]
  have 3: "library_step b (\<lambda>s. s) nz model (plain (snd sample_sync)) (plain sample_synced)"
    by (simp add: sample_synced_def)
  have "plain (empty_corpus 1) = empty_library 1" by (simp add: plain_def empty_library_def)
  with 1 2 3 show ?thesis
    unfolding reachable_library_def by (metis rtranclp.rtrancl_into_rtrancl rtranclp.rtrancl_refl)
qed

lemma sample_port: "chunker_port (nz_chunk sample_normalizer)"
  unfolding sample_normalizer_def by (simp add: heuristic.chunker_port_axioms)

definition sample_normalization where
  "sample_normalization = normalize (\<lambda>s. s) sample_normalizer undisturbed 0 1 (plain sample_synced)"

definition sample_library :: library where
  "sample_library = snd sample_normalization"

lemma sample_normalization_runs:
  "\<exists>rep. sample_normalization = (Inr rep, sample_library) \<and> nr_outcome rep = CHUNKED"
proof -
  let ?l = "plain sample_synced"
  have get: "memory_get 1 ?l = Some (hd (c_memories sample_synced))"
    by (simp add: memory_get_def memory_rows_def plain_def sample_synced_def)
  have pd: "parse_memory sample_normalizer (hd (c_memories sample_synced)) ?l = Inr sample_document"
    by (simp add: parse_memory_def plain_def sample_synced_def sample_normalizer_def parse_with_def for_item_def)
  obtain rep l' where run: "sample_normalization = (Inr rep, l')" and "nr_outcome rep = CHUNKED"
    unfolding sample_normalization_def
    by (rule normalize_chunks [OF get _ pd _ _ sample_port])
      (simp_all add: text_of_def previous_version_def plain_def sample_synced_def)
  moreover from run have "sample_library = l'" by (metis sample_library_def snd_conv)
  ultimately show ?thesis using run by blast
qed

lemma sample_library_reachable:
  "reachable_library (\<lambda>s. s) (\<lambda>s. s) sample_normalizer sample_model 1 sample_library"
proof -
  have "sample_step\<^sup>*\<^sup>* (plain sample_synced) sample_library"
    unfolding sample_library_def sample_normalization_def
    by (rule normalize_steps) (simp_all add: plain_def sample_synced_inv)
  with plain_synced_reachable [of "\<lambda>s. s" sample_normalizer sample_model] show ?thesis
    unfolding reachable_library_def by (rule rtranclp_trans)
qed

section \<open>Chunks\<close>

text \<open>C7 Every stored chunk cites the stored text: whatever syncs, deletions, normalizations and embeddings
  have committed and in whatever order, a chunk's memory exists, and the chunk without its borrowed head
  is that memory's text between the chunk's offsets. The digest is assumed to have no collisions and the
  chunker to keep its contract.\<close>

theorem stored_chunks_cite_stored_text:
  assumes "reachable_library b b8 nz model me l" and "inj b" and "chunker_port (nz_chunk nz)"
    and "p \<in> set (lb_passages l)"
  shows "\<exists>m \<in> set (memory_rows l). \<exists>s. m_id m = ps_memory p \<and> stored_text (m_id m) l = Some s \<and>
           drop (ps_prefix_chars p) (ps_content p) = slice s (ps_char_start p) (ps_char_end p) \<and>
           ps_char_start p < ps_char_end p \<and> ps_char_end p \<le> length s"
proof -
  obtain s where "ps_memory p \<in> m_id ` set (memory_rows l)" "stored_text (ps_memory p) l = Some s" "cites s p"
    using library_invD(2) [OF reachable_library_inv [OF assms(1-3)]] assms(4)
    unfolding passages_valid_def by blast
  then obtain m where "m \<in> set (memory_rows l)" "m_id m = ps_memory p" by auto
  with \<open>stored_text (ps_memory p) l = Some s\<close> \<open>cites s p\<close> show ?thesis
    by (intro bexI [of _ m] exI [of _ s]) (simp_all add: cites_def)
qed

text \<open>C8 One version of an item owns all its chunks: two chunks whose memories are versions of one item belong
  to the same memory, and no memory has two chunks of one ordinal. So moving chunks from one version to
  another never violates the table's unique constraint.\<close>

theorem one_version_owns_the_chunks:
  assumes "reachable_library b b8 nz model me l" and "inj b" and "chunker_port (nz_chunk nz)"
  shows "(\<forall>m \<in> set (memory_rows l). \<exists>i. ps_memory ` set (item_passages m l) \<subseteq> {i}) \<and>
         distinct (map (\<lambda>p. (ps_memory p, ps_ordinal p)) (lb_passages l)) \<and>
         (memory_get i l = Some m \<longrightarrow>
          atomically (adopt_from_previous_version nz m pd h) l \<noteq> (Inl IntegrityViolation, l))"
proof (intro conjI ballI impI)
  have inv: "library_inv b l" by (rule reachable_library_inv [OF assms])
  show "distinct (map (\<lambda>p. (ps_memory p, ps_ordinal p)) (lb_passages l))" by (rule library_invD(6) [OF inv])
  show "atomically (adopt_from_previous_version nz m pd h) l \<noteq> (Inl IntegrityViolation, l)"
    if "memory_get i l = Some m"
    by (rule adopt_never_collides [OF inv memory_get_loaded [OF that library_invD(1) [OF inv]]])
  fix m assume "m \<in> set (memory_rows l)"
  have same: "ps_memory p = ps_memory q" if "p \<in> set (item_passages m l)" "q \<in> set (item_passages m l)" for p q
  proof -
    from that obtain x y where "x \<in> set (memory_rows l)" "same_item (m_source m) (m_key m) x" "m_id x = ps_memory p"
      "y \<in> set (memory_rows l)" "same_item (m_source m) (m_key m) y" "m_id y = ps_memory q"
      "p \<in> set (lb_passages l)" "q \<in> set (lb_passages l)"
      by (auto simp: item_passages_def item_ids_def)
    with library_invD(3) [OF inv] show ?thesis unfolding one_owner_def by (metis imageI same_item_def)
  qed
  show "\<exists>i. ps_memory ` set (item_passages m l) \<subseteq> {i}"
  proof (cases "item_passages m l")
    case (Cons p ps)
    have "ps_memory q = ps_memory p" if "q \<in> set (item_passages m l)" for q
      by (rule same [OF that]) (simp add: Cons)
    then show ?thesis by blast
  qed simp
qed

text \<open>C9 A normalization that reports that it chunked leaves exactly the chunker's chunks of the parsed bytes:
  they are all the chunks any version of the item has, in order, under fresh ids and without a vector; the
  parsed text is stored; and no chunk of another item changed while it was stored. Other sessions may have
  committed anything in between, as long as the row still belongs to the item.\<close>

theorem normalize_leaves_exactly_the_chunks:
  assumes run: "normalize b nz others now i l = (Inr rep, l')" and "nr_outcome rep = CHUNKED"
    and get: "memory_get i l = Some m" and parse: "parse_memory nz m (others 1 l) = Inr pd"
    and m: "loaded m (others 4 (others 3 (others 2 (others 1 l))))"
  shows "item_passages m l' = new_passages b (nz_version nz) i
           (c_next_id (lb_corpus (others 4 (others 3 (others 2 (others 1 l)))))) (nz_chunk nz pd) \<and>
         stored_text i l' = Some (pd_text pd) \<and> nr_chunks rep = length (nz_chunk nz pd) \<and>
         (ps_memory p \<notin> item_ids m l' \<longrightarrow>
          (p \<in> set (lb_passages l') \<longleftrightarrow> p \<in> set (lb_passages (others 4 (others 3 (others 2 (others 1 l)))))))"
  using run
proof (cases rule: normalize_Inr)
  case (chunked m' pd' l3)
  have eq: "m' = m" "pd' = pd" using chunked(1,3) get parse by simp_all
  have i: "m_id m = i" by (rule memory_getD(2) [OF get])
  note st = store_effect [OF chunked(6) [unfolded eq], folded chunked(8), OF m [folded chunked(8)]]
  show ?thesis
    using st(1,2,7) item_ids_frame [OF st(3)] chunked(5) i unfolding eq chunked(8) [symmetric] by auto
qed (use assms(2) in simp_all)

text \<open>Normalizing again does nothing: after any normalization that reports success, a second one of the same
  memory reports that there was nothing to do and leaves the library as it is.\<close>

theorem normalize_is_idempotent:
  assumes "reachable_library b b8 nz model me l" and "inj b" and port: "chunker_port (nz_chunk nz)"
    and run: "normalize b nz undisturbed now i l = (Inr rep, l')"
  shows "\<exists>rep'. normalize b nz undisturbed now' i l' = (Inr rep', l') \<and>
           nr_outcome rep' \<in> {NORMALIZE_SKIPPED, NORMALIZE_DELETED}"
proof -
  have inv: "library_inv b l" by (rule reachable_library_inv [OF assms(1-3)])
  have again: ?thesis
    if get: "memory_get i l' = Some m" and live: "m_deleted_at m = None" and pd: "parse_memory nz m l' = Inr pd"
      and h: "tx_normalized_hash (text_of m l') = Some (normalized_hash b (pd_text pd))"
      and versions: "chunker_versions (m_id m) l' = {nz_version nz} \<or>
        chunker_versions (m_id m) l' = {} \<and> blank (pd_text pd)" for m pd
    using that by (auto simp: normalize_def up_to_date_def Let_def)
  have frame: "memory_get i l' = memory_get i l" "parse_memory nz m l' = parse_memory nz m l"
    if "memory_rows l' = memory_rows l" "c_blobs (lb_corpus l') = c_blobs (lb_corpus l)" for m
    using that by (simp_all add: memory_get_def parse_memory_def)
  show ?thesis
    using run
  proof (cases rule: normalize_Inr)
    case (deleted m)
    then show ?thesis by (simp add: normalize_def)
  next
    case (skipped m pd)
    then have "up_to_date nz m (text_of m l) pd (normalized_hash b (pd_text pd)) l"
      using run by (auto simp: normalize_def Let_def split: if_splits prod.splits sum.splits option.splits)
    with skipped show ?thesis by (simp add: normalize_def)
  next
    case (reused m pd n)
    have m: "loaded m l" by (rule memory_get_loaded [OF reused(1) library_invD(1) [OF inv]])
    show ?thesis
      by (rule adopt_effect [OF reused(5) inv m]) (rule again, use reused(1-3) frame in auto)
  next
    case (chunked m pd l3)
    have m: "loaded m l" by (rule memory_get_loaded [OF chunked(1) library_invD(1) [OF inv]])
    note st = store_effect [OF chunked(6) [unfolded chunked(8)] m]
    have "chunker_versions (m_id m) l' = {nz_version nz} \<or>
        chunker_versions (m_id m) l' = {} \<and> blank (pd_text pd)"
    proof (cases "nz_chunk nz pd = []")
      case True
      with chunker_port.empty_iff [OF port] st(6) show ?thesis
        by (simp add: chunker_versions_def new_passages_def)
    next
      case False
      have "ps_chunker_version p = nz_version nz" if "p \<in> set (passages_of (m_id m) l')" for p
        using that unfolding st(6) by (rule new_passages_fields)
      moreover have "passages_of (m_id m) l' \<noteq> []"
        using False new_passages_maps(3) [of b "nz_version nz" "m_id m"] unfolding st(6)
        by (metis length_0_conv)
      ultimately show ?thesis unfolding chunker_versions_def by (cases "passages_of (m_id m) l'") auto
    qed
    with st(3,4) st(5) [of m] chunked(1-3) frame show ?thesis by (intro again) auto
  qed
qed

section \<open>Vectors\<close>


text \<open>Sessions interleave safely: a normalization or an embedding that runs while other sessions commit any
  steps between its own sessions ends in a reachable library, whether it succeeds or raises. The model is
  assumed to answer a batch with the vectors of its texts, and its name to hold no NUL.\<close>

theorem sessions_interleave_safely:
  assumes reach: "reachable_library b b8 nz model me l" and "inj b" and port: "chunker_port (nz_chunk nz)"
    and name: "NUL \<notin> set (eb_model_id (em_embedder em))"
    and model: "\<And>batch vs. eb_embed_passage (em_embedder em) batch = Inr vs \<Longrightarrow>
      vs = map (model (eb_model_id (em_embedder em))) batch"
    and others: "\<And>k l. (library_step b b8 nz model)\<^sup>*\<^sup>* l (others k l)"
  shows "reachable_library b b8 nz model me (snd (normalize b nz others now i l)) \<and>
         reachable_library b b8 nz model me (snd (embed b em others now i l)) \<and>
         map erase (memory_rows (snd (embed b em others now i l))) =
           project_events (c_events (lb_corpus (snd (embed b em others now i l)))) []"
proof -
  have inv: "library_inv b l" by (rule reachable_library_inv [OF reach \<open>inj b\<close> port])
  note to_l = reach [unfolded reachable_library_def]
  have "reachable_library b b8 nz model me (snd (normalize b nz others now i l))"
    unfolding reachable_library_def
    by (rule rtranclp_trans [OF to_l normalize_steps [OF library_invD(1) [OF inv] others]])
  moreover have embedded: "reachable_library b b8 nz model me (snd (embed b em others now i l))"
    unfolding reachable_library_def
    by (rule rtranclp_trans [OF to_l embed_steps [OF inv \<open>inj b\<close> port name model others
          reachable_library_vectors [OF reach]]])
  moreover from embedded have "corpus_inv (lb_corpus (snd (embed b em others now i l)))"
    by (intro reachable_corpus_inv [OF reachable_library_corpus])
  ultimately show ?thesis by (simp add: corpus_invD(2) memory_rows_def)
qed

text \<open>An embedding that reports success leaves nothing to embed: no chunk of the memory is without a vector
  of the model, and a second run reports that there was nothing to do and changes nothing.\<close>

theorem embed_leaves_nothing_pending:
  assumes run: "embed b em undisturbed now i l = (Inr rep, l')" and "er_outcome rep \<noteq> EMBED_DELETED"
  shows "pending_chunks (eb_model_id (em_embedder em)) i l' = [] \<and>
         (\<exists>rep'. embed b em undisturbed now' i l' = (Inr rep', l') \<and> er_outcome rep' = EMBED_SKIPPED)"
  by (rule embed_fills [OF assms])

text \<open>An embedding succeeds when the model answers: if the model returns one vector of its dimension for each
  text of a batch, the embedding of a live memory raises nothing, whatever the cache holds and whatever the
  batch size is, and reports all the chunks that were waiting.\<close>

theorem embed_succeeds_when_answered:
  assumes "memory_get i l = Some m" and "m_deleted_at m = None"
    and "\<And>batch. eb_embed_passage (em_embedder em) batch = Inr (map f batch)"
    and "\<And>t. length (f t) = eb_dimension (em_embedder em)"
  shows "\<exists>rep l'. embed b em undisturbed now i l = (Inr rep, l') \<and>
           er_chunks rep = length (pending_chunks (eb_model_id (em_embedder em)) i l) \<and>
           er_outcome rep \<noteq> EMBED_DELETED"
  by (rule embed_total [OF assms])

section \<open>Where the pipeline falls short\<close>

text \<open>A late normalization strips the current version: the use case does not ask whether its memory is the
  current version of its item. When the job of a superseded version runs after that of the current one, as
  it does after a retry, it takes the chunks of the whole item for the old text, and the current version is
  left with none.\<close>

theorem late_normalize_strips_the_current_version:
  assumes reach: "reachable_library b b8 nz model me l" and "inj b" and port: "chunker_port (nz_chunk nz)"
    and get: "memory_get i l = Some m"
    and cur: "current_row (m_source m) (m_key m) (memory_rows l) = Some current" and "m_id current \<noteq> i"
    and run: "normalize b nz undisturbed now i l = (Inr rep, l')" and "nr_outcome rep \<in> {CHUNKED, REUSED}"
  shows "current_row (m_source m) (m_key m) (memory_rows l') = Some current \<and>
         passages_of (m_id current) l' = []"
proof -
  have inv: "library_inv b l" by (rule reachable_library_inv [OF assms(1-3)])
  have m: "loaded m l" by (rule memory_get_loaded [OF get library_invD(1) [OF inv]])
  have i: "m_id m = i" by (rule memory_getD(2) [OF get])
  note current = current_rowD [OF cur]
  have inv': "library_inv b l'"
    using reachable_library_inv [OF _ \<open>inj b\<close> port, of b8 model me l']
      rtranclp_trans [OF reach [unfolded reachable_library_def]
        normalize_steps [OF library_invD(1) [OF inv], of b b8 nz model undisturbed now i]] run
    by (simp add: reachable_library_def)
  have empty: "passages_of (m_id current) l' = []"
    if rows: "memory_rows l' = memory_rows l" and mine: "passages_of i l' \<noteq> []"
  proof (rule ccontr)
    assume "passages_of (m_id current) l' \<noteq> []"
    then have "m_id current \<in> ps_memory ` set (lb_passages l')"
      by (auto simp: passages_of_def filter_empty_conv intro: rev_image_eqI)
    moreover from mine have "m_id m \<in> ps_memory ` set (lb_passages l')"
      by (auto simp: passages_of_def filter_empty_conv i intro: rev_image_eqI)
    ultimately show False
      using library_invD(3) [OF inv'] rows current(1,2) memory_getD(1) [OF get] assms(6) i
      unfolding one_owner_def by metis
  qed
  show ?thesis
    using run
  proof (cases rule: normalize_Inr)
    case (reused m' pd n)
    have m': "m' = m" using reused(1) get by simp
    show ?thesis
    proof (rule adopt_effect [OF reused(5) [unfolded m'] inv m])
      assume "memory_rows l' = memory_rows l" "chunker_versions (m_id m) l' = {nz_version nz}"
      moreover from this have "passages_of i l' \<noteq> []" by (auto simp: chunker_versions_def i)
      ultimately show ?thesis using empty cur by simp
    qed
  next
    case (chunked m' pd l3)
    have m': "m' = m" using chunked(1) get by simp
    note st = store_effect [OF chunked(6) [unfolded m' chunked(8)] m]
    have "m_id current \<in> item_ids m l'"
      using current by (auto simp: item_ids_def st(3))
    then have "p \<in> set (item_passages m l')" if "p \<in> set (passages_of (m_id current) l')" for p
      using that by (auto simp: item_passages_def passages_of_def)
    moreover have "ps_memory p = i" if "p \<in> set (item_passages m l')" for p
      using that unfolding st(1) i by (rule new_passages_fields)
    moreover have "ps_memory p = m_id current" if "p \<in> set (passages_of (m_id current) l')" for p
      using that by (simp add: passages_of_def)
    ultimately have "passages_of (m_id current) l' = []"
      using assms(6) by (metis list.set_intros(1) neq_Nil_conv)
    with cur st(3) show ?thesis by simp
  qed (use assms(8) in auto)
qed

lemma sort_key_map_same:
  "(\<And>x. k (f x) = k x) \<Longrightarrow> sort_key k (map f xs) = map f (sort_key k xs)"
proof -
  assume same: "\<And>x. k (f x) = k x"
  have "insort_key k (f x) (map f ys) = map f (insort_key k x ys)" for x ys
    by (induction ys) (simp_all add: same)
  then show ?thesis by (induction xs) simp_all
qed

text \<open>Adopted chunks can wait for ever: a normalization that moves the chunks of an earlier version enqueues
  no embedding. Chunks that still wait for a vector then belong to a memory no job will embed, and the job
  of the earlier version finds nothing to do.\<close>

theorem adopted_chunks_can_wait_for_ever:
  assumes reach: "reachable_library b b8 nz model me l" and "inj b" and port: "chunker_port (nz_chunk nz)"
    and run: "normalize b nz undisturbed now i l = (Inr rep, l')" and "nr_outcome rep = REUSED"
  shows "\<exists>r. pending_chunks name i l' = pending_chunks name r l \<and> pending_chunks name r l' = [] \<and>
             c_jobs (lb_corpus l') = c_jobs (lb_corpus l)"
  using run
proof (cases rule: normalize_Inr)
  case (reused m pd n)
  have inv: "library_inv b l" by (rule reachable_library_inv [OF assms(1-3)])
  have m: "loaded m l" by (rule memory_get_loaded [OF reused(1) library_invD(1) [OF inv]])
  have i: "m_id m = i" by (rule memory_getD(2) [OF reused(1)])
  have pending: "pending_chunks name j l =
      map (\<lambda>p. (ps_id p, ps_content p)) (sort_key ps_ordinal (filter (is_pending name) (passages_of j l)))" for j l
    by (simp add: pending_chunks_def passages_of_def conj_commute)
  have still: "is_pending name (p\<lparr> ps_memory := j \<rparr>) = is_pending name p" for p j
    by (simp add: is_pending_def)
  show ?thesis
  proof (rule adopt_effect [OF reused(5) inv m])
    fix r
    assume "c_jobs (lb_corpus l') = c_jobs (lb_corpus l)" "passages_of (m_id r) l' = []"
      and moved: "passages_of (m_id m) l' = map (\<lambda>p. p\<lparr> ps_memory := m_id m \<rparr>) (passages_of (m_id r) l)"
    moreover have "pending_chunks name i l' = pending_chunks name (m_id r) l"
      by (simp add: pending moved [unfolded i] filter_map comp_def still sort_key_map_same)
    ultimately show ?thesis by (intro exI [of _ "m_id r"]) (simp add: pending)
  qed
qed (use assms(5) in auto)

section \<open>The properties at the examples\<close>

lemma sample_library_facts:
  shows "memory_rows sample_library = c_memories sample_synced"
    and "stored_text 1 sample_library = Some (pd_text sample_document)"
    and "lb_passages sample_library \<noteq> []"
    and "p \<in> set (lb_passages sample_library) \<Longrightarrow> ps_memory p = 1 \<and> ps_embedding p = None"
proof -
  let ?m = "hd (c_memories sample_synced)" and ?l = "plain sample_synced"
  have get: "memory_get 1 ?l = Some ?m"
    by (simp add: memory_get_def memory_rows_def plain_def sample_synced_def)
  have m: "loaded ?m ?l" by (rule memory_get_loaded [OF get]) (simp add: plain_def sample_synced_inv)
  have id: "m_id ?m = 1" by (simp add: sample_synced_def)
  have pd: "parse_memory sample_normalizer ?m ?l = Inr sample_document"
    by (simp add: parse_memory_def plain_def sample_synced_def sample_normalizer_def parse_with_def for_item_def)
  obtain rep where "normalize (\<lambda>s. s) sample_normalizer undisturbed 0 1 ?l = (Inr rep, sample_library)"
    "nr_outcome rep = CHUNKED"
    using sample_normalization_runs unfolding sample_normalization_def by blast
  then obtain store: "atomically (store (\<lambda>s. s) sample_normalizer 0 ?m sample_document
      (normalized_hash (\<lambda>s. s) (pd_text sample_document)) (nz_chunk sample_normalizer sample_document)) ?l =
      (Inr (), sample_library)"
    by (cases rule: normalize_Inr) (use get pd in auto)
  note st = store_effect [OF store m, unfolded id]
  show "memory_rows sample_library = c_memories sample_synced"
    using st(3) by (simp add: memory_rows_def plain_def)
  show "stored_text 1 sample_library = Some (pd_text sample_document)" by (rule st(2))
  have "\<not> blank (pd_text sample_document)" by code_simp
  then have "nz_chunk sample_normalizer sample_document \<noteq> []"
    by (simp add: chunker_port.empty_iff [OF sample_port])
  then have "passages_of 1 sample_library \<noteq> []"
    unfolding st(6) by (metis length_0_conv new_passages_maps(3))
  then show "lb_passages sample_library \<noteq> []" by (auto simp: passages_of_def)
  assume p: "p \<in> set (lb_passages sample_library)"
  then have "ps_memory p \<in> m_id ` set (memory_rows sample_library)"
    using passage_memory_known(1) [OF reachable_library_inv [OF sample_library_reachable _ sample_port]] by simp
  then have "ps_memory p = 1"
    unfolding st(3) by (simp add: memory_rows_def plain_def sample_synced_def)
  with p have "p \<in> set (passages_of 1 sample_library)" by (simp add: passages_of_def)
  then have "ps_embedding p = None" unfolding st(6) by (rule new_passages_fields)
  with \<open>ps_memory p = 1\<close> show "ps_memory p = 1 \<and> ps_embedding p = None" by simp
qed

definition sample_embedder :: embed_memory where
  "sample_embedder =
     \<lparr> em_embedder = \<lparr> eb_model_id = ''m'', eb_dimension = 1,
         eb_embed_passage = \<lambda>batch. Inr (map (sample_model ''m'') batch) \<rparr>,
       em_batch_size = 2, em_enqueue_followup = True \<rparr>"

definition sample_embedded :: library where
  "sample_embedded = snd (embed (\<lambda>s. s) sample_embedder undisturbed 0 1 sample_library)"

lemma inj_same: "inj (\<lambda>s. s)"
  by (rule inj_onI) simp

lemma sample_embed_hypotheses:
  "NUL \<notin> set (eb_model_id (em_embedder sample_embedder))"
  "eb_embed_passage (em_embedder sample_embedder) batch = Inr vs \<Longrightarrow>
   vs = map (sample_model (eb_model_id (em_embedder sample_embedder))) batch"
  "eb_embed_passage (em_embedder sample_embedder) batch = Inr (map (sample_model ''m'') batch)"
  "length (sample_model ''m'' t) = eb_dimension (em_embedder sample_embedder)"
  by (auto simp: sample_embedder_def sample_model_def NUL_def)

lemma sample_memory_get:
  "memory_get 1 sample_library = Some (hd (c_memories sample_synced))"
  "m_deleted_at (hd (c_memories sample_synced)) = None"
  unfolding memory_get_def sample_library_facts(1) by (simp_all add: sample_synced_def)

lemma sample_pending: "pending_chunks name 1 sample_library \<noteq> []"
proof -
  obtain p where "p \<in> set (lb_passages sample_library)"
    using sample_library_facts(3) by (cases "lb_passages sample_library") auto
  moreover from sample_library_facts(4) [OF this] have "ps_memory p = 1" "is_pending name p"
    by (simp_all add: is_pending_def)
  ultimately show ?thesis
    using \<open>p \<in> set (lb_passages sample_library)\<close> by (auto simp: pending_empty_iff passages_of_def)
qed

lemma sample_embedding_runs:
  obtains rep where "embed (\<lambda>s. s) sample_embedder undisturbed 0 1 sample_library = (Inr rep, sample_embedded)"
    and "er_outcome rep \<noteq> EMBED_DELETED"
  using embed_total [of 1 sample_library _ sample_embedder "sample_model ''m''" "\<lambda>s. s" 0,
      OF sample_memory_get sample_embed_hypotheses(3,4)]
  by (auto simp: sample_embedded_def)

lemma sample_embedded_reachable:
  "reachable_library (\<lambda>s. s) (\<lambda>s. s) sample_normalizer sample_model 1 sample_embedded"
proof -
  note inv = reachable_library_inv [OF sample_library_reachable inj_same sample_port]
  have "sample_step\<^sup>*\<^sup>* sample_library sample_embedded"
    unfolding sample_embedded_def
    by (rule embed_steps [OF inv inj_same sample_port sample_embed_hypotheses(1,2) _
          reachable_library_vectors [OF sample_library_reachable]]) simp_all
  with sample_library_reachable show ?thesis
    unfolding reachable_library_def by (rule rtranclp_trans)
qed

theorem stored_chunks_cite_stored_text_witness:
  "filter (\<lambda>p. \<not> cites (pd_text sample_document) p) (lb_passages sample_library) = [] \<and>
   lb_passages sample_library \<noteq> []"
proof -
  have "cites (pd_text sample_document) p" if p: "p \<in> set (lb_passages sample_library)" for p
    using stored_chunks_cite_stored_text [OF sample_library_reachable inj_same sample_port p]
      sample_library_facts(2) sample_library_facts(4) [OF p]
    by (auto simp: cites_def)
  with sample_library_facts(3) show ?thesis by (simp add: filter_empty_conv)
qed

theorem one_version_owns_the_chunks_witness:
  "distinct (map (\<lambda>p. (ps_memory p, ps_ordinal p)) (lb_passages sample_library)) \<and>
   lb_passages sample_library \<noteq> []"
  using one_version_owns_the_chunks [OF sample_library_reachable inj_same sample_port] sample_library_facts(3)
  by blast

theorem normalize_leaves_exactly_the_chunks_witness:
  "item_passages (hd (c_memories sample_synced)) sample_library =
   new_passages (\<lambda>s. s) ''structural-1'' 1 4 (chunk count_tokens (config_for_window 17) sample_document)"
proof -
  let ?m = "hd (c_memories sample_synced)" and ?l = "plain sample_synced"
  obtain rep where run: "normalize (\<lambda>s. s) sample_normalizer undisturbed 0 1 ?l = (Inr rep, sample_library)"
    "nr_outcome rep = CHUNKED"
    using sample_normalization_runs unfolding sample_normalization_def by blast
  have get: "memory_get 1 ?l = Some ?m"
    by (simp add: memory_get_def memory_rows_def plain_def sample_synced_def)
  have pd: "parse_memory sample_normalizer ?m ?l = Inr sample_document"
    by (simp add: parse_memory_def plain_def sample_synced_def sample_normalizer_def parse_with_def for_item_def)
  have m: "loaded ?m ?l" by (rule memory_get_loaded [OF get]) (simp add: plain_def sample_synced_inv)
  have next_id: "c_next_id (lb_corpus ?l) = 4" by (simp add: plain_def sample_synced_def)
  show ?thesis
    using normalize_leaves_exactly_the_chunks [OF run get pd m] unfolding next_id
    by (simp add: sample_normalizer_def)
qed

theorem normalize_is_idempotent_witness:
  "\<exists>rep. normalize (\<lambda>s. s) sample_normalizer undisturbed 9 1 sample_library = (Inr rep, sample_library)"
proof -
  obtain rep where run: "normalize (\<lambda>s. s) sample_normalizer undisturbed 0 1 (plain sample_synced) =
      (Inr rep, sample_library)"
    using sample_normalization_runs unfolding sample_normalization_def by blast
  from normalize_is_idempotent [OF plain_synced_reachable inj_same sample_port run, of 9] show ?thesis by blast
qed


theorem sessions_interleave_safely_witness:
  "reachable_library (\<lambda>s. s) (\<lambda>s. s) sample_normalizer sample_model 1 sample_embedded"
  unfolding sample_embedded_def
  using sessions_interleave_safely [OF sample_library_reachable inj_same sample_port
      sample_embed_hypotheses(1,2), of undisturbed 0 1]
  by blast

theorem embed_leaves_nothing_pending_witness:
  "pending_chunks ''m'' 1 sample_embedded = [] \<and> pending_chunks ''m'' 1 sample_library \<noteq> []"
proof -
  obtain rep where "embed (\<lambda>s. s) sample_embedder undisturbed 0 1 sample_library = (Inr rep, sample_embedded)"
    "er_outcome rep \<noteq> EMBED_DELETED" by (rule sample_embedding_runs)
  from embed_leaves_nothing_pending [OF this] sample_pending show ?thesis by (simp add: sample_embedder_def)
qed

theorem embed_succeeds_when_answered_witness:
  "\<exists>rep l'. embed (\<lambda>s. s) sample_embedder undisturbed 0 1 sample_library = (Inr rep, l')"
  using embed_succeeds_when_answered [of 1 sample_library _ sample_embedder "sample_model ''m''" "\<lambda>s. s" 0,
      OF sample_memory_get sample_embed_hypotheses(3,4)]
  by blast

subsection \<open>Two versions of one item\<close>

definition sample_old :: memory where
  "sample_old = \<lparr> m_id = 1, m_source = 0, m_key = ''a'', m_content_hash = ''h1'', m_kind = OTHER_KIND,
     m_occurred_at_source = TP_UNKNOWN, m_version = 1, m_is_current = False, m_occurred_at = None,
     m_ingested_at = Some 0, m_importance = None, m_media_type = None, m_deleted_at = None \<rparr>"

definition sample_new :: memory where
  "sample_new = \<lparr> m_id = 5, m_source = 0, m_key = ''a'', m_content_hash = ''h2'', m_kind = OTHER_KIND,
     m_occurred_at_source = TP_UNKNOWN, m_version = 2, m_is_current = True, m_occurred_at = None,
     m_ingested_at = Some 5, m_importance = None, m_media_type = None, m_deleted_at = None \<rparr>"

text \<open>The corpus after the second observation, once its jobs are gone from the queue.\<close>

definition sample_observed :: corpus where
  "sample_observed = snd (in_transaction (ingest_item (\<lambda>s. s) 5 sample_source
     ((sample_item ''a'' ''h2'')\<lparr> oi_read_bytes := Some (Inr [8]) \<rparr>)) sample_synced)"

definition sample_revision :: corpus where
  "sample_revision = sample_observed\<lparr> c_jobs := [] \<rparr>"

lemma sample_revision_memories: "c_memories sample_revision = [sample_old, sample_new]"
  by code_simp

lemma sample_revision_blobs: "c_blobs sample_revision = [(''h1'', [7]), (''h2'', [8])]"
  by code_simp

lemma sample_revision_chunks: "c_chunks sample_revision = []"
  by code_simp

lemmas sample_revision_facts = sample_revision_memories sample_revision_blobs sample_revision_chunks

lemma plain_revision_reachable: "reachable_library b (\<lambda>s. s) nz model 1 (plain sample_revision)"
proof -
  have none: "c_chunks sample_observed = []"
    using sample_revision_facts(3) by (simp add: sample_revision_def)
  then have same: "sample_observed\<lparr> c_chunks := [] \<rparr> = sample_observed" by (cases sample_observed) simp
  have "lifecycle (\<lambda>s. s) sample_synced sample_observed"
    unfolding sample_observed_def by (rule lifecycle.ingest)
  from plain_step [OF this, of b nz model]
  have 1: "library_step b (\<lambda>s. s) nz model (plain sample_synced) (plain sample_observed)" by (simp add: same)
  have "lifecycle (\<lambda>s. s) sample_observed sample_revision"
    unfolding sample_revision_def by (rule lifecycle.work) (simp_all add: queue_inv_empty)
  from plain_step [OF this, of b nz model]
  have 2: "library_step b (\<lambda>s. s) nz model (plain sample_observed) (plain sample_revision)"
  proof -
    have "sample_revision\<lparr> c_chunks := [] \<rparr> = sample_revision"
      using sample_revision_facts(3) by (cases sample_revision) simp
    with \<open>library_step b (\<lambda>s. s) nz model (plain sample_observed) (plain (sample_revision\<lparr> c_chunks := [] \<rparr>))\<close>
    show ?thesis by simp
  qed
  from plain_synced_reachable [of b nz model] 1 2 show ?thesis
    unfolding reachable_library_def by (meson rtranclp.rtrancl_into_rtrancl)
qed

lemma sample_revision_rows: "memory_rows (plain sample_revision) = [sample_old, sample_new]"
  by (simp add: memory_rows_def plain_def sample_revision_facts)

text \<open>A parser whose two versions differ.\<close>

definition revised_document :: parsed_document where
  "revised_document = sample_document\<lparr> pd_text := ''Five six.'' \<rparr>"

definition revising_normalizer :: normalizer where
  "revising_normalizer = sample_normalizer\<lparr> nz_parsers :=
     [(\<lambda>_ _. True, \<lambda>data _ _. Inr (if data = [7] then sample_document else revised_document))] \<rparr>"

lemma revising_port: "chunker_port (nz_chunk revising_normalizer)"
  using sample_port by (simp add: revising_normalizer_def)

lemma rows_get:
  assumes "memory_rows l = [sample_old, sample_new]"
  shows "memory_get 1 l = Some sample_old" and "memory_get 5 l = Some sample_new"
  by (simp_all add: memory_get_def assms sample_old_def sample_new_def)

lemma sample_ids [simp]: "m_id sample_old = 1" "m_id sample_new = 5"
  by (simp_all add: sample_old_def sample_new_def)

lemma no_previous:
  assumes "memory_rows l = [sample_old, sample_new]"
  shows "tx_normalized_hash (text_of sample_new l) \<noteq> Some h \<Longrightarrow> previous_version sample_old h l = None"
    and "tx_normalized_hash (text_of sample_old l) \<noteq> Some h \<Longrightarrow> previous_version sample_new h l = None"
  by (simp_all add: previous_version_def assms)

lemma revised_first:
  obtains rep l' where "normalize (\<lambda>s. s) revising_normalizer undisturbed 0 5 (plain sample_revision) = (Inr rep, l')"
    and "memory_rows l' = [sample_old, sample_new]" and "passages_of 5 l' \<noteq> []"
    and "tx_normalized_hash (text_of sample_new l') = Some ''Five six.''"
    and "tx_normalized_hash (text_of sample_old l') = None"
    and "c_blobs (lb_corpus l') = [(''h1'', [7]), (''h2'', [8])]"
proof -
  let ?l = "plain sample_revision"
  note get = rows_get(2) [OF sample_revision_rows]
  have inv: "corpus_inv (lb_corpus ?l)"
    by (rule library_invD(1) [OF reachable_library_inv [OF plain_revision_reachable inj_same sample_port]])
  have m: "loaded sample_new ?l" by (rule memory_get_loaded [OF get inv])
  have pd: "parse_memory revising_normalizer sample_new ?l = Inr revised_document"
    by (simp add: parse_memory_def plain_def sample_revision_facts sample_new_def revising_normalizer_def
        parse_with_def for_item_def)
  have none: "tx_normalized_hash (text_of r ?l) = None" for r by (simp add: text_of_def plain_def)
  have m_live: "m_deleted_at sample_new = None" by (simp add: sample_new_def)
  obtain rep l' where run: "normalize (\<lambda>s. s) revising_normalizer undisturbed 0 5 ?l = (Inr rep, l')"
    and store: "atomically (store (\<lambda>s. s) revising_normalizer 0 sample_new revised_document
      (normalized_hash (\<lambda>s. s) (pd_text revised_document)) (nz_chunk revising_normalizer revised_document)) ?l
      = (Inr (), l')"
    by (rule normalize_chunks [OF get _ pd _ _ revising_port, of "\<lambda>s. s" 0])
      (simp_all add: none no_previous [OF sample_revision_rows] m_live)
  note st = store_effect [OF store m]
  have "\<not> blank (pd_text revised_document)" by code_simp
  then have "nz_chunk revising_normalizer revised_document \<noteq> []"
    by (simp add: chunker_port.empty_iff [OF revising_port])
  then have "passages_of 5 l' \<noteq> []"
    using st(6) by simp (metis length_0_conv new_passages_maps(3))
  show thesis
  proof (rule that [OF run _ \<open>passages_of 5 l' \<noteq> []\<close>])
    show "memory_rows l' = [sample_old, sample_new]" by (simp add: st(3) sample_revision_rows)
    show "tx_normalized_hash (text_of sample_new l') = Some ''Five six.''"
      using st(5) [of sample_new] by (simp add: normalized_hash_def revised_document_def)
    show "tx_normalized_hash (text_of sample_old l') = None" using st(8) [of sample_old] none by simp
    show "c_blobs (lb_corpus l') = [(''h1'', [7]), (''h2'', [8])]"
      using st(4) by (simp add: plain_def sample_revision_facts)
  qed
qed

text \<open>The current version is normalized, then the job of the old one runs.\<close>

theorem late_normalize_strips_the_current_version_witness:
  "\<exists>l l'. passages_of 5 l \<noteq> [] \<and> passages_of 5 l' = [] \<and>
     l = snd (normalize (\<lambda>s. s) revising_normalizer undisturbed 0 5 (plain sample_revision)) \<and>
     l' = snd (normalize (\<lambda>s. s) revising_normalizer undisturbed 0 1 l)"
proof (rule revised_first)
  fix rep l
  let ?S = "library_step (\<lambda>s. s) (\<lambda>s. s) revising_normalizer sample_model"
  assume run: "normalize (\<lambda>s. s) revising_normalizer undisturbed 0 5 (plain sample_revision) = (Inr rep, l)"
    and rows: "memory_rows l = [sample_old, sample_new]" and before_it: "passages_of 5 l \<noteq> []"
    and new: "tx_normalized_hash (text_of sample_new l) = Some ''Five six.''"
    and old: "tx_normalized_hash (text_of sample_old l) = None"
    and blobs: "c_blobs (lb_corpus l) = [(''h1'', [7]), (''h2'', [8])]"
  note reach0 = plain_revision_reachable [of "\<lambda>s. s" revising_normalizer sample_model]
  have inv0: "corpus_inv (lb_corpus (plain sample_revision))"
    by (rule library_invD(1) [OF reachable_library_inv [OF reach0 inj_same revising_port]])
  have "?S\<^sup>*\<^sup>* (plain sample_revision) l"
    using normalize_steps [OF inv0, of "\<lambda>s. s" "\<lambda>s. s" revising_normalizer sample_model undisturbed 0 5] run
    by simp
  with reach0 have reach: "reachable_library (\<lambda>s. s) (\<lambda>s. s) revising_normalizer sample_model 1 l"
    unfolding reachable_library_def by (rule rtranclp_trans)
  have pd: "parse_memory revising_normalizer sample_old l = Inr sample_document"
    by (simp add: parse_memory_def blobs sample_old_def revising_normalizer_def parse_with_def for_item_def)
  have live: "m_deleted_at sample_old = None" by (simp add: sample_old_def)
  obtain rep' l' where run': "normalize (\<lambda>s. s) revising_normalizer undisturbed 0 1 l = (Inr rep', l')"
    and chunked: "nr_outcome rep' = CHUNKED"
    by (rule normalize_chunks [OF rows_get(1) [OF rows] live pd _ _ revising_port, of "\<lambda>s. s" 0])
      (simp_all add: old no_previous(1) [OF rows] new normalized_hash_def sample_document_def)
  have cur: "current_row (m_source sample_old) (m_key sample_old) (memory_rows l) = Some sample_new"
    by (simp add: current_row_def rows same_item_def) (simp add: sample_old_def sample_new_def)
  have "passages_of (m_id sample_new) l' = []"
    using late_normalize_strips_the_current_version [OF reach inj_same revising_port rows_get(1) [OF rows] cur _ run']
      chunked by simp
  with before_it run run' show ?thesis by (intro exI [of _ l] exI [of _ l']) simp
qed

text \<open>The second observation has the text of the first, whose chunks still wait for their vectors.\<close>

theorem adopted_chunks_can_wait_for_ever_witness:
  "\<exists>l l'. pending_chunks ''m'' 5 l' \<noteq> [] \<and> c_jobs (lb_corpus l') = c_jobs (lb_corpus l) \<and>
     l = snd (normalize (\<lambda>s. s) sample_normalizer undisturbed 0 1 (plain sample_revision)) \<and>
     l' = snd (normalize (\<lambda>s. s) sample_normalizer undisturbed 0 5 l)"
proof -
  let ?l0 = "plain sample_revision"
  note reach0 = plain_revision_reachable [of "\<lambda>s. s" sample_normalizer sample_model]
  have inv0: "corpus_inv (lb_corpus ?l0)"
    by (rule library_invD(1) [OF reachable_library_inv [OF reach0 inj_same sample_port]])
  have parse: "parse_memory sample_normalizer m l = Inr sample_document"
    if "c_blobs (lb_corpus l) = c_blobs (lb_corpus ?l0)" "m \<in> {sample_old, sample_new}" for m l
    using that by (auto simp: parse_memory_def plain_def sample_revision_facts sample_old_def sample_new_def
        sample_normalizer_def parse_with_def for_item_def)
  have live: "m_deleted_at sample_old = None" "m_deleted_at sample_new = None"
    by (simp_all add: sample_old_def sample_new_def)
  have none: "tx_normalized_hash (text_of r ?l0) = None" for r by (simp add: text_of_def plain_def)
  note get0 = rows_get(1) [OF sample_revision_rows]
  obtain rep l where run: "normalize (\<lambda>s. s) sample_normalizer undisturbed 0 1 ?l0 = (Inr rep, l)"
    and store: "atomically (store (\<lambda>s. s) sample_normalizer 0 sample_old sample_document
      (normalized_hash (\<lambda>s. s) (pd_text sample_document)) (nz_chunk sample_normalizer sample_document)) ?l0
      = (Inr (), l)"
    by (rule normalize_chunks [OF get0 live(1) parse _ _ sample_port, of "\<lambda>s. s" 0])
      (simp_all add: none no_previous [OF sample_revision_rows])
  note st = store_effect [OF store memory_get_loaded [OF get0 inv0]]
  have rows: "memory_rows l = [sample_old, sample_new]" by (simp add: st(3) sample_revision_rows)
  have "sample_step\<^sup>*\<^sup>* ?l0 l"
    using normalize_steps [OF inv0, of "\<lambda>s. s" "\<lambda>s. s" sample_normalizer sample_model undisturbed 0 1] run
    by simp
  with reach0 have reach: "reachable_library (\<lambda>s. s) (\<lambda>s. s) sample_normalizer sample_model 1 l"
    unfolding reachable_library_def by (rule rtranclp_trans)
  note inv = reachable_library_inv [OF reach inj_same sample_port]
  have "\<not> blank (pd_text sample_document)" by code_simp
  then have "nz_chunk sample_normalizer sample_document \<noteq> []"
    by (simp add: chunker_port.empty_iff [OF sample_port])
  then have some: "passages_of 1 l \<noteq> []" using st(6) by simp (metis length_0_conv new_passages_maps(3))
  have each: "ps_chunker_version p = nz_version sample_normalizer \<and> ps_embedding p = None"
    if "p \<in> set (passages_of 1 l)" for p
    using that st(6) by (auto elim: new_passages_fields)
  have versions: "chunker_versions (m_id sample_old) l = {nz_version sample_normalizer}"
    using some each by (cases "passages_of 1 l") (auto simp: chunker_versions_def)
  have "tx_normalized_hash (text_of sample_old l) = Some (normalized_hash (\<lambda>s. s) (pd_text sample_document))"
    by (rule st(5)) simp
  then have prev: "previous_version sample_new (normalized_hash (\<lambda>s. s) (pd_text sample_document)) l = Some sample_old"
    by (simp add: previous_version_def rows) (simp add: same_item_def sample_old_def sample_new_def)
  have new: "tx_normalized_hash (text_of sample_new l) = None" using st(8) [of sample_new] none by simp
  note get = rows_get(2) [OF rows]
  obtain rep' l' n where run': "normalize (\<lambda>s. s) sample_normalizer undisturbed 0 5 l = (Inr rep', l')"
    and reused: "nr_outcome rep' = REUSED"
    and adopt: "atomically (adopt_from_previous_version sample_normalizer sample_new sample_document
      (normalized_hash (\<lambda>s. s) (pd_text sample_document))) l = (Inr (Some n), l')"
    by (rule normalize_reuses [OF inv get live(2) parse _ prev versions, of 0]) (simp_all add: st(4) new)
  have "pending_chunks ''m'' 5 l' \<noteq> []"
  proof (rule adopt_effect [OF adopt inv memory_get_loaded [OF get library_invD(1) [OF inv]]])
    fix r
    assume "previous_version sample_new (normalized_hash (\<lambda>s. s) (pd_text sample_document)) l = Some r"
      and "passages_of (m_id sample_new) l' =
        map (\<lambda>p. p\<lparr> ps_memory := m_id sample_new \<rparr>) (passages_of (m_id r) l)"
    then have "passages_of 5 l' = map (\<lambda>p. p\<lparr> ps_memory := 5 \<rparr>) (passages_of 1 l)" by (simp add: prev)
    with some each show ?thesis
      by (cases "passages_of 1 l") (auto simp: pending_empty_iff is_pending_def)
  qed
  moreover have "c_jobs (lb_corpus l') = c_jobs (lb_corpus l)"
    using adopted_chunks_can_wait_for_ever [OF reach inj_same sample_port run' reused] by blast
  ultimately show ?thesis using run run' by (intro exI [of _ l] exI [of _ l']) simp
qed

end
