(* ===== verification/Citing_Guarantees.thy ===== *)
theory Citing_Guarantees
  imports Citing Pipeline_Guarantees
begin

text \<open>
  What a citation is worth: in every library the program can reach, a citation made from a stored chunk
  quotes the stored text, and the two checks accept it; what the checks look at, and what they do not.
\<close>

section \<open>Citations of stored chunks\<close>

definition passage_text_ok :: "library \<Rightarrow> passage \<Rightarrow> bool" where
  "passage_text_ok l p \<longleftrightarrow>
     (\<exists>m s. memory_get (ps_memory p) l = Some m \<and> tx_content (text_of m l) = Some s \<and>
            quoted_span s p = chunk_body p \<and> ps_char_start p < ps_char_end p \<and> ps_char_end p \<le> length s)"

lemma text_of_stored: "tx_content (text_of m l) = stored_text (m_id m) l"
  by (simp add: text_of_def stored_text_def split: option.split)

lemma memory_get_known:
  assumes "library_inv b l" and "m \<in> set (memory_rows l)"
  shows "memory_get (m_id m) l = Some m"
proof -
  have "distinct (map m_id (memory_rows l))"
    using memories_okD(1) [OF corpus_invD(1) [OF library_invD(1) [OF assms(1)]]] by (simp add: memory_rows_def)
  with assms(2) have "\<And>r. r \<in> set (memory_rows l) \<Longrightarrow> m_id r = m_id m \<Longrightarrow> r = m"
    by (blast intro: distinct_map_eqD)
  moreover obtain r where "memory_get (m_id m) l = Some r"
    using assms(2) by (cases "memory_get (m_id m) l") (auto simp: memory_get_def find_None_iff)
  ultimately show ?thesis using memory_getD [of "m_id m" l r] by blast
qed

lemma stored_passage_ok:
  assumes "library_inv b l" and "p \<in> set (lb_passages l)"
  shows "passage_text_ok l p"
proof -
  from library_invD(2) [OF assms(1)] assms(2)
  obtain s where "ps_memory p \<in> m_id ` set (memory_rows l)" and s: "stored_text (ps_memory p) l = Some s" "cites s p"
    unfolding passages_valid_def by blast
  then obtain m where "m \<in> set (memory_rows l)" and m: "m_id m = ps_memory p" by auto
  from memory_get_known [OF assms(1) this(1)] s show ?thesis
    by (auto simp: passage_text_ok_def text_of_stored m cites_def chunk_body_def quoted_span_def)
qed

definition faithful :: "library \<Rightarrow> citation \<Rightarrow> bool" where
  "faithful l c \<longleftrightarrow>
     (\<exists>s e. stored_text (ci_memory_id c) l = Some s \<and> ci_excerpt c = slice s (ci_char_start c) (ci_char_end c) \<and>
            ci_excerpt c \<noteq> [] \<and> ci_context c = Some e \<and> excerpt_span e = ci_excerpt c)"

lemma cite_stored:
  assumes "passage_text_ok l p" and "parent_of l ids (ps_memory p) = Some parent"
  shows "\<exists>c. cite ctx parent (scored_row p) = Inr c \<and> faithful l c \<and>
             ci_memory_id c = ps_memory p \<and> ci_chunk_ordinal c = ps_ordinal p"
proof -
  from assms(1) obtain m s where m: "memory_get (ps_memory p) l = Some m"
    and s: "tx_content (text_of m l) = Some s" "quoted_span s p = chunk_body p"
      "ps_char_start p < ps_char_end p" "ps_char_end p \<le> length s"
    unfolding passage_text_ok_def by blast
  have content: "cp_content parent = Some s"
    using assms(2) m s(1) by (auto simp: parent_of_def split: if_splits option.splits)
  have "0 \<le> int (ps_char_start p)" "int (ps_char_start p) \<le> int (ps_char_end p)" using s(3) by simp_all
  note window = build_excerpt_window [OF this, of s ctx]
  then obtain e where e: "build_excerpt s (int (ps_char_start p)) (int (ps_char_end p)) ctx = Inr e" by blast
  with window s(3,4) have "excerpt_span e = quoted_span s p"
    by (auto simp: quoted_span_def min_absorb1 dest!: window_span)
  moreover have "quoted_span s p \<noteq> []"
    using length_slice [OF s(4), of "ps_char_start p"] s(3) by (auto simp: quoted_span_def)
  moreover have "stored_text (ps_memory p) l = Some s"
    using s(1) memory_getD(2) [OF m] by (simp add: text_of_stored)
  ultimately show ?thesis using s(2) e
    by (simp add: cite_def scored_row_def chunk_with_score_def content faithful_def chunk_body_def quoted_span_def)
qed

lemma cite_all_stored:
  assumes "\<And>p. p \<in> set ps \<Longrightarrow> passage_text_ok l p"
  shows "\<exists>cs. cite_all ctx (parent_of l ids) (map scored_row ps) = Inr cs \<and> list_all (faithful l) cs \<and>
           map (\<lambda>c. (ci_memory_id c, ci_chunk_ordinal c)) cs =
           map (\<lambda>p. (ps_memory p, ps_ordinal p)) (filter (\<lambda>p. parent_of l ids (ps_memory p) \<noteq> None) ps)"
  using assms
proof (induction ps)
  case (Cons p ps)
  then obtain cs where cs: "cite_all ctx (parent_of l ids) (map scored_row ps) = Inr cs" "list_all (faithful l) cs"
    "map (\<lambda>c. (ci_memory_id c, ci_chunk_ordinal c)) cs =
     map (\<lambda>p. (ps_memory p, ps_ordinal p)) (filter (\<lambda>p. parent_of l ids (ps_memory p) \<noteq> None) ps)"
    by (auto simp del: map_eq_conv)
  have sk: "sk_memory_id (scored_row p) = ps_memory p" by (simp add: scored_row_def chunk_with_score_def)
  show ?case
  proof (cases "parent_of l ids (ps_memory p)")
    case None
    with cs sk show ?thesis by simp
  next
    case (Some parent)
    have "passage_text_ok l p" using Cons.prems by simp
    from cite_stored [OF this Some, of ctx] obtain c where
      "cite ctx parent (scored_row p) = Inr c" "faithful l c" "ci_memory_id c = ps_memory p" "ci_chunk_ordinal c = ps_ordinal p"
      by blast
    with cs sk Some show ?thesis by simp
  qed
qed simp


lemma opening_chunks_stored: "\<exists>ps. opening_chunks ids l = map scored_row ps \<and> set ps \<subseteq> set (lb_passages l)"
proof -
  define by_memory where "by_memory =
    map_of (rev (map (\<lambda>p. (ps_memory p, p)) (filter (\<lambda>p. ps_memory p \<in> set ids \<and> ps_ordinal p = 0) (lb_passages l))))"
  let ?ps = "concat (map (\<lambda>i. case by_memory i of None \<Rightarrow> [] | Some p \<Rightarrow> [p]) ids)"
  have scored_rows: "concat (map (\<lambda>i. case f i of None \<Rightarrow> [] | Some p \<Rightarrow> [scored_row p]) js) =
      map scored_row (concat (map (\<lambda>i. case f i of None \<Rightarrow> [] | Some p \<Rightarrow> [p]) js))" for f :: "nat \<Rightarrow> passage option" and js
    by (induction js) (simp_all split: option.split)
  have "by_memory i = Some p \<Longrightarrow> p \<in> set (lb_passages l)" for i p
    by (auto simp: by_memory_def dest!: map_of_SomeD)
  then have "set ?ps \<subseteq> set (lb_passages l)" by (auto split: option.splits)
  moreover have "opening_chunks ids l = map scored_row ?ps"
    unfolding opening_chunks_def by_memory_def Let_def by (rule scored_rows)
  ultimately show ?thesis by blast
qed

definition has_source :: "library \<Rightarrow> nat \<Rightarrow> bool" where
  "has_source l i \<longleftrightarrow>
     list_ex (\<lambda>m. m_id m = i \<and> m_source m \<in> src_id ` set (c_sources (lb_corpus l))) (memory_rows l)"

lemma parent_of_known:
  assumes "library_inv b l" and "i \<in> set ids"
  shows "parent_of l ids i \<noteq> None \<longleftrightarrow> has_source l i"
proof (cases "memory_get i l")
  case None
  then have "\<not> has_source l i" by (auto simp: has_source_def memory_get_def find_None_iff list_ex_iff)
  with None show ?thesis by (simp add: parent_of_def)
next
  case (Some m)
  have "has_source l i \<longleftrightarrow> m_source m \<in> src_id ` set (c_sources (lb_corpus l))"
    unfolding has_source_def list_ex_iff using memory_getD [OF Some] memory_get_known [OF assms(1)] Some
    by (metis option.inject)
  moreover have "find (\<lambda>s. src_id s = m_source m) (c_sources (lb_corpus l)) = None \<longleftrightarrow>
      m_source m \<notin> src_id ` set (c_sources (lb_corpus l))"
    unfolding find_None_iff image_iff by metis
  moreover have "parent_of l ids i \<noteq> None \<longleftrightarrow> find (\<lambda>s. src_id s = m_source m) (c_sources (lb_corpus l)) \<noteq> None"
    using assms(2) Some by (simp add: parent_of_def split: option.split)
  ultimately show ?thesis by metis
qed

definition hidden :: "library \<Rightarrow> nat \<Rightarrow> bool" where
  "hidden l i \<longleftrightarrow> list_ex (\<lambda>m. m_id m = i \<and> m_deleted_at m \<noteq> None) (memory_rows l)"

lemma in_holding:
  "(i, k) \<in> holding ids l \<longleftrightarrow>
     (\<exists>m \<in> set (memory_rows l). m_id m \<in> set ids \<and> m_deleted_at m = None \<and> m_id m = i \<and>
       (\<exists>p \<in> set (lb_passages l). ps_memory p = m_id m \<and> ps_ordinal p = k \<and>
         (\<exists>s. tx_content (text_of m l) = Some s \<and> quoted_span s p = chunk_body p)))"
  (is "?lhs \<longleftrightarrow> ?rhs")
proof
  assume ?lhs
  then obtain m p where "m \<in> set (memory_rows l)" "m_id m \<in> set ids" "m_deleted_at m = None"
    "p \<in> set (passages_of (m_id m) l)" "i = ps_memory p" "k = ps_ordinal p"
    "case tx_content (text_of m l) of None \<Rightarrow> False | Some s \<Rightarrow> quoted_span s p = chunk_body p"
    unfolding holding_def by auto
  then show ?rhs by (auto simp: passages_of_def split: option.splits)
next
  assume ?rhs
  then obtain m p s where "m \<in> set (memory_rows l)" "m_id m \<in> set ids" "m_deleted_at m = None" "m_id m = i"
    "p \<in> set (lb_passages l)" "ps_memory p = m_id m" "ps_ordinal p = k"
    "tx_content (text_of m l) = Some s" "quoted_span s p = chunk_body p" by blast
  then show ?lhs unfolding holding_def by (force simp: passages_of_def)
qed

lemma holding_stored:
  assumes "library_inv b l" and "p \<in> set (lb_passages l)" and "ps_memory p \<in> set ids"
  shows "(ps_memory p, ps_ordinal p) \<in> holding ids l \<longleftrightarrow> \<not> hidden l (ps_memory p)"
proof -
  from stored_passage_ok [OF assms(1,2)] obtain m s where m: "memory_get (ps_memory p) l = Some m"
    and s: "tx_content (text_of m l) = Some s" "quoted_span s p = chunk_body p"
    unfolding passage_text_ok_def by blast
  note row = memory_getD [OF m]
  have only: "r = m" if "r \<in> set (memory_rows l)" "m_id r = ps_memory p" for r
    using memory_get_known [OF assms(1) that(1)] that(2) m by simp
  have hidden: "hidden l (ps_memory p) \<longleftrightarrow> m_deleted_at m \<noteq> None"
    unfolding hidden_def list_ex_iff using only row by blast
  show ?thesis
  proof
    assume "(ps_memory p, ps_ordinal p) \<in> holding ids l"
    then obtain r where "r \<in> set (memory_rows l)" "m_deleted_at r = None" "m_id r = ps_memory p"
      unfolding in_holding by blast
    with only [of r] hidden show "\<not> hidden l (ps_memory p)" by simp
  next
    assume "\<not> hidden l (ps_memory p)"
    with hidden have "m_deleted_at m = None" by simp
    moreover have "m_id m \<in> set ids" using assms(3) row(2) by simp
    ultimately show "(ps_memory p, ps_ordinal p) \<in> holding ids l"
      unfolding in_holding using row assms(2) s by metis
  qed
qed

lemma stored_citations:
  assumes inv: "library_inv b l" and ps: "set ps \<subseteq> set (lb_passages l)"
  shows "\<exists>cs. citations_for_chunks ctx (map scored_row ps) l = Inr cs \<and> list_all (faithful l) cs \<and>
           map (\<lambda>c. (ci_memory_id c, ci_chunk_ordinal c)) cs =
             map (\<lambda>p. (ps_memory p, ps_ordinal p)) (filter (\<lambda>p. has_source l (ps_memory p)) ps) \<and>
           unresolved_locators cs l = sort (remdups (map locator (filter (\<lambda>c. hidden l (ci_memory_id c)) cs)))"
proof -
  have ok: "passage_text_ok l p" if "p \<in> set ps" for p using stored_passage_ok [OF inv] ps that by blast
  obtain cs where cs: "citations_for_chunks ctx (map scored_row ps) l = Inr cs" "list_all (faithful l) cs"
    and keys: "map (\<lambda>c. (ci_memory_id c, ci_chunk_ordinal c)) cs =
      map (\<lambda>p. (ps_memory p, ps_ordinal p))
        (filter (\<lambda>p. parent_of l (map sk_memory_id (map scored_row ps)) (ps_memory p) \<noteq> None) ps)"
    using cite_all_stored [of ps l ctx "map sk_memory_id (map scored_row ps)", OF ok] by (auto simp: citations_for_chunks_def)
  have "(ci_memory_id c, ci_chunk_ordinal c) \<notin> holding (map ci_memory_id cs) l \<longleftrightarrow> hidden l (ci_memory_id c)"
    if "c \<in> set cs" for c
  proof -
    have "(ci_memory_id c, ci_chunk_ordinal c) \<in> set (map (\<lambda>c. (ci_memory_id c, ci_chunk_ordinal c)) cs)"
      using that by simp
    then obtain p where "p \<in> set ps" and p: "ci_memory_id c = ps_memory p" "ci_chunk_ordinal c = ps_ordinal p"
      unfolding keys by auto
    with ps that have "p \<in> set (lb_passages l)" "ps_memory p \<in> set (map ci_memory_id cs)"
      by (auto simp: p(1) [symmetric])
    from holding_stored [OF inv this] show ?thesis by (simp add: p)
  qed
  then have "filter (\<lambda>c. (ci_memory_id c, ci_chunk_ordinal c) \<notin> holding (map ci_memory_id cs) l) cs =
             filter (\<lambda>c. hidden l (ci_memory_id c)) cs"
    by (rule filter_cong [OF refl])
  moreover have "filter (\<lambda>p. parent_of l (map sk_memory_id (map scored_row ps)) (ps_memory p) \<noteq> None) ps =
             filter (\<lambda>p. has_source l (ps_memory p)) ps"
    by (rule filter_cong [OF refl], rule parent_of_known [OF inv]) (simp add: scored_row_def chunk_with_score_def)
  ultimately show ?thesis using cs keys by (intro exI [of _ cs]) (simp add: unresolved_locators_def)
qed

text \<open>C11 Citations of stored chunks can be trusted: in every library that syncs, deletions, normalizations and
  embeddings can reach, the citations made from any chunks of it, one for each whose source is known, or from any memories, quote the stored
  text of their memory at their offsets, show that quote inside their context, and are all resolved but
  those of memories that are hidden, which are reported by their locators.\<close>

theorem citations_quote_the_stored_text:
  assumes "reachable_library b b8 nz model me l" and "inj b" and "chunker_port (nz_chunk nz)"
    and "set ps \<subseteq> set (lb_passages l)"
  shows "\<exists>cs ds. citations_for_chunks ctx (map scored_row ps) l = Inr cs \<and>
           citations_for_memories ctx ids l = Inr ds \<and> list_all (faithful l) (cs @ ds) \<and>
           map (\<lambda>c. (ci_memory_id c, ci_chunk_ordinal c)) cs =
             map (\<lambda>p. (ps_memory p, ps_ordinal p)) (filter (\<lambda>p. has_source l (ps_memory p)) ps) \<and>
           unresolved_locators cs l = sort (remdups (map locator (filter (\<lambda>c. hidden l (ci_memory_id c)) cs))) \<and>
           unresolved_locators ds l = sort (remdups (map locator (filter (\<lambda>c. hidden l (ci_memory_id c)) ds)))"
proof -
  have inv: "library_inv b l" by (rule reachable_library_inv [OF assms(1-3)])
  obtain qs where qs: "opening_chunks (keep_first ids) l = map scored_row qs" "set qs \<subseteq> set (lb_passages l)"
    using opening_chunks_stored by blast
  from stored_citations [OF inv qs(2), of ctx] obtain ds where
    "citations_for_memories ctx ids l = Inr ds" "list_all (faithful l) ds"
    "unresolved_locators ds l = sort (remdups (map locator (filter (\<lambda>c. hidden l (ci_memory_id c)) ds)))"
    by (cases "keep_first ids = []") (auto simp: citations_for_memories_def qs(1) unresolved_locators_def)
  with stored_citations [OF inv assms(4), of ctx] show ?thesis by auto
qed


text \<open>The check of an answer's citations looks a citation up by its memory and its ordinal only: whatever
  excerpt and offsets a citation carries, it counts as resolved as soon as the visible memory has a chunk of
  that ordinal. A citation that was made from another text of the memory is not found out.\<close>

theorem resolution_ignores_the_quotation:
  assumes "reachable_library b b8 nz model me l" and "inj b" and "chunker_port (nz_chunk nz)"
    and "p \<in> set (lb_passages l)" and "\<not> hidden l (ps_memory p)"
    and "ci_memory_id c = ps_memory p" and "ci_chunk_ordinal c = ps_ordinal p"
  shows "unresolved_locators [c\<lparr> ci_excerpt := quotation, ci_char_start := i, ci_char_end := j \<rparr>] l = []"
  using holding_stored [OF reachable_library_inv [OF assms(1-3)] assms(4), of "[ps_memory p]"] assms(5-7)
  by (simp add: unresolved_locators_def)

section \<open>The sweep\<close>

definition drift :: "library \<Rightarrow> memory \<times> passage \<Rightarrow> bool" where
  "drift l row \<longleftrightarrow>
     (case tx_content (text_of (fst row) l) of
        None \<Rightarrow> False
      | Some s \<Rightarrow> quoted_span s (snd row) \<noteq> chunk_body (snd row))"

lemma check_rows_result:
  "check_rows l rows bad n = (bad', n') \<Longrightarrow>
     map (\<lambda>x. (mi_memory_id x, mi_ordinal x)) bad' =
       map (\<lambda>x. (mi_memory_id x, mi_ordinal x)) bad @ map (\<lambda>(m, p). (m_id m, ps_ordinal p)) (filter (drift l) rows) \<and>
     n' = n + row_count (\<lambda>(m, _). tx_content (text_of m l) = None) rows"
proof (induction l rows bad n rule: check_rows.induct)
  case (2 l m p rows bad n)
  then show ?case
    by (auto simp: drift_def check_row_def Let_def row_count_def split: option.splits if_splits)
qed (simp add: row_count_def)

lemma in_citable_rows:
  "(m, p) \<in> set (citable_rows ids l) \<longleftrightarrow>
     m \<in> set (memory_rows l) \<and> m_is_current m \<and> m_deleted_at m = None \<and>
     (case ids of None \<Rightarrow> True | Some is \<Rightarrow> m_id m \<in> set is) \<and> p \<in> set (lb_passages l) \<and> ps_memory p = m_id m"
  by (auto simp: citable_rows_def passages_of_def)

text \<open>The sweep reports exactly the drift: in any library, whatever has happened to it, the mismatches of the
  report are, in order, the chunks of visible current memories whose body is not the memory's text at their
  offsets, and rows without a text to check against are counted and not passed over.\<close>

theorem sweep_reports_exactly_the_drift:
  "map (\<lambda>x. (mi_memory_id x, mi_ordinal x)) (cr_mismatches (verify_citations ids l)) =
     map (\<lambda>(m, p). (m_id m, ps_ordinal p)) (filter (drift l) (citable_rows ids l)) \<and>
   cr_unverifiable (verify_citations ids l) =
     row_count (\<lambda>(m, _). tx_content (text_of m l) = None) (citable_rows ids l) \<and>
   cr_checked (verify_citations ids l) = length (citable_rows ids l)"
  using check_rows_result [of l "citable_rows ids l" "[]" 0]
  by (auto simp: verify_citations_def Let_def split: prod.splits)

text \<open>And it passes where the program alone has been at work: in every library it can reach the sweep finds
  no mismatch and nothing it cannot verify.\<close>

theorem sweep_passes_on_reachable_libraries:
  assumes "reachable_library b b8 nz model me l" and "inj b" and "chunker_port (nz_chunk nz)"
  shows "report_ok (verify_citations ids l) \<and> cr_unverifiable (verify_citations ids l) = 0"
proof -
  have inv: "library_inv b l" by (rule reachable_library_inv [OF assms])
  have row: "\<not> drift l (m, p) \<and> tx_content (text_of m l) \<noteq> None" if "(m, p) \<in> set (citable_rows ids l)" for m p
  proof -
    from that have m: "m \<in> set (memory_rows l)" and p: "p \<in> set (lb_passages l)" "ps_memory p = m_id m"
      by (simp_all add: in_citable_rows)
    from stored_passage_ok [OF inv p(1)] obtain s where "tx_content (text_of m l) = Some s" "quoted_span s p = chunk_body p"
      unfolding passage_text_ok_def p(2) memory_get_known [OF inv m] by blast
    then show ?thesis by (simp add: drift_def)
  qed
  obtain bad n where run: "check_rows l (citable_rows ids l) [] 0 = (bad, n)" by force
  have "filter (drift l) (citable_rows ids l) = []"
    using row by (auto simp: filter_empty_conv)
  moreover have "row_count (\<lambda>(m, _). tx_content (text_of m l) = None) (citable_rows ids l) = 0"
    using row by (auto simp: row_count_0_iff)
  ultimately have "bad = []" "n = 0" using check_rows_result [OF run] by simp_all
  then show ?thesis by (simp add: verify_citations_def Let_def run report_ok_def)
qed

section \<open>The hypotheses hold\<close>

lemma store_sources:
  "atomically (store b nz now m pd h chunks) l = (Inr (), l') \<Longrightarrow> c_sources (lb_corpus l') = c_sources (lb_corpus l)"
  by (auto simp: atomically_def store_def Let_def set_passages_def split: option.splits if_splits prod.splits sum.splits)

lemma sample_library_sourced: "has_source sample_library 1" and sample_library_visible: "\<not> hidden sample_library 1"
proof -
  let ?m = "hd (c_memories sample_synced)" and ?l = "plain sample_synced"
  have get: "memory_get 1 ?l = Some ?m"
    by (simp add: memory_get_def memory_rows_def plain_def sample_synced_def)
  have pd: "parse_memory sample_normalizer ?m ?l = Inr sample_document"
    by (simp add: parse_memory_def plain_def sample_synced_def sample_normalizer_def parse_with_def for_item_def)
  obtain rep where "normalize (\<lambda>s. s) sample_normalizer undisturbed 0 1 ?l = (Inr rep, sample_library)"
    "nr_outcome rep = CHUNKED"
    using sample_normalization_runs unfolding sample_normalization_def by blast
  then obtain "atomically (store (\<lambda>s. s) sample_normalizer 0 ?m sample_document
      (normalized_hash (\<lambda>s. s) (pd_text sample_document)) (nz_chunk sample_normalizer sample_document)) ?l =
      (Inr (), sample_library)"
    by (cases rule: normalize_Inr) (use get pd in auto)
  from store_sources [OF this] have "src_id ` set (c_sources (lb_corpus sample_library)) = {src_id sample_source}"
    by (simp add: plain_def sample_synced_def)
  then show "has_source sample_library 1"
    by (simp add: has_source_def sample_library_facts(1)) (simp add: sample_synced_def sample_source_def)
  show "\<not> hidden sample_library 1"
    by (simp add: hidden_def sample_library_facts(1)) (simp add: sample_synced_def)
qed

theorem citations_quote_the_stored_text_witness:
  "\<exists>cs ds. citations_for_chunks 20 (map scored_row (lb_passages sample_library)) sample_library = Inr cs \<and>
     citations_for_memories 20 [1] sample_library = Inr ds \<and> list_all (faithful sample_library) (cs @ ds) \<and>
     length cs = length (lb_passages sample_library) \<and> cs \<noteq> [] \<and> unresolved_locators cs sample_library = []"
proof -
  have "filter (\<lambda>p. has_source sample_library (ps_memory p)) (lb_passages sample_library) = lb_passages sample_library"
    using sample_library_facts(4) sample_library_sourced by (metis (no_types, lifting) filter_True)
  with citations_quote_the_stored_text [OF sample_library_reachable inj_same sample_port order_refl, of 20 "[1]"]
  obtain cs ds where "citations_for_chunks 20 (map scored_row (lb_passages sample_library)) sample_library = Inr cs"
    "citations_for_memories 20 [1] sample_library = Inr ds" "list_all (faithful sample_library) (cs @ ds)"
    and keys: "map (\<lambda>c. (ci_memory_id c, ci_chunk_ordinal c)) cs =
      map (\<lambda>p. (ps_memory p, ps_ordinal p)) (lb_passages sample_library)"
    and un: "unresolved_locators cs sample_library =
      sort (remdups (map locator (filter (\<lambda>c. hidden sample_library (ci_memory_id c)) cs)))" by auto
  moreover from keys have len: "length cs = length (lb_passages sample_library)" by (metis length_map)
  moreover from len have "cs \<noteq> []" using sample_library_facts(3) by auto
  moreover have "\<not> hidden sample_library (ci_memory_id c)" if "c \<in> set cs" for c
  proof -
    have "(ci_memory_id c, ci_chunk_ordinal c) \<in> set (map (\<lambda>p. (ps_memory p, ps_ordinal p)) (lb_passages sample_library))"
      unfolding keys [symmetric] using that by simp
    then show ?thesis using sample_library_facts(4) sample_library_visible by auto
  qed
  then have "filter (\<lambda>c. hidden sample_library (ci_memory_id c)) cs = []" by simp
  with un have "unresolved_locators cs sample_library = []" by simp
  ultimately show ?thesis by blast
qed

theorem resolution_ignores_the_quotation_witness:
  "\<exists>c. \<not> faithful sample_library c \<and> ci_excerpt c = ''never said'' \<and> unresolved_locators [c] sample_library = []"
proof -
  obtain p where p: "p \<in> set (lb_passages sample_library)"
    using sample_library_facts(3) by (cases "lb_passages sample_library") auto
  then have vis: "\<not> hidden sample_library (ps_memory p)" using sample_library_facts(4) sample_library_visible by metis
  let ?c = "\<lparr> ci_memory_id = ps_memory p, ci_source_name = [], ci_external_key = [], ci_chunk_ordinal = ps_ordinal p,
    ci_char_start = 0, ci_char_end = 0, ci_prefix_chars = 0, ci_excerpt = [], ci_definition = None,
    ci_occurred_at = None, ci_version = 1, ci_context = None \<rparr>"
  from resolution_ignores_the_quotation [OF sample_library_reachable inj_same sample_port p vis, of ?c 0 0 "''never said''"]
  have "unresolved_locators [?c\<lparr> ci_excerpt := ''never said'' \<rparr>] sample_library = []" by simp
  moreover have "\<not> faithful sample_library (?c\<lparr> ci_excerpt := ''never said'' \<rparr>)" by (simp add: faithful_def)
  ultimately show ?thesis by (intro exI [of _ "?c\<lparr> ci_excerpt := ''never said'' \<rparr>"]) simp
qed

theorem sweep_passes_on_reachable_libraries_witness: "report_ok (verify_citations None sample_library)"
  using sweep_passes_on_reachable_libraries [OF sample_library_reachable inj_same sample_port, of None] by blast

end
