(* ===== verification/Agent.thy ===== *)
theory Agent
  imports Citation Timing
begin

text \<open>
  The multi-hop agent: \<^verbatim>\<open>application/agent/tools.py\<close>, \<^verbatim>\<open>compaction.py\<close> and \<^verbatim>\<open>planner.py\<close>, with the types
  of \<^verbatim>\<open>application/ports.py\<close> they pass around. Tools and the language model are parameters: what they
  answer may depend on how often they were called before. Values of arguments are a type parameter with
  its \<^verbatim>\<open>repr\<close>. The fixed texts are the program's; a dash and an ellipsis outside Latin-1 are stood for by one
  character each. Durations and log lines are left out.
\<close>

section \<open>Tools\<close>

record tool_spec =
  ts_name :: string
  ts_description :: string

record tool_result =
  tr_content :: string
  tr_citations :: "citation list"
  tr_truncated :: bool

record 'v tool_call =
  cl_id :: string
  cl_name :: string
  cl_arguments :: "(string \<times> 'v) list"

datatype tool_failure = UnknownTool string | ToolRaised string string

record 'v tool =
  tl_spec :: tool_spec
  tl_validate :: "(string \<times> 'v) list \<Rightarrow> string + (string \<times> 'v) list"
  tl_call :: "nat \<Rightarrow> (string \<times> 'v) list \<Rightarrow> tool_failure + tool_result"

type_synonym 'v tool_registry = "(string \<times> 'v tool) list"

definition said :: "string \<Rightarrow> tool_result" where
  "said content = \<lparr> tr_content = content, tr_citations = [], tr_truncated = False \<rparr>"

definition register :: "'v tool \<Rightarrow> 'v tool_registry \<Rightarrow> 'v tool_registry result" where
  "register t tools =
     (if ts_name (tl_spec t) \<in> fst ` set tools then Inl ValueError
      else Inr (tools @ [(ts_name (tl_spec t), t)]))"

definition registry_specs :: "'v tool_registry \<Rightarrow> tool_spec list" where
  "registry_specs tools = map (\<lambda>(_, t). tl_spec t) tools"

definition unknown_tool_message :: "(string \<Rightarrow> string) \<Rightarrow> string \<Rightarrow> string list \<Rightarrow> string" where
  "unknown_tool_message repr_name name known =
     ''no tool named '' @ repr_name name @ ''; registered tools are: '' @
     (if known = [] then ''none'' else join '', '' (sort known))"

definition registry_call ::
  "(string \<Rightarrow> string) \<Rightarrow> 'v tool_registry \<Rightarrow> nat \<Rightarrow> string \<Rightarrow> (string \<times> 'v) list
   \<Rightarrow> tool_failure + tool_result" where
  "registry_call repr_name tools k name args =
     (case map_of tools name of
        None \<Rightarrow> Inl (UnknownTool (unknown_tool_message repr_name name (map fst tools)))
      | Some t \<Rightarrow>
          (case tl_validate t args of
             Inl problems \<Rightarrow>
               Inr (said (''The arguments for '' @ name @ '' were not valid: '' @ problems @
                          ''. Call it again with corrected arguments.''))
           | Inr validated \<Rightarrow> tl_call t k validated))"

section \<open>Steps and their compaction\<close>

record 'v agent_step =
  st_thought :: string
  st_tool :: "string option"
  st_args :: "(string \<times> 'v) list"
  st_result :: "tool_result option"
  st_call_id :: string
  st_novel :: bool
  st_prompt_tokens :: nat
  st_completion_tokens :: nat

record 'v finding =
  fi_hop :: nat
  fi_tool :: string
  fi_arguments :: "(string \<times> 'v) list"
  fi_thought :: string
  fi_summary :: string
  fi_locators :: "string list"
  fi_truncated :: bool

record 'v compacted =
  cm_findings :: "'v finding list"
  cm_verbatim :: "'v agent_step list"
  cm_verbatim_from :: nat
  cm_dropped :: nat
  cm_tokens :: nat

definition FINDING_CHARS :: nat where "FINDING_CHARS = 420"

definition FINDING_LOCATORS :: nat where "FINDING_LOCATORS = 4"

definition ELLIPSIS :: char where "ELLIPSIS = CHR 0xA6"

definition DASH :: char where "DASH = CHR 0xAD"

definition MIDDLE_DOT :: char where "MIDDLE_DOT = CHR 0xB7"

definition offset_of :: "char \<Rightarrow> string \<Rightarrow> int" where
  "offset_of c s = (case rfind_char c s of None \<Rightarrow> -1 | Some i \<Rightarrow> int i)"

definition head_of :: "string \<Rightarrow> nat \<Rightarrow> string" where
  "head_of passage limit =
     (let stripped = strip passage
      in if length stripped \<le> limit then stripped
         else
           let window = take limit stripped;
               cut = max (offset_of newline window) (offset_of (CHR '' '') window)
           in rstrip (if int (limit div 2) < cut then take (nat cut) window else window) @ [CHR '' '', ELLIPSIS])"

definition render_args :: "('v \<Rightarrow> string) \<Rightarrow> (string \<times> 'v) list \<Rightarrow> string" where
  "render_args repr args = join '', '' (map (\<lambda>(name, v). name @ ''='' @ repr v) (sort_key fst args))"

definition render_finding :: "('v \<Rightarrow> string) \<Rightarrow> 'v finding \<Rightarrow> string" where
  "render_finding repr f =
     join [newline]
       ([''hop '' @ show_nat (fi_hop f) @ [CHR '' '', MIDDLE_DOT, CHR '' ''] @ fi_tool f @ ''('' @
           render_args repr (fi_arguments f) @ '')''] @
        (if fi_thought f \<noteq> [] then [''    you said: '' @ fi_thought f] else []) @
        [''    returned: '' @ fi_summary f] @
        (if fi_truncated f
         then [''    (that result was truncated '' @ [DASH] @ '' there was more)''] else []) @
        (if fi_locators f \<noteq> [] then [''    sources: '' @ join ''; '' (fi_locators f)] else []))"

definition render_history :: "('v \<Rightarrow> string) \<Rightarrow> 'v compacted \<Rightarrow> string" where
  "render_history repr h =
     (if cm_findings h = [] \<and> cm_dropped h = 0 then []
      else join [newline]
             (map (render_finding repr) (cm_findings h) @
              (if cm_dropped h \<noteq> 0
               then [''('' @ show_nat (cm_dropped h) @ '' earlier finding(s) dropped for space. What you '' @
                     ''have here is not everything you found.)'']
               else [])))"

definition finding_of :: "'v agent_step \<Rightarrow> nat \<Rightarrow> string \<Rightarrow> tool_result \<Rightarrow> 'v finding" where
  "finding_of s hop tool_name r =
     \<lparr> fi_hop = hop, fi_tool = tool_name, fi_arguments = st_args s, fi_thought = head_of (st_thought s) 200,
       fi_summary = head_of (tr_content r) FINDING_CHARS,
       fi_locators = map locator (take FINDING_LOCATORS (tr_citations r)), fi_truncated = tr_truncated r \<rparr>"

definition acted :: "'v agent_step \<Rightarrow> bool" where
  "acted s \<longleftrightarrow> st_tool s \<noteq> None \<and> st_result s \<noteq> None"

fun findings_from :: "nat \<Rightarrow> 'v agent_step list \<Rightarrow> 'v finding list result" where
  "findings_from hop [] = Inr []"
| "findings_from hop (s # steps) =
     (case (st_tool s, st_result s) of
        (Some tool_name, Some r) \<Rightarrow>
          bind_result (findings_from (hop + 1) steps) (\<lambda>fs. Inr (finding_of s hop tool_name r # fs))
      | _ \<Rightarrow> Inl AssertionError)"

text \<open>The loop takes the candidates newest first and hands them back oldest first.\<close>

fun keep_findings ::
  "('v finding \<Rightarrow> nat) \<Rightarrow> nat \<Rightarrow> 'v finding list \<Rightarrow> 'v finding list \<Rightarrow> nat \<Rightarrow> nat
   \<Rightarrow> 'v finding list \<times> nat \<times> nat" where
  "keep_findings cost budget [] kept used dropped = (rev kept, used, dropped)"
| "keep_findings cost budget (f # fs) kept used dropped =
     (if budget < used + cost f then keep_findings cost budget fs kept used (dropped + 1)
      else keep_findings cost budget fs (kept @ [f]) (used + cost f) dropped)"

definition compact_steps ::
  "('v \<Rightarrow> string) \<Rightarrow> (string \<Rightarrow> nat) \<Rightarrow> int \<Rightarrow> nat \<Rightarrow> 'v agent_step list \<Rightarrow> 'v compacted result" where
  "compact_steps repr count_tokens budget keep_verbatim steps =
     (if budget \<le> 0 then Inl ValueError
      else
        let done_steps = filter acted steps;
            verbatim = (if keep_verbatim \<noteq> 0 then drop (length done_steps - keep_verbatim) done_steps else []);
            older = take (length done_steps - length verbatim) done_steps
        in bind_result (findings_from 1 older) (\<lambda>candidates.
             case keep_findings (\<lambda>f. count_tokens (render_finding repr f)) (nat budget) (rev candidates) [] 0 0 of
               (kept, used, dropped) \<Rightarrow>
                 Inr \<lparr> cm_findings = kept, cm_verbatim = verbatim, cm_verbatim_from = length older + 1,
                       cm_dropped = dropped, cm_tokens = used \<rparr>))"

end
