(* ===== verification/Planner.thy ===== *)
theory Planner
  imports Agent
begin

text \<open>
  The loop of the agent, \<^verbatim>\<open>application/agent/planner.py\<close>. A provider call is numbered: \<open>pe_converse n\<close> is what
  the model answers to the n-th call of a run and \<open>pe_rand n\<close> the jitter drawn after it. Besides the trajectory a
  run returns how many provider calls it made and how many seconds it slept between them. The instructions,
  which name the day, are a parameter.
\<close>

section \<open>The model\<close>

record 'v model_turn =
  mt_text :: string
  mt_tool_calls :: "'v tool_call list"
  mt_prompt_tokens :: nat
  mt_completion_tokens :: nat

record 'v tool_exchange =
  te_call :: "'v tool_call"
  te_result :: string

record 'v conversation =
  cv_instructions :: string
  cv_user :: string
  cv_tools :: "tool_spec list"
  cv_exchanges :: "'v tool_exchange list"
  cv_max_tokens :: nat

text \<open>An exception of the adapter with its message and its \<^verbatim>\<open>retry_after\<close>.\<close>

datatype model_failure =
    TransientFailure string "pyfloat option" | PermanentFailure string "pyfloat option"

fun failure_message :: "model_failure \<Rightarrow> string" where
  "failure_message (TransientFailure message advised) = message"
| "failure_message (PermanentFailure message advised) = message"

fun retry_advice :: "model_failure \<Rightarrow> pyfloat option" where
  "retry_advice (TransientFailure message advised) = advised"
| "retry_advice (PermanentFailure message advised) = advised"

record 'v planner_env =
  pe_instructions :: string
  pe_converse :: "nat \<Rightarrow> 'v conversation \<Rightarrow> model_failure + 'v model_turn"
  pe_rand :: "nat \<Rightarrow> pyfloat"
  pe_registry :: "'v tool_registry"
  pe_count_tokens :: "string \<Rightarrow> nat"
  pe_repr :: "'v \<Rightarrow> string"
  pe_repr_name :: "string \<Rightarrow> string"
  pe_sha256 :: "string \<Rightarrow> string"
  pe_max_hops :: int
  pe_finding_budget :: int
  pe_max_tokens :: nat

definition DEFAULT_MAX_HOPS :: int where "DEFAULT_MAX_HOPS = 6"

definition DEFAULT_FINDING_BUDGET :: int where "DEFAULT_FINDING_BUDGET = 1200"

definition STALE_LIMIT :: nat where "STALE_LIMIT = 2"

definition RETRY_ATTEMPTS :: nat where "RETRY_ATTEMPTS = 5"

definition RETRY_CEILING_SECONDS :: pyfloat where "RETRY_CEILING_SECONDS = 30"

type_synonym telemetry = "nat \<times> pyfloat"

fun converse_attempts ::
  "'v planner_env \<Rightarrow> 'v conversation \<Rightarrow> nat list \<Rightarrow> telemetry
   \<Rightarrow> (model_failure + 'v model_turn) result \<times> telemetry" where
  "converse_attempts env cv [] (n, slept) = (Inl AssertionError, n, slept)"
| "converse_attempts env cv (attempt # attempts) (n, slept) =
     (case pe_converse env n cv of
        Inr turn \<Rightarrow> (Inr (Inr turn), n + 1, slept)
      | Inl (PermanentFailure message advised) \<Rightarrow> (Inr (Inl (PermanentFailure message advised)), n + 1, slept)
      | Inl (TransientFailure message advised) \<Rightarrow>
          let delay = wait_for advised attempt (pe_rand env n)
          in if attempt = RETRY_ATTEMPTS - 1 \<or> RETRY_CEILING_SECONDS < delay
             then (Inr (Inl (TransientFailure message advised)), n + 1, slept)
             else converse_attempts env cv attempts (n + 1, slept + delay))"

definition planner_converse ::
  "'v planner_env \<Rightarrow> string \<Rightarrow> tool_spec list \<Rightarrow> 'v tool_exchange list \<Rightarrow> telemetry
   \<Rightarrow> (model_failure + 'v model_turn) result \<times> telemetry" where
  "planner_converse env user specs exchanges =
     converse_attempts env
       \<lparr> cv_instructions = pe_instructions env, cv_user = user, cv_tools = specs, cv_exchanges = exchanges,
         cv_max_tokens = pe_max_tokens env \<rparr> [0..<RETRY_ATTEMPTS]"

section \<open>Messages\<close>

definition NL2 :: string where "NL2 = [newline, newline]"

definition user_message :: "('v \<Rightarrow> string) \<Rightarrow> string \<Rightarrow> 'v compacted \<Rightarrow> nat \<Rightarrow> nat \<Rightarrow> string" where
  "user_message repr question history hop limit =
     (let remaining = limit - hop + 1; rendered = render_history repr history
      in join NL2
           ([question] @
            (if rendered \<noteq> [] then [''What you have found so far:'' @ NL2 @ rendered] else []) @
            (if cm_verbatim history \<noteq> []
             then [''The most recent result(s) follow in full below, as tool messages.''] else []) @
            [''Hop '' @ show_nat hop @ '' of '' @ show_nat limit @ ''. '' @
             (if remaining = 1 then ''This is your last hop: answer now, from what you have.''
              else show_nat remaining @ '' hops remain. Call one tool, or answer if you have enough.'')]))"

definition exchanges_of :: "'v compacted \<Rightarrow> 'v tool_exchange list" where
  "exchanges_of history =
     map (\<lambda>s. \<lparr> te_call = \<lparr> cl_id = (if st_call_id s \<noteq> [] then st_call_id s else the_default [] (st_tool s)),
                             cl_name = the_default [] (st_tool s), cl_arguments = st_args s \<rparr>,
                 te_result = (case st_result s of None \<Rightarrow> [] | Some r \<Rightarrow> tr_content r) \<rparr>)
       (cm_verbatim history)"

definition render_verbatim :: "'v compacted \<Rightarrow> string" where
  "render_verbatim history =
     join NL2 (concat (map (\<lambda>(hop, s).
       case st_result s of
         None \<Rightarrow> []
       | Some r \<Rightarrow> [''hop '' @ show_nat hop @ [CHR '' '', MIDDLE_DOT, CHR '' ''] @ the_default ''None'' (st_tool s) @
                   '':'' @ [newline] @ tr_content r])
       (enumerate (cm_verbatim_from history) (cm_verbatim history))))"

datatype stop_reason = ANSWERED | HOP_LIMIT | NO_NEW_INFORMATION | CONFIDENCE | STOP_ERROR

definition why :: "stop_reason \<Rightarrow> string" where
  "why stop =
     (case stop of
        HOP_LIMIT \<Rightarrow> ''you have used every hop you were given''
      | NO_NEW_INFORMATION \<Rightarrow> ''your last two calls returned nothing you had not already seen''
      | _ \<Rightarrow> ''the loop has ended'')"

definition final_message :: "string \<Rightarrow> string \<Rightarrow> stop_reason \<Rightarrow> string" where
  "final_message question history stop =
     question @ NL2 @ history @ NL2 @ ''You have no more hops: '' @ why stop @
     ''. Answer the question now from what you gathered above, and nothing else, marking each factual '' @
     ''sentence with the hop it came from in brackets. If what you gathered does not answer it, say exactly '' @
     ''that and say what is missing '' @ [DASH] @ '' an honest \"the corpus does not contain this\" is correct '' @
     ''and a confident synthesis of four weak results is not.''"

section \<open>One hop\<close>

record 'v trajectory =
  tj_question :: string
  tj_steps :: "'v agent_step list"
  tj_answer :: "string option"
  tj_stopped_because :: stop_reason
  tj_citations :: "citation list"
  tj_model_calls :: nat
  tj_prompt_tokens :: nat
  tj_completion_tokens :: nat
  tj_error :: "string option"
  tj_retry_after :: "pyfloat option"

definition hops_of :: "'v trajectory \<Rightarrow> nat" where
  "hops_of t = row_count (\<lambda>s. st_tool s \<noteq> None) (tj_steps t)"

definition truncated :: "'v trajectory \<Rightarrow> bool" where
  "truncated t \<longleftrightarrow> list_ex (\<lambda>s. case st_result s of None \<Rightarrow> False | Some r \<Rightarrow> tr_truncated r) (tj_steps t)"

record 'v loop_state =
  ls_steps :: "'v agent_step list"
  ls_memories :: "nat set"
  ls_digests :: "string set"
  ls_stale :: nat
  ls_calls :: nat
  ls_prompt_tokens :: nat
  ls_completion_tokens :: nat
  ls_telemetry :: telemetry

fun split_spaces :: "string \<Rightarrow> string list" where
  "split_spaces [] = [[]]"
| "split_spaces (c # cs) =
     (if is_space c then [] # split_spaces cs
      else case split_spaces cs of [] \<Rightarrow> [[c]] | w # ws \<Rightarrow> (c # w) # ws)"

definition signature :: "(string \<Rightarrow> string) \<Rightarrow> tool_result \<Rightarrow> nat set \<times> string" where
  "signature sha256 r =
     (ci_memory_id ` set (tr_citations r),
      sha256 (join '' '' (filter (\<lambda>w. w \<noteq> []) (split_spaces (tr_content r)))))"

definition call_tool :: "'v planner_env \<Rightarrow> nat \<Rightarrow> 'v tool_call \<Rightarrow> nat \<Rightarrow> tool_result" where
  "call_tool env k call extra =
     (let note = (if extra = 0 then []
                  else NL2 @ ''(You asked for '' @ show_nat extra @ '' more tool call(s) in the same turn. '' @
                       ''Only the first runs. Ask for the others one at a time.)'')
      in case registry_call (pe_repr_name env) (pe_registry env) k (cl_name call) (cl_arguments call) of
           Inl (UnknownTool message) \<Rightarrow> said (message @ ''. Call one of those instead.'' @ note)
         | Inl (ToolRaised kind message) \<Rightarrow>
             said (cl_name call @ '' failed: '' @ kind @ '': '' @ message @ ''. That is a fault in the tool '' @
                   ''rather than in your arguments '' @ [DASH] @ '' use a different tool, or answer without it.'' @ note)
         | Inr r \<Rightarrow> if note = [] then r else r\<lparr> tr_content := tr_content r @ note \<rparr>)"

definition step_of :: "'v model_turn \<Rightarrow> 'v tool_call \<Rightarrow> tool_result \<Rightarrow> bool \<Rightarrow> 'v agent_step" where
  "step_of turn call r novel =
     \<lparr> st_thought = mt_text turn, st_tool = Some (cl_name call), st_args = cl_arguments call, st_result = Some r,
       st_call_id = cl_id call, st_novel = novel, st_prompt_tokens = mt_prompt_tokens turn,
       st_completion_tokens = mt_completion_tokens turn \<rparr>"

definition answer_step :: "'v model_turn \<Rightarrow> 'v agent_step" where
  "answer_step turn =
     \<lparr> st_thought = mt_text turn, st_tool = None, st_args = [], st_result = None, st_call_id = [],
       st_novel = True, st_prompt_tokens = mt_prompt_tokens turn,
       st_completion_tokens = mt_completion_tokens turn \<rparr>"

definition is_novel :: "nat set \<Rightarrow> string \<Rightarrow> 'v loop_state \<Rightarrow> bool" where
  "is_novel memories digest st =
     (if memories \<noteq> {} then memories - ls_memories st \<noteq> {} else digest \<notin> ls_digests st)"

definition record_call :: "'v planner_env \<Rightarrow> 'v model_turn \<Rightarrow> 'v tool_call \<Rightarrow> 'v loop_state \<Rightarrow> 'v loop_state" where
  "record_call env turn call st =
     (let r = call_tool env (length (ls_steps st)) call (length (mt_tool_calls turn) - 1);
          (memories, digest) = signature (pe_sha256 env) r;
          novel = is_novel memories digest st
      in st\<lparr> ls_steps := ls_steps st @ [step_of turn call r novel],
             ls_memories := ls_memories st \<union> memories, ls_digests := insert digest (ls_digests st),
             ls_stale := (if novel then 0 else ls_stale st + 1) \<rparr>)"

definition count_turn :: "'v model_turn \<Rightarrow> 'v loop_state \<Rightarrow> 'v loop_state" where
  "count_turn turn st =
     st\<lparr> ls_calls := ls_calls st + 1, ls_prompt_tokens := ls_prompt_tokens st + mt_prompt_tokens turn,
         ls_completion_tokens := ls_completion_tokens st + mt_completion_tokens turn \<rparr>"

fun unique_citations :: "string set \<Rightarrow> citation list \<Rightarrow> citation list" where
  "unique_citations seen [] = []"
| "unique_citations seen (c # cs) =
     (if locator c \<in> seen then unique_citations seen cs
      else c # unique_citations (insert (locator c) seen) cs)"

definition cited_by :: "'v agent_step list \<Rightarrow> citation list" where
  "cited_by steps = concat (map (\<lambda>s. case st_result s of None \<Rightarrow> [] | Some r \<Rightarrow> tr_citations r) steps)"

definition finish ::
  "string \<Rightarrow> 'v loop_state \<Rightarrow> string option \<Rightarrow> stop_reason \<Rightarrow> string option \<Rightarrow> pyfloat option \<Rightarrow> 'v trajectory" where
  "finish question st answer stop error advised =
     \<lparr> tj_question = question, tj_steps = ls_steps st, tj_answer = answer, tj_stopped_because = stop,
       tj_citations = unique_citations {} (cited_by (ls_steps st)), tj_model_calls = ls_calls st,
       tj_prompt_tokens = ls_prompt_tokens st, tj_completion_tokens = ls_completion_tokens st,
       tj_error = error, tj_retry_after = advised \<rparr>"

section \<open>The loop\<close>

type_synonym 'v run_result = "'v trajectory result \<times> telemetry"

definition conclude :: "'v planner_env \<Rightarrow> string \<Rightarrow> stop_reason \<Rightarrow> 'v loop_state \<Rightarrow> 'v run_result" where
  "conclude env question stop st =
     (case compact_steps (pe_repr env) (pe_count_tokens env) (pe_finding_budget env) 2 (ls_steps st) of
        Inl e \<Rightarrow> (Inl e, ls_telemetry st)
      | Inr history \<Rightarrow>
          let parts = filter (\<lambda>p. p \<noteq> []) [render_history (pe_repr env) history, render_verbatim history];
              rendered = (if join NL2 parts \<noteq> [] then join NL2 parts else ''You gathered nothing.'')
          in case planner_converse env (final_message question rendered stop) [] [] (ls_telemetry st) of
               (Inl e, tel) \<Rightarrow> (Inl e, tel)
             | (Inr (Inl _), tel) \<Rightarrow>
                 (Inr (finish question st None STOP_ERROR (Some ''the final answer call failed'') None), tel)
             | (Inr (Inr turn), tel) \<Rightarrow>
                 (Inr (finish question (count_turn turn st) (Some (mt_text turn)) stop None None), tel))"

fun run_hops ::
  "'v planner_env \<Rightarrow> string \<Rightarrow> nat \<Rightarrow> nat list \<Rightarrow> 'v loop_state \<Rightarrow> 'v run_result" where
  "run_hops env question limit [] st = conclude env question HOP_LIMIT st"
| "run_hops env question limit (hop # hops) st =
     (case compact_steps (pe_repr env) (pe_count_tokens env) (pe_finding_budget env) 2 (ls_steps st) of
        Inl e \<Rightarrow> (Inl e, ls_telemetry st)
      | Inr history \<Rightarrow>
          (case planner_converse env (user_message (pe_repr env) question history hop limit)
                  (registry_specs (pe_registry env)) (exchanges_of history) (ls_telemetry st) of
             (Inl e, tel) \<Rightarrow> (Inl e, tel)
           | (Inr (Inl failure), tel) \<Rightarrow>
               (Inr (finish question st None STOP_ERROR (Some (failure_message failure)) (retry_advice failure)), tel)
           | (Inr (Inr turn), tel) \<Rightarrow>
               let st1 = (count_turn turn st)\<lparr> ls_telemetry := tel \<rparr>
               in case mt_tool_calls turn of
                    [] \<Rightarrow>
                      let stop = (if list_ex (\<lambda>s. st_tool s \<noteq> None \<and> st_tool s \<noteq> Some []) (ls_steps st1)
                                  then CONFIDENCE else ANSWERED)
                      in (Inr (finish question (st1\<lparr> ls_steps := ls_steps st1 @ [answer_step turn] \<rparr>)
                                 (Some (mt_text turn)) stop None None), tel)
                  | call # _ \<Rightarrow>
                      let st2 = record_call env turn call st1
                      in if STALE_LIMIT \<le> ls_stale st2 then conclude env question NO_NEW_INFORMATION st2
                         else run_hops env question limit hops st2))"

definition init_loop :: "'v loop_state" where
  "init_loop = \<lparr> ls_steps = [], ls_memories = {}, ls_digests = {}, ls_stale = 0, ls_calls = 0,
                 ls_prompt_tokens = 0, ls_completion_tokens = 0, ls_telemetry = (0, 0) \<rparr>"

definition hop_limit :: "'v planner_env \<Rightarrow> int option \<Rightarrow> nat" where
  "hop_limit env max_hops = nat (case max_hops of None \<Rightarrow> pe_max_hops env | Some n \<Rightarrow> max 1 n)"

definition run :: "'v planner_env \<Rightarrow> string \<Rightarrow> int option \<Rightarrow> 'v run_result" where
  "run env question max_hops =
     run_hops env question (hop_limit env max_hops) [1..<hop_limit env max_hops + 1] init_loop"

definition summarise :: "'v trajectory list \<Rightarrow> (stop_reason \<times> nat) list" where
  "summarise trajectories =
     fold (\<lambda>t counted. AList.update (tj_stopped_because t)
             (the_default 0 (map_of counted (tj_stopped_because t)) + 1) counted)
       trajectories (map (\<lambda>reason. (reason, 0)) [ANSWERED, HOP_LIMIT, NO_NEW_INFORMATION, CONFIDENCE, STOP_ERROR])"

end
