(* ===== verification/Agent_Guarantees.thy ===== *)
theory Agent_Guarantees
  imports Planner
begin

text \<open>
  What a run of the agent is sure to do: it returns, within its budgets; it says truly why it stopped; its
  citations are the ones its tools returned; and the history it shows the model is what fits, newest first.
\<close>

section \<open>Compaction\<close>

text \<open>The newest-first selection, without the accumulators of the loop.\<close>

fun fitting :: "('v finding \<Rightarrow> nat) \<Rightarrow> nat \<Rightarrow> nat \<Rightarrow> 'v finding list \<Rightarrow> 'v finding list" where
  "fitting cost budget used [] = []"
| "fitting cost budget used (f # fs) =
     (if budget < used + cost f then fitting cost budget used fs
      else f # fitting cost budget (used + cost f) fs)"

lemma fitting_length: "length (fitting cost budget used fs) \<le> length fs"
  by (induction fs arbitrary: used) (auto intro: le_SucI)

lemma keep_findings_fitting:
  "keep_findings cost budget fs kept used dropped =
     (rev (kept @ fitting cost budget used fs), used + sum_list (map cost (fitting cost budget used fs)),
      dropped + (length fs - length (fitting cost budget used fs)))"
  by (induction fs arbitrary: kept used dropped) (simp_all add: Suc_diff_le fitting_length trans_le_add2)

lemma fitting_budget: "used \<le> budget \<Longrightarrow> used + sum_list (map cost (fitting cost budget used fs)) \<le> budget"
proof (induction fs arbitrary: used)
  case (Cons f fs)
  show ?case
  proof (cases "budget < used + cost f")
    case True
    with Cons show ?thesis by simp
  next
    case False
    with Cons.IH [of "used + cost f"] show ?thesis by (simp add: add.assoc)
  qed
qed simp

lemma fitting_subset: "set (fitting cost budget used fs) \<subseteq> set fs"
  by (induction fs arbitrary: used) auto

lemma fitting_filter:
  assumes "distinct fs"
  shows "fitting cost budget used fs = filter (\<lambda>f. f \<in> set (fitting cost budget used fs)) fs"
  using assms
proof (induction fs arbitrary: used)
  case (Cons f fs)
  have "filter (\<lambda>g. g = f \<or> g \<in> S) fs = filter (\<lambda>g. g \<in> S) fs" for S
    using Cons.prems by (intro filter_cong) auto
  with Cons show ?case using fitting_subset [of cost budget used fs] by auto
qed simp

text \<open>What is left out does not fit beside what is kept and newer.\<close>

lemma fitting_greedy:
  assumes "sorted_wrt (\<lambda>f g. fi_hop g < fi_hop f) fs" and "f \<in> set fs" and "f \<notin> set (fitting cost budget used fs)"
  shows "budget < used + sum_list (map cost (filter (\<lambda>g. fi_hop f < fi_hop g) (fitting cost budget used fs))) + cost f"
  using assms
proof (induction fs arbitrary: used)
  case (Cons x fs)
  show ?case
  proof (cases "budget < used + cost x")
    case True
    then show ?thesis using Cons by (cases "f = x") auto
  next
    case False
    with Cons.prems have "f \<in> set fs" "f \<notin> set (fitting cost budget (used + cost x) fs)" "fi_hop f < fi_hop x" by auto
    with Cons.IH [of "used + cost x"] Cons.prems(1) False show ?thesis by (simp add: add.assoc)
  qed
qed simp

definition candidate :: "nat \<Rightarrow> 'v agent_step \<Rightarrow> 'v finding" where
  "candidate hop s = finding_of s hop (the (st_tool s)) (the (st_result s))"

lemma findings_from_acted:
  "list_all acted steps \<Longrightarrow> findings_from hop steps = Inr (map (\<lambda>(k, s). candidate k s) (enumerate hop steps))"
  by (induction hop steps rule: findings_from.induct) (auto simp: acted_def candidate_def)

lemma candidates_hops: "map fi_hop (map (\<lambda>(k, s). candidate k s) (enumerate hop steps)) = [hop..<hop + length steps]"
  by (simp add: comp_def case_prod_beta' candidate_def finding_of_def enumerate_eq_zip)

lemma older_acted: "list_all acted (take n (filter acted steps))"
  by (auto simp: list_all_iff dest!: in_set_takeD)

lemma compact_succeeds:
  assumes "0 < budget"
  obtains h where "compact_steps repr count_tokens budget k steps = Inr h"
proof -
  have "\<exists>h. compact_steps repr count_tokens budget k steps = Inr h"
    unfolding compact_steps_def Let_def findings_from_acted [OF older_acted]
    using assms by (simp add: keep_findings_fitting)
  then show ?thesis using that by blast
qed

text \<open>The history is compacted within its budget: it can always be, the last results stay in full, the older
  ones become findings numbered by their hops, the findings kept cost no more than the budget, none is lost
  track of, and a finding is dropped only when it does not fit beside the newer ones that are kept.\<close>

theorem compaction_keeps_the_newest_that_fit:
  fixes steps :: "'v agent_step list" and k :: nat and count_tokens :: "string \<Rightarrow> nat" and repr :: "'v \<Rightarrow> string"
  assumes "0 < budget"
  defines "older \<equiv> take (length (filter acted steps) - k) (filter acted steps)"
  defines "candidates \<equiv> map (\<lambda>(j, s). candidate j s) (enumerate 1 older)"
  defines "cost \<equiv> \<lambda>f. count_tokens (render_finding repr f)"
  shows "\<exists>h. compact_steps repr count_tokens budget k steps = Inr h \<and>
           older @ cm_verbatim h = filter acted steps \<and> length (cm_verbatim h) = min k (length (filter acted steps)) \<and>
           cm_findings h = filter (\<lambda>f. f \<in> set (cm_findings h)) candidates \<and>
           length (cm_findings h) + cm_dropped h = length candidates \<and> cm_verbatim_from h = length candidates + 1 \<and>
           cm_tokens h = sum_list (map cost (cm_findings h)) \<and> int (cm_tokens h) \<le> budget \<and>
           (\<forall>f \<in> set candidates - set (cm_findings h).
              budget < int (sum_list (map cost (filter (\<lambda>g. fi_hop f < fi_hop g) (cm_findings h))) + cost f))"
proof -
  let ?acted = "filter acted steps"
  define verbatim where "verbatim = drop (length ?acted - k) ?acted"
  define kept where "kept = fitting cost (nat budget) 0 (rev candidates)"
  have verbatim: "(if k \<noteq> 0 then drop (length ?acted - k) ?acted else []) = verbatim"
    by (simp add: verbatim_def)
  have len: "length verbatim = min k (length ?acted)" by (simp add: verbatim_def)
  then have older: "take (length ?acted - length verbatim) ?acted = older" by (simp add: older_def min_def)
  have "list_all acted older" unfolding older_def by (rule older_acted)
  note found = findings_from_acted [OF this, of 1]
  have n: "length candidates = length older" by (simp add: candidates_def)
  have hops: "map fi_hop candidates = [1..<1 + length older]"
    unfolding candidates_def by (rule candidates_hops)
  have distinct: "distinct candidates"
    using hops by (metis distinct_map distinct_upt)
  have "sorted_wrt (<) (map fi_hop candidates)" unfolding hops by (rule sorted_wrt_upt)
  then have sorted: "sorted_wrt (\<lambda>f g. fi_hop g < fi_hop f) (rev candidates)"
    by (simp add: sorted_wrt_map sorted_wrt_rev)
  define h where "h = \<lparr> cm_findings = rev kept, cm_verbatim = verbatim, cm_verbatim_from = length older + 1,
      cm_dropped = length candidates - length kept, cm_tokens = sum_list (map cost kept) \<rparr>"
  have h: "cm_findings h = rev kept" "cm_verbatim h = verbatim" "cm_verbatim_from h = length candidates + 1"
    "cm_dropped h = length candidates - length kept" "cm_tokens h = sum_list (map cost (rev kept))"
    by (simp_all add: h_def n rev_map [symmetric] sum_list_rev)
  have run: "compact_steps repr count_tokens budget k steps = Inr h"
    using assms(1)
    unfolding compact_steps_def Let_def verbatim older found candidates_def [symmetric] cost_def [symmetric]
    by (simp add: keep_findings_fitting kept_def h_def)
  have chosen: "rev kept = filter (\<lambda>f. f \<in> set (rev kept)) candidates"
    using fitting_filter [of "rev candidates" cost "nat budget" 0] distinct
    by (simp add: kept_def rev_filter [symmetric] rev_swap)
  have counted: "length (rev kept) + (length candidates - length kept) = length candidates"
    using fitting_length [of cost "nat budget" 0 "rev candidates"] by (simp add: kept_def)
  have spent: "int (sum_list (map cost (rev kept))) \<le> budget"
    using fitting_budget [of 0 "nat budget" cost "rev candidates"] assms(1)
    by (simp add: kept_def rev_map [symmetric] sum_list_rev)
  have dropped: "budget < int (sum_list (map cost (filter (\<lambda>g. fi_hop f < fi_hop g) (rev kept))) + cost f)"
    if "f \<in> set candidates - set (rev kept)" for f
    using fitting_greedy [OF sorted, of f cost "nat budget" 0] that assms(1)
    by (simp add: kept_def [symmetric] rev_filter [symmetric] rev_map [symmetric] sum_list_rev)
  have "cm_tokens h = sum_list (map cost (cm_findings h))" by (simp only: h)
  then show ?thesis
    using run chosen counted spent dropped len unfolding h [symmetric]
    by (intro exI [of _ h]) (simp add: older_def verbatim_def h(2))
qed


section \<open>Calls of the model\<close>

definition waits :: "'v planner_env \<Rightarrow> 'v conversation \<Rightarrow> nat \<Rightarrow> nat \<Rightarrow> bool" where
  "waits env cv attempt n \<longleftrightarrow>
     (\<exists>message advised. pe_converse env n cv = Inl (TransientFailure message advised) \<and>
        wait_for advised attempt (pe_rand env n) \<le> RETRY_CEILING_SECONDS)"

lemma converse_attempts_bounds:
  assumes "converse_attempts env cv [a..<RETRY_ATTEMPTS] (n, slept) = (r, n', slept')" and "a < RETRY_ATTEMPTS"
  shows "\<exists>j. j < RETRY_ATTEMPTS - a \<and> n' = n + j + 1 \<and> slept' \<le> slept + 30 * real j \<and>
           r = Inr (pe_converse env (n + j) cv) \<and> (\<forall>i < j. waits env cv (a + i) (n + i)) \<and>
           (\<forall>message advised. pe_converse env (n + j) cv = Inl (TransientFailure message advised) \<longrightarrow>
              j = RETRY_ATTEMPTS - 1 - a \<or>
              RETRY_CEILING_SECONDS < wait_for advised (a + j) (pe_rand env (n + j)))"
  using assms
proof (induction "RETRY_ATTEMPTS - a" arbitrary: a n slept)
  case (Suc k)
  have upt: "[a..<RETRY_ATTEMPTS] = a # [Suc a..<RETRY_ATTEMPTS]" using Suc.prems(2) by (rule upt_conv_Cons)
  show ?case
  proof (cases "\<exists>message advised. pe_converse env n cv = Inl (TransientFailure message advised) \<and>
      a \<noteq> RETRY_ATTEMPTS - 1 \<and> \<not> RETRY_CEILING_SECONDS < wait_for advised a (pe_rand env n)")
    case True
    then obtain message advised where t: "pe_converse env n cv = Inl (TransientFailure message advised)"
      "a \<noteq> RETRY_ATTEMPTS - 1" "wait_for advised a (pe_rand env n) \<le> RETRY_CEILING_SECONDS" by auto
    let ?d = "wait_for advised a (pe_rand env n)"
    have "converse_attempts env cv [Suc a..<RETRY_ATTEMPTS] (n + 1, slept + ?d) = (r, n', slept')"
      using Suc.prems(1) t unfolding upt by (simp add: Let_def)
    moreover have "k = RETRY_ATTEMPTS - Suc a" "Suc a < RETRY_ATTEMPTS" using Suc.hyps(2) Suc.prems(2) t(2) by auto
    ultimately obtain j where j: "j < RETRY_ATTEMPTS - Suc a" "n' = n + 1 + j + 1" "slept' \<le> slept + ?d + 30 * real j"
      "r = Inr (pe_converse env (n + 1 + j) cv)" "\<forall>i < j. waits env cv (Suc a + i) (n + 1 + i)"
      "\<forall>message advised. pe_converse env (n + 1 + j) cv = Inl (TransientFailure message advised) \<longrightarrow>
         j = RETRY_ATTEMPTS - 1 - Suc a \<or> RETRY_CEILING_SECONDS < wait_for advised (Suc a + j) (pe_rand env (n + 1 + j))"
      using Suc.hyps(1) by blast
    have "waits env cv (a + i) (n + i)" if "i < Suc j" for i
      using that j(5) t(1,3) by (cases i) (auto simp: waits_def)
    with j t(3) show ?thesis
      by (intro exI [of _ "Suc j"]) (auto simp: RETRY_CEILING_SECONDS_def)
  next
    case False
    then have "(r, n', slept') = (Inr (pe_converse env n cv), n + 1, slept)"
      using Suc.prems(1) unfolding upt by (auto simp: Let_def split: sum.splits model_failure.splits if_splits)
    with False Suc.prems(2) show ?thesis by (intro exI [of _ 0]) (auto simp: RETRY_CEILING_SECONDS_def)
  qed
qed simp

text \<open>A call of the model is tried at most five times and never sleeps for longer than two minutes in all.
  What it ends with is the answer or the exception of the last try; every earlier try was refused for the
  time being, with a wait of at most half a minute; and a refusal for the time being is the end of it only
  after the fifth try or when the wait is longer. Other refusals are not tried again.\<close>

theorem retries_are_bounded:
  assumes "planner_converse env user specs exchanges (n, slept) = (r, n', slept')"
  defines "cv \<equiv> \<lparr> cv_instructions = pe_instructions env, cv_user = user, cv_tools = specs,
                  cv_exchanges = exchanges, cv_max_tokens = pe_max_tokens env \<rparr>"
  shows "\<exists>j < RETRY_ATTEMPTS. n' = n + j + 1 \<and> slept' \<le> slept + 120 \<and> r = Inr (pe_converse env (n + j) cv) \<and>
           (\<forall>i < j. waits env cv i (n + i)) \<and>
           (\<forall>message advised. pe_converse env (n + j) cv = Inl (TransientFailure message advised) \<longrightarrow>
              j = 4 \<or> RETRY_CEILING_SECONDS < wait_for advised j (pe_rand env (n + j)))"
proof -
  have "converse_attempts env cv [0..<RETRY_ATTEMPTS] (n, slept) = (r, n', slept')" "0 < RETRY_ATTEMPTS"
    using assms(1) by (simp_all add: planner_converse_def cv_def RETRY_ATTEMPTS_def)
  from converse_attempts_bounds [OF this] obtain j where
    j: "j < RETRY_ATTEMPTS - 0" "n' = n + j + 1" "slept' \<le> slept + 30 * real j"
      "r = Inr (pe_converse env (n + j) cv)" "\<forall>i < j. waits env cv (0 + i) (n + i)"
      "\<forall>message advised. pe_converse env (n + j) cv = Inl (TransientFailure message advised) \<longrightarrow>
              j = RETRY_ATTEMPTS - 1 - 0 \<or> RETRY_CEILING_SECONDS < wait_for advised (0 + j) (pe_rand env (n + j))"
    by blast
  then have "slept' \<le> slept + 120" by (simp add: RETRY_ATTEMPTS_def)
  with j show ?thesis by (intro exI [of _ j]) (auto simp: RETRY_ATTEMPTS_def)
qed


lemma planner_converse_effort:
  assumes "planner_converse env user specs exchanges tel = (r, tel')"
  shows "fst tel' \<le> fst tel + RETRY_ATTEMPTS" and "snd tel' \<le> snd tel + 120" and "\<exists>answer. r = Inr answer"
proof -
  obtain n slept n' slept' where tel: "tel = (n, slept)" "tel' = (n', slept')" by force
  have "converse_attempts env \<lparr> cv_instructions = pe_instructions env, cv_user = user, cv_tools = specs,
        cv_exchanges = exchanges, cv_max_tokens = pe_max_tokens env \<rparr> [0..<RETRY_ATTEMPTS] (n, slept) = (r, n', slept')"
    "0 < RETRY_ATTEMPTS"
    using assms by (simp_all add: planner_converse_def tel RETRY_ATTEMPTS_def)
  from converse_attempts_bounds [OF this] obtain j where "j < RETRY_ATTEMPTS" "n' = n + j + 1" "slept' \<le> slept + 30 * real j"
    "\<exists>answer. r = Inr answer" by auto
  then show "fst tel' \<le> fst tel + RETRY_ATTEMPTS" "snd tel' \<le> snd tel + 120" "\<exists>answer. r = Inr answer"
    by (auto simp: tel RETRY_ATTEMPTS_def)
qed

section \<open>What holds after every hop\<close>

definition from_tools :: "'v planner_env \<Rightarrow> citation \<Rightarrow> bool" where
  "from_tools env c \<longleftrightarrow>
     (\<exists>name t k args r. map_of (pe_registry env) name = Some t \<and> tl_call t k args = Inr r \<and> c \<in> set (tr_citations r))"

definition digests_of :: "(string \<Rightarrow> string) \<Rightarrow> 'v agent_step list \<Rightarrow> string set" where
  "digests_of sha steps = {snd (signature sha r) |r. \<exists>s \<in> set steps. st_result s = Some r}"

definition news :: "(string \<Rightarrow> string) \<Rightarrow> 'v agent_step list \<Rightarrow> tool_result \<Rightarrow> bool" where
  "news sha earlier r \<longleftrightarrow>
     (if tr_citations r \<noteq> [] then \<not> ci_memory_id ` set (tr_citations r) \<subseteq> ci_memory_id ` set (cited_by earlier)
      else snd (signature sha r) \<notin> digests_of sha earlier)"

definition novelty_right :: "(string \<Rightarrow> string) \<Rightarrow> 'v agent_step list \<Rightarrow> bool" where
  "novelty_right sha steps \<longleftrightarrow>
     (\<forall>earlier s later r. steps = earlier @ s # later \<longrightarrow> st_result s = Some r \<longrightarrow>
        (st_novel s \<longleftrightarrow> news sha earlier r))"

definition stale_tail :: "'v agent_step list \<Rightarrow> nat" where
  "stale_tail steps = length (takeWhile (\<lambda>s. \<not> st_novel s) (rev steps))"

definition loop_inv :: "'v planner_env \<Rightarrow> nat \<Rightarrow> 'v loop_state \<Rightarrow> bool" where
  "loop_inv env k st \<longleftrightarrow>
     length (ls_steps st) = k \<and> ls_calls st = k \<and>
     fst (ls_telemetry st) \<le> RETRY_ATTEMPTS * k \<and> snd (ls_telemetry st) \<le> 120 * real k \<and>
     list_all acted (ls_steps st) \<and> list_all (from_tools env) (cited_by (ls_steps st)) \<and>
     ls_memories st = ci_memory_id ` set (cited_by (ls_steps st)) \<and>
     ls_digests st = digests_of (pe_sha256 env) (ls_steps st) \<and>
     novelty_right (pe_sha256 env) (ls_steps st) \<and> ls_stale st = stale_tail (ls_steps st) \<and>
     ls_prompt_tokens st = sum_list (map st_prompt_tokens (ls_steps st)) \<and>
     ls_completion_tokens st = sum_list (map st_completion_tokens (ls_steps st))"

lemma loop_inv_init: "loop_inv env 0 init_loop"
  by (simp add: loop_inv_def init_loop_def cited_by_def digests_of_def novelty_right_def stale_tail_def)

lemma call_tool_citations:
  assumes "c \<in> set (tr_citations (call_tool env k call extra))"
  shows "from_tools env c"
proof -
  obtain r where r: "registry_call (pe_repr_name env) (pe_registry env) k (cl_name call) (cl_arguments call) = Inr r"
    and "c \<in> set (tr_citations r)"
    using assms by (auto simp: call_tool_def Let_def said_def split: sum.splits tool_failure.splits if_splits)
  then show ?thesis
    unfolding from_tools_def registry_call_def said_def by (fastforce split: option.splits sum.splits)
qed

lemma step_of_fields [simp]:
  "st_tool (step_of turn call r novel) = Some (cl_name call)" "st_result (step_of turn call r novel) = Some r"
  "st_novel (step_of turn call r novel) = novel"
  "st_prompt_tokens (step_of turn call r novel) = mt_prompt_tokens turn"
  "st_completion_tokens (step_of turn call r novel) = mt_completion_tokens turn"
  by (simp_all add: step_of_def)

lemma cited_by_snoc: "cited_by (steps @ [step_of turn call r novel]) = cited_by steps @ tr_citations r"
  by (simp add: cited_by_def step_of_def)

lemma digests_of_snoc:
  "digests_of sha (steps @ [step_of turn call r novel]) = insert (snd (signature sha r)) (digests_of sha steps)"
  by (auto simp: digests_of_def step_of_def)

lemma novelty_right_snoc:
  assumes "novelty_right sha steps" and "novel \<longleftrightarrow> news sha steps r"
  shows "novelty_right sha (steps @ [step_of turn call r novel])"
  unfolding novelty_right_def
proof (intro allI impI)
  fix earlier s later r'
  assume eq: "steps @ [step_of turn call r novel] = earlier @ s # later" and r': "st_result s = Some r'"
  show "st_novel s \<longleftrightarrow> news sha earlier r'"
  proof (cases later rule: rev_cases)
    case Nil
    with eq r' assms(2) show ?thesis by (auto simp: step_of_def)
  next
    case (snoc later' x)
    with eq have "steps = earlier @ s # later'" by simp
    with assms(1) r' show ?thesis by (auto simp: novelty_right_def)
  qed
qed

lemma record_call_inv:
  assumes inv: "loop_inv env k st"
    and tel: "fst tel \<le> fst (ls_telemetry st) + RETRY_ATTEMPTS" "snd tel \<le> snd (ls_telemetry st) + 120"
  shows "loop_inv env (Suc k) (record_call env turn call ((count_turn turn st)\<lparr> ls_telemetry := tel \<rparr>))"
proof -
  define r where "r = call_tool env (length (ls_steps st)) call (length (mt_tool_calls turn) - 1)"
  define novel where "novel \<longleftrightarrow> news (pe_sha256 env) (ls_steps st) r"
  let ?st = "(count_turn turn st)\<lparr> ls_telemetry := tel \<rparr>"
  have st: "ls_steps ?st = ls_steps st" "ls_memories ?st = ls_memories st" "ls_digests ?st = ls_digests st"
    "ls_stale ?st = ls_stale st" by (simp_all add: count_turn_def)
  have sig: "signature (pe_sha256 env) r = (ci_memory_id ` set (tr_citations r), snd (signature (pe_sha256 env) r))"
    by (simp add: signature_def)
  have "is_novel (ci_memory_id ` set (tr_citations r)) (snd (signature (pe_sha256 env) r)) ?st = novel"
    using inv by (auto simp: is_novel_def st novel_def news_def loop_inv_def)
  then have eq: "record_call env turn call ?st = ?st\<lparr> ls_steps := ls_steps st @ [step_of turn call r novel],
      ls_memories := ls_memories st \<union> ci_memory_id ` set (tr_citations r),
      ls_digests := insert (snd (signature (pe_sha256 env) r)) (ls_digests st),
      ls_stale := (if novel then 0 else ls_stale st + 1) \<rparr>"
    unfolding record_call_def st Let_def r_def [symmetric] by (subst sig) simp
  have "novelty_right (pe_sha256 env) (ls_steps st @ [step_of turn call r novel])"
    using inv by (intro novelty_right_snoc) (simp_all add: loop_inv_def novel_def)
  moreover have "stale_tail (ls_steps st @ [step_of turn call r novel]) = (if novel then 0 else stale_tail (ls_steps st) + 1)"
    by (simp add: stale_tail_def step_of_def)
  moreover have "list_all (from_tools env) (tr_citations r)"
    by (auto simp: list_all_iff r_def intro: call_tool_citations)
  moreover have "acted (step_of turn call r novel)" by (simp add: acted_def step_of_def)
  ultimately show ?thesis
    using inv tel unfolding eq loop_inv_def
    by (simp add: cited_by_snoc digests_of_snoc image_Un count_turn_def)
qed


section \<open>How a run ends\<close>

definition answered :: "'v model_turn \<Rightarrow> telemetry \<Rightarrow> 'v loop_state \<Rightarrow> 'v loop_state" where
  "answered turn tel st =
     (count_turn turn st)\<lparr> ls_telemetry := tel, ls_steps := ls_steps st @ [answer_step turn] \<rparr>"

definition effort_within :: "telemetry \<Rightarrow> nat \<Rightarrow> bool" where
  "effort_within tel calls \<longleftrightarrow> fst tel \<le> RETRY_ATTEMPTS * calls \<and> snd tel \<le> 120 * real calls"

lemma count_turn_fields [simp]:
  "ls_steps (count_turn turn st) = ls_steps st" "ls_calls (count_turn turn st) = Suc (ls_calls st)"
  "ls_prompt_tokens (count_turn turn st) = ls_prompt_tokens st + mt_prompt_tokens turn"
  "ls_completion_tokens (count_turn turn st) = ls_completion_tokens st + mt_completion_tokens turn"
  by (simp_all add: count_turn_def)

lemma run_hops_cases:
  assumes "run_hops env q limit hops st = (res, tel)" and "loop_inv env k st" and "ls_stale st < STALE_LIMIT"
    and "k + length hops = limit" and "0 < pe_finding_budget env"
  obtains (failed) st' k' failure where "loop_inv env k' st'" "k' < limit" "effort_within tel (Suc k')"
      "res = Inr (finish q st' None STOP_ERROR (Some (failure_message failure)) (retry_advice failure))"
    | (answered) st' k' turn where "loop_inv env k' st'" "k' < limit" "effort_within tel (Suc k')"
      "res = Inr (finish q (answered turn tel st') (Some (mt_text turn))
         (if list_ex (\<lambda>s. st_tool s \<noteq> None \<and> st_tool s \<noteq> Some []) (ls_steps st') then CONFIDENCE else ANSWERED) None None)"
    | (concluded) st' k' stop where "loop_inv env k' st'" "k' \<le> limit" "(res, tel) = conclude env q stop st'"
      "stop = HOP_LIMIT \<and> k' = limit \<and> ls_stale st' < STALE_LIMIT \<or> stop = NO_NEW_INFORMATION \<and> ls_stale st' = STALE_LIMIT"
  using assms
proof (induction hops arbitrary: k st thesis)
  case Nil
  from Nil.prems(3) [OF Nil.prems(5)] Nil.prems(4,6,7) show ?case by simp
next
  case (Cons hop hops)
  obtain h where h: "compact_steps (pe_repr env) (pe_count_tokens env) (pe_finding_budget env) 2 (ls_steps st) = Inr h"
    using compact_succeeds [OF Cons.prems(8)] by blast
  obtain x tel1 where call: "planner_converse env (user_message (pe_repr env) q h hop limit)
      (registry_specs (pe_registry env)) (exchanges_of h) (ls_telemetry st) = (x, tel1)" by (rule prod.exhaust)
  note effort = planner_converse_effort [OF call]
  from effort(3) obtain answer where x: "x = Inr answer" by blast
  have within: "effort_within tel1 (Suc k)"
    using effort(1,2) Cons.prems(5) by (auto simp: effort_within_def loop_inv_def)
  show ?case
  proof (cases answer)
    case (Inl failure)
    then have "tel = tel1"
      "res = Inr (finish q st None STOP_ERROR (Some (failure_message failure)) (retry_advice failure))"
      using Cons.prems(4) h call x by simp_all
    with Cons.prems(1) [OF Cons.prems(5) _ _ this(2)] within Cons.prems(7) show ?thesis by simp
  next
    case (Inr turn)
    show ?thesis
    proof (cases "mt_tool_calls turn")
      case Nil
      then have "tel = tel1" and "res = Inr (finish q (answered turn tel1 st) (Some (mt_text turn))
         (if list_ex (\<lambda>s. st_tool s \<noteq> None \<and> st_tool s \<noteq> Some []) (ls_steps st) then CONFIDENCE else ANSWERED) None None)"
        using Cons.prems(4) h call x Inr by (auto simp: Let_def answered_def)
      with Cons.prems(2) [OF Cons.prems(5)] within Cons.prems(7) show ?thesis by simp
    next
      case (Cons c cs)
      let ?st = "record_call env turn c ((count_turn turn st)\<lparr> ls_telemetry := tel1 \<rparr>)"
      have inv: "loop_inv env (Suc k) ?st" by (rule record_call_inv [OF Cons.prems(5) effort(1,2)])
      have stale: "ls_stale ?st \<le> Suc (ls_stale st)"
        by (simp add: record_call_def Let_def count_turn_def split: prod.splits)
      have next_hop: "(res, tel) = (if STALE_LIMIT \<le> ls_stale ?st then conclude env q NO_NEW_INFORMATION ?st
          else run_hops env q limit hops ?st)"
        using Cons.prems(4) h call x Inr Cons by (simp add: Let_def)
      show ?thesis
      proof (cases "STALE_LIMIT \<le> ls_stale ?st")
        case True
        with stale Cons.prems(6) have "ls_stale ?st = STALE_LIMIT" by simp
        with Cons.prems(3) [OF inv] next_hop True Cons.prems(7) show ?thesis by simp
      next
        case False
        with next_hop have "run_hops env q limit hops ?st = (res, tel)" by simp
        from Cons.IH [OF Cons.prems(1-3) this inv] False Cons.prems(7,8) show ?thesis by simp
      qed
    qed
  qed
qed


lemma conclude_cases:
  assumes "conclude env q stop st = (res, tel)" and "0 < pe_finding_budget env"
  obtains (unanswered) "res = Inr (finish q st None STOP_ERROR (Some ''the final answer call failed'') None)"
      "fst tel \<le> fst (ls_telemetry st) + RETRY_ATTEMPTS" "snd tel \<le> snd (ls_telemetry st) + 120"
    | (final) turn where "res = Inr (finish q (count_turn turn st) (Some (mt_text turn)) stop None None)"
      "fst tel \<le> fst (ls_telemetry st) + RETRY_ATTEMPTS" "snd tel \<le> snd (ls_telemetry st) + 120"
proof -
  obtain h where h: "compact_steps (pe_repr env) (pe_count_tokens env) (pe_finding_budget env) 2 (ls_steps st) = Inr h"
    using compact_succeeds [OF assms(2)] by blast
  define parts where "parts = filter (\<lambda>p. p \<noteq> []) [render_history (pe_repr env) h, render_verbatim h]"
  define rendered where "rendered = (if join NL2 parts \<noteq> [] then join NL2 parts else ''You gathered nothing.'')"
  obtain x tel1 where call: "planner_converse env (final_message q rendered stop) [] [] (ls_telemetry st) = (x, tel1)"
    by (rule prod.exhaust)
  note effort = planner_converse_effort [OF call]
  from effort(3) obtain answer where x: "x = Inr answer" by blast
  have res: "(res, tel) = (case (x, tel1) of (Inl e, tel) \<Rightarrow> (Inl e, tel)
      | (Inr (Inl _), tel) \<Rightarrow> (Inr (finish q st None STOP_ERROR (Some ''the final answer call failed'') None), tel)
      | (Inr (Inr turn), tel) \<Rightarrow> (Inr (finish q (count_turn turn st) (Some (mt_text turn)) stop None None), tel))"
    using assms(1)
    unfolding conclude_def h sum.case Let_def parts_def [symmetric] rendered_def [symmetric] call by (rule sym)
  show ?thesis
  proof (cases answer)
    case (Inl failure)
    with res x unanswered effort(1,2) show ?thesis by simp
  next
    case (Inr turn)
    with res x final [of turn] effort(1,2) show ?thesis by simp
  qed
qed

lemma acted_hops: "list_all acted steps \<Longrightarrow> row_count (\<lambda>s. st_tool s \<noteq> None) steps = length steps"
  by (induction steps) (auto simp: row_count_def acted_def)

lemma novelty_right_answered: "novelty_right sha steps \<Longrightarrow> novelty_right sha (steps @ [answer_step turn])"
  unfolding novelty_right_def
proof (intro allI impI)
  fix earlier s later r
  assume right: "\<forall>earlier s later r. steps = earlier @ s # later \<longrightarrow> st_result s = Some r \<longrightarrow> st_novel s = news sha earlier r"
    and eq: "steps @ [answer_step turn] = earlier @ s # later" and r: "st_result s = Some r"
  from eq r have "later \<noteq> []" by (auto simp: answer_step_def)
  with eq obtain later' where "steps = earlier @ s # later'" by (cases later rule: rev_cases) auto
  with right r show "st_novel s = news sha earlier r" by blast
qed

lemma cited_by_answered [simp]: "cited_by (steps @ [answer_step turn]) = cited_by steps"
  by (simp add: cited_by_def answer_step_def)

text \<open>The four ways a run ends, with what is known of the loop's state then.\<close>

lemma run_cases:
  assumes "0 < pe_finding_budget env" and "run env q max_hops = (res, tel)"
  obtains (failed) st k failure where "loop_inv env k st" "k < hop_limit env max_hops" "effort_within tel (Suc k)"
      "res = Inr (finish q st None STOP_ERROR (Some (failure_message failure)) (retry_advice failure))"
    | (answered) st k turn where "loop_inv env k st" "k < hop_limit env max_hops" "effort_within tel (Suc k)"
      "res = Inr (finish q (answered turn tel st) (Some (mt_text turn))
         (if list_ex (\<lambda>s. st_tool s \<noteq> None \<and> st_tool s \<noteq> Some []) (ls_steps st) then CONFIDENCE else ANSWERED) None None)"
    | (unanswered) st k where "loop_inv env k st" "k \<le> hop_limit env max_hops" "effort_within tel (Suc k)"
      "res = Inr (finish q st None STOP_ERROR (Some ''the final answer call failed'') None)"
    | (final) st k stop turn where "loop_inv env k st" "k \<le> hop_limit env max_hops" "effort_within tel (Suc k)"
      "res = Inr (finish q (count_turn turn st) (Some (mt_text turn)) stop None None)"
      "stop = HOP_LIMIT \<and> k = hop_limit env max_hops \<or> stop = NO_NEW_INFORMATION \<and> ls_stale st = STALE_LIMIT"
proof -
  have "run_hops env q (hop_limit env max_hops) [1..<hop_limit env max_hops + 1] init_loop = (res, tel)"
    using assms(2) by (simp add: run_def)
  moreover note loop_inv_init [of env]
  moreover have "ls_stale init_loop < STALE_LIMIT" by (simp add: init_loop_def STALE_LIMIT_def)
  moreover have "0 + length [1..<hop_limit env max_hops + 1] = hop_limit env max_hops" by simp
  moreover note assms(1)
  ultimately show ?thesis
  proof (cases rule: run_hops_cases)
    case (concluded st k stop)
    have effort: "effort_within tel (Suc k)"
      if "fst tel \<le> fst (ls_telemetry st) + RETRY_ATTEMPTS" "snd tel \<le> snd (ls_telemetry st) + 120"
      using that concluded(1) by (auto simp: effort_within_def loop_inv_def)
    show ?thesis
      by (rule conclude_cases [OF concluded(3) [symmetric] assms(1)])
        (use that(3) [OF concluded(1,2) effort] that(4) [OF concluded(1,2) effort] concluded(4) in blast)+
  qed (use that(1,2) in blast)+
qed


lemma finish_fields [simp]:
  "tj_steps (finish q st ans stop err adv) = ls_steps st" "tj_answer (finish q st ans stop err adv) = ans"
  "tj_stopped_because (finish q st ans stop err adv) = stop" "tj_error (finish q st ans stop err adv) = err"
  "tj_model_calls (finish q st ans stop err adv) = ls_calls st"
  "tj_citations (finish q st ans stop err adv) = unique_citations {} (cited_by (ls_steps st))"
  by (simp_all add: finish_def)

lemma answered_fields [simp]:
  "ls_steps (answered turn tel st) = ls_steps st @ [answer_step turn]" "ls_calls (answered turn tel st) = Suc (ls_calls st)"
  by (simp_all add: answered_def)

lemma hops_of_finish:
  assumes "loop_inv env k st"
  shows "hops_of (finish q st ans stop err adv) = k" and "hops_of (finish q (count_turn turn st) ans stop err adv) = k"
    and "hops_of (finish q (answered turn tel st) ans stop err adv) = k"
proof -
  have "row_count (\<lambda>s. st_tool s \<noteq> None) (ls_steps st) = k"
    using assms acted_hops by (auto simp: loop_inv_def)
  then show "hops_of (finish q st ans stop err adv) = k" "hops_of (finish q (count_turn turn st) ans stop err adv) = k"
    "hops_of (finish q (answered turn tel st) ans stop err adv) = k"
    by (simp_all add: hops_of_def row_count_def answer_step_def)
qed

section \<open>The properties\<close>

text \<open>C29 A run always returns, whatever the model and the tools answer, and within its budgets: no more tools are
  called than hops were allowed, the model is asked at most once more than that, each time with at most five
  tries, and the run sleeps for at most two minutes per question to the model.\<close>

theorem a_run_returns_within_its_budget:
  assumes "0 < pe_finding_budget env"
  shows "\<exists>t n slept. run env q max_hops = (Inr t, n, slept) \<and> hops_of t \<le> hop_limit env max_hops \<and>
           length (tj_steps t) \<le> hops_of t + 1 \<and> tj_model_calls t \<le> hop_limit env max_hops + 1 \<and>
           n \<le> RETRY_ATTEMPTS * (hop_limit env max_hops + 1) \<and> slept \<le> 120 * real (hop_limit env max_hops + 1)"
proof -
  obtain res n slept where run: "run env q max_hops = (res, n, slept)" by (metis surj_pair)
  have effort: "n \<le> RETRY_ATTEMPTS * (hop_limit env max_hops + 1) \<and> slept \<le> 120 * real (hop_limit env max_hops + 1)"
    if "effort_within (n, slept) (Suc k)" "k \<le> hop_limit env max_hops" for k
  proof
    have "RETRY_ATTEMPTS * Suc k \<le> RETRY_ATTEMPTS * (hop_limit env max_hops + 1)"
      by (rule mult_le_mono2) (use that(2) in simp)
    moreover have "n \<le> RETRY_ATTEMPTS * Suc k" using that(1) by (simp add: effort_within_def)
    ultimately show "n \<le> RETRY_ATTEMPTS * (hop_limit env max_hops + 1)" by (rule le_trans [rotated])
    show "slept \<le> 120 * real (hop_limit env max_hops + 1)"
      using that by (simp add: effort_within_def)
  qed
  from assms run show ?thesis
  proof (cases rule: run_cases)
    case (failed st k failure)
    with run effort [of k] show ?thesis using hops_of_finish(1) [OF failed(1)] by (auto simp: loop_inv_def)
  next
    case (answered st k turn)
    with run effort [of k] show ?thesis using hops_of_finish(3) [OF answered(1)] by (auto simp: loop_inv_def)
  next
    case (unanswered st k)
    with run effort [of k] show ?thesis using hops_of_finish(1) [OF unanswered(1)] by (auto simp: loop_inv_def)
  next
    case (final st k stop turn)
    with run effort [of k] show ?thesis using hops_of_finish(2) [OF final(1)] by (auto simp: loop_inv_def)
  qed
qed

lemma stale_tail_two:
  assumes "stale_tail steps = 2"
  obtains init a b where "steps = init @ [a, b]" and "\<not> st_novel a" and "\<not> st_novel b"
proof (cases "rev steps")
  case (Cons b bs)
  with assms show ?thesis
  proof (cases bs)
    case (Cons a rest)
    with \<open>rev steps = b # bs\<close> have "steps = rev rest @ [a, b]" by (simp add: rev_swap)
    with assms Cons \<open>rev steps = b # bs\<close> that show ?thesis by (auto simp: stale_tail_def split: if_splits)
  qed (auto simp: stale_tail_def split: if_splits)
qed (use assms in \<open>simp add: stale_tail_def\<close>)

text \<open>C30 A run says truly why it stopped. With an error there is no answer and without one there is; an answer out
  of confidence is the model's last word after tools it chose to call; an answer without retrieval has called
  no tool that has a name; at the hop limit every hop was used; and for want of new information the last two
  results were not new.\<close>

theorem a_run_says_why_it_stopped:
  assumes "0 < pe_finding_budget env" and "run env q max_hops = (Inr t, tel)"
  shows "(tj_answer t = None \<longleftrightarrow> tj_stopped_because t = STOP_ERROR) \<and>
         (tj_error t = None \<longleftrightarrow> tj_stopped_because t \<noteq> STOP_ERROR) \<and>
         (case tj_stopped_because t of
            STOP_ERROR \<Rightarrow> True
          | ANSWERED \<Rightarrow> list_all (\<lambda>s. st_tool s = None \<or> st_tool s = Some []) (tj_steps t)
          | CONFIDENCE \<Rightarrow> 0 < hops_of t \<and> st_tool (last (tj_steps t)) = None \<and>
                          tj_answer t = Some (st_thought (last (tj_steps t)))
          | HOP_LIMIT \<Rightarrow> hops_of t = hop_limit env max_hops
          | NO_NEW_INFORMATION \<Rightarrow> (\<exists>init a b. tj_steps t = init @ [a, b] \<and> \<not> st_novel a \<and> \<not> st_novel b))"
  using assms
proof (cases rule: run_cases)
  case (answered st k turn)
  let ?called = "list_ex (\<lambda>s. st_tool s \<noteq> None \<and> st_tool s \<noteq> Some []) (ls_steps st)"
  have "k \<noteq> 0" if ?called using that answered(1) by (auto simp: loop_inv_def)
  moreover have "list_all (\<lambda>s. st_tool s = None \<or> st_tool s = Some []) (ls_steps st)" if "\<not> ?called"
    using that by (auto simp: list_all_iff list_ex_iff)
  ultimately show ?thesis
    using answered(4) hops_of_finish(3) [OF answered(1)] by (auto simp: answer_step_def)
next
  case (final st k stop turn)
  then show ?thesis
  proof (cases "stop = HOP_LIMIT")
    case True
    with final show ?thesis using hops_of_finish(2) [OF final(1)] by auto
  next
    case False
    with final(5) have stop: "stop = NO_NEW_INFORMATION" "stale_tail (ls_steps st) = 2"
      using final(1) by (auto simp: loop_inv_def STALE_LIMIT_def)
    obtain init a b where "ls_steps st = init @ [a, b]" "\<not> st_novel a" "\<not> st_novel b"
      by (rule stale_tail_two [OF stop(2)])
    with final(4) stop(1) show ?thesis by auto
  qed
qed auto

text \<open>What a run calls new is new: a result that cites memories is marked as new when it cites one that no
  earlier result of the run cited, and a result that cites none when its words, up to white space, are not
  those of an earlier result, as far as the digest can tell.\<close>

theorem novelty_is_what_earlier_hops_did_not_show:
  assumes "0 < pe_finding_budget env" and "run env q max_hops = (Inr t, tel)"
    and "tj_steps t = earlier @ s # later" and "st_result s = Some r"
  shows "st_novel s \<longleftrightarrow> news (pe_sha256 env) earlier r"
proof -
  from assms(1,2) have "novelty_right (pe_sha256 env) (tj_steps t)"
    by (cases rule: run_cases) (auto simp: loop_inv_def intro: novelty_right_answered)
  with assms(3,4) show ?thesis by (auto simp: novelty_right_def)
qed

lemma unique_citations_locators:
  "distinct (map locator (unique_citations seen cs)) \<and>
   locator ` set (unique_citations seen cs) = locator ` set cs - seen \<and> set (unique_citations seen cs) \<subseteq> set cs"
  by (induction cs arbitrary: seen) auto



text \<open>When the closing call of a run is refused, what the provider said is lost, message and advice, although the
  trajectory has a field for each.\<close>

lemma refused_closing_call_is_silent:
  assumes "compact_steps (pe_repr env) (pe_count_tokens env) (pe_finding_budget env) 2 (ls_steps st) = Inr h"
    and "\<And>n cv. pe_converse env n cv = Inl (PermanentFailure message advised)"
  shows "\<exists>tel. conclude env q stop st =
           (Inr (finish q st None STOP_ERROR (Some ''the final answer call failed'') None), tel)"
  using assms by (cases "ls_telemetry st") (simp add: conclude_def Let_def planner_converse_def RETRY_ATTEMPTS_def upt_conv_Cons)

section \<open>The hypotheses hold\<close>

text \<open>One tool that always returns the same citation; a model that is refused once for a moment, calls the
  tool three times and answers when it is told to.\<close>

definition sample_tool :: "string tool" where
  "sample_tool =
     \<lparr> tl_spec = \<lparr> ts_name = ''search'', ts_description = ''finds'' \<rparr>, tl_validate = Inr,
       tl_call = \<lambda>k args. Inr \<lparr> tr_content = ''hit '' @ show_nat k, tr_citations = [sample_citation],
                                tr_truncated = False \<rparr> \<rparr>"

definition sample_turn :: "string model_turn" where
  "sample_turn =
     \<lparr> mt_text = ''looking'', mt_tool_calls = [\<lparr> cl_id = ''c'', cl_name = ''search'', cl_arguments = [(''query'', ''lease'')] \<rparr>],
       mt_prompt_tokens = 10, mt_completion_tokens = 2 \<rparr>"

definition sample_env :: "string planner_env" where
  "sample_env =
     \<lparr> pe_instructions = ''help'',
       pe_converse = \<lambda>n cv. (if n = 1 then Inl (TransientFailure ''slow down'' (Some 1))
                             else if n < 4 then Inr sample_turn
                             else Inr \<lparr> mt_text = ''30 seconds [1].'', mt_tool_calls = [],
                                        mt_prompt_tokens = 20, mt_completion_tokens = 5 \<rparr>),
       pe_rand = \<lambda>_. 0, pe_registry = [(''search'', sample_tool)], pe_count_tokens = length, pe_repr = id,
       pe_repr_name = id, pe_sha256 = id, pe_max_hops = 6, pe_finding_budget = 1200, pe_max_tokens = 700 \<rparr>"


lemma sample_run_ends:
  "(case run sample_env ''lease?'' None of
      (Inr t, n, _) \<Rightarrow> n = 5 \<and> hops_of t = 3 \<and> tj_stopped_because t = NO_NEW_INFORMATION \<and>
                       map st_novel (tj_steps t) = [True, False, False] \<and> length (tj_citations t) = 1 \<and>
                       list_all acted (tj_steps t)
    | _ \<Rightarrow> False)"
  by code_simp


lemma sample_run:
  obtains t slept where "run sample_env ''lease?'' None = (Inr t, 5, slept)" and "hops_of t = 3"
    and "tj_stopped_because t = NO_NEW_INFORMATION" and "map st_novel (tj_steps t) = [True, False, False]"
    and "tj_citations t \<noteq> []" and "list_all acted (tj_steps t)"
proof -
  obtain res n slept where eq: "run sample_env ''lease?'' None = (res, n, slept)" by (metis surj_pair)
  with sample_run_ends obtain t where "res = Inr t" "n = 5" "hops_of t = 3" "tj_stopped_because t = NO_NEW_INFORMATION"
    "map st_novel (tj_steps t) = [True, False, False]" "length (tj_citations t) = 1" "list_all acted (tj_steps t)"
    by (cases res) auto
  with eq that [of t slept] show ?thesis by force
qed

lemma sample_env_budget: "0 < pe_finding_budget sample_env"
  by (simp add: sample_env_def)

lemma sample_hop_limit: "hop_limit sample_env None = 6"
  by (simp add: hop_limit_def sample_env_def)

definition sample_steps :: "string agent_step list" where
  "sample_steps =
     map (\<lambda>k. step_of sample_turn (hd (mt_tool_calls sample_turn))
                \<lparr> tr_content = ''hit '' @ show_nat k, tr_citations = [sample_citation], tr_truncated = False \<rparr> True)
       [0..<5]"

theorem compaction_keeps_the_newest_that_fit_witness:
  "\<exists>h. compact_steps id length 200 2 sample_steps = Inr h \<and> length (cm_verbatim h) = 2 \<and> int (cm_tokens h) \<le> 200"
proof -
  have "filter acted sample_steps = sample_steps" by (simp add: sample_steps_def acted_def filter_map comp_def)
  then have "min 2 (length (filter acted sample_steps)) = 2" by (simp add: sample_steps_def)
  with compaction_keeps_the_newest_that_fit [of 200 id length 2 sample_steps] show ?thesis by auto
qed

theorem retries_are_bounded_witness:
  "\<exists>r j slept. planner_converse sample_env [] [] [] (1, 0) = (r, 1 + j + 1, slept) \<and> j < RETRY_ATTEMPTS \<and> slept \<le> 0 + 120"
proof -
  obtain r n slept where "planner_converse sample_env [] [] [] (1, 0) = (r, n, slept)" by (metis surj_pair)
  with retries_are_bounded [OF this] show ?thesis by blast
qed

theorem a_run_returns_within_its_budget_witness:
  "\<exists>t n slept. run sample_env ''lease?'' None = (Inr t, n, slept) \<and> tj_model_calls t \<le> 7 \<and> n \<le> 35"
  using a_run_returns_within_its_budget [OF sample_env_budget, of "''lease?''" None]
  by (auto simp: sample_hop_limit RETRY_ATTEMPTS_def)

theorem a_run_says_why_it_stopped_witness:
  "\<exists>t tel init a b. run sample_env ''lease?'' None = (Inr t, tel) \<and> tj_answer t \<noteq> None \<and>
     tj_steps t = init @ [a, b] \<and> \<not> st_novel a \<and> \<not> st_novel b"
proof -
  obtain t slept where run: "run sample_env ''lease?'' None = (Inr t, 5, slept)" and "tj_stopped_because t = NO_NEW_INFORMATION"
    by (rule sample_run)
  with a_run_says_why_it_stopped [OF sample_env_budget run] show ?thesis by auto
qed

theorem novelty_is_what_earlier_hops_did_not_show_witness:
  "\<exists>t tel earlier s later r. run sample_env ''lease?'' None = (Inr t, tel) \<and> tj_steps t = earlier @ s # later \<and>
     st_result s = Some r \<and> \<not> news (pe_sha256 sample_env) earlier r"
proof -
  obtain t slept where run: "run sample_env ''lease?'' None = (Inr t, 5, slept)"
    and novel: "map st_novel (tj_steps t) = [True, False, False]" and acted: "list_all acted (tj_steps t)"
    by (rule sample_run)
  from novel obtain s0 s s2 where steps: "tj_steps t = [s0] @ s # [s2]" "\<not> st_novel s" by auto
  with acted obtain r where "st_result s = Some r" by (auto simp: acted_def)
  with steps novelty_is_what_earlier_hops_did_not_show [OF sample_env_budget run steps(1)] run show ?thesis by blast
qed


end
