(* ===== verification/Graph_Expand.thy ===== *)
theory Graph_Expand
  imports Stores
begin

text \<open>
  Expansion through the graph of entities: \<^verbatim>\<open>application/graph_expand.py\<close> and the Python half of
  \<^verbatim>\<open>Neo4jGraphStore.reach\<close> (\<^verbatim>\<open>adapters/graph/neo4j_store.py\<close>). What Neo4j answers to the three queries is a
  parameter and may be an exception; \<open>math.log\<close> is \<^const>\<open>ln\<close>. Durations are left out.
\<close>

section \<open>Entities and their frequencies\<close>

record entity_mention =
  em_entity :: nat
  em_memory :: nat

record entity_row =
  er_id :: nat
  er_merged_into :: "nat option"

record entity_tables =
  et_mentions :: "entity_mention list"
  et_entities :: "entity_row list"

record entity_stats =
  es_documents :: nat
  es_frequency :: "(nat \<times> nat) list"
  es_hub_ratio :: pyfloat

definition hub_threshold :: "entity_stats \<Rightarrow> int" where
  "hub_threshold st = max 2 \<lceil>of_nat (es_documents st) * es_hub_ratio st\<rceil>"

definition hubs :: "entity_stats \<Rightarrow> nat list" where
  "hubs st = map fst (filter (\<lambda>(_, n). hub_threshold st \<le> int n) (es_frequency st))"

definition idf :: "entity_stats \<Rightarrow> nat \<Rightarrow> pyfloat" where
  "idf st entity_id =
     ln (1 + of_nat (es_documents st) / of_nat (max 1 (dict_get (es_frequency st) entity_id 1)))"

definition live_memory :: "library \<Rightarrow> nat \<Rightarrow> bool" where
  "live_memory l i = (case memory_get i l of None \<Rightarrow> False | Some m \<Rightarrow> m_is_current m \<and> m_deleted_at m = None)"

definition unmerged :: "entity_tables \<Rightarrow> nat \<Rightarrow> bool" where
  "unmerged et e \<longleftrightarrow> list_ex (\<lambda>r. er_id r = e \<and> er_merged_into r = None) (et_entities et)"

text \<open>The denominator counts every mentioned live memory, merged entities included; the frequencies do not.\<close>

definition count_entities :: "library \<Rightarrow> entity_tables \<Rightarrow> pyfloat \<Rightarrow> entity_stats" where
  "count_entities l et hub_ratio =
     (let live = filter (\<lambda>r. live_memory l (em_memory r)) (et_mentions et);
          counted = filter (\<lambda>r. unmerged et (em_entity r)) live
      in \<lparr> es_documents = card (set (map em_memory live)),
           es_frequency = map (\<lambda>e. (e, card (set (map em_memory (filter (\<lambda>r. em_entity r = e) counted)))))
                            (keep_first (map em_entity counted)),
           es_hub_ratio = hub_ratio \<rparr>)"

section \<open>What the graph reached\<close>

record graph_reach =
  gr_memory_id :: nat
  gr_chunk_ordinal :: nat
  gr_entity_id :: nat
  gr_hops :: int
  gr_route :: "string list"

record graph_db =
  gd_mention_edges :: "nat list \<Rightarrow> (nat \<times> nat) list result"
  gd_direct :: "nat list \<Rightarrow> nat \<Rightarrow> graph_reach list result"
  gd_traversed :: "nat list \<Rightarrow> int \<Rightarrow> nat list \<Rightarrow> nat \<Rightarrow> graph_reach list result"

definition MAX_DEPTH :: int where
  "MAX_DEPTH = 6"

definition checked_depth :: "int \<Rightarrow> int result" where
  "checked_depth depth = (if 1 \<le> depth \<and> depth \<le> MAX_DEPTH then Inr depth else Inl ValueError)"

definition checked_entity_depth :: "int \<Rightarrow> int result" where
  "checked_entity_depth depth = (if 1 \<le> depth \<and> depth \<le> MAX_DEPTH div 2 then Inr depth else Inl ValueError)"

fun route_of :: "string list \<Rightarrow> string list \<Rightarrow> string list" where
  "route_of route [] = route"
| "route_of route (name # names) =
     route_of (if route = [] \<or> last route \<noteq> name then route @ [name] else route) names"

definition reach_key :: "graph_reach \<Rightarrow> int \<times> string \<times> string" where
  "reach_key r = (gr_hops r, show_nat (gr_memory_id r), show_nat (gr_entity_id r))"

definition reach :: "graph_db \<Rightarrow> nat list \<Rightarrow> int \<Rightarrow> nat list \<Rightarrow> nat \<Rightarrow> graph_reach list result" where
  "reach g seed_entity_ids depth exclude_entity_ids limit =
     (if seed_entity_ids = [] \<or> limit = 0 then Inr []
      else
        bind_result (checked_entity_depth depth) (\<lambda>d.
        bind_result (checked_depth (d * 2)) (\<lambda>bounded.
        bind_result (gd_direct g seed_entity_ids limit) (\<lambda>direct.
        bind_result (gd_traversed g seed_entity_ids bounded exclude_entity_ids limit) (\<lambda>rest.
          Inr (take limit (sort_key reach_key
            (map (\<lambda>r. r\<lparr> gr_route := route_of [] (gr_route r) \<rparr>) (direct @ rest)))))))))"

section \<open>Scoring\<close>

type_synonym place = "nat \<times> nat"

record graph_scores =
  gs_scores :: "(place \<times> pyfloat) list"
  gs_best_route :: "(place \<times> int \<times> pyfloat \<times> string list) list"
  gs_seen :: "(place \<times> nat) list"

definition reach_place :: "graph_reach \<Rightarrow> place" where
  "reach_place r = (gr_memory_id r, gr_chunk_ordinal r)"

definition reach_weight :: "entity_stats \<Rightarrow> graph_reach \<Rightarrow> pyfloat" where
  "reach_weight st r = idf st (gr_entity_id r) / of_int (max 1 (gr_hops r))"

definition better_route :: "int \<times> pyfloat \<times> string list \<Rightarrow> (int \<times> pyfloat \<times> string list) option \<Rightarrow> bool" where
  "better_route candidate current =
     (case current of
        None \<Rightarrow> True
      | Some (hops, rarity, _) \<Rightarrow>
          fst candidate < hops \<or> fst candidate = hops \<and> fst (snd candidate) < rarity)"

definition score_reach :: "entity_stats \<Rightarrow> graph_scores \<Rightarrow> graph_reach \<Rightarrow> graph_scores" where
  "score_reach st gs r =
     (let place = reach_place r; marker = (place, gr_entity_id r);
          candidate = (gr_hops r, - idf st (gr_entity_id r), gr_route r)
      in if marker \<in> set (gs_seen gs) then gs
         else \<lparr> gs_scores = AList.update place (dict_get (gs_scores gs) place 0 + reach_weight st r) (gs_scores gs),
                gs_best_route = (if better_route candidate (map_of (gs_best_route gs) place)
                                 then AList.update place candidate (gs_best_route gs) else gs_best_route gs),
                gs_seen = marker # gs_seen gs \<rparr>)"

definition no_scores :: graph_scores where
  "no_scores = \<lparr> gs_scores = [], gs_best_route = [], gs_seen = [] \<rparr>"

definition place_key :: "place \<times> pyfloat \<Rightarrow> pyfloat \<times> string \<times> nat" where
  "place_key p = (- snd p, show_nat (fst (fst p)), snd (fst p))"

definition score_reached :: "entity_stats \<Rightarrow> graph_reach list \<Rightarrow> (place \<times> pyfloat \<times> string list) list" where
  "score_reached st reached =
     (let gs = foldl (score_reach st) no_scores reached
      in map (\<lambda>(place, score). (place, score, snd (snd (the (map_of (gs_best_route gs) place)))))
           (sort_key place_key (gs_scores gs)))"

section \<open>Candidates\<close>

record graph_candidates =
  gc_chunks :: "scored_chunk list"
  gc_routes :: "(string \<times> string list) list"
  gc_seeds :: nat
  gc_hubs_excluded :: nat
  gc_reached :: nat

definition no_candidates :: graph_candidates where
  "no_candidates = \<lparr> gc_chunks = [], gc_routes = [], gc_seeds = 0, gc_hubs_excluded = 0, gc_reached = 0 \<rparr>"

definition chunk_key :: "scored_chunk \<Rightarrow> string" where
  "chunk_key c = show_nat (sk_chunk_id c)"

definition gc_ranking :: "graph_candidates \<Rightarrow> string list" where
  "gc_ranking gc = map chunk_key (gc_chunks gc)"

text \<open>The rows are read by memory alone: no clause on the version or on the tombstone.\<close>

fun as_chunks ::
  "library \<Rightarrow> (place \<times> pyfloat \<times> string list) list \<Rightarrow> scored_chunk list \<times> (string \<times> string list) list" where
  "as_chunks l [] = ([], [])"
| "as_chunks l (((memory_id, ordinal), score, route) # scored) =
     (let (chunks, routes) = as_chunks l scored
      in case find (\<lambda>p. ps_ordinal p = ordinal) (rev (passages_of memory_id l)) of
           None \<Rightarrow> (chunks, routes)
         | Some p \<Rightarrow> (chunk_with_score score p # chunks, (show_nat (ps_id p), route) # routes))"

record expander =
  ex_graph :: graph_db
  ex_depth :: int
  ex_hub_ratio :: pyfloat
  ex_seed_memories :: nat
  ex_reach_limit :: nat

definition expand_body ::
  "expander \<Rightarrow> library \<Rightarrow> entity_tables \<Rightarrow> nat list \<Rightarrow> nat list \<Rightarrow> graph_candidates result" where
  "expand_body ex l et seeds exclude =
     (let st = count_entities l et (ex_hub_ratio ex); hub_ids = hubs st
      in bind_result (gd_mention_edges (ex_graph ex) seeds) (\<lambda>mentioned.
           let seed_entities = sorted_list_of_set (set (map snd mentioned) - set hub_ids)
           in if seed_entities = []
              then Inr (no_candidates\<lparr> gc_seeds := length seeds, gc_hubs_excluded := length hub_ids \<rparr>)
              else
                bind_result (reach (ex_graph ex) seed_entities (ex_depth ex) (sort hub_ids) (ex_reach_limit ex)) (\<lambda>reached.
                let known = set seeds \<union> set exclude;
                    useful = filter (\<lambda>r. gr_memory_id r \<notin> known) reached;
                    (chunks, routes) = as_chunks l (score_reached st useful)
                in Inr \<lparr> gc_chunks = chunks, gc_routes = routes, gc_seeds = length seeds,
                         gc_hubs_excluded = length hub_ids,
                         gc_reached = card (set (map gr_memory_id useful)) \<rparr>)))"

definition expand_through_graph ::
  "expander \<Rightarrow> library \<Rightarrow> entity_tables \<Rightarrow> nat list \<Rightarrow> nat list \<Rightarrow> graph_candidates" where
  "expand_through_graph ex l et seed_memory_ids exclude =
     (let seeds = take (ex_seed_memories ex) seed_memory_ids
      in if seeds = [] then no_candidates
         else case expand_body ex l et seeds exclude of Inl _ \<Rightarrow> no_candidates | Inr gc \<Rightarrow> gc)"

end
