(* ===== verification/Signals.thy ===== *)
theory Signals
  imports Pystring
begin

text \<open>
  Ranking signals of an item: \<^verbatim>\<open>domain/signals.py\<close>. Powers and logarithms are the real functions.
\<close>

definition DEFAULT_HALF_LIFE_DAYS :: pyfloat where
  "DEFAULT_HALF_LIFE_DAYS = 180"

definition UNKNOWN_RECENCY :: pyfloat where
  "UNKNOWN_RECENCY = 1 / 2"

definition CHUNK_SATURATION :: pyfloat where
  "CHUNK_SATURATION = 64"

definition VERSION_SATURATION :: pyfloat where
  "VERSION_SATURATION = 12"

definition WEIGHT_SIZE :: pyfloat where
  "WEIGHT_SIZE = 3 / 10"

definition WEIGHT_REVISIONS :: pyfloat where
  "WEIGHT_REVISIONS = 45 / 100"

definition WEIGHT_FRESHNESS :: pyfloat where
  "WEIGHT_FRESHNESS = 25 / 100"

definition recency_score :: "time option \<Rightarrow> time \<Rightarrow> pyfloat \<Rightarrow> pyfloat result" where
  "recency_score occurred_at now half_life_days =
     (case occurred_at of
        None \<Rightarrow> Inr UNKNOWN_RECENCY
      | Some t \<Rightarrow>
          if half_life_days \<le> 0 then Inl ValueError
          else let age_days = total_seconds (now - t) / 86400 in Inr (2 powr (- age_days / half_life_days)))"

definition log1p :: "pyfloat \<Rightarrow> pyfloat" where
  "log1p x = ln (1 + x)"

definition importance_score ::
  "int \<Rightarrow> int \<Rightarrow> time option \<Rightarrow> time \<Rightarrow> pyfloat \<Rightarrow> pyfloat result" where
  "importance_score chunk_count version_count last_edited_at now half_life_days =
     (if chunk_count < 0 \<or> version_count < 0 then Inl ValueError
      else
        let size = log1p (min (of_int chunk_count) CHUNK_SATURATION) / log1p CHUNK_SATURATION;
            revisions = log1p (min (of_int (max (version_count - 1) 0)) VERSION_SATURATION) / log1p VERSION_SATURATION
        in bind_result (recency_score last_edited_at now half_life_days) (\<lambda>freshness.
             Inr (max 0 (min 1 (WEIGHT_SIZE * size + WEIGHT_REVISIONS * revisions +
                                WEIGHT_FRESHNESS * min freshness 1)))))"

section \<open>What the signals promise\<close>

text \<open>A score is positive, halves with every half-life and orders items by their date.\<close>

lemma recency_monotone:
  assumes "0 < h" and "s \<le> t"
    and "recency_score (Some s) now h = Inr a" and "recency_score (Some t) now h = Inr b"
  shows "0 < a" and "a \<le> b"
proof -
  have "- (total_seconds (now - s) / 86400) / h \<le> - (total_seconds (now - t) / 86400) / h"
    using assms(1,2) by (intro divide_right_mono) (auto simp: total_seconds_def time_units divide_right_mono)
  then show "0 < a" "a \<le> b" using assms by (auto simp: recency_score_def intro!: powr_mono)
qed

lemma log1p_ratio:
  assumes "0 \<le> x" and "0 < s"
  shows "0 \<le> log1p (min x s) / log1p s" and "log1p (min x s) / log1p s \<le> 1"
proof -
  have "0 \<le> log1p (min x s)" "log1p (min x s) \<le> log1p s" "0 < log1p s"
    using assms by (auto simp: log1p_def)
  then show "0 \<le> log1p (min x s) / log1p s" "log1p (min x s) / log1p s \<le> 1" by simp_all
qed

text \<open>The clamp of \<^const>\<open>importance_score\<close> changes nothing: the weighted sum is within the column's bounds.\<close>

lemma importance_bounds:
  assumes "importance_score c v e now h = Inr s"
  shows "0 \<le> s \<and> s \<le> 1 \<and>
         (\<exists>f. recency_score e now h = Inr f \<and>
            s = WEIGHT_SIZE * (log1p (min (of_int c) CHUNK_SATURATION) / log1p CHUNK_SATURATION) +
                WEIGHT_REVISIONS * (log1p (min (of_int (max (v - 1) 0)) VERSION_SATURATION) / log1p VERSION_SATURATION) +
                WEIGHT_FRESHNESS * min f 1)"
proof -
  let ?a = "log1p (min (of_int c) CHUNK_SATURATION) / log1p CHUNK_SATURATION"
  let ?b = "log1p (min (of_int (max (v - 1) 0)) VERSION_SATURATION) / log1p VERSION_SATURATION"
  obtain f where "0 \<le> c" and f: "recency_score e now h = Inr f"
    and s: "s = max 0 (min 1 (WEIGHT_SIZE * ?a + WEIGHT_REVISIONS * ?b + WEIGHT_FRESHNESS * min f 1))"
    using assms by (auto simp: importance_score_def Let_def bind_result_Inr_iff split: if_splits)
  have a: "0 \<le> ?a" "?a \<le> 1" using \<open>0 \<le> c\<close> by (intro log1p_ratio; simp add: CHUNK_SATURATION_def)+
  have b: "0 \<le> ?b" "?b \<le> 1" by (intro log1p_ratio; simp add: VERSION_SATURATION_def)+
  have "0 \<le> f"
    using f by (auto simp: recency_score_def UNKNOWN_RECENCY_def Let_def split: option.splits if_splits)
  then have c: "0 \<le> min f 1" "min f 1 \<le> 1" by simp_all
  have "0 \<le> WEIGHT_SIZE * ?a + WEIGHT_REVISIONS * ?b + WEIGHT_FRESHNESS * min f 1"
    using a b c by (simp add: WEIGHT_SIZE_def WEIGHT_REVISIONS_def WEIGHT_FRESHNESS_def)
  moreover have "WEIGHT_SIZE * ?a + WEIGHT_REVISIONS * ?b + WEIGHT_FRESHNESS * min f 1 \<le> 1"
    using a b c unfolding WEIGHT_SIZE_def WEIGHT_REVISIONS_def WEIGHT_FRESHNESS_def by linarith
  ultimately show ?thesis using f s by auto
qed

end
