(* ===== verification/Retrieval.thy ===== *)
theory Retrieval
  imports Pystring "HOL-Library.Product_Lexorder"
begin

text \<open>
  Rank fusion and its evaluation: \<^verbatim>\<open>domain/fusion.py\<close> and \<^verbatim>\<open>application/metrics.py\<close>. Scores are exact
  reals, so that a sum does not depend on the order of its terms.
\<close>

section \<open>Reciprocal rank fusion\<close>

definition DEFAULT_RRF_K :: int where
  "DEFAULT_RRF_K = 60"

definition contribution :: "int \<Rightarrow> int \<Rightarrow> pyfloat result" where
  "contribution k rank =
     (if rank < 1 then Inl ValueError
      else if k + rank = 0 then Inl ZeroDivisionError
      else Inr (1 / of_int (k + rank)))"

text \<open>The loop over one ranking; \<open>position\<close> counts repeated ids too.\<close>

fun fuse_ranking ::
  "int \<Rightarrow> pyfloat \<Rightarrow> int \<Rightarrow> string list \<Rightarrow> string list \<Rightarrow> (string \<times> pyfloat) list \<Rightarrow> (string \<times> pyfloat) list"
where
  "fuse_ranking k weight position seen [] scores = scores"
| "fuse_ranking k weight position seen (x # xs) scores =
     (if x \<in> set seen then fuse_ranking k weight (position + 1) seen xs scores
      else fuse_ranking k weight (position + 1) (x # seen) xs
             (AList.update x (dict_get scores x 0 + weight / of_int (k + position)) scores))"

fun fuse_all ::
  "int \<Rightarrow> (string list \<times> pyfloat) list \<Rightarrow> (string \<times> pyfloat) list \<Rightarrow> (string \<times> pyfloat) list" where
  "fuse_all k [] scores = scores"
| "fuse_all k ((ranking, weight) # rest) scores =
     fuse_all k rest (fuse_ranking k weight 1 [] ranking scores)"

definition fused_key :: "string \<times> pyfloat \<Rightarrow> pyfloat \<times> string" where
  "fused_key p = (- snd p, fst p)"

definition reciprocal_rank_fusion ::
  "string list list \<Rightarrow> int \<Rightarrow> pyfloat list option \<Rightarrow> (string \<times> pyfloat) list result" where
  "reciprocal_rank_fusion rankings k weights =
     (if k < 0 then Inl ValueError
      else
        let resolved = (case weights of None \<Rightarrow> replicate (length rankings) 1 | Some ws \<Rightarrow> ws)
        in if length resolved \<noteq> length rankings then Inl ValueError
           else Inr (sort_key fused_key (fuse_all k (zip rankings resolved) [])))"

subsection \<open>The formula\<close>

fun rank_from :: "int \<Rightarrow> string \<Rightarrow> string list \<Rightarrow> int option" where
  "rank_from i x [] = None"
| "rank_from i x (y # ys) = (if y = x then Some i else rank_from (i + 1) x ys)"

definition rank_of :: "string \<Rightarrow> string list \<Rightarrow> int option" where
  "rank_of x ranking = rank_from 1 x ranking"

definition rank_term :: "int \<Rightarrow> string \<Rightarrow> string list \<times> pyfloat \<Rightarrow> pyfloat" where
  "rank_term k x rw = (case rank_of x (fst rw) of None \<Rightarrow> 0 | Some i \<Rightarrow> snd rw / of_int (k + i))"

definition fused_score :: "int \<Rightarrow> (string list \<times> pyfloat) list \<Rightarrow> string \<Rightarrow> pyfloat" where
  "fused_score k rws x = sum_list (map (rank_term k x) rws)"

lemma rank_from_None: "rank_from i x ys = None \<longleftrightarrow> x \<notin> set ys"
  by (induction ys arbitrary: i) auto

lemma rank_from_ge: "rank_from i x ys = Some j \<Longrightarrow> i \<le> j"
  by (induction ys arbitrary: i) (auto split: if_splits, fastforce)

lemma fuse_ranking_get:
  "dict_get (fuse_ranking k w i seen xs scores) x 0 =
   dict_get scores x 0 +
   (if x \<in> set seen then 0 else case rank_from i x xs of None \<Rightarrow> 0 | Some j \<Rightarrow> w / of_int (k + j))"
  by (induction k w i seen xs scores rule: fuse_ranking.induct)
     (auto simp: dict_get_update split: option.splits)

lemma fuse_ranking_keys:
  "fst ` set (fuse_ranking k w i seen xs scores) = fst ` set scores \<union> (set xs - set seen)"
  by (induction k w i seen xs scores rule: fuse_ranking.induct) auto

lemma fuse_ranking_distinct:
  "distinct (map fst scores) \<Longrightarrow> distinct (map fst (fuse_ranking k w i seen xs scores))"
  by (induction k w i seen xs scores rule: fuse_ranking.induct) (auto simp: distinct_update)

lemma fuse_all_get:
  "dict_get (fuse_all k rws scores) x 0 = dict_get scores x 0 + fused_score k rws x"
proof (induction k rws scores rule: fuse_all.induct)
  case (2 k ranking w rest scores)
  then show ?case
    by (simp add: fuse_ranking_get fused_score_def rank_term_def rank_of_def split: option.split)
qed (simp add: fused_score_def)

lemma fuse_all_keys:
  "fst ` set (fuse_all k rws scores) = fst ` set scores \<union> \<Union> (set ` fst ` set rws)"
  by (induction k rws scores rule: fuse_all.induct) (auto simp: fuse_ranking_keys)

lemma fuse_all_distinct:
  "distinct (map fst scores) \<Longrightarrow> distinct (map fst (fuse_all k rws scores))"
  by (induction k rws scores rule: fuse_all.induct) (auto simp: fuse_ranking_distinct)

lemma dict_get_member:
  assumes "distinct (map fst d)"
  shows "(x, v) \<in> set d \<longleftrightarrow> x \<in> fst ` set d \<and> dict_get d x dflt = v"
proof (cases "map_of d x")
  case None
  then have "x \<notin> fst ` set d" by (simp add: map_of_eq_None_iff)
  then show ?thesis by force
next
  case (Some u)
  then have "(x, u) \<in> set d" by (rule map_of_SomeD)
  moreover have "(x, v) \<in> set d \<longleftrightarrow> map_of d x = Some v" using assms by simp
  ultimately show ?thesis using Some by (force simp: dict_get_def)
qed

lemma fuse_all_set:
  "set (fuse_all k rws []) = {(x, fused_score k rws x) | x. x \<in> \<Union> (set ` fst ` set rws)}"
proof -
  have "distinct (map fst (fuse_all k rws []))" by (rule fuse_all_distinct) simp
  then have "(x, v) \<in> set (fuse_all k rws []) \<longleftrightarrow>
      x \<in> \<Union> (set ` fst ` set rws) \<and> fused_score k rws x = v" for x v
    using dict_get_member [of "fuse_all k rws []" x v 0] fuse_all_keys [of k rws "[]"]
      fuse_all_get [of k rws "[]" x]
    by (simp add: dict_get_def)
  then show ?thesis by auto
qed

text \<open>A list sorted by a key that tells its elements apart is determined by its set.\<close>

lemma sorted_key_unique:
  fixes f :: "'a \<Rightarrow> 'b::linorder"
  assumes "sorted (map f xs)" and "sorted (map f ys)" and "distinct xs" and "distinct ys"
    and "set xs = set ys" and "inj_on f (set xs)"
  shows "xs = ys"
proof (rule map_inj_on)
  show "map f xs = map f ys"
    using assms by (intro sorted_distinct_set_unique) (auto simp: distinct_map)
  show "inj_on f (set xs \<union> set ys)" using assms by simp
qed

lemma inj_fused_key: "inj fused_key"
  by (auto simp: inj_def fused_key_def prod_eq_iff)

lemma fusion_runs:
  assumes "0 \<le> k" and "length ws = length rankings"
  shows "reciprocal_rank_fusion rankings k (Some ws) =
         Inr (sort_key fused_key (fuse_all k (zip rankings ws) []))"
  using assms by (simp add: reciprocal_rank_fusion_def)

text \<open>Fusion implements its formula: the result lists every id of some ranking once, with the sum over
  the rankings that contain it of weight / (k + rank), in descending order of score, ties by id.\<close>

theorem fusion_implements_rrf:
  assumes "reciprocal_rank_fusion rankings k (Some ws) = Inr out"
  shows "set out = {(x, fused_score k (zip rankings ws) x) | x. x \<in> \<Union> (set ` set rankings)} \<and>
         distinct (map fst out) \<and> sorted (map fused_key out)"
proof -
  from assms have len: "length ws = length rankings"
    and out: "out = sort_key fused_key (fuse_all k (zip rankings ws) [])"
    by (auto simp: reciprocal_rank_fusion_def Let_def split: if_splits)
  have keys: "fst ` set (zip rankings ws) = set rankings"
    using len by (metis list.set_map map_fst_zip)
  have "distinct (map fst (fuse_all k (zip rankings ws) []))" by (rule fuse_all_distinct) simp
  then have "distinct (map fst out)"
    unfolding out by (metis mset_eq_imp_distinct_iff mset_map mset_sort)
  then show ?thesis by (auto simp: out fuse_all_set keys)
qed

text \<open>The order of the retrievers does not matter: rankings given in another order with their weights
  fuse to the same list.\<close>

theorem fusion_ignores_retriever_order:
  assumes "0 \<le> k" and "length ws = length rs" and "length ws' = length rs'"
    and "mset (zip rs ws) = mset (zip rs' ws')"
  shows "reciprocal_rank_fusion rs k (Some ws) = reciprocal_rank_fusion rs' k (Some ws')"
proof -
  let ?a = "fuse_all k (zip rs ws) []" and ?b = "fuse_all k (zip rs' ws') []"
  have score: "fused_score k (zip rs ws) x = fused_score k (zip rs' ws') x" for x
    unfolding fused_score_def using assms(4)
    by (metis mset_map sum_mset_sum_list)
  have sets: "set ?a = set ?b"
    unfolding fuse_all_set score using arg_cong [OF assms(4), of set_mset] by simp
  have dist: "distinct ?a" "distinct ?b"
    using fuse_all_distinct [of "[]" k] by (simp_all add: distinct_map)
  have "sort_key fused_key ?a = sort_key fused_key ?b"
    by (rule sorted_key_unique [where f = fused_key])
       (use sets dist inj_fused_key in \<open>auto simp: inj_on_def inj_def\<close>)
  then show ?thesis using assms by (simp add: fusion_runs)
qed

text \<open>Agreement outweighs enthusiasm: at the default k, an id that two retrievers both place within their
  first 61 outscores one that a single retriever places first.\<close>

theorem agreement_beats_enthusiasm:
  assumes "rank_of x r1 = Some i" and "rank_of x r2 = Some j" and "i \<le> 61" and "j \<le> 61"
    and "rank_of y r1 = Some 1" and "rank_of y r2 = None"
  shows "fused_score DEFAULT_RRF_K [(r1, 1), (r2, 1)] y < fused_score DEFAULT_RRF_K [(r1, 1), (r2, 1)] x"
proof -
  have pos: "1 \<le> i" "1 \<le> j" using assms(1,2) rank_from_ge by (auto simp: rank_of_def)
  have bound: "1 / 121 \<le> 1 / (60 + real_of_int n)" if "1 \<le> n" "n \<le> 61" for n
    using that by (intro divide_left_mono) (auto simp: add_pos_pos)
  have "fused_score DEFAULT_RRF_K [(r1, 1), (r2, 1)] y = 1 / 61"
    using assms by (simp add: fused_score_def rank_term_def DEFAULT_RRF_K_def)
  also have "\<dots> < 1 / 121 + 1 / 121" by simp
  also have "\<dots> \<le> 1 / (60 + real_of_int i) + 1 / (60 + real_of_int j)"
    using bound [OF pos(1) assms(3)] bound [OF pos(2) assms(4)] by (rule add_mono)
  also have "\<dots> = fused_score DEFAULT_RRF_K [(r1, 1), (r2, 1)] x"
    using assms by (simp add: fused_score_def rank_term_def DEFAULT_RRF_K_def)
  finally show ?thesis .
qed

section \<open>Retrieval metrics\<close>

definition recall_at_k :: "string list \<Rightarrow> string set \<Rightarrow> int \<Rightarrow> pyfloat" where
  "recall_at_k retrieved relevant k =
     (if relevant = {} \<or> k \<le> 0 then 0
      else of_nat (card (set (take (nat k) retrieved) \<inter> relevant)) / of_nat (card relevant))"

definition precision_at_k :: "string list \<Rightarrow> string set \<Rightarrow> int \<Rightarrow> pyfloat" where
  "precision_at_k retrieved relevant k =
     (if relevant = {} \<or> k \<le> 0 then 0
      else of_nat (card (set (take (nat k) retrieved) \<inter> relevant)) / of_int k)"

fun first_hit :: "nat \<Rightarrow> string list \<Rightarrow> string set \<Rightarrow> pyfloat" where
  "first_hit rank [] relevant = 0"
| "first_hit rank (x # xs) relevant =
     (if x \<in> relevant then 1 / of_nat rank else first_hit (Suc rank) xs relevant)"

definition reciprocal_rank :: "string list \<Rightarrow> string set \<Rightarrow> pyfloat" where
  "reciprocal_rank retrieved relevant = (if relevant = {} then 0 else first_hit 1 retrieved relevant)"

definition discount :: "nat \<Rightarrow> pyfloat" where
  "discount position = 1 / log 2 (of_nat position + 1)"

fun gain_from :: "nat \<Rightarrow> string list \<Rightarrow> string list \<Rightarrow> string set \<Rightarrow> pyfloat" where
  "gain_from position gained [] relevant = 0"
| "gain_from position gained (x # xs) relevant =
     (if x \<in> relevant \<and> x \<notin> set gained
      then discount position + gain_from (Suc position) (x # gained) xs relevant
      else gain_from (Suc position) gained xs relevant)"

definition ideal_gain :: "nat \<Rightarrow> pyfloat" where
  "ideal_gain n = sum_list (map discount [1..<n + 1])"

definition ndcg_at_k :: "string list \<Rightarrow> string set \<Rightarrow> int \<Rightarrow> pyfloat" where
  "ndcg_at_k retrieved relevant k =
     (if relevant = {} \<or> k \<le> 0 then 0
      else gain_from 1 [] (take (nat k) retrieved) relevant / ideal_gain (min (card relevant) (nat k)))"

record eval_result =
  er_k :: int
  er_retrieved :: "string list"
  er_relevant :: "string set"
  er_recall :: pyfloat
  er_precision :: pyfloat
  er_mrr :: pyfloat
  er_ndcg :: pyfloat

definition score_query :: "string list \<Rightarrow> string set \<Rightarrow> int \<Rightarrow> eval_result" where
  "score_query retrieved relevant k =
     \<lparr> er_k = k, er_retrieved = retrieved, er_relevant = relevant,
       er_recall = recall_at_k retrieved relevant k,
       er_precision = precision_at_k retrieved relevant k,
       er_mrr = reciprocal_rank retrieved relevant, er_ndcg = ndcg_at_k retrieved relevant k \<rparr>"

definition found :: "eval_result \<Rightarrow> string set" where
  "found r = set (take (nat (er_k r)) (er_retrieved r)) \<inter> er_relevant r"

definition missed :: "eval_result \<Rightarrow> string set" where
  "missed r = er_relevant r - found r"

lemma first_hit_bounds: "0 < rank \<Longrightarrow> 0 \<le> first_hit rank xs rel \<and> first_hit rank xs rel \<le> 1"
  by (induction rank xs rel rule: first_hit.induct) auto

lemma discount_pos: "0 < p \<Longrightarrow> 0 < discount p"
  by (simp add: discount_def)

lemma discount_antimono: "0 < p \<Longrightarrow> p \<le> q \<Longrightarrow> discount q \<le> discount p"
  unfolding discount_def by (intro divide_left_mono) (auto intro: mult_pos_pos)

lemma gain_from_nonneg: "0 < p \<Longrightarrow> 0 \<le> gain_from p g xs rel"
  by (induction p g xs rel rule: gain_from.induct) (auto intro: add_nonneg_nonneg less_imp_le discount_pos)

definition gains :: "nat \<Rightarrow> nat \<Rightarrow> pyfloat" where
  "gains a b = sum_list (map discount [a..<b])"

lemma gains_Cons: "a < b \<Longrightarrow> gains a b = discount a + gains (Suc a) b"
  by (simp add: gains_def upt_conv_Cons)

lemma gains_nonneg: "0 < a \<Longrightarrow> 0 \<le> gains a b"
  unfolding gains_def by (rule sum_list_nonneg_le) (auto intro!: less_imp_le discount_pos)

lemma gains_mono:
  assumes "0 < a" and "b \<le> c"
  shows "gains a b \<le> gains a c"
proof (cases "a \<le> b")
  case True
  with assms(2) have "[a..<c] = [a..<b] @ [b..<c]" by (metis le_iff_add upt_add_eq_append)
  then have "gains a c = gains a b + gains b c" by (simp add: gains_def)
  then show ?thesis using gains_nonneg [of b c] assms(1) True by simp
next
  case False
  then have "gains a b = 0" by (simp add: gains_def)
  then show ?thesis using gains_nonneg [OF assms(1), of c] by simp
qed

lemma ideal_gain_gains: "ideal_gain n = gains 1 (Suc n)"
  by (simp add: ideal_gain_def gains_def)

text \<open>The n-th gain is discounted at least as much as position n, where the ideal order would put it.\<close>

lemma gain_from_le:
  assumes "length g < p" and "finite rel" and "set g \<subseteq> rel" and "distinct g"
  shows "gain_from p g xs rel \<le> gains (Suc (length g)) (Suc (min (card rel) (length g + length xs)))"
  using assms
proof (induction p g xs rel rule: gain_from.induct)
  case (1 p g rel)
  then show ?case by (simp add: gains_nonneg)
next
  case (2 p g x xs rel)
  let ?N = "Suc (min (card rel) (length g + length (x # xs)))"
  show ?case
  proof (cases "x \<in> rel \<and> x \<notin> set g")
    case True
    have "card (set (x # g)) \<le> card rel" using True 2(4,5) by (intro card_mono) auto
    then have room: "Suc (length g) < ?N" using True 2(6) by (simp add: distinct_card)
    have IH: "gain_from (Suc p) (x # g) xs rel \<le> gains (Suc (Suc (length g))) ?N"
      using 2(1) [OF True] True 2(3-6) by simp
    have "discount p \<le> discount (Suc (length g))" using 2(3) by (intro discount_antimono) auto
    then have "discount p + gain_from (Suc p) (x # g) xs rel \<le> gains (Suc (length g)) ?N"
      unfolding gains_Cons [OF room] using IH by (rule add_mono)
    then show ?thesis using True by simp
  next
    case False
    have "gain_from (Suc p) g xs rel \<le> gains (Suc (length g)) (Suc (min (card rel) (length g + length xs)))"
      using 2(2) [OF False] 2(3-6) by simp
    also have "\<dots> \<le> gains (Suc (length g)) ?N" by (rule gains_mono) auto
    finally show ?thesis using False by auto
  qed
qed

lemma ideal_gain_pos: "0 < n \<Longrightarrow> 0 < ideal_gain n"
  using discount_pos [of 1] gains_nonneg [of 2 "Suc n"]
  by (simp add: ideal_gain_gains gains_Cons numeral_2_eq_2)

lemma ideal_gain_mono: "m \<le> n \<Longrightarrow> ideal_gain m \<le> ideal_gain n"
  by (simp add: ideal_gain_gains gains_mono)

text \<open>The metrics are normalised: recall, precision, reciprocal rank and nDCG of any retrieval lie between
  0 and 1, repeated ids included.\<close>

theorem metrics_are_normalised:
  assumes "finite relevant"
  shows "er_recall (score_query retrieved relevant k) \<in> {0..1} \<and>
         er_precision (score_query retrieved relevant k) \<in> {0..1} \<and>
         er_mrr (score_query retrieved relevant k) \<in> {0..1} \<and>
         er_ndcg (score_query retrieved relevant k) \<in> {0..1}"
proof -
  let ?top = "take (nat k) retrieved"
  have "card (set ?top \<inter> relevant) \<le> card relevant" using assms by (intro card_mono) auto
  then have recall: "recall_at_k retrieved relevant k \<in> {0..1}"
    by (auto simp: recall_at_k_def intro!: div_le_1)
  have "card (set ?top \<inter> relevant) \<le> card (set ?top)" by (intro card_mono) auto
  also have "\<dots> \<le> length ?top" by (rule card_length)
  also have "\<dots> \<le> nat k" by simp
  finally have precision: "precision_at_k retrieved relevant k \<in> {0..1}"
    by (auto simp: precision_at_k_def intro!: div_le_1)
  have mrr: "reciprocal_rank retrieved relevant \<in> {0..1}"
    using first_hit_bounds [of 1 retrieved relevant] by (auto simp: reciprocal_rank_def)
  have ndcg: "ndcg_at_k retrieved relevant k \<in> {0..1}"
  proof (cases "relevant = {} \<or> k \<le> 0")
    case False
    have "gain_from 1 [] ?top relevant \<le> ideal_gain (min (card relevant) (length ?top))"
      using gain_from_le [of "[]" 1 relevant ?top] assms by (simp add: ideal_gain_gains)
    also have "\<dots> \<le> ideal_gain (min (card relevant) (nat k))" by (rule ideal_gain_mono) simp
    finally have "gain_from 1 [] ?top relevant \<le> ideal_gain (min (card relevant) (nat k))" .
    moreover have "0 < ideal_gain (min (card relevant) (nat k))"
      using False assms by (intro ideal_gain_pos) (auto simp: card_gt_0_iff)
    ultimately show ?thesis
      using False gain_from_nonneg [of 1 "[]" ?top relevant]
      by (auto simp: ndcg_at_k_def intro!: div_le_1 divide_nonneg_pos)
  qed (auto simp: ndcg_at_k_def)
  show ?thesis using recall precision mrr ndcg by (simp add: score_query_def)
qed

text \<open>A retrieval that puts every relevant item first, in any order and without repeats, has an nDCG of 1
  at every cut-off, and recall 1 once the cut-off covers them.\<close>

theorem perfect_retrieval_scores_one:
  assumes "distinct hits" and "hits \<noteq> []" and "0 < k"
  shows "ndcg_at_k (hits @ rest) (set hits) k = 1 \<and>
         (int (length hits) \<le> k \<longrightarrow> recall_at_k (hits @ rest) (set hits) k = 1)"
proof -
  have all: "gain_from p g (xs @ ys) rel = gains p (p + length xs) + gain_from (p + length xs) (rev xs @ g) ys rel"
    if "distinct xs" "set xs \<subseteq> rel" "set xs \<inter> set g = {}" "0 < p" for p g xs ys rel
    using that
  proof (induction xs arbitrary: p g)
    case (Cons x xs)
    then show ?case
      using Cons.IH [where p = "Suc p" and g = "x # g"] by (simp add: gains_Cons)
  qed (simp add: gains_def)
  have none: "gain_from p g ys rel = 0" if "rel \<subseteq> set g" for p g ys rel
    using that by (induction p g ys rel rule: gain_from.induct) auto
  let ?n = "min (length hits) (nat k)"
  have "take (nat k) (hits @ rest) = take (nat k) hits @ take (nat k - length hits) rest" by simp
  also have "gain_from 1 [] \<dots> (set hits) = gains 1 (1 + ?n) +
      gain_from (1 + ?n) (rev (take (nat k) hits)) (take (nat k - length hits) rest) (set hits)"
    using all [where xs = "take (nat k) hits" and rel = "set hits" and g = "[]" and p = 1] assms(1)
    by (simp add: set_take_subset min.commute)
  also have "gain_from (1 + ?n) (rev (take (nat k) hits)) (take (nat k - length hits) rest) (set hits) = 0"
    by (cases "nat k \<le> length hits") (simp_all add: none)
  finally have "gain_from 1 [] (take (nat k) (hits @ rest)) (set hits) = ideal_gain ?n"
    by (simp add: ideal_gain_gains)
  moreover have "0 < ideal_gain ?n" using assms by (intro ideal_gain_pos) simp
  moreover have "card (set hits) = length hits" using assms(1) by (rule distinct_card)
  moreover have "set (take (nat k) (hits @ rest)) \<inter> set hits = set hits" if "int (length hits) \<le> k"
    using that by (auto simp: nat_le_iff)
  ultimately show ?thesis using assms by (auto simp: ndcg_at_k_def recall_at_k_def)
qed

section \<open>Witnesses\<close>

lemma fusion_implements_witness:
  "\<exists>out. reciprocal_rank_fusion [[''a'', ''b''], [''b'']] 60 (Some [1, 1]) = Inr out \<and>
     distinct (map fst out) \<and> (''b'', 1 / 62 + 1 / 61) \<in> set out"
proof -
  let ?rs = "[[''a'', ''b''], [''b'']]"
  obtain out where run: "reciprocal_rank_fusion ?rs 60 (Some [1, 1]) = Inr out"
    using fusion_runs [of 60 "[1, 1]" ?rs] by simp
  note out = fusion_implements_rrf [OF this]
  have "fused_score 60 (zip ?rs [1, 1]) ''b'' = 1 / 62 + 1 / 61"
    by (simp add: fused_score_def rank_term_def rank_of_def)
  with out have "(''b'', 1 / 62 + 1 / 61) \<in> set out" by force
  with run out show ?thesis by blast
qed

lemma fusion_ignores_order_witness:
  "reciprocal_rank_fusion [[''a''], [''b'']] 60 (Some [1, 2]) =
   reciprocal_rank_fusion [[''b''], [''a'']] 60 (Some [2, 1])"
  by (rule fusion_ignores_retriever_order) (simp_all add: add_mset_commute)

lemma agreement_witness:
  "fused_score DEFAULT_RRF_K [([''y'', ''z'', ''x''], 1), ([''z'', ''w'', ''x''], 1)] ''y'' <
   fused_score DEFAULT_RRF_K [([''y'', ''z'', ''x''], 1), ([''z'', ''w'', ''x''], 1)] ''x''"
  by (rule agreement_beats_enthusiasm [where i = 3 and j = 3]) (simp_all add: rank_of_def)

lemma metrics_witness: "er_ndcg (score_query [''a'', ''a'', ''b''] {''b'', ''c''} 2) \<in> {0..1}"
  using metrics_are_normalised [of "{''b'', ''c''}" "[''a'', ''a'', ''b'']" 2] by simp

lemma perfect_retrieval_witness: "ndcg_at_k [''b'', ''a'', ''z''] {''a'', ''b''} 2 = 1"
  using perfect_retrieval_scores_one [of "[''b'', ''a'']" 2 "[''z'']"] by (simp add: insert_commute)

end
