(* ===== verification/Regex.thy ===== *)
theory Regex
  imports Sentences
begin

text \<open>
  The part of Python's \<^verbatim>\<open>re\<close> the modelled patterns use. \<open>run s r\<close> gives the ends of the matches of \<open>r\<close>
  from a position, in the order backtracking tries them, each with its named groups; the first is the
  match Python reports. Every pattern is compiled with \<^verbatim>\<open>re.IGNORECASE\<close>, so a literal is compared lowered.
  Repetition is over single characters only, which is all the patterns repeat: no match loops.
\<close>

datatype rx =
    Lit string
  | Chr "char \<Rightarrow> bool"
  | Edge
  | Then rx rx
  | Or rx rx
  | Maybe rx
  | Many "char \<Rightarrow> bool" nat "nat option"
  | Group string rx

type_synonym groups = "(string \<times> string) list"

text \<open>Lowering a character reads its bits; evaluation uses this equation.\<close>

lemma lower_char_bits [code]:
  "lower_char (Char b0 b1 b2 b3 b4 b5 b6 b7) =
     (if \<not> b7 \<and> b6 \<and> \<not> b5 \<and> (b0 \<or> b1 \<or> b2 \<or> b3 \<or> b4) \<and>
         \<not> (b4 \<and> b3 \<and> (b2 \<or> b0 \<and> b1))
      then Char b0 b1 b2 b3 b4 True b6 b7 else Char b0 b1 b2 b3 b4 b5 b6 b7)"
  by (cases b0; cases b1; cases b2; cases b3; cases b4; cases b5; cases b6; cases b7;
      simp add: lower_char_def char_of_def bit_Suc_0_iff)

definition at_word :: "string \<Rightarrow> nat \<Rightarrow> bool" where
  "at_word s i \<longleftrightarrow> i < length s \<and> is_word (s ! i)"

definition at_edge :: "string \<Rightarrow> nat \<Rightarrow> bool" where
  "at_edge s i \<longleftrightarrow> (0 < i \<and> at_word s (i - 1)) \<noteq> at_word s i"

definition lit_at :: "string \<Rightarrow> nat \<Rightarrow> string \<Rightarrow> bool" where
  "lit_at s i w \<longleftrightarrow> i + length w \<le> length s \<and> lower (slice s i (i + length w)) = lower w"

definition run_length :: "(char \<Rightarrow> bool) \<Rightarrow> nat option \<Rightarrow> string \<Rightarrow> nat \<Rightarrow> nat" where
  "run_length p most s i =
     (let n = length (takeWhile p (drop i s)) in case most of None \<Rightarrow> n | Some k \<Rightarrow> min k n)"

fun run :: "string \<Rightarrow> rx \<Rightarrow> nat \<times> groups \<Rightarrow> (nat \<times> groups) list" where
  "run s (Lit w) (i, g) = (if lit_at s i w then [(i + length w, g)] else [])"
| "run s (Chr p) (i, g) = (if i < length s \<and> p (s ! i) then [(i + 1, g)] else [])"
| "run s Edge (i, g) = (if at_edge s i then [(i, g)] else [])"
| "run s (Then a b) st = concat (map (run s b) (run s a st))"
| "run s (Or a b) st = run s a st @ run s b st"
| "run s (Maybe a) st = run s a st @ [st]"
| "run s (Many p least most) (i, g) =
     map (\<lambda>k. (i + k, g)) (rev [least ..< run_length p most s i + 1])"
| "run s (Group name a) (i, g) = map (\<lambda>(j, g'). (j, (name, slice s i j) # g')) (run s a (i, g))"

record rx_match =
  rm_start :: nat
  rm_end :: nat
  rm_groups :: groups

fun search_from :: "string \<Rightarrow> rx \<Rightarrow> nat list \<Rightarrow> rx_match option" where
  "search_from s r [] = None"
| "search_from s r (i # rest) =
     (case run s r (i, []) of
        [] \<Rightarrow> search_from s r rest
      | (j, g) # _ \<Rightarrow> Some \<lparr> rm_start = i, rm_end = j, rm_groups = g \<rparr>)"

definition rx_search :: "rx \<Rightarrow> string \<Rightarrow> rx_match option" where
  "rx_search r s = search_from s r [0 ..< length s + 1]"

text \<open>\<^verbatim>\<open>m.group(0)\<close> and \<^verbatim>\<open>m.group(name)\<close>; a group that took no part is \<^verbatim>\<open>None\<close>.\<close>

definition rm_text :: "string \<Rightarrow> rx_match \<Rightarrow> string" where
  "rm_text s m = slice s (rm_start m) (rm_end m)"

definition rm_group :: "string \<Rightarrow> rx_match \<Rightarrow> string option" where
  "rm_group name m = map_of (rm_groups m) name"

subsection \<open>Building patterns\<close>

fun seq :: "rx list \<Rightarrow> rx" where
  "seq [] = Many (\<lambda>_. False) 0 None"
| "seq [r] = r"
| "seq (r # r' # rs) = Then r (seq (r' # rs))"

fun any_of :: "rx list \<Rightarrow> rx" where
  "any_of [] = Chr (\<lambda>_. False)"
| "any_of [r] = r"
| "any_of (r # r' # rs) = Or r (any_of (r' # rs))"

definition words :: "string list \<Rightarrow> rx" where
  "words ws = any_of (map Lit ws)"

definition spaces :: rx where
  "spaces = Many is_space 1 None"

section \<open>Where a match lies\<close>

lemma run_bounds: "(j, h) \<in> set (run s r (i, g)) \<Longrightarrow> i \<le> length s \<Longrightarrow> i \<le> j \<and> j \<le> length s"
proof (induction r arbitrary: i g j h)
  case (Then a b)
  then obtain k f where "(k, f) \<in> set (run s a (i, g))" "(j, h) \<in> set (run s b (k, f))" by auto
  with Then show ?case by (meson order_trans)
next
  case (Many p least most)
  have "length (takeWhile p (drop i s)) \<le> length (drop i s)" by (rule length_takeWhile_le)
  then have "run_length p most s i \<le> length s - i"
    by (auto simp: run_length_def Let_def split: option.split)
  with Many show ?case by auto
next
  case (Group name a)
  then obtain f where "(j, f) \<in> set (run s a (i, g))" by auto
  with Group show ?case by blast
qed (auto simp: lit_at_def split: if_splits)

lemma search_from_Some:
  assumes "search_from s r ks = Some m"
  shows "rm_start m \<in> set ks \<and> (\<exists>rest. run s r (rm_start m, []) = (rm_end m, rm_groups m) # rest)"
  using assms by (induction ks) (auto split: list.splits)

lemma rx_search_Some:
  assumes "rx_search r s = Some m"
  shows "rm_start m \<le> rm_end m" and "rm_end m \<le> length s"
    and "\<exists>rest. run s r (rm_start m, []) = (rm_end m, rm_groups m) # rest"
proof -
  from search_from_Some [OF assms [unfolded rx_search_def]]
  have start: "rm_start m \<le> length s"
    and r: "\<exists>rest. run s r (rm_start m, []) = (rm_end m, rm_groups m) # rest" by auto
  from r have "(rm_end m, rm_groups m) \<in> set (run s r (rm_start m, []))"
    by (metis list.set_intros(1))
  from run_bounds [OF this start] show "rm_start m \<le> rm_end m" "rm_end m \<le> length s" by simp_all
  show "\<exists>rest. run s r (rm_start m, []) = (rm_end m, rm_groups m) # rest" by (rule r)
qed

section \<open>The words a match needs\<close>

text \<open>\<open>clauses r\<close>: of each clause, every text \<open>r\<close> matches contains a word.\<close>

fun clauses :: "rx \<Rightarrow> string list list" where
  "clauses (Lit w) = [[w]]"
| "clauses (Then a b) = clauses a @ clauses b"
| "clauses (Or a b) = [c @ d. c \<leftarrow> clauses a, d \<leftarrow> clauses b]"
| "clauses (Group name a) = clauses a"
| "clauses _ = []"

definition says :: "string \<Rightarrow> string list \<Rightarrow> bool" where
  "says s ws \<longleftrightarrow> list_ex (\<lambda>w. list_ex (\<lambda>i. lit_at s i w) [0 ..< length s + 1]) ws"

lemma saysI:
  assumes "lit_at s i w" and "w \<in> set ws"
  shows "says s ws"
proof -
  from assms(1) have "i < length s + 1" by (simp add: lit_at_def)
  then have "i \<in> set [0 ..< length s + 1]" by (simp only: atLeastLessThan_upt [symmetric]) simp
  with assms show ?thesis unfolding says_def list_ex_iff by blast
qed

lemma says_append [simp]: "says s (ws @ vs) \<longleftrightarrow> says s ws \<or> says s vs"
  by (simp add: says_def)

lemma run_says: "run s r (i, g) \<noteq> [] \<Longrightarrow> c \<in> set (clauses r) \<Longrightarrow> says s c"
proof (induction r arbitrary: i g c)
  case (Lit w)
  then show ?case by (auto split: if_splits intro: saysI)
next
  case (Then a b)
  then obtain k f where a: "(k, f) \<in> set (run s a (i, g))" and b: "run s b (k, f) \<noteq> []"
    by (auto simp: concat_eq_Nil_conv)
  from a have "run s a (i, g) \<noteq> []" by auto
  with Then b show ?case by auto
qed auto

lemma rx_search_says:
  assumes "rx_search r s = Some m" and "c \<in> set (clauses r)"
  shows "says s c"
  using rx_search_Some(3) [OF assms(1)] assms(2) by (metis list.distinct(1) run_says)

end
