(* ===== verification/Calendar.thy ===== *)
theory Calendar
  imports Pystring
begin

text \<open>
  The part of Python's \<^verbatim>\<open>datetime\<close> the code computes with: the proleptic Gregorian calendar of the years 1
  to 9999, in UTC. A time is its distance from 1970-01-01T00:00 in microseconds; what leaves the range
  raises \<open>OverflowError\<close>, a date that does not exist \<open>ValueError\<close>.
\<close>

definition is_leap :: "int \<Rightarrow> bool" where
  "is_leap y \<longleftrightarrow> y mod 4 = 0 \<and> (y mod 100 \<noteq> 0 \<or> y mod 400 = 0)"

definition days_before_year :: "int \<Rightarrow> int" where
  "days_before_year y = (let p = y - 1 in p * 365 + p div 4 - p div 100 + p div 400)"

definition days_in_month :: "int \<Rightarrow> int \<Rightarrow> int" where
  "days_in_month y m =
     (if m = 2 then if is_leap y then 29 else 28 else if m \<in> {4, 6, 9, 11} then 30 else 31)"

definition days_before_month :: "int \<Rightarrow> int \<Rightarrow> int" where
  "days_before_month y m = sum_list (map (days_in_month y) [1..m - 1])"

definition ymd2ord :: "int \<Rightarrow> int \<Rightarrow> int \<Rightarrow> int" where
  "ymd2ord y m d = days_before_year y + days_before_month y m + d"

definition UNIX_EPOCH_ORDINAL :: int where
  "UNIX_EPOCH_ORDINAL = 719163"

definition time_of_ordinal :: "int \<Rightarrow> time" where
  "time_of_ordinal n = days (n - UNIX_EPOCH_ORDINAL)"

definition ordinal_of :: "time \<Rightarrow> int" where
  "ordinal_of t = t div days 1 + UNIX_EPOCH_ORDINAL"

definition in_range :: "time \<Rightarrow> bool" where
  "in_range t \<longleftrightarrow> 1 \<le> ordinal_of t \<and> ordinal_of t \<le> 3652059"

definition datetime_at :: "int \<Rightarrow> int \<Rightarrow> int \<Rightarrow> time result" where
  "datetime_at y m d =
     (if 1 \<le> y \<and> y \<le> 9999 \<and> 1 \<le> m \<and> m \<le> 12 \<and> 1 \<le> d \<and> d \<le> days_in_month y m
      then Inr (time_of_ordinal (ymd2ord y m d)) else Inl ValueError)"

text \<open>The year and month of a day, as CPython's \<^verbatim>\<open>_ord2ymd\<close> finds them.\<close>

definition ord_year :: "int \<Rightarrow> int" where
  "ord_year n =
     (let a = (n - 1) div 146097; r = (n - 1) mod 146097;
          b = r div 36524; r2 = r mod 36524;
          c = r2 div 1461; r3 = r2 mod 1461;
          d = r3 div 365;
          y = a * 400 + b * 100 + c * 4 + d + 1
      in if d = 4 \<or> b = 4 then y - 1 else y)"

fun month_from :: "int \<Rightarrow> int \<Rightarrow> int list \<Rightarrow> int \<times> int" where
  "month_from y n [] = (12, n)"
| "month_from y n (m # ms) =
     (if n \<le> days_in_month y m then (m, n) else month_from y (n - days_in_month y m) ms)"

definition year_of :: "time \<Rightarrow> int" where
  "year_of t = ord_year (ordinal_of t)"

definition month_day_of :: "time \<Rightarrow> int \<times> int" where
  "month_day_of t = month_from (year_of t) (ordinal_of t - days_before_year (year_of t)) [1..12]"

text \<open>\<^verbatim>\<open>t.replace(year=y, month=m, day=d)\<close> keeps the time of day; \<^verbatim>\<open>t + timedelta\<close> checks the range.\<close>

definition time_of_day :: "time \<Rightarrow> time" where
  "time_of_day t = t mod days 1"

definition replace_date :: "time \<Rightarrow> int \<Rightarrow> int \<Rightarrow> int \<Rightarrow> time result" where
  "replace_date t y m d = bind_result (datetime_at y m d) (\<lambda>s. Inr (s + time_of_day t))"

definition timedelta_days :: "int \<Rightarrow> time result" where
  "timedelta_days n = (if \<bar>n\<bar> \<le> 999999999 then Inr (days n) else Inl OverflowError)"

definition time_plus :: "time \<Rightarrow> time \<Rightarrow> time result" where
  "time_plus t d = (if in_range (t + d) then Inr (t + d) else Inl OverflowError)"

text \<open>\<^verbatim>\<open>f"{t:%Y-%m-%d}"\<close>.\<close>

definition two_digits :: "int \<Rightarrow> string" where
  "two_digits n = (if n < 10 then ''0'' @ show_nat (nat n) else show_nat (nat n))"

definition show_date :: "time \<Rightarrow> string" where
  "show_date t =
     (let (m, d) = month_day_of t
      in show_nat (nat (year_of t)) @ ''-'' @ two_digits m @ ''-'' @ two_digits d)"

section \<open>Facts of the calendar\<close>

lemma day_pos: "0 < days 1"
  by (simp add: time_units)

lemma days_add: "days (a + b) = days a + days b"
  by (simp add: time_units)

lemma days_le [simp]: "days a \<le> days b \<longleftrightarrow> a \<le> b"
  by (simp add: time_units)

lemma days_less [simp]: "days a < days b \<longleftrightarrow> a < b"
  by (simp add: time_units)

lemma days_eq_mult: "days n = n * days 1"
  by (simp add: time_units)

lemma ordinal_of_time [simp]: "ordinal_of (time_of_ordinal n) = n"
proof -
  have "days (n - UNIX_EPOCH_ORDINAL) div days 1 = n - UNIX_EPOCH_ORDINAL"
    by (subst days_eq_mult) (simp add: time_units)
  then show ?thesis by (simp add: ordinal_of_def time_of_ordinal_def)
qed

lemma time_of_ordinal_le [simp]: "time_of_ordinal a \<le> time_of_ordinal b \<longleftrightarrow> a \<le> b"
  by (simp add: time_of_ordinal_def)

lemma le_div_iff_days: "days k \<le> t \<longleftrightarrow> k \<le> t div days 1"
proof
  assume "days k \<le> t"
  then have "k * days 1 div days 1 \<le> t div days 1"
    using day_pos by (intro zdiv_mono1) (simp_all flip: days_eq_mult)
  then show "k \<le> t div days 1" using day_pos by simp
next
  assume "k \<le> t div days 1"
  then have "k * days 1 \<le> t div days 1 * days 1"
    using day_pos by (intro mult_right_mono) simp_all
  also have "\<dots> \<le> t" using day_pos div_mult_mod_eq [of t "days 1"] pos_mod_sign [of "days 1" t] by linarith
  finally show "days k \<le> t" by (simp flip: days_eq_mult)
qed

lemma time_of_ordinal_le_iff: "time_of_ordinal n \<le> t \<longleftrightarrow> n \<le> ordinal_of t"
  using le_div_iff_days [of "n - UNIX_EPOCH_ORDINAL" t]
  by (auto simp: time_of_ordinal_def ordinal_of_def)

lemma days_in_month_bounds: "28 \<le> days_in_month y m \<and> days_in_month y m \<le> 31"
  by (auto simp: days_in_month_def)

lemma div_step: "0 < k \<Longrightarrow> y div k = (y - 1) div k + (if y mod k = 0 then 1 else 0)" for k y :: int
proof -
  assume k: "0 < k"
  have y: "y = k * (y div k) + y mod k" by simp
  have m: "0 \<le> y mod k" "y mod k < k" using k by simp_all
  show ?thesis
  proof (cases "y mod k = 0")
    case True
    have "y - 1 = k * (y div k - 1) + (k - 1)" using y True by (simp add: right_diff_distrib)
    then have "(y - 1) div k = y div k - 1" by (rule int_div_pos_eq) (use k in simp_all)
    then show ?thesis using True by simp
  next
    case False
    have "y - 1 = k * (y div k) + (y mod k - 1)" using y by linarith
    then have "(y - 1) div k = y div k" by (rule int_div_pos_eq) (use m False in linarith)+
    then show ?thesis using False by simp
  qed
qed

lemma dvd_chain:
  "y mod 400 = 0 \<longrightarrow> y mod 100 = 0" "y mod 100 = 0 \<longrightarrow> y mod 4 = 0" for y :: int
  by (auto simp flip: dvd_eq_mod_eq_0 intro: dvd_trans [of 100 400] dvd_trans [of 4 100])

lemma month_cases:
  assumes "1 \<le> m" and "m \<le> 12"
  shows "m \<in> {1, 2, 3, 4, 5, 6, 7, 8, 9, 10, 11, 12 :: int}"
proof -
  have "m = 1 \<or> m = 2 \<or> m = 3 \<or> m = 4 \<or> m = 5 \<or> m = 6 \<or> m = 7 \<or> m = 8 \<or> m = 9 \<or> m = 10 \<or> m = 11 \<or> m = 12"
    using assms by presburger
  then show ?thesis by simp
qed

lemma year_step: "days_before_year (y + 1) = days_before_year y + (if is_leap y then 366 else 365)"
proof -
  define a b c where "a = (if y mod 4 = 0 then 1 else 0 :: int)"
    and "b = (if y mod 100 = 0 then 1 else 0 :: int)" and "c = (if y mod 400 = 0 then 1 else 0 :: int)"
  have count: "(P \<longrightarrow> Q) \<Longrightarrow> (Q \<longrightarrow> R) \<Longrightarrow> (if R \<and> (\<not> Q \<or> P) then 366 else 365) =
      365 + (if R then 1 else 0) - (if Q then 1 else 0) + (if P then 1 else 0 :: int)" for P Q R
    by (cases P; cases Q; cases R) simp_all
  have leap: "(if is_leap y then 366 else 365) = 365 + a - b + c"
    unfolding is_leap_def a_def b_def c_def by (rule count [OF dvd_chain])
  have "y div 4 = (y - 1) div 4 + a" "y div 100 = (y - 1) div 100 + b" "y div 400 = (y - 1) div 400 + c"
    unfolding a_def b_def c_def by (rule div_step; simp)+
  then show ?thesis unfolding leap days_before_year_def Let_def by simp
qed

lemma days_before_year_mono: "y \<le> z \<Longrightarrow> days_before_year y \<le> days_before_year z"
proof -
  assume "y \<le> z"
  then show ?thesis
  proof (induction z rule: int_ge_induct)
    case (step z)
    then show ?case using year_step [of z] by (auto split: if_splits)
  qed simp
qed

lemma days_before_year_cycles:
  assumes "0 \<le> b" "b \<le> 3" "0 \<le> c" "c \<le> 24" "0 \<le> d" "d \<le> 3"
  shows "days_before_year (a * 400 + b * 100 + c * 4 + d + 1) = 146097 * a + 36524 * b + 1461 * c + 365 * d"
proof -
  let ?p = "a * 400 + b * 100 + c * 4 + d"
  have "?p = 4 * (a * 100 + b * 25 + c) + d" by simp
  then have d4: "?p div 4 = a * 100 + b * 25 + c" by (rule int_div_pos_eq) (use assms in simp_all)
  have "?p = 100 * (a * 4 + b) + (c * 4 + d)" by simp
  then have d100: "?p div 100 = a * 4 + b" by (rule int_div_pos_eq) (use assms in simp_all)
  have "?p = 400 * a + (b * 100 + c * 4 + d)" by simp
  then have d400: "?p div 400 = a" by (rule int_div_pos_eq) (use assms in simp_all)
  have "?p + 1 - 1 = ?p" by simp
  then show ?thesis unfolding days_before_year_def Let_def by (simp only: d4 d100 d400) simp
qed

lemma ord_year_brackets:
  "days_before_year (ord_year n) < n \<and> n \<le> days_before_year (ord_year n + 1)"
proof -
  define a r where "a = (n - 1) div 146097" and "r = (n - 1) mod 146097"
  define b r2 where "b = r div 36524" and "r2 = r mod 36524"
  define c r3 where "c = r2 div 1461" and "r3 = r2 mod 1461"
  define d e where "d = r3 div 365" and "e = r3 mod 365"
  have n: "n - 1 = 146097 * a + 36524 * b + 1461 * c + 365 * d + e"
    unfolding a_def r_def b_def r2_def c_def r3_def d_def e_def by presburger
  have r: "0 \<le> r" "r < 146097" "r = 36524 * b + r2" "0 \<le> r2" "r2 < 36524" "r2 = 1461 * c + r3"
      "0 \<le> r3" "r3 < 1461" "r3 = 365 * d + e" "0 \<le> e" "e < 365"
    unfolding r_def b_def r2_def c_def r3_def d_def e_def by simp_all
  have nonneg: "0 \<le> b" "0 \<le> c" "0 \<le> d"
    unfolding b_def c_def d_def using r by (simp_all add: pos_imp_zdiv_nonneg_iff)
  have year: "ord_year n = (let y = a * 400 + b * 100 + c * 4 + d + 1 in if d = 4 \<or> b = 4 then y - 1 else y)"
    by (simp add: ord_year_def a_def r_def b_def r2_def c_def r3_def d_def Let_def)
  consider (century) "b = 4" | (leap_day) "b \<noteq> 4" "d = 4" | (plain) "b \<noteq> 4" "d \<noteq> 4" by blast
  then show ?thesis
  proof cases
    case century
    with r nonneg have "c = 0" "d = 0" "e = 0" by linarith+
    with century have "ord_year n = a * 400 + 3 * 100 + 24 * 4 + 3 + 1" "ord_year n + 1 = (a + 1) * 400 + 0 * 100 + 0 * 4 + 0 + 1"
      by (simp_all add: year)
    then have "days_before_year (ord_year n) = 146097 * a + 36524 * 3 + 1461 * 24 + 365 * 3"
      and "days_before_year (ord_year n + 1) = 146097 * (a + 1) + 36524 * 0 + 1461 * 0 + 365 * 0"
      by (simp_all only: days_before_year_cycles)
    with n \<open>c = 0\<close> \<open>d = 0\<close> \<open>e = 0\<close> century show ?thesis by simp
  next
    case leap_day
    with r nonneg have le: "b \<le> 3" "c \<le> 23" "e = 0" by linarith+
    from leap_day have "ord_year n = a * 400 + b * 100 + c * 4 + 3 + 1" "ord_year n + 1 = a * 400 + b * 100 + (c + 1) * 4 + 0 + 1"
      by (simp_all add: year)
    then have "days_before_year (ord_year n) = 146097 * a + 36524 * b + 1461 * c + 365 * 3"
      and "days_before_year (ord_year n + 1) = 146097 * a + 36524 * b + 1461 * (c + 1) + 365 * 0"
      using le nonneg by (simp_all only: days_before_year_cycles)
    with n le leap_day show ?thesis by simp
  next
    case plain
    with r nonneg have le: "b \<le> 3" "c \<le> 24" "d \<le> 3" by linarith+
    from plain have "ord_year n = a * 400 + b * 100 + c * 4 + d + 1" by (simp add: year)
    then have "days_before_year (ord_year n) = 146097 * a + 36524 * b + 1461 * c + 365 * d"
      using le nonneg by (simp only: days_before_year_cycles)
    moreover have "days_before_year (ord_year n) + 365 \<le> days_before_year (ord_year n + 1)"
      using year_step [of "ord_year n"] by simp
    ultimately show ?thesis using n r by linarith
  qed
qed

lemma ord_year_unique:
  assumes "days_before_year y < n" and "n \<le> days_before_year (y + 1)"
  shows "ord_year n = y"
proof (rule ccontr)
  assume "ord_year n \<noteq> y"
  then consider "ord_year n + 1 \<le> y" | "y + 1 \<le> ord_year n" by linarith
  then show False
    using days_before_year_mono [of "ord_year n + 1" y] days_before_year_mono [of "y + 1" "ord_year n"]
      ord_year_brackets [of n] assms by cases linarith+
qed

lemma days_before_month_simps:
  "days_before_month y 1 = 0" "days_before_month y 2 = 31"
  "days_before_month y 3 = 59 + (if is_leap y then 1 else 0)"
  "days_before_month y 4 = 90 + (if is_leap y then 1 else 0)"
  "days_before_month y 5 = 120 + (if is_leap y then 1 else 0)"
  "days_before_month y 6 = 151 + (if is_leap y then 1 else 0)"
  "days_before_month y 7 = 181 + (if is_leap y then 1 else 0)"
  "days_before_month y 8 = 212 + (if is_leap y then 1 else 0)"
  "days_before_month y 9 = 243 + (if is_leap y then 1 else 0)"
  "days_before_month y 10 = 273 + (if is_leap y then 1 else 0)"
  "days_before_month y 11 = 304 + (if is_leap y then 1 else 0)"
  "days_before_month y 12 = 334 + (if is_leap y then 1 else 0)"
  "days_before_month y 13 = 365 + (if is_leap y then 1 else 0)"
  by (simp_all add: days_before_month_def days_in_month_def upto.simps)

lemma days_before_month_bounds:
  assumes "1 \<le> m" and "m \<le> 12" and "1 \<le> d" and "d \<le> days_in_month y m"
  shows "0 < days_before_month y m + d"
    and "days_before_month y m + d \<le> (if is_leap y then 366 else 365)"
proof -
  have "m \<in> {1, 2, 3, 4, 5, 6, 7, 8, 9, 10, 11, 12}" using assms(1,2) by (rule month_cases)
  then show "0 < days_before_month y m + d"
      "days_before_month y m + d \<le> (if is_leap y then 366 else 365)"
    using assms(3,4)
    by (elim insertE; simp add: days_before_month_simps days_in_month_def split: if_splits)+
qed

lemma year_of_date:
  assumes "1 \<le> m" and "m \<le> 12" and "1 \<le> d" and "d \<le> days_in_month y m"
  shows "year_of (time_of_ordinal (ymd2ord y m d)) = y"
proof -
  have "ord_year (ymd2ord y m d) = y"
    using days_before_month_bounds [OF assms] year_step [of y]
    by (intro ord_year_unique) (simp_all add: ymd2ord_def)
  then show ?thesis by (simp add: year_of_def)
qed

lemma month_day_of_date:
  assumes "1 \<le> m" and "m \<le> 12" and "1 \<le> d" and "d \<le> days_in_month y m"
  shows "month_day_of (time_of_ordinal (ymd2ord y m d)) = (m, d)"
proof -
  have upto: "[1..12] = [1, 2, 3, 4, 5, 6, 7, 8, 9, 10, 11, 12 :: int]" by (simp add: upto.simps)
  have "m \<in> {1, 2, 3, 4, 5, 6, 7, 8, 9, 10, 11, 12}" using assms(1,2) by (rule month_cases)
  then have "month_from y (days_before_month y m + d) [1..12] = (m, d)"
    using assms(3,4) unfolding upto
    by (elim insertE; cases "is_leap y"; simp add: days_before_month_simps days_in_month_def)
  then show ?thesis
    by (simp add: month_day_of_def year_of_date [OF assms]) (simp add: ymd2ord_def)
qed

lemma datetime_at_Inr:
  "datetime_at y m d = Inr t \<longleftrightarrow>
     1 \<le> y \<and> y \<le> 9999 \<and> 1 \<le> m \<and> m \<le> 12 \<and> 1 \<le> d \<and> d \<le> days_in_month y m \<and>
     t = time_of_ordinal (ymd2ord y m d)"
  by (auto simp: datetime_at_def)

end
