(* ===== verification/Temporal_Intent.thy ===== *)
theory Temporal_Intent
  imports Regex Calendar
begin

text \<open>
  What a query asks of time: \<^verbatim>\<open>domain/temporal_intent.py\<close>. The patterns are written out in the order the
  module compiles them, and the current time is an argument, as it is in the code. A query that makes
  a date constructor or an addition raise is an exception of the parse.
\<close>

datatype intent_kind = RANGE | RELATIVE | ORDERING

datatype intent_ordering = EARLIEST | LATEST

record temporal_intent =
  ti_kind :: intent_kind
  ti_phrase :: string
  ti_start :: "time option"
  ti_end :: "time option"
  ti_ordering :: "intent_ordering option"

definition new_intent :: "intent_kind \<Rightarrow> string \<Rightarrow> temporal_intent" where
  "new_intent kind phrase =
     \<lparr> ti_kind = kind, ti_phrase = phrase, ti_start = None, ti_end = None, ti_ordering = None \<rparr>"

definition is_range :: "temporal_intent \<Rightarrow> bool" where
  "is_range i \<longleftrightarrow> ti_kind i = RANGE"

fun intent_kind_value :: "intent_kind \<Rightarrow> string" where
  "intent_kind_value RANGE = ''range''"
| "intent_kind_value RELATIVE = ''relative''"
| "intent_kind_value ORDERING = ''ordering''"

fun ordering_value :: "intent_ordering \<Rightarrow> string" where
  "ordering_value EARLIEST = ''earliest''"
| "ordering_value LATEST = ''latest''"

section \<open>repr\<close>

definition hex_digit :: "nat \<Rightarrow> char" where
  "hex_digit d = (if d < 10 then digit_char d else char_of (87 + d))"

definition repr_char :: "char \<Rightarrow> char \<Rightarrow> string" where
  "repr_char quote c =
     (let n = of_char c :: nat
      in if c = quote \<or> n = 92 then [char_of (92 :: nat), c]
         else if n = 9 then [char_of (92 :: nat), CHR ''t'']
         else if n = 10 then [char_of (92 :: nat), CHR ''n'']
         else if n = 13 then [char_of (92 :: nat), CHR ''r'']
         else if n < 32 \<or> 127 \<le> n \<and> n \<le> 160 \<or> n = 173
              then [char_of (92 :: nat), CHR ''x'', hex_digit (n div 16), hex_digit (n mod 16)]
         else [c])"

definition py_repr :: "string \<Rightarrow> string" where
  "py_repr s =
     (let quote = (if char_of (39 :: nat) \<in> set s \<and> char_of (34 :: nat) \<notin> set s
                   then char_of (34 :: nat) else char_of (39 :: nat))
      in [quote] @ concat (map (repr_char quote) s) @ [quote])"

definition describe :: "temporal_intent \<Rightarrow> string" where
  "describe i =
     (let source = '' (from '' @ py_repr (ti_phrase i) @ '')''
      in case (ti_kind i, ti_start i, ti_end i, ti_ordering i) of
           (RANGE, Some s, Some e, _) \<Rightarrow> ''range '' @ show_date s @ ''..'' @ show_date e @ source
         | (ORDERING, _, _, Some ord) \<Rightarrow> ''ordering '' @ ordering_value ord @ source
         | _ \<Rightarrow> intent_kind_value (ti_kind i) @ source)"

section \<open>The patterns\<close>

definition MONTHS :: "(string \<times> int) list" where
  "MONTHS =
     [(''january'', 1), (''february'', 2), (''march'', 3), (''april'', 4), (''may'', 5), (''june'', 6),
      (''july'', 7), (''august'', 8), (''september'', 9), (''october'', 10), (''november'', 11),
      (''december'', 12)]"

definition ONWARD :: "string list" where
  "ONWARD = [''since'', ''from'']"

definition AFTER :: "string list" where
  "AFTER = [''after'']"

definition UNTIL :: "string list" where
  "UNTIL = [''before'', ''until'', ''till'']"

definition PREPOSITION :: rx where
  "PREPOSITION =
     any_of [words [''in'', ''on'', ''during'', ''since'', ''from'', ''before'', ''after'', ''until'', ''till''],
             seq [Lit ''back'', spaces, Lit ''in''], Lit ''around'']"

definition MONTH_NAMES :: rx where
  "MONTH_NAMES = words (map fst MONTHS)"

definition four_digits :: rx where
  "four_digits = Many is_digit 4 (Some 4)"

definition day_number :: rx where
  "day_number = Many is_digit 1 (Some 2)"

definition ordinal_suffix :: rx where
  "ordinal_suffix = Maybe (words [''st'', ''nd'', ''rd'', ''th''])"

definition PREPOSED_MONTH :: rx where
  "PREPOSED_MONTH =
     seq [Edge, Group ''prep'' PREPOSITION, spaces, Group ''month'' MONTH_NAMES, Edge,
          Maybe (seq [spaces, Group ''year'' four_digits])]"

definition PREPOSED_DAY :: rx where
  "PREPOSED_DAY =
     seq [Edge, Group ''prep'' PREPOSITION, spaces,
          any_of [seq [Group ''day1'' day_number, ordinal_suffix, spaces, Group ''month1'' MONTH_NAMES],
                  seq [Group ''month2'' MONTH_NAMES, spaces, Group ''day2'' day_number, ordinal_suffix]],
          Edge, Maybe (seq [Maybe (Lit '',''), spaces, Group ''year'' four_digits])]"

definition COUNT_WORDS :: "(string \<times> int) list" where
  "COUNT_WORDS = [(''a'', 1), (''one'', 1), (''two'', 2), (''three'', 3), (''four'', 4), (''five'', 5), (''six'', 6)]"

definition UNIT_DAYS :: "(string \<times> int) list" where
  "UNIT_DAYS =
     [(''day'', 1), (''week'', 7), (''fortnight'', 14), (''month'', 30), (''quarter'', 91), (''year'', 365)]"

definition WINDOW :: rx where
  "WINDOW =
     seq [Edge, Group ''det'' (words [''last'', ''past'', ''previous'', ''this'']), spaces,
          Maybe (seq [Group ''count'' (any_of [Many is_digit 1 None, words (map fst COUNT_WORDS)]), spaces]),
          Group ''unit'' (words (map fst UNIT_DAYS)), Maybe (Lit ''s''), Edge]"

definition TODAY :: rx where
  "TODAY = seq [Edge, Group ''phrase'' (words [''today'', ''yesterday'']), Edge]"

definition RELATIVE_WORDS :: rx where
  "RELATIVE_WORDS =
     seq [Edge, Group ''phrase'' (any_of
       [words [''recently'', ''lately''],
        seq [Lit ''most'', spaces, Lit ''recent'', Maybe (Lit ''ly'')],
        seq [Lit ''these'', spaces, Lit ''days''], Lit ''nowadays'',
        seq [Lit ''of'', spaces, Lit ''late''], seq [Lit ''just'', spaces, Lit ''now''],
        seq [Lit ''the'', spaces, Lit ''other'', spaces, Lit ''day''],
        seq [Lit ''current'', Maybe (Lit ''ly'')]]), Edge]"

definition TEMPORAL_NOUN :: rx where
  "TEMPORAL_NOUN =
     words [''version'', ''revision'', ''change'', ''edit'', ''commit'', ''iteration'', ''draft'', ''release'']"

definition EARLIEST_WORDS :: rx where
  "EARLIEST_WORDS =
     seq [Edge, Group ''phrase'' (any_of
       [seq [Maybe (seq [Lit ''the'', spaces]), words [''first'', ''earliest'', ''original'', ''initial''], spaces,
             TEMPORAL_NOUN],
        Lit ''originally'', seq [Lit ''to'', spaces, Lit ''begin'', spaces, Lit ''with''],
        seq [Lit ''at'', spaces, Lit ''first'']]), Edge]"

definition LATEST_WORDS :: rx where
  "LATEST_WORDS =
     seq [Edge, Group ''phrase'' (any_of
       [seq [Maybe (seq [Lit ''the'', spaces]),
             any_of [words [''latest'', ''newest'', ''last''], seq [Lit ''most'', spaces, Lit ''recent'']], spaces,
             TEMPORAL_NOUN],
        seq [Lit ''so'', spaces, Lit ''far''],
        seq [Lit ''up'', spaces, Lit ''to'', spaces, Lit ''now'']]), Edge]"

section \<open>Dates and windows\<close>

text \<open>\<^verbatim>\<open>int(s)\<close> of a string of digits; the interpreter refuses more than 4300 of them.\<close>

definition digits_value :: "string \<Rightarrow> int" where
  "digits_value s = foldl (\<lambda>n c. n * 10 + (int (of_char c) - 48)) 0 s"

definition int_of_digits :: "string \<Rightarrow> int result" where
  "int_of_digits s = (if s = [] \<or> 4300 < length s then Inl ValueError else Inr (digits_value s))"

fun optional :: "('a \<Rightarrow> 'b result) \<Rightarrow> 'a option \<Rightarrow> 'b option result" where
  "optional f None = Inr None"
| "optional f (Some x) = bind_result (f x) (\<lambda>y. Inr (Some y))"

fun split_words :: "string \<Rightarrow> string \<Rightarrow> string list" where
  "split_words [] current = (if current = [] then [] else [current])"
| "split_words (c # cs) current =
     (if is_space c then (if current = [] then split_words cs [] else current # split_words cs [])
      else split_words cs (current @ [c]))"

definition bounds :: "string \<Rightarrow> time \<Rightarrow> time \<Rightarrow> time option \<times> time option" where
  "bounds preposition start end =
     (let word = join '' '' (split_words (lower preposition) [])
      in if word \<in> set ONWARD then (Some start, None)
         else if word \<in> set AFTER then (Some end, None)
         else if word \<in> set UNTIL then (None, Some start)
         else (Some start, Some end))"

definition month_start :: "int \<Rightarrow> int option \<Rightarrow> time \<Rightarrow> time result" where
  "month_start month year now =
     (case year of
        Some y \<Rightarrow> datetime_at y month 1
      | None \<Rightarrow>
          bind_result (datetime_at (year_of now) month 1) (\<lambda>candidate.
            if now < candidate then datetime_at (year_of now - 1) month 1 else Inr candidate))"

definition day_start :: "int \<Rightarrow> int \<Rightarrow> int option \<Rightarrow> time \<Rightarrow> time option result" where
  "day_start month day year now =
     bind_result (month_start month year now) (\<lambda>start. Inr
       (case replace_date start (year_of start) (fst (month_day_of start)) day of
          Inl _ \<Rightarrow> None
        | Inr t \<Rightarrow> Some t))"

definition next_month :: "time \<Rightarrow> time result" where
  "next_month moment =
     (let m = fst (month_day_of moment)
      in replace_date moment (year_of moment + m div 12) (m mod 12 + 1) 1)"

definition group_or :: "string \<Rightarrow> rx_match \<Rightarrow> string" where
  "group_or name m = the_default [] (rm_group name m)"

definition range_intent :: "string \<Rightarrow> time option \<times> time option \<Rightarrow> temporal_intent" where
  "range_intent phrase window = (new_intent RANGE phrase)\<lparr> ti_start := fst window, ti_end := snd window \<rparr>"

definition day_range :: "string \<Rightarrow> time \<Rightarrow> temporal_intent option result" where
  "day_range query now =
     (case rx_search PREPOSED_DAY query of
        None \<Rightarrow> Inr None
      | Some m \<Rightarrow>
          let month_name = lower (case rm_group ''month1'' m of Some (c # cs) \<Rightarrow> c # cs | _ \<Rightarrow> group_or ''month2'' m)
          in bind_result
               (int_of_digits (case rm_group ''day1'' m of Some (c # cs) \<Rightarrow> c # cs | _ \<Rightarrow> group_or ''day2'' m)) (\<lambda>day.
             bind_result (optional int_of_digits (rm_group ''year'' m)) (\<lambda>year.
             case map_of MONTHS month_name of
               None \<Rightarrow> Inl KeyError
             | Some month \<Rightarrow>
                 bind_result (day_start month day year now) (\<lambda>found.
                   case found of
                     None \<Rightarrow> Inr None
                   | Some start \<Rightarrow>
                       bind_result (time_plus start (days 1)) (\<lambda>end.
                         Inr (Some (range_intent (lower (strip (rm_text query m)))
                                      (bounds (group_or ''prep'' m) start end))))))))"

definition month_range :: "string \<Rightarrow> time \<Rightarrow> temporal_intent option result" where
  "month_range query now =
     (case rx_search PREPOSED_MONTH query of
        None \<Rightarrow> Inr None
      | Some m \<Rightarrow>
          bind_result (optional int_of_digits (rm_group ''year'' m)) (\<lambda>year.
          case map_of MONTHS (lower (group_or ''month'' m)) of
            None \<Rightarrow> Inl KeyError
          | Some month \<Rightarrow>
              bind_result (month_start month year now) (\<lambda>start.
              bind_result (next_month start) (\<lambda>end.
                Inr (Some (range_intent (lower (strip (rm_text query m)))
                             (bounds (group_or ''prep'' m) start end)))))))"

definition today_range :: "string \<Rightarrow> time \<Rightarrow> temporal_intent option result" where
  "today_range query now =
     (case rx_search TODAY query of
        None \<Rightarrow> Inr None
      | Some m \<Rightarrow>
          let phrase = lower (group_or ''phrase'' m); midnight = now - time_of_day now
          in bind_result (if phrase = ''yesterday'' then time_plus midnight (- days 1) else Inr midnight) (\<lambda>start.
             bind_result (time_plus start (days 1)) (\<lambda>end.
               Inr (Some (range_intent phrase (Some start, Some end))))))"

definition window_count :: "string option \<Rightarrow> int result" where
  "window_count raw =
     (case raw of
        Some (c # cs) \<Rightarrow>
          (let n = dict_get COUNT_WORDS (lower (c # cs)) 0
           in if n \<noteq> 0 then Inr n else int_of_digits (c # cs))
      | _ \<Rightarrow> Inr 1)"

definition window_range :: "string \<Rightarrow> time \<Rightarrow> temporal_intent option result" where
  "window_range query now =
     (case rx_search WINDOW query of
        None \<Rightarrow> Inr None
      | Some m \<Rightarrow>
          bind_result (window_count (rm_group ''count'' m)) (\<lambda>count.
          case map_of UNIT_DAYS (lower (group_or ''unit'' m)) of
            None \<Rightarrow> Inl KeyError
          | Some unit \<Rightarrow>
              bind_result (timedelta_days (unit * max count 1)) (\<lambda>span.
              bind_result (time_plus now (- span)) (\<lambda>start.
              bind_result (time_plus now (days 1)) (\<lambda>end.
                Inr (Some (range_intent (lower (strip (rm_text query m))) (Some start, Some end))))))))"

section \<open>The parser\<close>

fun first_found :: "'a option result list \<Rightarrow> 'a option result" where
  "first_found [] = Inr None"
| "first_found (r # rs) =
     (case r of Inl e \<Rightarrow> Inl e | Inr None \<Rightarrow> first_found rs | Inr (Some x) \<Rightarrow> Inr (Some x))"

definition explicit_range :: "string \<Rightarrow> time \<Rightarrow> temporal_intent option result" where
  "explicit_range query now =
     first_found [day_range query now, month_range query now, today_range query now, window_range query now]"

definition ordering_intent :: "string \<Rightarrow> temporal_intent option" where
  "ordering_intent query =
     (case rx_search EARLIEST_WORDS query of
        Some m \<Rightarrow> Some ((new_intent ORDERING (lower (group_or ''phrase'' m)))\<lparr> ti_ordering := Some EARLIEST \<rparr>)
      | None \<Rightarrow>
          (case rx_search LATEST_WORDS query of
             Some m \<Rightarrow> Some ((new_intent ORDERING (lower (group_or ''phrase'' m)))\<lparr> ti_ordering := Some LATEST \<rparr>)
           | None \<Rightarrow> None))"

definition relative_intent :: "string \<Rightarrow> temporal_intent option" where
  "relative_intent query =
     (case rx_search RELATIVE_WORDS query of
        Some m \<Rightarrow> Some (new_intent RELATIVE (lower (group_or ''phrase'' m)))
      | None \<Rightarrow> None)"

definition parse_temporal_intent :: "string \<Rightarrow> time \<Rightarrow> temporal_intent option result" where
  "parse_temporal_intent query now =
     (if blank query then Inr None
      else first_found [explicit_range query now, Inr (ordering_intent query), Inr (relative_intent query)])"

end
