(* ===== verification/Search.thy ===== *)
theory Search
  imports Graph_Expand Signals Retrieval Temporal_Intent
begin

text \<open>
  Hybrid search: \<^verbatim>\<open>application/search.py\<close>. The embedder and the reranker are parameters (\<open>se_embed\<close> answers
  a list of texts, \<open>se_rerank\<close> scores texts against the query); the stores, the graph expansion and the
  temporal parser are the models of this development. The two legs of a hybrid search read the same
  tables. Timings and log lines are left out.
\<close>

section \<open>Values\<close>

record memory_hit =
  mh_memory_id :: nat
  mh_external_key :: string
  mh_source_name :: string
  mh_title :: "string option"
  mh_kind :: memory_kind
  mh_occurred_at :: "time option"
  mh_occurred_at_source :: time_provenance
  mh_score :: pyfloat
  mh_matched_chunks :: "scored_chunk list"

record search_result =
  sr_query :: string
  sr_hits :: "memory_hit list"
  sr_mode :: search_mode
  sr_temporal_intent :: "string option"
  sr_temporal_filter_applied :: bool

record fusion_weights =
  fw_vector :: pyfloat
  fw_keyword :: pyfloat
  fw_recency :: pyfloat
  fw_importance :: pyfloat
  fw_graph :: pyfloat

definition default_weights :: fusion_weights where
  "default_weights = \<lparr> fw_vector = 1, fw_keyword = 1, fw_recency = 0, fw_importance = 0, fw_graph = 1 / 2 \<rparr>"

definition signals_are_off :: "fusion_weights \<Rightarrow> bool" where
  "signals_are_off w \<longleftrightarrow> fw_recency w = 0 \<and> fw_importance w = 0 \<and> fw_graph w = 0"

definition graph_is_off :: "fusion_weights \<Rightarrow> bool" where
  "graph_is_off w \<longleftrightarrow> fw_graph w = 0"

record signal_table =
  st_recency :: "(string \<times> pyfloat) list"
  st_importance :: "(string \<times> pyfloat) list"

definition no_signals :: signal_table where
  "no_signals = \<lparr> st_recency = [], st_importance = [] \<rparr>"

definition signal_ranking :: "(string \<times> pyfloat) list \<Rightarrow> string list" where
  "signal_ranking scores = map fst (sort_key (\<lambda>(key, v). (- v, key)) scores)"

section \<open>Fusion with provenance\<close>

text \<open>\<^verbatim>\<open>d.setdefault(k, v)\<close> over a list of pairs, the comprehension \<^verbatim>\<open>{k: v ...}\<close>, and \<^verbatim>\<open>enumerate(xs, start=1)\<close>.\<close>

definition set_default :: "('k \<times> 'v) list \<Rightarrow> 'k \<times> 'v \<Rightarrow> ('k \<times> 'v) list" where
  "set_default d kv = (case map_of d (fst kv) of None \<Rightarrow> d @ [kv] | Some _ \<Rightarrow> d)"

definition set_defaults :: "('k \<times> 'v) list \<Rightarrow> ('k \<times> 'v) list \<Rightarrow> ('k \<times> 'v) list" where
  "set_defaults d kvs = foldl set_default d kvs"

definition dict_of :: "('k \<times> 'v) list \<Rightarrow> ('k \<times> 'v) list" where
  "dict_of kvs = foldl (\<lambda>d (k, v). AList.update k v d) [] kvs"

definition ranked :: "('a \<Rightarrow> 'k) \<Rightarrow> 'a list \<Rightarrow> ('k \<times> int) list" where
  "ranked key xs = map (\<lambda>(i, x). (key x, int i)) (enumerate 1 xs)"

fun all_ok :: "('a \<Rightarrow> 'b result) \<Rightarrow> 'a list \<Rightarrow> 'b list result" where
  "all_ok f [] = Inr []"
| "all_ok f (x # xs) = bind_result (f x) (\<lambda>y. bind_result (all_ok f xs) (\<lambda>ys. Inr (y # ys)))"

definition fuse ::
  "scored_chunk list \<Rightarrow> scored_chunk list \<Rightarrow> signal_table \<Rightarrow> fusion_weights \<Rightarrow> int
   \<Rightarrow> graph_candidates option \<Rightarrow> scored_chunk list result" where
  "fuse vector_chunks keyword_chunks table w rrf_k graph =
     (let expansion = (case graph of None \<Rightarrow> None | Some g \<Rightarrow> if graph_is_off w then None else Some g);
          expanded = (case expansion of None \<Rightarrow> [] | Some g \<Rightarrow> gc_chunks g);
          keyed = map (\<lambda>c. (chunk_key c, c));
          by_id = set_defaults (set_defaults (set_defaults [] (keyed vector_chunks)) (keyed keyword_chunks)) (keyed expanded);
          vector_ranks = set_defaults [] (ranked chunk_key vector_chunks);
          keyword_ranks = set_defaults [] (ranked chunk_key keyword_chunks);
          graph_ranks = set_defaults [] (ranked chunk_key expanded);
          graph_scores = set_defaults [] (map (\<lambda>c. (chunk_key c, sk_score c)) expanded);
          vector_scores = dict_of (map (\<lambda>c. (chunk_key c, sk_score c)) vector_chunks);
          keyword_scores = dict_of (map (\<lambda>c. (chunk_key c, sk_score c)) keyword_chunks);
          recency_ranking = (if fw_recency w \<noteq> 0 \<and> st_recency table \<noteq> [] then signal_ranking (st_recency table) else []);
          importance_ranking =
            (if fw_importance w \<noteq> 0 \<and> st_importance table \<noteq> [] then signal_ranking (st_importance table) else []);
          recency_ranks = dict_of (ranked id recency_ranking);
          importance_ranks = dict_of (ranked id importance_ranking);
          routes = (case expansion of None \<Rightarrow> [] | Some g \<Rightarrow> gc_routes g)
      in bind_result
           (reciprocal_rank_fusion
              [map chunk_key vector_chunks, map chunk_key keyword_chunks, recency_ranking, importance_ranking,
               (case expansion of None \<Rightarrow> [] | Some g \<Rightarrow> gc_ranking g)]
              rrf_k (Some [fw_vector w, fw_keyword w, fw_recency w, fw_importance w, fw_graph w]))
           (all_ok (\<lambda>(identifier, score).
              case map_of by_id identifier of
                None \<Rightarrow> Inl KeyError
              | Some c \<Rightarrow> Inr (c\<lparr> sk_score := score, sk_breakdown := Some
                  \<lparr> sb_fused = score,
                    sb_vector_rank = map_of vector_ranks identifier,
                    sb_keyword_rank = map_of keyword_ranks identifier,
                    sb_vector_score = map_of vector_scores identifier,
                    sb_keyword_score = map_of keyword_scores identifier,
                    sb_recency_rank = map_of recency_ranks identifier,
                    sb_importance_rank = map_of importance_ranks identifier,
                    sb_recency_score = map_of (st_recency table) identifier,
                    sb_importance_score = map_of (st_importance table) identifier,
                    sb_rerank_score = None, sb_rerank_rank = None,
                    sb_graph_rank = map_of graph_ranks identifier,
                    sb_graph_score = map_of graph_scores identifier,
                    sb_graph_path = map_of routes identifier,
                    sb_temporal_intent = None, sb_temporal_filter_applied = False \<rparr> \<rparr>))))"

definition attribute_single :: "scored_chunk list \<Rightarrow> search_mode \<Rightarrow> scored_chunk list" where
  "attribute_single chunks mode =
     map (\<lambda>(rank, c). c\<lparr> sk_breakdown := Some ((new_breakdown (sk_score c))
            \<lparr> sb_vector_rank := if mode = KEYWORD then None else Some (int rank),
              sb_keyword_rank := if mode = KEYWORD then Some (int rank) else None,
              sb_vector_score := if mode = KEYWORD then None else Some (sk_score c),
              sb_keyword_score := if mode = KEYWORD then Some (sk_score c) else None \<rparr>) \<rparr>)
       (enumerate 1 chunks)"

section \<open>Seeds and signals\<close>

definition best_ranks :: "(nat \<times> int) list \<Rightarrow> scored_chunk list \<Rightarrow> (nat \<times> int) list" where
  "best_ranks best chunks =
     foldl (\<lambda>d (i, rank). case map_of d i of
              None \<Rightarrow> AList.update i rank d
            | Some current \<Rightarrow> if rank < current then AList.update i rank d else d)
       best (ranked sk_memory_id chunks)"

definition seed_memories :: "scored_chunk list list \<Rightarrow> nat list" where
  "seed_memories chunk_lists =
     map fst (sort_key (\<lambda>(i, rank). (rank, show_nat i)) (foldl best_ranks [] chunk_lists))"

fun signal_scores ::
  "library \<Rightarrow> time \<Rightarrow> (string \<times> nat) list \<Rightarrow> signal_table \<Rightarrow> signal_table result" where
  "signal_scores l now [] table = Inr table"
| "signal_scores l now ((chunk_id, memory_id) # rest) table =
     (case memory_get memory_id l of
        None \<Rightarrow> signal_scores l now rest table
      | Some m \<Rightarrow>
          bind_result (recency_score (m_occurred_at m) now DEFAULT_HALF_LIFE_DAYS) (\<lambda>r.
            signal_scores l now rest
              \<lparr> st_recency = AList.update chunk_id r (st_recency table),
                st_importance = (case m_importance m of
                                   None \<Rightarrow> st_importance table
                                 | Some weight \<Rightarrow> AList.update chunk_id weight (st_importance table)) \<rparr>))"

definition signals_for :: "library \<Rightarrow> time \<Rightarrow> scored_chunk list list \<Rightarrow> signal_table result" where
  "signals_for l now chunk_lists =
     signal_scores l now (dict_of (map (\<lambda>c. (chunk_key c, sk_memory_id c)) (concat chunk_lists))) no_signals"

section \<open>Reranking\<close>

definition min_score :: "pyfloat list \<Rightarrow> pyfloat" where
  "min_score scores = (if scores = [] then 0 else Min (set scores))"

definition breakdown_of :: "scored_chunk \<Rightarrow> score_breakdown" where
  "breakdown_of c = (case sk_breakdown c of None \<Rightarrow> new_breakdown (sk_score c) | Some b \<Rightarrow> b)"

definition rerank_chunks ::
  "(string \<Rightarrow> string list \<Rightarrow> pyfloat list) \<Rightarrow> nat \<Rightarrow> string \<Rightarrow> scored_chunk list \<Rightarrow> scored_chunk list result" where
  "rerank_chunks rerank rerank_candidates query chunks =
     (let shortlist = take rerank_candidates chunks; tail = drop rerank_candidates chunks;
          scores = rerank query (map sk_text shortlist)
      in if length scores \<noteq> length shortlist then Inl ValueError
         else
           let scored = sort_key (\<lambda>(c, score). (- score, chunk_key c)) (zip shortlist scores);
               reranked = map (\<lambda>(rank, c, score). c\<lparr> sk_score := score,
                             sk_breakdown := Some ((breakdown_of c)\<lparr> sb_rerank_score := Some score,
                                                                     sb_rerank_rank := Some (int rank) \<rparr>) \<rparr>)
                            (enumerate 1 scored);
               demoted = map (\<lambda>(offset, c). c\<lparr> sk_score := min_score scores - 1 / 1000000 * of_nat (offset + 1) \<rparr>)
                           (enumerate 0 tail)
           in Inr (reranked @ demoted))"

section \<open>From chunks to memories\<close>

record memory_metadata =
  md_external_key :: string
  md_title :: "string option"
  md_kind :: memory_kind
  md_occurred_at :: "time option"
  md_provenance :: time_provenance
  md_source_name :: string

definition metadata_of :: "library \<Rightarrow> nat \<Rightarrow> memory_metadata option" where
  "metadata_of l i =
     (case memory_get i l of
        None \<Rightarrow> None
      | Some m \<Rightarrow>
          (case find (\<lambda>s. src_id s = m_source m) (c_sources (lb_corpus l)) of
             None \<Rightarrow> None
           | Some s \<Rightarrow> Some \<lparr> md_external_key = m_key m, md_title = tx_title (text_of m l),
                              md_kind = tx_kind (text_of m l), md_occurred_at = m_occurred_at m,
                              md_provenance = m_occurred_at_source m, md_source_name = src_name s \<rparr>))"

definition hit_of :: "nat \<Rightarrow> memory_metadata \<Rightarrow> scored_chunk list \<Rightarrow> memory_hit" where
  "hit_of i md matched =
     \<lparr> mh_memory_id = i, mh_external_key = md_external_key md, mh_source_name = md_source_name md,
       mh_title = md_title md, mh_kind = md_kind md, mh_occurred_at = md_occurred_at md,
       mh_occurred_at_source = md_provenance md, mh_score = Max (set (map sk_score matched)),
       mh_matched_chunks = sort_key sk_ordinal matched \<rparr>"

definition mean_score :: "memory_hit \<Rightarrow> pyfloat" where
  "mean_score h = sum_list (map sk_score (mh_matched_chunks h)) / of_nat (length (mh_matched_chunks h))"

definition grouped :: "scored_chunk list \<Rightarrow> (nat \<times> scored_chunk list) list" where
  "grouped chunks =
     map (\<lambda>i. (i, filter (\<lambda>c. sk_memory_id c = i) chunks)) (keep_first (map sk_memory_id chunks))"

fun found_hits :: "(nat \<Rightarrow> memory_metadata option) \<Rightarrow> (nat \<times> scored_chunk list) list \<Rightarrow> memory_hit list" where
  "found_hits metadata [] = []"
| "found_hits metadata ((i, matched) # rest) =
     (case metadata i of
        None \<Rightarrow> found_hits metadata rest
      | Some md \<Rightarrow> hit_of i md matched # found_hits metadata rest)"

text \<open>\<^verbatim>\<open>sort(key=_ranking, reverse=True)\<close> is stable: equal keys keep their order.\<close>

definition hit_rank :: "memory_hit \<Rightarrow> pyfloat \<times> pyfloat" where
  "hit_rank h = (- mh_score h, - mean_score h)"

definition to_hits :: "library \<Rightarrow> scored_chunk list \<Rightarrow> nat \<Rightarrow> memory_hit list" where
  "to_hits l chunks k = take k (sort_key hit_rank (found_hits (metadata_of l) (grouped chunks)))"

section \<open>Temporal intent\<close>

definition tighter :: "(time \<Rightarrow> time \<Rightarrow> time) \<Rightarrow> time option \<Rightarrow> time option \<Rightarrow> time option" where
  "tighter keep existing proposed =
     (case proposed of
        None \<Rightarrow> existing
      | Some p \<Rightarrow> (case existing of None \<Rightarrow> Some p | Some e \<Rightarrow> Some (keep e p)))"

definition narrow :: "search_filters \<Rightarrow> temporal_intent \<Rightarrow> search_filters \<times> bool" where
  "narrow f i =
     (let after = tighter max (sf_occurred_after f) (ti_start i);
          until = tighter min (sf_occurred_before f) (ti_end i)
      in if after = sf_occurred_after f \<and> until = sf_occurred_before f then (f, False)
         else (f\<lparr> sf_occurred_after := after, sf_occurred_before := until \<rparr>, True))"

definition stamp_intent :: "scored_chunk list \<Rightarrow> temporal_intent \<Rightarrow> bool \<Rightarrow> scored_chunk list" where
  "stamp_intent chunks i filter_applied =
     map (\<lambda>c. c\<lparr> sk_breakdown := Some ((breakdown_of c)\<lparr> sb_temporal_intent := Some (describe i),
                                                         sb_temporal_filter_applied := filter_applied \<rparr>) \<rparr>) chunks"

definition reorder_key :: "intent_ordering \<Rightarrow> memory_hit \<Rightarrow> int \<times> time" where
  "reorder_key ord h =
     (case mh_occurred_at h of
        None \<Rightarrow> (1, 0)
      | Some t \<Rightarrow> (0, if ord = LATEST then - t else t))"

text \<open>The index in the code's key breaks ties in the order of the list, as a stable sort does.\<close>

definition reorder :: "memory_hit list \<Rightarrow> intent_ordering \<Rightarrow> memory_hit list" where
  "reorder hits ord =
     map snd (sort_key (\<lambda>(index, h). (reorder_key ord h, index)) (enumerate 0 hits))"

section \<open>The use case\<close>

definition CHUNK_FANOUT :: nat where
  "CHUNK_FANOUT = 5"

definition FUSION_FANOUT :: nat where
  "FUSION_FANOUT = 3"

record searcher =
  se_embed :: "string list \<Rightarrow> vector list"
  se_vectors :: vector_store
  se_matches :: "string \<Rightarrow> string \<Rightarrow> bool"
  se_cover_rank :: "string \<Rightarrow> string \<Rightarrow> pyfloat"
  se_weights :: fusion_weights
  se_rerank :: "(string \<Rightarrow> string list \<Rightarrow> pyfloat list) option"
  se_rerank_candidates :: nat
  se_expand :: "expander option"
  se_seed_memories :: nat
  se_temporal_intent :: bool
  se_temporal_recency_weight :: pyfloat

record search_tables =
  sx_library :: library
  sx_tags :: "tag_row list"
  sx_entities :: entity_tables

definition embed_query :: "searcher \<Rightarrow> string \<Rightarrow> vector result" where
  "embed_query s query = (case se_embed s [query] of [v] \<Rightarrow> Inr v | _ \<Rightarrow> Inl ValueError)"

definition vector_chunks ::
  "searcher \<Rightarrow> search_tables \<Rightarrow> vector \<Rightarrow> nat \<Rightarrow> search_filters \<Rightarrow> int option \<Rightarrow> bool \<Rightarrow> scored_chunk list" where
  "vector_chunks s sx v k f ef_search exact =
     (if exact then search_exact (sx_tags sx) (sx_library sx) v k f
      else vector_search (se_vectors s) (sx_tags sx) (sx_library sx) v k f ef_search)"

definition keyword_candidates ::
  "searcher \<Rightarrow> search_tables \<Rightarrow> string \<Rightarrow> nat \<Rightarrow> search_filters \<Rightarrow> scored_chunk list" where
  "keyword_candidates s sx query k f =
     keyword_search (se_matches s) (se_cover_rank s) (sx_tags sx) (sx_library sx) query k f"

definition expansion_for :: "searcher \<Rightarrow> search_tables \<Rightarrow> scored_chunk list list \<Rightarrow> graph_candidates option" where
  "expansion_for s sx chunk_lists =
     (case se_expand s of
        None \<Rightarrow> None
      | Some ex \<Rightarrow>
          let seeds = seed_memories chunk_lists
          in if seeds = [] then None
             else Some (expand_through_graph ex (sx_library sx) (sx_entities sx)
                          (take (se_seed_memories s) seeds) seeds))"

definition expand :: "searcher \<Rightarrow> search_tables \<Rightarrow> scored_chunk list list \<Rightarrow> graph_candidates option" where
  "expand s sx chunk_lists =
     (if graph_is_off (se_weights s) then None else expansion_for s sx chunk_lists)"

definition hybrid ::
  "searcher \<Rightarrow> search_tables \<Rightarrow> time \<Rightarrow> string \<Rightarrow> nat \<Rightarrow> search_filters \<Rightarrow> int option \<Rightarrow> int \<Rightarrow> fusion_weights
   \<Rightarrow> scored_chunk list result" where
  "hybrid s sx now query k f ef_search rrf_k w =
     (let wanted = max (k * FUSION_FANOUT) (max (k * CHUNK_FANOUT) k)
      in bind_result (embed_query s query) (\<lambda>v.
           let vectors = vector_chunks s sx v wanted f ef_search False;
               keywords = keyword_candidates s sx query wanted f
           in bind_result (signals_for (sx_library sx) now [vectors, keywords]) (\<lambda>signals.
                fuse vectors keywords signals w rrf_k (expand s sx [vectors, keywords]))))"

definition retrieve ::
  "searcher \<Rightarrow> search_tables \<Rightarrow> time \<Rightarrow> string \<Rightarrow> nat \<Rightarrow> search_filters \<Rightarrow> int option \<Rightarrow> bool \<Rightarrow> search_mode \<Rightarrow> int
   \<Rightarrow> fusion_weights \<Rightarrow> scored_chunk list result" where
  "retrieve s sx now query k f ef_search exact mode rrf_k w =
     (case mode of
        HYBRID \<Rightarrow> hybrid s sx now query k f ef_search rrf_k w
      | KEYWORD \<Rightarrow> Inr (attribute_single (keyword_candidates s sx query (max (k * CHUNK_FANOUT) k) f) mode)
      | VECTOR \<Rightarrow>
          bind_result (embed_query s query) (\<lambda>v.
            Inr (attribute_single (vector_chunks s sx v (max (k * CHUNK_FANOUT) k) f ef_search exact) mode)))"

definition maybe_rerank :: "searcher \<Rightarrow> bool \<Rightarrow> string \<Rightarrow> scored_chunk list \<Rightarrow> scored_chunk list result" where
  "maybe_rerank s rerank query chunks =
     (case se_rerank s of
        Some model \<Rightarrow> if rerank \<and> chunks \<noteq> [] then rerank_chunks model (se_rerank_candidates s) query chunks
                      else Inr chunks
      | None \<Rightarrow> Inr chunks)"

definition search_weights :: "searcher \<Rightarrow> temporal_intent option \<Rightarrow> fusion_weights" where
  "search_weights s intent =
     (case intent of
        Some i \<Rightarrow> if ti_kind i = RELATIVE then (se_weights s)\<lparr> fw_recency := se_temporal_recency_weight s \<rparr>
                  else se_weights s
      | None \<Rightarrow> se_weights s)"

definition search_filters_for :: "search_filters \<Rightarrow> temporal_intent option \<Rightarrow> search_filters \<times> bool" where
  "search_filters_for f intent =
     (case intent of Some i \<Rightarrow> if is_range i then narrow f i else (f, False) | None \<Rightarrow> (f, False))"

definition search_memories ::
  "searcher \<Rightarrow> search_tables \<Rightarrow> time \<Rightarrow> string \<Rightarrow> nat \<Rightarrow> search_filters option \<Rightarrow> int option \<Rightarrow> bool
   \<Rightarrow> search_mode \<Rightarrow> int \<Rightarrow> bool \<Rightarrow> search_result result" where
  "search_memories s sx now query k filters ef_search exact mode rrf_k rerank =
     bind_result (if se_temporal_intent s then parse_temporal_intent query now else Inr None) (\<lambda>intent.
       let (resolved, filter_applied) =
             search_filters_for (case filters of None \<Rightarrow> no_filters | Some f \<Rightarrow> f) intent
       in bind_result
            (retrieve s sx now query k resolved ef_search exact mode rrf_k (search_weights s intent)) (\<lambda>chunks.
          bind_result (maybe_rerank s rerank query chunks) (\<lambda>chunks.
            let stamped = (case intent of None \<Rightarrow> chunks | Some i \<Rightarrow> stamp_intent chunks i filter_applied);
                hits = to_hits (sx_library sx) stamped k;
                ordered = (case intent of
                             None \<Rightarrow> hits
                           | Some i \<Rightarrow> (case ti_ordering i of None \<Rightarrow> hits | Some ord \<Rightarrow> reorder hits ord))
            in Inr \<lparr> sr_query = query, sr_hits = ordered, sr_mode = mode,
                     sr_temporal_intent = map_option describe intent,
                     sr_temporal_filter_applied = filter_applied \<rparr>)))"

end
