(* ===== verification/Explain.thy ===== *)
theory Explain
  imports Search Citing
begin

text \<open>
  Why a result is where it is: \<^verbatim>\<open>domain/explanation.py\<close>, and \<^verbatim>\<open>explain_hits\<close> of \<^verbatim>\<open>application/citations.py\<close>.
  \<^verbatim>\<open>as_dict\<close> and its rounding are left out.
\<close>

section \<open>One explanation\<close>

record signal_contribution =
  sc_name :: string
  sc_rank :: int
  sc_score :: "pyfloat option"
  sc_weight :: pyfloat
  sc_contribution :: pyfloat
  sc_share :: pyfloat

record rank_explanation =
  re_final_rank :: int
  re_fused_score :: pyfloat
  re_contributions :: "signal_contribution list"
  re_rerank_score :: "pyfloat option"
  re_graph_path :: "string list option"
  re_why :: string

definition show_int :: "int \<Rightarrow> string" where
  "show_int n = (if n < 0 then ''-'' @ show_nat (nat (- n)) else show_nat (nat n))"

definition strength :: "int \<Rightarrow> string" where
  "strength rank = (if rank \<le> 3 then ''strong'' else if rank \<le> 10 then ''moderate'' else ''weak'')"

definition describe_contribution :: "signal_contribution \<Rightarrow> string" where
  "describe_contribution c =
     strength (sc_rank c) @ '' '' @ sc_name c @ '' match (rank '' @ show_int (sc_rank c) @ '')''"

definition ordinal :: "int \<Rightarrow> string" where
  "ordinal value =
     (let teens = 10 \<le> value mod 100 \<and> value mod 100 \<le> 20;
          suffix = (if teens then ''th''
                    else dict_get [(1, ''st''), (2, ''nd''), (3, ''rd'')] (value mod 10) ''th'')
      in show_int value @ suffix)"

definition GRAPH :: string where
  "GRAPH = ''graph''"

definition RETRIEVERS :: "string list" where
  "RETRIEVERS = [''semantic'', ''keyword'']"

definition introduced_by_the_graph :: "signal_contribution list \<Rightarrow> bool" where
  "introduced_by_the_graph contributions \<longleftrightarrow>
     GRAPH \<in> set (map sc_name contributions) \<and>
     list_all (\<lambda>r. r \<notin> set (map sc_name contributions)) RETRIEVERS"

definition why :: "int \<Rightarrow> signal_contribution list \<Rightarrow> int option \<Rightarrow> string list option \<Rightarrow> string" where
  "why final_rank contributions previous_rank graph_path =
     (if contributions = [] then ''Ranked '' @ ordinal final_rank @ '': no ranking signal found this result.''
      else
        let part = (\<lambda>c. describe_contribution c @
                       (case graph_path of
                          Some (p # ps) \<Rightarrow>
                            if sc_name c = GRAPH then '' via '' @ join '' -> '' (p # ps) else []
                        | _ \<Rightarrow> []));
            sentence = ''Ranked '' @ ordinal final_rank @ '': '' @ join '', '' (map part contributions);
            found = (if introduced_by_the_graph contributions then '', found by the graph alone'' else []);
            moved = (case previous_rank of
                       None \<Rightarrow> []
                     | Some p \<Rightarrow>
                         if p \<noteq> final_rank
                         then '', reranked '' @ (if final_rank < p then ''up'' else ''down'') @ '' from '' @ ordinal p
                         else '', unchanged by reranking'')
        in sentence @ found @ moved @ ''.'')"

type_synonym named_rank = "string \<times> int \<times> pyfloat option \<times> pyfloat"

definition counted :: "named_rank list \<Rightarrow> named_rank list" where
  "counted ranks = filter (\<lambda>(_, _, _, weight). weight \<noteq> 0) ranks"

definition term_of :: "int \<Rightarrow> named_rank \<Rightarrow> pyfloat" where
  "term_of rrf_k r = (case r of (_, rank, _, weight) \<Rightarrow> weight / of_int (rrf_k + rank))"

definition build_explanation ::
  "int \<Rightarrow> pyfloat \<Rightarrow> named_rank list \<Rightarrow> int \<Rightarrow> pyfloat option \<Rightarrow> int option \<Rightarrow> string list option
   \<Rightarrow> rank_explanation result" where
  "build_explanation final_rank fused ranks rrf_k rerank_score previous_rank graph_path =
     (if list_ex (\<lambda>(_, rank, _, _). rrf_k + rank = 0) (counted ranks) then Inl ZeroDivisionError
      else
        let total = sum_list (map (term_of rrf_k) (counted ranks));
            resolved = map (\<lambda>(name, rank, score, weight).
                         \<lparr> sc_name = name, sc_rank = rank, sc_score = score, sc_weight = weight,
                           sc_contribution = weight / of_int (rrf_k + rank),
                           sc_share = (if total \<noteq> 0 then weight / of_int (rrf_k + rank) / total else 0) \<rparr>)
                         (sort_key (\<lambda>r. - term_of rrf_k r) (counted ranks))
        in Inr \<lparr> re_final_rank = final_rank, re_fused_score = fused, re_contributions = resolved,
                 re_rerank_score = rerank_score, re_graph_path = graph_path,
                 re_why = why final_rank resolved previous_rank graph_path \<rparr>)"

section \<open>The page of results\<close>

record explained_hit =
  eh_hit :: memory_hit
  eh_citations :: "citation list"
  eh_explanation :: rank_explanation

definition hit_citation :: "memory_hit \<Rightarrow> string option \<Rightarrow> int \<Rightarrow> nat \<Rightarrow> scored_chunk \<Rightarrow> citation result" where
  "hit_citation h memory_text version context_chars c =
     bind_result
       (case memory_text of
          None \<Rightarrow> Inr None
        | Some t \<Rightarrow>
            bind_result (build_excerpt t (int (sk_char_start c)) (int (sk_char_end c)) context_chars)
              (\<lambda>e. Inr (Some e)))
       (\<lambda>context_excerpt. Inr
          \<lparr> ci_memory_id = mh_memory_id h, ci_source_name = mh_source_name h,
            ci_external_key = mh_external_key h, ci_chunk_ordinal = sk_ordinal c,
            ci_char_start = sk_char_start c, ci_char_end = sk_char_end c,
            ci_prefix_chars = sk_prefix_chars c, ci_excerpt = drop (sk_prefix_chars c) (sk_text c),
            ci_definition = sk_definition c, ci_occurred_at = mh_occurred_at h,
            ci_version = version, ci_context = context_excerpt \<rparr>)"

fun given_rank :: "string \<Rightarrow> int option \<Rightarrow> pyfloat option \<Rightarrow> pyfloat \<Rightarrow> named_rank list" where
  "given_rank name None score weight = []"
| "given_rank name (Some rank) score weight = [(name, rank, score, weight)]"

definition breakdown_ranks :: "score_breakdown \<Rightarrow> fusion_weights \<Rightarrow> named_rank list" where
  "breakdown_ranks b w =
     given_rank ''semantic'' (sb_vector_rank b) (sb_vector_score b) (fw_vector w) @
     given_rank ''keyword'' (sb_keyword_rank b) (sb_keyword_score b) (fw_keyword w) @
     given_rank ''recency'' (sb_recency_rank b) (sb_recency_score b) (fw_recency w) @
     given_rank ''importance'' (sb_importance_rank b) (sb_importance_score b) (fw_importance w) @
     given_rank ''graph'' (sb_graph_rank b) (sb_graph_score b) (fw_graph w)"

definition best_chunk :: "memory_hit \<Rightarrow> scored_chunk option" where
  "best_chunk h = (case mh_matched_chunks h of [] \<Rightarrow> None | c # cs \<Rightarrow> Some (first_max sk_score c cs))"

definition explanation ::
  "memory_hit \<Rightarrow> int \<Rightarrow> int option \<Rightarrow> fusion_weights \<Rightarrow> int \<Rightarrow> rank_explanation result" where
  "explanation h rank previous_rank w rrf_k =
     (case (case best_chunk h of None \<Rightarrow> None | Some c \<Rightarrow> sk_breakdown c) of
        None \<Rightarrow> build_explanation rank (mh_score h) [] rrf_k None None None
      | Some b \<Rightarrow> build_explanation rank (sb_fused b) (breakdown_ranks b w) rrf_k (sb_rerank_score b)
                    previous_rank (sb_graph_path b))"

definition was_reranked :: "scored_chunk \<Rightarrow> bool" where
  "was_reranked c = (case sk_breakdown c of None \<Rightarrow> False | Some b \<Rightarrow> sb_rerank_rank b \<noteq> None)"

definition best_fused :: "memory_hit \<Rightarrow> pyfloat" where
  "best_fused h =
     (let fused = concat (map (\<lambda>c. case sk_breakdown c of None \<Rightarrow> [] | Some b \<Rightarrow> [sb_fused b]) (mh_matched_chunks h))
      in if fused = [] then 0 else Max (set fused))"

definition ranks_before_reranking :: "memory_hit list \<Rightarrow> (nat \<times> int) list" where
  "ranks_before_reranking hits =
     (if \<not> list_ex (\<lambda>h. list_ex was_reranked (mh_matched_chunks h)) hits then []
      else ranked fst (sort_key (\<lambda>(i, fused). (- fused, show_nat i))
                         (map (\<lambda>h. (mh_memory_id h, best_fused h)) hits)))"

definition memory_content :: "library \<Rightarrow> nat \<Rightarrow> string option \<times> int" where
  "memory_content l i =
     (case memory_get i l of None \<Rightarrow> (None, 1) | Some m \<Rightarrow> (tx_content (text_of m l), m_version m))"

definition explain_hit ::
  "library \<Rightarrow> (nat \<times> int) list \<Rightarrow> fusion_weights \<Rightarrow> int \<Rightarrow> nat \<Rightarrow> nat \<times> memory_hit \<Rightarrow> explained_hit result" where
  "explain_hit l previous w rrf_k context_chars rh =
     (let (rank, h) = rh; (content, version) = memory_content l (mh_memory_id h)
      in bind_result (all_ok (hit_citation h content version context_chars) (mh_matched_chunks h)) (\<lambda>cs.
         bind_result (explanation h (int rank) (map_of (rev previous) (mh_memory_id h)) w rrf_k) (\<lambda>e.
           Inr \<lparr> eh_hit = h, eh_citations = cs, eh_explanation = e \<rparr>)))"

definition explain_hits ::
  "library \<Rightarrow> memory_hit list \<Rightarrow> fusion_weights \<Rightarrow> int \<Rightarrow> nat \<Rightarrow> explained_hit list result" where
  "explain_hits l hits w rrf_k context_chars =
     all_ok (explain_hit l (ranks_before_reranking hits) w rrf_k context_chars) (enumerate 1 hits)"

end
