(* ===== verification/Temporal_Guarantees.thy ===== *)
theory Temporal_Guarantees
  imports Temporal_Intent
begin

text \<open>
  What the temporal parser of \<open>Temporal_Intent\<close> guarantees: an intent rests on words of the query that are
  about time, a month without a year is its latest occurrence, and which queries it misreads.
\<close>

section \<open>Which stage answered\<close>

lemma first_found_Some:
  "first_found rs = Inr (Some x) \<Longrightarrow> Inr (Some x) \<in> set rs"
  by (induction rs) (auto split: sum.splits option.splits)

lemma first_found_skip: "first_found (Inr None # rs) = first_found rs"
  by simp

lemma parse_cases:
  assumes "parse_temporal_intent q now = Inr (Some i)"
  obtains (day) "day_range q now = Inr (Some i)" | (month) "month_range q now = Inr (Some i)"
    | (today) "today_range q now = Inr (Some i)" | (window) "window_range q now = Inr (Some i)"
    | (extreme) "ordering_intent q = Some i" | (lean) "relative_intent q = Some i"
proof -
  from assms have "first_found [explicit_range q now, Inr (ordering_intent q), Inr (relative_intent q)] = Inr (Some i)"
    unfolding parse_temporal_intent_def by (simp split: if_splits)
  then have "Inr (Some i) \<in> set [explicit_range q now, Inr (ordering_intent q), Inr (relative_intent q)]"
    by (rule first_found_Some)
  then consider "explicit_range q now = Inr (Some i)" | "ordering_intent q = Some i" | "relative_intent q = Some i"
    by auto
  then show thesis
  proof cases
    case 1
    then have "Inr (Some i) \<in> set [day_range q now, month_range q now, today_range q now, window_range q now]"
      unfolding explicit_range_def by (rule first_found_Some)
    then show ?thesis using day month today window by auto
  qed (use extreme lean in blast)+
qed

lemma day_range_Some:
  assumes "day_range q now = Inr (Some i)"
  obtains m where "rx_search PREPOSED_DAY q = Some m" and "ti_kind i = RANGE"
    and "ti_phrase i = lower (strip (rm_text q m))"
  using assms by (auto simp: day_range_def bind_result_Inr_iff Let_def range_intent_def new_intent_def
      split: option.splits)

lemma month_range_Some:
  assumes "month_range q now = Inr (Some i)"
  obtains m month year start stop where "rx_search PREPOSED_MONTH q = Some m"
    and "optional int_of_digits (rm_group ''year'' m) = Inr year"
    and "map_of MONTHS (lower (group_or ''month'' m)) = Some month"
    and "month_start month year now = Inr start" and "next_month start = Inr stop"
    and "i = range_intent (lower (strip (rm_text q m))) (bounds (group_or ''prep'' m) start stop)"
  using assms by (auto simp: month_range_def bind_result_Inr_iff split: option.splits)

lemma today_range_Some:
  assumes "today_range q now = Inr (Some i)"
  obtains m where "rx_search TODAY q = Some m" and "ti_kind i = RANGE"
    and "ti_phrase i = lower (group_or ''phrase'' m)"
  using assms by (auto simp: today_range_def bind_result_Inr_iff Let_def range_intent_def new_intent_def
      split: option.splits)

lemma window_range_Some:
  assumes "window_range q now = Inr (Some i)"
  obtains m where "rx_search WINDOW q = Some m" and "ti_kind i = RANGE"
    and "ti_phrase i = lower (strip (rm_text q m))"
  using assms by (auto simp: window_range_def bind_result_Inr_iff Let_def range_intent_def new_intent_def
      split: option.splits)

lemma ordering_intent_Some:
  assumes "ordering_intent q = Some i"
  obtains m where "rx_search EARLIEST_WORDS q = Some m \<or> rx_search LATEST_WORDS q = Some m"
    and "ti_kind i = ORDERING" and "ti_phrase i = lower (group_or ''phrase'' m)"
proof (cases "rx_search EARLIEST_WORDS q")
  case (Some m)
  with assms show ?thesis by (intro that [of m]) (auto simp: ordering_intent_def new_intent_def)
next
  case None
  with assms obtain m where "rx_search LATEST_WORDS q = Some m"
    and "i = (new_intent ORDERING (lower (group_or ''phrase'' m)))\<lparr> ti_ordering := Some LATEST \<rparr>"
    by (auto simp: ordering_intent_def split: option.splits)
  then show ?thesis by (intro that [of m]) (auto simp: new_intent_def)
qed

lemma relative_intent_Some:
  assumes "relative_intent q = Some i"
  obtains m where "rx_search RELATIVE_WORDS q = Some m" and "ti_kind i = RELATIVE"
    and "ti_phrase i = lower (group_or ''phrase'' m)"
  using assms by (auto simp: relative_intent_def new_intent_def split: option.splits)

section \<open>The words an intent rests on\<close>

definition PREPOSITION_WORDS :: "string list" where
  "PREPOSITION_WORDS =
     [''in'', ''on'', ''during'', ''since'', ''from'', ''before'', ''after'', ''until'', ''till'', ''in'', ''around'']"

definition NOUN_WORDS :: "string list" where
  "NOUN_WORDS =
     [''version'', ''revision'', ''change'', ''edit'', ''commit'', ''iteration'', ''draft'', ''release'']"

definition LEANING_WORDS :: "string list" where
  "LEANING_WORDS =
     [''recently'', ''lately'', ''recent'', ''days'', ''nowadays'', ''late'', ''now'', ''other'', ''current'']"

definition about_time :: "string \<Rightarrow> intent_kind \<Rightarrow> bool" where
  "about_time q kind \<longleftrightarrow>
     (case kind of
        RANGE \<Rightarrow> says q PREPOSITION_WORDS \<and> says q (map fst MONTHS) \<or> says q [''today'', ''yesterday''] \<or>
                 says q [''last'', ''past'', ''previous'', ''this''] \<and> says q (map fst UNIT_DAYS)
      | ORDERING \<Rightarrow> says q NOUN_WORDS \<or> says q [''originally'', ''begin'', ''first'', ''far'', ''now'']
      | RELATIVE \<Rightarrow> says q LEANING_WORDS)"

lemmas pattern_defs =
  PREPOSED_DAY_def PREPOSED_MONTH_def TODAY_def WINDOW_def RELATIVE_WORDS_def EARLIEST_WORDS_def
  LATEST_WORDS_def TEMPORAL_NOUN_def PREPOSITION_def MONTH_NAMES_def MONTHS_def UNIT_DAYS_def words_def
  PREPOSITION_WORDS_def NOUN_WORDS_def LEANING_WORDS_def

lemma day_clauses: "{PREPOSITION_WORDS, map fst MONTHS @ map fst MONTHS} \<subseteq> set (clauses PREPOSED_DAY)"
  by (simp add: pattern_defs)

lemma month_clauses: "{PREPOSITION_WORDS, map fst MONTHS} \<subseteq> set (clauses PREPOSED_MONTH)"
  by (simp add: pattern_defs)

lemma today_clauses: "[''today'', ''yesterday''] \<in> set (clauses TODAY)"
  by (simp add: pattern_defs)

lemma window_clauses:
  "{[''last'', ''past'', ''previous'', ''this''], map fst UNIT_DAYS} \<subseteq> set (clauses WINDOW)"
  by (simp add: pattern_defs)

lemma earliest_clauses: "NOUN_WORDS @ [''originally'', ''begin'', ''first''] \<in> set (clauses EARLIEST_WORDS)"
  by code_simp

lemma latest_clauses: "NOUN_WORDS @ [''far'', ''now''] \<in> set (clauses LATEST_WORDS)"
  by code_simp

lemma relative_clauses: "LEANING_WORDS \<in> set (clauses RELATIVE_WORDS)"
  by code_simp

lemma says_mono: "says q ws \<Longrightarrow> set ws \<subseteq> set vs \<Longrightarrow> says q vs"
  by (auto simp: says_def list_ex_iff)

lemma intent_about_time:
  assumes "parse_temporal_intent q now = Inr (Some i)"
  shows "about_time q (ti_kind i)"
  using assms
proof (cases rule: parse_cases)
  case day
  then obtain m where m: "rx_search PREPOSED_DAY q = Some m" and "ti_kind i = RANGE" by (rule day_range_Some)
  moreover have "says q PREPOSITION_WORDS" "says q (map fst MONTHS)"
    using rx_search_says [OF m, of PREPOSITION_WORDS] rx_search_says [OF m, of "map fst MONTHS @ map fst MONTHS"]
      day_clauses by simp_all
  ultimately show ?thesis by (simp add: about_time_def)
next
  case month
  then obtain m where m: "rx_search PREPOSED_MONTH q = Some m" and "ti_kind i = RANGE"
    by (rule month_range_Some) (auto simp: range_intent_def new_intent_def)
  moreover have "says q PREPOSITION_WORDS" "says q (map fst MONTHS)"
    using rx_search_says [OF m] month_clauses by auto
  ultimately show ?thesis by (simp add: about_time_def)
next
  case today
  then obtain m where m: "rx_search TODAY q = Some m" and "ti_kind i = RANGE" by (rule today_range_Some)
  then show ?thesis using rx_search_says [OF m today_clauses] by (simp add: about_time_def)
next
  case window
  then obtain m where m: "rx_search WINDOW q = Some m" and "ti_kind i = RANGE" by (rule window_range_Some)
  moreover have "says q [''last'', ''past'', ''previous'', ''this'']" "says q (map fst UNIT_DAYS)"
    using rx_search_says [OF m] window_clauses by auto
  ultimately show ?thesis by (simp add: about_time_def)
next
  case extreme
  then obtain m where m: "rx_search EARLIEST_WORDS q = Some m \<or> rx_search LATEST_WORDS q = Some m"
    and k: "ti_kind i = ORDERING" by (rule ordering_intent_Some)
  from m have "says q (NOUN_WORDS @ [''originally'', ''begin'', ''first'', ''far'', ''now''])"
  proof
    assume "rx_search EARLIEST_WORDS q = Some m"
    from rx_search_says [OF this earliest_clauses] show ?thesis by (rule says_mono) auto
  next
    assume "rx_search LATEST_WORDS q = Some m"
    from rx_search_says [OF this latest_clauses] show ?thesis by (rule says_mono) auto
  qed
  then show ?thesis using k by (simp only: about_time_def says_append) simp
next
  case lean
  then obtain m where m: "rx_search RELATIVE_WORDS q = Some m" and "ti_kind i = RELATIVE"
    by (rule relative_intent_Some)
  then show ?thesis using rx_search_says [OF m relative_clauses] by (simp add: about_time_def)
qed

section \<open>The phrase is the user's own\<close>

definition from_query :: "string \<Rightarrow> groups \<Rightarrow> bool" where
  "from_query q g \<longleftrightarrow> (\<forall>v \<in> snd ` set g. \<exists>a b. v = slice q a b)"

lemma run_from_query: "(j, h) \<in> set (run q r (i, g)) \<Longrightarrow> from_query q g \<Longrightarrow> from_query q h"
proof (induction r arbitrary: i g j h)
  case (Then r1 r2)
  then obtain k f where "(k, f) \<in> set (run q r1 (i, g))" "(j, h) \<in> set (run q r2 (k, f))" by auto
  with Then show ?case by blast
next
  case (Group n r)
  then obtain f where "(j, f) \<in> set (run q r (i, g))" and h: "h = (n, slice q i j) # f" by auto
  with Group have "from_query q f" by blast
  then show ?case by (auto simp: h from_query_def)
qed (auto split: if_splits)

lemma group_in_query:
  assumes "rx_search r q = Some m" and "rm_group name m = Some v"
  shows "\<exists>a b. v = slice q a b"
proof -
  from rx_search_Some(3) [OF assms(1)]
  have "(rm_end m, rm_groups m) \<in> set (run q r (rm_start m, []))" by (metis list.set_intros(1))
  then have "from_query q (rm_groups m)" by (rule run_from_query) (simp add: from_query_def)
  moreover have "v \<in> snd ` set (rm_groups m)"
    using assms(2) by (force simp: rm_group_def dest: map_of_SomeD)
  ultimately show ?thesis unfolding from_query_def by blast
qed

lemma group_or_in_query:
  assumes "rx_search r q = Some m"
  shows "\<exists>a b. group_or name m = slice q a b"
proof (cases "rm_group name m")
  case None
  then have "group_or name m = slice q 0 0" by (simp add: group_or_def)
  then show ?thesis by blast
next
  case (Some v)
  with group_in_query [OF assms Some] show ?thesis by (simp add: group_or_def)
qed

lemma strip_is_slice: "\<exists>c d. strip (slice s a b) = slice s c d"
proof -
  have "\<exists>k. lstrip t = drop k t" for t by (metis dropWhile_eq_drop lstrip_def)
  moreover have "\<exists>k. rstrip t = take k t" for t
    unfolding rstrip_def by (metis dropWhile_eq_drop rev_drop rev_rev_ident)
  ultimately obtain k n where "strip (slice s a b) = take n (drop k (slice s a b))"
    unfolding strip_def by metis
  also have "\<dots> = take (min n (b - a - k)) (drop (a + k) s)"
    by (simp add: slice_def drop_take min.commute add.commute)
  also have "\<dots> = slice s (a + k) (a + k + min n (b - a - k))" by (simp add: slice_def)
  finally show ?thesis by blast
qed

lemma phrase_in_query:
  assumes "parse_temporal_intent q now = Inr (Some i)"
  shows "\<exists>a b. ti_phrase i = lower (slice q a b)"
  using assms
proof (cases rule: parse_cases)
  case day
  then obtain m where "ti_phrase i = lower (strip (rm_text q m))" by (rule day_range_Some)
  then show ?thesis using strip_is_slice unfolding rm_text_def by metis
next
  case month
  then obtain m where "ti_phrase i = lower (strip (rm_text q m))"
    by (rule month_range_Some) (simp add: range_intent_def new_intent_def)
  then show ?thesis using strip_is_slice unfolding rm_text_def by metis
next
  case today
  then show ?thesis by (rule today_range_Some) (use group_or_in_query in metis)
next
  case window
  then obtain m where "ti_phrase i = lower (strip (rm_text q m))" by (rule window_range_Some)
  then show ?thesis using strip_is_slice unfolding rm_text_def by metis
next
  case extreme
  then show ?thesis by (rule ordering_intent_Some) (use group_or_in_query in metis)
next
  case lean
  then show ?thesis by (rule relative_intent_Some) (use group_or_in_query in metis)
qed

text \<open>An intent rests on the query's words: whatever the parser reads into a query, the words its kind
  requires occur there, and the phrase it reports is part of the query.\<close>

theorem an_intent_rests_on_words_of_the_query:
  assumes "parse_temporal_intent q now = Inr (Some i)"
  shows "about_time q (ti_kind i) \<and> (\<exists>a b. ti_phrase i = lower (slice q a b))"
  using intent_about_time [OF assms] phrase_in_query [OF assms] by blast

section \<open>A month without a year\<close>

lemma ymd2ord_month_less:
  assumes "1 \<le> m" and "m \<le> 12" and "y < z"
  shows "ymd2ord y m 1 < ymd2ord z m 1"
proof -
  have y: "days_before_year y + (if is_leap y then 366 else 365) \<le> days_before_year z"
    using days_before_year_mono [of "y + 1" z] year_step [of y] assms(3) by simp
  have "days_before_month y m \<le> days_before_month z m + 1"
    using month_cases [OF assms(1,2)] by (elim insertE) (auto simp: days_before_month_simps)
  with y show ?thesis by (simp add: ymd2ord_def split: if_splits)
qed

lemma month_start_None:
  assumes "month_start m None now = Inr s" and "1 \<le> m" and "m \<le> 12"
  shows "\<exists>y. datetime_at y m 1 = Inr s \<and> s \<le> now \<and> (\<forall>z > y. now < time_of_ordinal (ymd2ord z m 1))"
proof -
  let ?y = "year_of now"
  obtain c where c: "datetime_at ?y m 1 = Inr c"
    and s: "(if now < c then datetime_at (?y - 1) m 1 else Inr c) = Inr s"
    using assms(1) by (auto simp: month_start_def bind_result_Inr_iff)
  have one: "1 \<le> days_in_month z m" for z using days_in_month_bounds [of z m] by simp
  have today: "days_before_year ?y < ordinal_of now" "ordinal_of now \<le> days_before_year (?y + 1)"
    using ord_year_brackets [of "ordinal_of now"] by (simp_all add: year_of_def)
  have later: "ordinal_of now < ymd2ord z m 1" if "?y < z" for z
    using days_before_year_mono [of "?y + 1" z] days_before_month_bounds(1) [OF assms(2,3) order_refl one, of z]
      that today by (simp add: ymd2ord_def)
  have lt: "now < time_of_ordinal n \<longleftrightarrow> ordinal_of now < n" for n
    using time_of_ordinal_le_iff [of n now] by linarith
  show ?thesis
  proof (cases "now < c")
    case True
    then have d: "datetime_at (?y - 1) m 1 = Inr s" using s by simp
    have "ymd2ord (?y - 1) m 1 \<le> days_before_year ?y"
      using days_before_month_bounds(2) [OF assms(2,3) order_refl one, of "?y - 1"] year_step [of "?y - 1"]
      by (simp add: ymd2ord_def)
    then have "s \<le> now" using d today by (simp add: datetime_at_Inr time_of_ordinal_le_iff)
    moreover have "now < time_of_ordinal (ymd2ord z m 1)" if "?y - 1 < z" for z
    proof (cases "z = ?y")
      case True
      then show ?thesis using \<open>now < c\<close> c by (simp add: datetime_at_Inr)
    next
      case False
      then show ?thesis using that later [of z] by (simp add: lt)
    qed
    ultimately show ?thesis using d by blast
  next
    case False
    then have "c = s" using s by simp
    then show ?thesis using c False later by (auto simp: lt intro!: exI [where x = ?y])
  qed
qed

lemma next_month_length:
  assumes "datetime_at y m 1 = Inr s" and "next_month s = Inr e"
  shows "e = s + days (days_in_month y m)"
proof -
  from assms(1) have y: "1 \<le> y" "y \<le> 9999" and m: "1 \<le> m" "m \<le> 12"
    and s: "s = time_of_ordinal (ymd2ord y m 1)" by (simp_all add: datetime_at_Inr)
  have one: "1 \<le> days_in_month y m" using days_in_month_bounds [of y m] by simp
  have "month_day_of s = (m, 1)" "year_of s = y"
    unfolding s by (rule month_day_of_date year_of_date; use m one in simp)+
  moreover have "time_of_day s = 0"
    unfolding s time_of_day_def time_of_ordinal_def by (subst days_eq_mult) simp
  ultimately have e: "e = time_of_ordinal (ymd2ord (y + m div 12) (m mod 12 + 1) 1)"
    using assms(2) by (auto simp: next_month_def replace_date_def bind_result_Inr_iff datetime_at_Inr Let_def)
  have "ymd2ord (y + m div 12) (m mod 12 + 1) 1 = ymd2ord y m 1 + days_in_month y m"
    using month_cases [OF m] year_step [of y]
    by (elim insertE) (simp_all add: ymd2ord_def days_before_month_simps days_in_month_def)
  then show ?thesis
    by (simp add: e s time_of_ordinal_def days_add [symmetric] algebra_simps)
qed

lemma map_of_MONTHS: "map_of MONTHS name = Some m \<Longrightarrow> 1 \<le> m \<and> m \<le> 12"
  by (auto simp: MONTHS_def split: if_splits)

text \<open>A month without a year is its latest occurrence: it starts on the first of that month, not after
  now, and every later one does; it ends after the days of that month, and the preposition decides
  which of the two ends bound the window.\<close>

theorem a_bare_month_is_its_latest_occurrence:
  assumes "month_range q now = Inr (Some i)" and "rx_search PREPOSED_MONTH q = Some m"
    and "rm_group ''year'' m = None"
  shows "\<exists>y month s. map_of MONTHS (lower (group_or ''month'' m)) = Some month \<and>
           datetime_at y month 1 = Inr s \<and> s \<le> now \<and>
           (\<forall>z > y. now < time_of_ordinal (ymd2ord z month 1)) \<and>
           (ti_start i, ti_end i) = bounds (group_or ''prep'' m) s (s + days (days_in_month y month))"
proof -
  obtain m' month year s e where m': "rx_search PREPOSED_MONTH q = Some m'"
    and "optional int_of_digits (rm_group ''year'' m') = Inr year"
    and month: "map_of MONTHS (lower (group_or ''month'' m')) = Some month"
    and "month_start month year now = Inr s" and e: "next_month s = Inr e"
    and i: "i = range_intent (lower (strip (rm_text q m'))) (bounds (group_or ''prep'' m') s e)"
    using assms(1) by (rule month_range_Some)
  then have s: "month_start month None now = Inr s" using assms(2,3) by auto
  have "m' = m" using m' assms(2) by simp
  obtain y where y: "datetime_at y month 1 = Inr s" "s \<le> now" "\<forall>z > y. now < time_of_ordinal (ymd2ord z month 1)"
    using month_start_None [OF s] map_of_MONTHS [OF month] by blast
  have "e = s + days (days_in_month y month)" by (rule next_month_length [OF y(1) e])
  with y month i \<open>m' = m\<close> show ?thesis
    by (intro exI [where x = y] exI [where x = month] exI [where x = s])
       (simp add: range_intent_def new_intent_def)
qed

section \<open>Queries the parser misreads\<close>

lemma day_never_found_falls_through:
  "\<not> blank q \<Longrightarrow> day_range q now = Inr None \<Longrightarrow> month_range q now = Inr (Some i) \<Longrightarrow>
   parse_temporal_intent q now = Inr (Some i)"
  by (simp add: parse_temporal_intent_def explicit_range_def)

lemma ordinal_of_plus: "ordinal_of (t + days n) = ordinal_of t + n"
proof -
  have "(t + days n) div days 1 = t div days 1 + n"
    using day_pos by (simp add: days_eq_mult [of n])
  then show ?thesis by (simp add: ordinal_of_def)
qed

lemma impossible_day_matches:
  "rx_search PREPOSED_DAY ''on february 31'' =
     Some \<lparr> rm_start = 0, rm_end = 14,
            rm_groups = [(''day2'', ''31''), (''month2'', ''february''), (''prep'', ''on'')] \<rparr>"
  "rx_search PREPOSED_MONTH ''on february 31'' =
     Some \<lparr> rm_start = 0, rm_end = 11, rm_groups = [(''month'', ''february''), (''prep'', ''on'')] \<rparr>"
  by code_simp+

lemma bounds_on: "bounds ''on'' s e = (Some s, Some e)"
proof -
  have "join '' '' (split_words (lower ''on'') []) = ''on''" by code_simp
  then show ?thesis by (simp add: bounds_def ONWARD_def AFTER_def UNTIL_def)
qed

lemma february_31:
  assumes "month_start 2 None now = Inr s"
  shows "day_start 2 31 None now = Inr None"
proof -
  obtain y where "datetime_at y 2 1 = Inr s" using month_start_None [OF assms] by auto
  then have "year_of s = y" "month_day_of s = (2, 1)"
    using days_in_month_bounds [of y 2] by (auto simp: datetime_at_Inr year_of_date month_day_of_date)
  then show ?thesis
    using assms by (simp add: day_start_def replace_date_def datetime_at_def days_in_month_def)
qed

text \<open>A day that does not exist is widened to its month: \<^verbatim>\<open>on february 31\<close> filters to the whole of
  February, because the pattern for months still matches after the one for days has given up.\<close>

theorem an_impossible_day_widens_to_its_month:
  assumes "month_start 2 None now = Inr s" and "next_month s = Inr e"
  shows "parse_temporal_intent ''on february 31'' now =
           Inr (Some \<lparr> ti_kind = RANGE, ti_phrase = ''on february'', ti_start = Some s, ti_end = Some e,
                       ti_ordering = None \<rparr>)"
proof -
  have "int_of_digits ''31'' = Inr 31" "lower ''february'' = ''february''" "map_of MONTHS ''february'' = Some 2"
      "lower (strip ''on february'') = ''on february''" "\<not> blank ''on february 31''"
      "rm_text ''on february 31'' \<lparr> rm_start = 0, rm_end = 11, rm_groups = g \<rparr> = ''on february''" for g
    by code_simp+
  note words = this
  have "day_range ''on february 31'' now = Inr None"
    by (simp add: day_range_def impossible_day_matches(1) rm_group_def group_or_def words february_31 [OF assms(1)])
  moreover have "month_range ''on february 31'' now =
      Inr (Some \<lparr> ti_kind = RANGE, ti_phrase = ''on february'', ti_start = Some s, ti_end = Some e,
                  ti_ordering = None \<rparr>)"
    by (simp add: month_range_def impossible_day_matches(2) rm_group_def group_or_def words assms bounds_on
        range_intent_def new_intent_def)
  ultimately show ?thesis using words by (intro day_never_found_falls_through)
qed

lemma year_zero_matches:
  "rx_search PREPOSED_DAY ''in may 0000'' = None"
  "rx_search PREPOSED_MONTH ''in may 0000'' =
     Some \<lparr> rm_start = 0, rm_end = 11, rm_groups = [(''year'', ''0000''), (''month'', ''may''), (''prep'', ''in'')] \<rparr>"
  by code_simp+

lemma far_window_matches:
  "rx_search PREPOSED_DAY ''last 99999 years'' = None" "rx_search PREPOSED_MONTH ''last 99999 years'' = None"
  "rx_search TODAY ''last 99999 years'' = None"
  "rx_search WINDOW ''last 99999 years'' =
     Some \<lparr> rm_start = 0, rm_end = 16,
            rm_groups = [(''unit'', ''year''), (''count'', ''99999''), (''det'', ''last'')] \<rparr>"
  by code_simp+

text \<open>Two ordinary shapes of query raise instead of parsing: a year of zero, and a window that reaches back
  before the first representable day.\<close>

theorem some_dates_raise:
  assumes "in_range now"
  shows "parse_temporal_intent ''in may 0000'' now = Inl ValueError \<and>
         parse_temporal_intent ''last 99999 years'' now = Inl OverflowError"
proof -
  have words: "int_of_digits ''0000'' = Inr 0" "map_of MONTHS (lower ''may'') = Some 5" "\<not> blank ''in may 0000''"
      "window_count (Some ''99999'') = Inr 99999" "map_of UNIT_DAYS (lower ''year'') = Some 365"
      "\<not> blank ''last 99999 years''"
    by code_simp+
  have "month_start 5 (Some 0) now = Inl ValueError" by (simp add: month_start_def datetime_at_def)
  then have year: "parse_temporal_intent ''in may 0000'' now = Inl ValueError"
    by (simp add: parse_temporal_intent_def explicit_range_def day_range_def month_range_def year_zero_matches
        rm_group_def group_or_def words)
  have "ordinal_of (now - days 36499635) = ordinal_of now - 36499635"
    using ordinal_of_plus [of now "- 36499635"] by (simp add: time_units)
  then have "\<not> in_range (now - days 36499635)" using assms by (simp add: in_range_def)
  then have "window_range ''last 99999 years'' now = Inl OverflowError"
    by (simp add: window_range_def far_window_matches rm_group_def group_or_def words timedelta_days_def time_plus_def)
  then have "parse_temporal_intent ''last 99999 years'' now = Inl OverflowError"
    by (simp add: parse_temporal_intent_def explicit_range_def day_range_def month_range_def today_range_def
        far_window_matches words)
  with year show ?thesis by blast
qed

section \<open>Witnesses\<close>

text \<open>The twentieth thousandth day is 2024-10-04.\<close>

lemma an_intent_rests_on_words_of_the_query_witness:
  "about_time ''today'' RANGE \<and> (\<exists>a b. ''today'' = lower (slice ''today'' a b))"
proof -
  have "parse_temporal_intent ''today'' (days 20000) =
      Inr (Some \<lparr> ti_kind = RANGE, ti_phrase = ''today'', ti_start = Some (days 20000),
                  ti_end = Some (days 20001), ti_ordering = None \<rparr>)" by code_simp
  from an_intent_rests_on_words_of_the_query [OF this] show ?thesis
    by (simp only: temporal_intent.select_convs)
qed

lemma a_bare_month_is_its_latest_occurrence_witness:
  "\<exists>y month s. map_of MONTHS (lower ''May'') = Some month \<and> datetime_at y month 1 = Inr s \<and> s \<le> days 20000 \<and>
     (Some (days 19844), None) = bounds ''since'' s (s + days (days_in_month y month))"
proof -
  let ?q = "''since May''"
  let ?m = "\<lparr> rm_start = 0, rm_end = 9, rm_groups = [(''month'', ''May''), (''prep'', ''since'')] \<rparr>"
  let ?i = "\<lparr> ti_kind = RANGE, ti_phrase = ''since may'', ti_start = Some (days 19844), ti_end = None,
              ti_ordering = None \<rparr>"
  have "month_range ?q (days 20000) = Inr (Some ?i)" "rx_search PREPOSED_MONTH ?q = Some ?m"
      "rm_group ''year'' ?m = None" "group_or ''month'' ?m = ''May''" "group_or ''prep'' ?m = ''since''"
    by code_simp+
  note facts = this
  from a_bare_month_is_its_latest_occurrence [OF facts(1-3)] show ?thesis
    unfolding facts(4,5) temporal_intent.select_convs by blast
qed

lemma an_impossible_day_widens_to_its_month_witness:
  "parse_temporal_intent ''on february 31'' (days 20000) =
     Inr (Some \<lparr> ti_kind = RANGE, ti_phrase = ''on february'', ti_start = Some (days 19754),
                 ti_end = Some (days 19783), ti_ordering = None \<rparr>)"
proof -
  have "month_start 2 None (days 20000) = Inr (days 19754)" "next_month (days 19754) = Inr (days 19783)"
    by code_simp+
  then show ?thesis by (rule an_impossible_day_widens_to_its_month)
qed

lemma some_dates_raise_witness:
  "parse_temporal_intent ''in may 0000'' (days 20000) = Inl ValueError \<and>
   parse_temporal_intent ''last 99999 years'' (days 20000) = Inl OverflowError"
proof -
  have "in_range (days 20000)" by code_simp
  then show ?thesis by (rule some_dates_raise)
qed

end
