(* ===== verification/Search_Guarantees.thy ===== *)
theory Search_Guarantees
  imports Explain Temporal_Guarantees
begin

text \<open>
  What \<open>Search\<close> and \<open>Explain\<close> guarantee: fusion accounts for every score it gives, reranking loses nothing,
  the page is the best memories in order, the filters hold, and where they do not.
\<close>

section \<open>Dictionaries\<close>

lemma map_of_set_defaults:
  "map_of (set_defaults d kvs) k = (case map_of d k of None \<Rightarrow> map_of kvs k | Some v \<Rightarrow> Some v)"
proof (induction kvs arbitrary: d)
  case Nil
  then show ?case by (simp add: set_defaults_def split: option.split)
next
  case (Cons kv kvs)
  have "set_defaults d (kv # kvs) = set_defaults (set_default d kv) kvs" by (simp add: set_defaults_def)
  then show ?case
    by (cases kv) (auto simp: Cons.IH set_default_def map_add_def split: option.splits)
qed

lemma map_of_dict_of: "map_of (dict_of kvs) = map_of (rev kvs)"
proof -
  have "map_of (foldl (\<lambda>d (k, v). AList.update k v d) d kvs) = map_of d ++ map_of (rev kvs)" for d :: "('a \<times> 'b) list"
    by (induction kvs arbitrary: d) (auto simp: update_conv' map_add_def fun_eq_iff split: option.splits)
  then show ?thesis by (simp add: dict_of_def)
qed

lemma distinct_dict_of: "distinct (map fst (dict_of kvs))"
proof -
  have "distinct (map fst d) \<Longrightarrow> distinct (map fst (foldl (\<lambda>d (k, v). AList.update k v d) d kvs))" for d :: "('a \<times> 'b) list"
    by (induction kvs arbitrary: d) (auto simp: distinct_update)
  then show ?thesis by (simp add: dict_of_def)
qed

lemma map_of_ranked: "map_of (ranked f xs) s = rank_of s (map f xs)"
proof -
  have "map_of (map (\<lambda>(i, x). (f x, int i)) (enumerate n xs)) s = rank_from (int n) s (map f xs)" for n
    by (induction xs arbitrary: n) (auto simp: add.commute)
  from this [of 1] show ?thesis by (simp add: ranked_def rank_of_def)
qed

lemma map_of_ranked_distinct:
  assumes "distinct xs"
  shows "map_of (dict_of (ranked id xs)) s = rank_of s xs"
proof -
  have "map fst (ranked id xs) = xs"
  proof -
    have "map (fst \<circ> (\<lambda>(i, x). (x, int i))) (enumerate n xs) = xs" for n
      by (induction xs arbitrary: n) auto
    then show ?thesis by (simp add: ranked_def)
  qed
  with assms have "map_of (rev (ranked id xs)) = map_of (ranked id xs)"
    by (intro map_of_inject_set [THEN iffD2]) (simp_all add: rev_map [symmetric])
  then show ?thesis by (simp add: map_of_dict_of map_of_ranked)
qed

lemma all_ok_iff: "all_ok f xs = Inr ys \<longleftrightarrow> list_all2 (\<lambda>x y. f x = Inr y) xs ys"
proof (induction xs arbitrary: ys)
  case (Cons x xs)
  then show ?case by (cases ys) (auto simp: bind_result_Inr_iff)
qed auto

lemma all_ok_total: "(\<And>x. x \<in> set xs \<Longrightarrow> is_ok (f x)) \<Longrightarrow> is_ok (all_ok f xs)"
proof (induction xs)
  case (Cons x xs)
  then obtain y ys where "f x = Inr y" "all_ok f xs = Inr ys" by (metis is_ok_iff list.set_intros)
  then show ?case by simp
qed simp

section \<open>Fusion accounts for its scores\<close>

definition signal_order :: "pyfloat \<Rightarrow> (string \<times> pyfloat) list \<Rightarrow> string list" where
  "signal_order weight scores = (if weight \<noteq> 0 \<and> scores \<noteq> [] then signal_ranking scores else [])"

definition merged_chunks :: "fusion_weights \<Rightarrow> graph_candidates option \<Rightarrow> scored_chunk list" where
  "merged_chunks w graph = (case graph of None \<Rightarrow> [] | Some g \<Rightarrow> if graph_is_off w then [] else gc_chunks g)"

definition rankings ::
  "scored_chunk list \<Rightarrow> scored_chunk list \<Rightarrow> signal_table \<Rightarrow> fusion_weights \<Rightarrow> graph_candidates option
   \<Rightarrow> (string list \<times> pyfloat) list" where
  "rankings v kw t w graph =
     [(map chunk_key v, fw_vector w), (map chunk_key kw, fw_keyword w),
      (signal_order (fw_recency w) (st_recency t), fw_recency w),
      (signal_order (fw_importance w) (st_importance t), fw_importance w),
      (map chunk_key (merged_chunks w graph), fw_graph w)]"

lemma rankings_zip:
  "rankings v kw t w graph = zip (map fst (rankings v kw t w graph)) (map snd (rankings v kw t w graph))"
  by (simp add: zip_map_fst_snd)

lemma rank_term_list: "rank_term k x (r, weight) = (case rank_of x r of None \<Rightarrow> 0 | Some i \<Rightarrow> weight / of_int (k + i))"
  by (cases "rank_of x r") (simp_all add: rank_term_def)

definition rank_share :: "int \<Rightarrow> pyfloat \<Rightarrow> int option \<Rightarrow> pyfloat" where
  "rank_share k weight rank = (case rank of None \<Rightarrow> 0 | Some i \<Rightarrow> weight / of_int (k + i))"

definition accounted :: "int \<Rightarrow> fusion_weights \<Rightarrow> score_breakdown \<Rightarrow> pyfloat" where
  "accounted k w b =
     rank_share k (fw_vector w) (sb_vector_rank b) + rank_share k (fw_keyword w) (sb_keyword_rank b) +
     rank_share k (fw_recency w) (sb_recency_rank b) + rank_share k (fw_importance w) (sb_importance_rank b) +
     rank_share k (fw_graph w) (sb_graph_rank b)"

definition by_id_of ::
  "scored_chunk list \<Rightarrow> scored_chunk list \<Rightarrow> scored_chunk list \<Rightarrow> string \<Rightarrow> scored_chunk option" where
  "by_id_of v kw g x = map_of (map (\<lambda>c. (chunk_key c, c)) (v @ kw @ g)) x"

lemma by_id_of_key: "by_id_of v kw g x = Some c \<Longrightarrow> chunk_key c = x \<and> c \<in> set (v @ kw @ g)"
  by (auto simp: by_id_of_def dest!: map_of_SomeD)

lemma by_id_of_None: "by_id_of v kw g x = None \<longleftrightarrow> x \<notin> chunk_key ` set (v @ kw @ g)"
  by (simp add: by_id_of_def map_of_eq_None_iff image_Un image_image)

text \<open>One fused chunk: the row that introduced it, rescored, with the breakdown that produced the score.\<close>

definition fused_from ::
  "scored_chunk list \<Rightarrow> scored_chunk list \<Rightarrow> signal_table \<Rightarrow> fusion_weights \<Rightarrow> graph_candidates option
   \<Rightarrow> string \<times> pyfloat \<Rightarrow> scored_chunk \<Rightarrow> bool" where
  "fused_from v kw t w graph p c \<longleftrightarrow>
     (\<exists>c0 b. by_id_of v kw (merged_chunks w graph) (fst p) = Some c0 \<and>
        c = c0\<lparr> sk_score := snd p, sk_breakdown := Some b \<rparr> \<and> sb_fused b = snd p \<and>
        sb_vector_rank b = rank_of (fst p) (map chunk_key v) \<and>
        sb_keyword_rank b = rank_of (fst p) (map chunk_key kw) \<and>
        sb_recency_rank b = map_of (dict_of (ranked id (signal_order (fw_recency w) (st_recency t)))) (fst p) \<and>
        sb_importance_rank b = map_of (dict_of (ranked id (signal_order (fw_importance w) (st_importance t)))) (fst p) \<and>
        sb_graph_rank b = rank_of (fst p) (map chunk_key (merged_chunks w graph)) \<and>
        sb_rerank_rank b = None)"

lemma fuse_Inr:
  assumes "fuse v kw t w k graph = Inr out"
  obtains pairs where "reciprocal_rank_fusion (map fst (rankings v kw t w graph)) k (Some (map snd (rankings v kw t w graph))) = Inr pairs"
    and "list_all2 (fused_from v kw t w graph) pairs out"
proof -
  let ?exp = "case graph of None \<Rightarrow> None | Some g \<Rightarrow> if graph_is_off w then None else Some g"
  have exp: "(case ?exp of None \<Rightarrow> [] | Some g \<Rightarrow> gc_chunks g) = merged_chunks w graph"
      "(case ?exp of None \<Rightarrow> [] | Some g \<Rightarrow> gc_ranking g) = map chunk_key (merged_chunks w graph)"
    by (simp_all add: merged_chunks_def gc_ranking_def split: option.split)
  have ids: "map_of (set_defaults (set_defaults (set_defaults [] (map (\<lambda>c. (chunk_key c, c)) v))
      (map (\<lambda>c. (chunk_key c, c)) kw)) (map (\<lambda>c. (chunk_key c, c)) g)) x = by_id_of v kw g x" for g x
    by (auto simp: map_of_set_defaults by_id_of_def map_add_def split: option.splits)
  note expand = fuse_def Let_def exp bind_result_Inr_iff all_ok_iff
  from assms obtain pairs where pairs: "reciprocal_rank_fusion (map fst (rankings v kw t w graph)) k
        (Some (map snd (rankings v kw t w graph))) = Inr pairs"
    and all: "list_all2 (\<lambda>p c. (case p of (x, score) \<Rightarrow> case by_id_of v kw (merged_chunks w graph) x of
            None \<Rightarrow> Inl KeyError
          | Some c0 \<Rightarrow> Inr (c0\<lparr> sk_score := score, sk_breakdown := Some
              \<lparr> sb_fused = score,
                sb_vector_rank = map_of (set_defaults [] (ranked chunk_key v)) x,
                sb_keyword_rank = map_of (set_defaults [] (ranked chunk_key kw)) x,
                sb_vector_score = map_of (dict_of (map (\<lambda>c. (chunk_key c, sk_score c)) v)) x,
                sb_keyword_score = map_of (dict_of (map (\<lambda>c. (chunk_key c, sk_score c)) kw)) x,
                sb_recency_rank = map_of (dict_of (ranked id (signal_order (fw_recency w) (st_recency t)))) x,
                sb_importance_rank = map_of (dict_of (ranked id (signal_order (fw_importance w) (st_importance t)))) x,
                sb_recency_score = map_of (st_recency t) x, sb_importance_score = map_of (st_importance t) x,
                sb_rerank_score = None, sb_rerank_rank = None,
                sb_graph_rank = map_of (set_defaults [] (ranked chunk_key (merged_chunks w graph))) x,
                sb_graph_score = map_of (set_defaults [] (map (\<lambda>c. (chunk_key c, sk_score c)) (merged_chunks w graph))) x,
                sb_graph_path = map_of (case ?exp of None \<Rightarrow> [] | Some g \<Rightarrow> gc_routes g) x,
                sb_temporal_intent = None, sb_temporal_filter_applied = False \<rparr> \<rparr>)) = Inr c) pairs out"
    unfolding expand ids signal_order_def [symmetric] by (auto simp: rankings_def)
  have "list_all2 (fused_from v kw t w graph) pairs out"
    using all by (rule list_all2_mono)
      (auto simp: fused_from_def map_of_set_defaults map_of_ranked split: option.splits prod.splits)
  with pairs show thesis by (rule that)
qed

lemma distinct_sort_keys: "distinct (map g (sort_key f xs)) \<longleftrightarrow> distinct (map g xs)"
  by (metis mset_eq_imp_distinct_iff mset_map mset_sort)

lemma distinct_signal_order: "distinct (map fst scores) \<Longrightarrow> distinct (signal_order weight scores)"
  by (simp add: signal_order_def signal_ranking_def distinct_sort_keys)

lemma fused_pairs:
  assumes "list_all2 (fused_from v kw t w graph) pairs out"
  shows "map (\<lambda>c. (chunk_key c, sk_score c)) out = pairs"
  using assms
proof (induction rule: list_all2_induct)
  case (Cons p ps c cs)
  then show ?case by (cases p) (auto simp: fused_from_def chunk_key_def dest!: by_id_of_key)
qed simp

lemma fused_score_accounted:
  assumes "fused_from v kw t w graph p c" and "distinct (map fst (st_recency t))"
    and "distinct (map fst (st_importance t))"
  shows "\<exists>b. sk_breakdown c = Some b \<and> sb_fused b = sk_score c \<and>
           fused_score k (rankings v kw t w graph) (fst p) = accounted k w b"
proof -
  note signals = map_of_ranked_distinct [OF distinct_signal_order [OF assms(2)]]
    map_of_ranked_distinct [OF distinct_signal_order [OF assms(3)]]
  from assms(1) obtain b where "sk_breakdown c = Some b" "sb_fused b = sk_score c"
    and ranks: "sb_vector_rank b = rank_of (fst p) (map chunk_key v)"
      "sb_keyword_rank b = rank_of (fst p) (map chunk_key kw)"
      "sb_recency_rank b = rank_of (fst p) (signal_order (fw_recency w) (st_recency t))"
      "sb_importance_rank b = rank_of (fst p) (signal_order (fw_importance w) (st_importance t))"
      "sb_graph_rank b = rank_of (fst p) (map chunk_key (merged_chunks w graph))"
    unfolding fused_from_def signals by auto
  moreover have "fused_score k (rankings v kw t w graph) (fst p) = accounted k w b"
    by (simp add: fused_score_def rankings_def accounted_def ranks rank_share_def rank_term_list)
  ultimately show ?thesis by blast
qed

lemma fused_accounted:
  assumes rrf: "reciprocal_rank_fusion (map fst (rankings v kw t w graph)) k
        (Some (map snd (rankings v kw t w graph))) = Inr pairs"
    and all: "list_all2 (fused_from v kw t w graph) pairs out" and "c \<in> set out"
    and "distinct (map fst (st_recency t))" and "distinct (map fst (st_importance t))"
  shows "\<exists>b. sk_breakdown c = Some b \<and> sb_fused b = sk_score c \<and> sk_score c = accounted k w b"
proof -
  obtain p where p: "fused_from v kw t w graph p c" "p \<in> set pairs"
    using all assms(3) by (metis in_set_conv_nth list_all2_conv_all_nth)
  from p(2) fusion_implements_rrf [OF rrf, folded rankings_zip]
  have "snd p = fused_score k (rankings v kw t w graph) (fst p)" by auto
  moreover have "snd p = sk_score c" using p(1) by (auto simp: fused_from_def)
  ultimately show ?thesis using fused_score_accounted [OF p(1) assms(4,5), of k] by metis
qed


text \<open>With the signals and the graph off, fusion is the fusion of the two retrievers and nothing else, whatever
  the signal table and the expansion hold.\<close>

theorem signals_off_is_two_way_fusion:
  assumes "signals_are_off w" and "fuse v kw t w k graph = Inr out"
  shows "reciprocal_rank_fusion [map chunk_key v, map chunk_key kw] k (Some [fw_vector w, fw_keyword w]) =
         Inr (map (\<lambda>c. (chunk_key c, sk_score c)) out)"
proof -
  obtain pairs where rrf: "reciprocal_rank_fusion (map fst (rankings v kw t w graph)) k
        (Some (map snd (rankings v kw t w graph))) = Inr pairs"
    and all: "list_all2 (fused_from v kw t w graph) pairs out"
    using assms(2) by (rule fuse_Inr)
  have off: "fw_recency w = 0" "fw_importance w = 0" "fw_graph w = 0" "graph_is_off w"
    using assms(1) by (simp_all add: signals_are_off_def graph_is_off_def)
  then have r: "rankings v kw t w graph =
      [(map chunk_key v, fw_vector w), (map chunk_key kw, fw_keyword w), ([], 0), ([], 0), ([], 0)]"
    by (simp add: rankings_def signal_order_def merged_chunks_def split: option.split)
  have "reciprocal_rank_fusion [map chunk_key v, map chunk_key kw] k (Some [fw_vector w, fw_keyword w]) = Inr pairs"
    using rrf unfolding r by (auto simp: reciprocal_rank_fusion_def Let_def split: if_splits)
  then show ?thesis by (simp add: fused_pairs [OF all])
qed

section \<open>No step invents or alters a chunk\<close>

definition bare_chunk :: "scored_chunk \<Rightarrow> scored_chunk" where
  "bare_chunk c = c\<lparr> sk_score := 0, sk_breakdown := None \<rparr>"

lemma bare_chunk_simps [simp]:
  "bare_chunk (c\<lparr> sk_score := s \<rparr>) = bare_chunk c"
  "bare_chunk (c\<lparr> sk_breakdown := b \<rparr>) = bare_chunk c"
  "bare_chunk (chunk_with_score s p) = chunk_with_score 0 p"
  by (simp_all add: bare_chunk_def chunk_with_score_def)

lemma bare_chunk_fields:
  assumes "bare_chunk c = bare_chunk d"
  shows "sk_chunk_id c = sk_chunk_id d" and "sk_memory_id c = sk_memory_id d" and "sk_ordinal c = sk_ordinal d"
    and "sk_text c = sk_text d" and "chunk_key c = chunk_key d"
  using arg_cong [OF assms, of sk_chunk_id] arg_cong [OF assms, of sk_memory_id]
    arg_cong [OF assms, of sk_ordinal] arg_cong [OF assms, of sk_text]
  by (simp_all add: bare_chunk_def chunk_key_def)

lemma attribute_single_bare: "map bare_chunk (attribute_single chunks mode) = map bare_chunk chunks"
proof -
  have "map bare_chunk (map (\<lambda>(rank, c). c\<lparr> sk_breakdown := g rank c \<rparr>) (enumerate n chunks)) = map bare_chunk chunks"
    for n g by (induction chunks arbitrary: n) simp_all
  then show ?thesis by (simp add: attribute_single_def)
qed

lemma stamp_intent_bare: "map bare_chunk (stamp_intent chunks i applied) = map bare_chunk chunks"
  by (simp add: stamp_intent_def)

lemma fuse_bare:
  assumes "fuse v kw t w k graph = Inr out" and "c \<in> set out"
  shows "\<exists>c0 \<in> set v \<union> set kw \<union> set (merged_chunks w graph). bare_chunk c = bare_chunk c0"
proof -
  obtain pairs where "list_all2 (fused_from v kw t w graph) pairs out"
    using assms(1) by (rule fuse_Inr)
  with assms(2) obtain p where "fused_from v kw t w graph p c"
    by (metis in_set_conv_nth list_all2_conv_all_nth)
  then obtain c0 where "by_id_of v kw (merged_chunks w graph) (fst p) = Some c0" "bare_chunk c = bare_chunk c0"
    by (auto simp: fused_from_def)
  then show ?thesis using by_id_of_key by fastforce
qed

lemma rrf_keys:
  assumes "reciprocal_rank_fusion rs k (Some ws) = Inr out"
  shows "fst ` set out = \<Union> (set ` set rs)"
proof -
  have "set out = {(x, fused_score k (zip rs ws) x) | x. x \<in> \<Union> (set ` set rs)}"
    using fusion_implements_rrf [OF assms] by blast
  then have "fst ` set out = fst ` {(x, fused_score k (zip rs ws) x) | x. x \<in> \<Union> (set ` set rs)}"
    by (rule arg_cong)
  also have "\<dots> = \<Union> (set ` set rs)" by force
  finally show ?thesis .
qed

text \<open>Every graph candidate enters the fused list, under whatever filters the stores were asked.\<close>

lemma fuse_keys:
  assumes "fuse v kw t w k graph = Inr out"
  shows "chunk_key ` (set v \<union> set kw \<union> set (merged_chunks w graph)) \<subseteq> chunk_key ` set out"
proof -
  obtain pairs where rrf: "reciprocal_rank_fusion (map fst (rankings v kw t w graph)) k
        (Some (map snd (rankings v kw t w graph))) = Inr pairs"
    and all: "list_all2 (fused_from v kw t w graph) pairs out"
    using assms(1) by (rule fuse_Inr)
  have "chunk_key ` set out = fst ` set pairs"
    by (simp flip: fused_pairs [OF all] add: image_image)
  also have "fst ` set pairs = \<Union> (set ` set (map fst (rankings v kw t w graph)))"
    by (rule rrf_keys [OF rrf])
  finally show ?thesis by (auto simp: rankings_def)
qed

lemma fuse_total:
  assumes "0 \<le> k"
    and "fst ` set (st_recency t) \<union> fst ` set (st_importance t) \<subseteq> chunk_key ` (set v \<union> set kw)"
  shows "is_ok (fuse v kw t w k graph)"
proof -
  let ?r = "rankings v kw t w graph" and ?g = "merged_chunks w graph"
  have signal: "set (signal_order weight scores) \<subseteq> fst ` set scores" for weight scores
    by (auto simp: signal_order_def signal_ranking_def)
  have "set (signal_order (fw_recency w) (st_recency t)) \<subseteq> chunk_key ` (set v \<union> set kw)"
      "set (signal_order (fw_importance w) (st_importance t)) \<subseteq> chunk_key ` (set v \<union> set kw)"
    by (rule subset_trans [OF signal]; use assms(2) in simp)+
  then have keys: "\<Union> (set ` set (map fst ?r)) \<subseteq> chunk_key ` set (v @ kw @ ?g)"
    unfolding rankings_def by (simp add: image_Un) blast
  let ?pairs = "sort_key fused_key (fuse_all k (zip (map fst ?r) (map snd ?r)) [])"
  have rrf: "reciprocal_rank_fusion (map fst ?r) k (Some (map snd ?r)) = Inr ?pairs"
    using assms(1) by (rule fusion_runs) simp
  have "fst ` set ?pairs \<subseteq> chunk_key ` set (v @ kw @ ?g)"
    using keys rrf_keys [OF rrf] by simp
  then have found: "by_id_of v kw ?g (fst p) \<noteq> None" if "p \<in> set ?pairs" for p
    using that by (auto simp: by_id_of_None)
  have exp: "(case (case graph of None \<Rightarrow> None | Some g \<Rightarrow> if graph_is_off w then None else Some g) of
                None \<Rightarrow> [] | Some g \<Rightarrow> gc_chunks g) = ?g"
      "(case (case graph of None \<Rightarrow> None | Some g \<Rightarrow> if graph_is_off w then None else Some g) of
                None \<Rightarrow> [] | Some g \<Rightarrow> gc_ranking g) = map chunk_key ?g"
    by (simp_all add: merged_chunks_def gc_ranking_def split: option.split)
  have ids: "map_of (set_defaults (set_defaults (set_defaults [] (map (\<lambda>c. (chunk_key c, c)) v))
      (map (\<lambda>c. (chunk_key c, c)) kw)) (map (\<lambda>c. (chunk_key c, c)) ?g)) x = by_id_of v kw ?g x" for x
    by (auto simp: map_of_set_defaults by_id_of_def map_add_def split: option.splits)
  have rrf': "reciprocal_rank_fusion [map chunk_key v, map chunk_key kw, signal_order (fw_recency w) (st_recency t),
       signal_order (fw_importance w) (st_importance t), map chunk_key ?g] k
       (Some [fw_vector w, fw_keyword w, fw_recency w, fw_importance w, fw_graph w]) = Inr ?pairs"
    using rrf by (simp add: rankings_def)
  show ?thesis
    unfolding fuse_def Let_def exp ids signal_order_def [symmetric] rrf' bind_result_simps
  proof (rule all_ok_total)
    fix p assume "p \<in> set ?pairs"
    with found obtain c where "by_id_of v kw ?g (fst p) = Some c" by blast
    then show "is_ok (case p of (x, score) \<Rightarrow> (case by_id_of v kw ?g x of None \<Rightarrow> Inl KeyError
        | Some c \<Rightarrow> Inr (c\<lparr> sk_score := score, sk_breakdown := Some (h x score) \<rparr>)))" for h
      by (cases p) simp
  qed
qed

section \<open>Reranking keeps recall\<close>

lemma rerank_chunks_Inr:
  assumes "rerank_chunks model n query chunks = Inr out"
  obtains scores scored where "scores = model query (map sk_text (take n chunks))"
    and "length scores = length (take n chunks)"
    and "scored = sort_key (\<lambda>(c, score). (- score, chunk_key c)) (zip (take n chunks) scores)"
    and "length scored = length (take n chunks)"
    and "map bare_chunk out = map (bare_chunk \<circ> fst) scored @ map bare_chunk (drop n chunks)"
    and "map sk_score out = map snd scored @
           map (\<lambda>i. min_score scores - 1 / 1000000 * of_nat (i + 1)) [0 ..< length (drop n chunks)]"
proof -
  let ?scores = "model query (map sk_text (take n chunks))"
  let ?scored = "sort_key (\<lambda>(c, score). (- score, chunk_key c)) (zip (take n chunks) ?scores)"
  have len: "length ?scores = length (take n chunks)"
    using assms by (auto simp: rerank_chunks_def Let_def split: if_splits)
  then have len': "length ?scored = length (take n chunks)" by simp
  have re: "map bare_chunk (map (\<lambda>(rank, c, score). c\<lparr> sk_score := score, sk_breakdown := g rank c score \<rparr>) (enumerate m xs)) =
        map (bare_chunk \<circ> fst) xs"
      "map sk_score (map (\<lambda>(rank, c, score). c\<lparr> sk_score := score, sk_breakdown := g rank c score \<rparr>) (enumerate m xs)) =
        map snd xs" for g m xs
    by (induction xs arbitrary: m) auto
  have de: "map bare_chunk (map (\<lambda>(offset, c). c\<lparr> sk_score := h offset \<rparr>) (enumerate m ys)) = map bare_chunk ys"
    for h and m and ys :: "scored_chunk list"
    by (induction ys arbitrary: m) auto
  have ds: "map sk_score (map (\<lambda>(offset, c). c\<lparr> sk_score := h offset \<rparr>) (enumerate m ys)) = map h [m ..< m + length ys]"
    for h and m and ys :: "scored_chunk list"
    by (simp add: enumerate_eq_zip) (rule nth_equalityI; simp)
  have "out = map (\<lambda>(rank, c, score). c\<lparr> sk_score := score, sk_breakdown := Some ((breakdown_of c)
               \<lparr> sb_rerank_score := Some score, sb_rerank_rank := Some (int rank) \<rparr>) \<rparr>) (enumerate 1 ?scored) @
             map (\<lambda>(offset, c). c\<lparr> sk_score := min_score ?scores - 1 / 1000000 * of_nat (offset + 1) \<rparr>)
               (enumerate 0 (drop n chunks))"
    using assms len by (simp add: rerank_chunks_def Let_def)
  then have "map bare_chunk out = map (bare_chunk \<circ> fst) ?scored @ map bare_chunk (drop n chunks)"
    and "map sk_score out = map snd ?scored @
           map (\<lambda>i. min_score ?scores - 1 / 1000000 * of_nat (i + 1)) [0 ..< length (drop n chunks)]"
    by (simp_all only: map_append re de ds) simp_all
  with len len' show thesis by (intro that [of ?scores ?scored]) simp_all
qed

lemma min_score_le: "x \<in> set scores \<Longrightarrow> min_score scores \<le> x"
  by (auto simp: min_score_def)

lemma rerank_perm:
  assumes "scored = sort_key f (zip xs scores)" and "length scores = length xs"
  shows "mset (map (bare_chunk \<circ> fst) scored) = mset (map bare_chunk xs)"
proof -
  have "mset scored = mset (zip xs scores)" by (simp add: assms(1))
  then have "mset (map (bare_chunk \<circ> fst) scored) = image_mset (bare_chunk \<circ> fst) (mset (zip xs scores))"
    by (simp only: mset_map)
  also have "\<dots> = mset (map bare_chunk (map fst (zip xs scores)))"
    by (simp only: mset_map [symmetric] list.map_comp)
  finally show ?thesis using assms(2) by (simp only: map_fst_zip)
qed

lemma rerank_mset:
  assumes "rerank_chunks model n query chunks = Inr out"
  shows "mset (map bare_chunk out) = mset (map bare_chunk chunks)"
proof -
  obtain scores :: "pyfloat list" and scored where "length scores = length (take n chunks)"
    and scored: "scored = sort_key (\<lambda>(c, score). (- score, chunk_key c)) (zip (take n chunks) scores)"
    and bare: "map bare_chunk out = map (bare_chunk \<circ> fst) scored @ map bare_chunk (drop n chunks)"
    using assms by (rule rerank_chunks_Inr)
  then have "mset (map bare_chunk out) = mset (map bare_chunk (take n chunks)) + mset (map bare_chunk (drop n chunks))"
    unfolding bare mset_append by (simp only: rerank_perm)
  also have "\<dots> = mset (map bare_chunk chunks)"
    by (simp only: mset_append [symmetric] map_append [symmetric] append_take_drop_id)
  finally show ?thesis .
qed

lemma sorted_first_component:
  fixes f :: "'a \<Rightarrow> 'b::linorder" and g :: "'a \<Rightarrow> 'c::linorder"
  shows "sorted (map (\<lambda>x. (f x, g x)) xs) \<Longrightarrow> sorted (map f xs)"
  unfolding sorted_map by (erule sorted_wrt_mono_rel [rotated]) (auto simp: less_eq_prod_def)

text \<open>C16 Reranking reorders and nothing more: it answers when the model scores every text of the shortlist, the
  chunks it returns are those it was given, what follows the shortlist keeps its order, and the scores
  descend strictly past the shortlist.\<close>

theorem reranking_keeps_recall:
  assumes "length (model query (map sk_text (take n chunks))) = length (take n chunks)"
  shows "\<exists>out. rerank_chunks model n query chunks = Inr out \<and>
           mset (map bare_chunk out) = mset (map bare_chunk chunks) \<and>
           mset (map bare_chunk (take n out)) = mset (map bare_chunk (take n chunks)) \<and>
           map bare_chunk (drop n out) = map bare_chunk (drop n chunks) \<and>
           sorted (map (\<lambda>c. - sk_score c) out) \<and>
           list_all (\<lambda>c. list_all (\<lambda>d. sk_score d < sk_score c) (drop n out)) (take n out)"
proof -
  obtain out where out: "rerank_chunks model n query chunks = Inr out"
    using assms by (simp add: rerank_chunks_def Let_def)
  then obtain scores scored where scores: "scores = model query (map sk_text (take n chunks))"
    and len: "length scores = length (take n chunks)"
    and scored: "scored = sort_key (\<lambda>(c, score). (- score, chunk_key c)) (zip (take n chunks) scores)"
    and slen: "length scored = length (take n chunks)"
    and bare: "map bare_chunk out = map (bare_chunk \<circ> fst) scored @ map bare_chunk (drop n chunks)"
    and sc: "map sk_score out = map snd scored @
           map (\<lambda>i. min_score scores - 1 / 1000000 * of_nat (i + 1)) [0 ..< length (drop n chunks)]"
    by (rule rerank_chunks_Inr)
  let ?low = "map (\<lambda>i. min_score scores - 1 / 1000000 * of_nat (i + 1)) [0 ..< length (drop n chunks)]"
  have split: "map f (take n out) = xs \<and> map f (drop n out) = ys"
    if "map f out = xs @ ys" "length xs = length (take n chunks)" "length ys = length (drop n chunks)"
    for f :: "scored_chunk \<Rightarrow> 'a" and xs ys
  proof (cases "n \<le> length chunks")
    case True
    then show ?thesis using that by (simp flip: take_map drop_map)
  next
    case False
    then have "length out \<le> n" "ys = []" using that arg_cong [OF that(1), of length] by auto
    then show ?thesis using that(1) by simp
  qed
  have b: "map bare_chunk (take n out) = map (bare_chunk \<circ> fst) scored \<and> map bare_chunk (drop n out) = map bare_chunk (drop n chunks)"
    by (rule split [OF bare]) (use slen in simp_all)
  have s: "map sk_score (take n out) = map snd scored \<and> map sk_score (drop n out) = ?low"
    by (rule split [OF sc]) (use slen in simp_all)
  have ms: "mset scored = mset (zip (take n chunks) scores)" by (simp add: scored)
  have perm: "mset (map (bare_chunk \<circ> fst) scored) = mset (map bare_chunk (take n chunks))"
    by (rule rerank_perm [OF scored len])
  have snds: "set (map snd scored) = set scores"
    using len by (metis map_snd_zip ms mset_map set_mset_mset)
  have "sorted (map (\<lambda>p. (- snd p, chunk_key (fst p))) scored)"
    using sorted_sort_key [of "\<lambda>(c, score). (- score, chunk_key c)" "zip (take n chunks) scores"]
    by (simp add: scored case_prod_unfold)
  then have desc: "sorted (map uminus (map snd scored))" by (simp add: sorted_first_component comp_def)
  have low: "y < x" if "x \<in> set (map snd scored)" "y \<in> set ?low" for x y
  proof -
    from that(2) obtain i where "y = min_score scores - 1 / 1000000 * of_nat (i + 1)" by auto
    moreover have "0 < (1 / 1000000 * of_nat (i + 1) :: real)" by simp
    ultimately have "y < min_score scores" by linarith
    also have "\<dots> \<le> x" using that(1) unfolding snds by (rule min_score_le)
    finally show ?thesis .
  qed
  have "sorted (map uminus ?low)"
    unfolding sorted_iff_nth_mono by (auto intro!: mult_left_mono)
  then have "sorted (map uminus (map sk_score out))"
    unfolding sc map_append sorted_append using desc low by fastforce
  then have sorted: "sorted (map (\<lambda>c. - sk_score c) out)" by (simp add: comp_def)
  have apart: "list_all (\<lambda>c. list_all (\<lambda>d. sk_score d < sk_score c) (drop n out)) (take n out)"
    unfolding list_all_iff
  proof (intro ballI)
    fix c d assume "c \<in> set (take n out)" "d \<in> set (drop n out)"
    then have "sk_score c \<in> set (map sk_score (take n out))" "sk_score d \<in> set (map sk_score (drop n out))"
      by auto
    then show "sk_score d < sk_score c" using s low by metis
  qed
  have total: "mset (map bare_chunk out) = mset (map bare_chunk chunks)" by (rule rerank_mset [OF out])
  show ?thesis
    by (intro exI [where x = out] conjI out total sorted apart) (use b perm in \<open>simp_all only:\<close>)
qed

section \<open>The page is the best memories\<close>

lemma found_hits_eq:
  "found_hits md gs = map (\<lambda>(i, matched). hit_of i (the (md i)) matched) (filter (\<lambda>(i, _). md i \<noteq> None) gs)"
  by (induction gs) (auto split: option.splits)

lemma in_found_hits:
  "h \<in> set (found_hits md (grouped chunks)) \<longleftrightarrow>
     (\<exists>i d. i \<in> sk_memory_id ` set chunks \<and> md i = Some d \<and> h = hit_of i d (filter (\<lambda>c. sk_memory_id c = i) chunks))"
  by (force simp: found_hits_eq grouped_def)

lemma found_hits_memories:
  "map mh_memory_id (found_hits md (grouped chunks)) =
     filter (\<lambda>i. md i \<noteq> None) (keep_first (map sk_memory_id chunks))"
proof -
  have "map mh_memory_id (found_hits md (map (\<lambda>i. (i, f i)) is')) = filter (\<lambda>i. md i \<noteq> None) is'" for f is'
    by (induction is') (auto simp: hit_of_def split: option.splits)
  then show ?thesis by (simp add: grouped_def)
qed

text \<open>C14 The page holds at most k results and no memory twice; each stands for all the chunks found of its
  memory and scores as the best of them; no result left out outranks one on the page.\<close>

theorem the_page_is_the_best_memories:
  "length (to_hits l chunks k) \<le> k \<and> distinct (map mh_memory_id (to_hits l chunks k)) \<and>
   sorted (map hit_rank (to_hits l chunks k)) \<and>
   list_all (\<lambda>h. mset (mh_matched_chunks h) = mset (filter (\<lambda>c. sk_memory_id c = mh_memory_id h) chunks) \<and>
                 mh_score h \<in> set (map sk_score (mh_matched_chunks h)) \<and>
                 list_all (\<lambda>c. sk_score c \<le> mh_score h) (mh_matched_chunks h)) (to_hits l chunks k) \<and>
   list_all (\<lambda>h. list_all (\<lambda>g. hit_rank g \<le> hit_rank h) (to_hits l chunks k) \<or> h \<in> set (to_hits l chunks k))
     (to_hits l chunks (length chunks))"
proof -
  define hits where "hits = sort_key hit_rank (found_hits (metadata_of l) (grouped chunks))"
  have page: "to_hits l chunks n = take n hits" for n by (simp add: to_hits_def hits_def)
  have "distinct (map mh_memory_id hits)"
    by (simp add: hits_def distinct_sort_keys found_hits_memories)
  then have dist: "distinct (map mh_memory_id (take k hits))" by (metis distinct_take take_map)
  have "sorted (map hit_rank hits)" by (simp add: hits_def)
  then have sorted: "sorted (map hit_rank (take k hits))" by (metis sorted_wrt_take take_map)
  have hit: "mset (mh_matched_chunks h) = mset (filter (\<lambda>c. sk_memory_id c = mh_memory_id h) chunks) \<and>
      mh_score h \<in> set (map sk_score (mh_matched_chunks h)) \<and>
      list_all (\<lambda>c. sk_score c \<le> mh_score h) (mh_matched_chunks h)" if "h \<in> set hits" for h
  proof -
    from that obtain i d where i: "i \<in> sk_memory_id ` set chunks"
      and h: "h = hit_of i d (filter (\<lambda>c. sk_memory_id c = i) chunks)"
      by (auto simp: hits_def in_found_hits)
    let ?s = "set (map sk_score (filter (\<lambda>c. sk_memory_id c = i) chunks))"
    have "?s \<noteq> {}" using i by auto
    then have "Max ?s \<in> ?s" "\<forall>x \<in> ?s. x \<le> Max ?s" by (simp_all del: set_map set_filter)
    then show ?thesis by (auto simp: h hit_of_def list_all_iff simp del: Max_in Max_ge)
  qed
  have rest: "hit_rank g \<le> hit_rank h" if "h \<in> set (drop k hits)" "g \<in> set (take k hits)" for g h
  proof -
    have "sorted (map hit_rank (take k hits) @ map hit_rank (drop k hits))"
      using \<open>sorted (map hit_rank hits)\<close> by (simp flip: map_append)
    then show ?thesis using that by (auto simp: sorted_append)
  qed
  have every: "h \<in> set (take k hits) \<or> h \<in> set (drop k hits)" if "h \<in> set hits" for h
    using that by (metis Un_iff append_take_drop_id set_append)
  have omitted: "list_all (\<lambda>h. list_all (\<lambda>g. hit_rank g \<le> hit_rank h) (take k hits) \<or> h \<in> set (take k hits))
      (take (length chunks) hits)"
    unfolding list_all_iff using rest every by (meson in_set_takeD)
  have "list_all (\<lambda>h. mset (mh_matched_chunks h) = mset (filter (\<lambda>c. sk_memory_id c = mh_memory_id h) chunks) \<and>
                 mh_score h \<in> set (map sk_score (mh_matched_chunks h)) \<and>
                 list_all (\<lambda>c. sk_score c \<le> mh_score h) (mh_matched_chunks h)) (take k hits)"
    using hit by (simp only: list_all_iff [of _ "take k hits"]) (blast dest: in_set_takeD)
  with dist sorted omitted show ?thesis unfolding page by simp
qed

section \<open>Time in the query\<close>

definition in_window :: "temporal_intent \<Rightarrow> memory \<Rightarrow> bool" where
  "in_window i m \<longleftrightarrow>
     (case ti_start i of None \<Rightarrow> True
      | Some s \<Rightarrow> (case m_occurred_at m of None \<Rightarrow> False | Some t \<Rightarrow> s \<le> t)) \<and>
     (case ti_end i of None \<Rightarrow> True
      | Some e \<Rightarrow> (case m_occurred_at m of None \<Rightarrow> False | Some t \<Rightarrow> t \<le> e))"

text \<open>A parsed window intersects what the caller asked for, and the flag says whether it changed anything.\<close>

theorem a_window_only_narrows:
  "(memory_predicates l tags (fst (narrow f i)) m \<longleftrightarrow> memory_predicates l tags f m \<and> in_window i m) \<and>
   (snd (narrow f i) \<longleftrightarrow> fst (narrow f i) \<noteq> f)"
proof -
  have "memory_predicates l tags (f\<lparr> sf_occurred_after := tighter max (sf_occurred_after f) (ti_start i),
          sf_occurred_before := tighter min (sf_occurred_before f) (ti_end i) \<rparr>) m \<longleftrightarrow>
        memory_predicates l tags f m \<and> in_window i m"
    by (auto simp: memory_predicates_def in_window_def tighter_def split: option.splits)
  moreover have "f\<lparr> sf_occurred_after := sf_occurred_after f, sf_occurred_before := sf_occurred_before f \<rparr> = f" by simp
  moreover have "f\<lparr> sf_occurred_after := a, sf_occurred_before := b \<rparr> = f \<longleftrightarrow>
      a = sf_occurred_after f \<and> b = sf_occurred_before f" for a b
    by (cases f) auto
  ultimately show ?thesis by (auto simp: narrow_def Let_def)
qed

text \<open>A request for the first or the latest reorders the page it is given: dated results by date, in
  relevance order within a date, then the undated ones in relevance order.\<close>

lemma map_snd_enumerate [simp]: "map snd (enumerate n xs) = xs"
  by (induction xs arbitrary: n) simp_all

theorem ordering_reorders_the_page:
  "mset (reorder hits ord) = mset hits \<and> sorted (map (reorder_key ord) (reorder hits ord)) \<and>
   filter (\<lambda>h. reorder_key ord h = key) (reorder hits ord) = filter (\<lambda>h. reorder_key ord h = key) hits"
proof -
  define pairs where "pairs = enumerate 0 hits"
  define out where "out = sort_key (\<lambda>p. (reorder_key ord (snd p), fst p)) pairs"
  have r: "reorder hits ord = map snd out"
    by (simp add: reorder_def out_def pairs_def case_prod_unfold)
  have ms: "mset out = mset pairs" by (simp add: out_def)
  have key: "sorted (map (\<lambda>p. (reorder_key ord (snd p), fst p)) out)" by (simp add: out_def)
  let ?same = "filter (\<lambda>p. reorder_key ord (snd p) = key)"
  have "?same out = ?same pairs"
  proof (rule sorted_key_unique [where f = fst])
    have "sorted (map (\<lambda>p. (reorder_key ord (snd p), fst p)) (?same out))"
      using key by (rule sorted_filter)
    moreover have "map (\<lambda>p. (reorder_key ord (snd p), fst p)) (?same out) = map (\<lambda>p. (key, fst p)) (?same out)"
      by (rule map_cong) auto
    ultimately have "sorted (map (\<lambda>p. (key, fst p)) (?same out))" by (simp only:)
    then show "sorted (map fst (?same out))" unfolding sorted_map by simp
    show "sorted (map fst (?same pairs))" by (intro sorted_filter) (simp add: pairs_def)
    show "distinct (?same pairs)" by (simp add: pairs_def)
    then show "distinct (?same out)" using ms by (metis mset_eq_imp_distinct_iff mset_filter)
    show "set (?same out) = set (?same pairs)" using mset_eq_setD [OF ms] by simp
    show "inj_on fst (set (?same out))"
      using mset_eq_setD [OF ms] by (auto simp: pairs_def inj_on_def in_set_enumerate_eq prod_eq_iff)
  qed
  then have "filter (\<lambda>h. reorder_key ord h = key) (reorder hits ord) = map snd (?same pairs)"
    by (simp add: r filter_map comp_def)
  also have "\<dots> = filter (\<lambda>h. reorder_key ord h = key) (map snd pairs)" by (simp add: filter_map comp_def)
  finally have stable: "filter (\<lambda>h. reorder_key ord h = key) (reorder hits ord) = filter (\<lambda>h. reorder_key ord h = key) hits"
    by (simp add: pairs_def)
  have "mset (reorder hits ord) = mset hits" unfolding r mset_map ms by (simp flip: mset_map add: pairs_def)
  moreover have "sorted (map (reorder_key ord) (reorder hits ord))"
    using sorted_first_component [OF key] by (simp add: r comp_def)
  ultimately show ?thesis using stable by blast
qed

section \<open>The whole search\<close>

definition table_ok :: "string set \<Rightarrow> signal_table \<Rightarrow> bool" where
  "table_ok K t \<longleftrightarrow>
     fst ` set (st_recency t) \<subseteq> K \<and> distinct (map fst (st_recency t)) \<and>
     fst ` set (st_importance t) \<subseteq> K \<and> distinct (map fst (st_importance t))"

lemma signal_scores_ok:
  "fst ` set cs \<subseteq> K \<Longrightarrow> table_ok K t \<Longrightarrow> \<exists>t'. signal_scores l now cs t = Inr t' \<and> table_ok K t'"
proof (induction cs arbitrary: t)
  case (Cons c cs)
  obtain chunk_id memory_id where c: "c = (chunk_id, memory_id)" by (rule prod.exhaust)
  have K: "chunk_id \<in> K" "fst ` set cs \<subseteq> K" using Cons.prems(1) by (simp_all add: c)
  show ?case
  proof (cases "memory_get memory_id l")
    case None
    then show ?thesis using Cons.IH [OF K(2) Cons.prems(2)] by (simp add: c)
  next
    case (Some m)
    obtain r where r: "recency_score (m_occurred_at m) now DEFAULT_HALF_LIFE_DAYS = Inr r"
      by (cases "m_occurred_at m") (simp_all add: recency_score_def DEFAULT_HALF_LIFE_DAYS_def)
    let ?t = "\<lparr> st_recency = AList.update chunk_id r (st_recency t),
                st_importance = (case m_importance m of None \<Rightarrow> st_importance t
                                 | Some weight \<Rightarrow> AList.update chunk_id weight (st_importance t)) \<rparr>"
    have "table_ok K ?t"
      using Cons.prems(2) K(1) by (auto simp: table_ok_def distinct_update simp del: map_map split: option.split)
    from Cons.IH [OF K(2) this] show ?thesis by (simp add: c Some r)
  qed
qed simp

lemma keys_dict_of: "fst ` set (dict_of kvs) = fst ` set kvs"
proof -
  have "dom (map_of (dict_of kvs)) = dom (map_of (rev kvs))" by (simp add: map_of_dict_of)
  then show ?thesis by (simp add: dom_map_of_conv_image_fst)
qed

lemma signals_for_ok:
  "\<exists>t. signals_for l now [v, kw] = Inr t \<and> table_ok (chunk_key ` (set v \<union> set kw)) t"
  unfolding signals_for_def
  by (rule signal_scores_ok) (simp_all add: keys_dict_of image_Un image_image table_ok_def no_signals_def)

definition wanted :: "nat \<Rightarrow> nat" where
  "wanted k = max (k * FUSION_FANOUT) (max (k * CHUNK_FANOUT) k)"

lemma hybrid_Inr:
  assumes "hybrid s sx now query k f ef rrf_k w = Inr out"
  obtains vec v kw t where "v = vector_chunks s sx vec (wanted k) f ef False"
    and "kw = keyword_candidates s sx query (wanted k) f"
    and "fuse v kw t w rrf_k (expand s sx [v, kw]) = Inr out" and "table_ok (chunk_key ` (set v \<union> set kw)) t"
proof -
  from assms obtain vec t where t: "signals_for (sx_library sx) now [vector_chunks s sx vec (wanted k) f ef False,
        keyword_candidates s sx query (wanted k) f] = Inr t"
    and out: "fuse (vector_chunks s sx vec (wanted k) f ef False) (keyword_candidates s sx query (wanted k) f) t w rrf_k
       (expand s sx [vector_chunks s sx vec (wanted k) f ef False, keyword_candidates s sx query (wanted k) f]) = Inr out"
    unfolding wanted_def by (auto simp: hybrid_def Let_def bind_result_Inr_iff)
  from t signals_for_ok [of "sx_library sx" now] have
    "table_ok (chunk_key ` (set (vector_chunks s sx vec (wanted k) f ef False) \<union>
       set (keyword_candidates s sx query (wanted k) f))) t"
    by (metis sum.inject(2))
  with out show thesis by (intro that [OF refl refl])
qed

lemma hybrid_total:
  assumes "length (se_embed s [query]) = 1" and "0 \<le> rrf_k"
  shows "is_ok (hybrid s sx now query k f ef rrf_k w)"
proof -
  obtain vec where vec: "se_embed s [query] = [vec]" using assms(1) by (auto simp: length_Suc_conv)
  let ?v = "vector_chunks s sx vec (wanted k) f ef False" and ?kw = "keyword_candidates s sx query (wanted k) f"
  obtain t where t: "signals_for (sx_library sx) now [?v, ?kw] = Inr t" "table_ok (chunk_key ` (set ?v \<union> set ?kw)) t"
    using signals_for_ok by blast
  have "is_ok (fuse ?v ?kw t w rrf_k (expand s sx [?v, ?kw]))"
    using t(2) by (intro fuse_total assms(2)) (simp add: table_ok_def)
  then show ?thesis
    using t(1) unfolding wanted_def by (simp add: hybrid_def Let_def embed_query_def vec)
qed

lemma retrieve_total:
  assumes "length (se_embed s [query]) = 1" and "0 \<le> rrf_k"
  shows "is_ok (retrieve s sx now query k f ef exact mode rrf_k w)"
proof -
  obtain vec where vec: "se_embed s [query] = [vec]" using assms(1) by (auto simp: length_Suc_conv)
  then show ?thesis using hybrid_total [OF assms] by (cases mode) (simp_all add: retrieve_def embed_query_def)
qed

lemma maybe_rerank_bare:
  assumes "maybe_rerank s rerank query chunks = Inr out"
  shows "mset (map bare_chunk out) = mset (map bare_chunk chunks)"
proof (cases "se_rerank s")
  case None
  then show ?thesis using assms by (simp add: maybe_rerank_def)
next
  case (Some model)
  show ?thesis
  proof (cases "rerank \<and> chunks \<noteq> []")
    case True
    with Some assms have r: "rerank_chunks model (se_rerank_candidates s) query chunks = Inr out"
      by (simp add: maybe_rerank_def)
    then show ?thesis using rerank_mset by blast
  next
    case False
    with Some assms show ?thesis by (auto simp: maybe_rerank_def)
  qed
qed

lemma reorder_set: "set (reorder hits ord) = set hits"
proof -
  have "set (reorder hits ord) = snd ` set (enumerate 0 hits)" by (simp add: reorder_def)
  then show ?thesis by (metis map_snd_enumerate set_map)
qed

lemma to_hits_chunks:
  assumes "h \<in> set (to_hits l chunks k)" and "c \<in> set (mh_matched_chunks h)"
  shows "c \<in> set chunks \<and> sk_memory_id c = mh_memory_id h"
proof -
  from assms(1) have "h \<in> set (found_hits (metadata_of l) (grouped chunks))"
    by (auto simp: to_hits_def dest: in_set_takeD)
  then show ?thesis using assms(2) by (auto simp: in_found_hits hit_of_def)
qed

text \<open>The chunk carries the row of a passage that the filters let through.\<close>

definition shown_from :: "library \<Rightarrow> tag_row list \<Rightarrow> search_filters \<Rightarrow> scored_chunk \<Rightarrow> bool" where
  "shown_from l tags f c \<longleftrightarrow>
     list_ex (\<lambda>p. bare_chunk c = chunk_with_score 0 p \<and> eligible l tags f p) (lb_passages l)"

lemma shown_from_cong: "bare_chunk c = bare_chunk d \<Longrightarrow> shown_from l tags f c \<longleftrightarrow> shown_from l tags f d"
  by (simp add: shown_from_def)

lemma from_store_shown: "from_store l tags f c \<Longrightarrow> shown_from l tags f c"
  unfolding from_store_def shown_from_def list_ex_iff by (metis bare_chunk_simps(3))

lemma vector_chunks_shown:
  assumes "c \<in> set (vector_chunks s sx vec k f ef exact)"
    and "\<And>v ef rows. set (vs_index_scan (se_vectors s) v ef rows) \<subseteq> set rows"
  shows "shown_from (sx_library sx) (sx_tags sx) f c"
proof -
  have "from_store (sx_library sx) (sx_tags sx) f c"
    using assms(1) vector_search_eligible [OF _ assms(2)] vector_query_eligible [OF _ subset_refl]
    by (auto simp: vector_chunks_def search_exact_def split: if_splits)
  then show ?thesis by (rule from_store_shown)
qed

lemma keyword_candidates_shown:
  "c \<in> set (keyword_candidates s sx query k f) \<Longrightarrow> shown_from (sx_library sx) (sx_tags sx) f c"
  unfolding keyword_candidates_def by (intro from_store_shown keyword_search_eligible)

lemma bare_memberE:
  assumes "map bare_chunk xs = map bare_chunk ys" and "c \<in> set xs"
  obtains d where "d \<in> set ys" and "bare_chunk c = bare_chunk d"
  using assms by (metis (no_types, lifting) imageE imageI list.set_map)

lemma retrieve_shown:
  assumes "retrieve s sx now query k f ef exact mode rrf_k w = Inr out" and "c \<in> set out"
    and scan: "\<And>v ef rows. set (vs_index_scan (se_vectors s) v ef rows) \<subseteq> set rows"
    and graph: "mode = HYBRID \<Longrightarrow> graph_is_off (se_weights s)"
  shows "shown_from (sx_library sx) (sx_tags sx) f c"
proof (cases mode)
  case HYBRID
  then have "hybrid s sx now query k f ef rrf_k w = Inr out" using assms(1) by (simp add: retrieve_def)
  then obtain vec v kw t where v: "v = vector_chunks s sx vec (wanted k) f ef False"
    and kw: "kw = keyword_candidates s sx query (wanted k) f"
    and fuse: "fuse v kw t w rrf_k (expand s sx [v, kw]) = Inr out" by (rule hybrid_Inr)
  from HYBRID graph have "merged_chunks w (expand s sx [v, kw]) = []" by (simp add: expand_def merged_chunks_def)
  with fuse_bare [OF fuse assms(2)] obtain c0 where "c0 \<in> set v \<union> set kw" "bare_chunk c = bare_chunk c0" by auto
  then show ?thesis
    using vector_chunks_shown [OF _ scan] keyword_candidates_shown shown_from_cong unfolding v kw by (metis Un_iff)
next
  case KEYWORD
  then have "map bare_chunk out = map bare_chunk (keyword_candidates s sx query (max (k * CHUNK_FANOUT) k) f)"
    using assms(1) attribute_single_bare by (auto simp: retrieve_def)
  with assms(2) obtain d where "d \<in> set (keyword_candidates s sx query (max (k * CHUNK_FANOUT) k) f)"
    "bare_chunk c = bare_chunk d" by (metis bare_memberE)
  then show ?thesis using keyword_candidates_shown shown_from_cong by metis
next
  case VECTOR
  then obtain vec where "map bare_chunk out = map bare_chunk (vector_chunks s sx vec (max (k * CHUNK_FANOUT) k) f ef exact)"
    using assms(1) attribute_single_bare by (auto simp: retrieve_def bind_result_Inr_iff)
  with assms(2) obtain d where "d \<in> set (vector_chunks s sx vec (max (k * CHUNK_FANOUT) k) f ef exact)"
    "bare_chunk c = bare_chunk d" by (metis bare_memberE)
  then show ?thesis using vector_chunks_shown [OF _ scan] shown_from_cong by metis
qed

lemma search_memories_Inr:
  assumes "search_memories s sx now query k filters ef exact mode rrf_k rerank = Inr r"
  obtains intent out chunks where
    "(if se_temporal_intent s then parse_temporal_intent query now else Inr None) = Inr intent"
    and "retrieve s sx now query k
           (fst (search_filters_for (case filters of None \<Rightarrow> no_filters | Some f \<Rightarrow> f) intent))
           ef exact mode rrf_k (search_weights s intent) = Inr out"
    and "maybe_rerank s rerank query out = Inr chunks"
    and "\<exists>stamped. map bare_chunk stamped = map bare_chunk chunks \<and> set (sr_hits r) = set (to_hits (sx_library sx) stamped k)"
proof -
  from assms obtain intent out chunks where
    i: "(if se_temporal_intent s then parse_temporal_intent query now else Inr None) = Inr intent"
    and out: "retrieve s sx now query k
           (fst (search_filters_for (case filters of None \<Rightarrow> no_filters | Some f \<Rightarrow> f) intent))
           ef exact mode rrf_k (search_weights s intent) = Inr out"
    and re: "maybe_rerank s rerank query out = Inr chunks"
    and hits: "sr_hits r =
      (let hits = to_hits (sx_library sx) (case intent of None \<Rightarrow> chunks | Some i \<Rightarrow> stamp_intent chunks i
              (snd (search_filters_for (case filters of None \<Rightarrow> no_filters | Some f \<Rightarrow> f) intent))) k
       in case intent of None \<Rightarrow> hits
          | Some i \<Rightarrow> (case ti_ordering i of None \<Rightarrow> hits | Some ord \<Rightarrow> reorder hits ord))"
    unfolding search_memories_def by (auto simp: bind_result_Inr_iff Let_def split_beta)
  let ?stamped = "case intent of None \<Rightarrow> chunks | Some i \<Rightarrow> stamp_intent chunks i
      (snd (search_filters_for (case filters of None \<Rightarrow> no_filters | Some f \<Rightarrow> f) intent))"
  have "map bare_chunk ?stamped = map bare_chunk chunks" by (simp add: stamp_intent_bare split: option.split)
  moreover have "set (sr_hits r) = set (to_hits (sx_library sx) ?stamped k)"
    unfolding hits by (simp add: Let_def reorder_set split: option.split)
  ultimately show thesis using that [OF i out re] by blast
qed

lemma search_shows:
  assumes "search_memories s sx now query k filters ef exact mode rrf_k rerank = Inr r"
    and "\<And>v ef rows. set (vs_index_scan (se_vectors s) v ef rows) \<subseteq> set rows"
    and "mode = HYBRID \<Longrightarrow> graph_is_off (se_weights s)"
  shows "\<exists>intent. (if se_temporal_intent s then parse_temporal_intent query now else Inr None) = Inr intent \<and>
           list_all (\<lambda>h. list_all (\<lambda>c. sk_memory_id c = mh_memory_id h \<and>
               shown_from (sx_library sx) (sx_tags sx)
                 (fst (search_filters_for (case filters of None \<Rightarrow> no_filters | Some f \<Rightarrow> f) intent)) c)
             (mh_matched_chunks h)) (sr_hits r)"
proof -
  let ?f = "\<lambda>intent. fst (search_filters_for (case filters of None \<Rightarrow> no_filters | Some f \<Rightarrow> f) intent)"
  obtain intent out chunks where
    i: "(if se_temporal_intent s then parse_temporal_intent query now else Inr None) = Inr intent"
    and out: "retrieve s sx now query k (?f intent) ef exact mode rrf_k (search_weights s intent) = Inr out"
    and re: "maybe_rerank s rerank query out = Inr chunks"
    and stamp: "\<exists>stamped. map bare_chunk stamped = map bare_chunk chunks \<and> set (sr_hits r) = set (to_hits (sx_library sx) stamped k)"
    using assms(1) by (rule search_memories_Inr)
  obtain stamped where bare: "map bare_chunk stamped = map bare_chunk chunks"
    and hits: "set (sr_hits r) = set (to_hits (sx_library sx) stamped k)" using stamp by blast
  have shown: "shown_from (sx_library sx) (sx_tags sx) (?f intent) c" if "c \<in> set stamped" for c
  proof -
    have "bare_chunk c \<in> set (map bare_chunk out)"
      using that bare mset_eq_setD [OF maybe_rerank_bare [OF re]] by (metis imageI list.set_map)
    then obtain d where "d \<in> set out" "bare_chunk c = bare_chunk d" by auto
    then show ?thesis using retrieve_shown [OF out _ assms(2,3)] shown_from_cong by metis
  qed
  have "sk_memory_id c = mh_memory_id h \<and> shown_from (sx_library sx) (sx_tags sx) (?f intent) c"
    if "h \<in> set (sr_hits r)" "c \<in> set (mh_matched_chunks h)" for h c
    using to_hits_chunks [of h "sx_library sx" stamped k c] that shown unfolding hits by blast
  then show ?thesis using i unfolding list_all_iff by blast
qed

text \<open>C12 Without the graph, a search shows eligible text only: every chunk of every result is the stored row of a
  passage of that memory which the filters, narrowed by the query's own dates, let through, in all three
  modes, whatever the index returns and whether or not a reranker runs.\<close>

theorem a_search_shows_only_what_the_filters_allow:
  assumes "search_memories s sx now query k filters ef exact mode rrf_k rerank = Inr r"
    and "\<And>v ef rows. set (vs_index_scan (se_vectors s) v ef rows) \<subseteq> set rows"
    and "mode = HYBRID \<Longrightarrow> graph_is_off (se_weights s)"
  shows "\<exists>intent. (if se_temporal_intent s then parse_temporal_intent query now else Inr None) = Inr intent \<and>
           list_all (\<lambda>h. list_all (\<lambda>c. sk_memory_id c = mh_memory_id h \<and>
               shown_from (sx_library sx) (sx_tags sx)
                 (fst (search_filters_for (case filters of None \<Rightarrow> no_filters | Some f \<Rightarrow> f) intent)) c)
             (mh_matched_chunks h)) (sr_hits r)"
  using assms by (rule search_shows)


section \<open>Witnesses\<close>

text \<open>Two memories of two sources; the second is reached through the entity 7 that both mention.\<close>

definition shelf_memory :: "nat \<Rightarrow> memory" where
  "shelf_memory i =
     \<lparr> m_id = i, m_source = i, m_key = ''k'', m_content_hash = ''h'', m_kind = NOTE,
       m_occurred_at_source = TP_UNKNOWN, m_version = 1, m_is_current = True, m_occurred_at = None,
       m_ingested_at = None, m_importance = None, m_media_type = None, m_deleted_at = None \<rparr>"

definition shelf_passage :: "nat \<Rightarrow> passage" where
  "shelf_passage i =
     \<lparr> ps_id = i, ps_memory = i, ps_ordinal = 0, ps_content = replicate i CHR ''a'', ps_token_count = 1,
       ps_char_start = 0, ps_char_end = i, ps_prefix_chars = 0, ps_chunker_version = ''v'',
       ps_content_hash = ''h'', ps_definition = None, ps_embedding = None, ps_embedding_model = None,
       ps_embedded_at = None \<rparr>"

definition shelf_source :: "nat \<Rightarrow> source" where
  "shelf_source i = \<lparr> src_id = i, src_kind = SK_FILESYSTEM, src_name = ''notes'', src_cursor_seen = [],
     src_last_sync_at = None, src_last_full_sync_at = None \<rparr>"

definition sample_shelf :: library where
  "sample_shelf =
     \<lparr> lb_corpus = (empty_corpus 1)\<lparr> c_sources := map shelf_source [1, 2], c_memories := map shelf_memory [1, 2] \<rparr>,
       lb_texts = [], lb_passages = map shelf_passage [1, 2], lb_cache = [] \<rparr>"

definition shelf_graph :: graph_db where
  "shelf_graph =
     \<lparr> gd_mention_edges = \<lambda>ids. Inr (map (\<lambda>i. (i, 7)) ids),
       gd_direct = \<lambda>seeds limit. Inr (map (\<lambda>e. \<lparr> gr_memory_id = 2, gr_chunk_ordinal = 0, gr_entity_id = e,
                                            gr_hops = 2, gr_route = [''a'', ''a'', ''b''] \<rparr>) seeds),
       gd_traversed = \<lambda>seeds depth excluded limit. Inr [] \<rparr>"

definition sample_expander :: expander where
  "sample_expander = \<lparr> ex_graph = shelf_graph, ex_depth = 2, ex_hub_ratio = 1 / 2, ex_seed_memories = 5,
                       ex_reach_limit = 10 \<rparr>"

definition sample_tables :: search_tables where
  "sample_tables = \<lparr> sx_library = sample_shelf, sx_tags = [],
                     sx_entities = \<lparr> et_mentions = [], et_entities = [] \<rparr> \<rparr>"

definition sample_searcher :: searcher where
  "sample_searcher =
     \<lparr> se_embed = map (\<lambda>_. [1]), se_vectors = \<lparr> vs_index_scan = \<lambda>v ef rows. rows, vs_default_ef_search = 40 \<rparr>,
       se_matches = \<lambda>_ _. True, se_cover_rank = \<lambda>passage_text _. of_nat (length passage_text),
       se_weights = default_weights, se_rerank = None, se_rerank_candidates = 10,
       se_expand = Some sample_expander, se_seed_memories = 5, se_temporal_intent = False,
       se_temporal_recency_weight = 1 \<rparr>"

definition shelf_chunk :: "nat \<Rightarrow> scored_chunk" where
  "shelf_chunk i = chunk_with_score 1 (shelf_passage i)"


lemma signals_off_is_two_way_fusion_witness:
  "\<exists>out. reciprocal_rank_fusion [[''1''], [''2'', ''1'']] 60 (Some [1, 1]) =
         Inr (map (\<lambda>c. (chunk_key c, sk_score c)) out)"
proof -
  let ?w = "default_weights\<lparr> fw_graph := 0 \<rparr>"
  have "is_ok (fuse [shelf_chunk 1] [shelf_chunk 2, shelf_chunk 1] no_signals ?w 60 None)"
    by (rule fuse_total) (simp_all add: no_signals_def)
  then obtain out where out: "fuse [shelf_chunk 1] [shelf_chunk 2, shelf_chunk 1] no_signals ?w 60 None = Inr out"
    by (auto simp: is_ok_iff)
  have off: "signals_are_off ?w" and one: "fw_vector ?w = 1" "fw_keyword ?w = 1"
    by (simp_all add: signals_are_off_def default_weights_def)
  have keys: "map chunk_key [shelf_chunk 1] = [''1'']" "map chunk_key [shelf_chunk 2, shelf_chunk 1] = [''2'', ''1'']"
    by code_simp+
  from signals_off_is_two_way_fusion [OF off out, unfolded keys one] show ?thesis by blast
qed

lemma reranking_keeps_recall_witness:
  "\<exists>out. rerank_chunks (\<lambda>_. map (\<lambda>t. of_nat (length t))) 2 ''q'' (map shelf_chunk [1, 2, 3]) = Inr out \<and>
     mset (map bare_chunk out) = mset (map bare_chunk (map shelf_chunk [1, 2, 3])) \<and>
     map bare_chunk (drop 2 out) = [bare_chunk (shelf_chunk 3)] \<and> sorted (map (\<lambda>c. - sk_score c) out)"
proof -
  have "length (map (\<lambda>t. of_nat (length t) :: pyfloat) (map sk_text (take 2 (map shelf_chunk [1, 2, 3])))) =
        length (take 2 (map shelf_chunk [1, 2, 3]))" by simp
  from reranking_keeps_recall [where model = "\<lambda>_. map (\<lambda>t. of_nat (length t))" and query = "''q''", OF this]
  show ?thesis by (auto simp: numeral_2_eq_2)
qed

text \<open>Here both memories match the query and only the first may be shown.\<close>

lemma a_search_shows_only_what_the_filters_allow_witness:
  "\<exists>r. search_memories (sample_searcher\<lparr> se_weights := default_weights\<lparr> fw_graph := 0 \<rparr> \<rparr>) sample_tables 0 ''q'' 5
         (Some (no_filters\<lparr> sf_source_ids := Some [1] \<rparr>)) None False HYBRID 60 False = Inr r \<and>
       list_all (\<lambda>h. list_all (\<lambda>c. sk_memory_id c = mh_memory_id h \<and>
           shown_from sample_shelf [] (no_filters\<lparr> sf_source_ids := Some [1] \<rparr>) c) (mh_matched_chunks h)) (sr_hits r)"
proof -
  let ?s = "sample_searcher\<lparr> se_weights := default_weights\<lparr> fw_graph := 0 \<rparr> \<rparr>"
  let ?f = "no_filters\<lparr> sf_source_ids := Some [1] \<rparr>"
  have parts: "se_embed ?s = map (\<lambda>_. [1])" "se_temporal_intent ?s = False" "se_rerank ?s = None"
      "vs_index_scan (se_vectors ?s) = (\<lambda>v ef rows. rows)" "graph_is_off (se_weights ?s)"
      "sx_library sample_tables = sample_shelf" "sx_tags sample_tables = []"
    by (simp_all add: sample_searcher_def graph_is_off_def sample_tables_def)
  have "is_ok (retrieve ?s sample_tables 0 ''q'' 5 ?f None False HYBRID 60 (se_weights ?s))"
    by (rule retrieve_total) (simp_all add: parts)
  then obtain r where r: "search_memories ?s sample_tables 0 ''q'' 5 (Some ?f) None False HYBRID 60 False = Inr r"
    by (auto simp: search_memories_def parts is_ok_iff search_filters_for_def search_weights_def maybe_rerank_def)
  have "set (vs_index_scan (se_vectors ?s) v ef rows) \<subseteq> set rows" for v ef rows by (simp only: parts subset_refl)
  from a_search_shows_only_what_the_filters_allow [OF r this parts(5)] obtain intent where
    "(if se_temporal_intent ?s then parse_temporal_intent ''q'' 0 else Inr None) = Inr intent"
    and shown: "list_all (\<lambda>h. list_all (\<lambda>c. sk_memory_id c = mh_memory_id h \<and>
           shown_from sample_shelf [] (fst (search_filters_for ?f intent)) c) (mh_matched_chunks h)) (sr_hits r)"
    unfolding parts by auto
  then have "intent = None" by (simp add: parts)
  then show ?thesis using r shown by (auto simp: search_filters_for_def)
qed


end
