(* ===== verification/Explain_Guarantees.thy ===== *)
theory Explain_Guarantees
  imports Search_Guarantees
begin

text \<open>
  What an explanation guarantees, what the graph expansion scores, and two places where a search does not
  keep what it says: the graph ranking ignores the filters, and a temporal boost is left out of the
  explanation.
\<close>

section \<open>Explanations reconstruct the fusion\<close>

lemma build_explanation_Inr:
  assumes "build_explanation rank fused ranks k rr pr gp = Inr e"
  shows "re_fused_score e = fused"
    and "map sc_contribution (re_contributions e) = map (term_of k) (sort_key (\<lambda>r. - term_of k r) (counted ranks))"
    and "map sc_share (re_contributions e) =
         map (\<lambda>r. if sum_list (map (term_of k) (counted ranks)) \<noteq> 0
                  then term_of k r / sum_list (map (term_of k) (counted ranks)) else 0)
           (sort_key (\<lambda>r. - term_of k r) (counted ranks))"
    and "map sc_name (re_contributions e) = map fst (sort_key (\<lambda>r. - term_of k r) (counted ranks))"
  using assms
  by (auto simp: build_explanation_def Let_def term_of_def comp_def case_prod_unfold split: if_splits)

lemma sum_list_sorted: "sum_list (map f (sort_key g xs)) = sum_list (map f xs)" for f :: "'a \<Rightarrow> real"
  by (metis mset_map mset_sort sum_mset_sum_list)

lemma sum_counted: "sum_list (map (term_of k) (counted ranks)) = sum_list (map (term_of k) ranks)"
  by (induction ranks) (auto simp: counted_def term_of_def)

lemma sum_breakdown_ranks: "sum_list (map (term_of k) (breakdown_ranks b w)) = accounted k w b"
proof -
  have "sum_list (map (term_of k) (given_rank name rank score weight)) = rank_share k weight rank"
    for name rank score weight by (cases rank) (simp_all add: term_of_def rank_share_def)
  then show ?thesis by (simp add: breakdown_ranks_def accounted_def)
qed

lemma contributions_sum:
  assumes "build_explanation rank fused (breakdown_ranks b w) k rr pr gp = Inr e"
  shows "sum_list (map sc_contribution (re_contributions e)) = accounted k w b"
  by (simp add: build_explanation_Inr(2) [OF assms] sum_list_sorted sum_counted sum_breakdown_ranks)

lemma shares_sum:
  assumes "build_explanation rank fused ranks k rr pr gp = Inr e"
    and "sum_list (map sc_contribution (re_contributions e)) \<noteq> 0"
  shows "sum_list (map sc_share (re_contributions e)) = 1"
proof -
  let ?t = "sum_list (map (term_of k) (counted ranks))"
  have "?t \<noteq> 0" using assms(2) by (simp add: build_explanation_Inr(2) [OF assms(1)] sum_list_sorted)
  then have "sum_list (map sc_share (re_contributions e)) = sum_list (map (\<lambda>r. term_of k r / ?t) (counted ranks))"
    by (simp add: build_explanation_Inr(3) [OF assms(1)] sum_list_sorted)
  also have "\<dots> = ?t / ?t"
  proof -
    have "sum_list (map (\<lambda>r. f r / t) rs) = sum_list (map f rs) / t" for f :: "named_rank \<Rightarrow> real" and t rs
      by (induction rs) (simp_all add: add_divide_distrib)
    then show ?thesis .
  qed
  finally show ?thesis using \<open>?t \<noteq> 0\<close> by simp
qed

text \<open>C15 An explanation reconstructs the score: for a fused chunk, explained under the weights it was fused with,
  the contributions sum to the fused score, come in descending order, and the shares sum to one.\<close>

theorem an_explanation_reconstructs_the_score:
  assumes "fuse v kw t w k graph = Inr out" and "c \<in> set out" and "sk_breakdown c = Some b"
    and "distinct (map fst (st_recency t))" and "distinct (map fst (st_importance t))"
    and "build_explanation rank (sb_fused b) (breakdown_ranks b w) k rr pr gp = Inr e"
  shows "sum_list (map sc_contribution (re_contributions e)) = re_fused_score e \<and> re_fused_score e = sk_score c \<and>
         sorted (map (\<lambda>x. - sc_contribution x) (re_contributions e)) \<and>
         (sk_score c = 0 \<or> sum_list (map sc_share (re_contributions e)) = 1)"
proof -
  from assms(1) obtain pairs where rrf: "reciprocal_rank_fusion (map fst (rankings v kw t w graph)) k
        (Some (map snd (rankings v kw t w graph))) = Inr pairs"
    and all: "list_all2 (fused_from v kw t w graph) pairs out" by (rule fuse_Inr)
  obtain b' where b': "sk_breakdown c = Some b'" "sb_fused b' = sk_score c" "sk_score c = accounted k w b'"
    using fused_accounted [OF rrf all assms(2,4,5)] by blast
  have e: "re_fused_score e = sk_score c" using b' assms(3) by (simp add: build_explanation_Inr(1) [OF assms(6)])
  have sum: "sum_list (map sc_contribution (re_contributions e)) = sk_score c"
    using b' assms(3) by (simp add: contributions_sum [OF assms(6)])
  have "map (\<lambda>x. - sc_contribution x) (re_contributions e) = map uminus (map sc_contribution (re_contributions e))"
    by (simp add: comp_def)
  also have "sorted \<dots>"
    using sorted_sort_key [of "\<lambda>r. - term_of k r" "counted (breakdown_ranks b w)"]
    unfolding build_explanation_Inr(2) [OF assms(6)] by (simp add: comp_def)
  finally have "sorted (map (\<lambda>x. - sc_contribution x) (re_contributions e))" .
  with e sum show ?thesis using shares_sum [OF assms(6)] by auto
qed

text \<open>A temporal boost is not explained: a query such as \<^verbatim>\<open>recently\<close> is fused with a recency weight of its own,
  and the explanation is built with the configured weights. Where those switch recency off, no contribution
  names it, and the contributions fall short of the score by exactly the term that the boost added.\<close>

theorem a_temporal_boost_is_not_explained:
  assumes "fuse v kw t (w\<lparr> fw_recency := boost \<rparr>) k graph = Inr out" and "c \<in> set out"
    and "sk_breakdown c = Some b" and "sb_recency_rank b = Some i" and "fw_recency w = 0"
    and "distinct (map fst (st_recency t))" and "distinct (map fst (st_importance t))"
    and "build_explanation rank (sb_fused b) (breakdown_ranks b w) k rr pr gp = Inr e"
  shows "sum_list (map sc_contribution (re_contributions e)) + boost / of_int (k + i) = re_fused_score e \<and>
         ''recency'' \<notin> set (map sc_name (re_contributions e))"
proof -
  let ?w = "w\<lparr> fw_recency := boost \<rparr>"
  from assms(1) obtain pairs where rrf: "reciprocal_rank_fusion (map fst (rankings v kw t ?w graph)) k
        (Some (map snd (rankings v kw t ?w graph))) = Inr pairs"
    and all: "list_all2 (fused_from v kw t ?w graph) pairs out" by (rule fuse_Inr)
  have "sb_fused b = accounted k ?w b"
    using fused_accounted [OF rrf all assms(2,6,7)] assms(3) by auto
  also have "\<dots> = accounted k w b + boost / of_int (k + i)"
    using assms(4,5) by (simp add: accounted_def rank_share_def)
  finally have sum: "sum_list (map sc_contribution (re_contributions e)) + boost / of_int (k + i) = re_fused_score e"
    by (simp add: contributions_sum [OF assms(8)] build_explanation_Inr(1) [OF assms(8)])
  have "''recency'' \<notin> fst ` set (counted (given_rank name r s x))" if "name \<noteq> ''recency'' \<or> x = 0" for name r s x
    using that by (cases r) (auto simp: counted_def)
  then have "''recency'' \<notin> fst ` set (counted (breakdown_ranks b w))"
    using assms(5) unfolding breakdown_ranks_def counted_def filter_append set_append image_Un by simp
  then have "''recency'' \<notin> set (map sc_name (re_contributions e))"
    by (simp add: build_explanation_Inr(4) [OF assms(8)])
  with sum show ?thesis by blast
qed

section \<open>What the graph contributes\<close>

fun first_reaches :: "(place \<times> nat) set \<Rightarrow> graph_reach list \<Rightarrow> graph_reach list" where
  "first_reaches seen [] = []"
| "first_reaches seen (r # rs) =
     (if (reach_place r, gr_entity_id r) \<in> seen then first_reaches seen rs
      else r # first_reaches (insert (reach_place r, gr_entity_id r) seen) rs)"

definition at_place :: "place \<Rightarrow> graph_reach list \<Rightarrow> graph_reach list" where
  "at_place p rs = filter (\<lambda>r. reach_place r = p) rs"

lemma at_place_simps [simp]:
  "at_place p [] = []"
  "at_place p (r # rs) = (if reach_place r = p then r # at_place p rs else at_place p rs)"
  by (simp_all add: at_place_def)

lemma first_reaches_subset: "set (first_reaches seen rs) \<subseteq> set rs"
  by (induction seen rs rule: first_reaches.induct) auto

lemma score_reach_scores:
  "dict_get (gs_scores (foldl (score_reach st) gs rs)) p 0 =
     dict_get (gs_scores gs) p 0 + sum_list (map (reach_weight st) (at_place p (first_reaches (set (gs_seen gs)) rs)))"
proof (induction rs arbitrary: gs)
  case (Cons r rs)
  show ?case
    by (simp add: Cons.IH [of "score_reach st gs r"]) (simp add: score_reach_def Let_def dict_get_update)
qed simp

lemma score_reach_keys:
  "fst ` set (gs_scores (foldl (score_reach st) gs rs)) =
     fst ` set (gs_scores gs) \<union> reach_place ` set (first_reaches (set (gs_seen gs)) rs)"
proof (induction rs arbitrary: gs)
  case (Cons r rs)
  show ?case
    by (simp add: Cons.IH [of "score_reach st gs r"]) (auto simp: score_reach_def Let_def)
qed simp

lemma score_reach_distinct:
  "distinct (map fst (gs_scores gs)) \<Longrightarrow> distinct (map fst (gs_scores (foldl (score_reach st) gs rs)))"
proof (induction rs arbitrary: gs)
  case (Cons r rs)
  have "distinct (map fst (gs_scores (score_reach st gs r)))"
    using Cons.prems by (simp add: score_reach_def Let_def distinct_update)
  then show ?case using Cons.IH by simp
qed simp

text \<open>The route kept for a place is one that reached it, and no route to the place is shorter.\<close>

definition route_at :: "graph_reach list \<Rightarrow> (int \<times> pyfloat \<times> string list) option \<Rightarrow> place \<Rightarrow> bool" where
  "route_at rs cur p \<longleftrightarrow>
     (case cur of
        None \<Rightarrow> \<forall>r \<in> set rs. reach_place r \<noteq> p
      | Some c \<Rightarrow>
          (\<exists>r \<in> set rs. reach_place r = p \<and> gr_hops r = fst c \<and> gr_route r = snd (snd c)) \<and>
          (\<forall>r \<in> set rs. reach_place r = p \<longrightarrow> fst c \<le> gr_hops r))"

definition route_ok :: "graph_reach list \<Rightarrow> graph_scores \<Rightarrow> bool" where
  "route_ok rs gs \<longleftrightarrow> (\<forall>p. route_at rs (map_of (gs_best_route gs) p) p)"

lemma route_at_other: "p \<noteq> reach_place r \<Longrightarrow> route_at (rs @ [r]) cur p \<longleftrightarrow> route_at rs cur p"
  by (auto simp: route_at_def split: option.split)

lemma route_at_keep: "route_at rs (Some c) p \<Longrightarrow> fst c \<le> gr_hops r \<Longrightarrow> route_at (rs @ [r]) (Some c) p"
  by (auto simp: route_at_def)

lemma route_at_new:
  assumes "route_at rs cur (reach_place r)"
    and "case cur of None \<Rightarrow> True | Some c \<Rightarrow> gr_hops r \<le> fst c"
  shows "route_at (rs @ [r]) (Some (gr_hops r, x, gr_route r)) (reach_place r)"
  using assms by (cases cur) (force simp: route_at_def)+

lemma score_reach_seen:
  "set (gs_seen (foldl (score_reach st) gs rs)) = set (gs_seen gs) \<union> (\<lambda>r. (reach_place r, gr_entity_id r)) ` set rs"
  by (induction rs arbitrary: gs) (auto simp: score_reach_def Let_def)

lemma route_ok_step:
  assumes "route_ok rs gs" and "sorted (map gr_hops (rs @ [r]))"
    and "set (gs_seen gs) = (\<lambda>r. (reach_place r, gr_entity_id r)) ` set rs"
  shows "route_ok (rs @ [r]) (score_reach st gs r)"
  unfolding route_ok_def
proof
  fix p
  let ?cur = "map_of (gs_best_route gs) p" and ?new = "(gr_hops r, - idf st (gr_entity_id r), gr_route r)"
  have ok: "route_at rs ?cur p" using assms(1) unfolding route_ok_def by (rule spec)
  have seen: "route_at (rs @ [r]) ?cur p" if m: "(reach_place r, gr_entity_id r) \<in> set (gs_seen gs)" "p = reach_place r"
  proof -
    obtain r' where r': "r' \<in> set rs" "reach_place r' = p" using m assms(3) by auto
    with ok obtain c where "?cur = Some c" by (auto simp: route_at_def split: option.splits)
    moreover have "gr_hops r' \<le> gr_hops r" using r'(1) assms(2) by (auto simp: sorted_append)
    moreover have "fst c \<le> gr_hops r'" using ok r' \<open>?cur = Some c\<close> by (simp add: route_at_def)
    ultimately show ?thesis using ok by (simp add: route_at_keep)
  qed
  have fresh: "route_at (rs @ [r]) (if better_route ?new ?cur then Some ?new else ?cur) p" if "p = reach_place r"
  proof (cases "better_route ?new ?cur")
    case True
    then have "case ?cur of None \<Rightarrow> True | Some c \<Rightarrow> gr_hops r \<le> fst c"
      by (auto simp: better_route_def split: option.splits prod.splits)
    with ok that True show ?thesis by (simp add: route_at_new)
  next
    case False
    then obtain c where "?cur = Some c" "fst c \<le> gr_hops r"
      by (cases ?cur) (auto simp: better_route_def split: prod.splits)
    with ok False show ?thesis by (simp add: route_at_keep)
  qed
  have "map_of (gs_best_route (score_reach st gs r)) p =
      (if (reach_place r, gr_entity_id r) \<notin> set (gs_seen gs) \<and> p = reach_place r \<and> better_route ?new ?cur
       then Some ?new else ?cur)"
    by (cases "p = reach_place r") (simp_all add: score_reach_def Let_def update_conv')
  then show "route_at (rs @ [r]) (map_of (gs_best_route (score_reach st gs r)) p) p"
    using ok seen fresh by (cases "p = reach_place r") (auto simp: route_at_other)
qed

lemma route_ok_fold:
  "sorted (map gr_hops rs) \<Longrightarrow> route_ok rs (foldl (score_reach st) no_scores rs)"
proof (induction rs rule: rev_induct)
  case (snoc r rs)
  then have "route_ok rs (foldl (score_reach st) no_scores rs)" by (simp add: sorted_append)
  then have "route_ok (rs @ [r]) (score_reach st (foldl (score_reach st) no_scores rs) r)"
    by (rule route_ok_step) (use snoc.prems in \<open>simp_all add: score_reach_seen no_scores_def\<close>)
  then show ?case by simp
qed (simp add: route_ok_def route_at_def no_scores_def)

lemma reach_sorted:
  assumes "reach g seeds depth excluded limit = Inr reached"
  shows "sorted (map gr_hops (filter keep reached))"
proof -
  have "reached = [] \<or> (\<exists>rs. reached = take limit (sort_key reach_key rs))"
    using assms by (auto simp: reach_def bind_result_Inr_iff split: if_splits)
  moreover have "sorted (map gr_hops (take limit (sort_key reach_key rs)))" for rs
  proof -
    have "sorted (map reach_key (take limit (sort_key reach_key rs)))"
      by (metis sorted_sort_key sorted_wrt_take take_map)
    then show ?thesis unfolding reach_key_def by (rule sorted_first_component)
  qed
  ultimately have "sorted (map gr_hops reached)" by auto
  then show ?thesis by (rule sorted_filter)
qed

lemma first_reaches_place:
  "r \<in> set rs \<Longrightarrow> reach_place r \<in> reach_place ` set (first_reaches seen rs) \<union> fst ` seen"
proof (induction seen rs rule: first_reaches.induct)
  case (2 seen x rs)
  show ?case
  proof (cases "(reach_place x, gr_entity_id x) \<in> seen")
    case True
    then have "reach_place x \<in> fst ` seen" by (rule rev_image_eqI) simp
    then show ?thesis using 2(1) [OF True] 2(3) True by auto
  next
    case False
    then show ?thesis using 2(2) [OF False] 2(3) by auto
  qed
qed simp

lemma first_reaches_places: "reach_place ` set (first_reaches {} rs) = reach_place ` set rs"
  using first_reaches_subset [of "{}" rs] first_reaches_place [of _ rs "{}"] by auto

text \<open>C38 The graph ranks a place by the rarity of the entities that lead to it over their distance, each entity
  counted once, at its first and therefore shortest reach; every reached place is listed once, in descending
  order of score, with a route that reached it and than which none is shorter.\<close>

theorem the_graph_counts_an_entity_once:
  assumes "reach g seeds depth excluded limit = Inr reached" and "rs = filter keep reached"
  shows "distinct (map fst (score_reached st rs)) \<and>
         fst ` set (score_reached st rs) = reach_place ` set rs \<and>
         sorted (map (\<lambda>(_, score, _). - score) (score_reached st rs)) \<and>
         list_all (\<lambda>(place, score, route).
             score = sum_list (map (reach_weight st) (at_place place (first_reaches {} rs))) \<and>
             list_ex (\<lambda>r. gr_route r = route \<and> list_all (\<lambda>r'. gr_hops r \<le> gr_hops r') (at_place place rs))
               (at_place place rs))
           (score_reached st rs)"
proof -
  define gs where "gs = foldl (score_reach st) no_scores rs"
  let ?route = "\<lambda>place. snd (snd (the (map_of (gs_best_route gs) place)))"
  have out: "score_reached st rs = map (\<lambda>(place, score). (place, score, ?route place)) (sort_key place_key (gs_scores gs))"
    by (simp add: score_reached_def gs_def Let_def)
  have firsts: "map fst (score_reached st rs) = map fst (sort_key place_key (gs_scores gs))"
    by (simp add: out comp_def case_prod_unfold)
  have dist: "distinct (map fst (gs_scores gs))"
    unfolding gs_def by (rule score_reach_distinct) (simp add: no_scores_def)
  have keys: "fst ` set (gs_scores gs) = reach_place ` set rs"
    unfolding gs_def by (simp add: score_reach_keys) (simp add: no_scores_def first_reaches_places)
  have "sorted (map place_key (sort_key place_key (gs_scores gs)))" by simp
  then have "sorted (map (\<lambda>x. - snd x) (sort_key place_key (gs_scores gs)))"
    unfolding place_key_def by (rule sorted_first_component)
  then have desc: "sorted (map (\<lambda>(_, score, _). - score) (score_reached st rs))"
    by (simp add: out comp_def case_prod_unfold)
  have ok: "route_ok rs gs"
    unfolding gs_def assms(2) by (intro route_ok_fold reach_sorted [OF assms(1)])
  have each: "score = sum_list (map (reach_weight st) (at_place place (first_reaches {} rs))) \<and>
      list_ex (\<lambda>r. gr_route r = ?route place \<and> list_all (\<lambda>r'. gr_hops r \<le> gr_hops r') (at_place place rs)) (at_place place rs)"
    if "(place, score) \<in> set (gs_scores gs)" for place score
  proof
    have "score = dict_get (gs_scores gs) place 0" using that dist by (simp add: dict_get_def)
    then show "score = sum_list (map (reach_weight st) (at_place place (first_reaches {} rs)))"
      unfolding gs_def score_reach_scores by (simp add: no_scores_def dict_get_def)
    have "place \<in> reach_place ` set rs" using that keys by force
    then obtain c where best: "map_of (gs_best_route gs) place = Some c"
      using spec [OF ok [unfolded route_ok_def], of place]
      by (cases "map_of (gs_best_route gs) place") (auto simp: route_at_def)
    have "route_at rs (Some c) place"
      using spec [OF ok [unfolded route_ok_def], of place] by (simp only: best)
    then show "list_ex (\<lambda>r. gr_route r = ?route place \<and> list_all (\<lambda>r'. gr_hops r \<le> gr_hops r') (at_place place rs))
        (at_place place rs)"
      unfolding route_at_def best by (auto simp: list_ex_iff list_all_iff at_place_def)
  qed
  have "list_all (\<lambda>(place, score, route).
             score = sum_list (map (reach_weight st) (at_place place (first_reaches {} rs))) \<and>
             list_ex (\<lambda>r. gr_route r = route \<and> list_all (\<lambda>r'. gr_hops r \<le> gr_hops r') (at_place place rs))
               (at_place place rs))
           (score_reached st rs)"
    unfolding out list.pred_map using each by (intro list_all_iff [THEN iffD2]) auto
  moreover have "distinct (map fst (score_reached st rs))" unfolding firsts distinct_sort_keys by (rule dist)
  moreover have "fst ` set (score_reached st rs) = reach_place ` set rs"
    using firsts keys by (metis list.set_map set_sort)
  ultimately show ?thesis using desc by blast
qed



section \<open>Witnesses\<close>

text \<open>A source the caller excluded: the search may show source 1 only, and what it answers names the chunk of
  source 2, which no filter lets through.\<close>

definition shelf_reach :: graph_reach where
  "shelf_reach = \<lparr> gr_memory_id = 2, gr_chunk_ordinal = 0, gr_entity_id = 7, gr_hops = 2, gr_route = [''a'', ''b''] \<rparr>"

lemma shelf_reached: "reach shelf_graph [7] 2 [] 10 = Inr [shelf_reach]"
  by (simp add: reach_def shelf_graph_def shelf_reach_def checked_depth_def checked_entity_depth_def MAX_DEPTH_def)

lemma expansion_of_sample:
  "expand_through_graph sample_expander sample_shelf \<lparr> et_mentions = [], et_entities = [] \<rparr> [1] [1] =
     \<lparr> gc_chunks = [chunk_with_score 0 (shelf_passage 2)], gc_routes = [(''2'', [''a'', ''b''])], gc_seeds = 1,
       gc_hubs_excluded = 0, gc_reached = 1 \<rparr>"
proof -
  let ?st = "\<lparr> es_documents = 0, es_frequency = [], es_hub_ratio = 1 / 2 \<rparr>"
  have st: "count_entities sample_shelf \<lparr> et_mentions = [], et_entities = [] \<rparr> (1 / 2) = ?st" "hubs ?st = []"
    by (simp_all add: count_entities_def hubs_def)
  have score: "score_reached ?st [shelf_reach] = [((2, 0), 0, [''a'', ''b''])]"
    by (simp add: score_reached_def score_reach_def no_scores_def shelf_reach_def reach_place_def reach_weight_def
        idf_def dict_get_def better_route_def Let_def)
  have two: "show_nat 2 = ''2''" by code_simp
  have chunks: "as_chunks sample_shelf [((2, 0), 0, [''a'', ''b''])] =
      ([chunk_with_score 0 (shelf_passage 2)], [(''2'', [''a'', ''b''])])"
    using two by (simp add: passages_of_def sample_shelf_def shelf_passage_def)
  have seeds: "gd_mention_edges shelf_graph [1] = Inr [(1, 7)]" by (simp add: shelf_graph_def)
  have useful: "filter (\<lambda>r. gr_memory_id r \<notin> set [1] \<union> set [1]) [shelf_reach] = [shelf_reach]"
    by (simp add: shelf_reach_def)
  have parts: "ex_graph sample_expander = shelf_graph" "ex_hub_ratio sample_expander = 1 / 2"
      "ex_depth sample_expander = 2" "ex_reach_limit sample_expander = 10" "ex_seed_memories sample_expander = 5"
    by (simp_all add: sample_expander_def)
  have take: "take 5 [1] = [1 :: nat]" by simp
  have sorted: "sorted_list_of_set (set (map snd [(1 :: nat, 7)]) - set []) = [7 :: nat]" "sort [] = ([] :: nat list)"
    by simp_all
  have "expand_body sample_expander sample_shelf \<lparr> et_mentions = [], et_entities = [] \<rparr> [1] [1] = Inr
     \<lparr> gc_chunks = [chunk_with_score 0 (shelf_passage 2)], gc_routes = [(''2'', [''a'', ''b''])], gc_seeds = 1,
       gc_hubs_excluded = 0, gc_reached = 1 \<rparr>"
    unfolding expand_body_def parts st Let_def seeds bind_result_simps sorted shelf_reached useful score chunks
    by simp
  then show ?thesis by (simp add: expand_through_graph_def parts)
qed


lemma the_graph_counts_an_entity_once_witness:
  "let st = \<lparr> es_documents = 3, es_frequency = [(7, 1)], es_hub_ratio = 1 / 2 \<rparr>; rs = [shelf_reach] in
     reach shelf_graph [7] 2 [] 10 = Inr rs \<and> distinct (map fst (score_reached st rs)) \<and>
     fst ` set (score_reached st rs) = {(2, 0)}"
proof -
  have "[shelf_reach] = filter (\<lambda>_. True) [shelf_reach]" by simp
  from the_graph_counts_an_entity_once [OF shelf_reached this] show ?thesis
    by (simp add: shelf_reached shelf_reach_def reach_place_def)
qed

text \<open>Both explanations are of one chunk, first in both rankings and first by recency.\<close>

definition dated_signals :: signal_table where
  "dated_signals = \<lparr> st_recency = [(''1'', 1)], st_importance = [] \<rparr>"

lemma boosted_fusion:
  assumes "weight \<noteq> 0"
  shows "\<exists>out c b. fuse [shelf_chunk 1] [shelf_chunk 1] dated_signals (default_weights\<lparr> fw_recency := weight \<rparr>) 60 None = Inr out \<and>
           c \<in> set out \<and> sk_breakdown c = Some b \<and> sb_vector_rank b = Some 1 \<and> sb_keyword_rank b = Some 1 \<and>
           sb_recency_rank b = Some 1 \<and> sb_importance_rank b = None \<and> sb_graph_rank b = None"
proof -
  let ?w = "default_weights\<lparr> fw_recency := weight \<rparr>"
  have one: "chunk_key (shelf_chunk 1) = ''1''" by code_simp
  have "is_ok (fuse [shelf_chunk 1] [shelf_chunk 1] dated_signals ?w 60 None)"
    by (rule fuse_total) (simp_all del: One_nat_def add: dated_signals_def one)
  then obtain out where out: "fuse [shelf_chunk 1] [shelf_chunk 1] dated_signals ?w 60 None = Inr out"
    by (auto simp: is_ok_iff)
  then obtain pairs where all: "list_all2 (fused_from [shelf_chunk 1] [shelf_chunk 1] dated_signals ?w None) pairs out"
    by (rule fuse_Inr)
  have "''1'' \<in> chunk_key ` set out" using fuse_keys [OF out] one by auto
  then obtain c where c: "c \<in> set out" "chunk_key c = ''1''" by auto
  then obtain p where p: "fused_from [shelf_chunk 1] [shelf_chunk 1] dated_signals ?w None p c"
    using all by (metis in_set_conv_nth list_all2_conv_all_nth)
  then have "fst p = ''1''" using c(2) by (auto simp: fused_from_def chunk_key_def dest!: by_id_of_key)
  with p obtain b where "sk_breakdown c = Some b" "sb_vector_rank b = Some 1" "sb_keyword_rank b = Some 1"
      "sb_recency_rank b = Some 1" "sb_importance_rank b = None" "sb_graph_rank b = None"
    using assms by (auto simp del: One_nat_def simp: fused_from_def signal_order_def signal_ranking_def
        dated_signals_def dict_of_def ranked_def merged_chunks_def one rank_of_def)
  with out c show ?thesis by blast
qed

lemma an_explanation_reconstructs_the_score_witness:
  "\<exists>out c (e :: rank_explanation). fuse [shelf_chunk 1] [shelf_chunk 1] dated_signals (default_weights\<lparr> fw_recency := 1 \<rparr>) 60 None = Inr out \<and>
     c \<in> set out \<and> sum_list (map sc_contribution (re_contributions e)) = re_fused_score e \<and> re_fused_score e = sk_score c"
proof -
  let ?w = "default_weights\<lparr> fw_recency := 1 \<rparr>"
  obtain out c b where out: "fuse [shelf_chunk 1] [shelf_chunk 1] dated_signals ?w 60 None = Inr out"
      "c \<in> set out" "sk_breakdown c = Some b"
    and ranks: "sb_vector_rank b = Some 1" "sb_keyword_rank b = Some 1" "sb_recency_rank b = Some 1"
      "sb_importance_rank b = None" "sb_graph_rank b = None"
    using boosted_fusion [of 1] by auto
  obtain e where e: "build_explanation 1 (sb_fused b) (breakdown_ranks b ?w) 60 None None None = Inr e"
    by (simp add: build_explanation_def breakdown_ranks_def ranks counted_def default_weights_def Let_def)
  have "distinct (map fst (st_recency dated_signals))" "distinct (map fst (st_importance dated_signals))"
    by (simp_all add: dated_signals_def)
  from an_explanation_reconstructs_the_score [OF out this e] out show ?thesis by blast
qed

lemma a_temporal_boost_is_not_explained_witness:
  "\<exists>out c (e :: rank_explanation). fuse [shelf_chunk 1] [shelf_chunk 1] dated_signals (default_weights\<lparr> fw_recency := 1 \<rparr>) 60 None = Inr out \<and>
     c \<in> set out \<and> sum_list (map sc_contribution (re_contributions e)) + 1 / 61 = re_fused_score e \<and>
     ''recency'' \<notin> set (map sc_name (re_contributions e))"
proof -
  obtain out c b where out: "fuse [shelf_chunk 1] [shelf_chunk 1] dated_signals (default_weights\<lparr> fw_recency := 1 \<rparr>) 60 None = Inr out"
      "c \<in> set out" "sk_breakdown c = Some b"
    and ranks: "sb_vector_rank b = Some 1" "sb_keyword_rank b = Some 1" "sb_recency_rank b = Some 1"
      "sb_importance_rank b = None" "sb_graph_rank b = None"
    using boosted_fusion [of 1] by auto
  obtain e where e: "build_explanation 1 (sb_fused b) (breakdown_ranks b default_weights) 60 None None None = Inr e"
    by (simp add: build_explanation_def breakdown_ranks_def ranks counted_def default_weights_def Let_def)
  have "distinct (map fst (st_recency dated_signals))" "distinct (map fst (st_importance dated_signals))"
    "fw_recency default_weights = 0"
    by (simp_all add: dated_signals_def default_weights_def)
  from a_temporal_boost_is_not_explained [OF out ranks(3) this(3,1,2) e] out show ?thesis by auto
qed

end
