(* ===== verification/Surfacing.thy ===== *)
theory Surfacing
  imports Retrieval
begin

text \<open>
  Whether an assembled context is worth an interruption: \<^verbatim>\<open>domain/surfacing.py\<close>. \<open>sha256_hex\<close> is
  \<^verbatim>\<open>hashlib.sha256(text.encode()).hexdigest()\<close>.
\<close>

definition SINGLE_ROUTE_BEST :: pyfloat where
  "SINGLE_ROUTE_BEST = 1 / of_int (DEFAULT_RRF_K + 1)"

definition BASE_MULTIPLE :: pyfloat where "BASE_MULTIPLE = 18 / 10"
definition FLOOR_MULTIPLE :: pyfloat where "FLOOR_MULTIPLE = 1"
definition CEILING_MULTIPLE :: pyfloat where "CEILING_MULTIPLE = 4"
definition DISMISSAL_STEP :: pyfloat where "DISMISSAL_STEP = 6 / 10"
definition USEFUL_STEP :: pyfloat where "USEFUL_STEP = 2 / 10"
definition SIMILARITY :: pyfloat where "SIMILARITY = 6 / 10"
definition REPEAT_WINDOW :: time where "REPEAT_WINDOW = hours 4"
definition DISMISSAL_WINDOW :: time where "DISMISSAL_WINDOW = days 30"
definition IDENTITY_ITEMS :: nat where "IDENTITY_ITEMS = 5"

lemmas surfacing_constants = SINGLE_ROUTE_BEST_def BASE_MULTIPLE_def FLOOR_MULTIPLE_def
  CEILING_MULTIPLE_def DISMISSAL_STEP_def USEFUL_STEP_def

datatype surface_reason =
    CLEARED | NO_CONTEXT | NOTHING_NEW | BELOW_THRESHOLD | DISMISSED | ALREADY_SURFACED

record top_item =
  ti_key :: string
  ti_title :: string
  ti_score :: pyfloat
  ti_routes :: int

record prior_surfacing =
  ps_context_hash :: string
  ps_keys :: "string list"
  ps_surfaced_at :: time
  ps_dismissed_at :: "time option"
  ps_acted_on_at :: "time option"

record surface_decision =
  sd_surface :: bool
  sd_reason :: surface_reason
  sd_score :: pyfloat
  sd_threshold :: pyfloat
  sd_context_hash :: string
  sd_top :: "top_item option"

definition decision_margin :: "surface_decision \<Rightarrow> pyfloat" where
  "decision_margin d = sd_score d - sd_threshold d"

definition threshold_for :: "int \<Rightarrow> int \<Rightarrow> pyfloat" where
  "threshold_for dismissed acted_on =
     (let multiple = BASE_MULTIPLE + DISMISSAL_STEP * of_int dismissed - USEFUL_STEP * of_int acted_on;
          clamped = min CEILING_MULTIPLE (max FLOOR_MULTIPLE multiple)
      in clamped * SINGLE_ROUTE_BEST)"

definition context_hash :: "(string \<Rightarrow> string) \<Rightarrow> string list \<Rightarrow> string" where
  "context_hash sha256_hex keys =
     take 32 (sha256_hex (join [CHR 0x00] (sort (take IDENTITY_ITEMS keys))))"

definition overlap :: "string list \<Rightarrow> string list \<Rightarrow> pyfloat" where
  "overlap left right =
     (if set left = {} \<or> set right = {} then 0
      else of_nat (card (set left \<inter> set right)) / of_nat (card (set left \<union> set right)))"

definition names_the_focus :: "string option \<Rightarrow> string \<Rightarrow> bool" where
  "names_the_focus external_key focus \<longleftrightarrow>
     (case external_key of
        None \<Rightarrow> False
      | Some key \<Rightarrow>
          key \<noteq> [] \<and> focus \<noteq> [] \<and>
          (key = focus \<or> ends_with (''/'' @ focus) key \<or> ends_with (''/'' @ key) focus))"

text \<open>The loop over the similar prior surfacings; a dismissal ends it.\<close>

fun refusal_of ::
  "time \<Rightarrow> time \<Rightarrow> time \<Rightarrow> prior_surfacing list \<Rightarrow> surface_reason option \<Rightarrow> surface_reason option" where
  "refusal_of now repeat_window dismissal_window [] refusal = refusal"
| "refusal_of now repeat_window dismissal_window (prior # rest) refusal =
     (if (case ps_dismissed_at prior of None \<Rightarrow> False | Some d \<Rightarrow> now - d < dismissal_window)
      then Some DISMISSED
      else if now - ps_surfaced_at prior < repeat_window
      then refusal_of now repeat_window dismissal_window rest (Some ALREADY_SURFACED)
      else refusal_of now repeat_window dismissal_window rest refusal)"

definition decide ::
  "(string \<Rightarrow> string) \<Rightarrow> time \<Rightarrow> time \<Rightarrow> top_item option \<Rightarrow> string list \<Rightarrow> pyfloat \<Rightarrow>
   prior_surfacing list \<Rightarrow> time \<Rightarrow> surface_decision" where
  "decide sha256_hex repeat_window dismissal_window best keys threshold recent now =
     (let digest = context_hash sha256_hex keys
      in case best of
           None \<Rightarrow>
             \<lparr> sd_surface = False, sd_reason = (if keys \<noteq> [] then NOTHING_NEW else NO_CONTEXT),
               sd_score = 0, sd_threshold = threshold, sd_context_hash = digest, sd_top = None \<rparr>
         | Some t \<Rightarrow>
             if ti_score t \<le> threshold then
               \<lparr> sd_surface = False, sd_reason = BELOW_THRESHOLD, sd_score = ti_score t,
                 sd_threshold = threshold, sd_context_hash = digest, sd_top = Some t \<rparr>
             else
               let similar = filter (\<lambda>prior. SIMILARITY \<le> overlap keys (ps_keys prior)) recent
               in case refusal_of now repeat_window dismissal_window similar None of
                    Some why \<Rightarrow>
                      \<lparr> sd_surface = False, sd_reason = why, sd_score = ti_score t,
                        sd_threshold = threshold, sd_context_hash = digest, sd_top = Some t \<rparr>
                  | None \<Rightarrow>
                      \<lparr> sd_surface = True, sd_reason = CLEARED, sd_score = ti_score t,
                        sd_threshold = threshold, sd_context_hash = digest, sd_top = Some t \<rparr>)"

section \<open>The refusal loop\<close>

definition dismissed_within :: "time \<Rightarrow> time \<Rightarrow> prior_surfacing \<Rightarrow> bool" where
  "dismissed_within now window prior \<longleftrightarrow>
     (\<exists>d. ps_dismissed_at prior = Some d \<and> now - d < window)"

lemma refusal_of_eq:
  "refusal_of now rw dw ps r =
   (if \<exists>p \<in> set ps. dismissed_within now dw p then Some DISMISSED
    else if \<exists>p \<in> set ps. now - ps_surfaced_at p < rw then Some ALREADY_SURFACED else r)"
  by (induction now rw dw ps r rule: refusal_of.induct)
     (auto simp: dismissed_within_def split: option.splits)

section \<open>Properties\<close>

text \<open>Something is surfaced exactly when there is a top item over the bar and no similar context was
  dismissed within the dismissal window or shown within the repeat window; and a dismissal outranks a
  repetition as the reason, wherever in the history it stands.\<close>

theorem decide_spelled_out:
  "(sd_surface (decide h rw dw best keys threshold recent now) \<longleftrightarrow>
     (\<exists>t. best = Some t \<and> threshold < ti_score t) \<and>
     \<not> (\<exists>p \<in> set recent. SIMILARITY \<le> overlap keys (ps_keys p) \<and>
           (dismissed_within now dw p \<or> now - ps_surfaced_at p < rw))) \<and>
   (sd_reason (decide h rw dw best keys threshold recent now) = DISMISSED \<longleftrightarrow>
     (\<exists>t. best = Some t \<and> threshold < ti_score t) \<and>
     (\<exists>p \<in> set recent. SIMILARITY \<le> overlap keys (ps_keys p) \<and> dismissed_within now dw p))"
  by (cases best) (auto simp: decide_def Let_def refusal_of_eq)

text \<open>Feedback moves the bar one way each and never out of its range: a dismissal does not lower it, an
  acted-on suggestion does not raise it, and it stays between one and four times the best score a
  single route can give.\<close>

theorem threshold_is_clamped_and_monotone:
  assumes "dismissed \<le> dismissed'" and "acted_on' \<le> acted_on"
  shows "SINGLE_ROUTE_BEST \<le> threshold_for dismissed acted_on \<and>
         threshold_for dismissed acted_on \<le> threshold_for dismissed' acted_on' \<and>
         threshold_for dismissed' acted_on' \<le> 4 * SINGLE_ROUTE_BEST"
proof -
  have pos: "0 \<le> SINGLE_ROUTE_BEST" by (simp add: SINGLE_ROUTE_BEST_def DEFAULT_RRF_K_def)
  have "BASE_MULTIPLE + DISMISSAL_STEP * of_int dismissed - USEFUL_STEP * of_int acted_on \<le>
        BASE_MULTIPLE + DISMISSAL_STEP * of_int dismissed' - USEFUL_STEP * of_int acted_on'"
    using assms by (simp add: DISMISSAL_STEP_def USEFUL_STEP_def)
  then have "threshold_for dismissed acted_on \<le> threshold_for dismissed' acted_on'"
    unfolding threshold_for_def Let_def by (intro mult_right_mono min.mono max.mono pos) auto
  moreover have "1 * SINGLE_ROUTE_BEST \<le> threshold_for dismissed acted_on"
    unfolding threshold_for_def Let_def
    by (intro mult_right_mono pos) (simp add: CEILING_MULTIPLE_def FLOOR_MULTIPLE_def)
  moreover have "threshold_for dismissed' acted_on' \<le> 4 * SINGLE_ROUTE_BEST"
    unfolding threshold_for_def Let_def
    by (intro mult_right_mono pos) (simp add: CEILING_MULTIPLE_def)
  ultimately show ?thesis by simp
qed

text \<open>One route alone never interrupts: an item found by a single retriever, at whatever rank, does not
  clear the bar, whatever the feedback so far.\<close>

theorem one_route_never_surfaces:
  assumes "ti_score t = rank_term DEFAULT_RRF_K (ti_key t) (ranking, 1)"
  shows "\<not> sd_surface (decide h rw dw (Some t) keys (threshold_for dismissed acted_on) recent now)"
proof -
  have "rank_term DEFAULT_RRF_K (ti_key t) (ranking, 1) \<le> SINGLE_ROUTE_BEST"
    using rank_from_ge [of 1 "ti_key t" ranking]
    by (auto simp: rank_term_def rank_of_def SINGLE_ROUTE_BEST_def DEFAULT_RRF_K_def
        split: option.split intro!: divide_left_mono)
  moreover have "SINGLE_ROUTE_BEST \<le> threshold_for dismissed acted_on"
  proof -
    have "1 * SINGLE_ROUTE_BEST \<le> threshold_for dismissed acted_on"
      unfolding threshold_for_def Let_def
      by (intro mult_right_mono)
         (simp_all add: CEILING_MULTIPLE_def FLOOR_MULTIPLE_def SINGLE_ROUTE_BEST_def DEFAULT_RRF_K_def)
    then show ?thesis by simp
  qed
  ultimately show ?thesis using assms by (simp add: decide_def Let_def)
qed

section \<open>Witnesses\<close>

lemma threshold_witness: "threshold_for 1 3 \<le> threshold_for 2 0 \<and> SINGLE_ROUTE_BEST \<le> threshold_for 1 3"
  using threshold_is_clamped_and_monotone [of 1 2 0 3] by simp

lemma one_route_witness:
  "\<not> sd_surface (decide (\<lambda>s. s) REPEAT_WINDOW DISMISSAL_WINDOW
       (Some \<lparr> ti_key = ''a'', ti_title = ''A'', ti_score = 1 / 61, ti_routes = 1 \<rparr>) [''a''] (threshold_for 0 9) [] 0)"
  by (rule one_route_never_surfaces [where ranking = "[''a'']"])
     (simp add: rank_term_def rank_of_def DEFAULT_RRF_K_def)

lemma decide_witness:
  "sd_surface (decide (\<lambda>s. s) REPEAT_WINDOW DISMISSAL_WINDOW
       (Some \<lparr> ti_key = ''a'', ti_title = ''A'', ti_score = 1, ti_routes = 2 \<rparr>) [''a''] (1 / 2) [] 0)"
  using decide_spelled_out [of "\<lambda>s. s" REPEAT_WINDOW DISMISSAL_WINDOW
      "Some \<lparr> ti_key = ''a'', ti_title = ''A'', ti_score = 1, ti_routes = 2 \<rparr>" "[''a'']" "1 / 2" "[]" 0]
  by simp

end
