(* ===== verification/Selection.thy ===== *)
theory Selection
  imports Values
begin

text \<open>
  Context assembly: \<^verbatim>\<open>domain/context.py\<close>. Relevance, similarity and scores are exact reals, and
  \<^verbatim>\<open>math.sqrt\<close> is the real square root.
\<close>

section \<open>Data\<close>

datatype context_category = CAT_CODE | CAT_PROSE | CAT_DECISION | CAT_OTHER

definition CATEGORY_OF :: "(memory_kind \<times> context_category) list" where
  "CATEGORY_OF = [(CODE, CAT_CODE), (NOTE, CAT_PROSE), (DOCUMENT, CAT_PROSE), (EMAIL, CAT_PROSE),
     (MEETING, CAT_PROSE), (COMMIT, CAT_CODE)]"

definition category_of :: "memory_kind \<Rightarrow> context_category" where
  "category_of kind = dict_get CATEGORY_OF kind CAT_OTHER"

definition DEFAULT_CATEGORY_SHARE :: pyfloat where
  "DEFAULT_CATEGORY_SHARE = 1 / 2"

definition DEFAULT_LAMBDA :: pyfloat where
  "DEFAULT_LAMBDA = 1 / 2"

type_synonym vector = "pyfloat list"

definition dot :: "vector \<Rightarrow> vector \<Rightarrow> pyfloat" where
  "dot xs ys = sum_list (map (\<lambda>(a, b). a * b) (zip xs ys))"

definition cosine :: "vector \<Rightarrow> vector \<Rightarrow> pyfloat" where
  "cosine left right =
     (if left = [] \<or> right = [] \<or> length left \<noteq> length right then 0
      else let left_norm = sqrt (dot left left); right_norm = sqrt (dot right right)
           in if left_norm = 0 \<or> right_norm = 0 then 0
              else dot left right / (left_norm * right_norm))"

record candidate =
  cd_key :: string
  cd_category :: context_category
  cd_tokens :: int
  cd_relevance :: pyfloat
  cd_vector :: "vector option"

record chosen_item =
  cs_key :: string
  cs_position :: nat
  cs_relevance :: pyfloat
  cs_redundancy :: pyfloat
  cs_score :: pyfloat
  cs_tokens :: int

datatype rejection = OVER_BUDGET | CATEGORY_FULL | MAX_ITEMS | EMPTY_ITEM

record selection =
  sel_chosen :: "chosen_item list"
  sel_rejected :: "(string \<times> rejection) list"
  sel_tokens_used :: int

definition selection_keys :: "selection \<Rightarrow> string list" where
  "selection_keys s = map cs_key (sel_chosen s)"

section \<open>Maximal marginal relevance\<close>

definition relevance_normaliser :: "candidate list \<Rightarrow> pyfloat \<Rightarrow> pyfloat" where
  "relevance_normaliser candidates value =
     (let scores = map cd_relevance candidates
      in if scores = [] then 0
         else let low = foldr min (tl scores) (hd scores); high = foldr max (tl scores) (hd scores)
              in if high \<le> low then 1 else (value - low) / (high - low))"

definition redundancy_of :: "candidate \<Rightarrow> vector list \<Rightarrow> pyfloat" where
  "redundancy_of c chosen =
     (case cd_vector c of
        None \<Rightarrow> 0
      | Some v \<Rightarrow>
          (case chosen of
             [] \<Rightarrow> 0
           | o1 # os \<Rightarrow> foldr (\<lambda>x. max (cosine v x)) os (cosine v o1)))"

definition mmr_score :: "pyfloat \<Rightarrow> (pyfloat \<Rightarrow> pyfloat) \<Rightarrow> vector list \<Rightarrow> candidate \<Rightarrow> pyfloat" where
  "mmr_score lambda normalise vectors c =
     lambda * normalise (cd_relevance c) - (1 - lambda) * redundancy_of c vectors"

lemma first_max_member: "first_max f c cs \<in> set (c # cs)"
  using first_max_in [of f c cs] by simp

lemma remove_first_max_less:
  "length (remove1 (first_max f c cs) (c # cs)) < Suc (length cs)"
  using length_remove1_less [OF first_max_member, of f c cs] by simp

lemma length_remove_first_max: "length (remove1 (first_max f c cs) (c # cs)) = length cs"
  using first_max_member [of f c cs] by (simp only: length_remove1 if_True list.size)

text \<open>The loop: the first candidate of the highest score wins, and the first equal one is removed.\<close>

function mmr_loop ::
  "pyfloat \<Rightarrow> (pyfloat \<Rightarrow> pyfloat) \<Rightarrow> nat option \<Rightarrow> candidate list \<Rightarrow> vector list \<Rightarrow> nat \<Rightarrow> chosen_item list"
where
  "mmr_loop lambda normalise limit remaining vectors n =
     (case remaining of
        [] \<Rightarrow> []
      | c # cs \<Rightarrow>
          if (case limit of None \<Rightarrow> False | Some l \<Rightarrow> l \<le> n) then []
          else
            let winner = first_max (mmr_score lambda normalise vectors) c cs
            in \<lparr> cs_key = cd_key winner, cs_position = Suc n, cs_relevance = cd_relevance winner,
                 cs_redundancy = redundancy_of winner vectors,
                 cs_score = mmr_score lambda normalise vectors winner,
                 cs_tokens = cd_tokens winner \<rparr> #
               mmr_loop lambda normalise limit (remove1 winner remaining)
                 (case cd_vector winner of None \<Rightarrow> vectors | Some v \<Rightarrow> vectors @ [v]) (Suc n))"
  by pat_completeness auto

termination
  by (relation "measure (\<lambda>(_, _, _, remaining, _, _). length remaining)")
     (auto simp: remove_first_max_less simp del: remove1.simps)

declare mmr_loop.simps [simp del]

definition maximal_marginal_relevance ::
  "candidate list \<Rightarrow> pyfloat \<Rightarrow> nat option \<Rightarrow> chosen_item list result" where
  "maximal_marginal_relevance candidates lambda limit =
     (if \<not> (0 \<le> lambda \<and> lambda \<le> 1) then Inl ValueError
      else Inr (mmr_loop lambda (relevance_normaliser candidates) limit candidates [] 0))"

section \<open>Selection under budget and caps\<close>

record select_state =
  ss_chosen :: "chosen_item list"
  ss_rejected :: "(string \<times> rejection) list"
  ss_used :: int
  ss_per_category :: "(context_category \<times> nat) list"

definition select_step ::
  "int \<Rightarrow> int \<Rightarrow> int \<Rightarrow> (string \<Rightarrow> candidate option) \<Rightarrow> chosen_item \<Rightarrow> select_state \<Rightarrow> select_state" where
  "select_step token_budget max_items cap by_key item st =
     (let category = cd_category (the (by_key (cs_key item)));
          reject = (\<lambda>why. st\<lparr> ss_rejected := ss_rejected st @ [(cs_key item, why)] \<rparr>)
      in if cs_tokens item \<le> 0 then reject EMPTY_ITEM
         else if max_items \<le> int (length (ss_chosen st)) then reject MAX_ITEMS
         else if cap \<le> int (dict_get (ss_per_category st) category 0) then reject CATEGORY_FULL
         else if token_budget < ss_used st + cs_tokens item then reject OVER_BUDGET
         else st\<lparr> ss_used := ss_used st + cs_tokens item,
                  ss_per_category := AList.update category
                    (Suc (dict_get (ss_per_category st) category 0)) (ss_per_category st),
                  ss_chosen := ss_chosen st @ [item\<lparr> cs_position := Suc (length (ss_chosen st)) \<rparr>] \<rparr>)"

definition category_cap :: "int \<Rightarrow> pyfloat \<Rightarrow> int" where
  "category_cap max_items category_share = max 1 (int_of_float (of_int max_items * category_share))"

definition by_key :: "candidate list \<Rightarrow> string \<Rightarrow> candidate option" where
  "by_key candidates = map_of (rev (map (\<lambda>c. (cd_key c, c)) candidates))"

definition select_items ::
  "candidate list \<Rightarrow> int \<Rightarrow> int \<Rightarrow> pyfloat \<Rightarrow> pyfloat \<Rightarrow> selection result" where
  "select_items candidates token_budget max_items lambda category_share =
     (if token_budget \<le> 0 then Inl ValueError
      else if max_items \<le> 0 then Inl ValueError
      else
        case maximal_marginal_relevance candidates lambda None of
          Inl e \<Rightarrow> Inl e
        | Inr ordered \<Rightarrow>
            let st = fold (select_step token_budget max_items (category_cap max_items category_share)
                            (by_key candidates)) ordered
                      \<lparr> ss_chosen = [], ss_rejected = [], ss_used = 0, ss_per_category = [] \<rparr>
            in Inr \<lparr> sel_chosen = ss_chosen st, sel_rejected = ss_rejected st,
                     sel_tokens_used = ss_used st \<rparr>)"

section \<open>The ranking\<close>

lemma mmr_loop_Nil [simp]: "mmr_loop l f limit [] vs n = []"
  by (simp add: mmr_loop.simps)

lemma mmr_loop_Cons:
  assumes "limit = None \<or> (\<exists>m. limit = Some m \<and> n < m)"
  shows "mmr_loop l f limit (c # cs) vs n =
    (let w = first_max (mmr_score l f vs) c cs
     in \<lparr> cs_key = cd_key w, cs_position = Suc n, cs_relevance = cd_relevance w,
          cs_redundancy = redundancy_of w vs, cs_score = mmr_score l f vs w, cs_tokens = cd_tokens w \<rparr> #
        mmr_loop l f limit (remove1 w (c # cs))
          (case cd_vector w of None \<Rightarrow> vs | Some v \<Rightarrow> vs @ [v]) (Suc n))"
  using assms by (subst mmr_loop.simps) (auto split: option.split simp: Let_def)

definition summary :: "candidate \<Rightarrow> string \<times> pyfloat \<times> int" where
  "summary c = (cd_key c, cd_relevance c, cd_tokens c)"

definition chosen_summary :: "chosen_item \<Rightarrow> string \<times> pyfloat \<times> int" where
  "chosen_summary c = (cs_key c, cs_relevance c, cs_tokens c)"

lemma mmr_loop_permutes:
  "mset (map chosen_summary (mmr_loop l f None cs vs n)) = mset (map summary cs)"
proof (induction "length cs" arbitrary: cs vs n)
  case (Suc k)
  then obtain c cs' where cs: "cs = c # cs'" by (cases cs) auto
  let ?w = "first_max (mmr_score l f vs) c cs'"
  have mem: "?w \<in> set (c # cs')" by (rule first_max_member)
  have len: "length (remove1 ?w (c # cs')) = k"
    using Suc(2) by (simp only: length_remove_first_max cs) simp
  have "mset (map chosen_summary (mmr_loop l f None cs vs n)) =
        add_mset (summary ?w) (mset (map summary (remove1 ?w (c # cs'))))"
    using Suc(1) [OF len [symmetric]]
    by (simp add: cs mmr_loop_Cons Let_def summary_def chosen_summary_def del: remove1.simps)
  also have "\<dots> = image_mset summary (add_mset ?w (mset (remove1 ?w (c # cs'))))" by simp
  also have "add_mset ?w (mset (remove1 ?w (c # cs'))) = mset (c # cs')"
    by (rule mset_remove1_Cons [OF mem])
  finally show ?case by (simp add: cs)
qed simp

lemmas mmr_permutes = mmr_loop_permutes [unfolded mset_map]

lemma mmr_loop_positions:
  "map cs_position (mmr_loop l f limit cs vs n) =
   map (\<lambda>i. n + Suc i) [0..<length (mmr_loop l f limit cs vs n)]"
proof (induction "length cs" arbitrary: cs vs n)
  case (Suc k)
  then obtain c cs' where cs: "cs = c # cs'" by (cases cs) auto
  let ?w = "first_max (mmr_score l f vs) c cs'"
  have len: "k = length (remove1 ?w (c # cs'))"
    using Suc(2) by (simp only: length_remove_first_max cs) simp
  show ?case
  proof (cases "limit = None \<or> (\<exists>m. limit = Some m \<and> n < m)")
    case True
    then show ?thesis
      using Suc(1) [OF len]
      by (simp add: cs mmr_loop_Cons Let_def map_upt_Suc del: upt_Suc remove1.simps)
  next
    case False
    then have "mmr_loop l f limit cs vs n = []"
      by (subst mmr_loop.simps) (auto simp: cs split: option.split)
    then show ?thesis by simp
  qed
qed simp

lemma mmr_loop_length:
  "limit = Some m \<Longrightarrow> length (mmr_loop l f limit cs vs n) \<le> m - n"
proof (induction "length cs" arbitrary: cs vs n)
  case (Suc k)
  then obtain c cs' where cs: "cs = c # cs'" by (cases cs) auto
  let ?w = "first_max (mmr_score l f vs) c cs'"
  have len: "k = length (remove1 ?w (c # cs'))"
    using Suc(2) by (simp only: length_remove_first_max cs) simp
  show ?case
  proof (cases "n < m")
    case True
    then show ?thesis
      using Suc(1) [OF len Suc(3), of "case cd_vector ?w of None \<Rightarrow> vs | Some v \<Rightarrow> vs @ [v]" "Suc n"] Suc(3)
      by (simp add: cs mmr_loop_Cons Let_def del: remove1.simps)
  next
    case False
    then show ?thesis using Suc(3) by (subst mmr_loop.simps) (simp add: cs)
  qed
qed simp

section \<open>Similarity\<close>

lemma dot_simps [simp]: "dot [] ys = 0" "dot (x # xs) (y # ys) = x * y + dot xs ys"
  by (simp_all add: dot_def)

lemma dot_self_nonneg: "0 \<le> dot xs xs"
  by (induction xs) auto

text \<open>Cauchy and Schwarz for lists of the same length.\<close>

lemma dot_quadratic:
  "length xs = length ys \<Longrightarrow>
   0 \<le> t * t * dot xs xs - 2 * t * dot xs ys + dot ys ys"
proof (induction xs ys rule: list_induct2)
  case (Cons x xs y ys)
  have "0 \<le> (t * x - y) * (t * x - y)" by simp
  with Cons.IH show ?case by (simp add: algebra_simps)
qed simp

lemma dot_bound:
  assumes "length xs = length ys"
  shows "dot xs ys * dot xs ys \<le> dot xs xs * dot ys ys"
proof (cases "dot xs xs = 0")
  case True
  have "dot xs ys = 0"
  proof (rule ccontr)
    assume ne: "dot xs ys \<noteq> 0"
    define t where "t = (dot ys ys + 1) / (2 * dot xs ys)"
    have "2 * t * dot xs ys = dot ys ys + 1" using ne by (simp add: t_def)
    moreover have "0 \<le> t * t * dot xs xs - 2 * t * dot xs ys + dot ys ys"
      by (rule dot_quadratic [OF assms])
    ultimately show False using True by simp
  qed
  then show ?thesis by (simp add: True)
next
  case False
  then have pos: "0 < dot xs xs" using dot_self_nonneg [of xs] by linarith
  have "0 \<le> dot xs xs * ((dot xs ys / dot xs xs) * (dot xs ys / dot xs xs) * dot xs xs
      - 2 * (dot xs ys / dot xs xs) * dot xs ys + dot ys ys)"
    using pos dot_quadratic [OF assms, of "dot xs ys / dot xs xs"] by (intro mult_nonneg_nonneg) auto
  also have "\<dots> = dot xs xs * dot ys ys - dot xs ys * dot xs ys"
    using pos by (simp add: field_simps)
  finally show ?thesis by simp
qed

text \<open>A cosine is a similarity: it lies between -1 and 1 for any two vectors, empty, zero and mismatched
  ones included, and is symmetric.\<close>

theorem cosine_is_bounded:
  "\<bar>cosine left right\<bar> \<le> 1 \<and> cosine left right = cosine right left"
proof
  show "\<bar>cosine left right\<bar> \<le> 1"
  proof (cases "left = [] \<or> right = [] \<or> length left \<noteq> length right
      \<or> sqrt (dot left left) = 0 \<or> sqrt (dot right right) = 0")
    case True
    then show ?thesis by (auto simp: cosine_def Let_def)
  next
    case False
    then have pos: "0 < sqrt (dot left left)" "0 < sqrt (dot right right)"
      using dot_self_nonneg [of left] dot_self_nonneg [of right] by auto
    have "(dot left right)\<^sup>2 \<le> dot left left * dot right right"
      using dot_bound [of left right] False by (simp add: power2_eq_square)
    then have "\<bar>dot left right\<bar> \<le> sqrt (dot left left * dot right right)"
      by (metis real_sqrt_abs real_sqrt_le_mono)
    with pos False show ?thesis
      by (simp add: cosine_def Let_def abs_mult real_sqrt_mult divide_le_eq)
  qed
  have "dot left right = dot right left"
    by (induction left right rule: list_induct2') (auto simp: dot_def)
  then show "cosine left right = cosine right left"
    by (auto simp: cosine_def Let_def mult.commute)
qed

section \<open>The budget and the caps\<close>

definition category_count :: "(string \<Rightarrow> candidate option) \<Rightarrow> context_category \<Rightarrow> chosen_item list \<Rightarrow> nat" where
  "category_count by cat items =
     length (filter (\<lambda>i. cd_category (the (by (cs_key i))) = cat) items)"

definition select_inv ::
  "int \<Rightarrow> int \<Rightarrow> int \<Rightarrow> (string \<Rightarrow> candidate option) \<Rightarrow> chosen_item list \<Rightarrow> select_state \<Rightarrow> bool" where
  "select_inv budget items cap by seen st \<longleftrightarrow>
     ss_used st = sum_list (map cs_tokens (ss_chosen st)) \<and> 0 \<le> ss_used st \<and> ss_used st \<le> budget \<and>
     int (length (ss_chosen st)) \<le> items \<and>
     (\<forall>cat. int (category_count by cat (ss_chosen st)) \<le> cap \<and>
            dict_get (ss_per_category st) cat 0 = category_count by cat (ss_chosen st)) \<and>
     (\<forall>i \<in> set (ss_chosen st). 0 < cs_tokens i) \<and>
     map cs_position (ss_chosen st) = map Suc [0..<length (ss_chosen st)] \<and>
     mset (map cs_key (ss_chosen st)) + mset (map fst (ss_rejected st)) = mset (map cs_key seen)"

lemma category_count_snoc:
  "category_count by cat (xs @ [x]) =
   category_count by cat xs + (if cd_category (the (by (cs_key x))) = cat then 1 else 0)"
  by (simp add: category_count_def)

lemma select_step_inv:
  assumes "select_inv budget items cap by seen st"
  shows "select_inv budget items cap by (seen @ [i]) (select_step budget items cap by i st)"
proof -
  have count: "category_count by cat (xs @ [i\<lparr> cs_position := p \<rparr>]) =
      category_count by cat xs + (if cd_category (the (by (cs_key i))) = cat then 1 else 0)" for cat xs p
    by (simp add: category_count_snoc)
  show ?thesis
    using assms
    by (simp add: select_inv_def select_step_def Let_def count dict_get_update)
qed

lemma select_fold_inv:
  "select_inv budget items cap by seen st \<Longrightarrow>
   select_inv budget items cap by (seen @ xs) (fold (select_step budget items cap by) xs st)"
proof (induction xs arbitrary: seen st)
  case (Cons x xs)
  from Cons.IH [OF select_step_inv [OF Cons.prems, of x]] show ?case by simp
qed simp

lemma select_items_Inr:
  assumes "select_items cs budget items l share = Inr sel"
  obtains ordered st where "maximal_marginal_relevance cs l None = Inr ordered"
    and "0 < budget" and "0 < items"
    and "select_inv budget items (category_cap items share) (by_key cs) ordered st"
    and "sel = \<lparr> sel_chosen = ss_chosen st, sel_rejected = ss_rejected st, sel_tokens_used = ss_used st \<rparr>"
proof -
  from assms have pos: "0 < budget" "0 < items" by (auto simp: select_items_def split: if_splits)
  then obtain ordered where ordered: "maximal_marginal_relevance cs l None = Inr ordered"
    using assms by (auto simp: select_items_def split: sum.splits)
  let ?st0 = "\<lparr> ss_chosen = [], ss_rejected = [], ss_used = 0, ss_per_category = [] \<rparr>"
  let ?cap = "category_cap items share"
  have "1 \<le> ?cap" by (simp add: category_cap_def)
  then have "select_inv budget items ?cap (by_key cs) [] ?st0"
    using pos by (simp add: select_inv_def category_count_def dict_get_def)
  from select_fold_inv [OF this, of ordered] show thesis
    using assms pos ordered by (intro that) (auto simp: select_items_def Let_def)
qed

section \<open>Properties\<close>

text \<open>The ranking loses nothing and invents nothing: without a limit it is a reordering of the candidates,
  with a limit it is at most that long, and its positions count from 1.\<close>

theorem mmr_is_a_reordering:
  assumes "maximal_marginal_relevance candidates lambda limit = Inr ranked"
  shows "(limit = None \<longrightarrow> mset (map chosen_summary ranked) = mset (map summary candidates)) \<and>
         (\<forall>m. limit = Some m \<longrightarrow> length ranked \<le> m) \<and>
         map cs_position ranked = map Suc [0..<length ranked]"
proof -
  from assms have ranked: "ranked = mmr_loop lambda (relevance_normaliser candidates) limit candidates [] 0"
    by (auto simp: maximal_marginal_relevance_def split: if_splits)
  show ?thesis
    using mmr_loop_positions [of lambda "relevance_normaliser candidates" limit candidates "[]" 0]
      mmr_loop_length [of limit _ lambda "relevance_normaliser candidates" candidates "[]" 0]
    by (auto simp: ranked mmr_permutes)
qed

text \<open>A selection keeps to its budget and caps and explains itself: at most the requested number of items,
  their tokens summing to the reported total within the budget, no category over its share, and every
  candidate either chosen or rejected with a reason, exactly once.\<close>

theorem selection_respects_budget_and_caps:
  assumes "select_items candidates token_budget max_items lambda category_share = Inr sel"
  shows "int (length (sel_chosen sel)) \<le> max_items \<and>
         sel_tokens_used sel = sum_list (map cs_tokens (sel_chosen sel)) \<and>
         sel_tokens_used sel \<le> token_budget \<and>
         (\<forall>cat. int (category_count (by_key candidates) cat (sel_chosen sel)) \<le>
                category_cap max_items category_share) \<and>
         mset (selection_keys sel) + mset (map fst (sel_rejected sel)) = mset (map cd_key candidates)"
proof -
  obtain ordered st where mmr: "maximal_marginal_relevance candidates lambda None = Inr ordered"
    and inv: "select_inv token_budget max_items (category_cap max_items category_share) (by_key candidates) ordered st"
    and sel: "sel = \<lparr> sel_chosen = ss_chosen st, sel_rejected = ss_rejected st, sel_tokens_used = ss_used st \<rparr>"
    by (rule select_items_Inr [OF assms])
  have "mset (map cs_key ordered) = image_mset fst (mset (map chosen_summary ordered))"
    by (simp add: chosen_summary_def image_mset.compositionality comp_def)
  also have "\<dots> = image_mset fst (mset (map summary candidates))"
    using mmr by (auto simp: maximal_marginal_relevance_def mmr_permutes split: if_splits)
  also have "\<dots> = mset (map cd_key candidates)"
    by (simp add: summary_def image_mset.compositionality comp_def)
  finally show ?thesis using inv by (simp add: select_inv_def sel selection_keys_def)
qed

text \<open>The first pick is the most relevant candidate whenever relevance has any weight.\<close>

theorem first_pick_is_most_relevant:
  assumes "maximal_marginal_relevance candidates lambda limit = Inr (first # rest)" and "0 < lambda"
    and "c \<in> set candidates"
  shows "cd_relevance c \<le> cs_relevance first"
proof -
  let ?f = "relevance_normaliser candidates"
  obtain c0 cs where cs: "candidates = c0 # cs" using assms(3) by (cases candidates) auto
  let ?w = "first_max (mmr_score lambda ?f []) c0 cs"
  have "mmr_loop lambda ?f limit candidates [] 0 = first # rest"
    using assms(1) by (auto simp: maximal_marginal_relevance_def split: if_splits)
  then have first: "cs_relevance first = cd_relevance ?w"
    by (subst (asm) mmr_loop.simps) (auto simp: cs Let_def split: if_splits)
  have "redundancy_of x [] = 0" for x by (simp add: redundancy_of_def split: option.split)
  moreover have "mmr_score lambda ?f [] c \<le> mmr_score lambda ?f [] ?w"
    using first_max_ge [of c c0 cs "mmr_score lambda ?f []"] assms(3) by (simp add: cs)
  ultimately have le: "?f (cd_relevance c) \<le> ?f (cd_relevance ?w)"
    using assms(2) by (simp add: mmr_score_def)
  have hi: "x \<in> set candidates \<Longrightarrow> cd_relevance x \<le> foldr max (map cd_relevance cs) (cd_relevance c0)" for x
    unfolding cs by (induction cs) (auto simp: le_max_iff_disj)
  have lo: "x \<in> set candidates \<Longrightarrow> foldr min (map cd_relevance cs) (cd_relevance c0) \<le> cd_relevance x" for x
    unfolding cs by (induction cs) (auto simp: min_le_iff_disj)
  have w: "?w \<in> set candidates" unfolding cs by (rule first_max_member)
  show ?thesis
  proof (cases "foldr max (map cd_relevance cs) (cd_relevance c0) \<le> foldr min (map cd_relevance cs) (cd_relevance c0)")
    case True
    with hi [OF assms(3)] lo [OF w] show ?thesis by (simp add: first)
  next
    case False
    with le show ?thesis
      by (simp add: first relevance_normaliser_def cs Let_def divide_le_cancel)
  qed
qed

section \<open>Witnesses\<close>

definition sample_candidates :: "candidate list" where
  "sample_candidates =
     [\<lparr> cd_key = ''a'', cd_category = CAT_CODE, cd_tokens = 5, cd_relevance = 1, cd_vector = None \<rparr>,
      \<lparr> cd_key = ''b'', cd_category = CAT_CODE, cd_tokens = 5, cd_relevance = 2, cd_vector = None \<rparr>]"

lemma sample_ranks:
  obtains ranked where "maximal_marginal_relevance sample_candidates (1 / 2) None = Inr ranked"
  using that by (simp add: maximal_marginal_relevance_def)

lemma mmr_witness:
  "\<exists>ranked. maximal_marginal_relevance sample_candidates (1 / 2) None = Inr ranked \<and>
     mset (map chosen_summary ranked) = mset (map summary sample_candidates)"
proof -
  obtain ranked where run: "maximal_marginal_relevance sample_candidates (1 / 2) None = Inr ranked"
    by (rule sample_ranks)
  from mmr_is_a_reordering [OF this] run show ?thesis by blast
qed

lemma selection_witness:
  "\<exists>sel. select_items sample_candidates 5 2 (1 / 2) (1 / 2) = Inr sel \<and> sel_tokens_used sel \<le> 5 \<and>
     length (sel_chosen sel) + length (sel_rejected sel) = 2"
proof -
  obtain ranked where "maximal_marginal_relevance sample_candidates (1 / 2) None = Inr ranked"
    by (rule sample_ranks)
  then obtain sel where run: "select_items sample_candidates 5 2 (1 / 2) (1 / 2) = Inr sel"
    by (simp add: select_items_def Let_def)
  note sel = selection_respects_budget_and_caps [OF this]
  then have "size (mset (selection_keys sel) + mset (map fst (sel_rejected sel))) =
      size (mset (map cd_key sample_candidates))" by simp
  then have "length (sel_chosen sel) + length (sel_rejected sel) = 2"
    by (simp add: selection_keys_def sample_candidates_def)
  with sel run show ?thesis by blast
qed

lemma first_pick_witness:
  "\<exists>first rest. maximal_marginal_relevance sample_candidates (1 / 2) None = Inr (first # rest) \<and>
     2 \<le> cs_relevance first"
proof -
  obtain ranked where run: "maximal_marginal_relevance sample_candidates (1 / 2) None = Inr ranked"
    by (rule sample_ranks)
  from run have "mset (map chosen_summary ranked) = mset (map summary sample_candidates)"
    by (auto simp: maximal_marginal_relevance_def mmr_permutes)
  then have "size (mset (map chosen_summary ranked)) = 2" by (simp add: sample_candidates_def)
  then obtain first rest where ranked: "ranked = first # rest" by (cases ranked) auto
  let ?b = "\<lparr> cd_key = ''b'', cd_category = CAT_CODE, cd_tokens = 5, cd_relevance = 2, cd_vector = None \<rparr>"
  have "cd_relevance ?b \<le> cs_relevance first"
    by (rule first_pick_is_most_relevant [OF run [unfolded ranked]]) (simp_all add: sample_candidates_def)
  with run ranked show ?thesis by auto
qed

end
