(* ===== verification/Evidence.thy ===== *)
theory Evidence
  imports Values
begin

text \<open>
  How much a count of past instances is allowed to say: \<^verbatim>\<open>domain/patterns.py\<close>, \<^verbatim>\<open>domain/missing.py\<close> and
  \<^verbatim>\<open>domain/user_model.py\<close>. Counts are the integers the functions take. The search for the support a
  reflection needs is a loop without a bound, a \<^verbatim>\<open>partial_function\<close>: its value is \<open>None\<close> where it does not
  return, and that it returns is a theorem. The sentences of verdicts are datatype cases here.
\<close>

section \<open>Calibration\<close>

definition Z :: pyfloat where
  "Z = 1959963984540054 / 1000000000000000"

record interval =
  iv_observed :: pyfloat
  iv_low :: pyfloat
  iv_high :: pyfloat
  iv_n :: int

definition contains_value :: "interval \<Rightarrow> pyfloat \<Rightarrow> bool" where
  "contains_value i v \<longleftrightarrow> iv_low i \<le> v \<and> v \<le> iv_high i"

definition wilson_interval :: "int \<Rightarrow> int \<Rightarrow> interval result" where
  "wilson_interval successes n =
     (if n \<le> 0 then Inr \<lparr> iv_observed = 0, iv_low = 0, iv_high = 1, iv_n = 0 \<rparr>
      else
        let observed = of_int successes / of_int n;
            z_squared = Z * Z;
            denominator = 1 + z_squared / of_int n;
            centre = (observed + z_squared / (2 * of_int n)) / denominator;
            radicand = observed * (1 - observed) / of_int n + z_squared / (4 * of_int n * of_int n);
            margin = (Z / denominator) * sqrt radicand
        in if radicand < 0 then Inl ValueError
           else Inr \<lparr> iv_observed = observed, iv_low = max 0 (centre - margin),
                      iv_high = min 1 (centre + margin), iv_n = n \<rparr>)"

definition is_miscalibrated :: "pyfloat \<Rightarrow> int \<Rightarrow> int \<Rightarrow> bool result" where
  "is_miscalibrated stated successes n =
     (case wilson_interval successes n of
        Inl e \<Rightarrow> Inl e | Inr i \<Rightarrow> Inr (\<not> contains_value i stated))"

definition FORESIGHT_WINDOW :: time where
  "FORESIGHT_WINDOW = days 1"

definition classify_confidence ::
  "pyfloat option \<Rightarrow> time \<Rightarrow> time_provenance \<Rightarrow> time \<Rightarrow> bool \<Rightarrow> time \<Rightarrow> confidence_horizon" where
  "classify_confidence confidence decided_at decided_at_source recorded_at outcome_already_observed window =
     (if confidence = None then HORIZON_UNKNOWN
      else if outcome_already_observed then HINDSIGHT
      else if decided_at_source \<noteq> TP_DECLARED then HINDSIGHT
      else if window < recorded_at - decided_at then HINDSIGHT
      else FORESIGHT)"

section \<open>Patterns\<close>

definition DEFAULT_MIN_SUPPORT :: int where
  "DEFAULT_MIN_SUPPORT = 3"

definition MAX_CONFIDENCE :: pyfloat where
  "MAX_CONFIDENCE = 95 / 100"

definition pattern_confidence :: "int \<Rightarrow> int \<Rightarrow> int \<Rightarrow> pyfloat result" where
  "pattern_confidence min_support supporting contradicting =
     (if supporting \<le> 0 then Inr 0
      else if supporting + contradicting = 0 then Inl ZeroDivisionError
      else if min_support = 0 then Inl ZeroDivisionError
      else
        let agreement = of_int supporting / of_int (supporting + contradicting);
            sufficiency = min 1 (of_int supporting / of_int (2 * min_support))
        in Inr (min MAX_CONFIDENCE (agreement * sufficiency)))"

definition REFLECTION_MIN_CONFIDENCE :: pyfloat where
  "REFLECTION_MIN_CONFIDENCE =
     (case pattern_confidence DEFAULT_MIN_SUPPORT (DEFAULT_MIN_SUPPORT + 1) 0 of
        Inl _ \<Rightarrow> 0 | Inr c \<Rightarrow> c)"

definition clears_reflection_bar :: "pyfloat option \<Rightarrow> pyfloat \<Rightarrow> bool" where
  "clears_reflection_bar confidence threshold \<longleftrightarrow>
     (case confidence of None \<Rightarrow> False | Some c \<Rightarrow> threshold \<le> c)"

partial_function (option) support_loop ::
  "int \<Rightarrow> int \<Rightarrow> pyfloat \<Rightarrow> int \<Rightarrow> int result option" where
  "support_loop min_support contradicting threshold needed =
     (case pattern_confidence min_support needed contradicting of
        Inl e \<Rightarrow> Some (Inl e)
      | Inr c \<Rightarrow>
          if c < threshold then support_loop min_support contradicting threshold (needed + 1)
          else Some (Inr needed))"

definition support_needed_for_reflection ::
  "int \<Rightarrow> pyfloat \<Rightarrow> int \<Rightarrow> int \<Rightarrow> int result option" where
  "support_needed_for_reflection min_support threshold supporting contradicting =
     (if MAX_CONFIDENCE < threshold then Some (Inl ValueError)
      else case support_loop min_support contradicting threshold (max supporting min_support) of
             None \<Rightarrow> None
           | Some (Inl e) \<Rightarrow> Some (Inl e)
           | Some (Inr needed) \<Rightarrow> Some (Inr (needed - supporting)))"

definition is_emittable :: "int \<Rightarrow> int \<Rightarrow> int \<Rightarrow> bool" where
  "is_emittable min_support supporting contradicting \<longleftrightarrow>
     min_support \<le> supporting \<and> contradicting < supporting"

section \<open>Gaps\<close>

definition GAP_MIN_SUPPORT :: int where
  "GAP_MIN_SUPPORT = 2"

definition gap_confidence :: "int \<Rightarrow> int \<Rightarrow> pyfloat result" where
  "gap_confidence supporting contradicting = pattern_confidence GAP_MIN_SUPPORT supporting contradicting"

definition GAP_MIN_CONFIDENCE :: pyfloat where
  "GAP_MIN_CONFIDENCE =
     (case pattern_confidence GAP_MIN_SUPPORT GAP_MIN_SUPPORT 0 of Inl _ \<Rightarrow> 0 | Inr c \<Rightarrow> c)"

datatype gap_kind =
    UNSTATED_ASSUMPTION | REPEATED_PATTERN | ORPHANED_WORK | UNEVALUATED_ASSUMPTION

definition worth_saying :: "int \<Rightarrow> int \<Rightarrow> bool result" where
  "worth_saying supporting contradicting =
     (if \<not> (GAP_MIN_SUPPORT \<le> supporting) then Inr False
      else if \<not> (contradicting < supporting) then Inr False
      else case gap_confidence supporting contradicting of
             Inl e \<Rightarrow> Inl e | Inr c \<Rightarrow> Inr (GAP_MIN_CONFIDENCE \<le> c))"

section \<open>The user model\<close>

definition DERIVABLE :: "dimension set" where
  "DERIVABLE = {DECISION_PATTERNS, STRENGTHS, WEAKNESSES, HABITS, WORKFLOWS}"

definition UNDERIVABLE :: "dimension set" where
  "UNDERIVABLE = {GOALS, LEARNING_STYLE}"

definition facet_confidence :: "int \<Rightarrow> int \<Rightarrow> pyfloat result" where
  "facet_confidence supporting contradicting =
     pattern_confidence DEFAULT_MIN_SUPPORT supporting contradicting"

definition clears_bar :: "int \<Rightarrow> int \<Rightarrow> bool" where
  "clears_bar supporting contradicting \<longleftrightarrow>
     DEFAULT_MIN_SUPPORT \<le> supporting \<and> contradicting < supporting"

definition MIN_CLOSED_FOR_VERDICT :: int where
  "MIN_CLOSED_FOR_VERDICT = 3"

definition MIN_OBSERVATION_DAYS :: pyfloat where
  "MIN_OBSERVATION_DAYS = 30"

definition NOISE_LIFETIME_DAYS :: pyfloat where
  "NOISE_LIFETIME_DAYS = 7"

record stability =
  st_dimension :: dimension
  st_total :: int
  st_live :: int
  st_closed :: int
  st_changes :: int
  st_mean_lifetime_days :: "pyfloat option"
  st_mean_live_age_days :: "pyfloat option"
  st_observed_days :: pyfloat

definition changes_per_facet :: "stability \<Rightarrow> pyfloat option" where
  "changes_per_facet s =
     (if st_total s \<noteq> 0 then Some (of_int (st_changes s) / of_int (st_total s)) else None)"

definition has_verdict :: "stability \<Rightarrow> bool" where
  "has_verdict s \<longleftrightarrow> MIN_CLOSED_FOR_VERDICT \<le> st_closed s \<and> MIN_OBSERVATION_DAYS \<le> st_observed_days s"

datatype stability_verdict =
    NO_FACETS | TOO_LITTLE_HISTORY | TOO_FEW_CLOSED | FITTING_NOISE pyfloat | STABLE pyfloat

definition verdict :: "stability \<Rightarrow> stability_verdict result" where
  "verdict s =
     (if st_total s = 0 then Inr NO_FACETS
      else if st_observed_days s < MIN_OBSERVATION_DAYS then Inr TOO_LITTLE_HISTORY
      else if st_closed s < MIN_CLOSED_FOR_VERDICT then Inr TOO_FEW_CLOSED
      else case st_mean_lifetime_days s of
             None \<Rightarrow> Inl AssertionError
           | Some d \<Rightarrow> Inr (if d < NOISE_LIFETIME_DAYS then FITTING_NOISE d else STABLE d))"

definition stopped_learning :: "stability list \<Rightarrow> bool result" where
  "stopped_learning entries =
     (if sum_list (map st_total entries) = 0 then Inr False
      else case entries of
             [] \<Rightarrow> Inl ValueError
           | e # es \<Rightarrow>
               if st_observed_days (first_max st_observed_days e es) < MIN_OBSERVATION_DAYS then Inr False
               else if sum_list (map st_changes entries) \<noteq> 0 then Inr False
               else Inr True)"

section \<open>The arithmetic of confidence\<close>

definition conf :: "int \<Rightarrow> int \<Rightarrow> int \<Rightarrow> pyfloat" where
  "conf m s c =
     (if s \<le> 0 then 0
      else min MAX_CONFIDENCE
             (of_int s / of_int (s + c) * min 1 (of_int s / of_int (2 * m))))"

lemma pattern_confidence_eq:
  "0 < m \<Longrightarrow> 0 \<le> c \<Longrightarrow> pattern_confidence m s c = Inr (conf m s c)"
  by (auto simp: pattern_confidence_def conf_def Let_def)

lemma agreement_mono:
  assumes "0 < s" and "s \<le> s'" and "0 \<le> c'" and "c' \<le> (c::int)"
  shows "of_int s / of_int (s + c) \<le> (of_int s' / of_int (s' + c') :: real)"
proof -
  have "s * (s' + c') \<le> s' * (s + c)"
    using assms mult_mono [of s s' c' c] by (simp add: algebra_simps)
  then have "real_of_int s * of_int (s' + c') \<le> of_int s' * of_int (s + c)"
    by (metis of_int_le_iff of_int_mult)
  with assms show ?thesis by (simp add: frac_le_eq divide_le_eq pos_le_divide_eq field_simps)
qed

lemma conf_mono:
  assumes "0 < m" and "s \<le> s'" and "0 \<le> c'" and "c' \<le> c"
  shows "conf m s c \<le> conf m s' c'"
proof (cases "s \<le> 0")
  case True
  with assms show ?thesis by (auto simp: conf_def MAX_CONFIDENCE_def intro!: mult_nonneg_nonneg divide_nonneg_nonneg)
next
  case False
  have "of_int s / of_int (s + c) * min 1 (of_int s / of_int (2 * m)) \<le>
        (of_int s' / of_int (s' + c') * min 1 (of_int s' / of_int (2 * m)) :: real)"
    using False assms agreement_mono [of s s' c' c]
    by (intro mult_mono min.mono divide_right_mono) (auto intro!: divide_nonneg_nonneg)
  with False assms show ?thesis by (auto simp: conf_def intro: min.mono)
qed

lemma conf_bounds:
  assumes "0 < m" and "0 \<le> c"
  shows "0 \<le> conf m s c" and "conf m s c \<le> MAX_CONFIDENCE"
proof -
  have "conf m 0 c \<le> conf m s c" if "0 \<le> s" using conf_mono [OF assms(1) that assms(2) order_refl] .
  then show "0 \<le> conf m s c" by (cases "0 \<le> s") (auto simp: conf_def)
  have "0 \<le> MAX_CONFIDENCE" by (simp add: MAX_CONFIDENCE_def)
  then show "conf m s c \<le> MAX_CONFIDENCE" by (simp add: conf_def)
qed

text \<open>Enough agreement reaches the ceiling, whatever argues against it.\<close>

lemma conf_reaches_ceiling:
  assumes "0 < m" and "0 \<le> c" and "2 * m \<le> s" and "19 * c \<le> s"
  shows "conf m s c = MAX_CONFIDENCE"
proof -
  have "95 * (s + c) \<le> 100 * s" using assms(4) by simp
  then have "95 * real_of_int (s + c) \<le> 100 * of_int s"
    by (metis of_int_le_iff of_int_mult of_int_numeral)
  then have "95 / 100 \<le> real_of_int s / of_int (s + c)"
    using assms by (simp add: pos_le_divide_eq field_simps)
  moreover have "min 1 (real_of_int s / of_int (2 * m)) = 1"
    using assms by (simp add: min_def pos_le_divide_eq)
  ultimately show ?thesis using assms by (simp add: conf_def MAX_CONFIDENCE_def min_def)
qed

lemma support_loop_finds:
  assumes m: "0 < m" and c: "0 \<le> c" and t: "t \<le> conf m (needed + int k) c"
  shows "\<exists>r. support_loop m c t needed = Some (Inr r) \<and> needed \<le> r \<and> t \<le> conf m r c \<and>
    (\<forall>i. needed \<le> i \<longrightarrow> i < r \<longrightarrow> conf m i c < t)"
  using t
proof (induction k arbitrary: needed)
  case 0
  then show ?case
    by (subst support_loop.simps) (auto simp: pattern_confidence_eq [OF m c])
next
  case (Suc k)
  show ?case
  proof (cases "conf m needed c < t")
    case False
    then show ?thesis
      by (subst support_loop.simps) (auto simp: pattern_confidence_eq [OF m c] not_less)
  next
    case True
    obtain r where r: "support_loop m c t (needed + 1) = Some (Inr r)" "needed + 1 \<le> r"
      "t \<le> conf m r c" "\<forall>i. needed + 1 \<le> i \<longrightarrow> i < r \<longrightarrow> conf m i c < t"
      using Suc.IH [of "needed + 1"] Suc.prems by (auto simp: algebra_simps)
    have "conf m i c < t" if "needed \<le> i" "i < r" for i
      using r(4) True that by (cases "i = needed") auto
    with r True show ?thesis
      by (subst support_loop.simps) (auto simp: pattern_confidence_eq [OF m c])
  qed
qed

section \<open>Properties\<close>

text \<open>The Wilson interval is one: for any count of successes among n trials it lies within 0 and 1 and
  contains the observed rate.\<close>

theorem wilson_contains_the_observed_rate:
  assumes "0 \<le> successes" and "successes \<le> n"
  shows "\<exists>i. wilson_interval successes n = Inr i \<and> 0 \<le> iv_low i \<and> iv_low i \<le> iv_observed i \<and>
             iv_observed i \<le> iv_high i \<and> iv_high i \<le> 1"
proof (cases "n \<le> 0")
  case True
  then show ?thesis by (simp add: wilson_interval_def)
next
  case False
  define N where "N = real_of_int n"
  define p where "p = real_of_int successes / N"
  define z where "z = Z * Z"
  define d where "d = 1 + z / N"
  define q where "q = p * (1 - p) / N + z / (4 * N * N)"
  have N: "0 < N" using False by (simp add: N_def)
  have p: "0 \<le> p" "p \<le> 1" using assms N by (simp_all add: p_def N_def)
  have z: "0 < z" and Z: "0 < Z" by (simp_all add: z_def Z_def)
  have d: "0 < d" using N z by (simp add: d_def add_pos_pos)
  have q: "0 \<le> q" using p N z by (simp add: q_def)
  have key: "(z / N * (1 / 2 - p))\<^sup>2 \<le> z * q"
  proof -
    have "z * q - (z / N * (1 / 2 - p))\<^sup>2 = z * (p * (1 - p)) / N + (z / N)\<^sup>2 * (p * (1 - p))"
      using N by (simp add: q_def power2_eq_square field_simps)
    moreover have "0 \<le> z * (p * (1 - p)) / N + (z / N)\<^sup>2 * (p * (1 - p))"
      using p N z by (intro add_nonneg_nonneg mult_nonneg_nonneg divide_nonneg_nonneg) auto
    ultimately show ?thesis by linarith
  qed
  have "\<bar>z / N * (1 / 2 - p)\<bar> \<le> sqrt (z * q)"
    using key by (metis real_sqrt_abs real_sqrt_le_mono)
  also have "sqrt (z * q) = Z * sqrt q" using Z by (simp add: z_def real_sqrt_mult)
  finally have dist: "\<bar>z / N * (1 / 2 - p)\<bar> \<le> Z * sqrt q" .
  have centre: "(p + z / (2 * N)) / d - p = (z / N * (1 / 2 - p)) / d"
  proof -
    have "p + z / (2 * N) - p * d = z / N * (1 / 2 - p)"
      using N by (simp add: d_def field_simps)
    then show ?thesis using d by (simp add: field_simps)
  qed
  have "\<bar>(p + z / (2 * N)) / d - p\<bar> \<le> Z / d * sqrt q"
    unfolding centre using divide_right_mono [OF dist less_imp_le [OF d]] d by (simp add: abs_divide abs_mult)
  then have low: "(p + z / (2 * N)) / d - Z / d * sqrt q \<le> p"
    and high: "p \<le> (p + z / (2 * N)) / d + Z / d * sqrt q" by (auto simp: abs_le_iff)
  have "wilson_interval successes n =
     Inr \<lparr> iv_observed = p, iv_low = max 0 ((p + z / (2 * N)) / d - Z / d * sqrt q),
           iv_high = min 1 ((p + z / (2 * N)) / d + Z / d * sqrt q), iv_n = n \<rparr>"
    using False q
    by (simp add: wilson_interval_def Let_def N_def p_def z_def d_def q_def mult.assoc)
  then show ?thesis using low high p by simp
qed

text \<open>Confidence is a number in [0, 0.95] that more agreement never lowers and more contradiction never
  raises.\<close>

theorem confidence_is_bounded_and_monotone:
  assumes "0 < min_support" and "supporting \<le> supporting'" and "0 \<le> contradicting'"
    and "contradicting' \<le> contradicting"
  shows "\<exists>x y. pattern_confidence min_support supporting contradicting = Inr x \<and>
               pattern_confidence min_support supporting' contradicting' = Inr y \<and>
               0 \<le> x \<and> x \<le> y \<and> y \<le> MAX_CONFIDENCE"
  using assms conf_mono [OF assms] conf_bounds [of min_support]
  by (simp add: pattern_confidence_eq)

text \<open>The search for the support a reflection still needs returns, for any threshold the function
  accepts, and it returns the least number: with that many more agreeing decisions the bar is cleared
  and with fewer (but at least the minimum support in all) it is not.\<close>

theorem support_needed_terminates_with_the_least:
  assumes "0 < min_support" and "0 \<le> contradicting" and "threshold \<le> MAX_CONFIDENCE"
  shows "\<exists>k c. support_needed_for_reflection min_support threshold supporting contradicting = Some (Inr k) \<and>
     0 \<le> k \<and> pattern_confidence min_support (supporting + k) contradicting = Inr c \<and> threshold \<le> c \<and>
     (\<forall>j d. min_support \<le> supporting + j \<and> 0 \<le> j \<and> j < k \<and>
        pattern_confidence min_support (supporting + j) contradicting = Inr d \<longrightarrow> d < threshold)"
proof -
  let ?n0 = "max supporting min_support"
  let ?K = "nat (2 * min_support + 19 * contradicting)"
  have "conf min_support (?n0 + int ?K) contradicting = MAX_CONFIDENCE"
    using assms by (intro conf_reaches_ceiling) auto
  then obtain r where r: "support_loop min_support contradicting threshold ?n0 = Some (Inr r)" "?n0 \<le> r"
    "threshold \<le> conf min_support r contradicting"
    "\<forall>i. ?n0 \<le> i \<longrightarrow> i < r \<longrightarrow> conf min_support i contradicting < threshold"
    using support_loop_finds [OF assms(1,2), of threshold ?n0 ?K] assms(3) by auto
  have "support_needed_for_reflection min_support threshold supporting contradicting = Some (Inr (r - supporting))"
    using assms(3) r(1) by (simp add: support_needed_for_reflection_def)
  then show ?thesis
    using r(2-4) assms by (intro exI [of _ "r - supporting"]) (auto simp: pattern_confidence_eq)
qed

text \<open>The bar for prose is above the bar for a pattern: whatever may be described in a reflection is also
  emittable as a pattern.\<close>

theorem reflection_bar_is_the_higher:
  assumes "0 \<le> contradicting"
    and "pattern_confidence DEFAULT_MIN_SUPPORT supporting contradicting = Inr c"
    and "clears_reflection_bar (Some c) REFLECTION_MIN_CONFIDENCE"
  shows "is_emittable DEFAULT_MIN_SUPPORT supporting contradicting"
proof -
  have bar: "REFLECTION_MIN_CONFIDENCE = 2 / 3"
    by (simp add: REFLECTION_MIN_CONFIDENCE_def pattern_confidence_def DEFAULT_MIN_SUPPORT_def
        MAX_CONFIDENCE_def Let_def min_def)
  have c: "c = conf 3 supporting contradicting"
    using assms(1,2) by (simp add: DEFAULT_MIN_SUPPORT_def pattern_confidence_eq)
  with assms(3) have le: "2 / 3 \<le> conf 3 supporting contradicting" by (simp add: bar clears_reflection_bar_def)
  then have pos: "0 < supporting" by (auto simp: conf_def split: if_splits)
  define a where "a = real_of_int supporting / of_int (supporting + contradicting)"
  define b where "b = min 1 (real_of_int supporting / of_int (2 * 3))"
  have "2 / 3 \<le> a * b" using le pos by (simp add: conf_def a_def b_def)
  moreover have a: "0 \<le> a" "a \<le> 1" using pos assms(1) by (auto simp: a_def)
  moreover have b: "0 \<le> b" "b \<le> 1" using pos by (auto simp: b_def)
  ultimately have "2 / 3 \<le> a" and "2 / 3 \<le> b"
    by (meson mult_left_le mult_left_le_one_le order_trans)+
  from \<open>2 / 3 \<le> b\<close> have "3 \<le> supporting" by (auto simp: b_def)
  moreover from \<open>2 / 3 \<le> a\<close> have "contradicting < supporting"
    using pos assms(1) by (auto simp: a_def pos_le_divide_eq)
  ultimately show ?thesis by (simp add: is_emittable_def DEFAULT_MIN_SUPPORT_def)
qed

text \<open>What is worth saying about a gap, spelled out: at least two past instances and more than argue
  against it, where two instances must stand unopposed and three may have one against them.\<close>

theorem worth_saying_spelled_out:
  assumes "0 \<le> contradicting"
  shows "worth_saying supporting contradicting =
    Inr (2 \<le> supporting \<and> contradicting < supporting \<and>
         (supporting = 2 \<longrightarrow> contradicting = 0) \<and> (supporting = 3 \<longrightarrow> contradicting \<le> 1))"
proof -
  have bar: "GAP_MIN_CONFIDENCE = 1 / 2"
    by (simp add: GAP_MIN_CONFIDENCE_def pattern_confidence_def GAP_MIN_SUPPORT_def
        MAX_CONFIDENCE_def Let_def min_def)
  have conf: "gap_confidence supporting contradicting = Inr (conf 2 supporting contradicting)"
    using assms by (simp add: gap_confidence_def GAP_MIN_SUPPORT_def pattern_confidence_eq)
  have "(1 / 2 \<le> conf 2 supporting contradicting) \<longleftrightarrow>
      (supporting = 2 \<longrightarrow> contradicting = 0) \<and> (supporting = 3 \<longrightarrow> contradicting \<le> 1)"
    if s: "2 \<le> supporting" "contradicting < supporting"
  proof -
    consider "supporting = 2" "contradicting = 0" | "supporting = 2" "contradicting = 1"
      | "supporting = 3" "contradicting = 0" | "supporting = 3" "contradicting = 1"
      | "supporting = 3" "contradicting = 2" | "4 \<le> supporting"
      using s assms by linarith
    then show ?thesis
    proof cases
      case 6
      then have "conf 2 supporting contradicting = min MAX_CONFIDENCE
          (real_of_int supporting / of_int (supporting + contradicting))"
        by (simp add: conf_def min_def)
      moreover have "1 / 2 \<le> real_of_int supporting / of_int (supporting + contradicting)"
        using 6 s assms by (simp add: pos_le_divide_eq)
      ultimately show ?thesis using 6 by (simp add: MAX_CONFIDENCE_def)
    qed (simp_all add: conf_def MAX_CONFIDENCE_def min_def)
  qed
  then show ?thesis using assms by (auto simp: worth_saying_def conf bar GAP_MIN_SUPPORT_def)
qed

text \<open>The two ways of asking whether a dimension can be judged agree: \<^verbatim>\<open>verdict\<close> names a stability or
  a noise exactly when \<^verbatim>\<open>has_verdict\<close> says so, and does not fail where a mean lifetime is recorded.\<close>

theorem verdict_agrees_with_has_verdict:
  assumes "st_total s \<noteq> 0" and "st_mean_lifetime_days s = Some d"
  shows "has_verdict s \<longleftrightarrow>
    (verdict s = Inr (STABLE d) \<and> 7 \<le> d) \<or> (verdict s = Inr (FITTING_NOISE d) \<and> d < 7)"
  using assms
  by (auto simp: verdict_def has_verdict_def NOISE_LIFETIME_DAYS_def)

section \<open>Witnesses\<close>

lemma wilson_witness: "\<exists>i. wilson_interval 3 4 = Inr i \<and> 0 \<le> iv_low i \<and> iv_high i \<le> 1"
  using wilson_contains_the_observed_rate [of 3 4] by auto

lemma confidence_witness:
  "\<exists>x y. pattern_confidence 3 4 2 = Inr x \<and> pattern_confidence 3 5 1 = Inr y \<and> x \<le> y"
  using confidence_is_bounded_and_monotone [of 3 4 5 1 2] by auto

lemma support_needed_witness:
  "\<exists>k. support_needed_for_reflection 3 (2 / 3) 2 1 = Some (Inr k) \<and> 0 \<le> k"
  using support_needed_terminates_with_the_least [of 3 1 "2 / 3" 2] by (auto simp: MAX_CONFIDENCE_def)

lemma reflection_bar_witness: "is_emittable DEFAULT_MIN_SUPPORT 5 1"
proof -
  have "pattern_confidence DEFAULT_MIN_SUPPORT 5 1 = Inr (25 / 36)"
    by (simp add: pattern_confidence_def DEFAULT_MIN_SUPPORT_def MAX_CONFIDENCE_def Let_def min_def)
  moreover have "clears_reflection_bar (Some (25 / 36)) REFLECTION_MIN_CONFIDENCE"
    by (simp add: clears_reflection_bar_def REFLECTION_MIN_CONFIDENCE_def pattern_confidence_def
        DEFAULT_MIN_SUPPORT_def MAX_CONFIDENCE_def Let_def min_def)
  ultimately show ?thesis by (intro reflection_bar_is_the_higher [of 1 5 "25 / 36"]) simp_all
qed

lemma worth_saying_witness: "worth_saying 3 1 = Inr True"
  using worth_saying_spelled_out [of 1 3] by simp

lemma verdict_witness:
  "let s = \<lparr> st_dimension = HABITS, st_total = 4, st_live = 1, st_closed = 3, st_changes = 3,
             st_mean_lifetime_days = Some 9, st_mean_live_age_days = None, st_observed_days = 40 \<rparr>
   in has_verdict s \<and> verdict s = Inr (STABLE 9)"
proof -
  let ?s = "\<lparr> st_dimension = HABITS, st_total = 4, st_live = 1, st_closed = 3, st_changes = 3,
             st_mean_lifetime_days = Some 9, st_mean_live_age_days = None, st_observed_days = 40 \<rparr>"
  have "has_verdict ?s" by (simp add: has_verdict_def MIN_CLOSED_FOR_VERDICT_def MIN_OBSERVATION_DAYS_def)
  with verdict_agrees_with_has_verdict [of ?s 9] show ?thesis by (simp add: Let_def)
qed

end
