(* ===== verification/Canonical.thy ===== *)
theory Canonical
  imports Values
begin

text \<open>
  Canonical entity names: \<^verbatim>\<open>domain/canonicalize.py\<close>, and \<^verbatim>\<open>canonical_entity_name\<close> of
  \<^verbatim>\<open>domain/normalization.py\<close>. \<open>nfkc\<close> is \<^verbatim>\<open>unicodedata.normalize("NFKC", .)\<close> and \<open>casefold\<close> is
  \<^verbatim>\<open>str.casefold\<close>: both are tables of Unicode, and parameters.
\<close>

section \<open>Words\<close>

text \<open>\<^verbatim>\<open>_WHITESPACE.sub(" ", s)\<close>: \<open>gap\<close> says that the character before was white space.\<close>

fun collapse_spaces :: "bool \<Rightarrow> string \<Rightarrow> string" where
  "collapse_spaces gap [] = []"
| "collapse_spaces gap (c # cs) =
     (if is_space c then (if gap then collapse_spaces True cs else CHR '' '' # collapse_spaces True cs)
      else c # collapse_spaces False cs)"

definition canonical_entity_name :: "(string \<Rightarrow> string) \<Rightarrow> string \<Rightarrow> string" where
  "canonical_entity_name casefold name = casefold (strip (collapse_spaces False name))"

fun split_at :: "char \<Rightarrow> string \<Rightarrow> string list" where
  "split_at d [] = [[]]"
| "split_at d (c # cs) =
     (if c = d then [] # split_at d cs
      else (case split_at d cs of w # ws \<Rightarrow> (c # w) # ws | [] \<Rightarrow> [[c]]))"

definition is_alnum :: "char \<Rightarrow> bool" where
  "is_alnum c = (let n = of_char c :: nat in 97 \<le> n \<and> n \<le> 122 \<or> 48 \<le> n \<and> n \<le> 57)"

text \<open>\<^verbatim>\<open>_NOT_ALNUM.sub("", word)\<close>.\<close>

definition bare :: "string \<Rightarrow> string" where
  "bare word = filter is_alnum word"

section \<open>Decoration\<close>

definition TITLES :: "string list" where
  "TITLES = [''mr'', ''mrs'', ''ms'', ''miss'', ''mx'', ''dr'', ''prof'', ''professor'',
             ''sir'', ''dame'', ''lord'', ''lady'', ''rev'', ''fr'', ''st'']"

definition SUFFIXES :: "string list" where
  "SUFFIXES = [''jr'', ''sr'', ''phd'', ''md'', ''esq'', ''ii'', ''iii'', ''iv'']"

definition TECH_SUFFIXES :: "string list" where
  "TECH_SUFFIXES = [''js'', ''javascript'', ''lang'', ''db'']"

definition TECH_NOUNS :: "string list" where
  "TECH_NOUNS = [''library'', ''framework'', ''package'', ''module'', ''tool'', ''toolkit'']"

definition FILE_EXTENSIONS :: "string list" where
  "FILE_EXTENSIONS =
     [''py'', ''md'', ''txt'', ''json'', ''yml'', ''yaml'', ''toml'', ''ini'', ''cfg'',
      ''js'', ''ts'', ''tsx'', ''jsx'', ''html'', ''css'', ''sh'', ''sql'', ''rs'', ''go'']"

definition ARTICLES :: "string list" where
  "ARTICLES = [''the'', ''a'', ''an'']"

definition strip_articles :: "string list \<Rightarrow> string list" where
  "strip_articles words = (if 1 < length words \<and> hd words \<in> set ARTICLES then tl words else words)"

text \<open>The two loops over the ends of the list keep at least one word.\<close>

fun drop_leading :: "(string \<Rightarrow> bool) \<Rightarrow> string list \<Rightarrow> string list" where
  "drop_leading p (v # w # ws) = (if p v then drop_leading p (w # ws) else v # w # ws)"
| "drop_leading p ws = ws"

definition drop_trailing :: "(string \<Rightarrow> bool) \<Rightarrow> string list \<Rightarrow> string list" where
  "drop_trailing p ws = rev (drop_leading p (rev ws))"

definition strip_person :: "string list \<Rightarrow> string list" where
  "strip_person words =
     drop_trailing (\<lambda>w. bare w \<in> set SUFFIXES) (drop_leading (\<lambda>w. bare w \<in> set TITLES) words)"

definition glued_suffix :: "string \<Rightarrow> string option" where
  "glued_suffix word = find (\<lambda>suffix. ends_with suffix word \<and> length suffix + 3 \<le> length word) TECH_SUFFIXES"

definition strip_tech :: "string list \<Rightarrow> string list" where
  "strip_tech words =
     (let nouns = drop_trailing (\<lambda>w. bare w \<in> set TECH_NOUNS) words;
          words1 = (if 1 < length nouns \<and> bare (last nouns) \<in> set TECH_SUFFIXES then butlast nouns else nouns);
          final = (if words1 = [] then [] else bare (last words1))
      in case glued_suffix final of
           None \<Rightarrow> words1
         | Some suffix \<Rightarrow> butlast words1 @ [take (length final - length suffix) final])"

definition strip_file :: "string list \<Rightarrow> string list" where
  "strip_file words =
     (if words = [] then words
      else
        let final = last words
        in case rfind_char CHR ''.'' final of
             None \<Rightarrow> words
           | Some i \<Rightarrow>
               if i \<noteq> 0 \<and> lower (drop (i + 1) final) \<in> set FILE_EXTENSIONS
               then butlast words @ [take i final] else words)"

definition strip_for_type :: "string list \<Rightarrow> entity_type \<Rightarrow> string list" where
  "strip_for_type words type =
     (case type of
        PERSON \<Rightarrow> strip_person words
      | TECHNOLOGY \<Rightarrow> strip_tech words
      | FILE_ENTITY \<Rightarrow> strip_file words
      | _ \<Rightarrow> words)"

definition canonicalize :: "(string \<Rightarrow> string) \<Rightarrow> string \<Rightarrow> entity_type \<Rightarrow> string" where
  "canonicalize nfkc name type =
     (let lowered = lower (strip (collapse_spaces False (nfkc name)))
      in if lowered = [] then []
         else
           let words = strip_for_type (strip_articles (split_at CHR '' '' lowered)) type;
               stripped = bare (join '' '' words)
           in if stripped \<noteq> [] then stripped
              else let whole = bare lowered in if whole \<noteq> [] then whole else lowered)"

end
