(* ===== verification/Resolution.thy ===== *)
theory Resolution
  imports Canonical Lifecycle Normalize "HOL-Library.Product_Lexorder"
begin

text \<open>
  Entity resolution: \<^verbatim>\<open>application/resolution.py\<close>, over the tables \<^verbatim>\<open>entities\<close>, \<^verbatim>\<open>entity_mentions\<close> and
  \<^verbatim>\<open>entity_merges\<close> with their constraints. The embedder and the Unicode normal form are parameters;
  durations and log lines are left out. A transaction that violates a constraint leaves the tables as they
  were.
\<close>

section \<open>Tables\<close>

record entity =
  en_id :: nat
  en_name :: string
  en_canonical :: string
  en_type :: entity_type
  en_confidence :: "pyfloat option"
  en_first_seen :: time
  en_merged_into :: "nat option"

record sighting =
  sg_id :: nat
  sg_entity :: nat
  sg_memory :: nat
  sg_chunk :: nat
  sg_char_start :: int
  sg_char_end :: int
  sg_confidence :: "pyfloat option"
  sg_extractor_version :: string

record entity_merge =
  mg_id :: nat
  mg_winner :: nat
  mg_loser :: nat
  mg_strategy :: merge_strategy
  mg_status :: merge_status
  mg_confidence :: pyfloat
  mg_evidence :: string
  mg_moved :: "nat list"
  mg_merged_at :: "time option"
  mg_reverted_at :: "time option"

record entity_base =
  eb_user :: nat
  eb_entities :: "entity list"
  eb_sightings :: "sighting list"
  eb_merges :: "entity_merge list"
  eb_versions :: "(nat \<times> string) list"
  eb_jobs :: "job list"
  eb_next_id :: nat

datatype merge_error = NoSuchMerge | NothingToUndo | IntegrityError

definition entity_get :: "nat \<Rightarrow> entity list \<Rightarrow> entity option" where
  "entity_get i es = find (\<lambda>e. en_id e = i) es"

text \<open>\<^verbatim>\<open>uq_entity_mentions_span\<close>, \<^verbatim>\<open>uq_entity_merges_active_loser\<close> and the checks of a merge row.\<close>

definition sg_span :: "sighting \<Rightarrow> nat \<times> int" where
  "sg_span s = (sg_chunk s, sg_char_start s)"

definition spans_unique :: "sighting list \<Rightarrow> bool" where
  "spans_unique ss \<longleftrightarrow> distinct (map (\<lambda>s. (sg_entity s, sg_span s)) ss)"

definition merge_row_ok :: "entity_merge list \<Rightarrow> entity_merge \<Rightarrow> bool" where
  "merge_row_ok merges m \<longleftrightarrow>
     0 \<le> mg_confidence m \<and> mg_confidence m \<le> 1 \<and> mg_winner m \<noteq> mg_loser m \<and>
     \<not> (mg_status m = APPLIED \<and> list_ex (\<lambda>m'. mg_status m' = APPLIED \<and> mg_loser m' = mg_loser m) merges)"

section \<open>Candidates\<close>

record merge_candidate =
  mc_left :: nat
  mc_right :: nat
  mc_strategy :: merge_strategy
  mc_confidence :: pyfloat
  mc_evidence :: string

definition DEFAULT_THRESHOLD :: pyfloat where
  "DEFAULT_THRESHOLD = 93 / 100"

definition REVIEW_FLOOR :: pyfloat where
  "REVIEW_FLOOR = 86 / 100"

definition MIN_EMBEDDING_NAME_CHARS :: nat where
  "MIN_EMBEDDING_NAME_CHARS = 3"

fun ALIASES :: "entity_type \<Rightarrow> (string \<times> string) list" where
  "ALIASES TECHNOLOGY = [(''postgres'', ''postgresql''), (''py'', ''python''), (''sqlalchemy'', ''sa'')]"
| "ALIASES _ = []"

definition AUTO_MERGE_STRATEGIES :: "merge_strategy list" where
  "AUTO_MERGE_STRATEGIES = [EXACT, ALIAS, MANUAL]"

text \<open>\<^verbatim>\<open>repr\<close> of a string and \<^verbatim>\<open>{x:.3f}\<close>.\<close>

definition printable :: "char \<Rightarrow> bool" where
  "printable c = (let n = of_char c :: nat in 32 \<le> n \<and> n \<noteq> 173 \<and> \<not> (127 \<le> n \<and> n \<le> 160))"

definition hex_digit :: "nat \<Rightarrow> char" where
  "hex_digit d = (if d < 10 then digit_char d else char_of (87 + d))"

definition repr_char :: "char \<Rightarrow> char \<Rightarrow> string" where
  "repr_char quote c =
     (if c = quote \<or> c = char_of (92 :: nat) then [char_of (92 :: nat), c]
      else if c = char_of (10 :: nat) then [char_of (92 :: nat), CHR ''n'']
      else if c = char_of (13 :: nat) then [char_of (92 :: nat), CHR ''r'']
      else if c = char_of (9 :: nat) then [char_of (92 :: nat), CHR ''t'']
      else if printable c then [c]
      else [char_of (92 :: nat), CHR ''x'', hex_digit (of_char c div 16), hex_digit (of_char c mod 16)])"

definition py_repr :: "string \<Rightarrow> string" where
  "py_repr s =
     (let single = char_of (39 :: nat); double = char_of (34 :: nat);
          quote = (if single \<in> set s \<and> double \<notin> set s then double else single)
      in [quote] @ concat (map (repr_char quote) s) @ [quote])"

definition fixed3 :: "pyfloat \<Rightarrow> string" where
  "fixed3 x =
     (let n = nat \<bar>round_half_even (x * 1000)\<bar>; frac = n mod 1000
      in (if x < 0 then ''-'' else []) @ show_nat (n div 1000) @ ''.'' @
         [digit_char (frac div 100), digit_char (frac div 10 mod 10), digit_char (frac mod 10)])"

fun entity_type_value :: "entity_type \<Rightarrow> string" where
  "entity_type_value PERSON = ''person''"
| "entity_type_value TECHNOLOGY = ''technology''"
| "entity_type_value PROJECT = ''project''"
| "entity_type_value ORGANIZATION = ''organization''"
| "entity_type_value CONCEPT = ''concept''"
| "entity_type_value FILE_ENTITY = ''file''"
| "entity_type_value DECISION_ENTITY = ''decision''"

text \<open>\<^verbatim>\<open>defaultdict(list)\<close> filled in the order of the rows.\<close>

definition buckets :: "('a \<Rightarrow> 'k) \<Rightarrow> 'a list \<Rightarrow> ('k \<times> 'a list) list" where
  "buckets key rows = map (\<lambda>k. (k, filter (\<lambda>r. key r = k) rows)) (keep_first (map key rows))"

definition exact_candidate :: "string \<Rightarrow> entity \<Rightarrow> entity \<Rightarrow> merge_candidate" where
  "exact_candidate key anchor other =
     \<lparr> mc_left = en_id anchor, mc_right = en_id other, mc_strategy = EXACT, mc_confidence = 1,
       mc_evidence = py_repr (en_name anchor) @ '' and '' @ py_repr (en_name other) @
         '' both canonicalise to '' @ py_repr key @ '' ('' @ entity_type_value (en_type anchor) @ '')'' \<rparr>"

definition exact_candidates :: "(string \<Rightarrow> string) \<Rightarrow> entity list \<Rightarrow> merge_candidate list" where
  "exact_candidates nfkc rows =
     concat (map (\<lambda>(key, members). case members of [] \<Rightarrow> [] | anchor # others \<Rightarrow> map (exact_candidate key anchor) others)
       (buckets (\<lambda>e. canonicalize nfkc (en_name e) (en_type e)) rows))"

definition alias_candidates :: "(string \<Rightarrow> string) \<Rightarrow> entity list \<Rightarrow> entity_type \<Rightarrow> merge_candidate list" where
  "alias_candidates nfkc rows type =
     (let by_key = (\<lambda>key. filter (\<lambda>e. canonicalize nfkc (en_name e) (en_type e) = key) rows)
      in concat (map (\<lambda>(left_key, right_key).
           concat (map (\<lambda>left. map (\<lambda>right.
             \<lparr> mc_left = en_id left, mc_right = en_id right, mc_strategy = ALIAS, mc_confidence = 99 / 100,
               mc_evidence = ''alias '' @ py_repr left_key @ '' = '' @ py_repr right_key @ '' matched '' @
                 py_repr (en_name left) @ '' and '' @ py_repr (en_name right) \<rparr>) (by_key right_key)) (by_key left_key)))
         (ALIASES type)))"

text \<open>\<^verbatim>\<open>zip(u, v, strict=True)\<close> raises where the vectors differ in length, and indexing where one is missing.\<close>

definition dot :: "vector \<Rightarrow> vector \<Rightarrow> pyfloat result" where
  "dot u v = (if length u = length v then Inr (sum_list (map2 (*) u v)) else Inl ValueError)"

definition vector_at :: "vector list \<Rightarrow> nat \<Rightarrow> vector result" where
  "vector_at vs i = (if i < length vs then Inr (vs ! i) else Inl IndexError)"

fun pairs_of :: "'a list \<Rightarrow> ('a \<times> 'a) list" where
  "pairs_of [] = []"
| "pairs_of (x # xs) = map (\<lambda>y. (x, y)) xs @ pairs_of xs"

fun embedding_pairs ::
  "pyfloat \<Rightarrow> vector list \<Rightarrow> ((nat \<times> entity) \<times> (nat \<times> entity)) list \<Rightarrow> merge_candidate list result" where
  "embedding_pairs least vs [] = Inr []"
| "embedding_pairs least vs (((i, left), (j, right)) # rest) =
     bind_result (vector_at vs i) (\<lambda>u. bind_result (vector_at vs j) (\<lambda>v. bind_result (dot u v) (\<lambda>score.
     bind_result (embedding_pairs least vs rest) (\<lambda>cs. Inr
       (if score < least then cs
        else \<lparr> mc_left = en_id left, mc_right = en_id right, mc_strategy = EMBEDDING,
               mc_confidence = min 1 (max 0 score),
               mc_evidence = ''cosine '' @ fixed3 score @ '' between '' @ py_repr (en_name left) @ '' and '' @
                 py_repr (en_name right) @ '' ('' @ entity_type_value (en_type left) @ '')'' \<rparr> # cs)))))"

definition embedding_candidates ::
  "(string list \<Rightarrow> vector list) \<Rightarrow> pyfloat \<Rightarrow> entity list \<Rightarrow> merge_candidate list result" where
  "embedding_candidates vectorize least rows =
     (let eligible_rows = filter (\<lambda>e. MIN_EMBEDDING_NAME_CHARS \<le> length (en_canonical e)) rows
      in if length eligible_rows < 2 then Inr []
         else embedding_pairs least (vectorize (map en_name eligible_rows)) (pairs_of (enumerate 0 eligible_rows)))"

text \<open>The key is a set of two ids; of two candidates with equal confidence the first stays.\<close>

definition pair_key :: "merge_candidate \<Rightarrow> nat \<times> nat" where
  "pair_key c = (min (mc_left c) (mc_right c), max (mc_left c) (mc_right c))"

definition keep_best :: "((nat \<times> nat) \<times> merge_candidate) list \<Rightarrow> merge_candidate \<Rightarrow> ((nat \<times> nat) \<times> merge_candidate) list" where
  "keep_best best c =
     (case map_of best (pair_key c) of
        None \<Rightarrow> AList.update (pair_key c) c best
      | Some current \<Rightarrow> if mc_confidence current < mc_confidence c then AList.update (pair_key c) c best else best)"

definition deduplicated :: "merge_candidate list \<Rightarrow> merge_candidate list" where
  "deduplicated cs = sort_key (\<lambda>c. (- mc_confidence c, mc_evidence c)) (map snd (foldl keep_best [] cs))"

record resolver =
  rs_embed :: "string list \<Rightarrow> vector list"
  rs_nfkc :: "string \<Rightarrow> string"
  rs_blake2b_8 :: "string \<Rightarrow> string"
  rs_has_queue :: bool
  rs_threshold :: pyfloat
  rs_review_floor :: pyfloat

definition new_resolver ::
  "(string list \<Rightarrow> vector list) \<Rightarrow> (string \<Rightarrow> string) \<Rightarrow> (string \<Rightarrow> string) \<Rightarrow> bool \<Rightarrow> pyfloat \<Rightarrow> pyfloat \<Rightarrow> resolver" where
  "new_resolver vectorize nfkc blake2b_8 has_queue threshold review_floor =
     \<lparr> rs_embed = vectorize, rs_nfkc = nfkc, rs_blake2b_8 = blake2b_8, rs_has_queue = has_queue,
       rs_threshold = threshold, rs_review_floor = min review_floor threshold \<rparr>"

definition active_entities :: "entity_base \<Rightarrow> entity list" where
  "active_entities eb = filter (\<lambda>e. en_merged_into e = None) (eb_entities eb)"

fun group_candidates :: "resolver \<Rightarrow> (entity_type \<times> entity list) list \<Rightarrow> merge_candidate list result" where
  "group_candidates rs [] = Inr []"
| "group_candidates rs ((type, rows) # rest) =
     bind_result (embedding_candidates (rs_embed rs) (rs_review_floor rs) rows) (\<lambda>by_embedding.
     bind_result (group_candidates rs rest) (\<lambda>cs.
       Inr (exact_candidates (rs_nfkc rs) rows @ alias_candidates (rs_nfkc rs) rows type @ by_embedding @ cs)))"

definition propose :: "resolver \<Rightarrow> entity_base \<Rightarrow> merge_candidate list result" where
  "propose rs eb =
     bind_result (group_candidates rs (buckets en_type (active_entities eb))) (\<lambda>cs. Inr (deduplicated cs))"

definition would_auto_merge :: "resolver \<Rightarrow> merge_candidate \<Rightarrow> bool" where
  "would_auto_merge rs c \<longleftrightarrow> mc_strategy c \<in> set AUTO_MERGE_STRATEGIES \<and> rs_threshold rs \<le> mc_confidence c"

section \<open>Following and choosing\<close>

definition FOLLOW_DEPTH :: nat where
  "FOLLOW_DEPTH = 8"

fun follow :: "entity list \<Rightarrow> nat \<Rightarrow> nat \<Rightarrow> nat option" where
  "follow es 0 current = None"
| "follow es (Suc depth) current =
     (case entity_get current es of
        None \<Rightarrow> None
      | Some e \<Rightarrow> (case en_merged_into e of None \<Rightarrow> Some current | Some into \<Rightarrow> follow es depth into))"

definition mention_count :: "sighting list \<Rightarrow> nat \<Rightarrow> nat" where
  "mention_count ss e = row_count (\<lambda>s. sg_entity s = e) ss"

definition winner_rank :: "entity_base \<Rightarrow> nat \<Rightarrow> int \<times> pyfloat \<times> string" where
  "winner_rank eb e =
     (- int (mention_count (eb_sightings eb) e),
      (case entity_get e (eb_entities eb) of None \<Rightarrow> 0 | Some row \<Rightarrow> total_seconds (en_first_seen row)),
      show_nat e)"

definition pick_winner :: "entity_base \<Rightarrow> nat \<Rightarrow> nat \<Rightarrow> nat \<times> nat" where
  "pick_winner eb left right =
     (let ranked = sort_key (winner_rank eb) [left, right] in (ranked ! 0, ranked ! 1))"

definition resolve_pair :: "entity_base \<Rightarrow> nat \<Rightarrow> nat \<Rightarrow> (nat \<times> nat) option" where
  "resolve_pair eb left right =
     (case (follow (eb_entities eb) FOLLOW_DEPTH left, follow (eb_entities eb) FOLLOW_DEPTH right) of
        (Some l, Some r) \<Rightarrow> if l = r then None else Some (pick_winner eb l r)
      | _ \<Rightarrow> None)"

section \<open>Applying and undoing\<close>

fun move_mentions :: "nat \<Rightarrow> nat list \<Rightarrow> (nat \<times> int) list \<Rightarrow> sighting list \<Rightarrow> nat list \<times> sighting list" where
  "move_mentions winner [] existing ss = ([], ss)"
| "move_mentions winner (i # moving) existing ss =
     (case find (\<lambda>s. sg_id s = i) ss of
        None \<Rightarrow> move_mentions winner moving existing ss
      | Some s \<Rightarrow>
          if sg_span s \<in> set existing
          then move_mentions winner moving existing (filter (\<lambda>r. sg_id r \<noteq> i) ss)
          else
            let (moved, ss') = move_mentions winner moving (sg_span s # existing)
                                 (update_where (\<lambda>r. sg_id r = i) (\<lambda>r. r\<lparr> sg_entity := winner \<rparr>) ss)
            in (i # moved, ss'))"

definition repoint :: "nat \<Rightarrow> nat \<Rightarrow> sighting list \<Rightarrow> nat list \<times> sighting list" where
  "repoint winner loser ss =
     move_mentions winner (map sg_id (filter (\<lambda>s. sg_entity s = loser) ss))
       (map sg_span (filter (\<lambda>s. sg_entity s = winner) ss)) ss"

definition queue_sync :: "resolver \<Rightarrow> time \<Rightarrow> nat list \<Rightarrow> entity_base \<Rightarrow> entity_base" where
  "queue_sync rs now entity_ids eb =
     (if \<not> rs_has_queue rs then eb
      else eb\<lparr> eb_jobs := snd (enqueue_in (eb_user eb) now (eb_next_id eb)
                                (graph_sync_spec (rs_blake2b_8 rs) [] entity_ids) (eb_jobs eb)),
               eb_next_id := Suc (eb_next_id eb) \<rparr>)"

definition set_merged_into :: "nat \<Rightarrow> nat option \<Rightarrow> entity list \<Rightarrow> entity list" where
  "set_merged_into i into es = update_where (\<lambda>e. en_id e = i) (\<lambda>e. e\<lparr> en_merged_into := into \<rparr>) es"

definition merge_row :: "nat \<Rightarrow> nat \<Rightarrow> nat \<Rightarrow> merge_candidate \<Rightarrow> merge_status \<Rightarrow> nat list \<Rightarrow> time option \<Rightarrow> entity_merge" where
  "merge_row i winner loser c status moved merged_at =
     \<lparr> mg_id = i, mg_winner = winner, mg_loser = loser, mg_strategy = mc_strategy c, mg_status = status,
       mg_confidence = mc_confidence c, mg_evidence = mc_evidence c, mg_moved = moved,
       mg_merged_at = merged_at, mg_reverted_at = None \<rparr>"

definition apply_merge ::
  "resolver \<Rightarrow> time \<Rightarrow> merge_candidate \<Rightarrow> entity_base \<Rightarrow> (merge_error + nat option) \<times> entity_base" where
  "apply_merge rs now c eb =
     (case resolve_pair eb (mc_left c) (mc_right c) of
        None \<Rightarrow> (Inr None, eb)
      | Some (winner, loser) \<Rightarrow>
          let (moved, ss) = repoint winner loser (eb_sightings eb);
              row = merge_row (eb_next_id eb) winner loser c APPLIED moved (Some now)
          in if \<not> merge_row_ok (eb_merges eb) row then (Inl IntegrityError, eb)
             else (Inr (Some (length moved)),
                   queue_sync rs now [winner, loser]
                     (eb\<lparr> eb_entities := set_merged_into loser (Some winner) (eb_entities eb),
                          eb_sightings := ss, eb_merges := eb_merges eb @ [row],
                          eb_next_id := Suc (eb_next_id eb) \<rparr>)))"

definition revert :: "resolver \<Rightarrow> time \<Rightarrow> nat \<Rightarrow> entity_base \<Rightarrow> (merge_error + nat) \<times> entity_base" where
  "revert rs now merge_id eb =
     (case find (\<lambda>m. mg_id m = merge_id) (eb_merges eb) of
        None \<Rightarrow> (Inl NoSuchMerge, eb)
      | Some m \<Rightarrow>
          if mg_status m \<noteq> APPLIED then (Inl NothingToUndo, eb)
          else
            let ss = update_where (\<lambda>s. sg_id s \<in> set (mg_moved m)) (\<lambda>s. s\<lparr> sg_entity := mg_loser m \<rparr>) (eb_sightings eb)
            in if \<not> spans_unique ss then (Inl IntegrityError, eb)
               else (Inr (length (mg_moved m)),
                     queue_sync rs now [mg_winner m, mg_loser m]
                       (eb\<lparr> eb_sightings := ss,
                            eb_entities := set_merged_into (mg_loser m) None (eb_entities eb),
                            eb_merges := update_where (\<lambda>r. mg_id r = merge_id)
                              (\<lambda>r. r\<lparr> mg_status := REVERTED, mg_reverted_at := Some now \<rparr>) (eb_merges eb) \<rparr>)))"

definition record_pending :: "merge_candidate \<Rightarrow> entity_base \<Rightarrow> (merge_error + bool) \<times> entity_base" where
  "record_pending c eb =
     (case resolve_pair eb (mc_left c) (mc_right c) of
        None \<Rightarrow> (Inr False, eb)
      | Some (winner, loser) \<Rightarrow>
          let row = merge_row (eb_next_id eb) winner loser c MERGE_PENDING [] None
          in if \<not> merge_row_ok (eb_merges eb) row then (Inl IntegrityError, eb)
             else if list_ex (\<lambda>m. mg_status m = MERGE_PENDING \<and> mg_winner m = winner \<and> mg_loser m = loser) (eb_merges eb)
             then (Inr False, eb)
             else (Inr True, eb\<lparr> eb_merges := eb_merges eb @ [row], eb_next_id := Suc (eb_next_id eb) \<rparr>))"

section \<open>A run of the resolver\<close>

record resolution_report =
  rr_candidates :: nat
  rr_auto_merged :: nat
  rr_pending :: nat
  rr_already_pending :: nat
  rr_by_strategy :: "(merge_strategy \<times> nat) list"
  rr_mentions_moved :: nat

datatype resolve_failure = Proposing py_exn | Merging merge_error

definition count_strategies :: "merge_candidate list \<Rightarrow> (merge_strategy \<times> nat) list" where
  "count_strategies cs =
     foldl (\<lambda>d c. AList.update (mc_strategy c) (dict_get d (mc_strategy c) 0 + 1) d) [] cs"

fun resolve_each ::
  "resolver \<Rightarrow> time \<Rightarrow> merge_candidate list \<Rightarrow> resolution_report \<Rightarrow> entity_base
   \<Rightarrow> (resolve_failure + resolution_report) \<times> entity_base" where
  "resolve_each rs now [] report eb = (Inr report, eb)"
| "resolve_each rs now (c # cs) report eb =
     (if would_auto_merge rs c
      then (case apply_merge rs now c eb of
              (Inl e, eb') \<Rightarrow> (Inl (Merging e), eb')
            | (Inr None, eb') \<Rightarrow> resolve_each rs now cs report eb'
            | (Inr (Some moved), eb') \<Rightarrow>
                resolve_each rs now cs
                  (report\<lparr> rr_auto_merged := rr_auto_merged report + 1,
                           rr_mentions_moved := rr_mentions_moved report + moved \<rparr>) eb')
      else (case record_pending c eb of
              (Inl e, eb') \<Rightarrow> (Inl (Merging e), eb')
            | (Inr created, eb') \<Rightarrow>
                resolve_each rs now cs
                  (report\<lparr> rr_pending := rr_pending report + of_bool created,
                           rr_already_pending := rr_already_pending report + of_bool (\<not> created) \<rparr>) eb'))"

definition resolve_entities ::
  "resolver \<Rightarrow> time \<Rightarrow> bool \<Rightarrow> entity_base \<Rightarrow> (resolve_failure + resolution_report) \<times> entity_base" where
  "resolve_entities rs now dry_run eb =
     (case propose rs eb of
        Inl e \<Rightarrow> (Inl (Proposing e), eb)
      | Inr cs \<Rightarrow>
          let auto = length (filter (would_auto_merge rs) cs);
              report = \<lparr> rr_candidates = length cs, rr_auto_merged = 0, rr_pending = 0, rr_already_pending = 0,
                         rr_by_strategy = count_strategies cs, rr_mentions_moved = 0 \<rparr>
          in if dry_run then (Inr (report\<lparr> rr_auto_merged := auto, rr_pending := length cs - auto \<rparr>), eb)
             else resolve_each rs now cs report eb)"

end
