(* ===== verification/Entity_Extraction.thy ===== *)
theory Entity_Extraction
  imports Resolution
begin

text \<open>
  Entity extraction: \<^verbatim>\<open>application/extraction.py\<close>. The extractor is a parameter that answers a list of
  texts; the memory and its chunks are those of the library, the column
  \<^verbatim>\<open>memories.entity_extractor_version\<close> is \<^const>\<open>eb_versions\<close>. The chunks are read before the model
  answers and are taken to be still there when their mentions are stored.
\<close>

record extracted_entity =
  xe_name :: string
  xe_type :: entity_type
  xe_confidence :: pyfloat
  xe_char_start :: int
  xe_char_end :: int

datatype extract_outcome = EX_SKIPPED | EX_EXTRACTED | EX_DELETED | EX_EMPTY

record extract_report =
  xr_outcome :: extract_outcome
  xr_chunks :: nat
  xr_entities :: nat
  xr_mentions :: nat
  xr_unverified :: nat
  xr_sync_enqueued :: bool

definition new_report :: "extract_outcome \<Rightarrow> extract_report" where
  "new_report outcome = \<lparr> xr_outcome = outcome, xr_chunks = 0, xr_entities = 0, xr_mentions = 0,
                          xr_unverified = 0, xr_sync_enqueued = False \<rparr>"

datatype extract_error = NoSuchMemory | ExtractorFailed py_exn | UnevenAnswer | RowRefused

record extractor =
  ex_version :: string
  ex_extract :: "string list \<Rightarrow> memory_kind \<Rightarrow> extracted_entity list list result"
  ex_casefold :: "string \<Rightarrow> string"

text \<open>\<^verbatim>\<open>text[start:end]\<close> for a start that is not negative: a negative end counts from the end of the text.\<close>

definition span_text :: "string \<Rightarrow> int \<Rightarrow> int \<Rightarrow> string" where
  "span_text t start stop =
     slice t (nat start) (nat (if stop < 0 then stop + int (length t) else stop))"

definition offsets_hold :: "string \<Rightarrow> extracted_entity \<Rightarrow> bool" where
  "offsets_hold chunk_text c \<longleftrightarrow>
     \<not> (xe_char_start c < 0 \<or> int (length chunk_text) < xe_char_end c) \<and>
     span_text chunk_text (xe_char_start c) (xe_char_end c) = xe_name c"

fun follow_merge :: "entity list \<Rightarrow> nat \<Rightarrow> nat \<Rightarrow> nat" where
  "follow_merge es 0 current = current"
| "follow_merge es (Suc depth) current =
     (case entity_get current es of
        None \<Rightarrow> current
      | Some e \<Rightarrow> (case en_merged_into e of None \<Rightarrow> current | Some into \<Rightarrow> follow_merge es depth into))"

definition upsert_entity :: "extractor \<Rightarrow> time \<Rightarrow> extracted_entity \<Rightarrow> entity_base \<Rightarrow> (nat \<times> bool) \<times> entity_base" where
  "upsert_entity ex now c eb =
     (let canonical = canonical_entity_name (ex_casefold ex) (xe_name c)
      in case find (\<lambda>e. en_canonical e = canonical \<and> en_type e = xe_type c) (eb_entities eb) of
           None \<Rightarrow>
             ((eb_next_id eb, True),
              eb\<lparr> eb_entities := eb_entities eb @
                    [\<lparr> en_id = eb_next_id eb, en_name = xe_name c, en_canonical = canonical, en_type = xe_type c,
                       en_confidence = Some (xe_confidence c), en_first_seen = now, en_merged_into = None \<rparr>],
                  eb_next_id := Suc (eb_next_id eb) \<rparr>)
         | Some e \<Rightarrow>
             ((case en_merged_into e of
                 None \<Rightarrow> en_id e
               | Some into \<Rightarrow> follow_merge (eb_entities eb) FOLLOW_DEPTH into, False), eb))"

text \<open>The checks on the rows of \<^verbatim>\<open>entities\<close> and \<^verbatim>\<open>entity_mentions\<close> that a candidate becomes; they hold before
  \<^verbatim>\<open>ON CONFLICT\<close> is looked at, and \<^verbatim>\<open>btrim\<close> removes blanks only.\<close>

definition not_blank :: "string \<Rightarrow> bool" where
  "not_blank s \<longleftrightarrow> list_ex (\<lambda>c. c \<noteq> CHR '' '') s"

definition rows_ok :: "extractor \<Rightarrow> extracted_entity \<Rightarrow> bool" where
  "rows_ok ex c \<longleftrightarrow>
     not_blank (xe_name c) \<and> not_blank (canonical_entity_name (ex_casefold ex) (xe_name c)) \<and>
     0 \<le> xe_char_start c \<and> xe_char_start c < xe_char_end c \<and> 0 \<le> xe_confidence c \<and> xe_confidence c \<le> 1"

text \<open>\<^verbatim>\<open>ON CONFLICT DO NOTHING\<close> on the span; the mention is counted either way.\<close>

definition insert_mention :: "extractor \<Rightarrow> nat \<Rightarrow> nat \<Rightarrow> extracted_entity \<Rightarrow> nat \<Rightarrow> entity_base \<Rightarrow> entity_base" where
  "insert_mention ex memory_id chunk_id c entity_id eb =
     (let row = \<lparr> sg_id = eb_next_id eb, sg_entity = entity_id, sg_memory = memory_id, sg_chunk = chunk_id,
                  sg_char_start = xe_char_start c, sg_char_end = xe_char_end c,
                  sg_confidence = Some (xe_confidence c), sg_extractor_version = ex_version ex \<rparr>
      in eb\<lparr> eb_sightings := (if list_ex (\<lambda>s. sg_entity s = entity_id \<and> sg_span s = sg_span row) (eb_sightings eb)
                              then eb_sightings eb else eb_sightings eb @ [row]),
             eb_next_id := Suc (eb_next_id eb) \<rparr>)"

fun store_chunk ::
  "extractor \<Rightarrow> time \<Rightarrow> nat \<Rightarrow> nat \<times> string \<Rightarrow> extracted_entity list \<Rightarrow> extract_report \<Rightarrow> entity_base
   \<Rightarrow> extract_error + (extract_report \<times> entity_base)" where
  "store_chunk ex now memory_id ch [] report eb = Inr (report, eb)"
| "store_chunk ex now memory_id ch (c # cs) report eb =
     (if \<not> offsets_hold (snd ch) c
      then store_chunk ex now memory_id ch cs (report\<lparr> xr_unverified := xr_unverified report + 1 \<rparr>) eb
      else if \<not> rows_ok ex c then Inl RowRefused
      else
        let ((entity_id, created), eb1) = upsert_entity ex now c eb
        in store_chunk ex now memory_id ch cs
             (report\<lparr> xr_entities := xr_entities report + of_bool created, xr_mentions := xr_mentions report + 1 \<rparr>)
             (insert_mention ex memory_id (fst ch) c entity_id eb1))"

text \<open>\<^verbatim>\<open>zip(chunks, found, strict=True)\<close>; what raises rolls the transaction back.\<close>

fun store_chunks ::
  "extractor \<Rightarrow> time \<Rightarrow> nat \<Rightarrow> (nat \<times> string) list \<Rightarrow> extracted_entity list list \<Rightarrow> extract_report \<Rightarrow> entity_base
   \<Rightarrow> extract_error + (extract_report \<times> entity_base)" where
  "store_chunks ex now memory_id [] [] report eb = Inr (report, eb)"
| "store_chunks ex now memory_id (ch # chunks) (cs # found) report eb =
     (case store_chunk ex now memory_id ch cs report eb of
        Inl e \<Rightarrow> Inl e
      | Inr (report', eb') \<Rightarrow> store_chunks ex now memory_id chunks found report' eb')"
| "store_chunks ex now memory_id _ _ report eb = Inl UnevenAnswer"

definition store_mentions ::
  "extractor \<Rightarrow> time \<Rightarrow> nat \<Rightarrow> (nat \<times> string) list \<Rightarrow> extracted_entity list list \<Rightarrow> entity_base
   \<Rightarrow> extract_error + (extract_report \<times> entity_base)" where
  "store_mentions ex now memory_id chunks found eb =
     store_chunks ex now memory_id chunks found ((new_report EX_EXTRACTED)\<lparr> xr_chunks := length chunks \<rparr>)
       (eb\<lparr> eb_sightings := filter (\<lambda>s. sg_memory s \<noteq> memory_id) (eb_sightings eb),
            eb_versions := AList.update memory_id (ex_version ex) (eb_versions eb) \<rparr>)"

definition chunks_of :: "nat \<Rightarrow> library \<Rightarrow> (nat \<times> string) list" where
  "chunks_of memory_id l = map (\<lambda>p. (ps_id p, ps_content p)) (sort_key ps_ordinal (passages_of memory_id l))"

definition extract_entities ::
  "extractor \<Rightarrow> resolver \<Rightarrow> time \<Rightarrow> nat \<Rightarrow> library \<Rightarrow> entity_base \<Rightarrow> (extract_error + extract_report) \<times> entity_base" where
  "extract_entities ex rs now memory_id l eb =
     (case memory_get memory_id l of
        None \<Rightarrow> (Inl NoSuchMemory, eb)
      | Some m \<Rightarrow>
          if m_deleted_at m \<noteq> None then (Inr (new_report EX_DELETED), eb)
          else if map_of (eb_versions eb) memory_id = Some (ex_version ex) then (Inr (new_report EX_SKIPPED), eb)
          else if chunks_of memory_id l = [] then (Inr (new_report EX_EMPTY), eb)
          else
            (case ex_extract ex (map snd (chunks_of memory_id l)) (tx_kind (text_of m l)) of
               Inl e \<Rightarrow> (Inl (ExtractorFailed e), eb)
             | Inr found \<Rightarrow>
                 (case store_mentions ex now memory_id (chunks_of memory_id l) found eb of
                    Inl e \<Rightarrow> (Inl e, eb)
                  | Inr (report, eb') \<Rightarrow>
                      let n = eb_next_id eb';
                          eb'' = (if rs_has_queue rs
                                  then eb'\<lparr> eb_jobs := snd (enqueue_in (eb_user eb') now n
                                              (graph_sync_spec (rs_blake2b_8 rs) [memory_id] []) (eb_jobs eb')),
                                            eb_next_id := Suc n \<rparr>
                                  else eb')
                      in (Inr (report\<lparr> xr_sync_enqueued := rs_has_queue rs \<rparr>), eb''))))"

end
