(* ===== verification/Resolution_Guarantees.thy ===== *)
theory Resolution_Guarantees
  imports Entity_Extraction
begin

text \<open>
  What resolution and extraction guarantee: the pointers of merged entities form a forest that agrees with
  the ledger, a merge loses no sighting, undoing the last merge restores what it moved, and where undoing
  does not.
\<close>

section \<open>Pointers\<close>

definition pointer :: "entity list \<Rightarrow> nat \<Rightarrow> nat option" where
  "pointer es i = (case entity_get i es of None \<Rightarrow> None | Some e \<Rightarrow> en_merged_into e)"

definition points :: "entity list \<Rightarrow> (nat \<times> nat) set" where
  "points es = {(i, j). pointer es i = Some j}"

lemma entity_get_Some: "entity_get i es = Some e \<Longrightarrow> e \<in> set es \<and> en_id e = i"
  unfolding entity_get_def by (drule find_SomeD) simp

lemma entity_get_None: "entity_get i es = None \<longleftrightarrow> i \<notin> en_id ` set es"
  by (auto simp: entity_get_def find_None_iff)

lemma entity_get_distinct:
  "distinct (map en_id es) \<Longrightarrow> e \<in> set es \<Longrightarrow> entity_get (en_id e) es = Some e"
  by (induction es) (auto simp: entity_get_def)

lemma follow_sound:
  "follow es d i = Some r \<Longrightarrow> (i, r) \<in> (points es)\<^sup>* \<and> pointer es r = None \<and> r \<in> en_id ` set es"
proof (induction es d i rule: follow.induct)
  case (2 es d i)
  then show ?case
    by (auto simp: points_def pointer_def entity_get_Some image_iff split: option.splits
        intro: converse_rtrancl_into_rtrancl dest: entity_get_Some)
qed simp

lemma finite_points: "finite (points es)"
proof -
  have "points es \<subseteq> (\<lambda>e. (en_id e, the (en_merged_into e))) ` set es"
    by (auto simp: points_def pointer_def image_iff dest: entity_get_Some split: option.splits)
      (metis entity_get_Some option.sel)
  then show ?thesis by (rule finite_subset) simp
qed

definition forest :: "entity list \<Rightarrow> bool" where
  "forest es \<longleftrightarrow> distinct (map en_id es) \<and> acyclic (points es) \<and> Range (points es) \<subseteq> en_id ` set es"

lemma follow_terminates:
  assumes "forest es" and "i \<in> en_id ` set es"
  shows "\<exists>n r. follow es n i = Some r"
proof -
  have "wf ((points es)\<inverse>)"
    using assms(1) by (intro finite_acyclic_wf_converse finite_points) (simp add: forest_def)
  then show ?thesis using assms(2)
  proof (induction i rule: wf_induct_rule)
    case (less i)
    then obtain e where e: "entity_get i es = Some e" by (meson entity_get_None not_None_eq)
    show ?case
    proof (cases "en_merged_into e")
      case None
      then have "follow es (Suc 0) i = Some i" using e by simp
      then show ?thesis by blast
    next
      case (Some j)
      then have ij: "(i, j) \<in> points es" using e by (simp add: points_def pointer_def)
      then have "j \<in> en_id ` set es" using assms(1) by (auto simp: forest_def)
      then obtain n r where "follow es n j = Some r" using less.IH ij by blast
      then have "follow es (Suc n) i = Some r" using e Some by simp
      then show ?thesis by blast
    qed
  qed
qed

lemma pointer_set:
  assumes "l \<in> en_id ` set es"
  shows "pointer (set_merged_into l into es) i = (if i = l then into else pointer es i)"
proof -
  have "entity_get i (set_merged_into l into es) =
      map_option (\<lambda>e. if en_id e = l then e\<lparr> en_merged_into := into \<rparr> else e) (entity_get i es)"
    by (induction es) (auto simp: entity_get_def set_merged_into_def)
  moreover have "entity_get l es \<noteq> None" using assms by (simp add: entity_get_None)
  ultimately show ?thesis
    by (auto simp: pointer_def split: option.split dest: entity_get_Some)
qed

lemma ids_set_merged_into [simp]: "map en_id (set_merged_into l into es) = map en_id es"
  by (simp add: set_merged_into_def)

lemma forest_merge:
  assumes "forest es" and "pointer es w = None" and "pointer es l = None" and "w \<noteq> l"
    and "w \<in> en_id ` set es" and "l \<in> en_id ` set es"
  shows "forest (set_merged_into l (Some w) es)"
proof -
  have p: "points (set_merged_into l (Some w) es) = insert (l, w) (points es)"
    using assms(3) by (auto simp: points_def pointer_set [OF assms(6)] split: if_splits)
  have "(w, l) \<notin> (points es)\<^sup>*"
  proof
    assume "(w, l) \<in> (points es)\<^sup>*"
    then show False using assms(2,4) by (cases rule: converse_rtranclE) (auto simp: points_def)
  qed
  moreover have "en_id ` set (set_merged_into l (Some w) es) = en_id ` set es"
    by (metis ids_set_merged_into list.set_map)
  ultimately show ?thesis using assms(1,5) by (simp add: forest_def p acyclic_insert)
qed

lemma forest_unmerge:
  assumes "forest es" and "l \<in> en_id ` set es"
  shows "forest (set_merged_into l None es)"
proof -
  have "points (set_merged_into l None es) \<subseteq> points es"
    by (auto simp: points_def pointer_set [OF assms(2)] split: if_splits)
  moreover have "en_id ` set (set_merged_into l None es) = en_id ` set es"
    by (metis ids_set_merged_into list.set_map)
  ultimately show ?thesis
    using assms(1) Range_mono [of "points (set_merged_into l None es)" "points es"]
    unfolding forest_def by (metis acyclic_subset ids_set_merged_into order_trans)
qed

lemma pick_winner_cases: "pick_winner eb l r = (l, r) \<or> pick_winner eb l r = (r, l)"
  by (auto simp: pick_winner_def)

lemma resolve_pair_Some:
  assumes "resolve_pair eb a b = Some (w, l)"
  shows "w \<noteq> l" and "pointer (eb_entities eb) w = None" and "pointer (eb_entities eb) l = None"
    and "w \<in> en_id ` set (eb_entities eb)" and "l \<in> en_id ` set (eb_entities eb)"
proof -
  obtain x y where f: "follow (eb_entities eb) FOLLOW_DEPTH a = Some x" "follow (eb_entities eb) FOLLOW_DEPTH b = Some y"
    and "x \<noteq> y" and "pick_winner eb x y = (w, l)"
    using assms by (auto simp: resolve_pair_def split: option.splits if_splits)
  then have "w \<noteq> l \<and> {w, l} = {x, y}" using pick_winner_cases [of eb x y] by auto
  then show "w \<noteq> l" "pointer (eb_entities eb) w = None" "pointer (eb_entities eb) l = None"
    "w \<in> en_id ` set (eb_entities eb)" "l \<in> en_id ` set (eb_entities eb)"
    using follow_sound [OF f(1)] follow_sound [OF f(2)] by (auto simp: doubleton_eq_iff)
qed

section \<open>What a merge moves\<close>

definition span_of :: "sighting list \<Rightarrow> nat \<Rightarrow> nat \<times> int" where
  "span_of ss i = (case find (\<lambda>s. sg_id s = i) ss of None \<Rightarrow> (0, 0) | Some s \<Rightarrow> sg_span s)"

lemma find_sighting: "distinct (map sg_id ss) \<Longrightarrow> s \<in> set ss \<Longrightarrow> find (\<lambda>r. sg_id r = sg_id s) ss = Some s"
  by (induction ss) auto

lemma span_of_in: "distinct (map sg_id ss) \<Longrightarrow> s \<in> set ss \<Longrightarrow> span_of ss (sg_id s) = sg_span s"
  by (simp add: span_of_def find_sighting)

lemma span_entity [simp]: "sg_span (s\<lparr> sg_entity := w \<rparr>) = sg_span s"
  by (simp add: sg_span_def)

lemma move_mentions_eq:
  assumes "distinct (map sg_id ss)" and "set moving \<subseteq> sg_id ` set ss" and "distinct (map (span_of ss) moving)"
  shows "move_mentions w moving E ss =
    (filter (\<lambda>i. span_of ss i \<notin> set E) moving,
     map (\<lambda>s. if sg_id s \<in> set moving then s\<lparr> sg_entity := w \<rparr> else s)
       (filter (\<lambda>s. \<not> (sg_id s \<in> set moving \<and> sg_span s \<in> set E)) ss))"
  using assms
proof (induction moving arbitrary: E ss)
  case (Cons i moving)
  obtain s where s: "s \<in> set ss" "sg_id s = i" using Cons.prems(2) by auto
  then have find: "find (\<lambda>r. sg_id r = i) ss = Some s" using find_sighting [OF Cons.prems(1)] by auto
  have si: "span_of ss i = sg_span s" using span_of_in [OF Cons.prems(1) s(1)] s(2) by simp
  have i: "i \<notin> set moving" using Cons.prems(3) by auto
  have uniq: "r = s" if "r \<in> set ss" "sg_id r = i" for r
    using that s Cons.prems(1) by (metis find_sighting option.inject)
  show ?case
  proof (cases "sg_span s \<in> set E")
    case True
    let ?ss = "filter (\<lambda>r. sg_id r \<noteq> i) ss"
    have span: "span_of ?ss j = span_of ss j" if "j \<in> set moving" for j
    proof -
      obtain r where "r \<in> set ss" "sg_id r = j" using Cons.prems(2) \<open>j \<in> set moving\<close> by auto
      moreover then have "r \<in> set ?ss" using i \<open>j \<in> set moving\<close> by auto
      moreover have "distinct (map sg_id ?ss)" using Cons.prems(1) by (rule distinct_map_filter)
      ultimately show ?thesis using span_of_in Cons.prems(1) by metis
    qed
    have "move_mentions w moving E ?ss =
      (filter (\<lambda>i. span_of ?ss i \<notin> set E) moving,
       map (\<lambda>s. if sg_id s \<in> set moving then s\<lparr> sg_entity := w \<rparr> else s)
         (filter (\<lambda>s. \<not> (sg_id s \<in> set moving \<and> sg_span s \<in> set E)) ?ss))"
    proof (rule Cons.IH)
      show "distinct (map sg_id ?ss)" using Cons.prems(1) by (rule distinct_map_filter)
      show "set moving \<subseteq> sg_id ` set ?ss"
      proof
        fix j assume "j \<in> set moving"
        moreover obtain r where "r \<in> set ss" "sg_id r = j" using Cons.prems(2) \<open>j \<in> set moving\<close> by auto
        ultimately show "j \<in> sg_id ` set ?ss" using i by (intro image_eqI [of _ _ r]) auto
      qed
      have same: "map (span_of ?ss) moving = map (span_of ss) moving" using span by (intro map_cong) auto
      have "distinct (map (span_of ss) moving)" using Cons.prems(3) by simp
      then show "distinct (map (span_of ?ss) moving)" by (simp only: same)
    qed
    moreover have "filter (\<lambda>i. span_of ?ss i \<notin> set E) moving = filter (\<lambda>i. span_of ss i \<notin> set E) moving"
      by (rule filter_cong) (simp_all add: span)
    moreover have "filter (\<lambda>s. \<not> (sg_id s \<in> set moving \<and> sg_span s \<in> set E)) ?ss =
        filter (\<lambda>s. \<not> (sg_id s \<in> set (i # moving) \<and> sg_span s \<in> set E)) ss"
      unfolding filter_filter by (rule filter_cong) (use uniq True in auto)
    moreover have "map (\<lambda>s. if sg_id s \<in> set moving then s\<lparr> sg_entity := w \<rparr> else s)
        (filter (\<lambda>s. \<not> (sg_id s \<in> set (i # moving) \<and> sg_span s \<in> set E)) ss) =
        map (\<lambda>s. if sg_id s \<in> set (i # moving) then s\<lparr> sg_entity := w \<rparr> else s)
        (filter (\<lambda>s. \<not> (sg_id s \<in> set (i # moving) \<and> sg_span s \<in> set E)) ss)"
      by (rule map_cong) (use uniq True in auto)
    ultimately show ?thesis using True by (simp add: find si)
  next
    case False
    let ?ss = "update_where (\<lambda>r. sg_id r = i) (\<lambda>r. r\<lparr> sg_entity := w \<rparr>) ss"
    have ids: "map sg_id ?ss = map sg_id ss" by simp
    have span: "span_of ?ss = span_of ss"
    proof
      fix j
      have "find (\<lambda>s. sg_id s = j) ?ss = map_option (\<lambda>r. if sg_id r = i then r\<lparr> sg_entity := w \<rparr> else r)
          (find (\<lambda>s. sg_id s = j) ss)"
        by (induction ss) auto
      then show "span_of ?ss j = span_of ss j" by (auto simp: span_of_def split: option.split)
    qed
    have other: "sg_span r \<noteq> sg_span s" if "r \<in> set ss" "sg_id r \<in> set moving" for r
      using that Cons.prems(1,3) si span_of_in [OF Cons.prems(1) that(1)] by (auto simp: image_iff)
    have "move_mentions w moving (sg_span s # E) ?ss =
      (filter (\<lambda>i. span_of ?ss i \<notin> set (sg_span s # E)) moving,
       map (\<lambda>s. if sg_id s \<in> set moving then s\<lparr> sg_entity := w \<rparr> else s)
         (filter (\<lambda>r. \<not> (sg_id r \<in> set moving \<and> sg_span r \<in> set (sg_span s # E))) ?ss))"
    proof (rule Cons.IH)
      show "distinct (map sg_id ?ss)" using Cons.prems(1) by (simp only: ids)
      have "sg_id ` set ?ss = sg_id ` set ss" using arg_cong [OF ids, of set] by (simp only: set_map)
      then show "set moving \<subseteq> sg_id ` set ?ss" using Cons.prems(2) by simp
      show "distinct (map (span_of ?ss) moving)" using Cons.prems(3) by (simp add: span)
    qed
    moreover have "filter (\<lambda>i. span_of ?ss i \<notin> set (sg_span s # E)) moving = filter (\<lambda>i. span_of ss i \<notin> set E) moving"
      by (rule filter_cong) (use Cons.prems(3) si in \<open>auto simp: span image_iff\<close>)
    moreover have "map (\<lambda>s. if sg_id s \<in> set moving then s\<lparr> sg_entity := w \<rparr> else s)
         (filter (\<lambda>r. \<not> (sg_id r \<in> set moving \<and> sg_span r \<in> set (sg_span s # E))) ?ss) =
       map (\<lambda>s. if sg_id s \<in> set (i # moving) then s\<lparr> sg_entity := w \<rparr> else s)
         (filter (\<lambda>s. \<not> (sg_id s \<in> set (i # moving) \<and> sg_span s \<in> set E)) ss)"
    proof -
      have "filter (\<lambda>r. \<not> (sg_id r \<in> set moving \<and> sg_span r \<in> set (sg_span s # E))) ?ss =
          map (\<lambda>r. if sg_id r = i then r\<lparr> sg_entity := w \<rparr> else r)
            (filter (\<lambda>r. \<not> (sg_id r \<in> set moving \<and> sg_span r \<in> set (sg_span s # E))) ss)"
        by (auto simp: update_where_def filter_map comp_def intro!: arg_cong2 [of _ _ _ _ map] filter_cong)
      also have "filter (\<lambda>r. \<not> (sg_id r \<in> set moving \<and> sg_span r \<in> set (sg_span s # E))) ss =
          filter (\<lambda>s. \<not> (sg_id s \<in> set (i # moving) \<and> sg_span s \<in> set E)) ss"
        by (rule filter_cong) (use uniq other False i in auto)
      finally show ?thesis using i by auto
    qed
    ultimately show ?thesis using False by (simp add: find si)
  qed
qed simp


definition covered :: "nat \<Rightarrow> sighting list \<Rightarrow> sighting \<Rightarrow> bool" where
  "covered w ss s \<longleftrightarrow> list_ex (\<lambda>r. sg_entity r = w \<and> sg_span r = sg_span s) ss"

lemma repoint_eq:
  assumes "distinct (map sg_id ss)" and "spans_unique ss"
  shows "repoint w l ss =
    (map sg_id (filter (\<lambda>s. sg_entity s = l \<and> \<not> covered w ss s) ss),
     map (\<lambda>s. if sg_entity s = l then s\<lparr> sg_entity := w \<rparr> else s)
       (filter (\<lambda>s. \<not> (sg_entity s = l \<and> covered w ss s)) ss))"
proof -
  let ?ids = "map sg_id (filter (\<lambda>s. sg_entity s = l) ss)"
  let ?E = "map sg_span (filter (\<lambda>s. sg_entity s = w) ss)"
  have mem: "sg_id s \<in> set ?ids \<longleftrightarrow> sg_entity s = l" if "s \<in> set ss" for s
    using that assms(1) by (auto simp: inj_on_def distinct_map)
  have cov: "sg_span s \<in> set ?E \<longleftrightarrow> covered w ss s" for s
    by (auto simp: covered_def list_ex_iff image_iff)
  have "distinct (map (\<lambda>s. (sg_entity s, sg_span s)) (filter (\<lambda>s. sg_entity s = l) ss))"
    using assms(2) unfolding spans_unique_def by (rule distinct_map_filter)
  moreover have "map (\<lambda>s. (sg_entity s, sg_span s)) (filter (\<lambda>s. sg_entity s = l) ss) =
      map (Pair l) (map sg_span (filter (\<lambda>s. sg_entity s = l) ss))" by simp
  ultimately have "distinct (map (Pair l) (map sg_span (filter (\<lambda>s. sg_entity s = l) ss)))" by (simp only:)
  then have "distinct (map sg_span (filter (\<lambda>s. sg_entity s = l) ss))" by (rule distinct_map [THEN iffD1, THEN conjunct1])
  moreover have "map (span_of ss) ?ids = map sg_span (filter (\<lambda>s. sg_entity s = l) ss)"
    using assms(1) by (simp add: span_of_in)
  ultimately have spans: "distinct (map (span_of ss) ?ids)" by (simp only:)
  have "move_mentions w ?ids ?E ss =
    (filter (\<lambda>i. span_of ss i \<notin> set ?E) ?ids,
     map (\<lambda>s. if sg_id s \<in> set ?ids then s\<lparr> sg_entity := w \<rparr> else s)
       (filter (\<lambda>s. \<not> (sg_id s \<in> set ?ids \<and> sg_span s \<in> set ?E)) ss))"
    by (rule move_mentions_eq [OF assms(1) _ spans]) auto
  moreover have "filter (\<lambda>i. span_of ss i \<notin> set ?E) ?ids =
      map sg_id (filter (\<lambda>s. sg_entity s = l \<and> \<not> covered w ss s) ss)"
    unfolding filter_map filter_filter cov [symmetric]
    by (intro arg_cong [where f = "map sg_id"] filter_cong) (auto simp: span_of_in [OF assms(1)])
  moreover have "filter (\<lambda>s. \<not> (sg_id s \<in> set ?ids \<and> sg_span s \<in> set ?E)) ss =
      filter (\<lambda>s. \<not> (sg_entity s = l \<and> covered w ss s)) ss"
    by (rule filter_cong) (simp_all only: mem cov)
  moreover have "map (\<lambda>s. if sg_id s \<in> set ?ids then s\<lparr> sg_entity := w \<rparr> else s)
       (filter (\<lambda>s. \<not> (sg_entity s = l \<and> covered w ss s)) ss) =
     map (\<lambda>s. if sg_entity s = l then s\<lparr> sg_entity := w \<rparr> else s)
       (filter (\<lambda>s. \<not> (sg_entity s = l \<and> covered w ss s)) ss)"
    by (rule map_cong) (simp_all only: set_filter mem_Collect_eq mem)
  ultimately show ?thesis unfolding repoint_def by (simp only:)
qed

section \<open>The invariant of the tables\<close>

text \<open>Pointers form a forest, the merges in force are exactly the pointers, one per loser, and every sighting
  is of an entity that exists, at most one per entity and span.\<close>

definition in_force :: "entity_merge list \<Rightarrow> nat \<Rightarrow> nat list" where
  "in_force merges l = map mg_winner (filter (\<lambda>m. mg_status m = APPLIED \<and> mg_loser m = l) merges)"

fun option_list :: "'a option \<Rightarrow> 'a list" where
  "option_list None = []"
| "option_list (Some x) = [x]"

definition base_ok :: "entity_base \<Rightarrow> bool" where
  "base_ok eb \<longleftrightarrow>
     forest (eb_entities eb) \<and>
     (\<forall>e \<in> set (eb_entities eb). in_force (eb_merges eb) (en_id e) = option_list (en_merged_into e)) \<and>
     (\<forall>m \<in> set (eb_merges eb). mg_loser m \<in> en_id ` set (eb_entities eb)) \<and>
     distinct (map mg_id (eb_merges eb)) \<and>
     distinct (map sg_id (eb_sightings eb)) \<and> spans_unique (eb_sightings eb) \<and>
     sg_entity ` set (eb_sightings eb) \<subseteq> en_id ` set (eb_entities eb) \<and>
     (\<forall>i \<in> en_id ` set (eb_entities eb) \<union> sg_id ` set (eb_sightings eb) \<union> mg_id ` set (eb_merges eb).
        i < eb_next_id eb)"

lemma base_okE:
  assumes "base_ok eb"
  shows "forest (eb_entities eb)"
    and "e \<in> set (eb_entities eb) \<Longrightarrow> in_force (eb_merges eb) (en_id e) = option_list (en_merged_into e)"
    and "m \<in> set (eb_merges eb) \<Longrightarrow> mg_loser m \<in> en_id ` set (eb_entities eb)"
    and "distinct (map mg_id (eb_merges eb))"
    and "distinct (map sg_id (eb_sightings eb))" and "spans_unique (eb_sightings eb)"
    and "sg_entity ` set (eb_sightings eb) \<subseteq> en_id ` set (eb_entities eb)"
    and "i \<in> en_id ` set (eb_entities eb) \<Longrightarrow> i < eb_next_id eb"
    and "i \<in> sg_id ` set (eb_sightings eb) \<Longrightarrow> i < eb_next_id eb"
    and "i \<in> mg_id ` set (eb_merges eb) \<Longrightarrow> i < eb_next_id eb"
  using assms unfolding base_ok_def by blast+

lemma in_force_pointer:
  assumes "base_ok eb" and "i \<in> en_id ` set (eb_entities eb)"
  shows "in_force (eb_merges eb) i = option_list (pointer (eb_entities eb) i)"
proof -
  obtain e where e: "e \<in> set (eb_entities eb)" "en_id e = i" using assms(2) by auto
  have "distinct (map en_id (eb_entities eb))" using base_okE(1) [OF assms(1)] by (simp add: forest_def)
  with e have "pointer (eb_entities eb) i = en_merged_into e" by (auto simp: pointer_def entity_get_distinct)
  then show ?thesis using base_okE(2) [OF assms(1) e(1)] e(2) by simp
qed

lemma base_okI:
  assumes "forest (eb_entities eb)"
    and "\<And>i. i \<in> en_id ` set (eb_entities eb) \<Longrightarrow> in_force (eb_merges eb) i = option_list (pointer (eb_entities eb) i)"
    and "\<And>m. m \<in> set (eb_merges eb) \<Longrightarrow> mg_loser m \<in> en_id ` set (eb_entities eb)"
    and "distinct (map mg_id (eb_merges eb))"
    and "distinct (map sg_id (eb_sightings eb))" and "spans_unique (eb_sightings eb)"
    and "sg_entity ` set (eb_sightings eb) \<subseteq> en_id ` set (eb_entities eb)"
    and "\<And>i. i \<in> en_id ` set (eb_entities eb) \<Longrightarrow> i < eb_next_id eb"
    and "\<And>i. i \<in> sg_id ` set (eb_sightings eb) \<Longrightarrow> i < eb_next_id eb"
    and "\<And>i. i \<in> mg_id ` set (eb_merges eb) \<Longrightarrow> i < eb_next_id eb"
  shows "base_ok eb"
proof -
  have "in_force (eb_merges eb) (en_id e) = option_list (en_merged_into e)" if "e \<in> set (eb_entities eb)" for e
  proof -
    have "distinct (map en_id (eb_entities eb))" using assms(1) by (simp add: forest_def)
    with that have "pointer (eb_entities eb) (en_id e) = en_merged_into e" by (simp add: pointer_def entity_get_distinct)
    then show ?thesis using assms(2) [of "en_id e"] that by simp
  qed
  then show ?thesis unfolding base_ok_def
    by (intro conjI ballI assms(1) assms(3-7)) (use assms(8-10) in auto)
qed

lemma queue_sync_frame [frame_simps]:
  "eb_entities (queue_sync rs now ids eb) = eb_entities eb"
  "eb_sightings (queue_sync rs now ids eb) = eb_sightings eb"
  "eb_merges (queue_sync rs now ids eb) = eb_merges eb"
  "eb_versions (queue_sync rs now ids eb) = eb_versions eb"
  "eb_next_id eb \<le> eb_next_id (queue_sync rs now ids eb)"
  by (simp_all add: queue_sync_def)

lemma base_ok_frame:
  assumes "base_ok eb" and "eb_entities eb' = eb_entities eb" and "eb_sightings eb' = eb_sightings eb"
    and "eb_merges eb' = eb_merges eb" and "eb_next_id eb \<le> eb_next_id eb'"
  shows "base_ok eb'"
proof (rule base_okI)
  note keep = base_okE [OF assms(1)]
  show "in_force (eb_merges eb') i = option_list (pointer (eb_entities eb') i)" if "i \<in> en_id ` set (eb_entities eb')" for i
    using in_force_pointer [OF assms(1)] that by (simp add: assms(2,4))
  show "i < eb_next_id eb'" if "i \<in> en_id ` set (eb_entities eb')" for i
    using keep(8) that assms(2,5) by fastforce
  show "i < eb_next_id eb'" if "i \<in> sg_id ` set (eb_sightings eb')" for i
    using keep(9) that assms(3,5) by fastforce
  show "i < eb_next_id eb'" if "i \<in> mg_id ` set (eb_merges eb')" for i
    using keep(10) that assms(4,5) by fastforce
qed (use base_okE [OF assms(1)] in \<open>simp_all add: assms(2-4)\<close>)

lemma base_ok_queue_sync: "base_ok eb \<Longrightarrow> base_ok (queue_sync rs now ids eb)"
  by (erule base_ok_frame) (simp_all add: frame_simps)


section \<open>Every operation keeps it\<close>

lemma repoint_spans:
  assumes "distinct (map sg_id ss)" and "spans_unique ss"
  shows "spans_unique (snd (repoint w l ss))"
proof -
  let ?keep = "filter (\<lambda>s. \<not> (sg_entity s = l \<and> covered w ss s)) ss"
  let ?move = "\<lambda>s. if sg_entity s = l then s\<lparr> sg_entity := w \<rparr> else s"
  let ?key = "\<lambda>s. (sg_entity s, sg_span s)"
  have key: "a = b" if "a \<in> set ss" "b \<in> set ss" "sg_entity a = sg_entity b" "sg_span a = sg_span b" for a b
    using assms(2) that by (auto simp: spans_unique_def distinct_map inj_on_def)
  have "distinct ?keep" using assms(1) by (simp add: distinct_map)
  moreover have "inj_on (?key \<circ> ?move) (set ?keep)"
  proof (rule inj_onI)
    fix a b assume ab: "a \<in> set ?keep" "b \<in> set ?keep" and eq: "(?key \<circ> ?move) a = (?key \<circ> ?move) b"
    have span: "sg_span a = sg_span b" using eq by (auto split: if_splits)
    have clash: False if "x \<in> set ?keep" "y \<in> set ss" "sg_entity x = l" "sg_entity y = w" "sg_span x = sg_span y" for x y
      using that by (auto simp: covered_def list_ex_iff)
    show "a = b"
    proof (cases "sg_entity a = sg_entity b")
      case True
      with key [of a b] ab span show ?thesis by simp
    next
      case False
      then have "sg_entity a = l \<and> sg_entity b = w \<or> sg_entity b = l \<and> sg_entity a = w"
        using eq by (auto split: if_splits)
      then show ?thesis using clash [of a b] clash [of b a] ab span by auto
    qed
  qed
  ultimately have "distinct (map (?key \<circ> ?move) ?keep)" by (simp add: distinct_map)
  then show ?thesis by (simp only: repoint_eq [OF assms] snd_conv spans_unique_def map_map)
qed

lemma repoint_rows:
  assumes "distinct (map sg_id ss)" and "spans_unique ss"
  shows "map sg_id (snd (repoint w l ss)) = map sg_id (filter (\<lambda>s. \<not> (sg_entity s = l \<and> covered w ss s)) ss)"
    and "sg_entity ` set (snd (repoint w l ss)) \<subseteq> insert w (sg_entity ` set ss - {l})"
  by (auto simp: repoint_eq [OF assms])

lemma apply_merge_Inr:
  assumes "apply_merge rs now c eb = (Inr (Some n), eb')"
  obtains w l where "resolve_pair eb (mc_left c) (mc_right c) = Some (w, l)"
    and "n = length (fst (repoint w l (eb_sightings eb)))"
    and "eb' = queue_sync rs now [w, l]
                 (eb\<lparr> eb_entities := set_merged_into l (Some w) (eb_entities eb),
                      eb_sightings := snd (repoint w l (eb_sightings eb)),
                      eb_merges := eb_merges eb @
                        [merge_row (eb_next_id eb) w l c APPLIED (fst (repoint w l (eb_sightings eb))) (Some now)],
                      eb_next_id := Suc (eb_next_id eb) \<rparr>)"
  using assms by (auto simp: apply_merge_def Let_def split_beta split: option.splits if_splits)

lemma apply_merge_other: "fst (apply_merge rs now c eb) = Inl e \<or> fst (apply_merge rs now c eb) = Inr None \<Longrightarrow>
  snd (apply_merge rs now c eb) = eb"
  by (auto simp: apply_merge_def Let_def split_beta split: option.splits if_splits)

lemma in_force_append:
  "in_force (ms @ [m]) l = in_force ms l @ (if mg_status m = APPLIED \<and> mg_loser m = l then [mg_winner m] else [])"
  by (simp add: in_force_def)

lemma base_ok_apply [inv_intros]:
  assumes "base_ok eb"
  shows "base_ok (snd (apply_merge rs now c eb))"
proof (cases "\<exists>n. fst (apply_merge rs now c eb) = Inr (Some n)")
  case False
  then have "snd (apply_merge rs now c eb) = eb"
    by (cases "fst (apply_merge rs now c eb)") (auto intro!: apply_merge_other)
  then show ?thesis using assms by simp
next
  case True
  define eb' where "eb' = snd (apply_merge rs now c eb)"
  from True obtain n where "apply_merge rs now c eb = (Inr (Some n), eb')" unfolding eb'_def by (metis prod.collapse)
  then obtain w l where pair: "resolve_pair eb (mc_left c) (mc_right c) = Some (w, l)"
    and eb': "eb' = queue_sync rs now [w, l]
                 (eb\<lparr> eb_entities := set_merged_into l (Some w) (eb_entities eb),
                      eb_sightings := snd (repoint w l (eb_sightings eb)),
                      eb_merges := eb_merges eb @
                        [merge_row (eb_next_id eb) w l c APPLIED (fst (repoint w l (eb_sightings eb))) (Some now)],
                      eb_next_id := Suc (eb_next_id eb) \<rparr>)" by (rule apply_merge_Inr)
  define row where "row = merge_row (eb_next_id eb) w l c APPLIED (fst (repoint w l (eb_sightings eb))) (Some now)"
  have row: "mg_id row = eb_next_id eb" "mg_winner row = w" "mg_loser row = l" "mg_status row = APPLIED"
    by (simp_all add: row_def merge_row_def)
  define ss where "ss = snd (repoint w l (eb_sightings eb))"
  have parts: "eb_entities eb' = set_merged_into l (Some w) (eb_entities eb)" "eb_sightings eb' = ss"
      "eb_merges eb' = eb_merges eb @ [row]" "eb_next_id eb < eb_next_id eb'"
    using frame_simps(5) [of "eb\<lparr> eb_next_id := Suc (eb_next_id eb) \<rparr>" rs now]
    by (simp_all add: eb' row_def ss_def frame_simps) (simp add: queue_sync_def)
  note wl = resolve_pair_Some [OF pair]
  note ok = base_okE [OF assms]
  have ids: "en_id ` set (set_merged_into l (Some w) (eb_entities eb)) = en_id ` set (eb_entities eb)"
    by (metis ids_set_merged_into list.set_map)
  note rows = repoint_rows [OF ok(5,6), of w l, folded ss_def]
  have sub: "sg_id ` set ss \<subseteq> sg_id ` set (eb_sightings eb)"
    using arg_cong [OF rows(1), of set] by auto
  have "base_ok eb'"
  proof (rule base_okI; unfold parts ids)
    show "forest (set_merged_into l (Some w) (eb_entities eb))" by (rule forest_merge [OF ok(1) wl(2,3,1,4,5)])
    show "in_force (eb_merges eb @ [row]) i = option_list (pointer (set_merged_into l (Some w) (eb_entities eb)) i)"
      if "i \<in> en_id ` set (eb_entities eb)" for i
      using in_force_pointer [OF assms that] wl(3) by (simp add: in_force_append row pointer_set [OF wl(5)])
    show "mg_loser m \<in> en_id ` set (eb_entities eb)" if "m \<in> set (eb_merges eb @ [row])" for m
      using that ok(3) wl(5) row(3) by auto
    show "distinct (map mg_id (eb_merges eb @ [row]))" using ok(4) ok(10) row(1) by force
    show "distinct (map sg_id ss)" unfolding rows(1) using ok(5) by (rule distinct_map_filter)
    show "spans_unique ss" unfolding ss_def by (rule repoint_spans [OF ok(5,6)])
    show "sg_entity ` set ss \<subseteq> en_id ` set (eb_entities eb)" using rows(2) ok(7) wl(4) by blast
    show "i < eb_next_id eb'" if "i \<in> en_id ` set (eb_entities eb)" for i using ok(8) [OF that] parts(4) by simp
    show "i < eb_next_id eb'" if "i \<in> sg_id ` set ss" for i using ok(9) [of i] that sub parts(4) by fastforce
    show "i < eb_next_id eb'" if "i \<in> mg_id ` set (eb_merges eb @ [row])" for i
      using that ok(10) [of i] row(1) parts(4) by auto
  qed
  then show ?thesis by (simp only: eb'_def)
qed

lemma revert_Inr:
  assumes "revert rs now i eb = (Inr n, eb')"
  obtains m where "m \<in> set (eb_merges eb)" and "mg_id m = i" and "mg_status m = APPLIED" and "n = length (mg_moved m)"
    and "find (\<lambda>m. mg_id m = i) (eb_merges eb) = Some m"
    and "spans_unique (update_where (\<lambda>s. sg_id s \<in> set (mg_moved m)) (\<lambda>s. s\<lparr> sg_entity := mg_loser m \<rparr>) (eb_sightings eb))"
    and "eb' = queue_sync rs now [mg_winner m, mg_loser m]
          (eb\<lparr> eb_sightings := update_where (\<lambda>s. sg_id s \<in> set (mg_moved m)) (\<lambda>s. s\<lparr> sg_entity := mg_loser m \<rparr>) (eb_sightings eb),
               eb_entities := set_merged_into (mg_loser m) None (eb_entities eb),
               eb_merges := update_where (\<lambda>r. mg_id r = i)
                  (\<lambda>r. r\<lparr> mg_status := REVERTED, mg_reverted_at := Some now \<rparr>) (eb_merges eb) \<rparr>)"
  using assms by (auto simp: revert_def Let_def split: option.splits if_splits dest!: find_SomeD)

lemma revert_other: "fst (revert rs now i eb) = Inl e \<Longrightarrow> snd (revert rs now i eb) = eb"
  by (auto simp: revert_def Let_def split: option.splits if_splits)

lemma in_force_revert:
  assumes "distinct (map mg_id ms)" and "m \<in> set ms" and "mg_id m = i" and "mg_status m = APPLIED"
    and "length (in_force ms (mg_loser m)) \<le> 1"
  shows "in_force (update_where (\<lambda>r. mg_id r = i) (\<lambda>r. r\<lparr> mg_status := REVERTED, mg_reverted_at := t \<rparr>) ms) l =
           (if l = mg_loser m then [] else in_force ms l)"
proof -
  have uniq: "r = m" if "r \<in> set ms" "mg_id r = i" for r
    using that assms(1-3) by (auto simp: distinct_map inj_on_def)
  let ?u = "update_where (\<lambda>r. mg_id r = i) (\<lambda>r. r\<lparr> mg_status := REVERTED, mg_reverted_at := t \<rparr>) ms"
  have filter: "filter (\<lambda>r. mg_status r = APPLIED \<and> mg_loser r = l) ?u =
      filter (\<lambda>r. mg_id r \<noteq> i \<and> mg_status r = APPLIED \<and> mg_loser r = l) ms" for l
    by (induction ms) auto
  show ?thesis
  proof (cases "l = mg_loser m")
    case True
    have "m \<in> set (filter (\<lambda>r. mg_status r = APPLIED \<and> mg_loser r = l) ms)" using assms(2,4) True by simp
    moreover have "length (filter (\<lambda>r. mg_status r = APPLIED \<and> mg_loser r = l) ms) \<le> 1"
      using assms(5) True by (simp add: in_force_def)
    ultimately have only: "filter (\<lambda>r. mg_status r = APPLIED \<and> mg_loser r = l) ms = [m]"
      by (cases "filter (\<lambda>r. mg_status r = APPLIED \<and> mg_loser r = l) ms") auto
    have "r = m" if "r \<in> set ms" "mg_status r = APPLIED" "mg_loser r = l" for r
      using that only by (metis (mono_tags, lifting) empty_iff insert_iff list.set(1,2) mem_Collect_eq set_filter)
    then have "filter (\<lambda>r. mg_id r \<noteq> i \<and> mg_status r = APPLIED \<and> mg_loser r = l) ms = []"
      using assms(3) by (auto simp: filter_empty_conv)
    then show ?thesis unfolding in_force_def filter using True by simp
  next
    case False
    have "filter (\<lambda>r. mg_id r \<noteq> i \<and> mg_status r = APPLIED \<and> mg_loser r = l) ms =
        filter (\<lambda>r. mg_status r = APPLIED \<and> mg_loser r = l) ms"
      by (rule filter_cong) (use uniq False in auto)
    then show ?thesis unfolding in_force_def filter using False by simp
  qed
qed

lemma base_ok_revert [inv_intros]:
  assumes "base_ok eb"
  shows "base_ok (snd (revert rs now i eb))"
proof (cases "fst (revert rs now i eb)")
  case (Inl e)
  then show ?thesis using assms revert_other by metis
next
  case (Inr n)
  define eb' where "eb' = snd (revert rs now i eb)"
  from Inr have "revert rs now i eb = (Inr n, eb')" unfolding eb'_def by (metis prod.collapse)
  then obtain m where m: "m \<in> set (eb_merges eb)" "mg_id m = i" "mg_status m = APPLIED"
    and spans: "spans_unique (update_where (\<lambda>s. sg_id s \<in> set (mg_moved m)) (\<lambda>s. s\<lparr> sg_entity := mg_loser m \<rparr>) (eb_sightings eb))"
    and eb': "eb' = queue_sync rs now [mg_winner m, mg_loser m]
          (eb\<lparr> eb_sightings := update_where (\<lambda>s. sg_id s \<in> set (mg_moved m)) (\<lambda>s. s\<lparr> sg_entity := mg_loser m \<rparr>) (eb_sightings eb),
               eb_entities := set_merged_into (mg_loser m) None (eb_entities eb),
               eb_merges := update_where (\<lambda>r. mg_id r = i)
                  (\<lambda>r. r\<lparr> mg_status := REVERTED, mg_reverted_at := Some now \<rparr>) (eb_merges eb) \<rparr>)"
    by (rule revert_Inr)
  define ss where "ss = update_where (\<lambda>s. sg_id s \<in> set (mg_moved m)) (\<lambda>s. s\<lparr> sg_entity := mg_loser m \<rparr>) (eb_sightings eb)"
  define ms where "ms = update_where (\<lambda>r. mg_id r = i) (\<lambda>r. r\<lparr> mg_status := REVERTED, mg_reverted_at := Some now \<rparr>) (eb_merges eb)"
  have parts: "eb_entities eb' = set_merged_into (mg_loser m) None (eb_entities eb)" "eb_sightings eb' = ss"
      "eb_merges eb' = ms" "eb_next_id eb \<le> eb_next_id eb'"
    by (simp_all add: eb' ss_def ms_def frame_simps) (simp add: queue_sync_def)
  note ok = base_okE [OF assms]
  have l: "mg_loser m \<in> en_id ` set (eb_entities eb)" by (rule ok(3) [OF m(1)])
  have one: "length (in_force (eb_merges eb) (mg_loser m)) \<le> 1"
    using in_force_pointer [OF assms l] by (cases "pointer (eb_entities eb) (mg_loser m)") simp_all
  have ids: "en_id ` set (set_merged_into (mg_loser m) None (eb_entities eb)) = en_id ` set (eb_entities eb)"
    by (metis ids_set_merged_into list.set_map)
  have mids: "map mg_id ms = map mg_id (eb_merges eb)" and sids: "map sg_id ss = map sg_id (eb_sightings eb)"
    by (simp_all add: ms_def ss_def)
  have "base_ok eb'"
  proof (rule base_okI; unfold parts ids mids sids)
    show "forest (set_merged_into (mg_loser m) None (eb_entities eb))" by (rule forest_unmerge [OF ok(1) l])
    show "in_force ms j = option_list (pointer (set_merged_into (mg_loser m) None (eb_entities eb)) j)"
      if "j \<in> en_id ` set (eb_entities eb)" for j
      using in_force_pointer [OF assms that]
      by (simp add: ms_def in_force_revert [OF ok(4) m one] pointer_set [OF l])
    show "mg_loser r \<in> en_id ` set (eb_entities eb)" if "r \<in> set ms" for r
      using that ok(3) unfolding ms_def by (auto elim!: in_update_whereE split: if_splits)
    show "sg_entity ` set ss \<subseteq> en_id ` set (eb_entities eb)"
      using ok(7) l unfolding ss_def by (auto elim!: in_update_whereE split: if_splits)
    show "j < eb_next_id eb'" if "j \<in> en_id ` set (eb_entities eb)" for j using ok(8) [OF that] parts(4) by simp
    show "j < eb_next_id eb'" if "j \<in> sg_id ` set ss" for j
      using that ok(9) [of j] arg_cong [OF sids, of set] parts(4) by simp
    show "j < eb_next_id eb'" if "j \<in> mg_id ` set ms" for j
      using that ok(10) [of j] arg_cong [OF mids, of set] parts(4) by simp
  qed (use ok spans in \<open>simp_all add: ss_def\<close>)
  then show ?thesis by (simp only: eb'_def)
qed


lemma base_ok_pending [inv_intros]:
  assumes "base_ok eb"
  shows "base_ok (snd (record_pending c eb))"
proof -
  note ok = base_okE [OF assms]
  have "base_ok (eb\<lparr> eb_merges := eb_merges eb @ [merge_row (eb_next_id eb) w l c MERGE_PENDING [] None],
                   eb_next_id := Suc (eb_next_id eb) \<rparr>)"
    if "resolve_pair eb (mc_left c) (mc_right c) = Some (w, l)" for w l
  proof -
    define row where "row = merge_row (eb_next_id eb) w l c MERGE_PENDING [] None"
    have row: "mg_id row = eb_next_id eb" "mg_loser row = l" "mg_status row = MERGE_PENDING"
      by (simp_all add: row_def merge_row_def)
    have "base_ok (eb\<lparr> eb_merges := eb_merges eb @ [row], eb_next_id := Suc (eb_next_id eb) \<rparr>)"
    proof (rule base_okI)
      show "in_force (eb_merges (eb\<lparr> eb_merges := eb_merges eb @ [row], eb_next_id := Suc (eb_next_id eb) \<rparr>)) i =
          option_list (pointer (eb_entities (eb\<lparr> eb_merges := eb_merges eb @ [row], eb_next_id := Suc (eb_next_id eb) \<rparr>)) i)"
        if "i \<in> en_id ` set (eb_entities (eb\<lparr> eb_merges := eb_merges eb @ [row], eb_next_id := Suc (eb_next_id eb) \<rparr>))" for i
        using in_force_pointer [OF assms, of i] that by (simp add: in_force_append row)
      show "distinct (map mg_id (eb_merges (eb\<lparr> eb_merges := eb_merges eb @ [row], eb_next_id := Suc (eb_next_id eb) \<rparr>)))"
        using ok(4) ok(10) row(1) by force
      show "mg_loser m \<in> en_id ` set (eb_entities (eb\<lparr> eb_merges := eb_merges eb @ [row], eb_next_id := Suc (eb_next_id eb) \<rparr>))"
        if "m \<in> set (eb_merges (eb\<lparr> eb_merges := eb_merges eb @ [row], eb_next_id := Suc (eb_next_id eb) \<rparr>))" for m
        using that ok(3) resolve_pair_Some(5) [OF \<open>resolve_pair eb _ _ = _\<close>] by (auto simp: row)
    qed (use ok row in \<open>auto intro: less_SucI\<close>)
    then show ?thesis by (simp only: row_def)
  qed
  with assms show ?thesis by (auto simp: record_pending_def Let_def split: option.split)
qed

lemma pointer_append:
  assumes "en_id e \<notin> en_id ` set es" and "en_merged_into e = None"
  shows "pointer (es @ [e]) = pointer es"
proof
  fix i
  have "entity_get i (es @ [e]) = (case entity_get i es of None \<Rightarrow> if en_id e = i then Some e else None | Some x \<Rightarrow> Some x)"
    by (induction es) (auto simp: entity_get_def)
  then show "pointer (es @ [e]) i = pointer es i" using assms(2) by (simp add: pointer_def split: option.split)
qed

lemma base_ok_new_entity:
  assumes "base_ok eb" and "en_id e = eb_next_id eb" and "en_merged_into e = None"
  shows "base_ok (eb\<lparr> eb_entities := eb_entities eb @ [e], eb_next_id := Suc (eb_next_id eb) \<rparr>)"
proof -
  note ok = base_okE [OF assms(1)]
  have fresh: "en_id e \<notin> en_id ` set (eb_entities eb)" using ok(8) assms(2) by force
  note p = pointer_append [OF fresh assms(3)]
  have "forest (eb_entities eb @ [e])"
    using ok(1) fresh by (auto simp: forest_def points_def p)
  moreover have "in_force (eb_merges eb) i = option_list (pointer (eb_entities eb) i)"
    if "i = en_id e \<or> i \<in> en_id ` set (eb_entities eb)" for i
  proof (cases "i = en_id e")
    case True
    have "mg_loser m \<noteq> i" if "m \<in> set (eb_merges eb)" for m using ok(3) [OF that] fresh True by auto
    then have "in_force (eb_merges eb) i = []" by (simp add: in_force_def filter_empty_conv)
    moreover have "pointer (eb_entities eb) i = None"
      using True fresh by (simp add: pointer_def entity_get_None split: option.split)
        (metis entity_get_None option.distinct(1))
    ultimately show ?thesis by simp
  next
    case False
    then show ?thesis using that in_force_pointer [OF assms(1)] by blast
  qed
  ultimately show ?thesis
    by (intro base_okI) (use ok assms(2) p in \<open>auto intro: less_SucI\<close>)
qed

lemma follow_merge_in:
  "forest es \<Longrightarrow> i \<in> en_id ` set es \<Longrightarrow> follow_merge es d i \<in> en_id ` set es"
proof (induction es d i rule: follow_merge.induct)
  case (2 es d i)
  have "j \<in> en_id ` set es" if "entity_get i es = Some e" "en_merged_into e = Some j" for e j
  proof -
    have "(i, j) \<in> points es" using that by (simp add: points_def pointer_def)
    then show ?thesis using 2(2) by (auto simp: forest_def)
  qed
  with 2 show ?case by (auto split: option.split)
qed simp

lemma base_ok_upsert:
  assumes "base_ok eb" and "upsert_entity ex now c eb = ((i, created), eb')"
  shows "base_ok eb'" and "i \<in> en_id ` set (eb_entities eb')"
proof -
  let ?p = "\<lambda>e. en_canonical e = canonical_entity_name (ex_casefold ex) (xe_name c) \<and> en_type e = xe_type c"
  note ok = base_okE [OF assms(1)]
  have "base_ok eb' \<and> i \<in> en_id ` set (eb_entities eb')"
  proof (cases "find ?p (eb_entities eb)")
    case None
    then show ?thesis
      using assms base_ok_new_entity [OF assms(1)] by (auto simp: upsert_entity_def Let_def)
  next
    case (Some e)
    then have e: "e \<in> set (eb_entities eb)" by (auto dest: find_SomeD)
    have "follow_merge (eb_entities eb) FOLLOW_DEPTH j \<in> en_id ` set (eb_entities eb)" if "en_merged_into e = Some j" for j
    proof (rule follow_merge_in [OF ok(1)])
      have "entity_get (en_id e) (eb_entities eb) = Some e"
        using ok(1) e by (simp add: forest_def entity_get_distinct)
      then have "(en_id e, j) \<in> points (eb_entities eb)" using that by (simp add: points_def pointer_def)
      then show "j \<in> en_id ` set (eb_entities eb)" using ok(1) by (auto simp: forest_def)
    qed
    then show ?thesis using assms Some e by (auto simp: upsert_entity_def Let_def split: option.splits)
  qed
  then show "base_ok eb'" "i \<in> en_id ` set (eb_entities eb')" by simp_all
qed

lemma base_ok_insert_mention:
  assumes "base_ok eb" and "i \<in> en_id ` set (eb_entities eb)"
  shows "base_ok (insert_mention ex memory_id chunk_id c i eb)"
proof -
  note ok = base_okE [OF assms(1)]
  define row where "row = \<lparr> sg_id = eb_next_id eb, sg_entity = i, sg_memory = memory_id, sg_chunk = chunk_id,
                  sg_char_start = xe_char_start c, sg_char_end = xe_char_end c,
                  sg_confidence = Some (xe_confidence c), sg_extractor_version = ex_version ex \<rparr>"
  define ss where "ss = (if list_ex (\<lambda>s. sg_entity s = i \<and> sg_span s = sg_span row) (eb_sightings eb)
                         then eb_sightings eb else eb_sightings eb @ [row])"
  have eq: "insert_mention ex memory_id chunk_id c i eb = eb\<lparr> eb_sightings := ss, eb_next_id := Suc (eb_next_id eb) \<rparr>"
    by (simp add: insert_mention_def row_def ss_def Let_def)
  have row: "sg_id row = eb_next_id eb" "sg_entity row = i" by (simp_all add: row_def)
  have ids: "distinct (map sg_id ss)" using ok(5) ok(9) row by (force simp: ss_def)
  have spans: "spans_unique ss"
    using ok(6) row by (auto simp: ss_def spans_unique_def list_ex_iff)
  have ents: "sg_entity ` set ss \<subseteq> en_id ` set (eb_entities eb)" using ok(7) assms(2) row by (auto simp: ss_def)
  have less: "j < Suc (eb_next_id eb)" if "j \<in> sg_id ` set ss" for j
    using that ok(9) row by (auto simp: ss_def less_SucI split: if_splits)
  show ?thesis unfolding eq
    by (intro base_okI) (use ok ids spans ents less in_force_pointer [OF assms(1)] in \<open>auto intro: less_SucI\<close>)
qed

lemma base_ok_store_chunk:
  "store_chunk ex now memory_id ch cs report eb = Inr (r, eb') \<Longrightarrow> base_ok eb \<Longrightarrow> base_ok eb'"
proof (induction ex now memory_id ch cs report eb rule: store_chunk.induct)
  case (2 ex now memory_id ch c cs report eb)
  obtain i created eb1 where up: "upsert_entity ex now c eb = ((i, created), eb1)" by (metis prod.collapse)
  have "base_ok (insert_mention ex memory_id (fst ch) c i eb1)"
    using base_ok_insert_mention base_ok_upsert [OF 2(4) up] by blast
  then show ?case using 2 up by (simp split: if_splits)
qed simp

lemma base_ok_store_chunks:
  "store_chunks ex now memory_id chunks found report eb = Inr (r, eb') \<Longrightarrow> base_ok eb \<Longrightarrow> base_ok eb'"
proof (induction ex now memory_id chunks found report eb rule: store_chunks.induct)
  case (2 ex now memory_id ch chunks cs found report eb)
  obtain r1 eb1 where st: "store_chunk ex now memory_id ch cs report eb = Inr (r1, eb1)"
    using 2(2) by (auto split: sum.splits)
  have "base_ok eb1" by (rule base_ok_store_chunk [OF st 2(3)])
  then show ?case using 2 st by simp
qed simp_all

lemma base_ok_forget:
  assumes "base_ok eb"
  shows "base_ok (eb\<lparr> eb_sightings := filter p (eb_sightings eb), eb_versions := vs \<rparr>)"
proof -
  note ok = base_okE [OF assms]
  have "spans_unique (filter p (eb_sightings eb))"
    using ok(6) unfolding spans_unique_def by (rule distinct_map_filter)
  moreover have "distinct (map sg_id (filter p (eb_sightings eb)))" using ok(5) by (rule distinct_map_filter)
  ultimately show ?thesis
    by (intro base_okI) (use ok in_force_pointer [OF assms] in auto)
qed

lemma base_ok_extract [inv_intros]:
  assumes "base_ok eb"
  shows "base_ok (snd (extract_entities ex rs now memory_id l eb))"
proof -
  have stored: "base_ok eb'" if "store_mentions ex now memory_id chunks found eb = Inr (r, eb')" for chunks found r eb'
    using that base_ok_store_chunks base_ok_forget [OF assms] unfolding store_mentions_def by blast
  have jobs: "base_ok (eb'\<lparr> eb_jobs := js, eb_next_id := Suc (eb_next_id eb') \<rparr>)" if "base_ok eb'" for eb' js
    using that by (rule base_ok_frame) simp_all
  show ?thesis
    unfolding extract_entities_def Let_def
    by (auto simp: assms stored jobs split: option.split sum.split)
qed

section \<open>Reachable tables\<close>

inductive resolution_step :: "entity_base \<Rightarrow> entity_base \<Rightarrow> bool" where
  apply_step: "resolution_step eb (snd (apply_merge rs now c eb))"
| revert_step: "resolution_step eb (snd (revert rs now i eb))"
| pending_step: "resolution_step eb (snd (record_pending c eb))"
| extract_step: "resolution_step eb (snd (extract_entities ex rs now memory_id l eb))"

definition empty_base :: "nat \<Rightarrow> entity_base" where
  "empty_base me = \<lparr> eb_user = me, eb_entities = [], eb_sightings = [], eb_merges = [], eb_versions = [],
                     eb_jobs = [], eb_next_id = 1 \<rparr>"

definition reachable_base :: "entity_base \<Rightarrow> bool" where
  "reachable_base eb \<longleftrightarrow> (\<exists>me. resolution_step\<^sup>*\<^sup>* (empty_base me) eb)"

lemma resolution_step_ok: "resolution_step eb eb' \<Longrightarrow> base_ok eb \<Longrightarrow> base_ok eb'"
  by (induction rule: resolution_step.induct) (auto intro: inv_intros)

lemma reachable_base_ok:
  assumes "reachable_base eb"
  shows "base_ok eb"
proof -
  obtain me where "resolution_step\<^sup>*\<^sup>* (empty_base me) eb" using assms by (auto simp: reachable_base_def)
  then show ?thesis
  proof (induction rule: rtranclp_induct)
    case base
    show ?case by (rule base_okI) (auto simp: empty_base_def forest_def points_def pointer_def entity_get_def
        spans_unique_def acyclic_def)
  next
    case (step y z)
    then show ?case using resolution_step_ok by blast
  qed
qed


section \<open>Properties\<close>

text \<open>C18 Merges form a forest: whatever merges, reversals, proposals and extractions are run, in any order, every
  entity leads along its pointers to an entity that is not merged, and an entity points at another exactly
  when one merge in force says so.\<close>

theorem merges_form_a_forest:
  assumes "reachable_base eb"
  shows "list_all (\<lambda>e. (\<exists>n root. follow (eb_entities eb) n (en_id e) = Some root) \<and>
             map mg_winner (filter (\<lambda>m. mg_status m = APPLIED \<and> mg_loser m = en_id e) (eb_merges eb)) =
             option_list (en_merged_into e)) (eb_entities eb)"
proof -
  note ok = base_okE [OF reachable_base_ok [OF assms]]
  show ?thesis
    using follow_terminates [OF ok(1)] ok(2) by (simp add: list_all_iff in_force_def)
qed

lemma apply_merge_runs:
  assumes "base_ok eb" and "resolve_pair eb (mc_left c) (mc_right c) = Some (w, l)"
    and "0 \<le> mc_confidence c" and "mc_confidence c \<le> 1"
  shows "\<exists>eb'. apply_merge rs now c eb = (Inr (Some (length (fst (repoint w l (eb_sightings eb))))), eb')"
proof -
  note wl = resolve_pair_Some [OF assms(2)]
  have "in_force (eb_merges eb) l = []" using in_force_pointer [OF assms(1) wl(5)] wl(3) by simp
  then have "\<not> list_ex (\<lambda>m. mg_status m = APPLIED \<and> mg_loser m = l) (eb_merges eb)"
    by (auto simp: in_force_def filter_empty_conv list_ex_iff)
  then show ?thesis
    using assms(2-4) wl(1) by (auto simp: apply_merge_def split_beta Let_def merge_row_ok_def merge_row_def)
qed

lemma moved_others:
  "w \<noteq> l \<Longrightarrow> filter (\<lambda>s. sg_entity s \<noteq> w \<and> sg_entity s \<noteq> l)
     (map (\<lambda>s. if sg_entity s = l then s\<lparr> sg_entity := w \<rparr> else s) (filter (\<lambda>s. \<not> (sg_entity s = l \<and> C s)) old)) =
   filter (\<lambda>s. sg_entity s \<noteq> w \<and> sg_entity s \<noteq> l) old"
  by (induction old) auto

lemma moved_spans:
  assumes "w \<noteq> l"
  shows "sg_span ` set (filter (\<lambda>s. sg_entity s = w)
      (map (\<lambda>s. if sg_entity s = l then s\<lparr> sg_entity := w \<rparr> else s)
        (filter (\<lambda>s. \<not> (sg_entity s = l \<and> covered w old s)) old))) =
    sg_span ` set (filter (\<lambda>s. sg_entity s = w \<or> sg_entity s = l) old)" (is "?L = ?R")
proof
  show "?L \<subseteq> ?R"
  proof (rule image_subsetI)
    fix t assume "t \<in> set (filter (\<lambda>s. sg_entity s = w) (map (\<lambda>s. if sg_entity s = l then s\<lparr> sg_entity := w \<rparr> else s)
        (filter (\<lambda>s. \<not> (sg_entity s = l \<and> covered w old s)) old)))"
    then obtain s where s: "s \<in> set old" and t: "t = (if sg_entity s = l then s\<lparr> sg_entity := w \<rparr> else s)"
      and w: "sg_entity t = w" by auto
    have "sg_span t = sg_span s" by (simp add: t)
    moreover have "sg_entity s = w \<or> sg_entity s = l" using w by (simp add: t split: if_splits)
    ultimately show "sg_span t \<in> ?R" using s by (intro image_eqI [of _ _ s]) auto
  qed
  show "?R \<subseteq> ?L"
  proof
    let ?f = "\<lambda>s. if sg_entity s = l then s\<lparr> sg_entity := w \<rparr> else s"
    have keep: "sg_span s \<in> ?L" if "s \<in> set old" "sg_entity s = w \<or> sg_entity s = l \<and> \<not> covered w old s" for s
    proof (rule image_eqI)
      show "sg_span s = sg_span (?f s)" by simp
      show "?f s \<in> set (filter (\<lambda>s. sg_entity s = w) (map ?f (filter (\<lambda>s. \<not> (sg_entity s = l \<and> covered w old s)) old)))"
        using that assms by (auto intro!: rev_image_eqI [of s])
    qed
    fix x assume "x \<in> ?R"
    then obtain s where s: "s \<in> set old" "sg_entity s = w \<or> sg_entity s = l" "x = sg_span s" by auto
    show "x \<in> ?L"
    proof (cases "sg_entity s = l \<and> covered w old s")
      case True
      then obtain r where "r \<in> set old" "sg_entity r = w" "sg_span r = sg_span s" by (auto simp: covered_def list_ex_iff)
      then show ?thesis using keep [of r] s(3) by simp
    next
      case False
      then show ?thesis using keep [of s] s by auto
    qed
  qed
qed

text \<open>C19 A merge loses no sighting: it succeeds on any two entities that lead to different ones, moves what was
  filed under the loser to the winner, drops only sightings the winner has at the same place, leaves the
  sightings of every other entity alone and reports how many moved.\<close>

theorem a_merge_loses_no_sighting:
  assumes "reachable_base eb" and "resolve_pair eb (mc_left c) (mc_right c) = Some (w, l)"
    and "0 \<le> mc_confidence c" and "mc_confidence c \<le> 1"
  shows "\<exists>n eb'. apply_merge rs now c eb = (Inr (Some n), eb') \<and>
     n = length (filter (\<lambda>s. sg_entity s = l \<and> \<not> covered w (eb_sightings eb) s) (eb_sightings eb)) \<and>
     (\<lambda>s. (sg_span s, sg_memory s)) ` set (filter (\<lambda>s. \<not> (sg_entity s = l \<and> covered w (eb_sightings eb) s)) (eb_sightings eb)) =
       (\<lambda>s. (sg_span s, sg_memory s)) ` set (eb_sightings eb') \<and>
     sg_span ` set (filter (\<lambda>s. sg_entity s = w) (eb_sightings eb')) =
       sg_span ` set (filter (\<lambda>s. sg_entity s = w \<or> sg_entity s = l) (eb_sightings eb)) \<and>
     filter (\<lambda>s. sg_entity s = l) (eb_sightings eb') = [] \<and>
     filter (\<lambda>s. sg_entity s \<noteq> w \<and> sg_entity s \<noteq> l) (eb_sightings eb') =
       filter (\<lambda>s. sg_entity s \<noteq> w \<and> sg_entity s \<noteq> l) (eb_sightings eb)"
proof -
  note ok = base_okE [OF reachable_base_ok [OF assms(1)]]
  have wl: "w \<noteq> l" by (rule resolve_pair_Some(1) [OF assms(2)])
  define old where "old = eb_sightings eb"
  note eq = repoint_eq [OF ok(5,6), of w l, folded old_def]
  obtain eb' where run: "apply_merge rs now c eb = (Inr (Some (length (fst (repoint w l old)))), eb')"
    using apply_merge_runs [OF reachable_base_ok [OF assms(1)] assms(2-4)] unfolding old_def by blast
  obtain w' l' where "resolve_pair eb (mc_left c) (mc_right c) = Some (w', l')"
    and "eb_sightings eb' = snd (repoint w' l' old)"
    using run by (rule apply_merge_Inr) (simp add: frame_simps old_def)
  then have new: "eb_sightings eb' = snd (repoint w l old)" using assms(2) by simp
  let ?keep = "filter (\<lambda>s. \<not> (sg_entity s = l \<and> covered w old s)) old"
  let ?move = "\<lambda>s. if sg_entity s = l then s\<lparr> sg_entity := w \<rparr> else s"
  have new: "eb_sightings eb' = map ?move ?keep" by (simp only: new eq snd_conv)
  have keeps: "sg_span (?move s) = sg_span s" "sg_memory (?move s) = sg_memory s" for s by simp_all
  have "(\<lambda>s. (sg_span s, sg_memory s)) ` set ?keep = (\<lambda>s. (sg_span s, sg_memory s)) ` set (map ?move ?keep)"
    unfolding set_map image_image keeps ..
  moreover have "sg_span ` set (filter (\<lambda>s. sg_entity s = w) (map ?move ?keep)) =
      sg_span ` set (filter (\<lambda>s. sg_entity s = w \<or> sg_entity s = l) old)"
    by (rule moved_spans [OF wl])
  moreover have "filter (\<lambda>s. sg_entity s = l) (map ?move ?keep) = []" using wl by (auto simp: filter_empty_conv)
  moreover have "filter (\<lambda>s. sg_entity s \<noteq> w \<and> sg_entity s \<noteq> l) (map ?move ?keep) =
      filter (\<lambda>s. sg_entity s \<noteq> w \<and> sg_entity s \<noteq> l) old"
    by (rule moved_others [OF wl])
  ultimately show ?thesis
    using run unfolding new [symmetric] old_def [symmetric] by (simp only: eq fst_conv length_map) blast
qed


lemma find_snoc: "(\<And>x. x \<in> set xs \<Longrightarrow> \<not> P x) \<Longrightarrow> P y \<Longrightarrow> find P (xs @ [y]) = Some y"
  by (induction xs) auto

text \<open>C28 Undoing the last merge restores the tables: the loser is an entity of its own again and every sighting is
  back where it was, in its row, but for those the merge dropped because the winner had them too.\<close>

theorem undoing_the_last_merge_restores:
  assumes "reachable_base eb" and "apply_merge rs now c eb = (Inr (Some n), eb')"
    and "resolve_pair eb (mc_left c) (mc_right c) = Some (w, l)"
  shows "\<exists>eb''. revert rs later (eb_next_id eb) eb' = (Inr n, eb'') \<and>
     eb_entities eb'' = eb_entities eb \<and>
     eb_sightings eb'' = filter (\<lambda>s. \<not> (sg_entity s = l \<and> covered w (eb_sightings eb) s)) (eb_sightings eb) \<and>
     filter (\<lambda>m. mg_status m = APPLIED) (eb_merges eb'') = filter (\<lambda>m. mg_status m = APPLIED) (eb_merges eb)"
proof -
  have inv: "base_ok eb" by (rule reachable_base_ok [OF assms(1)])
  note ok = base_okE [OF inv]
  define old where "old = eb_sightings eb"
  note eq = repoint_eq [OF ok(5,6), of w l, folded old_def]
  define row where "row = merge_row (eb_next_id eb) w l c APPLIED (fst (repoint w l old)) (Some now)"
  obtain n: "n = length (fst (repoint w l old))" and eb':
      "eb_entities eb' = set_merged_into l (Some w) (eb_entities eb)" "eb_sightings eb' = snd (repoint w l old)"
      "eb_merges eb' = eb_merges eb @ [row]"
    using assms(2) by (rule apply_merge_Inr) (use assms(3) in \<open>simp add: frame_simps old_def row_def\<close>)
  have row: "mg_id row = eb_next_id eb" "mg_winner row = w" "mg_loser row = l" "mg_status row = APPLIED"
      "mg_moved row = fst (repoint w l old)" by (simp_all add: row_def merge_row_def)
  have fresh: "mg_id m \<noteq> eb_next_id eb" if "m \<in> set (eb_merges eb)" for m using ok(10) [of "mg_id m"] that by auto
  have find: "find (\<lambda>m. mg_id m = eb_next_id eb) (eb_merges eb') = Some row"
    unfolding eb'(3) by (rule find_snoc) (use fresh row(1) in auto)
  let ?keep = "filter (\<lambda>s. \<not> (sg_entity s = l \<and> covered w old s)) old"
  have wl: "w \<noteq> l" by (rule resolve_pair_Some(1) [OF assms(3)])
  have moved: "sg_id s \<in> set (mg_moved row) \<longleftrightarrow> sg_entity s = l \<and> \<not> covered w old s" if "s \<in> set old" for s
    using that ok(5) [folded old_def] unfolding row(5) eq fst_conv by (auto simp: distinct_map inj_on_def)
  have restored: "update_where (\<lambda>s. sg_id s \<in> set (mg_moved row)) (\<lambda>s. s\<lparr> sg_entity := mg_loser row \<rparr>) (eb_sightings eb') = ?keep"
  proof -
    have "update_where (\<lambda>s. sg_id s \<in> set (mg_moved row)) (\<lambda>s. s\<lparr> sg_entity := l \<rparr>)
        (map (\<lambda>s. if sg_entity s = l then s\<lparr> sg_entity := w \<rparr> else s) ?keep) = map (\<lambda>s. s) ?keep"
      unfolding update_where_def map_map
      by (rule map_cong) (use moved in auto)
    then show ?thesis by (simp add: eb'(2) eq row(3))
  qed
  have "spans_unique ?keep"
    using ok(6) unfolding spans_unique_def old_def by (rule distinct_map_filter)
  then have run: "\<exists>eb''. revert rs later (eb_next_id eb) eb' = (Inr n, eb'')"
    unfolding revert_def find option.case Let_def restored by (simp add: row(4,5) n)
  then obtain eb'' where eb'': "revert rs later (eb_next_id eb) eb' = (Inr n, eb'')" by blast
  obtain e: "eb_entities eb'' = set_merged_into l None (eb_entities eb')" and s: "eb_sightings eb'' = ?keep"
    and m: "eb_merges eb'' = update_where (\<lambda>r. mg_id r = eb_next_id eb)
              (\<lambda>r. r\<lparr> mg_status := REVERTED, mg_reverted_at := Some later \<rparr>) (eb_merges eb')"
    using eb'' by (rule revert_Inr) (use find restored row(3) in \<open>simp add: frame_simps\<close>)
  have "eb_entities eb'' = eb_entities eb"
  proof -
    have "en_merged_into x = None" if "x \<in> set (eb_entities eb)" "en_id x = l" for x
      using resolve_pair_Some(3) [OF assms(3)] that ok(1) by (auto simp: pointer_def forest_def dest: entity_get_distinct)
    then have "map (\<lambda>x. if en_id x = l then x\<lparr> en_merged_into := None \<rparr> else x) (eb_entities eb) = map id (eb_entities eb)"
      by (intro map_cong) auto
    moreover have "set_merged_into l None (set_merged_into l (Some w) es) =
        map (\<lambda>x. if en_id x = l then x\<lparr> en_merged_into := None \<rparr> else x) es" for es
      by (induction es) (simp_all add: set_merged_into_def)
    ultimately show ?thesis by (simp add: e eb'(1))
  qed
  moreover have "filter (\<lambda>m. mg_status m = APPLIED) (eb_merges eb'') = filter (\<lambda>m. mg_status m = APPLIED) (eb_merges eb)"
  proof -
    have "update_where (\<lambda>r. mg_id r = eb_next_id eb) f (eb_merges eb) = eb_merges eb" for f
      by (rule update_where_none) (use fresh in blast)
    then show ?thesis by (simp add: m eb'(3) update_where_def row(1))
  qed
  ultimately show ?thesis using eb'' s unfolding old_def by blast
qed


text \<open>Undoing merges out of order misfiles sightings: a sighting that two merges moved goes to the loser of the
  one undone last, though the entity it was found for is an entity of its own again.\<close>

theorem undoing_out_of_order_misfiles:
  assumes "reachable_base eb" and "revert rs t i eb = (Inr a, eb1)" and "revert rs u j eb1 = (Inr b, eb2)"
    and "find (\<lambda>m. mg_id m = i) (eb_merges eb) = Some m" and "find (\<lambda>m. mg_id m = j) (eb_merges eb) = Some m'"
    and "k \<in> set (mg_moved m)" and "k \<in> set (mg_moved m')"
  shows "list_all (\<lambda>s. sg_entity s = mg_loser m') (filter (\<lambda>s. sg_id s = k) (eb_sightings eb2)) \<and>
         pointer (eb_entities eb2) (mg_loser m) = None"
proof -
  obtain e1: "eb_entities eb1 = set_merged_into (mg_loser m) None (eb_entities eb)"
    and m1: "eb_merges eb1 = update_where (\<lambda>r. mg_id r = i)
              (\<lambda>r. r\<lparr> mg_status := REVERTED, mg_reverted_at := Some t \<rparr>) (eb_merges eb)"
    using assms(2) by (rule revert_Inr) (use assms(4) in \<open>simp add: frame_simps\<close>)
  obtain r where r: "find (\<lambda>m. mg_id m = j) (eb_merges eb1) = Some r"
    and e2: "eb_entities eb2 = set_merged_into (mg_loser r) None (eb_entities eb1)"
    and s2: "eb_sightings eb2 = update_where (\<lambda>s. sg_id s \<in> set (mg_moved r)) (\<lambda>s. s\<lparr> sg_entity := mg_loser r \<rparr>) (eb_sightings eb1)"
    using assms(3) by (rule revert_Inr) (simp add: frame_simps)
  have find_upd: "find (\<lambda>m. mg_id m = j) (update_where p (\<lambda>r. r\<lparr> mg_status := st, mg_reverted_at := x \<rparr>) ms) =
      map_option (\<lambda>r. if p r then r\<lparr> mg_status := st, mg_reverted_at := x \<rparr> else r) (find (\<lambda>m. mg_id m = j) ms)" for p st x ms
    by (induction ms) auto
  then have same: "mg_moved r = mg_moved m'" "mg_loser r = mg_loser m'" using r assms(5) by (auto simp: m1 find_upd)
  have ids: "mg_loser m \<in> en_id ` set (eb_entities eb)" "mg_loser m' \<in> en_id ` set (eb_entities eb)"
    using base_okE(3) [OF reachable_base_ok [OF assms(1)]] assms(4,5) by (auto dest!: find_SomeD)
  have "en_id ` set (eb_entities eb1) = en_id ` set (eb_entities eb)" unfolding e1 by (metis ids_set_merged_into list.set_map)
  then have "pointer (eb_entities eb2) (mg_loser m) = None"
    using ids by (simp add: e2 same pointer_set) (simp add: e1 pointer_set)
  moreover have "list_all (\<lambda>s. sg_entity s = mg_loser m') (filter (\<lambda>s. sg_id s = k) (eb_sightings eb2))"
    unfolding s2 same list_all_iff using assms(7) by (auto elim!: in_update_whereE split: if_splits)
  ultimately show ?thesis by blast
qed

section \<open>Proposals\<close>

text \<open>What every candidate is: two active entities of one type, and a confidence between 0 and 1.\<close>

definition sound_candidate :: "entity list \<Rightarrow> merge_candidate \<Rightarrow> bool" where
  "sound_candidate es c \<longleftrightarrow>
     list_ex (\<lambda>left. list_ex (\<lambda>right. en_id left = mc_left c \<and> en_id right = mc_right c \<and> left \<noteq> right \<and>
       en_type left = en_type right \<and> en_merged_into left = None \<and> en_merged_into right = None) es) es \<and>
     mc_strategy c \<in> {EXACT, ALIAS, EMBEDDING} \<and> 0 \<le> mc_confidence c \<and> mc_confidence c \<le> 1"

definition same_group :: "entity list \<Rightarrow> entity list \<Rightarrow> bool" where
  "same_group es rows \<longleftrightarrow> distinct rows \<and> set rows \<subseteq> set es \<and>
     (\<forall>a \<in> set rows. \<forall>b \<in> set rows. en_type a = en_type b \<and> en_merged_into a = None)"

lemma sound_candidateI:
  assumes "same_group es rows" and "a \<in> set rows" and "b \<in> set rows" and "a \<noteq> b"
    and "mc_left c = en_id a" and "mc_right c = en_id b" and "mc_strategy c \<in> {EXACT, ALIAS, EMBEDDING}"
    and "0 \<le> mc_confidence c" and "mc_confidence c \<le> 1"
  shows "sound_candidate es c"
  using assms unfolding sound_candidate_def same_group_def list_ex_iff by (metis subsetD)

lemma in_buckets: "(k, xs) \<in> set (buckets f rows) \<Longrightarrow> xs = filter (\<lambda>r. f r = k) rows"
  by (auto simp: buckets_def)

lemma exact_sound:
  assumes "same_group es rows" and "c \<in> set (exact_candidates nfkc rows)"
  shows "sound_candidate es c"
proof -
  from assms(2) obtain key ms where b: "(key, ms) \<in> set (buckets (\<lambda>e. canonicalize nfkc (en_name e) (en_type e)) rows)"
    and mem: "c \<in> set (case ms of [] \<Rightarrow> [] | anchor # others \<Rightarrow> map (exact_candidate key anchor) others)"
    unfolding exact_candidates_def by auto
  then obtain anchor others where ms: "ms = anchor # others" by (cases ms) auto
  then obtain other where other: "other \<in> set others" and "c = exact_candidate key anchor other" using mem by auto
  then have c: "mc_left c = en_id anchor" "mc_right c = en_id other" "mc_strategy c = EXACT" "mc_confidence c = 1"
    by (simp_all add: exact_candidate_def)
  have members: "anchor # others = filter (\<lambda>e. canonicalize nfkc (en_name e) (en_type e) = key) rows"
    using in_buckets [OF b] by (simp add: ms)
  have "distinct rows" using assms(1) unfolding same_group_def by blast
  then have "distinct (anchor # others)" unfolding members by simp
  then have "anchor \<noteq> other" using other by auto
  have "set (anchor # others) \<subseteq> set rows" unfolding members by auto
  then have "anchor \<in> set rows" "other \<in> set rows" using other by auto
  from sound_candidateI [OF assms(1) this \<open>anchor \<noteq> other\<close> c(1,2)] show ?thesis by (simp add: c)
qed

lemma alias_sound:
  assumes "same_group es rows" and "c \<in> set (alias_candidates nfkc rows type)"
  shows "sound_candidate es c"
proof -
  from assms(2) obtain lk rk left right where al: "(lk, rk) \<in> set (ALIASES type)"
    and rows: "left \<in> set rows" "right \<in> set rows"
    and keys: "canonicalize nfkc (en_name left) (en_type left) = lk" "canonicalize nfkc (en_name right) (en_type right) = rk"
    and c: "mc_left c = en_id left" "mc_right c = en_id right" "mc_strategy c = ALIAS" "mc_confidence c = 99 / 100"
    by (auto simp: alias_candidates_def Let_def)
  have "lk \<noteq> rk" using al by (cases type) auto
  then have "left \<noteq> right" using keys by auto
  then show ?thesis using assms(1) rows c by (intro sound_candidateI [of es rows left right]) auto
qed

lemma pairs_of_distinct: "(x, y) \<in> set (pairs_of xs) \<Longrightarrow> distinct xs \<Longrightarrow> x \<in> set xs \<and> y \<in> set xs \<and> x \<noteq> y"
  by (induction xs) auto

lemma embedding_pairs_sound:
  assumes "embedding_pairs least vs ps = Inr cs" and "c \<in> set cs"
  shows "\<exists>i left j right. ((i, left), (j, right)) \<in> set ps \<and> mc_left c = en_id left \<and> mc_right c = en_id right \<and>
           mc_strategy c = EMBEDDING \<and> 0 \<le> mc_confidence c \<and> mc_confidence c \<le> 1"
  using assms
proof (induction ps arbitrary: cs)
  case (Cons p ps)
  obtain i left j right where p: "p = ((i, left), (j, right))" by (metis prod.collapse)
  with Cons.prems(1) obtain rest score where rest: "embedding_pairs least vs ps = Inr rest"
    and cs: "cs = rest \<or> (\<exists>e. cs = \<lparr> mc_left = en_id left, mc_right = en_id right, mc_strategy = EMBEDDING,
               mc_confidence = min 1 (max 0 score), mc_evidence = e \<rparr> # rest)"
    by (auto simp: bind_result_Inr_iff split: if_splits)
  show ?case
  proof (cases "c \<in> set rest")
    case True
    with Cons.IH [OF rest] show ?thesis by fastforce
  next
    case False
    with cs Cons.prems(2) have "mc_left c = en_id left \<and> mc_right c = en_id right \<and> mc_strategy c = EMBEDDING \<and>
        0 \<le> mc_confidence c \<and> mc_confidence c \<le> 1" by auto
    moreover have "((i, left), (j, right)) \<in> set (p # ps)" by (simp add: p)
    ultimately show ?thesis by blast
  qed
qed simp

lemma embedding_sound:
  assumes "same_group es rows" and "embedding_candidates vectorize least rows = Inr cs" and "c \<in> set cs"
  shows "sound_candidate es c"
proof -
  define el where "el = filter (\<lambda>e. MIN_EMBEDDING_NAME_CHARS \<le> length (en_canonical e)) rows"
  have run: "embedding_pairs least (vectorize (map en_name el)) (pairs_of (enumerate 0 el)) = Inr cs"
    using assms(2,3) by (auto simp: embedding_candidates_def el_def Let_def split: if_splits)
  obtain i left j right where mem: "((i, left), (j, right)) \<in> set (pairs_of (enumerate 0 el))"
    and c: "mc_left c = en_id left" "mc_right c = en_id right" "mc_strategy c = EMBEDDING" "0 \<le> mc_confidence c" "mc_confidence c \<le> 1"
    using embedding_pairs_sound [OF run assms(3)] by blast
  have ij: "(i, left) \<in> set (enumerate 0 el)" "(j, right) \<in> set (enumerate 0 el)" "(i, left) \<noteq> (j, right)"
    using pairs_of_distinct [OF mem] by (simp_all add: distinct_enumerate)
  then have el: "i < length el" "left = el ! i" "j < length el" "right = el ! j"
    by (simp_all add: in_set_enumerate_eq)
  have "distinct rows" using assms(1) unfolding same_group_def by blast
  then have "distinct el" by (simp add: el_def)
  then have "left \<noteq> right" using ij(3) el by (metis nth_eq_iff_index_eq)
  moreover have "left \<in> set rows" "right \<in> set rows" using el nth_mem by (fastforce simp: el_def)+
  ultimately show ?thesis using assms(1) c by (intro sound_candidateI [of es rows left right]) auto
qed

lemma group_candidates_sound:
  assumes "group_candidates rs groups = Inr cs" and "\<And>g. g \<in> set groups \<Longrightarrow> same_group es (snd g)" and "c \<in> set cs"
  shows "sound_candidate es c"
  using assms
proof (induction groups arbitrary: cs)
  case (Cons g groups)
  obtain type rows where g: "g = (type, rows)" by (metis prod.collapse)
  with Cons.prems(1) obtain em rest where em: "embedding_candidates (rs_embed rs) (rs_review_floor rs) rows = Inr em"
    and rest: "group_candidates rs groups = Inr rest"
    and cs: "cs = exact_candidates (rs_nfkc rs) rows @ alias_candidates (rs_nfkc rs) rows type @ em @ rest"
    by (auto simp: bind_result_Inr_iff)
  have group: "same_group es rows" using Cons.prems(2) [of g] g by simp
  have "c \<in> set (exact_candidates (rs_nfkc rs) rows) \<or> c \<in> set (alias_candidates (rs_nfkc rs) rows type) \<or>
      c \<in> set em \<or> c \<in> set rest" using Cons.prems(3) cs by auto
  then show ?case
    using exact_sound [OF group] alias_sound [OF group] embedding_sound [OF group em]
      Cons.IH [OF rest] Cons.prems(2) by auto
qed simp

definition best_ok :: "merge_candidate list \<Rightarrow> ((nat \<times> nat) \<times> merge_candidate) list \<Rightarrow> bool" where
  "best_ok cs best \<longleftrightarrow> distinct (map fst best) \<and> (\<forall>(k, c) \<in> set best. k = pair_key c \<and> c \<in> set cs) \<and>
     (\<forall>c \<in> set cs. \<exists>c'. map_of best (pair_key c) = Some c' \<and> mc_confidence c \<le> mc_confidence c')"

lemma keep_best_ok:
  assumes "best_ok cs best"
  shows "best_ok (cs @ [c]) (keep_best best c)"
proof -
  have upd: "best_ok (cs @ [c]) (AList.update (pair_key c) c best)"
    if older: "\<And>old. map_of best (pair_key c) = Some old \<Longrightarrow> mc_confidence old \<le> mc_confidence c"
  proof -
    have "\<exists>c''. map_of (AList.update (pair_key c) c best) (pair_key c') = Some c'' \<and> mc_confidence c' \<le> mc_confidence c''"
      if "c' \<in> set (cs @ [c])" for c'
    proof (cases "pair_key c' = pair_key c")
      case True
      show ?thesis
      proof (cases "c' = c")
        case False
        then have "c' \<in> set cs" using that by simp
        then obtain old where "map_of best (pair_key c') = Some old" "mc_confidence c' \<le> mc_confidence old"
          using assms by (auto simp: best_ok_def)
        then show ?thesis using True older [of old] by simp
      qed simp
    next
      case False
      then show ?thesis using that assms by (auto simp: best_ok_def)
    qed
    moreover have "k = pair_key x \<and> x \<in> set (cs @ [c])" if "(k, x) \<in> set (AList.update (pair_key c) c best)" for k x
    proof -
      have "distinct (map fst (AList.update (pair_key c) c best))"
        using assms by (simp add: best_ok_def distinct_update)
      then have "map_of (AList.update (pair_key c) c best) k = Some x" using that by simp
      then show ?thesis
        using assms by (cases "k = pair_key c") (auto simp: best_ok_def dest!: map_of_SomeD)
    qed
    ultimately show ?thesis using assms by (auto simp: best_ok_def distinct_update)
  qed
  show ?thesis
  proof (cases "map_of best (pair_key c)")
    case None
    then show ?thesis using upd by (simp add: keep_best_def)
  next
    case (Some old)
    show ?thesis
    proof (cases "mc_confidence old < mc_confidence c")
      case True
      then show ?thesis using Some upd by (simp add: keep_best_def)
    next
      case False
      then have "mc_confidence c \<le> mc_confidence old" by simp
      then show ?thesis using Some False assms by (auto simp: keep_best_def best_ok_def)
    qed
  qed
qed

lemma fold_keep_best: "best_ok cs (foldl keep_best [] cs)"
proof (induction cs rule: rev_induct)
  case Nil
  show ?case by (simp add: best_ok_def)
next
  case (snoc c cs)
  then show ?case using keep_best_ok by simp
qed

lemma deduplicated_ok:
  "distinct (map pair_key (deduplicated cs))" "set (deduplicated cs) \<subseteq> set cs"
  "sorted (map (\<lambda>c. (- mc_confidence c, mc_evidence c)) (deduplicated cs))"
proof -
  let ?best = "foldl keep_best [] cs"
  have ok: "best_ok cs ?best" by (rule fold_keep_best)
  have "map (\<lambda>x. pair_key (snd x)) ?best = map fst ?best"
    by (rule map_cong) (use ok in \<open>auto simp: best_ok_def\<close>)
  then have keys: "map pair_key (map snd ?best) = map fst ?best" by (simp add: comp_def)
  have "distinct (map fst ?best)" using ok by (simp add: best_ok_def)
  then have "distinct (map pair_key (map snd ?best))" by (simp only: keys)
  then have "distinct (map snd ?best)" "inj_on pair_key (set (map snd ?best))"
    unfolding distinct_map [of pair_key] by blast+
  then show "distinct (map pair_key (deduplicated cs))"
    unfolding deduplicated_def distinct_map [of pair_key] distinct_sort set_sort by blast
  show "set (deduplicated cs) \<subseteq> set cs" using ok by (auto simp: deduplicated_def best_ok_def)
  show "sorted (map (\<lambda>c. (- mc_confidence c, mc_evidence c)) (deduplicated cs))" by (simp add: deduplicated_def)
qed

lemma propose_sound:
  assumes "base_ok eb" and "propose rs eb = Inr cs" and "c \<in> set cs"
  shows "sound_candidate (eb_entities eb) c"
proof -
  obtain all where all: "group_candidates rs (buckets en_type (active_entities eb)) = Inr all" "cs = deduplicated all"
    using assms(2) by (auto simp: propose_def bind_result_Inr_iff)
  have "distinct (eb_entities eb)" using base_okE(1) [OF assms(1)] by (auto simp: forest_def distinct_map)
  then have "same_group (eb_entities eb) (snd g)" if "g \<in> set (buckets en_type (active_entities eb))" for g
    using in_buckets [of "fst g" "snd g" en_type "active_entities eb"] that
    by (auto simp: same_group_def active_entities_def)
  moreover have "c \<in> set all" using assms(3) deduplicated_ok(2) all(2) by auto
  ultimately show ?thesis using group_candidates_sound [OF all(1)] by blast
qed

text \<open>A proposal names each pair of entities once, most confident first, and joins only active entities of one
  type.\<close>

theorem a_proposal_names_a_pair_once:
  assumes "reachable_base eb" and "propose rs eb = Inr cs"
  shows "distinct (map pair_key cs) \<and> sorted (map (\<lambda>c. (- mc_confidence c, mc_evidence c)) cs) \<and>
         list_all (sound_candidate (eb_entities eb)) cs"
proof -
  have "distinct (map pair_key cs) \<and> sorted (map (\<lambda>c. (- mc_confidence c, mc_evidence c)) cs)"
    using assms(2) deduplicated_ok by (auto simp: propose_def bind_result_Inr_iff)
  then show ?thesis using propose_sound [OF reachable_base_ok [OF assms(1)] assms(2)] by (simp add: list_all_iff)
qed

end
