(* ===== verification/Entity_Guarantees.thy ===== *)
theory Entity_Guarantees
  imports Resolution_Guarantees
begin

text \<open>
  A whole run of the resolver and of the extraction, the direction of a merge by hand, and a corpus of three
  names on which the properties are seen to hold.
\<close>

section \<open>A run\<close>

lemma apply_merge_cases:
  assumes "base_ok eb" and "0 \<le> mc_confidence c" and "mc_confidence c \<le> 1"
  obtains (idle) "apply_merge rs now c eb = (Inr None, eb)"
  | (merged) eb' m where "apply_merge rs now c eb = (Inr (Some (length (mg_moved m))), eb')"
      and "eb_merges eb' = eb_merges eb @ [m]" and "base_ok eb'" and "mg_status m = APPLIED"
      and "mg_strategy m = mc_strategy c" and "mg_confidence m = mc_confidence c"
proof (cases "resolve_pair eb (mc_left c) (mc_right c)")
  case None
  show thesis by (rule idle) (simp add: apply_merge_def None)
next
  case (Some wl)
  obtain w l where wl: "wl = (w, l)" by (rule prod.exhaust)
  define m where "m = merge_row (eb_next_id eb) w l c APPLIED (fst (repoint w l (eb_sightings eb))) (Some now)"
  have m: "mg_moved m = fst (repoint w l (eb_sightings eb))" "mg_status m = APPLIED"
      "mg_strategy m = mc_strategy c" "mg_confidence m = mc_confidence c"
    by (simp_all add: m_def merge_row_def)
  obtain eb' where run: "apply_merge rs now c eb = (Inr (Some (length (mg_moved m))), eb')"
    using apply_merge_runs [OF assms(1) Some [unfolded wl] assms(2,3)] by (auto simp: m(1))
  have "eb_merges eb' = eb_merges eb @ [m]"
    using run by (rule apply_merge_Inr) (use Some wl in \<open>simp add: m_def frame_simps\<close>)
  moreover have "base_ok eb'" using base_ok_apply [OF assms(1), of rs now c] run by simp
  ultimately show thesis using run m by (intro merged)
qed

lemma record_pending_cases:
  assumes "base_ok eb" and "0 \<le> mc_confidence c" and "mc_confidence c \<le> 1"
  obtains (idle) "record_pending c eb = (Inr False, eb)"
  | (queued) eb' m where "record_pending c eb = (Inr True, eb')" and "eb_merges eb' = eb_merges eb @ [m]"
      and "base_ok eb'" and "mg_status m = MERGE_PENDING" and "mg_moved m = []"
proof (cases "fst (record_pending c eb) = Inr True")
  case True
  then have run: "record_pending c eb = (Inr True, snd (record_pending c eb))" by (metis prod.collapse)
  have "base_ok (snd (record_pending c eb))" by (rule base_ok_pending [OF assms(1)])
  moreover obtain m where "eb_merges (snd (record_pending c eb)) = eb_merges eb @ [m]" "mg_status m = MERGE_PENDING" "mg_moved m = []"
    using True by (auto simp: record_pending_def Let_def merge_row_def split: option.splits if_splits)
  ultimately show thesis using run by (intro queued)
next
  case False
  have "\<not> (case resolve_pair eb (mc_left c) (mc_right c) of None \<Rightarrow> False
      | Some (w, l) \<Rightarrow> \<not> merge_row_ok (eb_merges eb) (merge_row (eb_next_id eb) w l c MERGE_PENDING [] None))"
    using assms(2,3) by (auto simp: merge_row_ok_def merge_row_def resolve_pair_Some(1) split: option.split)
  with False have "record_pending c eb = (Inr False, eb)"
    by (auto simp: record_pending_def Let_def split: option.splits if_splits)
  then show thesis by (rule idle)
qed

definition row_justified :: "resolver \<Rightarrow> entity_merge \<Rightarrow> bool" where
  "row_justified rs m \<longleftrightarrow>
     (if mg_status m = APPLIED then mg_strategy m \<in> {EXACT, ALIAS} \<and> rs_threshold rs \<le> mg_confidence m
      else mg_status m = MERGE_PENDING \<and> mg_moved m = [])"

text \<open>What a run adds to the report \<open>r0\<close> for the rows it writes, of at most n candidates.\<close>

definition run_adds :: "resolver \<Rightarrow> resolution_report \<Rightarrow> resolution_report \<Rightarrow> entity_merge list \<Rightarrow> nat \<Rightarrow> bool" where
  "run_adds rs r0 r rows n \<longleftrightarrow>
     list_all (row_justified rs) rows \<and>
     rr_auto_merged r = rr_auto_merged r0 + length (filter (\<lambda>m. mg_status m = APPLIED) rows) \<and>
     rr_pending r = rr_pending r0 + length (filter (\<lambda>m. mg_status m = MERGE_PENDING) rows) \<and>
     rr_mentions_moved r = rr_mentions_moved r0 + sum_list (map (\<lambda>m. length (mg_moved m)) rows) \<and>
     rr_auto_merged r + rr_pending r + rr_already_pending r \<le>
       rr_auto_merged r0 + rr_pending r0 + rr_already_pending r0 + n"

lemma resolve_each_run:
  assumes "base_ok eb" and "\<And>c. c \<in> set cs \<Longrightarrow> 0 \<le> mc_confidence c \<and> mc_confidence c \<le> 1 \<and> mc_strategy c \<in> {EXACT, ALIAS, EMBEDDING}"
  shows "\<exists>r eb' rows. resolve_each rs now cs report eb = (Inr r, eb') \<and> eb_merges eb' = eb_merges eb @ rows \<and>
           run_adds rs report r rows (length cs)"
  using assms
proof (induction cs arbitrary: report eb)
  case Nil
  show ?case by (intro exI [of _ report] exI [of _ eb] exI [of _ "[]"]) (simp add: run_adds_def)
next
  case (Cons c cs)
  have conf: "0 \<le> mc_confidence c" "mc_confidence c \<le> 1" "mc_strategy c \<in> {EXACT, ALIAS, EMBEDDING}"
    using Cons.prems(2) [of c] by simp_all
  have step: "\<exists>r eb'' rows. resolve_each rs now (c # cs) report eb = (Inr r, eb'') \<and> eb_merges eb'' = eb_merges eb @ rows \<and>
           run_adds rs report r rows (length (c # cs))"
    if st: "resolve_each rs now (c # cs) report eb = resolve_each rs now cs r1 eb1" "base_ok eb1"
      "eb_merges eb1 = eb_merges eb @ new" "run_adds rs report r1 new 1" for r1 eb1 new
  proof -
    obtain r eb'' rows where "resolve_each rs now cs r1 eb1 = (Inr r, eb'')" "eb_merges eb'' = eb_merges eb1 @ rows"
        "run_adds rs r1 r rows (length cs)"
      using Cons.IH [OF st(2), of r1] Cons.prems(2) by auto
    then show ?thesis using st
      by (intro exI [of _ r] exI [of _ eb''] exI [of _ "new @ rows"]) (simp add: run_adds_def)
  qed
  show ?case
  proof (cases "would_auto_merge rs c")
    case True
    then have sure: "mc_strategy c \<in> {EXACT, ALIAS}" "rs_threshold rs \<le> mc_confidence c"
      using conf(3) by (auto simp: would_auto_merge_def AUTO_MERGE_STRATEGIES_def)
    show ?thesis
    proof (rule apply_merge_cases [OF Cons.prems(1) conf(1,2), of rs now])
      assume idle: "apply_merge rs now c eb = (Inr None, eb)"
      show ?thesis by (rule step [of report eb "[]"]) (simp_all add: idle True Cons.prems(1) run_adds_def)
    next
      fix eb' m
      assume merged: "apply_merge rs now c eb = (Inr (Some (length (mg_moved m))), eb')"
        "eb_merges eb' = eb_merges eb @ [m]" "base_ok eb'" "mg_status m = APPLIED"
        "mg_strategy m = mc_strategy c" "mg_confidence m = mc_confidence c"
      show ?thesis
        by (rule step [of "report\<lparr> rr_auto_merged := rr_auto_merged report + 1,
              rr_mentions_moved := rr_mentions_moved report + length (mg_moved m) \<rparr>" eb' "[m]"])
          (use merged True sure in \<open>simp_all add: run_adds_def row_justified_def\<close>)
    qed
  next
    case False
    show ?thesis
      using Cons.prems(1) conf(1,2)
    proof (cases rule: record_pending_cases)
      case idle
      show ?thesis
        by (rule step [of "report\<lparr> rr_already_pending := rr_already_pending report + 1 \<rparr>" eb "[]"])
          (simp_all add: idle False Cons.prems(1) run_adds_def)
    next
      case (queued eb' m)
      show ?thesis
        by (rule step [of "report\<lparr> rr_pending := rr_pending report + 1 \<rparr>" eb' "[m]"])
          (use queued False in \<open>simp_all add: run_adds_def row_justified_def\<close>)
    qed
  qed
qed



section \<open>What extraction stores\<close>

definition filed_under :: "entity list \<Rightarrow> entity \<Rightarrow> nat" where
  "filed_under es e =
     (case en_merged_into e of None \<Rightarrow> en_id e | Some into \<Rightarrow> follow_merge es FOLLOW_DEPTH into)"

text \<open>The sighting is in one of the chunks, and the text it points at is a name of the entity it is filed
  under: there is a row of that canonical name whose merges lead to the entity.\<close>

definition sighting_holds :: "extractor \<Rightarrow> (nat \<times> string) list \<Rightarrow> entity list \<Rightarrow> sighting \<Rightarrow> bool" where
  "sighting_holds ex chunks es s \<longleftrightarrow>
     list_ex (\<lambda>(chunk_id, t). sg_chunk s = chunk_id \<and> 0 \<le> sg_char_start s \<and>
       sg_char_start s < sg_char_end s \<and> sg_char_end s \<le> int (length t) \<and>
       list_ex (\<lambda>e. en_canonical e = canonical_entity_name (ex_casefold ex) (span_text t (sg_char_start s) (sg_char_end s)) \<and>
                    filed_under es e = sg_entity s) es) chunks"

lemma follow_merge_append:
  assumes "forest es" and "i \<in> en_id ` set es"
  shows "follow_merge (es @ new_rows) d i = follow_merge es d i"
  using assms(2)
proof (induction d arbitrary: i)
  case (Suc d)
  obtain e where e: "entity_get i es = Some e" using Suc.prems by (meson entity_get_None not_None_eq)
  have "entity_get i (es @ new_rows) = Some e"
    using e by (induction es) (auto simp: entity_get_def split: if_splits)
  moreover have "j \<in> en_id ` set es" if "en_merged_into e = Some j" for j
  proof -
    have "(i, j) \<in> points es" using that e by (simp add: points_def pointer_def)
    then show ?thesis using assms(1) by (auto simp: forest_def)
  qed
  ultimately show ?case using e Suc.IH by (auto split: option.split)
qed simp

lemma sighting_holds_append:
  assumes "forest es" and "sighting_holds ex chunks es s"
  shows "sighting_holds ex chunks (es @ new_rows) s"
proof -
  have "filed_under (es @ new_rows) e = filed_under es e" if "e \<in> set es" for e
  proof (cases "en_merged_into e")
    case (Some j)
    have "entity_get (en_id e) es = Some e" using that assms(1) by (simp add: forest_def entity_get_distinct)
    then have "(en_id e, j) \<in> points es" using Some by (simp add: points_def pointer_def)
    then have "j \<in> en_id ` set es" using assms(1) by (auto simp: forest_def)
    then show ?thesis using Some by (simp add: filed_under_def follow_merge_append [OF assms(1)])
  qed (simp add: filed_under_def)
  with assms(2) show ?thesis unfolding sighting_holds_def list_ex_iff by (fastforce split: prod.splits)
qed

lemma upsert_files:
  assumes "upsert_entity ex now c eb = ((i, created), eb')"
  shows "(\<exists>new_rows. eb_entities eb' = eb_entities eb @ new_rows) \<and> eb_sightings eb' = eb_sightings eb \<and>
         eb_versions eb' = eb_versions eb \<and>
         (\<exists>e \<in> set (eb_entities eb'). en_canonical e = canonical_entity_name (ex_casefold ex) (xe_name c) \<and>
            filed_under (eb_entities eb') e = i)"
proof -
  let ?p = "\<lambda>e. en_canonical e = canonical_entity_name (ex_casefold ex) (xe_name c) \<and> en_type e = xe_type c"
  show ?thesis
  proof (cases "find ?p (eb_entities eb)")
    case None
    then show ?thesis using assms by (auto simp: upsert_entity_def filed_under_def Let_def)
  next
    case (Some e)
    then have "e \<in> set (eb_entities eb)" "?p e" by (auto dest: find_SomeD)
    then show ?thesis using assms Some by (auto simp: upsert_entity_def filed_under_def Let_def)
  qed
qed

definition stored_ok :: "extractor \<Rightarrow> nat \<Rightarrow> (nat \<times> string) list \<Rightarrow> sighting list \<Rightarrow> entity_base \<Rightarrow> bool" where
  "stored_ok ex memory_id chunks others eb \<longleftrightarrow> base_ok eb \<and>
     (\<forall>s \<in> set (eb_sightings eb). sg_memory s = memory_id \<longrightarrow> sighting_holds ex chunks (eb_entities eb) s) \<and>
     filter (\<lambda>s. sg_memory s \<noteq> memory_id) (eb_sightings eb) = others"

lemma store_chunk_holds:
  assumes "stored_ok ex memory_id chunks others eb" and "ch \<in> set chunks"
    and "store_chunk ex now memory_id ch cs report eb = Inr (r, eb')"
  shows "stored_ok ex memory_id chunks others eb' \<and> eb_versions eb' = eb_versions eb"
  using assms(1,3)
proof (induction cs arbitrary: report eb)
  case (Cons c cs)
  show ?case
  proof (cases "offsets_hold (snd ch) c")
    case False
    then show ?thesis using Cons by simp
  next
    case True
    then have rows: "rows_ok ex c" using Cons.prems(2) by (simp split: if_splits)
    obtain i created eb1 where up: "upsert_entity ex now c eb = ((i, created), eb1)" by (metis prod.collapse)
    note files = upsert_files [OF up]
    have inv: "base_ok eb" using Cons.prems by (simp add: stored_ok_def)
    let ?eb2 = "insert_mention ex memory_id (fst ch) c i eb1"
    have ok2: "base_ok ?eb2" using base_ok_insert_mention base_ok_upsert [OF inv up] by blast
    have ents: "eb_entities ?eb2 = eb_entities eb1" "eb_versions ?eb2 = eb_versions eb1"
      by (simp_all add: insert_mention_def Let_def)
    have "sighting_holds ex chunks (eb_entities ?eb2) s" if "s \<in> set (eb_sightings ?eb2)" "sg_memory s = memory_id" for s
    proof (cases "s \<in> set (eb_sightings eb)")
      case True
      then have "sighting_holds ex chunks (eb_entities eb) s" using that(2) Cons.prems by (simp add: stored_ok_def)
      then show ?thesis
        unfolding ents using sighting_holds_append [OF base_okE(1) [OF inv]] files by auto
    next
      case False
      then have s: "sg_entity s = i" "sg_chunk s = fst ch" "sg_char_start s = xe_char_start c" "sg_char_end s = xe_char_end c"
        using that(1) files by (auto simp: insert_mention_def Let_def split: if_splits)
      show ?thesis
        unfolding sighting_holds_def list_ex_iff ents s
        using files assms(2) True rows
        by (intro bexI [of _ ch]) (auto simp: offsets_hold_def rows_ok_def split: prod.split)
    qed
    moreover have "filter (\<lambda>s. sg_memory s \<noteq> memory_id) (eb_sightings ?eb2) = others"
      using Cons.prems files by (simp add: stored_ok_def insert_mention_def Let_def)
    ultimately have "stored_ok ex memory_id chunks others ?eb2" using ok2 by (simp add: stored_ok_def)
    from Cons.IH [OF this] Cons.prems(2) True rows up files ents show ?thesis by simp
  qed
qed simp

lemma store_chunks_holds:
  "store_chunks ex now memory_id part found report eb = Inr (r, eb') \<Longrightarrow> set part \<subseteq> set chunks \<Longrightarrow>
   stored_ok ex memory_id chunks others eb \<Longrightarrow>
   stored_ok ex memory_id chunks others eb' \<and> eb_versions eb' = eb_versions eb"
proof (induction ex now memory_id part found report eb rule: store_chunks.induct)
  case (2 ex now memory_id ch part cs found report eb)
  obtain r1 eb1 where st: "store_chunk ex now memory_id ch cs report eb = Inr (r1, eb1)"
    using 2(2) by (auto split: sum.splits)
  have "stored_ok ex memory_id chunks others eb1 \<and> eb_versions eb1 = eb_versions eb"
    using store_chunk_holds [OF 2(4) _ st] 2(3) by simp
  then show ?case using 2 st by simp
qed simp_all

text \<open>C21 Extraction files what the text says: once it has run, every sighting of the memory points at a span of one
  of its chunks, and the text of that span is a name of the entity the sighting is filed under, merges
  followed; the sightings of other memories are as they were and the memory carries the version.\<close>

theorem extraction_files_what_the_text_says:
  assumes "reachable_base eb" and "extract_entities ex rs now memory_id l eb = (Inr report, eb')"
    and "xr_outcome report = EX_EXTRACTED"
  shows "list_all (sighting_holds ex (chunks_of memory_id l) (eb_entities eb'))
           (filter (\<lambda>s. sg_memory s = memory_id) (eb_sightings eb')) \<and>
         filter (\<lambda>s. sg_memory s \<noteq> memory_id) (eb_sightings eb') = filter (\<lambda>s. sg_memory s \<noteq> memory_id) (eb_sightings eb) \<and>
         map_of (eb_versions eb') memory_id = Some (ex_version ex) \<and> base_ok eb'"
proof -
  have inv: "base_ok eb" by (rule reachable_base_ok [OF assms(1)])
  let ?others = "filter (\<lambda>s. sg_memory s \<noteq> memory_id) (eb_sightings eb)"
  let ?eb0 = "eb\<lparr> eb_sightings := ?others, eb_versions := AList.update memory_id (ex_version ex) (eb_versions eb) \<rparr>"
  obtain found r eb1 where st: "store_chunks ex now memory_id (chunks_of memory_id l) found
        ((new_report EX_EXTRACTED)\<lparr> xr_chunks := length (chunks_of memory_id l) \<rparr>) ?eb0 = Inr (r, eb1)"
    and same: "eb_sightings eb' = eb_sightings eb1" "eb_entities eb' = eb_entities eb1" "eb_versions eb' = eb_versions eb1"
    using assms(2,3)
    by (auto simp: extract_entities_def store_mentions_def Let_def new_report_def bind_result_Inr_iff
        split: option.splits sum.splits if_splits)
  have "stored_ok ex memory_id (chunks_of memory_id l) ?others ?eb0"
    using base_ok_forget [OF inv] by (auto simp: stored_ok_def)
  from store_chunks_holds [OF st subset_refl this]
  have "stored_ok ex memory_id (chunks_of memory_id l) ?others eb1" "eb_versions eb1 = eb_versions ?eb0" by simp_all
  moreover have "base_ok eb'" using base_ok_extract [OF inv, of ex rs now memory_id l] assms(2) by simp
  ultimately show ?thesis by (simp add: stored_ok_def same list_all_iff)
qed

section \<open>The direction of a merge\<close>

text \<open>The entity with more mentions wins, whichever side of the candidate it is on: a merge by hand of the
  smaller entity as the winner goes the other way.\<close>

lemma the_larger_entity_wins:
  assumes "follow (eb_entities eb) FOLLOW_DEPTH a = Some a" and "follow (eb_entities eb) FOLLOW_DEPTH b = Some b"
    and "mention_count (eb_sightings eb) a < mention_count (eb_sightings eb) b"
  shows "resolve_pair eb a b = Some (b, a)"
proof -
  have "winner_rank eb b < winner_rank eb a" using assms(3) by (simp add: winner_rank_def)
  moreover have "a \<noteq> b" using assms(3) by auto
  ultimately show ?thesis using assms(1,2) by (auto simp: resolve_pair_def pick_winner_def)
qed


section \<open>Three names\<close>

text \<open>One memory that names Ada, Ada again as Dr Ada, and Bo three times. By hand, Dr Ada (3) is merged into Ada
  (1), and Ada into Bo (5).\<close>

definition crowd_text :: string where
  "crowd_text = ''Ada Dr Ada Bo Bo Bo''"

definition crowd_library :: library where
  "crowd_library =
     \<lparr> lb_corpus = (empty_corpus 1)\<lparr> c_memories :=
         [\<lparr> m_id = 1, m_source = 1, m_key = ''k'', m_content_hash = ''h'', m_kind = NOTE,
            m_occurred_at_source = TP_UNKNOWN, m_version = 1, m_is_current = True, m_occurred_at = None,
            m_ingested_at = None, m_importance = None, m_media_type = None, m_deleted_at = None \<rparr>] \<rparr>,
       lb_texts = [],
       lb_passages =
         [\<lparr> ps_id = 1, ps_memory = 1, ps_ordinal = 0, ps_content = crowd_text, ps_token_count = 1,
            ps_char_start = 0, ps_char_end = 19, ps_prefix_chars = 0, ps_chunker_version = ''v'',
            ps_content_hash = ''h'', ps_definition = None, ps_embedding = None, ps_embedding_model = None,
            ps_embedded_at = None \<rparr>],
       lb_cache = [] \<rparr>"

definition named :: "string \<Rightarrow> int \<Rightarrow> extracted_entity" where
  "named name start = \<lparr> xe_name = name, xe_type = PERSON, xe_confidence = 1, xe_char_start = start,
                        xe_char_end = start + int (length name) \<rparr>"

definition crowd_extractor :: extractor where
  "crowd_extractor =
     \<lparr> ex_version = ''x1'',
       ex_extract = \<lambda>texts kind. Inr [[named ''Ada'' 0, named ''Dr Ada'' 4, named ''Bo'' 11, named ''Bo'' 14,
                                   named ''Bo'' 17, named ''Cy'' 17]],
       ex_casefold = lower \<rparr>"

definition crowd_resolver :: resolver where
  "crowd_resolver = new_resolver (map (\<lambda>_. [1])) id id False DEFAULT_THRESHOLD REVIEW_FLOOR"

definition by_hand :: "nat \<Rightarrow> nat \<Rightarrow> merge_candidate" where
  "by_hand a b = \<lparr> mc_left = a, mc_right = b, mc_strategy = MANUAL, mc_confidence = 1, mc_evidence = [] \<rparr>"

definition crowd_0 :: entity_base where
  "crowd_0 = snd (extract_entities crowd_extractor crowd_resolver 0 1 crowd_library (empty_base 1))"

definition crowd_1 :: entity_base where
  "crowd_1 = snd (apply_merge crowd_resolver 1 (by_hand 1 3) crowd_0)"

definition crowd_2 :: entity_base where
  "crowd_2 = snd (apply_merge crowd_resolver 2 (by_hand 1 5) crowd_1)"

lemma crowds_reachable: "reachable_base crowd_0" "reachable_base crowd_1" "reachable_base crowd_2"
proof -
  have 0: "resolution_step\<^sup>*\<^sup>* (empty_base 1) crowd_0" unfolding crowd_0_def by (intro r_into_rtranclp extract_step)
  have 1: "resolution_step\<^sup>*\<^sup>* (empty_base 1) crowd_1"
    using 0 apply_step [of crowd_0] unfolding crowd_1_def by (rule rtranclp.rtrancl_into_rtrancl)
  have 2: "resolution_step\<^sup>*\<^sup>* (empty_base 1) crowd_2"
    using 1 apply_step [of crowd_1] unfolding crowd_2_def by (rule rtranclp.rtrancl_into_rtrancl)
  from 0 1 2 show "reachable_base crowd_0" "reachable_base crowd_1" "reachable_base crowd_2"
    unfolding reachable_base_def by blast+
qed

text \<open>A winner can lose: the pointer of Dr Ada leads to Ada, which is merged itself.\<close>

lemma chains_of_two_arise: "map (\<lambda>e. (en_id e, en_merged_into e)) (eb_entities crowd_2) = [(1, Some 5), (3, Some 1), (5, None)]"
  by code_simp

lemma merges_form_a_forest_witness:
  "list_all (\<lambda>e. (\<exists>n root. follow (eb_entities crowd_2) n (en_id e) = Some root) \<and>
             map mg_winner (filter (\<lambda>m. mg_status m = APPLIED \<and> mg_loser m = en_id e) (eb_merges crowd_2)) =
             option_list (en_merged_into e)) (eb_entities crowd_2)"
  by (rule merges_form_a_forest [OF crowds_reachable(3)])

lemma crowd_pair: "resolve_pair crowd_0 1 3 = Some (1, 3)"
  by code_simp

lemma crowd_ids: "eb_next_id crowd_0 = 9" "eb_next_id crowd_1 = 10"
  by code_simp+

lemma a_merge_loses_no_sighting_witness:
  "\<exists>eb'. apply_merge crowd_resolver 1 (by_hand 1 3) crowd_0 = (Inr (Some 1), eb') \<and>
     filter (\<lambda>s. sg_entity s = 3) (eb_sightings eb') = [] \<and>
     sg_span ` set (filter (\<lambda>s. sg_entity s = 1) (eb_sightings eb')) = {(1, 0), (1, 4)}"
proof -
  have hand: "mc_left (by_hand 1 3) = 1" "mc_right (by_hand 1 3) = 3" "0 \<le> mc_confidence (by_hand 1 3)"
      "mc_confidence (by_hand 1 3) \<le> 1" by (simp_all add: by_hand_def)
  have moved: "length (filter (\<lambda>s. sg_entity s = 3 \<and> \<not> covered 1 (eb_sightings crowd_0) s) (eb_sightings crowd_0)) = 1"
      "sg_span ` set (filter (\<lambda>s. sg_entity s = 1 \<or> sg_entity s = 3) (eb_sightings crowd_0)) = {(1, 0), (1, 4)}"
    by code_simp+
  from a_merge_loses_no_sighting [OF crowds_reachable(1) _ hand(3,4), unfolded hand(1,2), OF crowd_pair,
      where rs = crowd_resolver and now = 1, unfolded moved] show ?thesis by blast
qed

lemma undoing_the_last_merge_restores_witness:
  "\<exists>eb''. revert crowd_resolver 9 9 crowd_1 = (Inr 1, eb'') \<and> eb_entities eb'' = eb_entities crowd_0 \<and>
     eb_sightings eb'' = eb_sightings crowd_0"
proof -
  have "fst (apply_merge crowd_resolver 1 (by_hand 1 3) crowd_0) = Inr (Some 1)" by code_simp
  then have run: "apply_merge crowd_resolver 1 (by_hand 1 3) crowd_0 = (Inr (Some 1), crowd_1)"
    by (simp add: prod_eq_iff crowd_1_def)
  have pair: "resolve_pair crowd_0 (mc_left (by_hand 1 3)) (mc_right (by_hand 1 3)) = Some (1, 3)"
    using crowd_pair by (simp add: by_hand_def)
  have kept: "filter (\<lambda>s. \<not> (sg_entity s = 3 \<and> covered 1 (eb_sightings crowd_0) s)) (eb_sightings crowd_0) = eb_sightings crowd_0"
    by code_simp
  from undoing_the_last_merge_restores [OF crowds_reachable(1) run pair, of 9, unfolded kept crowd_ids]
  show ?thesis by blast
qed

text \<open>The sighting of Dr Ada ends at Ada, though Dr Ada is an entity of its own.\<close>

lemma undoing_out_of_order_misfiles_witness:
  "list_all (\<lambda>s. sg_entity s = 1) (filter (\<lambda>s. sg_id s = 4)
     (eb_sightings (snd (revert crowd_resolver 4 10 (snd (revert crowd_resolver 3 9 crowd_2)))))) \<and>
   pointer (eb_entities (snd (revert crowd_resolver 4 10 (snd (revert crowd_resolver 3 9 crowd_2))))) 3 = None"
proof -
  let ?eb1 = "snd (revert crowd_resolver 3 9 crowd_2)" and ?eb2 = "snd (revert crowd_resolver 4 10 (snd (revert crowd_resolver 3 9 crowd_2)))"
  have "fst (revert crowd_resolver 3 9 crowd_2) = Inr 1" by code_simp
  then have one: "revert crowd_resolver 3 9 crowd_2 = (Inr 1, ?eb1)" by (simp add: prod_eq_iff)
  have "fst (revert crowd_resolver 4 10 ?eb1) = Inr 2" by code_simp
  then have two: "revert crowd_resolver 4 10 ?eb1 = (Inr 2, ?eb2)" by (simp add: prod_eq_iff)
  have "map_option (\<lambda>m. (mg_moved m, mg_loser m)) (find (\<lambda>m. mg_id m = 9) (eb_merges crowd_2)) = Some ([4], 3)"
    by code_simp
  then obtain m where m: "find (\<lambda>m. mg_id m = 9) (eb_merges crowd_2) = Some m" "mg_moved m = [4]" "mg_loser m = 3" by auto
  have "map_option (\<lambda>m. (mg_moved m, mg_loser m)) (find (\<lambda>m. mg_id m = 10) (eb_merges crowd_2)) = Some ([2, 4], 1)"
    by code_simp
  then obtain m' where m': "find (\<lambda>m. mg_id m = 10) (eb_merges crowd_2) = Some m'" "mg_moved m' = [2, 4]" "mg_loser m' = 1"
    by auto
  have "4 \<in> set (mg_moved m)" "4 \<in> set (mg_moved m')" by (simp_all add: m(2) m'(2))
  from undoing_out_of_order_misfiles [OF crowds_reachable(3) one two m(1) m'(1) this] show ?thesis
    unfolding m(3) m'(3) .
qed

lemma crowd_proposals: "\<exists>cs. propose crowd_resolver crowd_0 = Inr cs \<and> map mc_strategy cs = [EXACT]"
proof -
  have "(case propose crowd_resolver crowd_0 of Inl e \<Rightarrow> [] | Inr cs \<Rightarrow> map mc_strategy cs) = [EXACT]" by code_simp
  then show ?thesis by (auto split: sum.splits)
qed

lemma a_proposal_names_a_pair_once_witness:
  "\<exists>cs. propose crowd_resolver crowd_0 = Inr cs \<and> map mc_strategy cs = [EXACT] \<and> distinct (map pair_key cs) \<and>
     list_all (sound_candidate (eb_entities crowd_0)) cs"
proof -
  obtain cs where cs: "propose crowd_resolver crowd_0 = Inr cs" "map mc_strategy cs = [EXACT]"
    using crowd_proposals by (elim exE conjE)
  note names = a_proposal_names_a_pair_once [OF crowds_reachable(1) cs(1)]
  show ?thesis
    by (rule exI [of _ cs], intro conjI cs names [THEN conjunct1] names [THEN conjunct2, THEN conjunct2])
qed


lemma extraction_files_what_the_text_says_witness:
  "list_all (sighting_holds crowd_extractor [(1, crowd_text)] (eb_entities crowd_0))
     (filter (\<lambda>s. sg_memory s = 1) (eb_sightings crowd_0)) \<and>
   map (\<lambda>s. (sg_char_start s, sg_char_end s, sg_entity s)) (eb_sightings crowd_0) =
     [(0, 3, 1), (4, 10, 3), (11, 13, 5), (14, 16, 5), (17, 19, 5)]"
proof -
  have "map xr_outcome (case fst (extract_entities crowd_extractor crowd_resolver 0 1 crowd_library (empty_base 1)) of
      Inl e \<Rightarrow> [] | Inr r \<Rightarrow> [r]) = [EX_EXTRACTED]" by code_simp
  then obtain r where r: "extract_entities crowd_extractor crowd_resolver 0 1 crowd_library (empty_base 1) = (Inr r, crowd_0)"
      "xr_outcome r = EX_EXTRACTED"
    by (cases "extract_entities crowd_extractor crowd_resolver 0 1 crowd_library (empty_base 1)")
      (auto simp: crowd_0_def split: sum.splits)
  have start: "reachable_base (empty_base 1)" unfolding reachable_base_def by blast
  have chunks: "chunks_of 1 crowd_library = [(1, crowd_text)]" by code_simp
  have rows: "map (\<lambda>s. (sg_char_start s, sg_char_end s, sg_entity s)) (eb_sightings crowd_0) =
     [(0, 3, 1), (4, 10, 3), (11, 13, 5), (14, 16, 5), (17, 19, 5)]" by code_simp
  from extraction_files_what_the_text_says [OF start r] show ?thesis unfolding chunks using rows by blast
qed

end
