(* ===== verification/Context_Engine.thy ===== *)
theory Context_Engine
  imports Search Selection Citation Evidence
begin

text \<open>
  Assembling a context: \<^verbatim>\<open>application/context_engine.py\<close>. Five sources propose, fusion merges them, the
  selection of \<^verbatim>\<open>domain/context.py\<close> decides, and the result is cached. The state is the tables a search
  reads with those of decisions, their evidence and the cache. The token counter, the embedder, SHA-256,
  \<^verbatim>\<open>repr\<close> of a float and the order in which \<^verbatim>\<open>jsonb\<close> keeps the keys of an object are parameters; the trigger
  of a request and durations, which are only logged, are left out. Rows a query leaves unordered come in
  the order of the table.
\<close>

section \<open>Data\<close>

definition DEFAULT_TOKEN_BUDGET :: int where
  "DEFAULT_TOKEN_BUDGET = 4000"

definition DEFAULT_MAX_ITEMS :: int where
  "DEFAULT_MAX_ITEMS = 12"

definition CANDIDATES_PER_SOURCE :: nat where
  "CANDIDATES_PER_SOURCE = 30"

definition DEFAULT_TTL :: time where
  "DEFAULT_TTL = hours 6"

definition EXCERPT_CHARS :: nat where
  "EXCERPT_CHARS = 1200"

definition CONTEXT_SCHEMA_VERSION :: nat where
  "CONTEXT_SCHEMA_VERSION = 2"

datatype context_source = RETRIEVAL_SOURCE | GRAPH_SOURCE | TEMPORAL_SOURCE | RECENCY_SOURCE | DECISIONS_SOURCE

fun context_source_value :: "context_source \<Rightarrow> string" where
  "context_source_value RETRIEVAL_SOURCE = ''retrieval''"
| "context_source_value GRAPH_SOURCE = ''graph''"
| "context_source_value TEMPORAL_SOURCE = ''temporal''"
| "context_source_value RECENCY_SOURCE = ''recency''"
| "context_source_value DECISIONS_SOURCE = ''decisions''"

definition CONTEXT_SOURCES :: "context_source list" where
  "CONTEXT_SOURCES = [RETRIEVAL_SOURCE, GRAPH_SOURCE, TEMPORAL_SOURCE, RECENCY_SOURCE, DECISIONS_SOURCE]"

definition FOCUS_SPECIFIC :: "context_source list" where
  "FOCUS_SPECIFIC = [RETRIEVAL_SOURCE, GRAPH_SOURCE, TEMPORAL_SOURCE, DECISIONS_SOURCE]"

fun context_category_value :: "context_category \<Rightarrow> string" where
  "context_category_value CAT_CODE = ''code''"
| "context_category_value CAT_PROSE = ''prose''"
| "context_category_value CAT_DECISION = ''decision''"
| "context_category_value CAT_OTHER = ''other''"

definition CONTEXT_CATEGORIES :: "context_category list" where
  "CONTEXT_CATEGORIES = [CAT_CODE, CAT_PROSE, CAT_DECISION, CAT_OTHER]"

fun horizon_value :: "confidence_horizon \<Rightarrow> string" where
  "horizon_value FORESIGHT = ''foresight''"
| "horizon_value HINDSIGHT = ''hindsight''"
| "horizon_value HORIZON_UNKNOWN = ''unknown''"

record context_request =
  cr_focus :: string
  cr_token_budget :: int
  cr_max_items :: int
  cr_lambda :: pyfloat
  cr_category_share :: pyfloat

definition context_request_for :: "string \<Rightarrow> context_request" where
  "context_request_for focus =
     \<lparr> cr_focus = focus, cr_token_budget = DEFAULT_TOKEN_BUDGET, cr_max_items = DEFAULT_MAX_ITEMS,
       cr_lambda = DEFAULT_LAMBDA, cr_category_share = DEFAULT_CATEGORY_SHARE \<rparr>"

record context_item =
  xi_key :: string
  xi_title :: string
  xi_category :: context_category
  xi_body :: string
  xi_tokens :: int
  xi_position :: nat
  xi_sources :: "(context_source \<times> int) list"
  xi_relevance :: pyfloat
  xi_redundancy :: pyfloat
  xi_memory_id :: "nat option"
  xi_decision_id :: "nat option"
  xi_external_key :: "string option"

record assembled_context =
  ac_focus :: string
  ac_items :: "context_item list"
  ac_token_budget :: int
  ac_tokens_used :: int
  ac_rejected :: "(string \<times> rejection) list"
  ac_sources :: "(context_source \<times> nat) list"
  ac_candidates :: nat
  ac_cached :: bool

text \<open>What \<^verbatim>\<open>as_dict\<close> gives and the column \<^verbatim>\<open>payload\<close> holds.\<close>

record stored_item =
  si_key :: string
  si_title :: string
  si_category :: string
  si_body :: string
  si_tokens :: int
  si_position :: nat
  si_sources :: "(string \<times> int) list"
  si_relevance :: pyfloat
  si_redundancy :: pyfloat
  si_memory_id :: "string option"
  si_decision_id :: "string option"
  si_external_key :: "string option"

record stored_context =
  so_focus :: string
  so_token_budget :: int
  so_tokens_used :: int
  so_items :: "stored_item list"

section \<open>Tables\<close>

record decision_row =
  dn_id :: nat
  dn_question :: string
  dn_chosen :: string
  dn_reasoning :: "string option"
  dn_confidence :: "pyfloat option"
  dn_confidence_horizon :: confidence_horizon
  dn_updated_at :: time

record decision_evidence =
  de_decision :: nat
  de_source_name :: string
  de_external_key :: string

record cache_row =
  ca_key :: string
  ca_focus :: string
  ca_payload :: stored_context
  ca_token_count :: int
  ca_built_at :: time
  ca_expires_at :: time
  ca_hit_count :: nat

record context_state =
  cx_tables :: search_tables
  cx_decisions :: "decision_row list"
  cx_evidence :: "decision_evidence list"
  cx_cache :: "cache_row list"

record assembler =
  as_search :: searcher
  as_count :: "string \<Rightarrow> nat"
  as_embed :: "string list \<Rightarrow> pyfloat list list"
  as_expand :: "expander option"
  as_per_source :: nat
  as_ttl :: time
  as_sha256 :: "string \<Rightarrow> string"
  as_show_float :: "pyfloat \<Rightarrow> string"
  as_jsonb :: "(string \<times> int) list \<Rightarrow> (string \<times> int) list"

definition cx_rows :: "context_state \<Rightarrow> memory list" where
  "cx_rows st = memory_rows (sx_library (cx_tables st))"

definition in_view :: "memory \<Rightarrow> bool" where
  "in_view m \<longleftrightarrow> m_is_current m \<and> m_deleted_at m = None"

section \<open>The fingerprint and the key\<close>

text \<open>\<^verbatim>\<open>str\<close> of a \<^verbatim>\<open>datetime\<close> in UTC; \<^verbatim>\<open>max\<close> of SQL ignores missing values.\<close>

definition zero_pad :: "nat \<Rightarrow> string \<Rightarrow> string" where
  "zero_pad n s = replicate (n - length s) CHR ''0'' @ s"

definition show_timestamp :: "time \<Rightarrow> string" where
  "show_timestamp t =
     (let (m, d) = month_day_of t; r = time_of_day t; s = r div microseconds_per_second;
          us = r mod microseconds_per_second; two = (\<lambda>n. zero_pad 2 (show_nat (nat n)))
      in zero_pad 4 (show_nat (nat (year_of t))) @ ''-'' @ two m @ ''-'' @ two d @ '' '' @
         two (s div 3600) @ '':'' @ two (s div 60 mod 60) @ '':'' @ two (s mod 60) @
         (if us = 0 then [] else ''.'' @ zero_pad 6 (show_nat (nat us))) @ ''+00:00'')"

definition latest_of :: "time option list \<Rightarrow> time option" where
  "latest_of ts = (let known = map the (filter (\<lambda>t. t \<noteq> None) ts) in if known = [] then None else Some (Max (set known)))"

fun show_latest :: "time option \<Rightarrow> string" where
  "show_latest None = ''None''"
| "show_latest (Some t) = show_timestamp t"

definition fingerprint_text :: "context_state \<Rightarrow> string" where
  "fingerprint_text st =
     (let live = filter in_view (cx_rows st)
      in show_nat (length live) @ '':'' @ show_latest (latest_of (map m_ingested_at live)) @ '':'' @
         show_nat (length (cx_decisions st)) @ '':'' @
         show_latest (latest_of (map (\<lambda>d. Some (dn_updated_at d)) (cx_decisions st))))"

definition corpus_fingerprint :: "(string \<Rightarrow> string) \<Rightarrow> context_state \<Rightarrow> string" where
  "corpus_fingerprint sha256 st = take 32 (sha256 (fingerprint_text st))"

definition key_text :: "(pyfloat \<Rightarrow> string) \<Rightarrow> context_request \<Rightarrow> string \<Rightarrow> string" where
  "key_text show_float request fp =
     ''v'' @ show_nat CONTEXT_SCHEMA_VERSION @ [CHR 0x00] @ cr_focus request @ [CHR 0x00] @
     show_int (cr_token_budget request) @ [CHR 0x00] @ show_int (cr_max_items request) @ [CHR 0x00] @
     show_float (cr_lambda request) @ [CHR 0x00] @ show_float (cr_category_share request) @ [CHR 0x00] @ fp"

definition context_key_for :: "assembler \<Rightarrow> context_request \<Rightarrow> string \<Rightarrow> string" where
  "context_key_for as request fp = as_sha256 as (key_text (as_show_float as) request fp)"

section \<open>The payload\<close>

definition item_as_dict :: "context_item \<Rightarrow> stored_item" where
  "item_as_dict i =
     \<lparr> si_key = xi_key i, si_title = xi_title i, si_category = context_category_value (xi_category i),
       si_body = xi_body i, si_tokens = xi_tokens i, si_position = xi_position i,
       si_sources = map (\<lambda>(source, rank). (context_source_value source, rank)) (xi_sources i),
       si_relevance = xi_relevance i, si_redundancy = xi_redundancy i,
       si_memory_id = map_option show_nat (xi_memory_id i), si_decision_id = map_option show_nat (xi_decision_id i),
       si_external_key = xi_external_key i \<rparr>"

definition context_as_dict :: "assembled_context \<Rightarrow> stored_context" where
  "context_as_dict c =
     \<lparr> so_focus = ac_focus c, so_token_budget = ac_token_budget c, so_tokens_used = ac_tokens_used c,
       so_items = map item_as_dict (ac_items c) \<rparr>"

text \<open>What comes back from the column: an object may have its keys in another order.\<close>

definition through_jsonb :: "((string \<times> int) list \<Rightarrow> (string \<times> int) list) \<Rightarrow> stored_context \<Rightarrow> stored_context" where
  "through_jsonb order s = s\<lparr> so_items := map (\<lambda>i. i\<lparr> si_sources := order (si_sources i) \<rparr>) (so_items s) \<rparr>"

text \<open>\<^verbatim>\<open>ContextCategory(raw)\<close>, \<^verbatim>\<open>ContextSource(name)\<close> and \<^verbatim>\<open>UUID(raw)\<close>.\<close>

definition enum_of :: "('a \<Rightarrow> string) \<Rightarrow> 'a list \<Rightarrow> string \<Rightarrow> 'a result" where
  "enum_of val members s = (case find (\<lambda>x. val x = s) members of None \<Rightarrow> Inl ValueError | Some x \<Rightarrow> Inr x)"

definition id_of :: "string \<Rightarrow> nat result" where
  "id_of s = (if s \<noteq> [] \<and> list_all is_digit s then Inr (nat (digits_value s)) else Inl ValueError)"

definition source_of :: "string \<times> int \<Rightarrow> (context_source \<times> int) result" where
  "source_of p = bind_result (enum_of context_source_value CONTEXT_SOURCES (fst p)) (\<lambda>s. Inr (s, snd p))"

definition item_from_dict :: "stored_item \<Rightarrow> context_item result" where
  "item_from_dict raw =
     bind_result (enum_of context_category_value CONTEXT_CATEGORIES (si_category raw)) (\<lambda>category.
     bind_result (all_ok source_of (si_sources raw)) (\<lambda>sources.
     bind_result (optional id_of (si_memory_id raw)) (\<lambda>memory_id.
     bind_result (optional id_of (si_decision_id raw)) (\<lambda>decision_id. Inr
       \<lparr> xi_key = si_key raw, xi_title = si_title raw, xi_category = category, xi_body = si_body raw,
         xi_tokens = si_tokens raw, xi_position = si_position raw, xi_sources = dict_of sources,
         xi_relevance = si_relevance raw, xi_redundancy = si_redundancy raw, xi_memory_id = memory_id,
         xi_decision_id = decision_id, xi_external_key = si_external_key raw \<rparr>))))"

definition context_from_payload :: "stored_context \<Rightarrow> assembled_context result" where
  "context_from_payload p =
     bind_result (all_ok item_from_dict (so_items p)) (\<lambda>items. Inr
       \<lparr> ac_focus = so_focus p, ac_items = items, ac_token_budget = so_token_budget p,
         ac_tokens_used = so_tokens_used p, ac_rejected = [], ac_sources = [], ac_candidates = 0,
         ac_cached = True \<rparr>)"

section \<open>The sources\<close>

text \<open>\<^verbatim>\<open>key LIKE pattern ESCAPE '\'\<close>; a pattern that ends with the escape character matches nothing here.\<close>

definition BACKSLASH :: char where
  "BACKSLASH = char_of (92 :: nat)"

fun like :: "string \<Rightarrow> string \<Rightarrow> bool" where
  "like [] s = (s = [])"
| "like (p # ps) s =
     (if p = CHR ''%'' then list_ex (\<lambda>k. like ps (drop k s)) [0 ..< length s + 1]
      else if p = BACKSLASH then
        (case ps of [] \<Rightarrow> False | q # qs \<Rightarrow> (case s of [] \<Rightarrow> False | c # cs \<Rightarrow> c = q \<and> like qs cs))
      else (case s of [] \<Rightarrow> False | c # cs \<Rightarrow> (p = CHR ''_'' \<or> c = p) \<and> like ps cs))"

definition replace_char :: "char \<Rightarrow> string \<Rightarrow> string \<Rightarrow> string" where
  "replace_char c new s = concat (map (\<lambda>x. if x = c then new else [x]) s)"

definition like_literal :: "string \<Rightarrow> string" where
  "like_literal value =
     replace_char CHR ''_'' [BACKSLASH, CHR ''_'']
       (replace_char CHR ''%'' [BACKSLASH, CHR ''%'']
         (replace_char BACKSLASH [BACKSLASH, BACKSLASH] value))"

definition by_name :: "context_state \<Rightarrow> string \<Rightarrow> nat \<Rightarrow> nat list" where
  "by_name st focus limit =
     (if focus = [] then []
      else take limit (map m_id (filter (\<lambda>m. like (CHR ''%'' # like_literal focus) (m_key m) \<and> in_view m) (cx_rows st))))"

definition recency_rank :: "memory \<Rightarrow> int \<times> time" where
  "recency_rank m = (case m_occurred_at m of None \<Rightarrow> (1, 0) | Some t \<Rightarrow> (0, - t))"

definition recent :: "context_state \<Rightarrow> nat \<Rightarrow> nat list" where
  "recent st limit = take limit (map m_id (sort_key recency_rank (filter in_view (cx_rows st))))"

text \<open>The join of the evidence with the ranked memories on the natural key.\<close>

definition source_name_of :: "context_state \<Rightarrow> memory \<Rightarrow> string option" where
  "source_name_of st m = map_option src_name (source_get (m_source m) (lb_corpus (sx_library (cx_tables st))))"

definition citing_rows :: "context_state \<Rightarrow> (nat \<times> int) list \<Rightarrow> (nat \<times> nat) list" where
  "citing_rows st ranks =
     concat (map (\<lambda>e. map (\<lambda>m. (de_decision e, m_id m))
       (filter (\<lambda>m. m_id m \<in> fst ` set ranks \<and> source_name_of st m = Some (de_source_name e) \<and>
                    m_key m = de_external_key e) (cx_rows st))) (cx_evidence st))"

definition score_citing :: "(nat \<times> int) list \<Rightarrow> (nat \<times> nat) list \<Rightarrow> (nat \<times> pyfloat) list" where
  "score_citing ranks rows =
     foldl (\<lambda>d (decision_id, memory_id).
              case map_of ranks memory_id of
                None \<Rightarrow> d
              | Some rank \<Rightarrow> AList.update decision_id
                  (dict_get d decision_id 0 + 1 / of_int (DEFAULT_RRF_K + rank)) d) [] rows"

definition citing_decisions :: "context_state \<Rightarrow> (nat \<times> int) list \<Rightarrow> nat \<Rightarrow> nat list" where
  "citing_decisions st ranks limit =
     (if ranks = [] then []
      else take limit (map fst (sort_key (\<lambda>(i, score). (- score, show_nat i)) (score_citing ranks (citing_rows st ranks)))))"

section \<open>Text and vectors\<close>

record rendered =
  rd_title :: string
  rd_category :: context_category
  rd_body :: string
  rd_memory_id :: "nat option"
  rd_decision_id :: "nat option"
  rd_external_key :: "string option"

definition memory_key :: "nat \<Rightarrow> string" where
  "memory_key i = ''memory:'' @ show_nat i"

definition decision_key :: "nat \<Rightarrow> string" where
  "decision_key i = ''decision:'' @ show_nat i"

definition chunk_body :: "scored_chunk \<Rightarrow> string" where
  "chunk_body c = strip (drop (sk_prefix_chars c) (sk_text c))"

fun best_chunk_text :: "scored_chunk list \<Rightarrow> string" where
  "best_chunk_text [] = []"
| "best_chunk_text (c # cs) = chunk_body (first_max sk_score c cs)"

text \<open>\<^verbatim>\<open>{x:.2f}\<close>.\<close>

definition fixed2 :: "pyfloat \<Rightarrow> string" where
  "fixed2 x =
     (let n = nat \<bar>round_half_even (x * 100)\<bar>
      in (if x < 0 then ''-'' else []) @ show_nat (n div 100) @ ''.'' @
         [digit_char (n mod 100 div 10), digit_char (n mod 10)])"

definition NEWLINE :: string where
  "NEWLINE = [CHR 0x0A]"

definition decision_body :: "decision_row \<Rightarrow> string" where
  "decision_body d =
     ''Chose: '' @ dn_chosen d @
     (case dn_reasoning d of Some (c # cs) \<Rightarrow> NEWLINE @ ''Because: '' @ c # cs | _ \<Rightarrow> []) @
     (case dn_confidence d of
        None \<Rightarrow> []
      | Some x \<Rightarrow> NEWLINE @ ''Confidence at the time: '' @ fixed2 x @ '' ('' @
                  horizon_value (dn_confidence_horizon d) @ '')'')"

definition render_decision :: "decision_row \<Rightarrow> rendered" where
  "render_decision d =
     \<lparr> rd_title = ''decision: '' @ dn_question d, rd_category = CAT_DECISION, rd_body = decision_body d,
       rd_memory_id = None, rd_decision_id = Some (dn_id d), rd_external_key = None \<rparr>"

definition memory_body :: "context_state \<Rightarrow> (nat \<times> string) list \<Rightarrow> memory \<Rightarrow> string" where
  "memory_body st excerpts m =
     take EXCERPT_CHARS
       (case map_of excerpts (m_id m) of
          Some (c # cs) \<Rightarrow> c # cs
        | _ \<Rightarrow> strip (case tx_content (text_of m (sx_library (cx_tables st))) of None \<Rightarrow> [] | Some s \<Rightarrow> s))"

definition render_memory :: "context_state \<Rightarrow> (nat \<times> string) list \<Rightarrow> memory \<Rightarrow> string \<Rightarrow> rendered" where
  "render_memory st excerpts m source =
     \<lparr> rd_title = source @ ''::'' @ m_key m,
       rd_category = category_of (tx_kind (text_of m (sx_library (cx_tables st)))),
       rd_body = memory_body st excerpts m, rd_memory_id = Some (m_id m), rd_decision_id = None,
       rd_external_key = Some (m_key m) \<rparr>"

definition render ::
  "context_state \<Rightarrow> nat list \<Rightarrow> nat list \<Rightarrow> (nat \<times> string) list \<Rightarrow> (string \<times> rendered) list" where
  "render st memory_ids decision_ids excerpts =
     dict_of
       (concat (map (\<lambda>m. case source_name_of st m of
                           None \<Rightarrow> []
                         | Some source \<Rightarrow> [(memory_key (m_id m), render_memory st excerpts m source)])
          (filter (\<lambda>m. m_id m \<in> set memory_ids) (cx_rows st))) @
        map (\<lambda>d. (decision_key (dn_id d), render_decision d))
          (filter (\<lambda>d. dn_id d \<in> set decision_ids) (cx_decisions st)))"

definition stored_vectors :: "context_state \<Rightarrow> nat list \<Rightarrow> (string \<times> pyfloat list) list" where
  "stored_vectors st memory_ids =
     dict_of (concat (map (\<lambda>p. case ps_embedding p of
                                 None \<Rightarrow> []
                               | Some v \<Rightarrow> if ps_memory p \<in> set memory_ids \<and> ps_ordinal p = 0
                                           then [(memory_key (ps_memory p), v)] else [])
       (lb_passages (sx_library (cx_tables st)))))"

definition embed_unvectored ::
  "assembler \<Rightarrow> (string \<times> rendered) list \<Rightarrow> (string \<times> pyfloat list) list \<Rightarrow> (string \<times> pyfloat list) list result" where
  "embed_unvectored as texts have_vectors =
     (let missing = filter (\<lambda>(key, r). map_of have_vectors key = None) texts
      in if missing = [] then Inr []
         else
           let vectors = as_embed as (map (\<lambda>(key, r). rd_title r @ NEWLINE @ rd_body r) missing)
           in if length vectors \<noteq> length missing then Inl ValueError
              else Inr (zip (map fst missing) vectors))"

section \<open>Assembly\<close>

text \<open>What the sources propose: the rankings in the order of the code, the memories in the order they were
  found, and the excerpts.\<close>

record proposals =
  pr_rankings :: "(context_source \<times> string list) list"
  pr_reports :: "(context_source \<times> nat) list"
  pr_memory_ids :: "nat list"
  pr_decision_ids :: "nat list"
  pr_excerpts :: "(nat \<times> string) list"

definition graph_neighbours :: "assembler \<Rightarrow> context_state \<Rightarrow> nat list \<Rightarrow> scored_chunk list option" where
  "graph_neighbours as st retrieved =
     (case as_expand as of
        None \<Rightarrow> None
      | Some ex \<Rightarrow>
          if retrieved = [] then None
          else Some (gc_chunks (expand_through_graph ex (sx_library (cx_tables st)) (sx_entities (cx_tables st)) retrieved [])))"

definition gather :: "assembler \<Rightarrow> context_state \<Rightarrow> string \<Rightarrow> search_result \<Rightarrow> proposals" where
  "gather as st focus found_page =
     (let retrieved = map mh_memory_id (sr_hits found_page);
          excerpts = dict_of (map (\<lambda>h. (mh_memory_id h, best_chunk_text (mh_matched_chunks h)))
                       (filter (\<lambda>h. mh_matched_chunks h \<noteq> []) (sr_hits found_page)));
          neighbours = graph_neighbours as st retrieved;
          chunks = (case neighbours of None \<Rightarrow> [] | Some cs \<Rightarrow> cs);
          graph_ids = keep_first (map sk_memory_id chunks);
          named_ids = by_name st focus (as_per_source as);
          recent_ids = recent st (as_per_source as);
          memory_ids = keep_first (retrieved @ graph_ids @ named_ids @ recent_ids);
          decided = citing_decisions st (ranked id memory_ids) (as_per_source as)
      in \<lparr> pr_rankings =
             (RETRIEVAL_SOURCE, map memory_key retrieved) #
             (if neighbours = None then [] else [(GRAPH_SOURCE, map memory_key graph_ids)]) @
             [(TEMPORAL_SOURCE, map memory_key named_ids), (RECENCY_SOURCE, map memory_key recent_ids),
              (DECISIONS_SOURCE, map decision_key decided)],
           pr_reports =
             [(RETRIEVAL_SOURCE, length retrieved), (GRAPH_SOURCE, length graph_ids),
              (TEMPORAL_SOURCE, length named_ids), (RECENCY_SOURCE, length recent_ids),
              (DECISIONS_SOURCE, length decided)],
           pr_memory_ids = memory_ids, pr_decision_ids = keep_first decided,
           pr_excerpts = set_defaults excerpts (map (\<lambda>c. (sk_memory_id c, chunk_body c)) chunks) \<rparr>)"

definition candidate_of ::
  "assembler \<Rightarrow> (string \<times> rendered) list \<Rightarrow> (string \<times> pyfloat list) list \<Rightarrow> string \<times> pyfloat \<Rightarrow> candidate list" where
  "candidate_of as texts vectors p =
     (case map_of texts (fst p) of
        None \<Rightarrow> []
      | Some r \<Rightarrow> [\<lparr> cd_key = fst p, cd_category = rd_category r, cd_tokens = int (as_count as (rd_body r)),
                     cd_relevance = snd p, cd_vector = map_of vectors (fst p) \<rparr>])"

definition sources_of :: "(context_source \<times> string list) list \<Rightarrow> string \<Rightarrow> (context_source \<times> int) list" where
  "sources_of rankings key =
     concat (map (\<lambda>(source, keys). case map_of (dict_of (ranked id keys)) key of None \<Rightarrow> [] | Some rank \<Rightarrow> [(source, rank)])
       rankings)"

definition item_of ::
  "(context_source \<times> string list) list \<Rightarrow> (string \<times> rendered) list \<Rightarrow> chosen_item \<Rightarrow> context_item result" where
  "item_of rankings texts chosen =
     (case map_of texts (cs_key chosen) of
        None \<Rightarrow> Inl KeyError
      | Some r \<Rightarrow> Inr
          \<lparr> xi_key = cs_key chosen, xi_title = rd_title r, xi_category = rd_category r, xi_body = rd_body r,
            xi_tokens = cs_tokens chosen, xi_position = cs_position chosen,
            xi_sources = sources_of rankings (cs_key chosen), xi_relevance = cs_relevance chosen,
            xi_redundancy = cs_redundancy chosen, xi_memory_id = rd_memory_id r,
            xi_decision_id = rd_decision_id r, xi_external_key = rd_external_key r \<rparr>)"

definition assemble_from ::
  "assembler \<Rightarrow> context_state \<Rightarrow> context_request \<Rightarrow> proposals \<Rightarrow> assembled_context result" where
  "assemble_from as st request pr =
     (let texts = render st (pr_memory_ids pr) (pr_decision_ids pr) (pr_excerpts pr);
          have_vectors = stored_vectors st (pr_memory_ids pr)
      in bind_result (reciprocal_rank_fusion (map snd (pr_rankings pr)) DEFAULT_RRF_K None) (\<lambda>fused.
         bind_result (embed_unvectored as texts have_vectors) (\<lambda>embedded.
         let vectors = foldl (\<lambda>d (k, v). AList.update k v d) have_vectors embedded;
             candidates = concat (map (candidate_of as texts vectors) fused)
         in bind_result (select_items candidates (cr_token_budget request) (cr_max_items request)
                           (cr_lambda request) (cr_category_share request)) (\<lambda>sel.
            bind_result (all_ok (item_of (pr_rankings pr) texts) (sel_chosen sel)) (\<lambda>items. Inr
              \<lparr> ac_focus = cr_focus request, ac_items = items, ac_token_budget = cr_token_budget request,
                ac_tokens_used = sel_tokens_used sel, ac_rejected = sel_rejected sel,
                ac_sources = pr_reports pr, ac_candidates = length candidates, ac_cached = False \<rparr>)))))"

definition assemble :: "assembler \<Rightarrow> context_state \<Rightarrow> time \<Rightarrow> context_request \<Rightarrow> assembled_context result" where
  "assemble as st now request =
     bind_result
       (search_memories (as_search as) (cx_tables st) now (cr_focus request) (as_per_source as)
          None None False HYBRID DEFAULT_RRF_K True)
       (\<lambda>found_page. assemble_from as st request (gather as st (cr_focus request) found_page))"

section \<open>The cache\<close>

definition read_cached :: "string \<Rightarrow> time \<Rightarrow> context_state \<Rightarrow> assembled_context option result \<times> context_state" where
  "read_cached key now st =
     (case find (\<lambda>r. ca_key r = key \<and> now < ca_expires_at r) (cx_cache st) of
        None \<Rightarrow> (Inr None, st)
      | Some r \<Rightarrow>
          (bind_result (context_from_payload (ca_payload r)) (\<lambda>c. Inr (Some c)),
           st\<lparr> cx_cache := update_where (\<lambda>r. ca_key r = key \<and> now < ca_expires_at r)
                             (\<lambda>r. r\<lparr> ca_hit_count := ca_hit_count r + 1 \<rparr>) (cx_cache st) \<rparr>))"

definition cache_row_ok :: "cache_row \<Rightarrow> bool" where
  "cache_row_ok r \<longleftrightarrow>
     list_ex (\<lambda>c. c \<noteq> CHR '' '') (ca_focus r) \<and> 0 \<le> ca_token_count r \<and> ca_built_at r < ca_expires_at r"

text \<open>\<^verbatim>\<open>ON CONFLICT DO UPDATE\<close> on the key keeps the focus and the count of hits of the row that is there.\<close>

definition write_cache ::
  "assembler \<Rightarrow> string \<Rightarrow> context_request \<Rightarrow> assembled_context \<Rightarrow> time \<Rightarrow> context_state
   \<Rightarrow> (pipeline_error + unit) \<times> context_state" where
  "write_cache as key request assembled now st =
     (let row = \<lparr> ca_key = key, ca_focus = cr_focus request,
                  ca_payload = through_jsonb (as_jsonb as) (context_as_dict assembled),
                  ca_token_count = ac_tokens_used assembled, ca_built_at = now,
                  ca_expires_at = now + as_ttl as, ca_hit_count = 0 \<rparr>
      in if \<not> cache_row_ok row then (Inl IntegrityViolation, st)
         else (Inr (), st\<lparr> cx_cache :=
           (if list_ex (\<lambda>r. ca_key r = key) (cx_cache st)
            then update_where (\<lambda>r. ca_key r = key)
                   (\<lambda>r. r\<lparr> ca_payload := ca_payload row, ca_token_count := ca_token_count row,
                           ca_built_at := ca_built_at row, ca_expires_at := ca_expires_at row \<rparr>) (cx_cache st)
            else cx_cache st @ [row]) \<rparr>))"

text \<open>The use case: the cache is read at one time and written at a later one.\<close>

definition assemble_and_store ::
  "assembler \<Rightarrow> time \<Rightarrow> time \<Rightarrow> context_request \<Rightarrow> string \<Rightarrow> bool \<Rightarrow> context_state
   \<Rightarrow> (pipeline_error + assembled_context) \<times> context_state" where
  "assemble_and_store as now built request key use_cache st =
     (case assemble as st now request of
        Inl e \<Rightarrow> (Inl (Raised e), st)
      | Inr assembled \<Rightarrow>
          if \<not> use_cache then (Inr assembled, st)
          else (case write_cache as key request assembled built st of
                  (Inl e, st') \<Rightarrow> (Inl e, st')
                | (Inr _, st') \<Rightarrow> (Inr assembled, st')))"

definition assemble_context ::
  "assembler \<Rightarrow> time \<Rightarrow> time \<Rightarrow> context_request \<Rightarrow> bool \<Rightarrow> context_state
   \<Rightarrow> (pipeline_error + assembled_context) \<times> context_state" where
  "assemble_context as now built request use_cache st =
     (let key = context_key_for as request (corpus_fingerprint (as_sha256 as) st)
      in if \<not> use_cache then assemble_and_store as now built request key use_cache st
         else (case read_cached key now st of
                 (Inl e, st') \<Rightarrow> (Inl (Raised e), st')
               | (Inr (Some cached), st') \<Rightarrow> (Inr cached, st')
               | (Inr None, st') \<Rightarrow> assemble_and_store as now built request key use_cache st'))"

record context_cache_stats =
  ch_entries :: nat
  ch_live :: nat
  ch_hits :: nat
  ch_tokens :: int

definition context_hit_rate :: "context_cache_stats \<Rightarrow> pyfloat option" where
  "context_hit_rate s =
     (let requests = ch_entries s + ch_hits s in if requests = 0 then None else Some (of_nat (ch_hits s) / of_nat requests))"

definition cache_stats :: "time \<Rightarrow> context_state \<Rightarrow> context_cache_stats" where
  "cache_stats now st =
     \<lparr> ch_entries = length (cx_cache st), ch_live = row_count (\<lambda>r. now < ca_expires_at r) (cx_cache st),
       ch_hits = sum_list (map ca_hit_count (cx_cache st)), ch_tokens = sum_list (map ca_token_count (cx_cache st)) \<rparr>"

end
