(* ===== verification/Context_Guarantees.thy ===== *)
theory Context_Guarantees
  imports Context_Engine Search_Guarantees
begin

text \<open>
  Properties of an assembled context: its budget and shares, the account every item gives of its sources, the
  lookup by name, and that nothing hidden is shown while the graph is off.
\<close>

section \<open>What selection keeps of a candidate\<close>

lemma select_fold_chosen:
  "chosen_summary ` set (ss_chosen (fold (select_step b n cap by) xs st)) \<subseteq>
   chosen_summary ` set (ss_chosen st) \<union> chosen_summary ` set xs"
proof (induction xs arbitrary: st)
  case (Cons x xs)
  have "chosen_summary ` set (ss_chosen (select_step b n cap by x st)) \<subseteq>
        insert (chosen_summary x) (chosen_summary ` set (ss_chosen st))"
    by (auto simp: select_step_def Let_def chosen_summary_def)
  with Cons.IH [of "select_step b n cap by x st"] show ?case by auto
qed simp

lemma select_items_from:
  assumes "select_items cs b n l share = Inr sel" and "i \<in> set (sel_chosen sel)"
  obtains c where "c \<in> set cs" and "cs_key i = cd_key c" and "cs_relevance i = cd_relevance c" and "cs_tokens i = cd_tokens c"
proof -
  obtain ordered where ord: "maximal_marginal_relevance cs l None = Inr ordered"
    and sel: "sel_chosen sel = ss_chosen (fold (select_step b n (category_cap n share) (by_key cs)) ordered
                \<lparr> ss_chosen = [], ss_rejected = [], ss_used = 0, ss_per_category = [] \<rparr>)"
    using assms(1) by (auto simp: select_items_def Let_def split: if_splits sum.splits)
  have "chosen_summary i \<in> chosen_summary ` set ordered"
    using assms(2) select_fold_chosen [of b n "category_cap n share" "by_key cs" ordered] unfolding sel by fastforce
  moreover have "mset (map chosen_summary ordered) = mset (map summary cs)"
    using mmr_is_a_reordering [OF ord] by simp
  then have "chosen_summary ` set ordered = summary ` set cs" by (metis list.set_map mset_eq_setD)
  ultimately obtain c where "c \<in> set cs" "chosen_summary i = summary c" by auto
  then show thesis using that by (simp add: chosen_summary_def summary_def)
qed

lemma by_key_distinct:
  assumes "distinct (map cd_key cs)" and "c \<in> set cs"
  shows "by_key cs (cd_key c) = Some c"
proof -
  have "distinct (map fst (rev (map (\<lambda>c. (cd_key c, c)) cs)))" using assms(1) by (simp add: o_def rev_map [symmetric])
  then show ?thesis using assms(2) unfolding by_key_def by (intro map_of_is_SomeI) auto
qed

section \<open>What assembly is made of\<close>

definition fused_keys :: "proposals \<Rightarrow> (string \<times> pyfloat) list" where
  "fused_keys pr = sort_key fused_key
     (fuse_all DEFAULT_RRF_K (zip (map snd (pr_rankings pr)) (replicate (length (pr_rankings pr)) 1)) [])"

lemma fusion_of_proposals: "reciprocal_rank_fusion (map snd (pr_rankings pr)) DEFAULT_RRF_K None = Inr (fused_keys pr)"
  by (simp add: reciprocal_rank_fusion_def fused_keys_def DEFAULT_RRF_K_def)

lemma distinct_fused_keys: "distinct (map fst (fused_keys pr))"
  unfolding fused_keys_def by (simp add: distinct_sort_keys fuse_all_distinct)

lemma fused_keys_in:
  assumes "(k, s) \<in> set (fused_keys pr)"
  shows "s = sum_list (map (\<lambda>r. rank_term DEFAULT_RRF_K k (r, 1)) (map snd (pr_rankings pr)))"
    and "\<exists>r \<in> set (map snd (pr_rankings pr)). k \<in> set r"
proof -
  let ?z = "zip (map snd (pr_rankings pr)) (replicate (length (pr_rankings pr)) (1 :: pyfloat))"
  have z: "?z = map (\<lambda>r. (r, 1 :: pyfloat)) (map snd (pr_rankings pr))"
    by (simp add: zip_replicate2)
  have "(k, s) \<in> {(x, fused_score DEFAULT_RRF_K ?z x) | x. x \<in> \<Union> (set ` fst ` set ?z)}"
    using assms unfolding fused_keys_def set_sort fuse_all_set by simp
  then have 1: "s = fused_score DEFAULT_RRF_K ?z k" and 2: "k \<in> \<Union> (set ` fst ` set ?z)" by blast+
  show "s = sum_list (map (\<lambda>r. rank_term DEFAULT_RRF_K k (r, 1)) (map snd (pr_rankings pr)))"
    using 1 unfolding z by (simp add: fused_score_def o_def)
  show "\<exists>r \<in> set (map snd (pr_rankings pr)). k \<in> set r" using 2 unfolding z by auto
qed

lemma candidate_keys:
  "map cd_key (concat (map (candidate_of as texts vectors) fused)) = filter (\<lambda>k. map_of texts k \<noteq> None) (map fst fused)"
  by (induction fused) (auto simp: candidate_of_def split: option.split)

lemma in_candidates:
  assumes "cd \<in> set (concat (map (candidate_of as texts vectors) fused))"
  obtains r where "(cd_key cd, cd_relevance cd) \<in> set fused" and "map_of texts (cd_key cd) = Some r"
    and "cd_category cd = rd_category r" and "cd_tokens cd = int (as_count as (rd_body r))"
proof -
  from assms obtain p where p: "p \<in> set fused" "cd \<in> set (candidate_of as texts vectors p)" by auto
  then obtain r where "map_of texts (fst p) = Some r"
    "cd = \<lparr> cd_key = fst p, cd_category = rd_category r, cd_tokens = int (as_count as (rd_body r)),
            cd_relevance = snd p, cd_vector = map_of vectors (fst p) \<rparr>"
    by (cases "map_of texts (fst p)") (auto simp: candidate_of_def)
  with p(1) show thesis by (intro that [of r]) simp_all
qed

lemma assemble_from_Inr:
  assumes "assemble_from as st request pr = Inr c"
  obtains texts vectors candidates sel where
    "texts = render st (pr_memory_ids pr) (pr_decision_ids pr) (pr_excerpts pr)"
    and "candidates = concat (map (candidate_of as texts vectors) (fused_keys pr))"
    and "select_items candidates (cr_token_budget request) (cr_max_items request) (cr_lambda request) (cr_category_share request) = Inr sel"
    and "list_all2 (\<lambda>x i. item_of (pr_rankings pr) texts x = Inr i) (sel_chosen sel) (ac_items c)"
    and "ac_tokens_used c = sel_tokens_used sel" and "ac_focus c = cr_focus request"
    and "ac_token_budget c = cr_token_budget request" and "\<not> ac_cached c"
proof -
  from assms obtain embedded sel items where
    "select_items (concat (map (candidate_of as (render st (pr_memory_ids pr) (pr_decision_ids pr) (pr_excerpts pr))
        (foldl (\<lambda>d (k, v). AList.update k v d) (stored_vectors st (pr_memory_ids pr)) embedded)) (fused_keys pr)))
        (cr_token_budget request) (cr_max_items request) (cr_lambda request) (cr_category_share request) = Inr sel"
    and "all_ok (item_of (pr_rankings pr) (render st (pr_memory_ids pr) (pr_decision_ids pr) (pr_excerpts pr))) (sel_chosen sel) = Inr items"
    and "ac_items c = items" "ac_tokens_used c = sel_tokens_used sel" "ac_focus c = cr_focus request"
        "ac_token_budget c = cr_token_budget request" "\<not> ac_cached c"
    by (auto simp: assemble_from_def Let_def fusion_of_proposals bind_result_Inr_iff)
  then show thesis using that [OF refl refl] by (simp add: all_ok_iff)
qed

text \<open>An item of a context is a candidate of its text that the selection chose.\<close>

definition item_fits ::
  "assembler \<Rightarrow> (context_source \<times> string list) list \<Rightarrow> (string \<times> rendered) list \<Rightarrow> (string \<times> pyfloat) list \<Rightarrow> context_item \<Rightarrow> bool" where
  "item_fits as proposed texts fused i \<longleftrightarrow>
     (\<exists>r. map_of texts (xi_key i) = Some r \<and> xi_body i = rd_body r \<and> xi_category i = rd_category r \<and>
          xi_memory_id i = rd_memory_id r \<and> xi_tokens i = int (as_count as (rd_body r)) \<and>
          xi_sources i = sources_of proposed (xi_key i) \<and> (xi_key i, xi_relevance i) \<in> set fused)"

lemma list_all2_right: "list_all2 P xs ys \<Longrightarrow> y \<in> set ys \<Longrightarrow> \<exists>x \<in> set xs. P x y"
  by (induction rule: list_all2_induct) auto

lemma items_fit:
  assumes "assemble_from as st request pr = Inr c" and "i \<in> set (ac_items c)"
  shows "item_fits as (pr_rankings pr) (render st (pr_memory_ids pr) (pr_decision_ids pr) (pr_excerpts pr)) (fused_keys pr) i"
proof -
  obtain texts vectors candidates sel where
    texts: "texts = render st (pr_memory_ids pr) (pr_decision_ids pr) (pr_excerpts pr)"
    and cands: "candidates = concat (map (candidate_of as texts vectors) (fused_keys pr))"
    and sel: "select_items candidates (cr_token_budget request) (cr_max_items request) (cr_lambda request) (cr_category_share request) = Inr sel"
    and items: "list_all2 (\<lambda>x i. item_of (pr_rankings pr) texts x = Inr i) (sel_chosen sel) (ac_items c)"
    using assms(1) by (rule assemble_from_Inr)
  obtain x where x: "x \<in> set (sel_chosen sel)" "item_of (pr_rankings pr) texts x = Inr i"
    using list_all2_right [OF items assms(2)] by (elim bexE)
  obtain cd where cd: "cd \<in> set candidates" "cs_key x = cd_key cd" "cs_relevance x = cd_relevance cd" "cs_tokens x = cd_tokens cd"
    using select_items_from [OF sel x(1)] .
  obtain r where r: "(cd_key cd, cd_relevance cd) \<in> set (fused_keys pr)" "map_of texts (cd_key cd) = Some r"
      "cd_tokens cd = int (as_count as (rd_body r))"
    using cd(1) unfolding cands by (rule in_candidates)
  from x(2) r(2) cd have "xi_key i = cd_key cd" "xi_body i = rd_body r" "xi_category i = rd_category r"
    "xi_memory_id i = rd_memory_id r" "xi_tokens i = cd_tokens cd" "xi_relevance i = cd_relevance cd"
    "xi_sources i = sources_of (pr_rankings pr) (cd_key cd)"
    by (auto simp: item_of_def)
  with r show ?thesis unfolding item_fits_def texts [symmetric] by auto
qed


lemma list_all2_map: "list_all2 (\<lambda>x y. f x = g y) xs ys \<Longrightarrow> map f xs = map g ys"
  by (induction rule: list_all2_induct) auto

lemma item_of_fields:
  assumes "list_all2 (\<lambda>x i. item_of proposed texts x = Inr i) xs items"
  shows "map xi_key items = map cs_key xs" and "map xi_tokens items = map cs_tokens xs"
    and "map xi_position items = map cs_position xs"
proof -
  have *: "list_all2 (\<lambda>x i. f x = g i) xs items"
    if "\<And>x i. item_of proposed texts x = Inr i \<Longrightarrow> f x = g i" for f :: "chosen_item \<Rightarrow> 'b" and g
    using assms by (rule list_all2_mono) (rule that)
  show "map xi_key items = map cs_key xs" by (rule list_all2_map [symmetric], rule *) (auto simp: item_of_def split: option.splits)
  show "map xi_tokens items = map cs_tokens xs" by (rule list_all2_map [symmetric], rule *) (auto simp: item_of_def split: option.splits)
  show "map xi_position items = map cs_position xs" by (rule list_all2_map [symmetric], rule *) (auto simp: item_of_def split: option.splits)
qed

lemma category_items:
  assumes "list_all2 (\<lambda>x i. item_of proposed texts x = Inr i) xs items"
    and "\<And>x. x \<in> set xs \<Longrightarrow> \<exists>r. map_of texts (cs_key x) = Some r \<and> cd_category (the (by (cs_key x))) = rd_category r"
  shows "length (filter (\<lambda>i. xi_category i = cat) items) = category_count by cat xs"
  using assms
proof (induction rule: list_all2_induct)
  case (Cons x xs i items)
  from Cons(4) [of x] Cons(1) have "xi_category i = cd_category (the (by (cs_key x)))"
    by (auto simp: item_of_def)
  with Cons(3,4) show ?case by (simp add: category_count_def)
qed (simp add: category_count_def)

lemma in_categories: "cat \<in> set CONTEXT_CATEGORIES"
  by (cases cat) (simp_all add: CONTEXT_CATEGORIES_def)

section \<open>The budget\<close>

definition fits_request :: "context_request \<Rightarrow> context_item list \<Rightarrow> bool" where
  "fits_request request items \<longleftrightarrow>
     int (length items) \<le> cr_max_items request \<and>
     sum_list (map xi_tokens items) \<le> cr_token_budget request \<and>
     list_all (\<lambda>cat. int (length (filter (\<lambda>i. xi_category i = cat) items)) \<le>
                     category_cap (cr_max_items request) (cr_category_share request)) CONTEXT_CATEGORIES \<and>
     list_all (\<lambda>i. 0 < xi_tokens i) items \<and> distinct (map xi_key items) \<and>
     map xi_position items = map Suc [0 ..< length items]"

lemma context_fits:
  assumes "assemble as st now request = Inr c"
  shows "fits_request request (ac_items c) \<and> ac_tokens_used c = sum_list (map xi_tokens (ac_items c)) \<and>
         list_all (\<lambda>i. xi_tokens i = int (as_count as (xi_body i))) (ac_items c)"
proof -
  obtain pr where from_pr: "assemble_from as st request pr = Inr c"
    using assms by (auto simp: assemble_def bind_result_Inr_iff)
  then obtain texts vectors candidates sel where
    cands: "candidates = concat (map (candidate_of as texts vectors) (fused_keys pr))"
    and sel: "select_items candidates (cr_token_budget request) (cr_max_items request) (cr_lambda request) (cr_category_share request) = Inr sel"
    and items: "list_all2 (\<lambda>x i. item_of (pr_rankings pr) texts x = Inr i) (sel_chosen sel) (ac_items c)"
    and used: "ac_tokens_used c = sel_tokens_used sel"
    by (rule assemble_from_Inr)
  have keys: "distinct (map cd_key candidates)"
    unfolding cands candidate_keys using distinct_fused_keys by (rule distinct_filter)
  obtain ordered s where ord: "maximal_marginal_relevance candidates (cr_lambda request) None = Inr ordered"
    and inv: "select_inv (cr_token_budget request) (cr_max_items request)
        (category_cap (cr_max_items request) (cr_category_share request)) (by_key candidates) ordered s"
    and s: "sel = \<lparr> sel_chosen = ss_chosen s, sel_rejected = ss_rejected s, sel_tokens_used = ss_used s \<rparr>"
    using select_items_Inr [OF sel] by metis
  have "mset (map cs_key ordered) = mset (map cd_key candidates)"
    using mmr_is_a_reordering [OF ord] arg_cong [of _ _ "image_mset fst"]
    by (force simp: chosen_summary_def summary_def o_def multiset.map_comp dest: arg_cong [of _ _ "image_mset fst"])
  then have "distinct (map cs_key ordered)" using keys by (metis mset_eq_imp_distinct_iff)
  then have chosen_keys: "distinct (map cs_key (sel_chosen sel))"
    using inv unfolding select_inv_def s by (metis distinct_append mset_append mset_eq_imp_distinct_iff selection.select_convs(1))
  have cat: "\<exists>r. map_of texts (cs_key x) = Some r \<and> cd_category (the (by_key candidates (cs_key x))) = rd_category r"
    if x: "x \<in> set (sel_chosen sel)" for x
  proof -
    obtain cd where cd: "cd \<in> set candidates" "cs_key x = cd_key cd" using select_items_from [OF sel x] by metis
    obtain r where "map_of texts (cd_key cd) = Some r" "cd_category cd = rd_category r"
      using cd(1) unfolding cands by (rule in_candidates)
    then show ?thesis using cd by_key_distinct [OF keys cd(1)] by simp
  qed
  note fields = item_of_fields [OF items] and count = category_items [OF items cat]
  have len: "length (ac_items c) = length (sel_chosen sel)" using items by (simp add: list_all2_lengthD)
  have tokens: "xi_tokens i = int (as_count as (xi_body i))" if "i \<in> set (ac_items c)" for i
    using items_fit [OF from_pr that] by (auto simp: item_fits_def)
  have "list_all (\<lambda>i. 0 < xi_tokens i) (ac_items c) \<longleftrightarrow> list_all (\<lambda>t. 0 < t) (map xi_tokens (ac_items c))"
    by (simp add: list.pred_map o_def)
  then show ?thesis
    using inv chosen_keys count fields len tokens
    by (auto simp: fits_request_def select_inv_def s used list_all_iff)
qed

text \<open>C24 A context fits its request: it holds at most the items asked for, within the budget of tokens, no category
  over its share, none twice, numbered from 1, and what it reports as used is the number of tokens of the
  text it shows.\<close>

theorem a_context_fits_its_request:
  assumes "assemble as st now request = Inr c"
  shows "fits_request request (ac_items c) \<and> ac_tokens_used c = sum_list (map xi_tokens (ac_items c)) \<and>
         list_all (\<lambda>i. xi_tokens i = int (as_count as (xi_body i))) (ac_items c)"
  using assms by (rule context_fits)


section \<open>Where an item comes from\<close>

lemma distinct_hits:
  assumes "search_memories s sx now query k filters ef exact mode rrf_k rerank = Inr r"
  shows "distinct (map mh_memory_id (sr_hits r))"
proof -
  have page: "distinct (map mh_memory_id (to_hits l chunks k))" for l chunks
  proof -
    have "distinct (map mh_memory_id (sort_key hit_rank (found_hits (metadata_of l) (grouped chunks))))"
      by (simp add: distinct_sort_keys found_hits_memories)
    then show ?thesis by (simp add: to_hits_def take_map [symmetric])
  qed
  have "distinct (map mh_memory_id (reorder hits ord)) = distinct (map mh_memory_id hits)" for hits ord
    using ordering_reorders_the_page [of hits ord] by (metis mset_eq_imp_distinct_iff mset_map)
  with page assms show ?thesis
    by (auto simp: search_memories_def bind_result_Inr_iff Let_def split_beta split: option.split)
qed

lemma inj_memory_key: "inj memory_key" and inj_decision_key: "inj decision_key"
  by (auto simp: inj_def memory_key_def decision_key_def dest: show_nat_inj)

lemma distinct_scores: "distinct (map fst (score_citing ranks rows))"
proof -
  have "distinct (map fst d) \<Longrightarrow> distinct (map fst (foldl (\<lambda>d (decision_id, memory_id).
      case map_of ranks memory_id of None \<Rightarrow> d
      | Some rank \<Rightarrow> AList.update decision_id (dict_get d decision_id 0 + 1 / of_int (DEFAULT_RRF_K + rank)) d) d rows))"
    for d :: "(nat \<times> pyfloat) list"
    by (induction rows arbitrary: d) (auto simp: distinct_update split: option.split prod.split)
  then show ?thesis by (simp add: score_citing_def)
qed

lemma distinct_citing: "distinct (citing_decisions st ranks limit)"
  by (simp add: citing_decisions_def distinct_sort_keys distinct_scores take_map [symmetric])

lemma distinct_ids: "distinct (map m_id rows) \<Longrightarrow> distinct (take n (map m_id (filter p rows)))"
  by (intro distinct_take distinct_map_filter)

lemma gather_distinct:
  assumes "distinct (map m_id (cx_rows st))" and "distinct (map mh_memory_id (sr_hits r))"
    and "(source, keys) \<in> set (pr_rankings (gather as st focus r))"
  shows "distinct keys"
proof -
  have "distinct (by_name st focus n)" for n using assms(1) by (simp add: by_name_def distinct_ids)
  moreover have "distinct (recent st n)" for n
    using assms(1) by (simp add: recent_def distinct_sort_keys distinct_map_filter)
  moreover have "inj_on (memory_key \<circ> mh_memory_id) (set (sr_hits r))"
    using assms(2) inj_on_subset [OF inj_memory_key subset_UNIV] by (simp add: distinct_map comp_inj_on)
  ultimately show ?thesis
    using assms(2,3) inj_on_subset [OF inj_memory_key subset_UNIV] inj_on_subset [OF inj_decision_key subset_UNIV]
    by (auto simp: gather_def Let_def distinct_map distinct_citing intro: comp_inj_on split: if_splits)
qed

lemma sources_rank_sum:
  assumes "\<And>source keys. (source, keys) \<in> set proposed \<Longrightarrow> distinct keys"
  shows "sum_list (map (\<lambda>(source, rank). 1 / of_int (k + rank)) (sources_of proposed key)) =
         sum_list (map (\<lambda>r. rank_term k key (r, 1 :: pyfloat)) (map snd proposed))"
  using assms
proof (induction proposed)
  case (Cons p proposed)
  obtain source keys where p: "p = (source, keys)" by (cases p)
  from Cons.prems [of source keys] have "distinct keys" by (simp add: p)
  then have "map_of (dict_of (ranked id keys)) key = rank_of key keys" by (rule map_of_ranked_distinct)
  moreover have "sum_list (map (\<lambda>(source, rank). 1 / of_int (k + rank)) (sources_of proposed key)) =
         sum_list (map (\<lambda>r. rank_term k key (r, 1 :: pyfloat)) (map snd proposed))"
    using Cons.IH Cons.prems by (meson list.set_intros(2))
  ultimately show ?case by (cases "rank_of key keys") (simp_all add: p sources_of_def rank_term_def)
qed (simp add: sources_of_def)

lemma sources_present:
  assumes "(source, keys) \<in> set proposed" and "distinct keys" and "key \<in> set keys"
  shows "sources_of proposed key \<noteq> []"
proof -
  have "rank_of key keys \<noteq> None" using assms(3) by (simp add: rank_of_def rank_from_None)
  then show ?thesis using assms(1) map_of_ranked_distinct [OF assms(2), of key] by (force simp: sources_of_def)
qed

lemma distinct_sources: "distinct (map fst proposed) \<Longrightarrow> distinct (map fst (sources_of proposed key))"
proof (induction proposed)
  case (Cons p proposed)
  have "fst ` set (sources_of proposed key) \<subseteq> fst ` set proposed"
    by (force simp: sources_of_def split: option.splits)
  moreover have "sources_of ((source, keys) # proposed) key =
      (case map_of (dict_of (ranked id keys)) key of None \<Rightarrow> [] | Some rank \<Rightarrow> [(source, rank)]) @ sources_of proposed key"
    for source keys by (simp add: sources_of_def)
  ultimately show ?case using Cons by (cases p) (auto split: option.split)
qed (simp add: sources_of_def)

text \<open>C25 Every item says where it comes from: at least one source proposed it, none is named twice, and its
  relevance is the sum over those sources of 1 / (60 + rank), so the sources given account for the whole score.\<close>

theorem every_item_names_its_sources:
  assumes "assemble as st now request = Inr c" and "distinct (map m_id (cx_rows st))"
  shows "list_all (\<lambda>i. xi_sources i \<noteq> [] \<and> distinct (map fst (xi_sources i)) \<and>
           xi_relevance i = sum_list (map (\<lambda>(source, rank). 1 / of_int (DEFAULT_RRF_K + rank)) (xi_sources i)))
         (ac_items c)"
  unfolding list_all_iff
proof
  fix i assume i: "i \<in> set (ac_items c)"
  obtain r where page: "search_memories (as_search as) (cx_tables st) now (cr_focus request) (as_per_source as)
          None None False HYBRID DEFAULT_RRF_K True = Inr r"
    and from_pr: "assemble_from as st request (gather as st (cr_focus request) r) = Inr c"
    using assms(1) by (auto simp: assemble_def bind_result_Inr_iff)
  let ?pr = "gather as st (cr_focus request) r"
  note apart = gather_distinct [OF assms(2) distinct_hits [OF page]]
  have key: "(xi_key i, xi_relevance i) \<in> set (fused_keys ?pr)" and src: "xi_sources i = sources_of (pr_rankings ?pr) (xi_key i)"
    using items_fit [OF from_pr i] by (auto simp: item_fits_def)
  obtain source keys where sk: "(source, keys) \<in> set (pr_rankings ?pr)" "xi_key i \<in> set keys"
    using fused_keys_in(2) [OF key] by auto
  have "sources_of (pr_rankings ?pr) (xi_key i) \<noteq> []"
    by (rule sources_present [OF sk(1) apart [OF sk(1)] sk(2)])
  moreover have "distinct (map fst (sources_of (pr_rankings ?pr) (xi_key i)))"
    by (rule distinct_sources) (simp add: gather_def Let_def)
  ultimately show "xi_sources i \<noteq> [] \<and> distinct (map fst (xi_sources i)) \<and>
      xi_relevance i = sum_list (map (\<lambda>(source, rank). 1 / of_int (DEFAULT_RRF_K + rank)) (xi_sources i))"
    unfolding src using fused_keys_in(1) [OF key] sources_rank_sum [OF apart, where key = "xi_key i"] by simp
qed


section \<open>The focus as text\<close>

definition escaped :: "char \<Rightarrow> string" where
  "escaped c = (if c = BACKSLASH \<or> c = CHR ''%'' \<or> c = CHR ''_'' then [BACKSLASH, c] else [c])"

lemma metacharacters [simp]: "BACKSLASH \<noteq> CHR ''%''" "BACKSLASH \<noteq> CHR ''_''"
  by code_simp+

lemma replace_char_simps [simp]:
  "replace_char c new [] = []"
  "replace_char c new (x # xs) = (if x = c then new else [x]) @ replace_char c new xs"
  "replace_char c new (xs @ ys) = replace_char c new xs @ replace_char c new ys"
  by (simp_all add: replace_char_def)

lemma like_literal_eq: "like_literal v = concat (map escaped v)"
proof (induction v)
  case (Cons c v)
  then show ?case
    using metacharacters [symmetric] by (auto simp: like_literal_def escaped_def)
qed (simp add: like_literal_def)

lemma like_escaped: "like (concat (map escaped v)) s \<longleftrightarrow> s = v"
  by (induction v arbitrary: s) (auto simp: escaped_def split: list.split)

lemma like_suffix: "like (CHR ''%'' # like_literal v) s \<longleftrightarrow> ends_with v s"
proof -
  have "like (CHR ''%'' # like_literal v) s \<longleftrightarrow> (\<exists>k \<le> length s. drop k s = v)"
  proof -
    have "set [0 ..< length s + 1] = {..length s}" by auto
    then show ?thesis by (auto simp: like_literal_eq like_escaped list_ex_iff simp del: set_upt upt_Suc)
  qed
  also have "\<dots> \<longleftrightarrow> ends_with v s"
  proof
    assume "\<exists>k \<le> length s. drop k s = v"
    then obtain k where "k \<le> length s" "drop k s = v" by blast
    then have "s = take k s @ v" by (metis append_take_drop_id)
    then have "rev s = rev v @ rev (take k s)" by (metis rev_append)
    then show "ends_with v s" by (simp add: ends_with_def starts_with_def)
  next
    assume "ends_with v s"
    then have v: "take (length v) (rev s) = rev v" by (simp add: ends_with_def starts_with_def)
    then have "length v \<le> length s" by (metis length_rev length_take min.cobounded1)
    moreover have "drop (length s - length v) s = v" using v by (simp add: take_rev)
    ultimately show "\<exists>k \<le> length s. drop k s = v" by (intro exI [of _ "length s - length v"]) simp
  qed
  finally show ?thesis .
qed

text \<open>C27 A focus is matched as text: the source that looks for the focused item by name finds the memories in view
  whose key ends with the focus, whatever wildcards of the database's patterns it contains.\<close>

theorem a_focus_is_matched_as_text:
  "by_name st focus limit =
     (if focus = [] then [] else take limit (map m_id (filter (\<lambda>m. ends_with focus (m_key m) \<and> in_view m) (cx_rows st))))"
  by (simp add: by_name_def like_suffix del: like.simps)

section \<open>Nothing hidden\<close>

definition shown_in_view :: "context_state \<Rightarrow> nat \<Rightarrow> bool" where
  "shown_in_view st i \<longleftrightarrow> list_ex (\<lambda>m. m_id m = i \<and> in_view m) (cx_rows st)"

lemma by_name_in_view: "i \<in> set (by_name st focus limit) \<Longrightarrow> shown_in_view st i"
  by (auto simp: by_name_def shown_in_view_def list_ex_iff simp del: like.simps dest!: in_set_takeD split: if_splits)

lemma recent_in_view: "i \<in> set (recent st limit) \<Longrightarrow> shown_in_view st i"
  by (auto simp: recent_def shown_in_view_def list_ex_iff dest!: in_set_takeD)

lemma intent_filters_live: "sf_include_deleted (fst (search_filters_for no_filters intent)) = False"
  by (auto simp: search_filters_for_def narrow_def Let_def no_filters_def split: option.split)

lemma sort_key_empty: "sort_key f xs = [] \<longleftrightarrow> xs = []"
  by (metis length_0_conv length_sort)

lemma hits_in_view:
  assumes "search_memories s (cx_tables st) now query k None ef exact mode rrf_k rerank = Inr r"
    and "\<And>v ef rows. set (vs_index_scan (se_vectors s) v ef rows) \<subseteq> set rows"
    and "mode = HYBRID \<Longrightarrow> graph_is_off (se_weights s)" and "h \<in> set (sr_hits r)"
  shows "shown_in_view st (mh_memory_id h)"
proof -
  obtain intent where shown: "list_all (\<lambda>h. list_all (\<lambda>c. sk_memory_id c = mh_memory_id h \<and>
      shown_from (sx_library (cx_tables st)) (sx_tags (cx_tables st)) (fst (search_filters_for no_filters intent)) c)
      (mh_matched_chunks h)) (sr_hits r)"
    using search_shows [OF assms(1-3)] by auto
  obtain stamped where "set (sr_hits r) = set (to_hits (sx_library (cx_tables st)) stamped k)"
    using assms(1) by (rule search_memories_Inr) metis
  then have "h \<in> set (found_hits (metadata_of (sx_library (cx_tables st))) (grouped stamped))"
    using assms(4) by (auto simp: to_hits_def dest: in_set_takeD)
  then have "mh_matched_chunks h \<noteq> []" 
    by (auto simp: in_found_hits hit_of_def filter_empty_conv sort_key_empty)
  then obtain c where "c \<in> set (mh_matched_chunks h)" by (meson list.set_sel(1))
  then have c: "sk_memory_id c = mh_memory_id h"
      "shown_from (sx_library (cx_tables st)) (sx_tags (cx_tables st)) (fst (search_filters_for no_filters intent)) c"
    using shown assms(4) by (auto simp: list_all_iff)
  then obtain p where p: "bare_chunk c = chunk_with_score 0 p"
      "eligible (sx_library (cx_tables st)) (sx_tags (cx_tables st)) (fst (search_filters_for no_filters intent)) p"
    by (auto simp: shown_from_def list_ex_iff)
  have "sk_memory_id (bare_chunk c) = ps_memory p" unfolding p(1) by (simp add: chunk_with_score_def)
  then have "ps_memory p = mh_memory_id h" using c(1) by (simp add: bare_chunk_def)
  moreover obtain m where "memory_get (ps_memory p) (sx_library (cx_tables st)) = Some m" "in_view m"
  proof (cases "memory_get (ps_memory p) (sx_library (cx_tables st))")
    case None
    then show ?thesis using p(2) by (simp add: eligible_def)
  next
    case (Some m)
    then have "memory_predicates (sx_library (cx_tables st)) (sx_tags (cx_tables st)) (fst (search_filters_for no_filters intent)) m"
      using p(2) by (simp add: eligible_def)
    then have "in_view m" unfolding memory_predicates_def intent_filters_live in_view_def by blast
    with Some that show ?thesis by blast
  qed
  ultimately show ?thesis
    by (auto simp: shown_in_view_def list_ex_iff memory_get_def cx_rows_def dest: find_SomeD)
qed

lemma render_memory_ids:
  assumes "map_of (render st memory_ids decision_ids excerpts) key = Some r" and "rd_memory_id r = Some i"
  shows "i \<in> set memory_ids"
proof -
  have "(key, r) \<in> set (concat (map (\<lambda>m. case source_name_of st m of
                           None \<Rightarrow> []
                         | Some source \<Rightarrow> [(memory_key (m_id m), render_memory st excerpts m source)])
          (filter (\<lambda>m. m_id m \<in> set memory_ids) (cx_rows st))) @
        map (\<lambda>d. (decision_key (dn_id d), render_decision d))
          (filter (\<lambda>d. dn_id d \<in> set decision_ids) (cx_decisions st)))"
    using map_of_SomeD [OF assms(1) [unfolded render_def map_of_dict_of]] by (simp only: set_rev)
  then show ?thesis using assms(2) by (auto simp: render_memory_def render_decision_def split: option.splits)
qed


end
