(* ===== verification/Context_Cache.thy ===== *)
theory Context_Cache
  imports Context_Guarantees
begin

text \<open>
  Properties of the cache of contexts: a context read back is the one that was built, and the cache answers a
  request with nothing but a context built for that request.
\<close>

section \<open>The payload\<close>

lemma digits_value_snoc: "digits_value (s @ [c]) = digits_value s * 10 + (int (of_char c) - 48)"
  by (simp add: digits_value_def)

lemma digits_value_show_nat [simp]: "digits_value (show_nat n) = int n"
proof (induction n rule: show_nat.induct)
  case (1 n)
  have digit: "int (of_char (digit_char d)) - 48 = int d" if "d < 10" for d
    using that by (simp add: digit_char_def)
  show ?case
  proof (cases "n < 10")
    case True
    then show ?thesis by (subst show_nat.simps) (simp add: digits_value_def digit)
  next
    case False
    then have "digits_value (show_nat n) = int (n div 10) * 10 + int (n mod 10)"
      using 1 by (subst show_nat.simps) (simp add: digits_value_snoc digit)
    also have "\<dots> = int n" by (metis div_mult_mod_eq of_nat_add of_nat_mult of_nat_numeral)
    finally show ?thesis .
  qed
qed

lemma id_of_show_nat [simp]: "id_of (show_nat n) = Inr n"
  using is_digit_show_nat [of n] by (auto simp: id_of_def list_all_iff)

lemma optional_id_of [simp]: "optional id_of (map_option show_nat x) = Inr x"
  by (cases x) simp_all

lemma category_of_value [simp]: "enum_of context_category_value CONTEXT_CATEGORIES (context_category_value c) = Inr c"
  by (cases c) (simp_all add: enum_of_def CONTEXT_CATEGORIES_def)

lemma source_of_value [simp]: "source_of (context_source_value s, n) = Inr (s, n)"
  by (cases s) (simp_all add: source_of_def enum_of_def CONTEXT_SOURCES_def)

lemma sources_read_back:
  assumes "mset ys = mset (map (\<lambda>(s, n). (context_source_value s, n)) xs)" and "distinct (map fst xs)"
  shows "\<exists>zs. all_ok source_of ys = Inr zs \<and> map_of (dict_of zs) = map_of xs"
proof -
  let ?enc = "\<lambda>(s, n). (context_source_value s, n :: int)"
  let ?dec = "\<lambda>y. (case source_of y of Inr z \<Rightarrow> z | Inl _ \<Rightarrow> undefined)"
  let ?zs = "map ?dec ys"
  have "set ys = ?enc ` set xs" using mset_eq_setD [OF assms(1)] by simp
  then have "list_all2 (\<lambda>y z. source_of y = Inr z) ys ?zs"
    by (auto simp: list.rel_map list_all2_same)
  then have ok: "all_ok source_of ys = Inr ?zs" by (simp add: all_ok_iff)
  have "mset ?zs = mset (map ?dec (map ?enc xs))" using assms(1) by (metis mset_map)
  also have "map ?dec (map ?enc xs) = xs" by (simp add: o_def case_prod_unfold)
  finally have perm: "mset ?zs = mset xs" .
  then have apart: "distinct (map fst ?zs)" using assms(2) by (metis mset_eq_imp_distinct_iff mset_map)
  have "map_of (rev ?zs) = map_of xs"
    using apart assms(2) mset_eq_setD [OF perm] by (intro map_of_inject_set [THEN iffD2]) (simp_all add: rev_map [symmetric])
  with ok show ?thesis by (simp add: map_of_dict_of)
qed

text \<open>Two items are the same but for the order in which they name their sources.\<close>

definition same_context_item :: "context_item \<Rightarrow> context_item \<Rightarrow> bool" where
  "same_context_item i j \<longleftrightarrow> j\<lparr> xi_sources := xi_sources i \<rparr> = i \<and> map_of (xi_sources j) = map_of (xi_sources i)"

lemma item_read_back:
  assumes "\<And>kvs. mset (order kvs) = mset kvs" and "distinct (map fst (xi_sources i))"
  shows "\<exists>j. item_from_dict ((item_as_dict i)\<lparr> si_sources := order (si_sources (item_as_dict i)) \<rparr>) = Inr j \<and> same_context_item i j"
proof -
  obtain zs where "all_ok source_of (order (si_sources (item_as_dict i))) = Inr zs" "map_of (dict_of zs) = map_of (xi_sources i)"
    using sources_read_back [OF _ assms(2), of "order (si_sources (item_as_dict i))"] assms(1) by (auto simp: item_as_dict_def)
  then show ?thesis by (simp add: item_from_dict_def same_context_item_def item_as_dict_def)
qed

lemma context_read_back:
  assumes "\<And>kvs. mset (order kvs) = mset kvs" and "\<And>i. i \<in> set (ac_items c) \<Longrightarrow> distinct (map fst (xi_sources i))"
  shows "\<exists>c'. context_from_payload (through_jsonb order (context_as_dict c)) = Inr c' \<and> ac_cached c' \<and>
           ac_focus c' = ac_focus c \<and> ac_token_budget c' = ac_token_budget c \<and> ac_tokens_used c' = ac_tokens_used c \<and>
           list_all2 same_context_item (ac_items c) (ac_items c')"
proof -
  have "\<exists>items. all_ok item_from_dict (map (\<lambda>i. i\<lparr> si_sources := order (si_sources i) \<rparr>) (map item_as_dict xs)) = Inr items \<and>
          list_all2 same_context_item xs items" if "set xs \<subseteq> set (ac_items c)" for xs
    using that
  proof (induction xs)
    case (Cons x xs)
    then obtain items where items: "all_ok item_from_dict (map (\<lambda>i. i\<lparr> si_sources := order (si_sources i) \<rparr>) (map item_as_dict xs)) = Inr items"
        "list_all2 same_context_item xs items" by auto
    obtain j where j: "item_from_dict ((item_as_dict x)\<lparr> si_sources := order (si_sources (item_as_dict x)) \<rparr>) = Inr j" "same_context_item x j"
      using item_read_back [of order x] assms Cons.prems by auto
    show ?case by (rule exI [of _ "j # items"]) (use items j in simp)
  qed simp
  from this [OF subset_refl] show ?thesis
    by (auto simp: context_from_payload_def through_jsonb_def context_as_dict_def)
qed


lemma assembled_sources_distinct:
  assumes "assemble as st now request = Inr c" and "i \<in> set (ac_items c)"
  shows "distinct (map fst (xi_sources i))"
proof -
  obtain r where from_pr: "assemble_from as st request (gather as st (cr_focus request) r) = Inr c"
    using assms(1) by (auto simp: assemble_def bind_result_Inr_iff)
  have "xi_sources i = sources_of (pr_rankings (gather as st (cr_focus request) r)) (xi_key i)"
    using items_fit [OF from_pr assms(2)] by (auto simp: item_fits_def)
  then show ?thesis by (simp only:) (rule distinct_sources, simp add: gather_def Let_def)
qed

lemma assembled_read_back:
  assumes "assemble as st now request = Inr c" and "\<And>kvs. mset (as_jsonb as kvs) = mset kvs"
  shows "\<exists>c'. context_from_payload (through_jsonb (as_jsonb as) (context_as_dict c)) = Inr c' \<and> ac_cached c' \<and>
           ac_focus c' = ac_focus c \<and> ac_token_budget c' = ac_token_budget c \<and> ac_tokens_used c' = ac_tokens_used c \<and>
           list_all2 same_context_item (ac_items c) (ac_items c')"
  by (rule context_read_back [OF assms(2)]) (rule assembled_sources_distinct [OF assms(1)])

lemma assembled_fields:
  assumes "assemble as st now request = Inr c"
  shows "ac_focus c = cr_focus request" and "ac_token_budget c = cr_token_budget request" and "\<not> ac_cached c"
  using assms by (auto simp: assemble_def bind_result_Inr_iff elim: assemble_from_Inr)

section \<open>Reading and writing\<close>

lemma assemble_and_store_Inr:
  assumes "assemble_and_store as now built request key use_cache st = (Inr c, st')"
  shows "assemble as st now request = Inr c \<and>
         (if use_cache then write_cache as key request c built st = (Inr (), st') else st' = st)"
  using assms by (auto simp: assemble_and_store_def split: sum.splits if_splits prod.splits)

lemma assemble_context_Inr:
  assumes "assemble_context as now built request use_cache st = (Inr c, st')"
  shows "(ac_cached c \<and> use_cache \<and>
           read_cached (context_key_for as request (corpus_fingerprint (as_sha256 as) st)) now st = (Inr (Some c), st')) \<or>
         (\<not> ac_cached c \<and> assemble as st now request = Inr c \<and>
          (if use_cache
           then write_cache as (context_key_for as request (corpus_fingerprint (as_sha256 as) st)) request c built st = (Inr (), st')
           else st' = st))"
proof -
  let ?key = "context_key_for as request (corpus_fingerprint (as_sha256 as) st)"
  show ?thesis
  proof (cases "use_cache \<and> fst (read_cached ?key now st) \<noteq> Inr None")
    case True
    then have "read_cached ?key now st = (Inr (Some c), st')"
      using assms by (auto simp: assemble_context_def Let_def split: sum.splits option.splits prod.splits)
    moreover from this have "ac_cached c"
      by (auto simp: read_cached_def context_from_payload_def bind_result_Inr_iff split: option.splits)
    ultimately show ?thesis using True by blast
  next
    case False
    have "st'' = st" if "read_cached ?key now st = (Inr None, st'')" for st''
      using that by (auto simp: read_cached_def bind_result_Inr_iff split: option.splits)
    then have "assemble_and_store as now built request ?key use_cache st = (Inr c, st')"
      using False assms by (auto simp: assemble_context_def Let_def split: sum.splits option.splits prod.splits if_splits)
    from assemble_and_store_Inr [OF this] show ?thesis using assembled_fields(3) by blast
  qed
qed

lemma written_rows:
  assumes "write_cache as key request c built st = (Inr u, st')"
  shows "(\<exists>r \<in> set (cx_cache st'). ca_key r = key) \<and>
         (\<forall>r \<in> set (cx_cache st'). ca_key r = key \<longrightarrow>
            ca_payload r = through_jsonb (as_jsonb as) (context_as_dict c) \<and> ca_expires_at r = built + as_ttl as) \<and>
         (\<forall>r \<in> set (cx_cache st'). ca_key r \<noteq> key \<longrightarrow> r \<in> set (cx_cache st))"
proof (cases "list_ex (\<lambda>r. ca_key r = key) (cx_cache st)")
  case True
  let ?payload = "through_jsonb (as_jsonb as) (context_as_dict c)"
  define g where "g = (\<lambda>r :: cache_row. r\<lparr> ca_payload := ?payload, ca_token_count := ac_tokens_used c, ca_built_at := built,
                               ca_expires_at := built + as_ttl as \<rparr>)"
  have g [simp]: "ca_key (g r) = ca_key r" "ca_payload (g r) = ?payload" "ca_expires_at (g r) = built + as_ttl as" for r
    by (simp_all add: g_def)
  have rows: "cx_cache st' = update_where (\<lambda>r. ca_key r = key) g (cx_cache st)"
    using True assms by (auto simp: write_cache_def Let_def g_def split: if_splits)
  obtain r0 where "r0 \<in> set (cx_cache st)" "ca_key r0 = key" using True by (auto simp: list_ex_iff)
  then have "g r0 \<in> set (cx_cache st')" "ca_key (g r0) = key" unfolding rows set_update_where by auto
  then have "\<exists>r \<in> set (cx_cache st'). ca_key r = key" by blast
  moreover have "(ca_key r = key \<longrightarrow> ca_payload r = ?payload \<and> ca_expires_at r = built + as_ttl as) \<and>
      (ca_key r \<noteq> key \<longrightarrow> r \<in> set (cx_cache st))" if "r \<in> set (cx_cache st')" for r
    using that unfolding rows set_update_where by auto
  ultimately show ?thesis by blast
next
  case False
  then have other: "ca_key r \<noteq> key" if "r \<in> set (cx_cache st)" for r using that by (auto simp: list_ex_iff)
  obtain row where "cx_cache st' = cx_cache st @ [row]" and "ca_key row = key"
    and "ca_payload row = through_jsonb (as_jsonb as) (context_as_dict c)" and "ca_expires_at row = built + as_ttl as"
    using assms False by (auto simp: write_cache_def Let_def intro!: that split: if_splits)
  then show ?thesis using other by auto
qed

lemma read_Some:
  assumes "read_cached key now st = (Inr (Some c), st')"
  obtains r where "r \<in> set (cx_cache st)" and "ca_key r = key" and "now < ca_expires_at r"
    and "context_from_payload (ca_payload r) = Inr c"
  using assms by (auto simp: read_cached_def bind_result_Inr_iff split: option.splits dest!: find_SomeD)


section \<open>The key is the request\<close>

lemma nul_split:
  assumes "xs @ CHR 0x00 # s = ys @ CHR 0x00 # t" and "CHR 0x00 \<notin> set s" and "CHR 0x00 \<notin> set t"
  shows "xs = ys" and "s = t"
  using last_mark [OF assms(1), of "\<lambda>c. c = CHR 0x00"] assms(2,3) by auto

lemma nul_show_int: "CHR 0x00 \<notin> set (Citation.show_int n)"
proof -
  have "CHR 0x00 \<notin> set (show_nat k)" for k using is_digit_show_nat [of k] by (force simp: is_digit_def)
  then show ?thesis by (simp add: Citation.show_int_def)
qed

definition key_head :: "string \<Rightarrow> string" where
  "key_head focus = ''v'' @ show_nat CONTEXT_SCHEMA_VERSION @ [CHR 0x00] @ focus"

lemma key_text_fields:
  "key_text sf q fp =
     ((((key_head (cr_focus q) @ CHR 0x00 # Citation.show_int (cr_token_budget q)) @ CHR 0x00 # Citation.show_int (cr_max_items q)) @
       CHR 0x00 # sf (cr_lambda q)) @ CHR 0x00 # sf (cr_category_share q)) @ CHR 0x00 # fp"
  by (simp add: key_text_def key_head_def)

definition floats_in :: "pyfloat set \<Rightarrow> context_request \<Rightarrow> bool" where
  "floats_in F request \<longleftrightarrow> cr_lambda request \<in> F \<and> cr_category_share request \<in> F"

lemma key_text_inj:
  assumes "key_text sf q fp = key_text sf q' fp'" and "inj_on sf F" and "floats_in F q" and "floats_in F q'" and "\<And>x. CHR 0x00 \<notin> set (sf x)"
    and "CHR 0x00 \<notin> set fp" and "CHR 0x00 \<notin> set fp'"
  shows "q = q'"
proof -
  note e1 = nul_split [OF assms(1) [unfolded key_text_fields] assms(6,7)]
  note e2 = nul_split [OF e1(1) assms(5) assms(5)]
  note e3 = nul_split [OF e2(1) assms(5) assms(5)]
  have floats: "cr_lambda q = cr_lambda q'" "cr_category_share q = cr_category_share q'"
    using inj_onD [OF assms(2) e3(2)] inj_onD [OF assms(2) e2(2)] assms(3,4) by (simp_all add: floats_in_def)
  have "key_head (cr_focus q) @ CHR 0x00 # Citation.show_int (cr_token_budget q) = key_head (cr_focus q') @ CHR 0x00 # Citation.show_int (cr_token_budget q')
      \<and> cr_max_items q = cr_max_items q'"
    by (rule show_int_after_mark [OF e3(1)]) (simp_all add: is_digit_def)
  moreover from this [THEN conjunct1] have "key_head (cr_focus q) = key_head (cr_focus q') \<and> cr_token_budget q = cr_token_budget q'"
    by (rule show_int_after_mark) (simp_all add: is_digit_def)
  ultimately show ?thesis
    using floats by (simp add: key_head_def)
qed


section \<open>The cache answers its own question\<close>

text \<open>What may happen to the tables: any other writer, which leaves the cache alone, a call of the use case, and
  the read of the route that serves a cached context. \<open>F\<close> is the set of the floats that requests carry: unlike
  the reals, those a machine has can be told apart by how they are written.\<close>

inductive context_step :: "assembler \<Rightarrow> pyfloat set \<Rightarrow> context_state \<Rightarrow> context_state \<Rightarrow> bool" for as F where
  other_step: "cx_cache st' = cx_cache st \<Longrightarrow> context_step as F st st'"
| call_step: "floats_in F request \<Longrightarrow> context_step as F st (snd (assemble_context as now built request use_cache st))"
| read_step: "context_step as F st (snd (read_cached key now st))"

definition reachable_context :: "assembler \<Rightarrow> pyfloat set \<Rightarrow> context_state \<Rightarrow> bool" where
  "reachable_context as F st \<longleftrightarrow> (\<exists>st0. cx_cache st0 = [] \<and> (context_step as F)\<^sup>*\<^sup>* st0 st)"

text \<open>A row holds a context built for the request its key was made from.\<close>

definition cache_row_justified :: "assembler \<Rightarrow> pyfloat set \<Rightarrow> cache_row \<Rightarrow> bool" where
  "cache_row_justified as F r \<longleftrightarrow>
     (\<exists>st0 st1 now request c. floats_in F request \<and> ca_key r = context_key_for as request (corpus_fingerprint (as_sha256 as) st0) \<and>
        assemble as st1 now request = Inr c \<and> ca_payload r = through_jsonb (as_jsonb as) (context_as_dict c))"

definition cache_justified :: "assembler \<Rightarrow> pyfloat set \<Rightarrow> context_state \<Rightarrow> bool" where
  "cache_justified as F st \<longleftrightarrow> (\<forall>r \<in> set (cx_cache st). cache_row_justified as F r)"

lemma row_justified_hit [simp]: "cache_row_justified as F (r\<lparr> ca_hit_count := n \<rparr>) = cache_row_justified as F r"
  by (simp add: cache_row_justified_def)

lemma read_justified: "cache_justified as F st \<Longrightarrow> cache_justified as F (snd (read_cached key now st))"
  by (auto simp: cache_justified_def read_cached_def elim!: in_update_whereE split: option.split)

lemma write_justified:
  assumes "cache_justified as F st" and "write_cache as key request c built st = (Inr u, st')"
    and "key = context_key_for as request (corpus_fingerprint (as_sha256 as) st0)" and "assemble as st1 now request = Inr c"
    and "floats_in F request"
  shows "cache_justified as F st'"
  unfolding cache_justified_def
proof
  fix r assume r: "r \<in> set (cx_cache st')"
  show "cache_row_justified as F r"
  proof (cases "ca_key r = key")
    case True
    then have "ca_payload r = through_jsonb (as_jsonb as) (context_as_dict c)" using written_rows [OF assms(2)] r by blast
    then show ?thesis using True assms(3,4,5) unfolding cache_row_justified_def by blast
  next
    case False
    then have "r \<in> set (cx_cache st)" using written_rows [OF assms(2)] r by blast
    then show ?thesis using assms(1) by (simp add: cache_justified_def)
  qed
qed

lemma call_justified:
  assumes "cache_justified as F st" and "floats_in F request"
  shows "cache_justified as F (snd (assemble_context as now built request use_cache st))"
proof -
  let ?key = "context_key_for as request (corpus_fingerprint (as_sha256 as) st)"
  have store: "cache_justified as F (snd (assemble_and_store as now built request ?key use_cache st'))" if "cache_justified as F st'" for st'
  proof -
    have "snd (write_cache as ?key request c built st') = st'" if "write_cache as ?key request c built st' = (Inl e, s)" for c e s
      using that by (auto simp: write_cache_def Let_def split: if_splits)
    then show ?thesis
      using that write_justified [OF that _ _ _ assms(2), of ?key _ built _ _ st st' now]
      by (auto simp: assemble_and_store_def split: sum.split prod.split)
  qed
  show ?thesis
    using assms(1) store [OF assms(1)] store [OF read_justified [OF assms(1), of ?key now]] read_justified [OF assms(1), of ?key now]
    by (auto simp: assemble_context_def Let_def split: sum.split option.split prod.split)
qed

lemma reachable_justified:
  assumes "reachable_context as F st"
  shows "cache_justified as F st"
proof -
  obtain st0 where "cx_cache st0 = []" "(context_step as F)\<^sup>*\<^sup>* st0 st" using assms by (auto simp: reachable_context_def)
  from this(2,1) show ?thesis
  proof (induction rule: rtranclp_induct)
    case (step st st')
    note ok = step.IH [OF step.prems]
    from step.hyps(2) show ?case
    proof cases
      case other_step
      then show ?thesis using ok by (simp add: cache_justified_def)
    next
      case call_step
      then show ?thesis using call_justified [OF ok] by simp
    next
      case read_step
      then show ?thesis using read_justified [OF ok] by simp
    qed
  qed (simp add: cache_justified_def)
qed

lemma fits_same_items:
  assumes "list_all2 same_context_item xs ys"
  shows "fits_request request ys = fits_request request xs" and "sum_list (map xi_tokens ys) = sum_list (map xi_tokens xs)"
proof -
  have field: "map f ys = map f xs" if "\<And>i s. f (i\<lparr> xi_sources := s \<rparr>) = f i" for f :: "context_item \<Rightarrow> 'b"
  proof (rule list_all2_map [symmetric], rule list_all2_mono [OF assms])
    fix i j assume "same_context_item i j"
    then have "j\<lparr> xi_sources := xi_sources i \<rparr> = i" by (simp add: same_context_item_def)
    then show "f i = f j" using that by metis
  qed
  have count: "length (filter (\<lambda>i. xi_category i = cat) ys) = length (filter (\<lambda>i. xi_category i = cat) xs)" for cat
    using arg_cong [OF field [of xi_category], of "\<lambda>cs. length (filter (\<lambda>c. c = cat) cs)"] by (simp add: filter_map o_def)
  have positive: "list_all (\<lambda>i. 0 < xi_tokens i) zs = list_all ((<) 0) (map xi_tokens zs)" for zs
    by (simp add: list.pred_map o_def)
  show "sum_list (map xi_tokens ys) = sum_list (map xi_tokens xs)" using field [of xi_tokens] by simp
  show "fits_request request ys = fits_request request xs"
    using field [of xi_tokens] field [of xi_key] field [of xi_position] assms
    by (simp add: fits_request_def count positive list_all2_lengthD)
qed

lemma assembled_fits:
  assumes "assemble as st now request = Inr c"
  shows "fits_request request (ac_items c)" and "ac_tokens_used c = sum_list (map xi_tokens (ac_items c))"
  using context_fits [OF assms] by simp_all

text \<open>C22 The cache answers its own question: whatever has been written and read before, what a call returns, fresh or
  cached, was built for the focus, the budget and the limits it is asked with, and fits them. A digest without
  collisions that has no NUL, and a rendering of floats without either, are what this rests on.\<close>

theorem a_call_answers_its_own_request:
  assumes "reachable_context as F st" and "assemble_context as now built request use_cache st = (Inr c, st')"
    and "inj (as_sha256 as)" and "\<And>s. CHR 0x00 \<notin> set (as_sha256 as s)"
    and "floats_in F request" and "inj_on (as_show_float as) F" and "\<And>x. CHR 0x00 \<notin> set (as_show_float as x)"
    and "\<And>kvs. mset (as_jsonb as kvs) = mset kvs"
  shows "ac_focus c = cr_focus request \<and> ac_token_budget c = cr_token_budget request \<and>
         fits_request request (ac_items c) \<and> ac_tokens_used c = sum_list (map xi_tokens (ac_items c))"
proof (cases "ac_cached c")
  case False
  then have fresh: "assemble as st now request = Inr c" using assemble_context_Inr [OF assms(2)] by blast
  show ?thesis using assembled_fields [OF fresh] assembled_fits [OF fresh] by simp
next
  case True
  let ?fp = "corpus_fingerprint (as_sha256 as)"
  have "read_cached (context_key_for as request (?fp st)) now st = (Inr (Some c), st')"
    using True assemble_context_Inr [OF assms(2)] by blast
  then obtain r where r: "r \<in> set (cx_cache st)" "ca_key r = context_key_for as request (?fp st)"
    "context_from_payload (ca_payload r) = Inr c" by (rule read_Some)
  have "cache_row_justified as F r" using reachable_justified [OF assms(1)] r(1) by (simp add: cache_justified_def)
  then obtain st0 st1 now1 request1 c1 where key: "ca_key r = context_key_for as request1 (?fp st0)"
    and c1: "assemble as st1 now1 request1 = Inr c1" "ca_payload r = through_jsonb (as_jsonb as) (context_as_dict c1)"
    "floats_in F request1"
    unfolding cache_row_justified_def by blast
  have nul: "CHR 0x00 \<notin> set (?fp s)" for s using assms(4) by (auto simp: corpus_fingerprint_def dest: in_set_takeD)
  have "key_text (as_show_float as) request1 (?fp st0) = key_text (as_show_float as) request (?fp st)"
    using key r(2) assms(3) by (simp add: context_key_for_def inj_eq)
  from key_text_inj [OF this assms(6) c1(3) assms(5,7) nul nul] have same: "request1 = request" .
  obtain c' where "context_from_payload (ca_payload r) = Inr c'" "ac_focus c' = ac_focus c1"
    "ac_token_budget c' = ac_token_budget c1" "ac_tokens_used c' = ac_tokens_used c1" "list_all2 same_context_item (ac_items c1) (ac_items c')"
    using assembled_read_back [OF c1(1) assms(8)] unfolding c1(2) by blast
  with r(3) show ?thesis
    using assembled_fields [OF c1(1)] assembled_fits [OF c1(1)] fits_same_items unfolding same by auto
qed


section \<open>A desk\<close>

text \<open>No text matches the focus, a file name: the memory is found by its name and by its date.
  Two memories of one source, those of \<open>hidden\<close> removed, and a decision that cites the first. The digest of the
  sample writes every character as two, none of them NUL.\<close>

definition desk_memory :: "nat list \<Rightarrow> nat \<Rightarrow> memory" where
  "desk_memory hidden i =
     (shelf_memory i)\<lparr> m_source := 1, m_key := (if i = 1 then ''a_b.py'' else ''axb.py''),
                      m_ingested_at := Some 0,
                      m_deleted_at := (if i \<in> set hidden then Some 0 else None) \<rparr>"

definition desk_library :: "nat list \<Rightarrow> library" where
  "desk_library hidden =
     sample_shelf\<lparr> lb_corpus := (empty_corpus 1)\<lparr> c_sources := [shelf_source 1],
                                                 c_memories := map (desk_memory hidden) [1, 2] \<rparr>,
                    lb_texts := map (\<lambda>i. (i, \<lparr> tx_content = Some ''alpha'', tx_normalized_hash = None, tx_kind = NOTE,
                                              tx_title = None, tx_parsed = None \<rparr>)) [1, 2] \<rparr>"

definition desk :: "nat list \<Rightarrow> context_state" where
  "desk hidden =
     \<lparr> cx_tables = \<lparr> sx_library = desk_library hidden, sx_tags = [], sx_entities = \<lparr> et_mentions = [], et_entities = [] \<rparr> \<rparr>,
       cx_decisions = [\<lparr> dn_id = 1, dn_question = ''which'', dn_chosen = ''this'', dn_reasoning = None,
                        dn_confidence = Some (1 / 2), dn_confidence_horizon = FORESIGHT, dn_updated_at = 0 \<rparr>],
       cx_evidence = [\<lparr> de_decision = 1, de_source_name = ''notes'', de_external_key = ''a_b.py'' \<rparr>],
       cx_cache = [] \<rparr>"

definition desk_char :: "char \<Rightarrow> string" where
  "desk_char c = (if c = CHR 0x00 then ''ab'' else ''b'' @ [c])"

definition desk_digest :: "string \<Rightarrow> string" where
  "desk_digest s = concat (map desk_char s)"

definition desk_assembler :: assembler where
  "desk_assembler =
     \<lparr> as_search = sample_searcher\<lparr> se_embed := map (\<lambda>_. []), se_matches := \<lambda>_ _. False, se_weights := default_weights\<lparr> fw_graph := 0 \<rparr>,
                                   se_expand := None \<rparr>,
       as_count = length, as_embed = map (\<lambda>_. []), as_expand = None, as_per_source = CANDIDATES_PER_SOURCE,
       as_ttl = DEFAULT_TTL, as_sha256 = desk_digest, as_show_float = \<lambda>_. ''0.5'', as_jsonb = rev \<rparr>"

definition desk_request :: context_request where
  "desk_request = context_request_for ''a_b.py''"

lemma desk_digest_simps [simp]: "desk_digest [] = []" "desk_digest (c # s) = desk_char c @ desk_digest s"
  by (simp_all add: desk_digest_def)

lemma inj_desk_digest: "inj desk_digest"
proof (rule injI)
  fix s t show "desk_digest s = desk_digest t \<Longrightarrow> s = t"
  proof (induction s arbitrary: t)
    case Nil
    then show ?case by (cases t) (auto simp: desk_char_def split: if_splits)
  next
    case (Cons c s)
    then show ?case by (cases t) (auto simp: desk_char_def split: if_splits)
  qed
qed

lemma nul_desk_digest: "CHR 0x00 \<notin> set (desk_digest s)"
  by (induction s) (auto simp: desk_char_def)

lemma desk_search:
  "search_memories (as_search desk_assembler) (cx_tables (desk hidden)) 0 ''a_b.py'' 30 None None False HYBRID DEFAULT_RRF_K True =
     Inr \<lparr> sr_query = ''a_b.py'', sr_hits = [], sr_mode = HYBRID, sr_temporal_intent = None, sr_temporal_filter_applied = False \<rparr>"
proof -
  let ?s = "as_search desk_assembler" and ?sx = "cx_tables (desk hidden)"
  have s: "se_embed ?s = map (\<lambda>_. [])" "se_matches ?s = (\<lambda>_ _. False)" "se_temporal_intent ?s = False" "se_rerank ?s = None"
      "graph_is_off (se_weights ?s)"
      "vs_index_scan (se_vectors ?s) = (\<lambda>v ef rows. rows)"
    by (simp_all add: desk_assembler_def sample_searcher_def graph_is_off_def)
  have "list_all (\<lambda>p. ps_embedding p = None) (lb_passages (sx_library ?sx))"
    by (simp add: desk_def desk_library_def sample_shelf_def shelf_passage_def)
  then have "vector_chunks ?s ?sx v k f ef False = []" for v k f ef
    by (auto simp: vector_chunks_def vector_search_def vector_query_def s list_all_iff filter_empty_conv Let_def)
  moreover have "keyword_candidates ?s ?sx query k f = []" for query k f
    by (simp add: keyword_candidates_def keyword_search_def s)
  moreover have "fuse [] [] no_signals w DEFAULT_RRF_K None = Inr []" for w
    by (simp add: fuse_def Let_def no_signals_def set_defaults_def ranked_def dict_of_def reciprocal_rank_fusion_def DEFAULT_RRF_K_def)
  moreover have "signals_for l 0 [[], []] = Inr no_signals" for l
    by (simp add: signals_for_def dict_of_def)
  ultimately show ?thesis
    by (simp add: search_memories_def s search_filters_for_def retrieve_def hybrid_def embed_query_def expand_def Let_def
        search_weights_def maybe_rerank_def to_hits_def grouped_def)
qed

definition desk_proposals :: proposals where
  "desk_proposals =
     \<lparr> pr_rankings = [(RETRIEVAL_SOURCE, []), (TEMPORAL_SOURCE, [''memory:1'']), (RECENCY_SOURCE, [''memory:1'']),
                      (DECISIONS_SOURCE, [''decision:1''])],
       pr_reports = [(RETRIEVAL_SOURCE, 0), (GRAPH_SOURCE, 0), (TEMPORAL_SOURCE, 1), (RECENCY_SOURCE, 1), (DECISIONS_SOURCE, 1)],
       pr_memory_ids = [1], pr_decision_ids = [1], pr_excerpts = [] \<rparr>"

lemma desk_gather:
  assumes "sr_hits r = []"
  shows "gather desk_assembler (desk [2]) ''a_b.py'' r = desk_proposals"
proof -
  have "as_expand desk_assembler = None" "as_per_source desk_assembler = 30"
    by (simp_all add: desk_assembler_def CANDIDATES_PER_SOURCE_def)
  moreover have "by_name (desk [2]) ''a_b.py'' 30 = [1]" "recent (desk [2]) 30 = [1]" by code_simp+
  moreover have "show_nat 1 = ''1''" by code_simp
  moreover have "citing_decisions (desk [2]) (ranked id [1]) 30 = [1]" by code_simp
  ultimately show ?thesis
    using assms by (simp add: gather_def Let_def graph_neighbours_def desk_proposals_def memory_key_def decision_key_def
        dict_of_def set_defaults_def)
qed

definition desk_candidates :: "candidate list" where
  "desk_candidates =
     [\<lparr> cd_key = ''memory:1'', cd_category = CAT_PROSE, cd_tokens = 5, cd_relevance = 2 / 61, cd_vector = Some [] \<rparr>,
      \<lparr> cd_key = ''decision:1'', cd_category = CAT_DECISION, cd_tokens = 52, cd_relevance = 1 / 61, cd_vector = Some [] \<rparr>]"

lemma desk_selection:
  "select_items desk_candidates 4000 12 (1 / 2) (1 / 2) =
     Inr \<lparr> sel_chosen = [\<lparr> cs_key = ''memory:1'', cs_position = 1, cs_relevance = 2 / 61, cs_redundancy = 0, cs_score = 1 / 2, cs_tokens = 5 \<rparr>,
                         \<lparr> cs_key = ''decision:1'', cs_position = 2, cs_relevance = 1 / 61, cs_redundancy = 0, cs_score = 0, cs_tokens = 52 \<rparr>],
           sel_rejected = [], sel_tokens_used = 57 \<rparr>"
  by (simp add: select_items_def maximal_marginal_relevance_def desk_candidates_def mmr_loop_Cons Let_def mmr_score_def
      relevance_normaliser_def redundancy_of_def cosine_def select_step_def category_cap_def int_of_float_def by_key_def dict_get_def)


definition desk_context :: assembled_context where
  "desk_context =
     \<lparr> ac_focus = ''a_b.py'',
       ac_items =
         [\<lparr> xi_key = ''memory:1'', xi_title = ''notes::a_b.py'', xi_category = CAT_PROSE, xi_body = ''alpha'', xi_tokens = 5,
            xi_position = 1, xi_sources = [(TEMPORAL_SOURCE, 1), (RECENCY_SOURCE, 1)], xi_relevance = 2 / 61,
            xi_redundancy = 0, xi_memory_id = Some 1, xi_decision_id = None, xi_external_key = Some ''a_b.py'' \<rparr>,
          \<lparr> xi_key = ''decision:1'', xi_title = ''decision: which'', xi_category = CAT_DECISION,
            xi_body = ''Chose: this'' @ NEWLINE @ ''Confidence at the time: 0.50 (foresight)'', xi_tokens = 52,
            xi_position = 2, xi_sources = [(DECISIONS_SOURCE, 1)], xi_relevance = 1 / 61,
            xi_redundancy = 0, xi_memory_id = None, xi_decision_id = Some 1, xi_external_key = None \<rparr>],
       ac_token_budget = 4000, ac_tokens_used = 57, ac_rejected = [],
       ac_sources = [(RETRIEVAL_SOURCE, 0), (GRAPH_SOURCE, 0), (TEMPORAL_SOURCE, 1), (RECENCY_SOURCE, 1), (DECISIONS_SOURCE, 1)],
       ac_candidates = 2, ac_cached = False \<rparr>"

definition desk_texts :: "(string \<times> rendered) list" where
  "desk_texts = render (desk [2]) [1] [1] []"

lemma desk_fusion:
  "reciprocal_rank_fusion (map snd (pr_rankings desk_proposals)) DEFAULT_RRF_K None = Inr [(''memory:1'', 2 / 61), (''decision:1'', 1 / 61)]"
  by code_simp

lemma desk_candidates_eq:
  "concat (map (candidate_of desk_assembler desk_texts [(''memory:1'', []), (''decision:1'', [])])
     [(''memory:1'', 2 / 61), (''decision:1'', 1 / 61)]) = desk_candidates"
proof -
  have "map_option (\<lambda>r. (rd_category r, length (rd_body r))) (map_of desk_texts ''memory:1'') = Some (CAT_PROSE, 5)"
    "map_option (\<lambda>r. (rd_category r, length (rd_body r))) (map_of desk_texts ''decision:1'') = Some (CAT_DECISION, 52)"
    by code_simp+
  then show ?thesis by (auto simp: candidate_of_def desk_candidates_def desk_assembler_def)
qed

lemma desk_assembly: "assemble desk_assembler (desk [2]) 0 desk_request = Inr desk_context"
proof -
  have request: "cr_focus desk_request = ''a_b.py''" "cr_token_budget desk_request = 4000" "cr_max_items desk_request = 12"
      "cr_lambda desk_request = 1 / 2" "cr_category_share desk_request = 1 / 2" "as_per_source desk_assembler = 30"
    by (simp_all add: desk_request_def context_request_for_def DEFAULT_TOKEN_BUDGET_def DEFAULT_MAX_ITEMS_def DEFAULT_LAMBDA_def
        DEFAULT_CATEGORY_SHARE_def desk_assembler_def CANDIDATES_PER_SOURCE_def)
  have stored: "stored_vectors (desk [2]) [1] = []" by code_simp
  have keys: "map fst desk_texts = [''memory:1'', ''decision:1'']" by code_simp
  have embedded: "embed_unvectored desk_assembler desk_texts [] = Inr [(''memory:1'', []), (''decision:1'', [])]"
  proof -
    from keys obtain a b where t: "desk_texts = [(''memory:1'', a), (''decision:1'', b)]" by (auto simp: map_eq_Cons_conv)
    show ?thesis unfolding t by (simp add: embed_unvectored_def desk_assembler_def Let_def)
  qed
  have texts: "render (desk [2]) (pr_memory_ids desk_proposals) (pr_decision_ids desk_proposals) (pr_excerpts desk_proposals) = desk_texts"
    by (simp add: desk_texts_def desk_proposals_def)
  note simps = selection.simps
  have items: "all_ok (item_of (pr_rankings desk_proposals) desk_texts)
      [\<lparr> cs_key = ''memory:1'', cs_position = 1, cs_relevance = 2 / 61, cs_redundancy = 0, cs_score = 1 / 2, cs_tokens = 5 \<rparr>,
       \<lparr> cs_key = ''decision:1'', cs_position = 2, cs_relevance = 1 / 61, cs_redundancy = 0, cs_score = 0, cs_tokens = 52 \<rparr>] =
      Inr (ac_items desk_context)"
    by code_simp
  have stored: "stored_vectors (desk [2]) (pr_memory_ids desk_proposals) = []"
    using stored by (simp add: desk_proposals_def)
  have vectors: "foldl (\<lambda>d (k, v). AList.update k v d) [] [(''memory:1'', [] :: pyfloat list), (''decision:1'', [])] =
      [(''memory:1'', []), (''decision:1'', [])]" by simp
  have two: "length desk_candidates = 2" by (simp add: desk_candidates_def)
  have "assemble_from desk_assembler (desk [2]) desk_request desk_proposals = Inr desk_context"
    unfolding assemble_from_def Let_def texts stored desk_fusion embedded bind_result_simps vectors desk_candidates_eq
      request desk_selection simps items two
    by (simp add: desk_context_def desk_proposals_def)
  then show ?thesis
    unfolding assemble_def request desk_search bind_result_simps by (simp add: desk_gather)
qed

section \<open>Examples\<close>

lemma a_context_fits_its_request_witness:
  "\<exists>c. assemble desk_assembler (desk [2]) 0 desk_request = Inr c \<and> fits_request desk_request (ac_items c) \<and>
       ac_tokens_used c = sum_list (map xi_tokens (ac_items c)) \<and> ac_tokens_used c = 57"
  using a_context_fits_its_request [OF desk_assembly] desk_assembly by (simp add: desk_context_def)

lemma desk_ids: "distinct (map m_id (cx_rows (desk hidden)))"
  by (simp add: cx_rows_def memory_rows_def desk_def desk_library_def desk_memory_def shelf_memory_def)

lemma every_item_names_its_sources_witness:
  "\<exists>c. assemble desk_assembler (desk [2]) 0 desk_request = Inr c \<and>
       list_all (\<lambda>i. xi_sources i \<noteq> [] \<and> distinct (map fst (xi_sources i)) \<and>
           xi_relevance i = sum_list (map (\<lambda>(source, rank). 1 / of_int (DEFAULT_RRF_K + rank)) (xi_sources i)))
         (ac_items c) \<and> map xi_key (ac_items c) = [''memory:1'', ''decision:1'']"
  using every_item_names_its_sources [OF desk_assembly desk_ids] desk_assembly by (simp add: desk_context_def)

lemma desk_scan: "set (vs_index_scan (se_vectors (as_search desk_assembler)) v ef rows) \<subseteq> set rows"
  by (simp add: desk_assembler_def sample_searcher_def)

lemma desk_graph: "graph_is_off (se_weights (as_search desk_assembler))" "as_expand desk_assembler = None"
  by (simp_all add: desk_assembler_def graph_is_off_def)


definition desk_after :: context_state where
  "desk_after = snd (assemble_context desk_assembler 0 1 desk_request True (desk [2]))"

lemma desk_call: "assemble_context desk_assembler 0 1 desk_request True (desk [2]) = (Inr desk_context, desk_after)"
proof -
  have "read_cached key 0 (desk [2]) = (Inr None, desk [2])" for key
    by (simp add: read_cached_def desk_def)
  moreover have "fst (write_cache desk_assembler key desk_request desk_context 1 (desk [2])) = Inr ()" for key
    by (simp add: write_cache_def Let_def cache_row_ok_def desk_request_def context_request_for_def desk_context_def
        desk_assembler_def DEFAULT_TTL_def hours_def seconds_def microseconds_per_second_def)
  ultimately have "fst (assemble_context desk_assembler 0 1 desk_request True (desk [2])) = Inr desk_context"
    using desk_assembly by (simp add: assemble_context_def assemble_and_store_def split: prod.split sum.split) (metis fst_conv old.sum.distinct(1))
  then show ?thesis unfolding desk_after_def by (metis prod.collapse)
qed

text \<open>The first memory is removed and the second restored: both tables have one memory in view and the same
  latest times, so their fingerprints are equal and the removed memory is answered from the cache.\<close>

definition hidden_desk :: context_state where
  "hidden_desk = (desk [1])\<lparr> cx_cache := cx_cache desk_after \<rparr>"

lemma hidden_fingerprint: "fingerprint_text hidden_desk = fingerprint_text (desk [2])"
proof -
  have "fingerprint_text hidden_desk = fingerprint_text (desk [1])"
    by (simp add: hidden_desk_def fingerprint_text_def cx_rows_def)
  also have "\<dots> = fingerprint_text (desk [2])" by code_simp
  finally show ?thesis .
qed

lemma same_memory_ids: "list_all2 same_context_item xs ys \<Longrightarrow> map xi_memory_id ys = map xi_memory_id xs"
proof (induction rule: list_all2_induct)
  case (Cons x xs y ys)
  from Cons(1) have "xi_memory_id (y\<lparr> xi_sources := xi_sources x \<rparr>) = xi_memory_id x" by (simp add: same_context_item_def)
  then show ?case using Cons(3) by simp
qed simp


lemma a_call_answers_its_own_request_witness:
  "\<exists>c. fst (assemble_context desk_assembler 0 1 desk_request True (desk [2])) = Inr c \<and> ac_focus c = ''a_b.py'' \<and>
       ac_token_budget c = 4000 \<and> fits_request desk_request (ac_items c) \<and> ac_items c \<noteq> []"
proof -
  have start: "reachable_context desk_assembler {1 / 2} (desk [2])"
    unfolding reachable_context_def by (rule exI [of _ "desk [2]"]) (simp add: desk_def)
  have request: "floats_in {1 / 2} desk_request"
    by (simp add: floats_in_def desk_request_def context_request_for_def DEFAULT_LAMBDA_def DEFAULT_CATEGORY_SHARE_def)
  have sha: "as_sha256 desk_assembler = desk_digest" and shown: "inj_on (as_show_float desk_assembler) {1 / 2}"
    "CHR 0x00 \<notin> set (as_show_float desk_assembler x)" and order: "mset (as_jsonb desk_assembler kvs) = mset kvs" for x kvs
    by (simp_all add: desk_assembler_def)
  have "inj (as_sha256 desk_assembler)" "CHR 0x00 \<notin> set (as_sha256 desk_assembler s)" for s
    unfolding sha by (rule inj_desk_digest) (rule nul_desk_digest)
  from a_call_answers_its_own_request [OF start desk_call this request shown order] show ?thesis
    using desk_call by (simp add: desk_context_def desk_request_def context_request_for_def DEFAULT_TOKEN_BUDGET_def)
qed

end
