(* ===== verification/Spec2Isabelle.thy ===== *)
theory Spec2Isabelle
  imports Queue_Guarantees Replay Citing_Guarantees Agent_Guarantees Explain_Guarantees Surfacing Selection
    Evidence Entity_Guarantees Context_Cache
begin

text \<open>
  Memory-OS keeps a personal corpus: connectors list the items of a source, a sync records each item in
  an append-only event log and in the table of memories that is a projection of it, workers take jobs off
  a durable queue to parse, chunk and embed what is new and to extract the entities it names, a resolver
  merges the entities that are one, and readers search, explain, surface and assemble contexts from what is stored. An
  item can be hidden, restored or purged, and the tables can be rebuilt from the log. This library models
  that core of the Python package \<^verbatim>\<open>src/memoryos\<close> as definitions of HOL, translated from the source one
  function at a time, and proves what makes it correct. File names below are relative to the package.

  Parts, and how they interact:

  \<^item> \<open>Prelude\<close>, \<open>Pystring\<close>: exceptions as the left of a sum (\<open>result\<close>), Python's slices, ordered
    dictionaries as association lists, table updates by a predicate, rounding, and the string methods the
    program uses. Characters are Latin-1. Floats are real numbers, so rounding errors are not modelled;
    times are integer microseconds.
  \<^item> \<open>Values\<close>: the enumerations and content hashes of \<^verbatim>\<open>domain/values.py\<close>.
  \<^item> \<open>Job_Queue\<close>: the jobs table with its checks and its partial unique index (\<^verbatim>\<open>adapters/db/models.py\<close>) and
    every operation of \<^verbatim>\<open>adapters/db/job_queue.py\<close> on it. A table is a list of records; an operation takes
    the table and returns it with its answer. Rows other sessions have locked are an argument (\<^verbatim>\<open>SKIP LOCKED\<close>).
    The locale \<open>settling_queue\<close> is what a worker relies on when it settles a job; it is interpreted on
    the operations, at one time and at varying times.
  \<^item> \<open>Timing\<close>: \<^verbatim>\<open>domain/backoff.py\<close>, \<^verbatim>\<open>debounce.py\<close>, \<^verbatim>\<open>sessions.py\<close>, \<^verbatim>\<open>events.py\<close>.
  \<^item> \<open>Worker\<close>: \<^verbatim>\<open>application/worker.py\<close>: running one job, the polling loop over an explicit list of turns
    (a stop flag, the clock, locks, a lost lease and the jitter of each), and a fleet of workers as an
    inductive step relation in which a worker may die at any step.
  \<^item> \<open>Corpus\<close>: the entities and their validation, the tables, the repositories, the blob store and the
    projection of one event. \<open>Lifecycle\<close>: \<^verbatim>\<open>application/ingest.py\<close> and \<^verbatim>\<open>sync.py\<close>. \<open>Deletion\<close>:
    \<^verbatim>\<open>application/deletion.py\<close>. \<open>Replay\<close>: \<^verbatim>\<open>application/replay.py\<close>. An operation is a step on the record of
    all tables; a transaction restores the tables when its body raises, and not the blob store. Transactions
    run one after the other.
  \<^item> \<open>Sentences\<close>, \<open>Chunker\<close>: \<^verbatim>\<open>adapters/chunking\<close>. The regular expressions are written out as scans. The
    model's tokenizer is an argument; the locale \<open>chunking\<close> says what is relied on from it, and is
    interpreted on the counter of \<^verbatim>\<open>tokens.py\<close> with every window.
  \<^item> \<open>Normalize\<close>, \<open>Embed\<close>: \<^verbatim>\<open>application/normalize.py\<close> and \<^verbatim>\<open>embed.py\<close> on a \<open>library\<close>, the corpus with the
    text columns, the chunk rows and the cache of vectors. Each opens several sessions; what other sessions
    commit in between is the argument \<open>others\<close>. Parsers, the embedding model and the digest are parameters.
    \<open>Pipeline\<close> has the step relation \<open>library_step\<close> of everything that writes a library and its
    invariant, over the locale \<open>chunker_port\<close>, which \<open>chunking\<close> extends to; \<open>Row_Identity\<close> shows that
    no step changes which item a row belongs to; \<open>Pipeline_Effects\<close> says what each operation leaves;
    \<open>Pipeline_Guarantees\<close> has the properties, with the chunker of the program for the port.
  \<^item> \<open>Citation\<close>, \<open>Citing\<close>: \<^verbatim>\<open>domain/citation.py\<close>, \<^verbatim>\<open>application/citations.py\<close> and \<^verbatim>\<open>verify_citations.py\<close>:
    the window of text around a span, citations of the library's chunks, and the two checks on them;
    properties in \<open>Citing_Guarantees\<close>.
  \<^item> \<open>Agent\<close>, \<open>Planner\<close>: \<^verbatim>\<open>application/agent\<close>: the tool registry, the compaction of the history, the retries
    and the loop of hops. The language model and the tools are parameters whose answers may depend on how
    often they were called; properties in \<open>Agent_Guarantees\<close>.
  \<^item> \<open>Stores\<close>, \<open>Signals\<close>, \<open>Graph_Expand\<close>, \<open>Search\<close>: \<^verbatim>\<open>application/search.py\<close> over both stores
    (\<^verbatim>\<open>adapters/db/keyword_store.py\<close>, \<^verbatim>\<open>vector_store.py\<close>, \<^verbatim>\<open>filters.py\<close>), \<^verbatim>\<open>domain/signals.py\<close> and the
    expansion of \<^verbatim>\<open>application/graph_expand.py\<close>, on a \<open>library\<close>. The match of Postgres, the approximate
    index, the embedder, the reranker and the rows of Neo4j are parameters. \<open>Regex\<close>, \<open>Calendar\<close>,
    \<open>Temporal_Intent\<close>: \<^verbatim>\<open>domain/temporal_intent.py\<close>, its patterns as terms of a matcher that computes the
    match Python finds first. Properties in \<open>Search_Guarantees\<close> and \<open>Temporal_Guarantees\<close>.
  \<^item> \<open>Explain\<close>: \<^verbatim>\<open>domain/explanation.py\<close> and \<^verbatim>\<open>explain_hits\<close>; properties in \<open>Explain_Guarantees\<close>.
  \<^item> \<open>Canonical\<close>, \<open>Entity_Extraction\<close>, \<open>Resolution\<close>: \<^verbatim>\<open>domain/canonicalize.py\<close>,
    \<^verbatim>\<open>application/extraction.py\<close> and \<^verbatim>\<open>resolution.py\<close> on an \<open>entity_base\<close>, the tables of entities, mentions
    and merges. \<open>Resolution_Guarantees\<close> has the step relation of everything that writes them, its
    invariant and the properties of merging and undoing, \<open>Entity_Guarantees\<close> those of a run and of an
    extraction, and the sample on which all of them are shown to apply.
  \<^item> \<open>Context_Engine\<close>: \<^verbatim>\<open>application/context_engine.py\<close>: the five sources, their fusion and selection,
    the text shown, and the cache of contexts with its fingerprint and its key, on the tables a search reads
    with those of decisions, evidence and cached contexts. The token counter, the embedder, SHA-256 and
    what \<^verbatim>\<open>jsonb\<close> does to the order of keys are parameters. \<open>Context_Guarantees\<close> has the properties of an
    assembled context, \<open>Context_Cache\<close> those of the cache, over a step relation of all its users.
  \<^item> \<open>Retrieval\<close>: \<^verbatim>\<open>domain/fusion.py\<close> and \<^verbatim>\<open>application/metrics.py\<close>. \<open>Selection\<close>: \<^verbatim>\<open>domain/context.py\<close>.
    \<open>Surfacing\<close>: \<^verbatim>\<open>domain/surfacing.py\<close>. \<open>Evidence\<close>: \<^verbatim>\<open>domain/patterns.py\<close>, \<^verbatim>\<open>missing.py\<close> and
    \<^verbatim>\<open>user_model.py\<close>.

  What the lemmas show. For the queue: one invariant (ids, in-flight keys, leases) that every operation
  keeps, a claim hands out the first due job, a job settles once, only its holder writes, a sweep frees
  every expired lease, no reachable fleet exceeds a job's attempts and a failing job ends as failed. For
  the corpus: one invariant that every operation keeps, whose core is that the table of memories is the
  projection of the log; from it that versions have no gaps, a full sync mirrors its listing, hiding and
  restoring are inverse, a purge removes content and keeps shared bytes, and a replay rebuilds what was
  not purged. For the chunker: its spans tile every document, chunks name their own text and fit the
  model, and no text is lost. For the pipeline: in every reachable library a stored chunk is the
  text of its memory at its offsets, one version of an item has chunks, a vector is the one the named
  model gives for the text of its chunk, and both use cases keep that under any interleaving; a second run
  of either does nothing; a citation of a stored chunk quotes the stored text, and both checks accept it
  unless its memory is hidden. For the agent: a run returns within its budgets of hops, calls and waiting,
  its stop reason is true, and it cites what its tools returned and nothing else. For search: a page shows only what the filters allow
  when the graph has no weight, every fused score is the sum of its terms, the page is the best of what
  was found, reranking drops nothing, a search answers whenever its parameters do, and an explanation
  adds up to the score it explains. For entities: pointers form a forest that is the merges in force, a
  merge moves every sighting of the loser or finds it at the winner, undoing the last merge restores what
  was moved, a run merges only by a certain strategy, and every sighting an extraction stores points at
  the name of the entity it is filed under. For contexts: one fits its budget, its number of items and its
  shares, every item names the sources that account for its relevance, nothing hidden is shown while the
  graph is off, and the cache gives back what was built, for the request it was built for. For the rest: fusion is its formula, selection keeps its
  budget, the confidence arithmetic is bounded and monotone.

  Recursion. Loops over an index carry a measure. The search for the support a pattern still needs is
  unbounded in the code and a partial function here, with the proof that it returns. The polling loop runs
  for as many turns as its list holds. The agent's
  loop and its retries run over the list of hops and attempts the code iterates over. The two walks along
  merge pointers take the bound of the code, eight. The matcher of regular expressions is structural in
  the pattern, a repetition in the characters left, so that no fuel is used anywhere.

  Where the code falls short of its comments, theorems say so: content ingested again after a purge has
  no bytes, a complete replay drops an item observed again after its purge, a failed purge cannot be run
  again, a refused replay can lose evidence links, a normalization that runs late takes the chunks of the
  current version, chunks that are adopted before they have vectors may never get them, a citation is
  resolved by its memory and ordinal, whatever it quotes, what the graph adds to a search bypasses its
  filters, some dates of a query raise, a temporal boost is not explained, merges undone out of order
  misfile their sightings, chains of merges arise, and a cached context can show a memory removed since.

  Not modelled: the command line and the HTTP routes, the adapters of language models, embeddings, the
  graph database and parsers, the projection of the graph, the SQL of reports and statistics, chat,
  asyncio scheduling and
  file system effects other than the presence of blobs. The model of a replay ends with the memories and
  the evidence links: the chunks, vectors and graph it rebuilds afterwards are left out of it.
\<close>

end
